(* ===== verification/Prelude.thy ===== *)
theory Prelude
  imports Main "HOL-Library.Word" "HOL-Library.List_Lexorder" "HOL-Library.AList"
begin

text \<open>
  The vocabulary shared by every theory of the development.

  \<^item> A JavaScript string is a list of UTF-16 code units, each a 16-bit word (\<open>jstr\<close>).
    The order of the instance \<open>list :: linorder\<close> of \<open>List_Lexorder\<close> at that type is the
    order of JavaScript's \<open><\<close> on strings.  \<open>js ''abc''\<close> writes a literal.
  \<^item> A file or a \<open>Buffer\<close> is a list of bytes (\<open>byte list\<close>).
  \<^item> A function of the source that throws returns \<open>'a result\<close>: \<open>Inl e\<close> for the error
    class it throws, \<open>Inr v\<close> for the value.  Messages are not modelled.
  \<^item> A JavaScript \<open>Map\<close> keeps insertion order: it is an association list written with
    \<open>AList.update\<close> (replace in place, or append) and read with \<open>map_of\<close>.
\<close>

section \<open>Types\<close>

type_synonym jstr = "16 word list"
type_synonym byte = "8 word"

text \<open>The error classes the modelled code throws.\<close>

datatype js_error =
    TypeError
  | RangeError
  | SyntaxError
  | PlainError
  | InputLimitError
  | UnsafeStorePathError
  | StoreFileTooLargeError
  | ReaderByteBudgetTooSmallError
  | ReadCoverageCapacityError
  | ActiveLeaseValidationError
  | ActiveLeaseRevisionConflictError
  | AggregateError
  | InvalidWorkstreamNameError
  | WorkstreamNameTakenError
  | WorkstreamNotFoundError
  | InvalidNudgeCursorError
  | NudgeCursorTooLargeError
  | UnsafeDirectoryLockPathError
  | DirectoryLockTimeoutError
  | DirectoryLockReleaseError
  | UnsafeDerivedOutputPathError
  | ReaderRecordTooLargeError
  | ReaderEvidenceNotFoundError
  | FeedMissingError

type_synonym 'a result = "js_error + 'a"

named_theorems pattern_defs \<open>definitions of the regular expressions on identifiers\<close>
named_theorems literal_simps \<open>evaluation of string literals\<close>

section \<open>Literals and identifier patterns\<close>

definition js :: "string \<Rightarrow> jstr" where
  "js s = map of_char s"

declare js_def [literal_simps]

lemma of_char_unat: "unat (of_char c :: 16 word) = of_char c"
proof -
  have "(of_char c :: nat) mod 256 < 256" by (rule mod_less_divisor) simp
  then have "(of_char c :: nat) < 65536" unfolding of_char_mod_256 by linarith
  then have "unat (of_nat (of_char c) :: 16 word) = of_char c"
    by (simp only: unat_of_nat) (simp add: mod_less)
  then show ?thesis by (simp add: of_nat_of_char)
qed

lemma js_inject [simp]: "js s = js t \<longleftrightarrow> s = t"
proof -
  have "inj (of_char :: char \<Rightarrow> 16 word)"
    by (rule injI) (metis of_char_unat of_char_eq_iff)
  then show ?thesis by (simp add: js_def inj_map_eq_map)
qed

lemma length_js [simp]: "length (js s) = length s"
  by (simp add: js_def)

lemma js_Nil [simp]: "js s = [] \<longleftrightarrow> s = []"
  by (simp add: js_def)

definition is_digit :: "16 word \<Rightarrow> bool" where
  "is_digit u \<longleftrightarrow> 0x30 \<le> u \<and> u \<le> 0x39"

definition is_lower :: "16 word \<Rightarrow> bool" where
  "is_lower u \<longleftrightarrow> 0x61 \<le> u \<and> u \<le> 0x7A"

definition is_hex :: "16 word \<Rightarrow> bool" where
  "is_hex u \<longleftrightarrow> is_digit u \<or> (0x61 \<le> u \<and> u \<le> 0x66)"

text \<open>\<open>/^prefix[0-9a-f]{n}$/\<close>\<close>

definition id_pattern :: "string \<Rightarrow> nat \<Rightarrow> jstr \<Rightarrow> bool" where
  "id_pattern p n s \<longleftrightarrow>
     take (length p) s = js p \<and> length s = length p + n \<and> list_all is_hex (drop (length p) s)"

definition session_id_pattern :: "jstr \<Rightarrow> bool" where
  "session_id_pattern = id_pattern ''ses_'' 32"

definition workstream_id_pattern :: "jstr \<Rightarrow> bool" where
  "workstream_id_pattern = id_pattern ''ws_'' 32"

definition turn_id_pattern :: "jstr \<Rightarrow> bool" where
  "turn_id_pattern = id_pattern ''turn_'' 32"

definition lease_id_pattern :: "jstr \<Rightarrow> bool" where
  "lease_id_pattern = id_pattern ''lease_'' 32"

definition sha256_pattern :: "jstr \<Rightarrow> bool" where
  "sha256_pattern = id_pattern '''' 64"

text \<open>\<open>/^[a-z][a-z0-9_-]*$/\<close>\<close>

definition provider_pattern :: "jstr \<Rightarrow> bool" where
  "provider_pattern s \<longleftrightarrow>
     (case s of [] \<Rightarrow> False
      | u # us \<Rightarrow> is_lower u \<and>
          list_all (\<lambda>v. is_lower v \<or> is_digit v \<or> v = 0x5F \<or> v = 0x2D) us)"

text \<open>\<open>/^(?:0|[1-9][0-9]*)$/\<close>\<close>

definition decimal_pattern :: "jstr \<Rightarrow> bool" where
  "decimal_pattern s \<longleftrightarrow>
     s = [0x30] \<or>
     (case s of [] \<Rightarrow> False
      | u # us \<Rightarrow> 0x31 \<le> u \<and> u \<le> 0x39 \<and> list_all is_digit us)"

lemmas identifier_patterns [pattern_defs] =
  is_digit_def is_lower_def is_hex_def id_pattern_def session_id_pattern_def
  workstream_id_pattern_def turn_id_pattern_def lease_id_pattern_def sha256_pattern_def
  provider_pattern_def decimal_pattern_def

lemma id_pattern_length: "id_pattern p n s \<Longrightarrow> length s = length p + n"
  by (simp add: id_pattern_def)

section \<open>Numbers\<close>

text \<open>\<open>Number.MAX_SAFE_INTEGER\<close> and the guards built on \<open>Number.isSafeInteger\<close>.\<close>

definition max_safe :: int where
  "max_safe = 2 ^ 53 - 1"

definition safe_int :: "int \<Rightarrow> bool" where
  "safe_int n \<longleftrightarrow> - max_safe \<le> n \<and> n \<le> max_safe"

definition safe_nonneg :: "int \<Rightarrow> bool" where
  "safe_nonneg n \<longleftrightarrow> safe_int n \<and> 0 \<le> n"

definition safe_pos :: "int \<Rightarrow> bool" where
  "safe_pos n \<longleftrightarrow> safe_int n \<and> 0 < n"

lemma safe_pos_nonneg: "safe_pos n \<Longrightarrow> safe_nonneg n"
  by (simp add: safe_pos_def safe_nonneg_def)

section \<open>Results and lists\<close>

text \<open>\<open>for (const x of xs) ys.push(f(x))\<close> where \<open>f\<close> may throw.\<close>

fun traverse :: "('a \<Rightarrow> 'b result) \<Rightarrow> 'a list \<Rightarrow> 'b list result" where
  "traverse f [] = Inr []"
| "traverse f (x # xs) =
     (case f x of Inl e \<Rightarrow> Inl e
      | Inr y \<Rightarrow> (case traverse f xs of Inl e \<Rightarrow> Inl e | Inr ys \<Rightarrow> Inr (y # ys)))"

lemma traverse_Inr: "traverse f xs = Inr ys \<Longrightarrow> list_all2 (\<lambda>x y. f x = Inr y) xs ys"
  by (induction xs arbitrary: ys) (auto split: sum.splits)

lemma traverse_all: "(\<And>x. x \<in> set xs \<Longrightarrow> f x = Inr (g x)) \<Longrightarrow> traverse f xs = Inr (map g xs)"
  by (induction xs) auto

lemma traverse_length: "traverse f xs = Inr ys \<Longrightarrow> length ys = length xs"
  by (drule traverse_Inr) (simp add: list_all2_lengthD)

lemma traverse_cong [fundef_cong]:
  "xs = ys \<Longrightarrow> (\<And>x. x \<in> set ys \<Longrightarrow> f x = g x) \<Longrightarrow> traverse f xs = traverse g ys"
  by (induction ys arbitrary: xs) (auto split: sum.splits)

text \<open>\<open>xs.at(-1)\<close>\<close>

definition at_last :: "'a list \<Rightarrow> 'a option" where
  "at_last xs = (if xs = [] then None else Some (last xs))"

lemma at_last_Nil [simp]: "at_last [] = None"
  by (simp add: at_last_def)

lemma at_last_snoc [simp]: "at_last (xs @ [x]) = Some x"
  by (simp add: at_last_def)

lemma at_last_None [simp]: "at_last xs = None \<longleftrightarrow> xs = []"
  by (simp add: at_last_def)

section \<open>Self-delimiting encodings\<close>

text \<open>
  An encoding is self-delimiting on a set of values when what follows an encoded value never
  changes how it is read.  Concatenations of such encodings are uniquely readable; the UTF-8
  code, the length-framed parts of stable identifiers and canonical JSON text all rest on it.
\<close>

locale self_delimiting =
  fixes enc :: "'a \<Rightarrow> 'b list" and ok :: "'a \<Rightarrow> bool"
  assumes enc_split: "ok x \<Longrightarrow> ok y \<Longrightarrow> enc x @ r = enc y @ s \<Longrightarrow> x = y"
    and enc_nonempty: "ok x \<Longrightarrow> enc x \<noteq> []"
begin

lemma enc_tail: "ok x \<Longrightarrow> ok y \<Longrightarrow> enc x @ r = enc y @ s \<Longrightarrow> x = y \<and> r = s"
  using enc_split by (metis same_append_eq)

lemma concat_inj:
  "\<forall>x\<in>set xs. ok x \<Longrightarrow> \<forall>y\<in>set ys. ok y \<Longrightarrow>
   concat (map enc xs) = concat (map enc ys) \<Longrightarrow> xs = ys"
proof (induction xs arbitrary: ys)
  case Nil
  then show ?case using enc_nonempty by (cases ys) auto
next
  case (Cons x xs)
  then show ?case
  proof (cases ys)
    case Nil
    with Cons.prems show ?thesis using enc_nonempty by auto
  next
    case (Cons y ys')
    with Cons.prems have "enc x @ concat (map enc xs) = enc y @ concat (map enc ys')"
      and "ok x" and "ok y" by auto
    then have "x = y" and "concat (map enc xs) = concat (map enc ys')"
      using enc_tail by blast+
    with Cons Cons.prems Cons.IH [of ys'] show ?thesis by simp
  qed
qed

text \<open>A terminator that no encoded value starts with delimits a concatenation.\<close>

lemma terminated_inj:
  assumes stop: "\<And>x. ok x \<Longrightarrow> hd (enc x) \<noteq> t"
  shows "\<forall>x\<in>set xs. ok x \<Longrightarrow> \<forall>y\<in>set ys. ok y \<Longrightarrow>
     concat (map enc xs) @ t # r = concat (map enc ys) @ t # s \<Longrightarrow> xs = ys \<and> r = s"
proof (induction xs arbitrary: ys)
  case Nil
  have "ys = []"
  proof (rule ccontr)
    assume "ys \<noteq> []"
    then obtain y ys' where ys: "ys = y # ys'" by (cases ys) auto
    with Nil have "t # r = enc y @ concat (map enc ys') @ t # s" and ok: "ok y" by auto
    with enc_nonempty [OF ok] have "hd (enc y) = t" by (metis hd_append2 list.sel(1))
    with stop [OF ok] show False by simp
  qed
  with Nil show ?case by simp
next
  case (Cons x xs)
  show ?case
  proof (cases ys)
    case Nil
    with Cons.prems have "enc x @ concat (map enc xs) @ t # r = t # s" and ok: "ok x" by auto
    with enc_nonempty [OF ok] have "hd (enc x) = t" by (metis hd_append2 list.sel(1))
    with stop [OF ok] show ?thesis by simp
  next
    case (Cons y ys')
    with Cons.prems have "enc x @ concat (map enc xs) @ t # r = enc y @ concat (map enc ys') @ t # s"
      and "ok x" and "ok y" by auto
    then have "x = y" and "concat (map enc xs) @ t # r = concat (map enc ys') @ t # s"
      using enc_tail by blast+
    with Cons Cons.prems Cons.IH [of ys'] show ?thesis by simp
  qed
qed

end

end
