(* ===== verification/Byte_Ranges.thy ===== *)
theory Byte_Ranges
  imports Prelude "HOL-Library.Product_Lexorder"
begin

text \<open>
  Delivered byte intervals (\<open>mergeReadRanges\<close> of \<open>nudge/read-state.ts\<close>): the sort by start and
  end, and the loop that merges touching intervals.  \<open>covered\<close> is the set of bytes a list of
  intervals stands for; the merged list is its only normal form.
\<close>

record read_range =
  r_start :: int
  r_end :: int

definition MAX_READ_COVERAGE_RANGES :: nat where
  "MAX_READ_COVERAGE_RANGES = 256"

definition range_ok :: "read_range \<Rightarrow> bool" where
  "range_ok r \<longleftrightarrow> safe_nonneg (r_start r) \<and> safe_nonneg (r_end r) \<and> r_start r \<le> r_end r"

text \<open>The body of the loop over the sorted intervals.\<close>

definition merge_step :: "read_range list \<Rightarrow> read_range \<Rightarrow> read_range list result" where
  "merge_step merged r =
     (if \<not> safe_nonneg (r_start r) \<or> \<not> safe_nonneg (r_end r) \<or> r_end r < r_start r then Inl TypeError
      else case at_last merged of
          Some p \<Rightarrow>
            if r_start r \<le> r_end p
            then Inr (butlast merged @ [\<lparr> r_start = r_start p, r_end = max (r_end p) (r_end r) \<rparr>])
            else Inr (merged @ [r])
        | None \<Rightarrow> Inr (merged @ [r]))"

fun merge_loop :: "read_range list \<Rightarrow> read_range list \<Rightarrow> read_range list result" where
  "merge_loop merged [] = Inr merged"
| "merge_loop merged (r # rs) =
     (case merge_step merged r of Inl e \<Rightarrow> Inl e | Inr m \<Rightarrow> merge_loop m rs)"

definition sort_ranges :: "read_range list \<Rightarrow> read_range list" where
  "sort_ranges = sort_key (\<lambda>r. (r_start r, r_end r))"

definition mergeReadRanges :: "read_range list \<Rightarrow> read_range list result" where
  "mergeReadRanges ranges =
     (case merge_loop [] (sort_ranges ranges) of
        Inl e \<Rightarrow> Inl e
      | Inr merged \<Rightarrow> if length merged > MAX_READ_COVERAGE_RANGES then Inl ReadCoverageCapacityError
                      else Inr merged)"

section \<open>Bytes covered and normal forms\<close>

definition bytes_of :: "read_range \<Rightarrow> int set" where
  "bytes_of r = {r_start r..<r_end r}"

definition covered :: "read_range list \<Rightarrow> int set" where
  "covered rs = (\<Union>r\<in>set rs. bytes_of r)"

text \<open>Ascending, in bounds, and separated by at least one byte.\<close>

definition normalized :: "read_range list \<Rightarrow> bool" where
  "normalized rs \<longleftrightarrow> list_all range_ok rs \<and> sorted_wrt (\<lambda>a b. r_end a < r_start b) rs"

definition nonempty :: "read_range list \<Rightarrow> bool" where
  "nonempty rs \<longleftrightarrow> list_all (\<lambda>r. r_start r < r_end r) rs"

named_theorems range_simps

lemma covered_Nil [simp]: "covered [] = {}"
  by (simp add: covered_def)

lemma covered_Cons [simp]: "covered (r # rs) = bytes_of r \<union> covered rs"
  by (simp add: covered_def)

lemma covered_append [simp]: "covered (rs @ ss) = covered rs \<union> covered ss"
  by (simp add: covered_def)

lemma covered_sort [simp]: "covered (sort_ranges rs) = covered rs"
  by (simp add: covered_def sort_ranges_def)

lemma normalized_Cons [range_simps]:
  "normalized (r # rs) \<longleftrightarrow> range_ok r \<and> (\<forall>s\<in>set rs. r_end r < r_start s) \<and> normalized rs"
  by (auto simp: normalized_def)

lemma normalized_snoc [range_simps]:
  "normalized (rs @ [r]) \<longleftrightarrow> normalized rs \<and> range_ok r \<and> (\<forall>s\<in>set rs. r_end s < r_start r)"
  by (auto simp: normalized_def sorted_wrt_append)

lemma normalized_Nil [simp]: "normalized []"
  by (simp add: normalized_def)

lemma nonempty_Cons [range_simps]: "nonempty (r # rs) \<longleftrightarrow> r_start r < r_end r \<and> nonempty rs"
  by (simp add: nonempty_def)

section \<open>The loop\<close>

text \<open>What holds between the intervals merged so far and those still to come.\<close>

definition merge_state :: "read_range list \<Rightarrow> read_range list \<Rightarrow> bool" where
  "merge_state merged rest \<longleftrightarrow>
     normalized merged \<and> sorted (map r_start rest) \<and>
     (\<forall>m\<in>set merged. \<forall>r\<in>set rest. r_start m \<le> r_start r)"

lemma merge_step_ok:
  assumes st: "merge_state merged (r # rest)" and ok: "range_ok r"
  obtains m where "merge_step merged r = Inr m" "merge_state m rest"
    "covered m = covered merged \<union> bytes_of r"
proof (cases merged rule: rev_cases)
  case Nil
  show ?thesis
    by (rule that [of "[r]"])
      (use st ok in \<open>auto simp: Nil merge_step_def range_ok_def merge_state_def normalized_def\<close>)
next
  case (snoc ms p)
  have n: "normalized ms" "range_ok p" "\<forall>s\<in>set ms. r_end s < r_start p" "r_start p \<le> r_start r"
    using st by (auto simp: snoc merge_state_def range_simps)
  show ?thesis
  proof (cases "r_start r \<le> r_end p")
    case True
    let ?q = "\<lparr> r_start = r_start p, r_end = max (r_end p) (r_end r) \<rparr>"
    show ?thesis
    proof (rule that [of "ms @ [?q]"])
      show "merge_step merged r = Inr (ms @ [?q])"
        using ok True by (simp add: snoc merge_step_def range_ok_def)
      have "range_ok ?q" using n(2) ok by (auto simp: range_ok_def max_def)
      then show "merge_state (ms @ [?q]) rest"
        using st n(1,3) by (auto simp: snoc merge_state_def range_simps)
      have "bytes_of ?q = bytes_of p \<union> bytes_of r"
        using True n(2,4) ok by (auto simp: bytes_of_def range_ok_def)
      then show "covered (ms @ [?q]) = covered merged \<union> bytes_of r"
        by (auto simp: snoc)
    qed
  next
    case False
    have before: "\<forall>s\<in>set merged. r_end s < r_start r"
      using n False by (auto simp: snoc range_ok_def)
    show ?thesis
    proof (rule that [of "merged @ [r]"])
      show "merge_step merged r = Inr (merged @ [r])"
        using ok False by (simp add: snoc merge_step_def range_ok_def)
      have "normalized (merged @ [r])"
        using st ok before by (simp add: normalized_snoc merge_state_def)
      with st show "merge_state (merged @ [r]) rest" by (auto simp: merge_state_def)
    qed simp
  qed
qed

lemma merge_loop_ok:
  "merge_state merged rest \<Longrightarrow> list_all range_ok rest \<Longrightarrow>
   \<exists>m. merge_loop merged rest = Inr m \<and> normalized m \<and> covered m = covered merged \<union> covered rest"
proof (induction rest arbitrary: merged)
  case (Cons r rest)
  from merge_step_ok [OF Cons.prems(1)] Cons.prems(2) obtain m
    where m: "merge_step merged r = Inr m" "merge_state m rest" "covered m = covered merged \<union> bytes_of r"
    by auto
  from Cons.IH [OF m(2)] Cons.prems(2) m show ?case by auto
qed (simp add: merge_state_def)

lemma merge_loop_refuses:
  "\<not> list_all range_ok rest \<Longrightarrow> merge_loop merged rest = Inl TypeError"
proof (induction rest arbitrary: merged)
  case (Cons r rest)
  show ?case
  proof (cases "range_ok r")
    case True
    then have "merge_step merged r \<noteq> Inl e" for e
      by (cases merged rule: rev_cases) (auto simp: merge_step_def range_ok_def)
    then obtain m where "merge_step merged r = Inr m" by (cases "merge_step merged r") auto
    with Cons True show ?thesis by simp
  qed (auto simp: merge_step_def range_ok_def)
qed simp

lemma merge_state_start: "merge_state [] (sort_ranges rs)"
proof -
  have "sorted (map (\<lambda>r. (r_start r, r_end r)) (sort_ranges rs))" by (simp add: sort_ranges_def)
  then have "sorted (map r_start (sort_ranges rs))"
    unfolding sorted_map by (rule sorted_wrt_mono_rel [rotated]) auto
  then show ?thesis by (simp add: merge_state_def)
qed

lemma list_all_sort_ranges: "list_all P (sort_ranges rs) \<longleftrightarrow> list_all P rs"
  by (simp add: list_all_iff sort_ranges_def)

lemma mergeReadRanges_ok:
  assumes "list_all range_ok rs"
  obtains m where "normalized m" "covered m = covered rs"
    "mergeReadRanges rs = (if length m > MAX_READ_COVERAGE_RANGES then Inl ReadCoverageCapacityError
                           else Inr m)"
proof -
  have "list_all range_ok (sort_ranges rs)" using assms by (simp add: list_all_sort_ranges)
  from merge_loop_ok [OF merge_state_start this] that show ?thesis
    unfolding mergeReadRanges_def by (elim exE conjE) simp
qed

lemma mergeReadRanges_refuses: "\<not> list_all range_ok rs \<Longrightarrow> mergeReadRanges rs = Inl TypeError"
  by (simp add: mergeReadRanges_def merge_loop_refuses list_all_sort_ranges)

lemma mergeReadRanges_Inr:
  assumes "mergeReadRanges rs = Inr m"
  shows "list_all range_ok rs" "normalized m" "covered m = covered rs"
    "length m \<le> MAX_READ_COVERAGE_RANGES"
proof -
  show ok: "list_all range_ok rs" using assms mergeReadRanges_refuses by fastforce
  from mergeReadRanges_ok [OF ok] obtain n
    where n: "normalized n" "covered n = covered rs"
      "mergeReadRanges rs = (if length n > MAX_READ_COVERAGE_RANGES then Inl ReadCoverageCapacityError
                             else Inr n)" .
  with assms have "m = n \<and> length n \<le> MAX_READ_COVERAGE_RANGES" by (simp split: if_splits)
  with n show "normalized m" "covered m = covered rs" "length m \<le> MAX_READ_COVERAGE_RANGES" by simp_all
qed

section \<open>Normal forms are unique\<close>

lemma covered_after: "normalized (r # rs) \<Longrightarrow> x \<in> covered rs \<Longrightarrow> r_end r < x"
  by (force simp: range_simps covered_def bytes_of_def)

lemma covered_tail:
  "normalized (r # rs) \<Longrightarrow> covered rs = covered (r # rs) - bytes_of r"
proof -
  assume "normalized (r # rs)"
  then have "covered rs \<inter> bytes_of r = {}"
    using covered_after [of r rs] by (force simp: bytes_of_def)
  then show ?thesis by auto
qed

lemma normalized_head:
  assumes n: "normalized (r # rs)" "normalized (s # ss)" "r_start r < r_end r" "r_start s < r_end s"
    and eq: "covered (r # rs) = covered (s # ss)"
  shows "r_start s \<le> r_start r" "r_start r = r_start s \<Longrightarrow> r_end s \<le> r_end r"
proof -
  have "r_start r \<in> covered (r # rs)" using n(3) by (simp add: bytes_of_def)
  then have "r_start r \<in> covered (s # ss)" by (simp only: eq)
  with covered_after [OF n(2)] n(4) show "r_start s \<le> r_start r" by (force simp: bytes_of_def)
  assume start: "r_start r = r_start s"
  show "r_end s \<le> r_end r"
  proof (rule ccontr)
    assume "\<not> r_end s \<le> r_end r"
    then have "r_end r \<in> covered (s # ss)" using n(3) start by (auto simp: bytes_of_def)
    then have "r_end r \<in> covered (r # rs)" by (simp only: eq)
    with covered_after [OF n(1)] show False by (auto simp: bytes_of_def)
  qed
qed

lemma normalized_unique:
  "normalized rs \<Longrightarrow> normalized ss \<Longrightarrow> nonempty rs \<Longrightarrow> nonempty ss \<Longrightarrow>
   covered rs = covered ss \<Longrightarrow> rs = ss"
proof (induction rs arbitrary: ss)
  case Nil
  then show ?case by (cases ss) (auto simp: range_simps bytes_of_def)
next
  case (Cons r rs)
  obtain s ss' where ss: "ss = s # ss'"
    using Cons.prems by (cases ss) (auto simp: range_simps bytes_of_def)
  have ne: "r_start r < r_end r" "r_start s < r_end s"
    using Cons.prems by (simp_all add: ss range_simps)
  have n: "normalized (r # rs)" "normalized (s # ss')" "covered (r # rs) = covered (s # ss')"
    using Cons.prems by (simp_all add: ss)
  note left = normalized_head [OF n(1,2) ne n(3)]
    and right = normalized_head [OF n(2,1) ne(2,1) n(3) [symmetric]]
  have start: "r_start r = r_start s" using left(1) right(1) by simp
  have "r_end r = r_end s" using left(2) [OF start] right(2) [OF start [symmetric]] by simp
  with start have rs: "r = s" by simp
  have "rs = ss'"
  proof (rule Cons.IH)
    show "covered rs = covered ss'"
      using covered_tail [OF n(1)] covered_tail [OF n(2)] n(3) rs by simp
  qed (use n Cons.prems in \<open>simp_all add: ss range_simps\<close>)
  with rs show ?case by (simp add: ss)
qed

lemma mergeReadRanges_normal:
  "normalized rs \<Longrightarrow> length rs \<le> MAX_READ_COVERAGE_RANGES \<Longrightarrow> mergeReadRanges rs = Inr rs"
proof -
  assume n: "normalized rs" and len: "length rs \<le> MAX_READ_COVERAGE_RANGES"
  have sorted: "sort_ranges rs = rs"
  proof -
    have "sorted_wrt (\<lambda>a b. (r_start a, r_end a) \<le> (r_start b, r_end b)) rs"
    proof (rule sorted_wrt_mono_rel)
      show "sorted_wrt (\<lambda>a b. r_end a < r_start b) rs" using n by (simp add: normalized_def)
      fix a b assume "a \<in> set rs" "b \<in> set rs" "r_end a < r_start b"
      moreover have "r_start a \<le> r_end a"
        using n \<open>a \<in> set rs\<close> by (simp add: normalized_def list_all_iff range_ok_def)
      ultimately show "(r_start a, r_end a) \<le> (r_start b, r_end b)" by simp
    qed
    then have "sorted (map (\<lambda>r. (r_start r, r_end r)) rs)" by (simp add: sorted_map)
    then show ?thesis by (simp add: sort_ranges_def sort_key_id_if_sorted)
  qed
  have "merge_loop ms ys = Inr (ms @ ys)" if "normalized (ms @ ys)" for ms ys
    using that
  proof (induction ys arbitrary: ms)
    case (Cons y ys)
    have "range_ok y" "\<forall>m\<in>set ms. r_end m < r_start y"
      using Cons.prems by (auto simp: normalized_def sorted_wrt_append)
    then have "merge_step ms y = Inr (ms @ [y])"
      by (cases ms rule: rev_cases) (auto simp: merge_step_def range_ok_def)
    with Cons show ?case by simp
  qed simp
  from this [of "[]" rs] n len show ?thesis by (simp add: mergeReadRanges_def sorted)
qed

lemma merge_step_nonempty:
  "nonempty merged \<Longrightarrow> r_start r < r_end r \<Longrightarrow> merge_step merged r = Inr m \<Longrightarrow> nonempty m"
  by (cases merged rule: rev_cases) (auto simp: merge_step_def nonempty_def split: if_splits)

lemma merge_loop_nonempty:
  "nonempty merged \<Longrightarrow> nonempty rest \<Longrightarrow> merge_loop merged rest = Inr m \<Longrightarrow> nonempty m"
  by (induction rest arbitrary: merged)
    (auto simp: range_simps split: sum.splits dest: merge_step_nonempty)

lemma mergeReadRanges_nonempty: "nonempty rs \<Longrightarrow> mergeReadRanges rs = Inr m \<Longrightarrow> nonempty m"
  using merge_loop_nonempty [of "[]" "sort_ranges rs" m]
  by (auto simp: mergeReadRanges_def nonempty_def list_all_sort_ranges split: sum.splits if_splits)

text \<open>Both ways an input of valid intervals can end are fixed by the bytes it covers.\<close>

lemma mergeReadRanges_cover:
  assumes "list_all range_ok rs" "nonempty rs"
  obtains m where "normalized m" "nonempty m" "covered m = covered rs"
    "mergeReadRanges rs = (if length m > MAX_READ_COVERAGE_RANGES then Inl ReadCoverageCapacityError
                           else Inr m)"
proof -
  have "list_all range_ok (sort_ranges rs)" "nonempty (sort_ranges rs)"
    using assms by (simp_all add: list_all_sort_ranges nonempty_def)
  then obtain m where "merge_loop [] (sort_ranges rs) = Inr m" "normalized m" "nonempty m"
      "covered m = covered rs"
    using merge_loop_ok [OF merge_state_start, of rs] merge_loop_nonempty [of "[]" "sort_ranges rs"]
    by (auto simp: nonempty_def)
  then show ?thesis by (intro that [of m]) (simp_all add: mergeReadRanges_def)
qed

section \<open>Properties\<close>

text \<open>Merging delivered intervals loses no byte and bridges no gap: the result covers
  exactly the bytes of the input and is in normal form within the bound of 256 intervals.  It is
  refused as malformed exactly when an interval is, and as over capacity only otherwise.\<close>

theorem mergeReadRanges_exact:
  "case mergeReadRanges rs of
     Inr m \<Rightarrow> list_all range_ok rs \<and> covered m = covered rs \<and> normalized m \<and>
              length m \<le> MAX_READ_COVERAGE_RANGES
   | Inl e \<Rightarrow> e = (if list_all range_ok rs then ReadCoverageCapacityError else TypeError)"
proof (cases "list_all range_ok rs")
  case True
  then obtain m where m: "normalized m" "covered m = covered rs"
    "mergeReadRanges rs = (if length m > MAX_READ_COVERAGE_RANGES then Inl ReadCoverageCapacityError
                           else Inr m)"
    by (rule mergeReadRanges_ok)
  show ?thesis
    unfolding m(3) using True m(1,2) by (cases "length m > MAX_READ_COVERAGE_RANGES") simp_all
qed (simp add: mergeReadRanges_refuses)

text \<open>Two deliveries of the same bytes merge to the same list, in whatever order, overlap or
  division into pages they arrived.\<close>

theorem mergeReadRanges_determined:
  assumes "list_all range_ok rs" "nonempty rs" "list_all range_ok ss" "nonempty ss"
    and eq: "covered rs = covered ss"
  shows "mergeReadRanges rs = mergeReadRanges ss"
proof -
  obtain m where m: "normalized m" "nonempty m" "covered m = covered rs"
    "mergeReadRanges rs = (if length m > MAX_READ_COVERAGE_RANGES then Inl ReadCoverageCapacityError
                           else Inr m)"
    by (rule mergeReadRanges_cover [OF assms(1,2)])
  obtain n where n: "normalized n" "nonempty n" "covered n = covered ss"
    "mergeReadRanges ss = (if length n > MAX_READ_COVERAGE_RANGES then Inl ReadCoverageCapacityError
                           else Inr n)"
    by (rule mergeReadRanges_cover [OF assms(3,4)])
  have "m = n" using normalized_unique [OF m(1) n(1) m(2) n(2)] m(3) n(3) eq by simp
  with m n show ?thesis by simp
qed

definition page :: "int \<Rightarrow> int \<Rightarrow> read_range" where
  "page a b = \<lparr> r_start = a, r_end = b \<rparr>"

theorem mergeReadRanges_determined_witness:
  "mergeReadRanges [page 4 9, page 0 6, page 12 15] = mergeReadRanges [page 0 9, page 12 15]"
proof (rule mergeReadRanges_determined)
  show "covered [page 4 9, page 0 6, page 12 15] = covered [page 0 9, page 12 15]"
    by (auto simp: bytes_of_def page_def)
qed (simp_all add: page_def range_ok_def nonempty_def safe_nonneg_def safe_int_def max_safe_def)

end
