(* ===== verification/Js_Text.thy ===== *)
theory Js_Text
  imports Prelude
begin

text \<open>
  Text as the program measures it.  JavaScript strings are UTF-16; every bound of Barbaro is in
  UTF-8 bytes (\<open>Buffer.byteLength(s, "utf8")\<close>).  This theory models the iteration of a string
  by code points (\<open>for (const character of value)\<close>), its UTF-8 form with lone surrogates
  replaced by U+FFFD as \<open>Buffer.from\<close> does, and the truncation routines of
  \<open>core/content.ts\<close> and \<open>reader/budget.ts\<close>, with the records of \<open>core/content.ts\<close> built on
  them.
\<close>

section \<open>Code points and UTF-8\<close>

definition high_surrogate :: "16 word \<Rightarrow> bool" where
  "high_surrogate u \<longleftrightarrow> 0xD800 \<le> unat u \<and> unat u < 0xDC00"

definition low_surrogate :: "16 word \<Rightarrow> bool" where
  "low_surrogate u \<longleftrightarrow> 0xDC00 \<le> unat u \<and> unat u < 0xE000"

text \<open>The string iterator: a surrogate pair is one character, every other unit is its own.\<close>

fun characters :: "jstr \<Rightarrow> jstr list" where
  "characters [] = []"
| "characters [u] = [[u]]"
| "characters (u # v # us) =
     (if high_surrogate u \<and> low_surrogate v then [u, v] # characters us
      else [u] # characters (v # us))"

definition byte_of :: "nat \<Rightarrow> byte" where
  "byte_of n = of_nat n"

definition unit_of :: "nat \<Rightarrow> 16 word" where
  "unit_of n = of_nat n"

lemma unat_unit: "unat (u :: 16 word) < 0x10000"
  using unsigned_less [of u] by simp

lemma unat_unit_of: "n < 0x10000 \<Longrightarrow> unat (unit_of n) = n"
  by (simp add: unit_of_def unat_of_nat)

lemma unit_of_unat [simp]: "unit_of (unat u) = u"
  by (simp add: unit_of_def)

text \<open>The UTF-8 bytes of one character.\<close>

fun utf8_char :: "jstr \<Rightarrow> byte list" where
  "utf8_char [u] =
     (let c = unat u in
      if c < 0x80 then [byte_of c]
      else if c < 0x800 then [byte_of (0xC0 + c div 64), byte_of (0x80 + c mod 64)]
      else if high_surrogate u \<or> low_surrogate u then [0xEF, 0xBF, 0xBD]
      else [byte_of (0xE0 + c div 4096), byte_of (0x80 + c div 64 mod 64), byte_of (0x80 + c mod 64)])"
| "utf8_char [u, v] =
     (let c = 0x10000 + (unat u - 0xD800) * 1024 + (unat v - 0xDC00) in
      [byte_of (0xF0 + c div 262144), byte_of (0x80 + c div 4096 mod 64),
       byte_of (0x80 + c div 64 mod 64), byte_of (0x80 + c mod 64)])"
| "utf8_char _ = []"

definition utf8 :: "jstr \<Rightarrow> byte list" where
  "utf8 s = concat (map utf8_char (characters s))"

definition byte_length :: "jstr \<Rightarrow> nat" where
  "byte_length s = length (utf8 s)"

text \<open>What one element of \<open>characters\<close> looks like.\<close>

definition is_character :: "jstr \<Rightarrow> bool" where
  "is_character c \<longleftrightarrow>
     (\<exists>u. c = [u]) \<or> (\<exists>u v. c = [u, v] \<and> high_surrogate u \<and> low_surrogate v)"

lemma concat_characters [simp]: "concat (characters s) = s"
  by (induction s rule: characters.induct) auto

lemma characters_are: "c \<in> set (characters s) \<Longrightarrow> is_character c"
  by (induction s rule: characters.induct) (auto simp: is_character_def split: if_splits)

lemma surrogates_disjoint: "high_surrogate u \<Longrightarrow> \<not> low_surrogate u"
  by (simp add: high_surrogate_def low_surrogate_def)

lemma characters_of_character: "is_character c \<Longrightarrow> characters c = [c]"
  by (auto simp: is_character_def)

lemma utf8_Nil [simp]: "utf8 [] = []"
  by (simp add: utf8_def)

lemma byte_length_Nil [simp]: "byte_length [] = 0"
  by (simp add: byte_length_def)

lemma utf8_character: "is_character c \<Longrightarrow> utf8 c = utf8_char c"
  by (simp add: utf8_def characters_of_character)

text \<open>
  Reading characters one by one from a list of characters that came from a string gives that
  list back: cutting a string at a character boundary never merges or splits characters.
\<close>

lemma characters_take: "characters (concat (take k (characters s))) = take k (characters s)"
proof (induction s arbitrary: k rule: characters.induct)
  case (3 u v us)
  show ?case
  proof (cases k)
    case 0
    then show ?thesis by simp
  next
    case (Suc j)
    show ?thesis
    proof (cases "high_surrogate u \<and> low_surrogate v")
      case True
      with Suc "3.IH"(1) [of j] show ?thesis by simp
    next
      case False
      let ?rest = "take j (characters (v # us))"
      from "3.IH"(2) [of j] False have rest: "characters (concat ?rest) = ?rest" by simp
      have "concat ?rest = [] \<or> hd (concat ?rest) = v"
      proof (cases j)
        case (Suc i)
        then show ?thesis by (cases us) (auto split: if_splits)
      qed simp
      then have "characters (u # concat ?rest) = [u] # characters (concat ?rest)"
        using False by (cases "concat ?rest") (simp only: characters.simps, auto)
      with rest False Suc show ?thesis by auto
    qed
  qed
next
  case (2 u)
  then show ?case by (cases k) auto
qed simp

lemma utf8_take: "utf8 (concat (take k (characters s))) = concat (map utf8_char (take k (characters s)))"
  by (simp add: utf8_def characters_take)

lemma byte_length_js_ascii: "list_all (\<lambda>u. unat u < 0x80) s \<Longrightarrow> byte_length s = length s"
proof (induction s rule: characters.induct)
  case (3 u v us)
  then have "\<not> high_surrogate u" by (simp add: high_surrogate_def)
  with 3 show ?case by (simp add: byte_length_def utf8_def)
qed (auto simp: byte_length_def utf8_def)

section \<open>Unique readability of UTF-8\<close>

text \<open>
  On strings without lone surrogates the UTF-8 form determines the string.  A lone surrogate is
  written as U+FFFD, so the hypothesis is needed.
\<close>

definition well_formed_char :: "jstr \<Rightarrow> bool" where
  "well_formed_char c \<longleftrightarrow> is_character c \<and>
     (case c of [u] \<Rightarrow> \<not> high_surrogate u \<and> \<not> low_surrogate u | _ \<Rightarrow> True)"

definition well_formed :: "jstr \<Rightarrow> bool" where
  "well_formed s \<longleftrightarrow> list_all well_formed_char (characters s)"

fun code_point :: "jstr \<Rightarrow> nat" where
  "code_point [u] = unat u"
| "code_point [u, v] = 0x10000 + (unat u - 0xD800) * 1024 + (unat v - 0xDC00)"
| "code_point _ = 0"

definition encode_cp :: "nat \<Rightarrow> byte list" where
  "encode_cp c =
     (if c < 0x80 then [byte_of c]
      else if c < 0x800 then [byte_of (0xC0 + c div 64), byte_of (0x80 + c mod 64)]
      else if c < 0x10000 then
        [byte_of (0xE0 + c div 4096), byte_of (0x80 + c div 64 mod 64), byte_of (0x80 + c mod 64)]
      else
        [byte_of (0xF0 + c div 262144), byte_of (0x80 + c div 4096 mod 64),
         byte_of (0x80 + c div 64 mod 64), byte_of (0x80 + c mod 64)])"

lemma well_formed_char_shape:
  "well_formed_char c \<Longrightarrow>
     (\<exists>u. c = [u] \<and> \<not> high_surrogate u \<and> \<not> low_surrogate u) \<or>
     (\<exists>u v. c = [u, v] \<and> high_surrogate u \<and> low_surrogate v)"
  by (auto simp: well_formed_char_def is_character_def)

lemma well_formed_char_cp:
  assumes "well_formed_char c"
  shows "utf8_char c = encode_cp (code_point c)" and "code_point c < 0x110000"
    and "(\<exists>u. c = [u]) \<longleftrightarrow> code_point c < 0x10000"
proof -
  have "utf8_char c = encode_cp (code_point c) \<and> code_point c < 0x110000 \<and>
      ((\<exists>u. c = [u]) \<longleftrightarrow> code_point c < 0x10000)"
    using well_formed_char_shape [OF assms] unat_unit
  proof (elim disjE exE conjE)
    fix u
    assume "c = [u]" "\<not> high_surrogate u" "\<not> low_surrogate u"
    with unat_unit [of u] show ?thesis by (simp add: encode_cp_def Let_def)
  next
    fix u v
    assume "c = [u, v]" "high_surrogate u" "low_surrogate v"
    then show ?thesis
      by (simp add: encode_cp_def Let_def high_surrogate_def low_surrogate_def) linarith
  qed
  then show "utf8_char c = encode_cp (code_point c)" and "code_point c < 0x110000"
    and "(\<exists>u. c = [u]) \<longleftrightarrow> code_point c < 0x10000" by blast+
qed

lemma place_value:
  assumes "b < 1024" "b' < 1024" "a * 1024 + b = a' * 1024 + (b' :: nat)"
  shows "a = a'" and "b = b'"
proof -
  from assms(1,2) have "(a * 1024 + b) div 1024 = a" and "(a' * 1024 + b') div 1024 = a'"
    by simp_all
  with assms(3) show "a = a'" by simp
  with assms(3) show "b = b'" by simp
qed

lemma code_point_inj:
  assumes "well_formed_char c" "well_formed_char d" "code_point c = code_point d"
  shows "c = d"
proof (cases "code_point c < 0x10000")
  case True
  then show ?thesis
    using assms well_formed_char_cp(3) [OF assms(1)] well_formed_char_cp(3) [OF assms(2)]
    by (auto simp: word_unat_eq_iff)
next
  case False
  then obtain u v u' v' where c: "c = [u, v]" "high_surrogate u" "low_surrogate v"
    and d: "d = [u', v']" "high_surrogate u'" "low_surrogate v'"
    using assms well_formed_char_shape well_formed_char_cp(3) by metis
  let ?a = "unat u - 0xD800" and ?b = "unat v - 0xDC00"
  let ?a' = "unat u' - 0xD800" and ?b' = "unat v' - 0xDC00"
  have "?b < 1024" "?b' < 1024" using c d by (auto simp: low_surrogate_def)
  moreover have "?a * 1024 + ?b = ?a' * 1024 + ?b'" using assms(3) c d by simp
  ultimately have "?a = ?a'" "?b = ?b'" using place_value by blast+
  then have "unat u = unat u'" "unat v = unat v'"
    using c d by (auto simp: low_surrogate_def high_surrogate_def)
  with c d show ?thesis by (simp add: word_unat_eq_iff)
qed

text \<open>Reading the first code point back from a byte list.\<close>

definition decode_cp :: "byte list \<Rightarrow> nat" where
  "decode_cp bs =
     (let b = (\<lambda>i. unat (bs ! i)) in
      if b 0 < 0x80 then b 0
      else if b 0 < 0xE0 then (b 0 - 0xC0) * 64 + (b 1 - 0x80)
      else if b 0 < 0xF0 then ((b 0 - 0xE0) * 64 + (b 1 - 0x80)) * 64 + (b 2 - 0x80)
      else (((b 0 - 0xF0) * 64 + (b 1 - 0x80)) * 64 + (b 2 - 0x80)) * 64 + (b 3 - 0x80))"

lemma unat_byte_of: "n < 256 \<Longrightarrow> unat (byte_of n) = n"
  by (simp add: byte_of_def unat_of_nat)

lemma three_digits: "(x :: nat) div 4096 * 64 + x div 64 mod 64 = x div 64"
  using div_mult2_eq [of x 64 64] by simp

lemma four_digits: "(x :: nat) div 262144 * 64 + x div 4096 mod 64 = x div 4096"
  using div_mult2_eq [of x 4096 64] by simp

lemma decode_encode_cp:
  assumes "n < 0x110000"
  shows "decode_cp (encode_cp n @ r) = n"
proof -
  have lead: "n < 0x800 \<Longrightarrow> n div 64 < 32" "n < 0x10000 \<Longrightarrow> n div 4096 < 16" "n div 262144 < 8"
    using assms by simp_all
  have cont: "unat (byte_of (0x80 + m mod 64)) = 0x80 + m mod 64" for m
    using mod_less_divisor [of 64 m] by (intro unat_byte_of) simp
  consider "n < 0x80" | "0x80 \<le> n" "n < 0x800" | "0x800 \<le> n" "n < 0x10000" | "0x10000 \<le> n"
    by linarith
  then show ?thesis
  proof cases
    case 1
    then show ?thesis by (simp add: encode_cp_def decode_cp_def unat_byte_of)
  next
    case 2
    with lead(1) have "unat (byte_of (0xC0 + n div 64)) = 0xC0 + n div 64"
      by (intro unat_byte_of) simp
    with 2 lead(1) show ?thesis by (simp add: encode_cp_def decode_cp_def cont)
  next
    case 3
    with lead(2) have "unat (byte_of (0xE0 + n div 4096)) = 0xE0 + n div 4096"
      by (intro unat_byte_of) simp
    with 3 lead(2) show ?thesis
      by (simp add: encode_cp_def decode_cp_def cont three_digits)
  next
    case 4
    from lead(3) have "unat (byte_of (0xF0 + n div 262144)) = 0xF0 + n div 262144"
      by (intro unat_byte_of) simp
    with 4 lead(3) show ?thesis
      by (simp add: encode_cp_def decode_cp_def cont four_digits three_digits)
  qed
qed

lemma encode_cp_split:
  "n < 0x110000 \<Longrightarrow> m < 0x110000 \<Longrightarrow> encode_cp n @ r = encode_cp m @ s \<Longrightarrow> n = m"
  by (metis decode_encode_cp)

interpretation utf8_code: self_delimiting utf8_char well_formed_char
proof
  fix x y r s
  assume "well_formed_char x" "well_formed_char y" "utf8_char x @ r = utf8_char y @ s"
  then show "x = y"
    by (metis code_point_inj encode_cp_split well_formed_char_cp(1,2))
next
  fix x
  assume "well_formed_char x"
  then show "utf8_char x \<noteq> []"
    by (simp add: well_formed_char_cp(1) encode_cp_def)
qed

lemma utf8_inj:
  assumes "well_formed s" "well_formed t" "utf8 s = utf8 t"
  shows "s = t"
proof -
  have "characters s = characters t"
    using assms by (intro utf8_code.concat_inj) (auto simp: well_formed_def list_all_iff utf8_def)
  then show ?thesis by (metis concat_characters)
qed

section \<open>Truncation\<close>

text \<open>\<open>truncateUtf8\<close>: the loop over characters with its running byte count and result.\<close>

fun truncate_loop :: "int \<Rightarrow> int \<Rightarrow> jstr \<Rightarrow> jstr list \<Rightarrow> jstr" where
  "truncate_loop maximum bytes out [] = out"
| "truncate_loop maximum bytes out (character # rest) =
     (let width = int (byte_length character) in
      if bytes + width > maximum then out
      else truncate_loop maximum (bytes + width) (out @ character) rest)"

definition truncateUtf8 :: "jstr \<Rightarrow> int \<Rightarrow> jstr" where
  "truncateUtf8 value maximum = truncate_loop maximum 0 [] (characters value)"

text \<open>\<open>truncateReaderUtf8\<close> checks its bound and returns a string that fits untouched.\<close>

definition truncateReaderUtf8 :: "jstr \<Rightarrow> int \<Rightarrow> jstr result" where
  "truncateReaderUtf8 value maximum =
     (if \<not> safe_nonneg maximum then Inl RangeError
      else if int (byte_length value) \<le> maximum then Inr value
      else Inr (truncate_loop maximum 0 [] (characters value)))"

definition widths :: "jstr list \<Rightarrow> int" where
  "widths cs = sum_list (map (\<lambda>c. int (byte_length c)) cs)"

lemma widths_simps [simp]: "widths [] = 0" "widths (c # cs) = int (byte_length c) + widths cs"
  by (simp_all add: widths_def)

lemma widths_nonneg: "0 \<le> widths cs"
  by (induction cs) auto

lemma byte_length_take:
  "int (byte_length (concat (take k (characters s)))) = widths (take k (characters s))"
proof -
  have sum: "int (length (concat (map utf8_char cs))) = widths cs"
    if "\<forall>c\<in>set cs. is_character c" for cs
    using that by (induction cs) (auto simp: byte_length_def utf8_character)
  have "\<forall>c\<in>set (take k (characters s)). is_character c"
    by (meson characters_are in_set_takeD)
  from sum [OF this] show ?thesis by (simp only: byte_length_def utf8_take)
qed

lemma byte_length_widths: "int (byte_length s) = widths (characters s)"
  using byte_length_take [of "length (characters s)" s] by simp

lemma truncate_loop_result:
  "\<exists>k \<le> length cs. truncate_loop m b r cs = r @ concat (take k cs)
      \<and> (0 < k \<longrightarrow> b + widths (take k cs) \<le> m)
      \<and> (k < length cs \<longrightarrow> m < b + widths (take (Suc k) cs))"
proof (induction cs arbitrary: b r)
  case (Cons c cs)
  show ?case
  proof (cases "b + int (byte_length c) > m")
    case True
    then show ?thesis by (intro exI [of _ 0]) simp
  next
    case False
    from Cons.IH [of "b + int (byte_length c)" "r @ c"] obtain k where
      "k \<le> length cs"
      "truncate_loop m (b + int (byte_length c)) (r @ c) cs = (r @ c) @ concat (take k cs)"
      "0 < k \<longrightarrow> b + int (byte_length c) + widths (take k cs) \<le> m"
      "k < length cs \<longrightarrow> m < b + int (byte_length c) + widths (take (Suc k) cs)"
      by blast
    with False show ?thesis by (intro exI [of _ "Suc k"]) (cases k, auto)
  qed
qed simp

text \<open>What \<open>truncateUtf8\<close> keeps, in terms of characters.\<close>

lemma truncateUtf8_cut:
  obtains k where "k \<le> length (characters s)"
    and "truncateUtf8 s m = concat (take k (characters s))"
    and "0 < k \<Longrightarrow> int (byte_length (truncateUtf8 s m)) \<le> m"
    and "k < length (characters s) \<Longrightarrow> m < int (byte_length (concat (take (Suc k) (characters s))))"
  using truncate_loop_result [of "characters s" m 0 "[]"]
  by (force simp: truncateUtf8_def byte_length_take)

lemma truncateUtf8_bound: "0 \<le> m \<Longrightarrow> int (byte_length (truncateUtf8 s m)) \<le> m"
proof (rule truncateUtf8_cut [of s m])
  fix k
  assume "0 \<le> m" and "truncateUtf8 s m = concat (take k (characters s))"
    and "0 < k \<Longrightarrow> int (byte_length (truncateUtf8 s m)) \<le> m"
  then show ?thesis by (cases k) auto
qed

lemma truncateUtf8_fits: "int (byte_length s) \<le> m \<Longrightarrow> truncateUtf8 s m = s"
proof (rule truncateUtf8_cut [of s m])
  fix k
  assume fits: "int (byte_length s) \<le> m" and k: "k \<le> length (characters s)"
    and eq: "truncateUtf8 s m = concat (take k (characters s))"
    and more: "k < length (characters s) \<Longrightarrow>
      m < int (byte_length (concat (take (Suc k) (characters s))))"
  have "widths (take (Suc k) (characters s)) \<le> widths (characters s)"
    using widths_nonneg [of "drop (Suc k) (characters s)"]
    by (metis append_take_drop_id le_add_same_cancel1 map_append sum_list_append widths_def)
  with more fits have "\<not> k < length (characters s)"
    unfolding byte_length_take byte_length_widths [of s] by force
  with k eq show ?thesis by simp
qed

section \<open>Content records\<close>

datatype content_fidelity = Verbatim | Normalized | Excerpt | Redacted

record redaction =
  r_kind :: jstr
  r_count :: int

record content =
  c_text :: jstr
  c_fidelity :: content_fidelity
  c_truncated :: bool
  c_original_utf8_bytes :: "int option"
  c_redactions :: "redaction list"

definition verbatimContent :: "jstr \<Rightarrow> content" where
  "verbatimContent s =
     \<lparr> c_text = s, c_fidelity = Verbatim, c_truncated = False,
       c_original_utf8_bytes = Some (int (byte_length s)), c_redactions = [] \<rparr>"

text \<open>\<open>None\<close> for an omitted \<open>maxUtf8Bytes\<close>.\<close>

definition normalizedContent :: "jstr \<Rightarrow> int \<Rightarrow> int option \<Rightarrow> content result" where
  "normalizedContent s original maximum =
     (if \<not> safe_nonneg original then Inl RangeError
      else case maximum of
        None \<Rightarrow> Inr \<lparr> c_text = s, c_fidelity = Normalized, c_truncated = False,
                      c_original_utf8_bytes = Some original, c_redactions = [] \<rparr>
      | Some m \<Rightarrow>
          if \<not> safe_nonneg m then Inl RangeError
          else if int (byte_length s) \<le> m then
            Inr \<lparr> c_text = s, c_fidelity = Normalized, c_truncated = False,
                  c_original_utf8_bytes = Some original, c_redactions = [] \<rparr>
          else
            Inr \<lparr> c_text = truncateUtf8 s m, c_fidelity = Normalized, c_truncated = True,
                  c_original_utf8_bytes = Some original, c_redactions = [] \<rparr>)"

definition excerptContent :: "jstr \<Rightarrow> int \<Rightarrow> content result" where
  "excerptContent s maximum =
     (if \<not> safe_nonneg maximum then Inl RangeError
      else
        let original = int (byte_length s) in
        if original \<le> maximum then
          Inr \<lparr> c_text = s, c_fidelity = Excerpt, c_truncated = False,
                c_original_utf8_bytes = Some original, c_redactions = [] \<rparr>
        else
          Inr \<lparr> c_text = truncateUtf8 s maximum, c_fidelity = Excerpt, c_truncated = True,
                c_original_utf8_bytes = Some original, c_redactions = [] \<rparr>)"

section \<open>Properties\<close>

lemma truncateUtf8_all:
  "truncateUtf8 s m = concat (take k (characters s)) \<Longrightarrow> length (characters s) \<le> k \<Longrightarrow> truncateUtf8 s m = s"
  by simp

lemma truncateUtf8_short:
  assumes "m < int (byte_length s)" "0 \<le> m"
  shows "truncateUtf8 s m \<noteq> s"
  using truncateUtf8_bound [OF assms(2), of s] assms(1) by auto

text \<open>A truncated string is the longest prefix of whole characters within the byte bound; the
  first character left out would exceed it.\<close>

theorem truncateUtf8_longest:
  assumes "0 \<le> m"
  shows "\<exists>k\<le>length (characters s). truncateUtf8 s m = concat (take k (characters s)) \<and>
    int (byte_length (truncateUtf8 s m)) \<le> m \<and>
    (k < length (characters s) \<longrightarrow> m < int (byte_length (concat (take (Suc k) (characters s)))))"
  using truncateUtf8_bound [OF assms, of s] by (rule_tac truncateUtf8_cut [of s m]) blast

theorem truncateUtf8_longest_witness:
  "\<exists>k\<le>length (characters [0x61, 0x20AC]). truncateUtf8 [0x61, 0x20AC] 2 = concat (take k (characters [0x61, 0x20AC])) \<and>
    int (byte_length (truncateUtf8 [0x61, 0x20AC] 2)) \<le> 2"
  using truncateUtf8_longest [of 2 "[0x61, 0x20AC]"] by auto

text \<open>the reader's truncation is the recorder's, behind a check of its bound.\<close>

theorem truncateReaderUtf8_truncateUtf8:
  "truncateReaderUtf8 s m = (if safe_nonneg m then Inr (truncateUtf8 s m) else Inl RangeError)"
  using truncateUtf8_fits [of s m] by (auto simp: truncateReaderUtf8_def truncateUtf8_def)

text \<open>an excerpt fits its bound, is a prefix of the text, says that it is truncated exactly when
  something was cut, and keeps the size of the whole text.\<close>

theorem excerptContent_faithful:
  assumes "excerptContent s m = Inr c"
  shows "int (byte_length (c_text c)) \<le> m \<and> (\<exists>r. s = c_text c @ r) \<and>
    (c_truncated c \<longleftrightarrow> c_text c \<noteq> s) \<and> c_original_utf8_bytes c = Some (int (byte_length s)) \<and>
    c_fidelity c = Excerpt"
proof -
  from assms have m: "0 \<le> m" by (auto simp: excerptContent_def safe_nonneg_def split: if_splits)
  have "\<exists>r. s = truncateUtf8 s m @ r"
  proof (rule truncateUtf8_cut [of s m])
    fix k assume "truncateUtf8 s m = concat (take k (characters s))"
    moreover have "s = concat (take k (characters s)) @ concat (drop k (characters s))"
      by (metis append_take_drop_id concat_append concat_characters)
    ultimately show ?thesis by metis
  qed
  with assms m truncateUtf8_bound [OF m, of s] truncateUtf8_short [of m s] show ?thesis
    by (auto simp: excerptContent_def Let_def split: if_splits)
qed

theorem excerptContent_faithful_witness:
  "\<exists>c. excerptContent [0x61, 0x20AC] 2 = Inr c \<and> c_truncated c \<and> int (byte_length (c_text c)) \<le> 2"
proof -
  have e: "excerptContent [0x61, 0x20AC] 2 = Inr
      \<lparr> c_text = [0x61], c_fidelity = Excerpt, c_truncated = True, c_original_utf8_bytes = Some 4, c_redactions = [] \<rparr>"
    by (simp add: excerptContent_def safe_nonneg_def safe_int_def max_safe_def truncateUtf8_def byte_length_def
        utf8_def high_surrogate_def low_surrogate_def)
  from excerptContent_faithful [OF e] e show ?thesis by simp
qed

end
