(* ===== verification/Js_Value.thy ===== *)
theory Js_Value
  imports Js_Text
begin

text \<open>
  JavaScript values as the program inspects them: what \<open>JSON.parse\<close> returns, and what is
  handed to \<open>stableStringify\<close>.

  \<^item> A number is \<open>NInt n\<close> when it is an integer with a plain decimal rendering, \<open>NOther s\<close>
    for any other finite number, identified by its rendering \<open>s\<close>, and \<open>NonFinite\<close> for NaN and
    the infinities.
  \<^item> An object is its list of own enumerable properties in insertion order, with distinct keys.
  \<^item> \<open>JUndef\<close> stands for \<open>undefined\<close>, functions and symbols, which the serializer treats
    alike; \<open>JNonPlain\<close> for an object whose prototype is neither \<open>Object.prototype\<close> nor null.
  Values are finite trees: a cyclic structure is not a value of the model.
\<close>

datatype jnum = NInt int | NOther jstr | NonFinite

datatype jsval =
    JNull
  | JBool bool
  | JNum jnum
  | JStr jstr
  | JArr "jsval list"
  | JObj "(jstr \<times> jsval) list"
  | JUndef
  | JBigInt int
  | JNonPlain

section \<open>Reading a value\<close>

text \<open>\<open>value.key\<close> on an object; a missing property is \<open>undefined\<close>.\<close>

definition jget :: "(jstr \<times> jsval) list \<Rightarrow> string \<Rightarrow> jsval" where
  "jget ps key = (case map_of ps (js key) of None \<Rightarrow> JUndef | Some v \<Rightarrow> v)"

text \<open>\<open>isObject(value)\<close>: the properties of a non-null, non-array object.\<close>

fun as_object :: "jsval \<Rightarrow> (jstr \<times> jsval) list option" where
  "as_object (JObj ps) = Some ps"
| "as_object _ = None"

fun as_array :: "jsval \<Rightarrow> jsval list option" where
  "as_array (JArr xs) = Some xs"
| "as_array _ = None"

fun as_string :: "jsval \<Rightarrow> jstr option" where
  "as_string (JStr s) = Some s"
| "as_string _ = None"

fun as_bool :: "jsval \<Rightarrow> bool option" where
  "as_bool (JBool b) = Some b"
| "as_bool _ = None"

text \<open>\<open>typeof value === "number" && Number.isSafeInteger(value)\<close>\<close>

fun as_safe_int :: "jsval \<Rightarrow> int option" where
  "as_safe_int (JNum (NInt n)) = (if safe_int n then Some n else None)"
| "as_safe_int _ = None"

text \<open>\<open>typeof value === "string" && pattern.test(value)\<close>\<close>

lemma jget_update [simp]:
  "jget (AList.update (js k) v ps) key = (if key = k then v else jget ps key)"
  by (auto simp: jget_def update_conv')

definition as_pattern :: "(jstr \<Rightarrow> bool) \<Rightarrow> jsval \<Rightarrow> jstr option" where
  "as_pattern P v = (case as_string v of Some s \<Rightarrow> if P s then Some s else None | None \<Rightarrow> None)"

text \<open>A property is absent when it is missing or holds \<open>undefined\<close>.\<close>

definition absent :: "(jstr \<times> jsval) list \<Rightarrow> string \<Rightarrow> bool" where
  "absent ps key \<longleftrightarrow> jget ps key = JUndef"

text \<open>\<open>Object.keys(value)\<close> all in a set of allowed names.\<close>

definition only_keys :: "(jstr \<times> jsval) list \<Rightarrow> string list \<Rightarrow> bool" where
  "only_keys ps allowed \<longleftrightarrow> list_all (\<lambda>k. k \<in> set (map js allowed)) (map fst ps)"

named_theorems value_defs \<open>accessors of values\<close>

lemmas value_accessors [value_defs] =
  jget_def as_pattern_def absent_def only_keys_def

lemma as_pattern_JStr [simp]: "as_pattern P (JStr s) = (if P s then Some s else None)"
  by (simp add: as_pattern_def)

lemma as_pattern_Some: "as_pattern P v = Some s \<longleftrightarrow> v = JStr s \<and> P s"
  by (cases v) (auto simp: as_pattern_def)

lemma as_safe_int_Some: "as_safe_int v = Some n \<longleftrightarrow> v = JNum (NInt n) \<and> safe_int n"
  by (cases v rule: as_safe_int.cases) auto

section \<open>Structure\<close>

lemma jsval_size_JArr: "x \<in> set xs \<Longrightarrow> size x < size (JArr xs)"
  by (induction xs) auto

lemma jsval_size_JObj: "(k, v) \<in> set ps \<Longrightarrow> size v < size (JObj ps)"
  by (induction ps) auto

text \<open>Every object of the value has distinct keys, and every number a sound rendering.\<close>

definition number_unit :: "16 word \<Rightarrow> bool" where
  "number_unit u \<longleftrightarrow> is_digit u \<or> u \<in> {0x2B, 0x2D, 0x2E, 0x65}"

fun plain_decimal :: "jstr \<Rightarrow> bool" where
  "plain_decimal [] = False"
| "plain_decimal (u # us) = (if u = 0x2D then us \<noteq> [] \<and> list_all is_digit us
                             else is_digit u \<and> list_all is_digit us)"

fun number_ok :: "jnum \<Rightarrow> bool" where
  "number_ok (NInt n) = True"
| "number_ok (NOther s) \<longleftrightarrow> s \<noteq> [] \<and> list_all number_unit s \<and>
     (is_digit (hd s) \<or> hd s = 0x2D) \<and> \<not> plain_decimal s"
| "number_ok NonFinite = False"

end
