(* ===== verification/Stable_Json.thy ===== *)
theory Stable_Json
  imports Js_Value
begin

text \<open>
  \<open>core/stable-json.ts\<close>: the deterministic serializer.  \<open>encodeJson\<close> follows the source branch
  by branch; \<open>canon\<close> is the canonical form of a value (keys sorted at every depth, undefined
  properties dropped, undefined elements null) and \<open>json_text\<close> its text.  The lemmas show that
  serializing a value is printing its canonical form, and that the text determines the
  canonical form: the serializer identifies exactly the values with one canonical form.
\<close>

section \<open>Numbers and strings\<close>

definition digit_unit :: "nat \<Rightarrow> 16 word" where
  "digit_unit d = unit_of (0x30 + d)"

fun decimal_nat :: "nat \<Rightarrow> jstr" where
  "decimal_nat n = (if n < 10 then [digit_unit n] else decimal_nat (n div 10) @ [digit_unit (n mod 10)])"

declare decimal_nat.simps [simp del]

text \<open>\<open>String(value)\<close> on an integer; \<open>-0\<close> is not a value of \<open>int\<close>.\<close>

definition decimal :: "int \<Rightarrow> jstr" where
  "decimal n = (if n < 0 then 0x2D # decimal_nat (nat (- n)) else decimal_nat (nat n))"

definition hex_unit :: "nat \<Rightarrow> 16 word" where
  "hex_unit d = (if d < 10 then unit_of (0x30 + d) else unit_of (0x57 + d))"

definition hex4 :: "nat \<Rightarrow> jstr" where
  "hex4 n = [hex_unit (n div 4096), hex_unit (n div 256 mod 16), hex_unit (n div 16 mod 16),
             hex_unit (n mod 16)]"

text \<open>One character inside the quotes of \<open>JSON.stringify(string)\<close>.\<close>

fun quote_char :: "jstr \<Rightarrow> jstr" where
  "quote_char [u] =
     (if u = 0x22 then [0x5C, 0x22]
      else if u = 0x5C then [0x5C, 0x5C]
      else if u = 0x08 then [0x5C, 0x62]
      else if u = 0x0C then [0x5C, 0x66]
      else if u = 0x0A then [0x5C, 0x6E]
      else if u = 0x0D then [0x5C, 0x72]
      else if u = 0x09 then [0x5C, 0x74]
      else if unat u < 0x20 \<or> high_surrogate u \<or> low_surrogate u then [0x5C, 0x75] @ hex4 (unat u)
      else [u])"
| "quote_char c = c"

definition quote :: "jstr \<Rightarrow> jstr" where
  "quote s = 0x22 # concat (map quote_char (characters s)) @ [0x22]"

section \<open>The serializer\<close>

text \<open>\<open>compareUtf16CodeUnits\<close>\<close>

definition compareUtf16CodeUnits :: "jstr \<Rightarrow> jstr \<Rightarrow> int" where
  "compareUtf16CodeUnits l r = (if l = r then 0 else if l < r then -1 else 1)"

definition join :: "jstr \<Rightarrow> jstr list \<Rightarrow> jstr" where
  "join sep xs = (case xs of [] \<Rightarrow> [] | x # ys \<Rightarrow> x @ concat (map (\<lambda>y. sep @ y) ys))"

text \<open>
  \<open>encodeJson value arrayElement\<close>: \<open>Inr None\<close> is the \<open>undefined\<close> that omits an object
  property.  The keys are visited in the order of the default string sort.
\<close>

function encodeJson :: "jsval \<Rightarrow> bool \<Rightarrow> jstr option result" where
  "encodeJson JNull _ = Inr (Some (js ''null''))"
| "encodeJson (JStr s) _ = Inr (Some (quote s))"
| "encodeJson (JBool b) _ = Inr (Some (if b then js ''true'' else js ''false''))"
| "encodeJson (JNum n) _ =
     (case n of NonFinite \<Rightarrow> Inl TypeError
      | NInt i \<Rightarrow> Inr (Some (decimal i))
      | NOther s \<Rightarrow> Inr (Some s))"
| "encodeJson JUndef arrayElement = Inr (if arrayElement then Some (js ''null'') else None)"
| "encodeJson (JBigInt _) _ = Inl TypeError"
| "encodeJson (JArr xs) _ =
     (case traverse (\<lambda>x. encodeJson x True) xs of Inl e \<Rightarrow> Inl e
      | Inr items \<Rightarrow>
          Inr (Some (js ''['' @ join (js '','') (map (\<lambda>i. case i of None \<Rightarrow> js ''null'' | Some t \<Rightarrow> t) items)
                     @ js '']'')))"
| "encodeJson JNonPlain _ = Inl TypeError"
| "encodeJson (JObj ps) _ =
     (case traverse (\<lambda>(k, v). case encodeJson v False of Inl e \<Rightarrow> Inl e
                              | Inr t \<Rightarrow> Inr (map_option (\<lambda>t. quote k @ js '':'' @ t) t))
            (sort_key fst ps) of Inl e \<Rightarrow> Inl e
      | Inr ts \<Rightarrow> Inr (Some (js ''{'' @ join (js '','') (concat (map (\<lambda>t. case t of None \<Rightarrow> [] | Some x \<Rightarrow> [x]) ts))
                     @ js ''}'')))"
  by pat_completeness auto
termination
  by (relation "measure (\<lambda>(v, _). size v)") (auto dest: jsval_size_JArr jsval_size_JObj simp del: jsval.size)

definition stableStringify :: "jsval \<Rightarrow> jstr result" where
  "stableStringify v =
     (case encodeJson v False of Inl e \<Rightarrow> Inl e
      | Inr None \<Rightarrow> Inl TypeError
      | Inr (Some t) \<Rightarrow> Inr t)"

definition stableJsonLine :: "jsval \<Rightarrow> jstr result" where
  "stableJsonLine v = (case stableStringify v of Inl e \<Rightarrow> Inl e | Inr t \<Rightarrow> Inr (t @ [0x0A]))"

section \<open>Unique readability of strings and numbers\<close>

definition unhex :: "16 word \<Rightarrow> nat" where
  "unhex u = (if unat u < 0x60 then unat u - 0x30 else unat u - 0x57)"

lemma unhex_hex: "d < 16 \<Longrightarrow> unhex (hex_unit d) = d"
  by (auto simp: unhex_def hex_unit_def unat_unit_of)

definition hex_value :: "nat \<Rightarrow> nat \<Rightarrow> nat \<Rightarrow> nat \<Rightarrow> nat" where
  "hex_value a b c d = ((a * 16 + b) * 16 + c) * 16 + d"

text \<open>Reading one quoted character back.\<close>

definition unquote_first :: "jstr \<Rightarrow> jstr" where
  "unquote_first us =
     (if us ! 0 = 0x5C then
        (if us ! 1 = 0x75 then
           [unit_of (hex_value (unhex (us ! 2)) (unhex (us ! 3)) (unhex (us ! 4)) (unhex (us ! 5)))]
         else if us ! 1 = 0x62 then [0x08]
         else if us ! 1 = 0x66 then [0x0C]
         else if us ! 1 = 0x6E then [0x0A]
         else if us ! 1 = 0x72 then [0x0D]
         else if us ! 1 = 0x74 then [0x09]
         else [us ! 1])
      else if high_surrogate (us ! 0) then [us ! 0, us ! 1]
      else [us ! 0])"

lemma hex_digits: "hex_value (n div 4096) (n div 256 mod 16) (n div 16 mod 16) (n mod 16) = n"
proof -
  have "n div 4096 = n div 256 div 16" "n div 256 = n div 16 div 16"
    by (simp_all add: div_mult2_eq [symmetric])
  then show ?thesis unfolding hex_value_def by presburger
qed

lemma high_surrogate_not_backslash: "high_surrogate u \<Longrightarrow> u \<noteq> 0x5C"
  by (auto simp: high_surrogate_def)

lemma unquote_quote_char:
  assumes "is_character c"
  shows "unquote_first (quote_char c @ r) = c"
  using assms unfolding is_character_def
proof (elim disjE exE conjE)
  fix u
  assume c: "c = [u]"
  have "unhex (hex_unit (unat u div 4096)) = unat u div 4096"
    using unat_unit [of u] by (intro unhex_hex) simp
  moreover have "unhex (hex_unit (m mod 16)) = m mod 16" for m :: nat
    by (intro unhex_hex) simp
  ultimately have "unquote_first ([0x5C, 0x75] @ hex4 (unat u) @ r) = [u]"
    using unat_unit [of u] by (simp add: unquote_first_def hex4_def hex_digits)
  then show ?thesis
    by (simp add: c unquote_first_def)
next
  fix u v
  assume "c = [u, v]" "high_surrogate u" "low_surrogate v"
  then show ?thesis by (simp add: unquote_first_def high_surrogate_not_backslash)
qed

interpretation quoting: self_delimiting quote_char is_character
proof
  fix x y r s
  assume "is_character x" "is_character y" "quote_char x @ r = quote_char y @ s"
  then show "x = y" by (metis unquote_quote_char)
qed (auto simp: is_character_def split: if_splits)

lemma quote_char_not_quote: "is_character c \<Longrightarrow> hd (quote_char c) \<noteq> 0x22"
  by (auto simp: is_character_def high_surrogate_def split: if_splits)

lemma quote_split: "quote s @ r = quote t @ r' \<Longrightarrow> s = t \<and> r = r'"
proof -
  assume "quote s @ r = quote t @ r'"
  then have "characters s = characters t \<and> r = r'"
    using quoting.terminated_inj [of "0x22" "characters s" "characters t" r r']
      quote_char_not_quote characters_are by (simp add: quote_def)
  then show ?thesis by (metis concat_characters)
qed

text \<open>Decimal renderings.\<close>

lemma digit_unit_is_digit: "d < 10 \<Longrightarrow> is_digit (digit_unit d)"
  by (simp add: is_digit_def digit_unit_def word_le_nat_alt unat_unit_of)

lemma unat_digit_unit: "d < 10 \<Longrightarrow> unat (digit_unit d) = 0x30 + d"
  by (simp add: digit_unit_def unat_unit_of)

lemma decimal_nat_digits: "decimal_nat n \<noteq> [] \<and> list_all is_digit (decimal_nat n)"
  by (induction n rule: decimal_nat.induct)
     (subst (1 2) decimal_nat.simps, simp add: digit_unit_is_digit)

lemma length_decimal_nat:
  "10 ^ length (decimal_nat n) > n \<and> (n \<noteq> 0 \<longrightarrow> 10 ^ (length (decimal_nat n) - 1) \<le> n)"
proof (induction n rule: decimal_nat.induct)
  case (1 n)
  show ?case
  proof (cases "n < 10")
    case True
    then show ?thesis by (subst (1 2) decimal_nat.simps) auto
  next
    case False
    let ?l = "length (decimal_nat (n div 10))"
    have len: "length (decimal_nat n) = Suc ?l" using False by (subst decimal_nat.simps) simp
    from 1 False have ih: "10 ^ ?l > n div 10" "10 ^ (?l - 1) \<le> n div 10" by auto
    have "0 < ?l" using decimal_nat_digits by auto
    then have step: "(10 :: nat) ^ ?l = 10 * 10 ^ (?l - 1)" by (cases ?l) auto
    have up: "n div 10 < q \<Longrightarrow> n < 10 * q" and down: "q \<le> n div 10 \<Longrightarrow> 10 * q \<le> n" for q
      by linarith+
    from up [OF ih(1)] down [OF ih(2)] step show ?thesis by (simp only: len) simp
  qed
qed

lemma decimal_nat_length_le: "n < 10 ^ k \<Longrightarrow> 0 < k \<Longrightarrow> length (decimal_nat n) \<le> k"
proof (rule ccontr)
  assume n: "n < 10 ^ k" "0 < k" and "\<not> length (decimal_nat n) \<le> k"
  then have k: "k \<le> length (decimal_nat n) - 1" by simp
  show False
  proof (cases "n = 0")
    case True
    then have "length (decimal_nat n) = 1" by (subst decimal_nat.simps) simp
    with k n show False by simp
  next
    case False
    then have "10 ^ (length (decimal_nat n) - 1) \<le> n" using length_decimal_nat by blast
    moreover have "(10 :: nat) ^ k \<le> 10 ^ (length (decimal_nat n) - 1)"
      using k by (intro power_increasing) auto
    ultimately show False using n(1) by linarith
  qed
qed

definition value_of_digits :: "jstr \<Rightarrow> nat" where
  "value_of_digits = foldl (\<lambda>n u. 10 * n + (unat u - 0x30)) 0"

lemma value_of_decimal_nat: "value_of_digits (decimal_nat n) = n"
proof (induction n rule: decimal_nat.induct)
  case (1 n)
  show ?case
  proof (cases "n < 10")
    case True
    then show ?thesis
      by (subst decimal_nat.simps) (simp add: value_of_digits_def unat_digit_unit)
  next
    case False
    with 1 have "value_of_digits (decimal_nat (n div 10) @ [digit_unit (n mod 10)]) = n"
      by (simp add: value_of_digits_def unat_digit_unit)
    with False show ?thesis by (subst decimal_nat.simps) simp
  qed
qed

lemma not_digit_minus: "\<not> is_digit 0x2D"
  by (simp add: is_digit_def)

lemma decimal_inj: "decimal n = decimal m \<longleftrightarrow> n = m"
proof
  assume eq: "decimal n = decimal m"
  have nominus: "decimal_nat k \<noteq> 0x2D # us" for k us
    using decimal_nat_digits [of k] not_digit_minus by auto
  have "decimal_nat j = decimal_nat k \<longleftrightarrow> j = k" for j k
    by (metis value_of_decimal_nat)
  with eq nominus show "n = m"
    by (auto simp: decimal_def split: if_splits dest: sym)
qed simp

lemma decimal_plain: "plain_decimal (decimal n)"
proof -
  have "plain_decimal (decimal_nat k)" "decimal_nat k \<noteq> []" "list_all is_digit (decimal_nat k)" for k
    using decimal_nat_digits [of k] not_digit_minus by (cases "decimal_nat k"; auto)+
  then show ?thesis by (simp add: decimal_def)
qed

section \<open>Canonical forms\<close>

function canon :: "jsval \<Rightarrow> jsval" where
  "canon (JArr xs) = JArr (map (\<lambda>x. case canon x of JUndef \<Rightarrow> JNull | y \<Rightarrow> y) xs)"
| "canon (JObj ps) = JObj (filter (\<lambda>(k, v). v \<noteq> JUndef) (map (\<lambda>(k, v). (k, canon v)) (sort_key fst ps)))"
| "canon JNull = JNull"
| "canon (JBool b) = JBool b"
| "canon (JNum n) = JNum n"
| "canon (JStr s) = JStr s"
| "canon JUndef = JUndef"
| "canon (JBigInt i) = JBigInt i"
| "canon JNonPlain = JNonPlain"
  by pat_completeness auto
termination
  by (relation "measure size") (auto dest: jsval_size_JArr jsval_size_JObj simp del: jsval.size)

text \<open>Values the serializer accepts.\<close>

fun serializable :: "jsval \<Rightarrow> bool" where
  "serializable (JArr xs) = list_all serializable xs"
| "serializable (JObj ps) = list_all (\<lambda>(k, v). serializable v) ps"
| "serializable (JNum n) = (n \<noteq> NonFinite)"
| "serializable (JBigInt i) = False"
| "serializable JNonPlain = False"
| "serializable v = True"

fun numbers_ok :: "jsval \<Rightarrow> bool" where
  "numbers_ok (JArr xs) = list_all numbers_ok xs"
| "numbers_ok (JObj ps) = list_all (\<lambda>(k, v). numbers_ok v) ps"
| "numbers_ok (JNum n) = number_ok n"
| "numbers_ok v = True"

text \<open>The text of a canonical value.\<close>

function json_text :: "jsval \<Rightarrow> jstr" where
  "json_text (JArr xs) = 0x5B # join [0x2C] (map json_text xs) @ [0x5D]"
| "json_text (JObj ps) = 0x7B # join [0x2C] (map (\<lambda>(k, v). quote k @ 0x3A # json_text v) ps) @ [0x7D]"
| "json_text JNull = js ''null''"
| "json_text (JBool b) = (if b then js ''true'' else js ''false'')"
| "json_text (JNum n) = (case n of NInt i \<Rightarrow> decimal i | NOther s \<Rightarrow> s | NonFinite \<Rightarrow> [])"
| "json_text (JStr s) = quote s"
| "json_text JUndef = []"
| "json_text (JBigInt i) = []"
| "json_text JNonPlain = []"
  by pat_completeness auto
termination
  by (relation "measure size") (auto dest: jsval_size_JArr jsval_size_JObj simp del: jsval.size)

definition element :: "jsval \<Rightarrow> jsval" where
  "element v = (case v of JUndef \<Rightarrow> JNull | y \<Rightarrow> y)"

definition text_option :: "jsval \<Rightarrow> jstr option" where
  "text_option v = (if v = JUndef then None else Some (json_text v))"

lemma concat_present:
  "concat (map (\<lambda>t. case t of None \<Rightarrow> [] | Some x \<Rightarrow> [x]) (map f xs)) =
   map (the \<circ> f) (filter (\<lambda>x. f x \<noteq> None) xs)"
  by (induction xs) auto

lemma encode_canon:
  "serializable v \<Longrightarrow>
   encodeJson v b = Inr (if b then Some (json_text (element (canon v))) else text_option (canon v))"
proof (induction v b rule: encodeJson.induct)
  case (7 xs b)
  have "traverse (\<lambda>x. encodeJson x True) xs =
      Inr (map (\<lambda>x. Some (json_text (element (canon x)))) xs)"
    using 7 by (intro traverse_all) (auto simp: list_all_iff)
  then show ?case
    by (simp add: comp_def text_option_def element_def literal_simps)
next
  case (9 ps b)
  let ?enc = "\<lambda>(k, v). case encodeJson v False of Inl e \<Rightarrow> Inl e
      | Inr t \<Rightarrow> Inr (map_option (\<lambda>t. quote k @ js '':'' @ t) t)"
  let ?out = "\<lambda>(k, v). map_option (\<lambda>t. quote k @ js '':'' @ t) (text_option (canon v))"
  have "traverse ?enc (sort_key fst ps) = Inr (map ?out (sort_key fst ps))"
    using 9 by (intro traverse_all) (auto simp: list_all_iff)
  moreover have "concat (map (\<lambda>t. case t of None \<Rightarrow> [] | Some x \<Rightarrow> [x]) (map ?out qs)) =
      map (\<lambda>(k, v). quote k @ 0x3A # json_text v)
        (filter (\<lambda>(k, v). v \<noteq> JUndef) (map (\<lambda>(k, v). (k, canon v)) qs))" for qs
    by (induction qs) (auto simp: text_option_def literal_simps)
  ultimately show ?case
    by (simp add: text_option_def element_def literal_simps del: map_map)
qed (auto simp: text_option_def element_def literal_simps split: jnum.splits)

lemma encode_unserializable: "\<not> serializable v \<Longrightarrow> encodeJson v b = Inl TypeError"
proof (induction v b rule: encodeJson.induct)
  case (7 xs b)
  have *: "traverse (\<lambda>x. encodeJson x True) ys = Inl TypeError"
    if "set ys \<subseteq> set xs" "\<exists>x\<in>set ys. \<not> serializable x" for ys
    using that
  proof (induction ys)
    case (Cons y ys)
    then show ?case using 7(1) [of y] encode_canon [of y True]
      by (cases "serializable y") (auto split: sum.splits)
  qed simp
  from 7(2) * [of xs] show ?case by (auto simp: list_all_iff)
next
  case (9 ps b)
  let ?enc = "\<lambda>(k, v). case encodeJson v False of Inl e \<Rightarrow> Inl e
      | Inr t \<Rightarrow> Inr (map_option (\<lambda>t. quote k @ js '':'' @ t) t)"
  have *: "traverse ?enc qs = Inl TypeError"
    if "set qs \<subseteq> set ps" "\<exists>(k, v)\<in>set qs. \<not> serializable v" for qs
    using that
  proof (induction qs)
    case (Cons q qs)
    obtain k v where q: "q = (k, v)" by (cases q)
    show ?case
    proof (cases "serializable v")
      case True
      then have "?enc q = Inr (map_option (\<lambda>t. quote k @ js '':'' @ t) (text_option (canon v)))"
        by (simp add: q encode_canon)
      moreover have "traverse ?enc qs = Inl TypeError"
        using Cons q True by (intro Cons.IH) auto
      ultimately show ?thesis by simp
    next
      case False
      have "(k, v) \<in> set (sort_key fst ps)" using Cons.prems q by auto
      with False q 9(1) [of "(k, v)" k v] have "?enc q = Inl TypeError" by simp
      then show ?thesis by simp
    qed
  qed simp
  from 9(2) have "\<exists>(k, v)\<in>set (sort_key fst ps). \<not> serializable v"
    by (auto simp: list_all_iff)
  then have "traverse ?enc (sort_key fst ps) = Inl TypeError" by (intro *) auto
  then show ?case by simp
qed (auto split: jnum.splits)

section \<open>The text determines the canonical form\<close>

function clean :: "jsval \<Rightarrow> bool" where
  "clean (JArr xs) = list_all clean xs"
| "clean (JObj ps) = list_all (\<lambda>(k, v). clean v) ps"
| "clean (JNum n) = number_ok n"
| "clean JNull = True"
| "clean (JBool b) = True"
| "clean (JStr s) = True"
| "clean JUndef = False"
| "clean (JBigInt i) = False"
| "clean JNonPlain = False"
  by pat_completeness auto
termination
  by (relation "measure size") (auto dest: jsval_size_JArr jsval_size_JObj simp del: jsval.size)

text \<open>What may follow a value inside a larger text, and the first unit of each kind of value.\<close>

definition delimited :: "jstr \<Rightarrow> bool" where
  "delimited r \<longleftrightarrow> r = [] \<or> hd r \<in> {0x2C, 0x5D, 0x7D}"

fun kind :: "jsval \<Rightarrow> nat" where
  "kind JNull = 0" | "kind (JBool b) = (if b then 1 else 2)" | "kind (JStr s) = 3"
| "kind (JArr xs) = 4" | "kind (JObj ps) = 5" | "kind v = 6"

definition lead_kind :: "16 word \<Rightarrow> nat" where
  "lead_kind u = (if u = 0x6E then 0 else if u = 0x74 then 1 else if u = 0x66 then 2
                  else if u = 0x22 then 3 else if u = 0x5B then 4 else if u = 0x7B then 5
                  else if is_digit u \<or> u = 0x2D then 6 else 7)"

lemma decimal_lead: "decimal n \<noteq> [] \<and> (is_digit (hd (decimal n)) \<or> hd (decimal n) = 0x2D)"
  using decimal_plain [of n] by (cases "decimal n") (auto split: if_splits)

lemma json_text_lead: "clean v \<Longrightarrow> json_text v \<noteq> [] \<and> lead_kind (hd (json_text v)) = kind v"
proof (cases v)
  case (JNum n)
  assume "clean v"
  with JNum have n: "json_text v \<noteq> []" "is_digit (hd (json_text v)) \<or> hd (json_text v) = 0x2D"
    using decimal_lead by (cases n; auto)+
  have "lead_kind u = 6" if "is_digit u \<or> u = 0x2D" for u
    using that by (auto simp: lead_kind_def is_digit_def)
  with n JNum show ?thesis by simp
qed (auto simp: literal_simps lead_kind_def quote_def)

lemma kind_le: "kind v \<le> 6"
  by (cases v) auto

lemma lead_kind_bracket: "lead_kind 0x5D = 7"
  by (simp add: lead_kind_def is_digit_def)

lemma number_text_split:
  assumes "number_ok m" "number_ok n" "delimited r" "delimited s"
    and eq: "json_text (JNum m) @ r = json_text (JNum n) @ s"
  shows "m = n \<and> r = s"
proof -
  have units: "list_all number_unit (json_text (JNum k))" if "number_ok k" for k
  proof (cases k)
    case (NInt i)
    have "list_all number_unit us" if "list_all is_digit us" for us
      using that by (auto simp: number_unit_def list_all_iff)
    then show ?thesis
      using NInt decimal_plain [of i]
      by (cases "decimal i") (auto simp: number_unit_def split: if_splits)
  qed (use that in auto)
  have stop: "takeWhile number_unit r = []" if "delimited r" for r
    using that by (cases r) (auto simp: delimited_def number_unit_def is_digit_def)
  have cut: "takeWhile number_unit (t @ r) = t" if "list_all number_unit t" "delimited r" for t r
    using that stop [of r] by (simp add: takeWhile_append2 list_all_iff)
  from assms units cut eq have same: "json_text (JNum m) = json_text (JNum n)" by metis
  with eq have "r = s" by simp
  moreover have "m = n"
    using assms(1,2) same by (cases m; cases n) (auto simp: decimal_inj decimal_plain)
  ultimately show ?thesis by simp
qed

lemma join_Cons: "join sep (x # xs) = x @ concat (map (\<lambda>y. sep @ y) xs)"
  by (simp add: join_def)

lemma join_split:
  assumes el: "\<And>x y r s. x \<in> X \<Longrightarrow> y \<in> Y \<Longrightarrow> delimited r \<Longrightarrow> delimited s \<Longrightarrow>
      f x @ r = f y @ s \<Longrightarrow> x = y \<and> r = s"
    and lead: "\<And>x. x \<in> X \<union> Y \<Longrightarrow> f x \<noteq> [] \<and> hd (f x) \<noteq> t"
    and t: "t \<in> {0x5D, 0x7D}"
  shows "set xs \<subseteq> X \<Longrightarrow> set ys \<subseteq> Y \<Longrightarrow>
    join [0x2C] (map f xs) @ t # r = join [0x2C] (map f ys) @ t # s \<Longrightarrow> xs = ys \<and> r = s"
proof -
  let ?tail = "\<lambda>zs. concat (map (\<lambda>y. [0x2C] @ f y) zs)"
  have del: "delimited (?tail zs @ t # q)" for zs q
    using t by (cases zs) (auto simp: delimited_def)
  have comma: "t \<noteq> 0x2C" using t by auto
  have tail: "xs = ys \<and> r = s"
    if "set xs \<subseteq> X" "set ys \<subseteq> Y" "?tail xs @ t # r = ?tail ys @ t # s" for xs ys
    using that
  proof (induction xs arbitrary: ys)
    case Nil
    then show ?case using comma by (cases ys) auto
  next
    case (Cons x xs)
    then obtain y ys' where ys: "ys = y # ys'" using comma by (cases ys) auto
    with Cons.prems el [of x y "?tail xs @ t # r" "?tail ys' @ t # s"] del
    have "x = y" "?tail xs @ t # r = ?tail ys' @ t # s" by auto
    with Cons ys show ?case by auto
  qed
  assume sub: "set xs \<subseteq> X" "set ys \<subseteq> Y"
    and eq: "join [0x2C] (map f xs) @ t # r = join [0x2C] (map f ys) @ t # s"
  show "xs = ys \<and> r = s"
  proof (cases xs; cases ys)
    fix x xs' y ys'
    assume xs: "xs = x # xs'" and ys: "ys = y # ys'"
    with eq have "f x @ (?tail xs' @ t # r) = f y @ (?tail ys' @ t # s)"
      by (simp add: join_Cons comp_def)
    with el [of x y] del sub xs ys have "x = y" "?tail xs' @ t # r = ?tail ys' @ t # s" by auto
    with tail [of xs' ys'] sub xs ys show ?thesis by auto
  next
    fix y ys'
    assume "xs = []" "ys = y # ys'"
    with eq sub lead [of y] show ?thesis
      by (cases "f y") (auto simp: join_def)
  next
    fix x xs'
    assume "xs = x # xs'" "ys = []"
    with eq sub lead [of x] show ?thesis
      by (cases "f x") (auto simp: join_def)
  qed (use eq in auto)
qed

lemma json_text_split:
  "clean v \<Longrightarrow> clean w \<Longrightarrow> delimited r \<Longrightarrow> delimited s \<Longrightarrow>
   json_text v @ r = json_text w @ s \<Longrightarrow> v = w \<and> r = s"
proof (induction v arbitrary: w r s rule: json_text.induct)
  case (1 xs)
  from json_text_lead [OF 1(2)] json_text_lead [OF 1(3)] 1(6) have "kind w = 4"
    by (metis hd_append2 kind.simps(4))
  then obtain ys where w: "w = JArr ys" by (cases w) (simp_all split: if_splits)
  have el: "x = y \<and> p = q"
    if "x \<in> set xs" "y \<in> set ys" "delimited p" "delimited q" "json_text x @ p = json_text y @ q"
    for x y p q
    using 1(1) [OF that(1) _ _ that(3-5)] 1(2,3) that(1,2) w by (simp add: list_all_iff)
  have lead: "json_text x \<noteq> [] \<and> hd (json_text x) \<noteq> 0x5D" if "x \<in> set xs \<union> set ys" for x
  proof -
    have "clean x" using that 1(2,3) w by (auto simp: list_all_iff)
    from json_text_lead [OF this] kind_le [of x] show ?thesis by (auto simp: lead_kind_bracket)
  qed
  have "join [0x2C] (map json_text xs) @ 0x5D # r = join [0x2C] (map json_text ys) @ 0x5D # s"
    using 1(6) w by simp
  then have "xs = ys \<and> r = s"
    by (rule join_split [of "set xs" "set ys" json_text "0x5D", rotated 5])
       (use el lead in blast)+
  with w show ?case by simp
next
  case (2 ps)
  from json_text_lead [OF 2(2)] json_text_lead [OF 2(3)] 2(6) have "kind w = 5"
    by (metis hd_append2 kind.simps(5))
  then obtain qs where w: "w = JObj qs" by (cases w) (simp_all split: if_splits)
  let ?f = "\<lambda>(k, v). quote k @ 0x3A # json_text v"
  have el: "x = y \<and> p = q"
    if "x \<in> set ps" "y \<in> set qs" "delimited p" "delimited q" "?f x @ p = ?f y @ q" for x y p q
  proof -
    obtain k v l u where x: "x = (k, v)" and y: "y = (l, u)" by (cases x; cases y)
    with that(5) have "k = l \<and> 0x3A # json_text v @ p = 0x3A # json_text u @ q"
      using quote_split [of k "0x3A # json_text v @ p" l "0x3A # json_text u @ q"] by simp
    moreover have "clean v" "clean u" using that(1,2) 2(2,3) w x y by (auto simp: list_all_iff)
    ultimately show ?thesis
      using 2(1) [of x k v u p q] that x y by auto
  qed
  have lead: "?f x \<noteq> [] \<and> hd (?f x) \<noteq> 0x7D" for x
    by (cases x) (simp add: quote_def)
  have "join [0x2C] (map ?f ps) @ 0x7D # r = join [0x2C] (map ?f qs) @ 0x7D # s"
    using 2(6) w by simp
  then have "ps = qs \<and> r = s"
    by (rule join_split [of "set ps" "set qs" ?f "0x7D", rotated 5])
       (use el lead in blast)+
  with w show ?case by simp
next
  case 3
  from json_text_lead [OF 3(1)] json_text_lead [OF 3(2)] 3(5) have "kind w = 0"
    by (metis hd_append2 kind.simps(1))
  then have "w = JNull" by (cases w) (simp_all split: if_splits)
  with 3(5) show ?case by simp
next
  case (4 b)
  from json_text_lead [OF 4(1)] json_text_lead [OF 4(2)] 4(5) have "kind w = (if b then 1 else 2)"
    by (metis hd_append2 kind.simps(2))
  then have "w = JBool b" by (cases w) (simp_all split: if_splits)
  with 4(5) show ?case by simp
next
  case (5 n)
  from json_text_lead [OF 5(1)] json_text_lead [OF 5(2)] 5(5) have "kind w = 6"
    by (metis hd_append2 kind.simps(6))
  then obtain m where w: "w = JNum m" using 5(2) by (cases w) (simp_all split: if_splits)
  with 5(1-4) have "n = m \<and> r = s"
    using number_text_split [of n m r s] 5(5) by (simp only: clean.simps)
  with w show ?case by simp
next
  case (6 t)
  from json_text_lead [OF 6(1)] json_text_lead [OF 6(2)] 6(5) have "kind w = 3"
    by (metis hd_append2 kind.simps(3))
  then obtain u where "w = JStr u" by (cases w) (simp_all split: if_splits)
  with 6(5) quote_split [of t r u s] show ?case by simp
qed auto

lemma json_text_inj: "clean v \<Longrightarrow> clean w \<Longrightarrow> json_text v = json_text w \<Longrightarrow> v = w"
  using json_text_split [of v w "[]" "[]"] by (simp add: delimited_def)

lemma clean_element: "v = JUndef \<or> clean v \<Longrightarrow> clean (case v of JUndef \<Rightarrow> JNull | y \<Rightarrow> y)"
  by (cases v) auto

lemma clean_canon:
  "serializable v \<Longrightarrow> numbers_ok v \<Longrightarrow> canon v = JUndef \<or> clean (canon v)"
proof (induction v rule: canon.induct)
  case (1 xs)
  then show ?case by (auto simp: list_all_iff intro!: clean_element)
next
  case (2 ps)
  then show ?case by (fastforce simp: list_all_iff)
qed auto

lemma canon_JUndef: "canon v = JUndef \<longleftrightarrow> v = JUndef"
  by (cases v) auto

lemma stableStringify_canon:
  "serializable v \<Longrightarrow> stableStringify v =
     (if v = JUndef then Inl TypeError else Inr (json_text (canon v)))"
  by (simp add: stableStringify_def encode_canon text_option_def canon_JUndef)

section \<open>Properties\<close>

text \<open>C31: two values serialize to the same text exactly when they have the same canonical form,
  so the text is a faithful identity for records: key order and undefined properties never
  matter, and no other difference is ever lost.\<close>

theorem stableStringify_eq_iff:
  assumes "serializable v" "serializable w" "numbers_ok v" "numbers_ok w"
  shows "stableStringify v = stableStringify w \<longleftrightarrow> canon v = canon w"
  using assms clean_canon [of v] clean_canon [of w] json_text_inj [of "canon v" "canon w"]
  by (auto simp: stableStringify_canon canon_JUndef)

theorem stableStringify_eq_iff_witness:
  "stableStringify (JObj [(js ''b'', JNull), (js ''a'', JNum (NInt 1)), (js ''c'', JUndef)]) =
   stableStringify (JObj [(js ''a'', JNum (NInt 1)), (js ''b'', JNull)])"
proof -
  have "canon (JObj [(js ''b'', JNull), (js ''a'', JNum (NInt 1)), (js ''c'', JUndef)]) =
      canon (JObj [(js ''a'', JNum (NInt 1)), (js ''b'', JNull)])"
    by (simp add: js_def)
  then show ?thesis by (subst stableStringify_eq_iff) simp_all
qed

text \<open>Serialization fails exactly for undefined and for values that hold a non-finite number, a
  BigInt or a non-plain object; it never writes an approximation of such a value.\<close>

theorem stableStringify_fails_iff:
  "stableStringify v = Inl e \<longleftrightarrow> e = TypeError \<and> (v = JUndef \<or> \<not> serializable v)"
proof (cases "serializable v")
  case True
  then show ?thesis by (auto simp: stableStringify_canon)
next
  case False
  then show ?thesis by (auto simp: stableStringify_def encode_unserializable)
qed

theorem stableStringify_fails_iff_witness:
  "stableStringify (JObj [(js ''a'', JArr [JNum NonFinite])]) = Inl TypeError"
  using stableStringify_fails_iff [of "JObj [(js ''a'', JArr [JNum NonFinite])]" TypeError] by simp

declare canon.simps(1,2) [simp del]

end
