(* ===== verification/Json_Object.thy ===== *)
theory Json_Object
  imports Stable_Json
begin

text \<open>
  Records and their JSON objects.  A record file is written as the stable text of a value and
  read back with \<open>JSON.parse\<close>: what a reader sees is the canonical form of the value written.
  The lemmas say that reading a property, an element or a key set does not notice the difference,
  so that every decoder of the program is proved once on the value its encoder builds.
\<close>

section \<open>Canonical properties\<close>

definition canon_props :: "(jstr \<times> jsval) list \<Rightarrow> (jstr \<times> jsval) list" where
  "canon_props ps = filter (\<lambda>(k, v). v \<noteq> JUndef) (map (\<lambda>(k, v). (k, canon v)) (sort_key fst ps))"

lemma canon_JObj [simp]: "canon (JObj ps) = JObj (canon_props ps)"
  by (simp add: canon_props_def canon.simps)

lemma map_of_filter_distinct:
  "distinct (map fst ps) \<Longrightarrow> map_of (filter (\<lambda>(k, v). P v) ps) k =
     (case map_of ps k of Some v \<Rightarrow> if P v then Some v else None | None \<Rightarrow> None)"
proof (induction ps)
  case (Cons p ps)
  obtain a v where [simp]: "p = (a, v)" by (cases p)
  have "map_of ps a = None" using Cons.prems by (simp add: map_of_eq_None_iff)
  with Cons show ?case by auto
qed simp

lemma distinct_keys_sort: "distinct (map fst ps) \<Longrightarrow> distinct (map fst (sort_key fst ps))"
  by (metis distinct_map distinct_sort set_sort)

lemma map_of_sort_key:
  assumes "distinct (map fst ps)"
  shows "map_of (sort_key fst ps) = map_of ps"
proof
  fix k
  show "map_of (sort_key fst ps) k = map_of ps k"
  proof (cases "map_of ps k")
    case None
    then have "map_of (sort_key fst ps) k = None" by (simp add: map_of_eq_None_iff)
    with None show ?thesis by simp
  next
    case (Some v)
    with assms distinct_keys_sort [OF assms] show ?thesis by (simp add: map_of_eq_Some_iff)
  qed
qed

lemma jget_canon_props:
  assumes "distinct (map fst ps)"
  shows "jget (canon_props ps) key = canon (jget ps key)"
proof -
  have *: "distinct (map fst (map (\<lambda>(k, v). (k, canon v)) (sort_key fst ps)))"
    using distinct_keys_sort [OF assms] by (simp add: comp_def case_prod_unfold)
  have "map_of (map (\<lambda>(k, v). (k, canon v)) (sort_key fst ps)) k = map_option canon (map_of ps k)" for k
    using map_of_sort_key [OF assms] by (simp add: map_of_map comp_def)
  then show ?thesis
    by (simp add: jget_def canon_props_def map_of_filter_distinct [OF *] split: option.splits)
qed

lemma only_keys_canon_props: "only_keys ps allowed \<Longrightarrow> only_keys (canon_props ps) allowed"
  by (auto simp: only_keys_def canon_props_def list_all_iff)

lemma distinct_canon_props: "distinct (map fst ps) \<Longrightarrow> distinct (map fst (canon_props ps))"
  unfolding canon_props_def by (drule distinct_keys_sort)
    (intro distinct_map_filter, simp add: comp_def case_prod_unfold)

lemma canon_JObj_get:
  assumes "canon (JObj ps) = canon (JObj qs)" "distinct (map fst ps)" "distinct (map fst qs)"
  shows "canon (jget ps key) = canon (jget qs key)"
  using assms jget_canon_props by (metis canon_JObj jsval.inject(5))

lemma canon_JArr: "\<forall>x\<in>set xs. x \<noteq> JUndef \<Longrightarrow> canon (JArr xs) = JArr (map canon xs)"
  by (auto simp: canon.simps canon_JUndef split: jsval.splits)

text \<open>A canonical form is its own canonical form.\<close>

lemma sorted_canon_props: "sorted (map fst (canon_props ps))"
proof -
  have keys: "map fst (map (\<lambda>(k, v). (k, canon v)) (sort_key fst ps)) = map fst (sort_key fst ps)"
    by (simp add: comp_def case_prod_unfold)
  have "sorted (map fst (map (\<lambda>(k, v). (k, canon v)) (sort_key fst ps)))"
    unfolding keys by (rule sorted_sort_key)
  then show ?thesis unfolding canon_props_def by (rule sorted_filter)
qed

lemma canon_props_eq: "canon_props ps = filter (\<lambda>(k, v). v \<noteq> JUndef) (map (\<lambda>(k, v). (k, canon v)) (sort_key fst ps))"
  by (simp add: canon_props_def)

lemma canon_idem: "canon (canon v) = canon v"
proof (induction v rule: canon.induct)
  case (1 xs)
  have "canon (case canon x of JUndef \<Rightarrow> JNull | y \<Rightarrow> y) = (case canon x of JUndef \<Rightarrow> JNull | y \<Rightarrow> y)"
    if "x \<in> set xs" for x
    using 1 [OF that] by (cases "canon x") (simp_all add: canon.simps)
  moreover have "(case (case canon x of JUndef \<Rightarrow> JNull | y \<Rightarrow> y) of JUndef \<Rightarrow> JNull | y \<Rightarrow> y) =
      (case canon x of JUndef \<Rightarrow> JNull | y \<Rightarrow> y)" for x
    by (cases "canon x") simp_all
  ultimately show ?case by (simp add: canon.simps comp_def)
next
  case (2 ps)
  have "map (\<lambda>(k, v). (k, canon v)) (canon_props ps) = canon_props ps"
  proof (rule map_idI)
    fix p assume "p \<in> set (canon_props ps)"
    then obtain k v where v: "(k, v) \<in> set (sort_key fst ps)" "p = (k, canon v)"
      by (auto simp: canon_props_def)
    then have "canon (canon v) = canon v" using 2 [of "(k, v)" k v] by simp
    with v(2) show "(\<lambda>(k, v). (k, canon v)) p = p" by simp
  qed
  moreover have "sort_key fst (canon_props ps) = canon_props ps"
    by (rule sort_key_id_if_sorted) (rule sorted_canon_props)
  moreover have "filter (\<lambda>(k, v). v \<noteq> JUndef) (canon_props ps) = canon_props ps"
    unfolding canon_props_def by simp
  ultimately have "canon_props (canon_props ps) = canon_props ps"
    by (subst canon_props_eq) simp
  then show ?case by simp
qed (simp_all add: canon.simps)

lemma canon_props_idem: "canon_props (canon_props ps) = canon_props ps"
  using canon_idem [of "JObj ps"] by simp

section \<open>Equality of serialized records\<close>

text \<open>\<open>stableStringify(a) === stableStringify(b)\<close>\<close>

definition stable_equal :: "jsval \<Rightarrow> jsval \<Rightarrow> bool result" where
  "stable_equal a b =
     (case stableStringify a of Inl e \<Rightarrow> Inl e
      | Inr s \<Rightarrow> (case stableStringify b of Inl e \<Rightarrow> Inl e | Inr t \<Rightarrow> Inr (s = t)))"

lemma stable_equal_canon:
  assumes "serializable a" "serializable b" "numbers_ok a" "numbers_ok b" "a \<noteq> JUndef" "b \<noteq> JUndef"
  shows "stable_equal a b = Inr (canon a = canon b)"
  using assms clean_canon [of a] clean_canon [of b] json_text_inj [of "canon a" "canon b"]
  by (auto simp: stable_equal_def stableStringify_canon canon_JUndef)

lemma serializable_canon: "serializable v \<Longrightarrow> serializable (canon v)"
proof (induction v rule: canon.induct)
  case (1 xs)
  moreover have "serializable (case y of JUndef \<Rightarrow> JNull | z \<Rightarrow> z) = serializable y" for y by (cases y) simp_all
  ultimately show ?case by (simp add: canon.simps list_all_iff)
next
  case (2 ps)
  have "serializable (canon v)" if "(k, v) \<in> set ps" for k v
    using 2(1) [of "(k, v)" k v] 2(2) that by (auto simp: list_all_iff)
  then show ?case by (auto simp: canon_props_def list_all_iff)
qed (simp_all add: canon.simps)

end
