(* ===== verification/Js_Time.thy ===== *)
theory Js_Time
  imports Stable_Json
begin

text \<open>
  Instants.  A \<open>Date\<close> is its time value in milliseconds; \<open>toISOString\<close> and \<open>Date.parse\<close> follow
  the calendar arithmetic of ECMAScript (\<open>day_from_year\<close> is its DayFromYear).  \<open>date_parse\<close>
  accepts the date-time spelling with an explicit offset, which is the one the program writes
  and the wire contract requires; the other spellings an engine may accept are rejected here,
  so the model refuses more hand-written timestamps than the program does.
\<close>

section \<open>Calendar\<close>

definition day_from_year :: "int \<Rightarrow> int" where
  "day_from_year y = 365 * (y - 1970) + (y - 1969) div 4 - (y - 1901) div 100 + (y - 1601) div 400"

definition leap_year :: "int \<Rightarrow> bool" where
  "leap_year y \<longleftrightarrow> y mod 4 = 0 \<and> (y mod 100 \<noteq> 0 \<or> y mod 400 = 0)"

definition month_days :: "int \<Rightarrow> int list" where
  "month_days y = [31, if leap_year y then 29 else 28, 31, 30, 31, 30, 31, 31, 30, 31, 30, 31]"

lemma div_succ: "0 < n \<Longrightarrow> (x + 1) div n = x div n + (if n dvd x + 1 then 1 else 0)" for x n :: int
proof -
  assume n: "0 < n"
  let ?q = "x div n" and ?r = "x mod n"
  have x: "x = n * ?q + ?r" by simp
  have r: "0 \<le> ?r" "?r < n" using n by simp_all
  show ?thesis
  proof (cases "?r + 1 < n")
    case True
    have "(x + 1) div n = ?q" by (rule int_div_pos_eq [of _ _ _ "?r + 1"]) (use True r in auto)
    moreover have "(x + 1) mod n = ?r + 1" by (rule int_mod_pos_eq [of _ _ ?q]) (use True r in auto)
    ultimately show ?thesis using r by (auto simp: dvd_eq_mod_eq_0)
  next
    case False
    with r have "?r = n - 1" by simp
    with x have "x + 1 = n * (?q + 1)" by (simp add: algebra_simps)
    then show ?thesis using n by (metis dvd_triv_left nonzero_mult_div_cancel_left less_irrefl)
  qed
qed

lemma shifted_div: "0 < n \<Longrightarrow> n dvd k \<Longrightarrow>
    (y - k) div n = (y - (k + 1)) div n + (if n dvd y then 1 else 0)" for y n k :: int
  using div_succ [of n "y - (k + 1)"] by (simp add: dvd_diff_left_iff algebra_simps dvd_diff_right_iff)

lemma day_from_year_Suc: "day_from_year (y + 1) = day_from_year y + (if leap_year y then 366 else 365)"
proof -
  have "(100 :: int) dvd 400" "(4 :: int) dvd 100" by simp_all
  then have "400 dvd y \<Longrightarrow> 100 dvd y" "100 dvd y \<Longrightarrow> 4 dvd y"
    by (blast intro: dvd_trans)+
  note leap = this
  have s4: "(y - 1968) div 4 = (y - (1968 + 1)) div 4 + (if 4 dvd y then 1 else 0)"
    by (rule shifted_div) simp_all
  have s100: "(y - 1900) div 100 = (y - (1900 + 1)) div 100 + (if 100 dvd y then 1 else 0)"
    by (rule shifted_div) simp_all
  have s400: "(y - 1600) div 400 = (y - (1600 + 1)) div 400 + (if 400 dvd y then 1 else 0)"
    by (rule shifted_div) simp_all
  have shift: "y + 1 - 1969 = y - 1968" "y + 1 - 1901 = y - 1900" "y + 1 - 1601 = y - 1600"
    "(1968 :: int) + 1 = 1969" "(1900 :: int) + 1 = 1901" "(1600 :: int) + 1 = 1601" by simp_all
  obtain a b c where abc: "a = (y - 1969) div 4" "b = (y - 1901) div 100" "c = (y - 1601) div 400"
    by blast
  have "day_from_year y = 365 * (y - 1970) + a - b + c"
    by (simp only: day_from_year_def abc)
  moreover have "day_from_year (y + 1) = 365 * (y + 1 - 1970) + (a + (if 4 dvd y then 1 else 0))
      - (b + (if 100 dvd y then 1 else 0)) + (c + (if 400 dvd y then 1 else 0))"
    by (simp only: day_from_year_def shift(1-3) s4 s100 s400 shift(4-6) abc)
  moreover have "leap_year y \<longleftrightarrow> 4 dvd y \<and> (\<not> 100 dvd y \<or> 400 dvd y)"
    by (simp only: leap_year_def dvd_eq_mod_eq_0)
  ultimately show ?thesis using leap
    by (cases "4 dvd y"; cases "100 dvd y"; cases "400 dvd y") simp_all
qed

text \<open>The year of a day: an estimate from below, then the years up to it.\<close>

function find_year :: "int \<Rightarrow> int \<Rightarrow> int" where
  "find_year y d = (if day_from_year (y + 1) \<le> d then find_year (y + 1) d else y)"
  by pat_completeness auto
termination
  by (relation "measure (\<lambda>(y, d). nat (d - day_from_year y))") (auto simp: day_from_year_Suc split: if_splits)

declare find_year.simps [simp del]

definition year_from_day :: "int \<Rightarrow> int" where
  "year_from_day d = find_year (1970 + (d * 400) div 146097 - 1) d"

lemma find_year_bounds:
  "day_from_year y \<le> d \<Longrightarrow>
   day_from_year (find_year y d) \<le> d \<and> d < day_from_year (find_year y d + 1)"
  by (induction y d rule: find_year.induct) (subst (1 2) find_year.simps, auto)

lemma year_from_day_bounds:
  "day_from_year (year_from_day d) \<le> d" "d < day_from_year (year_from_day d + 1)"
proof -
  have div: "n * (x div n) \<le> x" "x < n * (x div n) + n" if "0 < n" for x n :: int
    using that pos_mod_bound [of n x] pos_mod_sign [of n x] mult_div_mod_eq [of n x] by linarith+
  define y where "y = 1970 + (d * 400) div 146097 - 1"
  have "day_from_year y \<le> d"
    using div(1) [of 146097 "d * 400"] div(1) [of 4 "y - 1969"] div(2) [of 100 "y - 1901"]
      div(1) [of 400 "y - 1601"] unfolding day_from_year_def y_def by simp
  then have "day_from_year (1970 + (d * 400) div 146097 - 1) \<le> d" by (simp only: y_def)
  from find_year_bounds [OF this] show "day_from_year (year_from_day d) \<le> d"
    "d < day_from_year (year_from_day d + 1)" by (simp_all add: year_from_day_def)
qed

lemma day_from_year_mono: "y \<le> z \<Longrightarrow> day_from_year y + 365 * (z - y) \<le> day_from_year z"
proof (induction "nat (z - y)" arbitrary: z)
  case (Suc n)
  then have "day_from_year y + 365 * (z - 1 - y) \<le> day_from_year (z - 1)" by (intro Suc) auto
  with day_from_year_Suc [of "z - 1"] show ?case by (simp split: if_splits)
qed simp

text \<open>The month (from 1) and the day of the month (from 1) of a day of the year (from 0).\<close>

fun find_month :: "int list \<Rightarrow> int \<Rightarrow> int \<Rightarrow> int \<times> int" where
  "find_month [] m d = (m, d + 1)"
| "find_month (l # ls) m d = (if d < l then (m, d + 1) else find_month ls (m + 1) (d - l))"

definition month_start :: "int \<Rightarrow> int \<Rightarrow> int" where
  "month_start y m = sum_list (take (nat (m - 1)) (month_days y))"

lemma find_month_sum:
  "0 \<le> d \<Longrightarrow> d < sum_list ls \<Longrightarrow> find_month ls m0 d = (m, k) \<Longrightarrow>
   m0 \<le> m \<and> m < m0 + int (length ls) \<and> 1 \<le> k \<and> k \<le> ls ! nat (m - m0) \<and>
   d = sum_list (take (nat (m - m0)) ls) + k - 1"
proof (induction ls m0 d rule: find_month.induct)
  case (2 l ls m0 d)
  show ?case
  proof (cases "d < l")
    case False
    with 2 have *: "m0 + 1 \<le> m" "m < m0 + 1 + int (length ls)" "1 \<le> k"
      "k \<le> ls ! nat (m - (m0 + 1))" "d - l = sum_list (take (nat (m - (m0 + 1))) ls) + k - 1" by auto
    moreover have "nat (m - m0) = Suc (nat (m - (m0 + 1)))" using *(1) by simp
    ultimately show ?thesis by simp
  qed (use 2 in auto)
qed simp

lemma sum_month_days: "sum_list (month_days y) = (if leap_year y then 366 else 365)"
  by (simp add: month_days_def)

section \<open>Spelling\<close>

text \<open>\<open>digits k n\<close> writes \<open>n\<close> with exactly \<open>k\<close> decimal digits; \<open>read_digits\<close> reads them.\<close>

fun digits :: "nat \<Rightarrow> int \<Rightarrow> jstr" where
  "digits 0 n = []"
| "digits (Suc k) n = digits k (n div 10) @ [digit_unit (nat (n mod 10))]"

definition digit_value :: "16 word \<Rightarrow> int" where
  "digit_value u = int (unat u) - 0x30"

fun read_digits :: "nat \<Rightarrow> int \<Rightarrow> jstr \<Rightarrow> (int \<times> jstr) option" where
  "read_digits 0 n s = Some (n, s)"
| "read_digits (Suc k) n [] = None"
| "read_digits (Suc k) n (u # s) =
     (if is_digit u then read_digits k (10 * n + digit_value u) s else None)"

lemma read_digits_append:
  "read_digits (j + k) n s =
     (case read_digits j n s of None \<Rightarrow> None | Some (m, r) \<Rightarrow> read_digits k m r)"
  by (induction j n s rule: read_digits.induct) auto

lemma read_digits_digits:
  "0 \<le> n \<Longrightarrow> n < 10 ^ k \<Longrightarrow> read_digits k m (digits k n @ r) = Some (10 ^ k * m + n, r)"
proof (induction k arbitrary: n r)
  case (Suc k)
  have "read_digits k m (digits k (n div 10) @ (digit_unit (nat (n mod 10)) # r)) =
      Some (10 ^ k * m + n div 10, digit_unit (nat (n mod 10)) # r)"
    using Suc.prems by (intro Suc.IH) auto
  moreover have "is_digit (digit_unit (nat (n mod 10)))"
    by (rule digit_unit_is_digit) (simp add: nat_less_iff)
  moreover have "digit_value (digit_unit (nat (n mod 10))) = n mod 10"
    by (simp add: digit_value_def unat_digit_unit nat_less_iff)
  ultimately show ?case
    using read_digits_append [of k 1 m "digits (Suc k) n @ r"] by (simp add: algebra_simps)
qed simp

definition year_text :: "int \<Rightarrow> jstr" where
  "year_text y = (if 0 \<le> y \<and> y \<le> 9999 then digits 4 y
                  else if y < 0 then 0x2D # digits 6 (- y) else 0x2B # digits 6 y)"

text \<open>The time values of a valid \<open>Date\<close>.\<close>

definition valid_time :: "int \<Rightarrow> bool" where
  "valid_time t \<longleftrightarrow> \<bar>t\<bar> \<le> 8640000000000000"

definition to_iso :: "int \<Rightarrow> jstr" where
  "to_iso ms =
     (let day = ms div 86400000; t = ms mod 86400000; y = year_from_day day;
          (m, d) = find_month (month_days y) 1 (day - day_from_year y) in
      year_text y @ [0x2D] @ digits 2 m @ [0x2D] @ digits 2 d @ [0x54] @
      digits 2 (t div 3600000) @ [0x3A] @ digits 2 (t div 60000 mod 60) @ [0x3A] @
      digits 2 (t div 1000 mod 60) @ [0x2E] @ digits 3 (t mod 1000) @ [0x5A])"

definition toISOString :: "int \<Rightarrow> jstr result" where
  "toISOString ms = (if valid_time ms then Inr (to_iso ms) else Inl RangeError)"

definition make_time :: "int \<Rightarrow> int \<Rightarrow> int \<Rightarrow> int \<Rightarrow> int \<Rightarrow> int \<Rightarrow> int \<Rightarrow> int" where
  "make_time y mo d h mi s f =
     (day_from_year y + month_start y mo + d - 1) * 86400000 + h * 3600000 + mi * 60000 + s * 1000 + f"

definition read_year :: "jstr \<Rightarrow> (int \<times> jstr) option" where
  "read_year s = (case s of [] \<Rightarrow> None
     | u # r \<Rightarrow> if u = 0x2B then read_digits 6 0 r
         else if u = 0x2D then
           (case read_digits 6 0 r of None \<Rightarrow> None
            | Some (y, q) \<Rightarrow> if y = 0 then None else Some (- y, q))
         else read_digits 4 0 s)"

fun expect :: "16 word \<Rightarrow> jstr \<Rightarrow> jstr option" where
  "expect c [] = None"
| "expect c (u # s) = (if u = c then Some s else None)"

definition time_field :: "16 word \<Rightarrow> jstr \<Rightarrow> (int \<times> jstr) option" where
  "time_field c s = (case expect c s of None \<Rightarrow> None | Some r \<Rightarrow> read_digits 2 0 r)"

text \<open>An optional fraction: at least one digit, of which three count.\<close>

definition read_fraction :: "jstr \<Rightarrow> (int \<times> jstr) option" where
  "read_fraction s = (case expect 0x2E s of None \<Rightarrow> Some (0, s)
     | Some r \<Rightarrow>
         (let ds = takeWhile is_digit r in
          if ds = [] then None
          else map_option (\<lambda>(f, _). (f, dropWhile is_digit r))
                 (read_digits 3 0 (ds @ [0x30, 0x30]))))"

definition read_offset :: "jstr \<Rightarrow> int option" where
  "read_offset s = (case s of [] \<Rightarrow> None
     | u # r \<Rightarrow> if u = 0x5A then (if r = [] then Some 0 else None)
         else if u = 0x2B \<or> u = 0x2D then
           (case read_digits 2 0 r of None \<Rightarrow> None
            | Some (h, q) \<Rightarrow> (case time_field 0x3A q of None \<Rightarrow> None
               | Some (m, e) \<Rightarrow> if e = [] \<and> h \<le> 23 \<and> m \<le> 59
                   then Some ((if u = 0x2D then - 1 else 1) * (h * 60 + m) * 60000) else None))
         else None)"

text \<open>\<open>Date.parse\<close>; \<open>None\<close> is NaN.\<close>

definition date_parse :: "jstr \<Rightarrow> int option" where
  "date_parse str =
     Option.bind (read_year str) (\<lambda>(y, s1).
     Option.bind (time_field 0x2D s1) (\<lambda>(mo, s2).
     Option.bind (time_field 0x2D s2) (\<lambda>(d, s3).
     Option.bind (time_field 0x54 s3) (\<lambda>(h, s4).
     Option.bind (time_field 0x3A s4) (\<lambda>(mi, s5).
     Option.bind (time_field 0x3A s5) (\<lambda>(sec, s6).
     Option.bind (read_fraction s6) (\<lambda>(f, s7).
     Option.bind (read_offset s7) (\<lambda>off.
       let t = make_time y mo d h mi sec f - off in
       if 1 \<le> mo \<and> mo \<le> 12 \<and> 1 \<le> d \<and> d \<le> 31 \<and> mi \<le> 59 \<and> sec \<le> 59 \<and>
          (h \<le> 23 \<or> h = 24 \<and> mi = 0 \<and> sec = 0 \<and> f = 0) \<and> valid_time t
       then Some t else None))))))))"

section \<open>Round trip\<close>

lemma read_field_digits:
  "0 \<le> n \<Longrightarrow> n < 100 \<Longrightarrow> time_field c (c # digits 2 n @ r) = Some (n, r)"
  using read_digits_digits [of n 2 0 r] by (simp add: time_field_def del: digits.simps)

lemma hd_digits: "0 < k \<Longrightarrow> is_digit (hd (digits k n @ r)) \<and> digits k n @ r \<noteq> []"
proof (induction k arbitrary: n r)
  case (Suc k)
  have "is_digit (digit_unit (nat (n mod 10)))"
    by (rule digit_unit_is_digit) (simp add: nat_less_iff)
  with Suc show ?case by (cases k) auto
qed simp

lemma read_year_text:
  assumes "\<bar>y\<bar> < 1000000"
  shows "read_year (year_text y @ r) = Some (y, r)"
proof (cases "0 \<le> y \<and> y \<le> 9999")
  case True
  have h: "is_digit (hd (digits 4 y @ r))" "digits 4 y @ r \<noteq> []" using hd_digits [of 4 y r] by auto
  then have "hd (digits 4 y @ r) \<noteq> 0x2B" "hd (digits 4 y @ r) \<noteq> 0x2D"
    by (auto simp: is_digit_def)
  with h(2) have "read_year (digits 4 y @ r) = read_digits 4 0 (digits 4 y @ r)"
    by (cases "digits 4 y @ r") (simp_all add: read_year_def)
  with True read_digits_digits [of y 4 0 r] show ?thesis by (simp add: year_text_def)
next
  case False
  with assms read_digits_digits [of y 6 0 r] read_digits_digits [of "- y" 6 0 r] show ?thesis
    by (auto simp: year_text_def read_year_def)
qed

lemma read_fraction_digits:
  assumes "0 \<le> n" "n < 1000"
  shows "read_fraction (0x2E # digits 3 n @ [0x5A]) = Some (n, [0x5A])"
proof -
  have digit: "list_all is_digit (digits k n)" for k n
  proof (induction k arbitrary: n)
    case (Suc k)
    have "is_digit (digit_unit (nat (n mod 10)))"
      by (rule digit_unit_is_digit) (simp add: nat_less_iff)
    with Suc show ?case by simp
  qed simp
  have z: "\<not> is_digit 0x5A" by (simp add: is_digit_def)
  have "takeWhile is_digit (digits 3 n @ [0x5A]) = digits 3 n"
    using digit [of 3 n] z by (subst takeWhile_append2) (auto simp: list_all_iff)
  moreover have "dropWhile is_digit (digits 3 n @ [0x5A]) = [0x5A]"
    using digit [of 3 n] z by (subst dropWhile_append2) (auto simp: list_all_iff)
  moreover have "digits 3 n \<noteq> []" using hd_digits [of 3 n "[]"] by simp
  ultimately show ?thesis
    using read_digits_digits [of n 3 0 "[0x30, 0x30]"] assms by (simp add: read_fraction_def)
qed

lemma year_bound:
  assumes "\<bar>d\<bar> \<le> 100000000"
  shows "\<bar>year_from_day d\<bar> < 1000000"
proof -
  define z where "z = year_from_day d"
  have d: "d \<le> 100000000" "- 100000000 \<le> d" using assms by auto
  have z: "day_from_year z \<le> d" "d < day_from_year (z + 1)"
    using year_from_day_bounds [of d] by (simp_all add: z_def)
  have base: "day_from_year 1970 = 0" by (simp add: day_from_year_def)
  have "z < 1000000"
    using day_from_year_mono [of 1970 z] base d z by (cases "1970 \<le> z") simp_all
  moreover have "- 1000000 < z"
    using day_from_year_mono [of "z + 1" 1970] base d z by (cases "z + 1 \<le> 1970") simp_all
  ultimately show ?thesis by (simp add: z_def abs_less_iff)
qed

lemma clock_sum:
  "(t div 3600000) * 3600000 + (t div 60000 mod 60) * 60000 + (t div 1000 mod 60) * 1000
    + t mod 1000 = (t :: int)"
proof -
  have "t div 60000 = t div 1000 div 60" "t div 3600000 = t div 60000 div 60"
    using zdiv_zmult2_eq [of 60 t 1000] zdiv_zmult2_eq [of 60 t 60000] by simp_all
  then show ?thesis
    using div_mult_mod_eq [of t 1000] div_mult_mod_eq [of "t div 1000" 60]
      div_mult_mod_eq [of "t div 60000" 60] by linarith
qed

text \<open>The fields of a rendered time: a real date and time of day.\<close>

lemma to_iso_fields:
  assumes "valid_time ms"
  shows "\<exists>y m d h mi s f. to_iso ms = year_text y @ 0x2D # digits 2 m @ 0x2D # digits 2 d @ 0x54 #
      digits 2 h @ 0x3A # digits 2 mi @ 0x3A # digits 2 s @ 0x2E # digits 3 f @ [0x5A] \<and>
    make_time y m d h mi s f = ms \<and> y = year_from_day (ms div 86400000) \<and> \<bar>y\<bar> < 1000000 \<and>
    1 \<le> m \<and> m \<le> 12 \<and> 1 \<le> d \<and> d \<le> month_days y ! nat (m - 1) \<and> d \<le> 31 \<and>
    0 \<le> h \<and> h < 24 \<and> 0 \<le> mi \<and> mi < 60 \<and> 0 \<le> s \<and> s < 60 \<and> 0 \<le> f \<and> f < 1000"
proof -
  define day t y where "day = ms div 86400000" and "t = ms mod 86400000" and "y = year_from_day day"
  obtain m d where md: "find_month (month_days y) 1 (day - day_from_year y) = (m, d)"
    by (cases "find_month (month_days y) 1 (day - day_from_year y)")
  have "\<bar>day\<bar> \<le> 100000000" using assms by (auto simp: valid_time_def day_def)
  then have y: "\<bar>y\<bar> < 1000000" unfolding y_def by (rule year_bound)
  have "0 \<le> day - day_from_year y" "day - day_from_year y < sum_list (month_days y)"
    using year_from_day_bounds [of day] day_from_year_Suc [of y] by (simp_all add: sum_month_days y_def)
  from find_month_sum [OF this md]
  have m: "1 \<le> m" "m \<le> 12" and d: "1 \<le> d" "d \<le> month_days y ! nat (m - 1)"
    and sum: "day - day_from_year y = month_start y m + d - 1"
    by (simp_all add: month_start_def month_days_def)
  have "\<forall>l\<in>set (month_days y). l \<le> 31" by (simp add: month_days_def)
  moreover have "month_days y ! nat (m - 1) \<in> set (month_days y)"
    using m by (intro nth_mem) (simp add: month_days_def)
  ultimately have d31: "d \<le> 31" using d by force
  have t: "0 \<le> t" "t < 86400000" by (simp_all add: t_def)
  have fields: "0 \<le> t div 3600000" "t div 3600000 < 24" "0 \<le> t div 60000 mod 60" "t div 60000 mod 60 < 60"
    "0 \<le> t div 1000 mod 60" "t div 1000 mod 60 < 60" "0 \<le> t mod 1000" "t mod 1000 < 1000"
    using t by simp_all
  have clock: "(t div 3600000) * 3600000 + (t div 60000 mod 60) * 60000 + (t div 1000 mod 60) * 1000
      + t mod 1000 = t" by (rule clock_sum)
  have whole: "make_time y m d (t div 3600000) (t div 60000 mod 60) (t div 1000 mod 60) (t mod 1000) = ms"
  proof -
    have "day_from_year y + month_start y m + d - 1 = day" using sum by simp
    moreover have "day * 86400000 + t = ms" by (simp add: day_def t_def)
    ultimately show ?thesis using clock unfolding make_time_def by (simp only:)
  qed
  have iso: "to_iso ms = year_text y @ 0x2D # digits 2 m @ 0x2D # digits 2 d @ 0x54 #
      digits 2 (t div 3600000) @ 0x3A # digits 2 (t div 60000 mod 60) @ 0x3A #
      digits 2 (t div 1000 mod 60) @ 0x2E # digits 3 (t mod 1000) @ [0x5A]"
    using md by (simp add: to_iso_def Let_def day_def t_def y_def)
  have year: "y = year_from_day (ms div 86400000)" by (simp only: y_def day_def)
  show ?thesis
    by (rule exI [of _ y], rule exI [of _ m], rule exI [of _ d], rule exI [of _ "t div 3600000"],
        rule exI [of _ "t div 60000 mod 60"], rule exI [of _ "t div 1000 mod 60"], rule exI [of _ "t mod 1000"])
      (intro conjI iso whole year y m d d31 fields)
qed

theorem date_parse_to_iso:
  assumes "valid_time ms"
  shows "date_parse (to_iso ms) = Some ms"
proof -
  obtain y m d h mi s f where iso: "to_iso ms = year_text y @ 0x2D # digits 2 m @ 0x2D # digits 2 d @ 0x54 #
      digits 2 h @ 0x3A # digits 2 mi @ 0x3A # digits 2 s @ 0x2E # digits 3 f @ [0x5A]"
    and whole: "make_time y m d h mi s f = ms" and y: "\<bar>y\<bar> < 1000000"
    and b: "1 \<le> m" "m \<le> 12" "1 \<le> d" "d \<le> 31" "0 \<le> h" "h < 24" "0 \<le> mi" "mi < 60" "0 \<le> s" "s < 60"
      "0 \<le> f" "f < 1000"
    using to_iso_fields [OF assms] by blast
  have "read_offset [0x5A] = Some 0" by (simp add: read_offset_def)
  moreover have "m < 100" "d < 100" "h < 100" "mi < 100" "s < 100" "0 \<le> m" "0 \<le> d" "h \<le> 23" "mi \<le> 59" "s \<le> 59"
    using b by simp_all
  ultimately show ?thesis
    using b assms
    by (simp only: iso date_parse_def read_year_text [OF y] Option.bind.bind_lunit prod.case
        read_field_digits read_fraction_digits whole Let_def) simp
qed

lemma to_iso_inj: "valid_time a \<Longrightarrow> valid_time b \<Longrightarrow> to_iso a = to_iso b \<Longrightarrow> a = b"
  by (metis date_parse_to_iso option.inject)

lemma length_digits [simp]: "length (digits k n) = k"
  by (induction k arbitrary: n) auto

lemma length_to_iso: "length (to_iso t) \<le> 27"
  by (simp add: to_iso_def year_text_def Let_def split: prod.split)

end
