(* ===== verification/Decoders.thy ===== *)
theory Decoders
  imports Json_Object Js_Time "HOL-Library.Monad_Syntax"
begin

text \<open>
  The guards of the strict decoders, shared by the record formats: a decoder is a chain of guards
  in the option monad, and its caller throws when it gives \<open>None\<close>.  The lemmas read a decoder
  from an object that is the canonical form of a known list of properties.
\<close>

section \<open>Guards\<close>

text \<open>A non-negative, a positive safe integer.\<close>

definition as_integer :: "jsval \<Rightarrow> int option" where
  "as_integer v = (case as_safe_int v of Some n \<Rightarrow> if 0 \<le> n then Some n else None | None \<Rightarrow> None)"

definition as_positive :: "jsval \<Rightarrow> int option" where
  "as_positive v = (case as_safe_int v of Some n \<Rightarrow> if 0 < n then Some n else None | None \<Rightarrow> None)"

definition bounded :: "nat \<Rightarrow> jstr \<Rightarrow> bool" where
  "bounded maximum s \<longleftrightarrow> s \<noteq> [] \<and> byte_length s \<le> maximum"

definition timestamp :: "jstr \<Rightarrow> bool" where
  "timestamp s \<longleftrightarrow> bounded 64 s \<and> date_parse s \<noteq> None"

definition isAbsolute :: "jstr \<Rightarrow> bool" where
  "isAbsolute s \<longleftrightarrow> s \<noteq> [] \<and> hd s = 0x2F"

definition guard :: "bool \<Rightarrow> unit option" where
  "guard b = (if b then Some () else None)"

definition type_checked :: "'a option \<Rightarrow> 'a result" where
  "type_checked x = (case x of None \<Rightarrow> Inl TypeError | Some v \<Rightarrow> Inr v)"

text \<open>An object with no key outside a list.\<close>

definition as_keys :: "string list \<Rightarrow> jsval \<Rightarrow> (jstr \<times> jsval) list option" where
  "as_keys allowed v =
     (case as_object v of None \<Rightarrow> None | Some ps \<Rightarrow> if only_keys ps allowed then Some ps else None)"

fun map_opt :: "('a \<Rightarrow> 'b option) \<Rightarrow> 'a list \<Rightarrow> 'b list option" where
  "map_opt f [] = Some []"
| "map_opt f (x # xs) = do { y \<leftarrow> f x; ys \<leftarrow> map_opt f xs; Some (y # ys) }"

text \<open>An optional property: read when present, and spread in only when defined.\<close>

definition as_optional :: "(jsval \<Rightarrow> 'a option) \<Rightarrow> jsval \<Rightarrow> 'a option option" where
  "as_optional f v = (if v = JUndef then Some None else map_option Some (f v))"

definition opt_prop :: "string \<Rightarrow> jsval option \<Rightarrow> (jstr \<times> jsval) list" where
  "opt_prop key v = (case v of None \<Rightarrow> [] | Some x \<Rightarrow> [(js key, x)])"

section \<open>Reading a decoder\<close>

named_theorems decoder_simps \<open>inversion of a chain of guards\<close>
named_theorems encoder_simps \<open>evaluation of a chain of guards on an encoded record\<close>

lemma guard_Some [decoder_simps]: "guard b = Some u \<longleftrightarrow> b"
  by (simp add: guard_def)

lemma guard_True [encoder_simps]: "guard True = Some ()"
  by (simp add: guard_def)

lemma guard_bind: "Option.bind (guard b) f = (if b then f () else None)"
  by (simp add: guard_def)

lemma type_checked_Inr [decoder_simps]: "type_checked x = Inr v \<longleftrightarrow> x = Some v"
  by (simp add: type_checked_def split: option.splits)

lemma type_checked_Inl: "type_checked x = Inl e \<longleftrightarrow> x = None \<and> e = TypeError"
  by (auto simp: type_checked_def split: option.splits)

lemma as_integer_Some [decoder_simps]:
  "as_integer v = Some n \<longleftrightarrow> v = JNum (NInt n) \<and> safe_nonneg n"
  by (auto simp: as_integer_def as_safe_int_Some safe_nonneg_def split: option.splits)

lemma as_positive_Some [decoder_simps]:
  "as_positive v = Some n \<longleftrightarrow> v = JNum (NInt n) \<and> safe_pos n"
  by (auto simp: as_positive_def as_safe_int_Some safe_pos_def split: option.splits)

lemma as_array_Some [decoder_simps]: "as_array v = Some xs \<longleftrightarrow> v = JArr xs"
  by (cases v) auto

lemma as_bool_Some [decoder_simps]: "as_bool v = Some b \<longleftrightarrow> v = JBool b"
  by (cases v) auto

lemma as_object_Some [decoder_simps]: "as_object v = Some ps \<longleftrightarrow> v = JObj ps"
  by (cases v) auto

lemma as_keys_Some [decoder_simps]:
  "as_keys allowed v = Some ps \<longleftrightarrow> v = JObj ps \<and> only_keys ps allowed"
  by (cases v) (auto simp: as_keys_def)

lemmas [decoder_simps] = as_pattern_Some bind_eq_Some_conv

lemma as_optional_Some [decoder_simps]:
  "as_optional f v = Some x \<longleftrightarrow> v = JUndef \<and> x = None \<or> v \<noteq> JUndef \<and> (\<exists>y. x = Some y \<and> f v = Some y)"
  by (auto simp: as_optional_def)

lemma map_opt_Some: "map_opt f xs = Some ys \<Longrightarrow> list_all2 (\<lambda>x y. f x = Some y) xs ys"
  by (induction xs arbitrary: ys) (auto simp: bind_eq_Some_conv)

lemma map_opt_length: "map_opt f xs = Some ys \<Longrightarrow> length ys = length xs"
  by (drule map_opt_Some) (simp add: list_all2_lengthD)

lemma map_opt_map:
  "(\<And>x. x \<in> set xs \<Longrightarrow> f (g x) = Some x) \<Longrightarrow> map_opt f (map g xs) = Some xs"
  by (induction xs) auto

lemma map_opt_all:
  "map_opt f xs = Some ys \<Longrightarrow> (\<And>x y. f x = Some y \<Longrightarrow> P y) \<Longrightarrow> list_all P ys"
  by (induction xs arbitrary: ys) (auto simp: bind_eq_Some_conv)

section \<open>Encoded records\<close>

lemma as_keys_canon [encoder_simps]:
  "only_keys ps allowed \<Longrightarrow> as_keys allowed (JObj (canon_props ps)) = Some (canon_props ps)"
  by (simp add: as_keys_def only_keys_canon_props)

lemma as_integer_NInt [encoder_simps]: "safe_nonneg n \<Longrightarrow> as_integer (JNum (NInt n)) = Some n"
  by (simp add: as_integer_Some)

lemma as_positive_NInt [encoder_simps]: "safe_pos n \<Longrightarrow> as_positive (JNum (NInt n)) = Some n"
  by (simp add: as_positive_Some)

lemma as_pattern_ok [encoder_simps]: "P s \<Longrightarrow> as_pattern P (JStr s) = Some s"
  by simp

lemma as_optional_JUndef [simp]: "as_optional g JUndef = Some None"
  by (simp add: as_optional_def)

lemma as_optional_JStr [simp]: "as_optional g (JStr s) = map_option Some (g (JStr s))"
  by (simp add: as_optional_def)

lemma as_optional_JObj [simp]: "as_optional g (JObj ps) = map_option Some (g (JObj ps))"
  by (simp add: as_optional_def)

lemma as_optional_JNum [simp]: "as_optional g (JNum n) = map_option Some (g (JNum n))"
  by (simp add: as_optional_def)

lemmas [encoder_simps] = jget_canon_props

lemma jget_Nil [simp]: "jget [] key = JUndef"
  by (simp add: jget_def)

lemma jget_Cons [simp]: "jget ((js k, v) # ps) key = (if k = key then v else jget ps key)"
  by (simp add: jget_def)

lemma jget_append: "jget (ps @ qs) key = (case map_of ps (js key) of Some v \<Rightarrow> v | None \<Rightarrow> jget qs key)"
  by (simp add: jget_def map_add_def split: option.splits)

lemma jget_opt_prop [simp]:
  "jget (opt_prop k v @ ps) key =
     (if k = key then (case v of Some x \<Rightarrow> x | None \<Rightarrow> jget ps key) else jget ps key)"
  by (auto simp: opt_prop_def split: option.splits)

lemma jget_opt_prop_last [simp]:
  "jget (opt_prop k v) key = (if k = key then (case v of Some x \<Rightarrow> x | None \<Rightarrow> JUndef) else JUndef)"
  by (auto simp: opt_prop_def split: option.splits)

lemma only_keys_Nil [simp]: "only_keys [] allowed"
  by (simp add: only_keys_def)

lemma only_keys_Cons [simp]:
  "only_keys ((js k, v) # ps) allowed \<longleftrightarrow> k \<in> set allowed \<and> only_keys ps allowed"
  by (auto simp: only_keys_def)

lemma only_keys_opt_prop [simp]:
  "only_keys (opt_prop k v @ ps) allowed \<longleftrightarrow> (v \<noteq> None \<longrightarrow> k \<in> set allowed) \<and> only_keys ps allowed"
  by (auto simp: opt_prop_def split: option.splits)

lemma only_keys_opt_prop_last [simp]:
  "only_keys (opt_prop k v) allowed \<longleftrightarrow> (v \<noteq> None \<longrightarrow> k \<in> set allowed)"
  by (auto simp: opt_prop_def split: option.splits)

lemma fst_opt_prop [simp]: "set (map fst (opt_prop k v)) \<subseteq> {js k}"
  by (auto simp: opt_prop_def split: option.splits)

lemma mem_opt_prop [simp]: "p \<in> set (opt_prop k v) \<longleftrightarrow> (\<exists>x. v = Some x \<and> p = (js k, x))"
  by (auto simp: opt_prop_def split: option.splits)

lemma distinct_opt_prop [simp]: "distinct (map fst (opt_prop k v))"
  by (auto simp: opt_prop_def split: option.splits)

lemma canon_case_option [simp]:
  "canon (case x of None \<Rightarrow> JUndef | Some y \<Rightarrow> f y) = (case x of None \<Rightarrow> JUndef | Some y \<Rightarrow> canon (f y))"
  by (cases x) auto

lemma canon_JArr_JObj [simp]:
  "canon (JArr (map (\<lambda>x. JObj (f x)) xs)) = JArr (map (\<lambda>x. JObj (canon_props (f x))) xs)"
  by (simp add: canon_JArr)

end
