(* ===== verification/Replay.thy ===== *)
theory Replay
  imports Prelude
begin

text \<open>
  Loops that fold a fallible step over a list, and the contract of a step that absorbs what it
  has already recorded.  Several components promise it: coverage that was already merged, records
  that were already appended and events that were already announced change nothing when they are
  delivered again.
\<close>

text \<open>\<open>for (const e of es) s = step(e, s)\<close> where \<open>step\<close> may throw.\<close>

fun run_steps :: "('e \<Rightarrow> 's \<Rightarrow> 's result) \<Rightarrow> 'e list \<Rightarrow> 's \<Rightarrow> 's result" where
  "run_steps step [] s = Inr s"
| "run_steps step (e # es) s =
     (case step e s of Inl x \<Rightarrow> Inl x | Inr s' \<Rightarrow> run_steps step es s')"

lemma run_steps_append:
  "run_steps step (es @ fs) s =
     (case run_steps step es s of Inl x \<Rightarrow> Inl x | Inr s' \<Rightarrow> run_steps step fs s')"
  by (induction es arbitrary: s) (auto split: sum.splits)

lemma run_steps_Cons_Inr:
  "run_steps step (e # es) s = Inr s' \<longleftrightarrow>
   (\<exists>m. step e s = Inr m \<and> run_steps step es m = Inr s')"
  by (auto split: sum.splits)

lemma run_steps_invariant:
  assumes "\<And>e s s'. P s \<Longrightarrow> step e s = Inr s' \<Longrightarrow> P s'"
  shows "P s \<Longrightarrow> run_steps step es s = Inr s' \<Longrightarrow> P s'"
  by (induction es arbitrary: s) (auto split: sum.splits dest: assms)

text \<open>
  \<open>holds s e\<close> says that the state records \<open>e\<close>; \<open>agree e f\<close> that handling \<open>e\<close> cannot displace \<open>f\<close>.
\<close>

locale absorbing =
  fixes step :: "'e \<Rightarrow> 's \<Rightarrow> 's result"
    and inv :: "'s \<Rightarrow> bool"
    and holds :: "'s \<Rightarrow> 'e \<Rightarrow> bool"
    and agree :: "'e \<Rightarrow> 'e \<Rightarrow> bool"
  assumes step_inv: "inv s \<Longrightarrow> step e s = Inr s' \<Longrightarrow> inv s'"
    and step_holds: "inv s \<Longrightarrow> step e s = Inr s' \<Longrightarrow> holds s' e"
    and step_keeps: "inv s \<Longrightarrow> step e s = Inr s' \<Longrightarrow> agree e f \<Longrightarrow> holds s f \<Longrightarrow> holds s' f"
    and absorb: "inv s \<Longrightarrow> holds s e \<Longrightarrow> step e s = Inr s"
begin

lemma run_inv: "inv s \<Longrightarrow> run_steps step es s = Inr s' \<Longrightarrow> inv s'"
  using run_steps_invariant [of inv step] step_inv by blast

lemma run_keeps:
  "inv s \<Longrightarrow> run_steps step es s = Inr s' \<Longrightarrow> \<forall>e\<in>set es. agree e f \<Longrightarrow> holds s f \<Longrightarrow> holds s' f"
proof (induction es arbitrary: s)
  case (Cons e es)
  then obtain m where m: "step e s = Inr m" "run_steps step es m = Inr s'"
    by (auto simp: run_steps_Cons_Inr simp del: run_steps.simps)
  show ?case
    by (rule Cons.IH [OF step_inv [OF Cons.prems(1) m(1)] m(2)])
      (use Cons.prems m step_keeps in auto)
qed simp

lemma run_holds:
  "inv s \<Longrightarrow> run_steps step es s = Inr s' \<Longrightarrow> \<forall>e\<in>set es. \<forall>f\<in>set es. agree e f \<Longrightarrow>
   \<forall>e\<in>set es. holds s' e"
proof (induction es arbitrary: s)
  case (Cons e es)
  then obtain m where m: "step e s = Inr m" "run_steps step es m = Inr s'"
    by (auto simp: run_steps_Cons_Inr simp del: run_steps.simps)
  have inv: "inv m" by (rule step_inv [OF Cons.prems(1) m(1)])
  have "holds s' e"
    by (rule run_keeps [OF inv m(2)]) (use Cons.prems step_holds [OF _ m(1)] in auto)
  moreover have "\<forall>f\<in>set es. holds s' f"
    by (rule Cons.IH [OF inv m(2)]) (use Cons.prems in auto)
  ultimately show ?case by simp
qed simp

lemma run_absorbs: "inv s \<Longrightarrow> \<forall>e\<in>set es. holds s e \<Longrightarrow> run_steps step es s = Inr s"
  by (induction es) (auto simp: absorb)

text \<open>Delivering the same elements again changes nothing.\<close>

lemma run_replay:
  "inv s \<Longrightarrow> run_steps step es s = Inr s' \<Longrightarrow> \<forall>e\<in>set es. \<forall>f\<in>set es. agree e f \<Longrightarrow>
   run_steps step es s' = Inr s'"
  using run_absorbs run_holds run_inv by blast

end

end
