(* ===== verification/Read_Coverage.thy ===== *)
theory Read_Coverage
  imports Byte_Ranges Decoders Replay
begin

text \<open>
  The read state of a nudge cursor (\<open>nudge/read-state.ts\<close>): pending reads, delivered coverage per
  record version, their strict decoders, and the merge of newly delivered coverage.
\<close>

section \<open>Data\<close>

definition READ_OUTPUT_CEILING_BYTES :: nat where "READ_OUTPUT_CEILING_BYTES = 8192"
definition READ_INVOCATION_TTL_MS :: int where "READ_INVOCATION_TTL_MS = 5 * 60000"
definition MAX_PENDING_READS :: nat where "MAX_PENDING_READS = 32"
definition MAX_READ_COVERAGE_RECORDS :: nat where "MAX_READ_COVERAGE_RECORDS = 1024"

datatype read_field = FRecord | FRequest | FResponse

fun field_name :: "read_field \<Rightarrow> jstr" where
  "field_name FRecord = js ''record''"
| "field_name FRequest = js ''request''"
| "field_name FResponse = js ''response''"

record coverage_entry =
  cv_provider :: jstr
  cv_session_id :: jstr
  cv_turn_id :: jstr
  cv_record_sha256 :: jstr
  cv_field :: read_field
  cv_field_sha256 :: jstr
  cv_total_bytes :: int
  cv_ranges :: "read_range list"

datatype delivery_turn = CodexTurn jstr | ClaudeTurn int

record pending_read =
  pd_nonce :: jstr
  pd_tool_use_id :: jstr
  pd_turn :: delivery_turn
  pd_project_root :: jstr
  pd_command :: jstr
  pd_query_sha256 :: jstr
  pd_tool_input_sha256 :: jstr
  pd_created_at :: jstr
  pd_expires_at :: jstr
  pd_output :: "jstr option"

record read_state =
  rs_pending :: "pending_read list"
  rs_coverage :: "coverage_entry list"
  rs_outside_window :: bool
  rs_informed_turn :: "delivery_turn option"

definition emptyNudgeReadState :: read_state where
  "emptyNudgeReadState =
     \<lparr> rs_pending = [], rs_coverage = [], rs_outside_window = False, rs_informed_turn = None \<rparr>"

section \<open>Guards\<close>

definition nonce_pattern :: "jstr \<Rightarrow> bool" where
  "nonce_pattern = id_pattern '''' 32"

definition as_field :: "jsval \<Rightarrow> read_field option" where
  "as_field v =
     (if v = JStr (js ''record'') then Some FRecord
      else if v = JStr (js ''request'') then Some FRequest
      else if v = JStr (js ''response'') then Some FResponse else None)"

section \<open>Decoders\<close>

definition range_refused :: "int \<Rightarrow> read_range list \<Rightarrow> int \<Rightarrow> int \<Rightarrow> bool" where
  "range_refused whole ranges a b \<longleftrightarrow>
     b < a \<or> b > whole \<or> a = b \<and> whole \<noteq> 0 \<or>
     (case at_last ranges of Some p \<Rightarrow> r_end p \<ge> a | None \<Rightarrow> False)"

fun parse_ranges :: "int \<Rightarrow> read_range list \<Rightarrow> jsval list \<Rightarrow> read_range list option" where
  "parse_ranges whole ranges [] = Some ranges"
| "parse_ranges whole ranges (v # vs) = do {
     ps \<leftarrow> as_keys [''start'', ''end''] v;
     a \<leftarrow> as_integer (jget ps ''start'');
     b \<leftarrow> as_integer (jget ps ''end'');
     guard (\<not> range_refused whole ranges a b);
     parse_ranges whole (ranges @ [\<lparr> r_start = a, r_end = b \<rparr>]) vs }"

definition coverage_keys :: "string list" where
  "coverage_keys = [''provider'', ''session_id'', ''turn_id'', ''record_sha256'', ''field'',
     ''field_sha256'', ''total_bytes'', ''ranges'']"

definition read_coverage_entry :: "jsval \<Rightarrow> coverage_entry option" where
  "read_coverage_entry v = do {
     ps \<leftarrow> as_keys coverage_keys v;
     provider \<leftarrow> as_pattern provider_pattern (jget ps ''provider'');
     session \<leftarrow> as_pattern session_id_pattern (jget ps ''session_id'');
     turn \<leftarrow> as_pattern turn_id_pattern (jget ps ''turn_id'');
     rsha \<leftarrow> as_pattern sha256_pattern (jget ps ''record_sha256'');
     fsha \<leftarrow> as_pattern sha256_pattern (jget ps ''field_sha256'');
     field \<leftarrow> as_field (jget ps ''field'');
     whole \<leftarrow> as_integer (jget ps ''total_bytes'');
     vs \<leftarrow> as_array (jget ps ''ranges'');
     guard (vs \<noteq> [] \<and> length vs \<le> MAX_READ_COVERAGE_RANGES);
     ranges \<leftarrow> parse_ranges whole [] vs;
     Some \<lparr> cv_provider = provider, cv_session_id = session, cv_turn_id = turn,
       cv_record_sha256 = rsha, cv_field = field, cv_field_sha256 = fsha,
       cv_total_bytes = whole, cv_ranges = ranges \<rparr> }"

definition parseCoverage :: "jsval \<Rightarrow> coverage_entry result" where
  "parseCoverage v = type_checked (read_coverage_entry v)"

definition parseReadTurn :: "jsval \<Rightarrow> jstr \<Rightarrow> int option \<Rightarrow> delivery_turn option" where
  "parseReadTurn v provider generation =
     (if provider = js ''codex'' then do {
        ps \<leftarrow> as_keys [''kind'', ''turn_id''] v;
        guard (jget ps ''kind'' = JStr provider);
        turn \<leftarrow> as_pattern turn_id_pattern (jget ps ''turn_id'');
        Some (CodexTurn turn) }
      else do {
        ps \<leftarrow> as_keys [''kind'', ''generation''] v;
        guard (provider = js ''claude'' \<and> jget ps ''kind'' = JStr provider);
        g \<leftarrow> as_integer (jget ps ''generation'');
        current \<leftarrow> generation;
        guard (1 \<le> g \<and> g \<le> current);
        Some (ClaudeTurn g) })"

definition pending_keys :: "string list" where
  "pending_keys = [''nonce'', ''tool_use_id'', ''turn'', ''project_root'', ''command'',
     ''query_sha256'', ''tool_input_sha256'', ''created_at'', ''expires_at'', ''output'']"

definition lifetime_ok :: "jstr \<Rightarrow> jstr \<Rightarrow> bool" where
  "lifetime_ok created expires \<longleftrightarrow>
     (case (date_parse created, date_parse expires) of
        (Some c, Some e) \<Rightarrow> c < e \<and> e - c \<le> READ_INVOCATION_TTL_MS
      | _ \<Rightarrow> False)"

definition parsePending :: "jstr \<Rightarrow> int option \<Rightarrow> jsval \<Rightarrow> pending_read option" where
  "parsePending provider generation v = do {
     ps \<leftarrow> as_keys pending_keys v;
     nonce \<leftarrow> as_pattern nonce_pattern (jget ps ''nonce'');
     tool \<leftarrow> as_pattern (bounded 512) (jget ps ''tool_use_id'');
     root \<leftarrow> as_pattern (\<lambda>s. bounded 4096 s \<and> isAbsolute s) (jget ps ''project_root'');
     command \<leftarrow> as_pattern (bounded 8192) (jget ps ''command'');
     qsha \<leftarrow> as_pattern sha256_pattern (jget ps ''query_sha256'');
     isha \<leftarrow> as_pattern sha256_pattern (jget ps ''tool_input_sha256'');
     created \<leftarrow> as_pattern timestamp (jget ps ''created_at'');
     expires \<leftarrow> as_pattern timestamp (jget ps ''expires_at'');
     guard (lifetime_ok created expires);
     output \<leftarrow> as_optional (as_pattern (bounded READ_OUTPUT_CEILING_BYTES)) (jget ps ''output'');
     turn \<leftarrow> parseReadTurn (jget ps ''turn'') provider generation;
     Some \<lparr> pd_nonce = nonce, pd_tool_use_id = tool, pd_turn = turn, pd_project_root = root,
       pd_command = command, pd_query_sha256 = qsha, pd_tool_input_sha256 = isha,
       pd_created_at = created, pd_expires_at = expires, pd_output = output \<rparr> }"

text \<open>\<open>coverageKey\<close>\<close>

definition coverageKey :: "coverage_entry \<Rightarrow> jstr" where
  "coverageKey e = cv_provider e @ js ''/'' @ cv_session_id e @ js ''/'' @ cv_turn_id e @ js ''/'' @
     field_name (cv_field e)"

definition state_keys :: "string list" where
  "state_keys = [''pending'', ''coverage'', ''outside_window'', ''informed_turn'']"

definition read_read_state :: "jsval \<Rightarrow> jstr \<Rightarrow> int option \<Rightarrow> read_state option" where
  "read_read_state v provider generation = do {
     ps \<leftarrow> as_keys state_keys v;
     pv \<leftarrow> as_array (jget ps ''pending'');
     cv \<leftarrow> as_array (jget ps ''coverage'');
     outside \<leftarrow> as_bool (jget ps ''outside_window'');
     guard (length pv \<le> MAX_PENDING_READS \<and> length cv \<le> MAX_READ_COVERAGE_RECORDS);
     pending \<leftarrow> map_opt (parsePending provider generation) pv;
     guard (distinct (map pd_nonce pending) \<and> distinct (map pd_tool_use_id pending));
     coverage \<leftarrow> map_opt read_coverage_entry cv;
     guard (distinct (map coverageKey coverage));
     informed \<leftarrow> as_optional (\<lambda>t. parseReadTurn t provider generation) (jget ps ''informed_turn'');
     Some \<lparr> rs_pending = pending, rs_coverage = coverage, rs_outside_window = outside,
       rs_informed_turn = informed \<rparr> }"

definition parseNudgeReadState :: "jsval \<Rightarrow> jstr \<Rightarrow> int option \<Rightarrow> read_state result" where
  "parseNudgeReadState v provider generation = type_checked (read_read_state v provider generation)"

section \<open>The objects the records are written as\<close>

text \<open>There is no encoder in the code: a state is written by \<open>JSON.stringify\<close> of the object, with the
  properties of its type; an optional one is left out when it is undefined.\<close>

definition range_props :: "read_range \<Rightarrow> (jstr \<times> jsval) list" where
  "range_props r = [(js ''start'', JNum (NInt (r_start r))), (js ''end'', JNum (NInt (r_end r)))]"

definition coverage_props :: "coverage_entry \<Rightarrow> (jstr \<times> jsval) list" where
  "coverage_props e =
     [(js ''provider'', JStr (cv_provider e)), (js ''session_id'', JStr (cv_session_id e)),
      (js ''turn_id'', JStr (cv_turn_id e)), (js ''record_sha256'', JStr (cv_record_sha256 e)),
      (js ''field'', JStr (field_name (cv_field e))), (js ''field_sha256'', JStr (cv_field_sha256 e)),
      (js ''total_bytes'', JNum (NInt (cv_total_bytes e))),
      (js ''ranges'', JArr (map (\<lambda>r. JObj (range_props r)) (cv_ranges e)))]"

fun turn_props :: "delivery_turn \<Rightarrow> (jstr \<times> jsval) list" where
  "turn_props (CodexTurn t) = [(js ''kind'', JStr (js ''codex'')), (js ''turn_id'', JStr t)]"
| "turn_props (ClaudeTurn g) = [(js ''kind'', JStr (js ''claude'')), (js ''generation'', JNum (NInt g))]"

definition pending_props :: "pending_read \<Rightarrow> (jstr \<times> jsval) list" where
  "pending_props p =
     [(js ''nonce'', JStr (pd_nonce p)), (js ''tool_use_id'', JStr (pd_tool_use_id p)),
      (js ''turn'', JObj (turn_props (pd_turn p))), (js ''project_root'', JStr (pd_project_root p)),
      (js ''command'', JStr (pd_command p)), (js ''query_sha256'', JStr (pd_query_sha256 p)),
      (js ''tool_input_sha256'', JStr (pd_tool_input_sha256 p)),
      (js ''created_at'', JStr (pd_created_at p)), (js ''expires_at'', JStr (pd_expires_at p))] @
     opt_prop ''output'' (map_option JStr (pd_output p))"

definition read_state_props :: "read_state \<Rightarrow> (jstr \<times> jsval) list" where
  "read_state_props st =
     [(js ''pending'', JArr (map (\<lambda>p. JObj (pending_props p)) (rs_pending st))),
      (js ''coverage'', JArr (map (\<lambda>e. JObj (coverage_props e)) (rs_coverage st))),
      (js ''outside_window'', JBool (rs_outside_window st))] @
     opt_prop ''informed_turn'' (map_option (\<lambda>t. JObj (turn_props t)) (rs_informed_turn st))"

section \<open>Merging delivered coverage\<close>

definition coverage_json :: "coverage_entry \<Rightarrow> jsval" where
  "coverage_json e = JObj (coverage_props e)"

definition sameVersion :: "coverage_entry \<Rightarrow> coverage_entry \<Rightarrow> bool" where
  "sameVersion prior entry \<longleftrightarrow>
     cv_record_sha256 prior = cv_record_sha256 entry \<and>
     cv_field_sha256 prior = cv_field_sha256 entry \<and>
     cv_total_bytes prior = cv_total_bytes entry"

text \<open>\<open>next\<close>: the entry, with the ranges of the prior one when it is of the same version.\<close>

definition next_entry :: "coverage_entry option \<Rightarrow> coverage_entry \<Rightarrow> coverage_entry result" where
  "next_entry prior entry =
     (case prior of
        Some p \<Rightarrow>
          if sameVersion p entry then
            (case mergeReadRanges (cv_ranges p @ cv_ranges entry) of
               Inl e \<Rightarrow> Inl e
             | Inr rs \<Rightarrow> Inr (entry \<lparr> cv_ranges := rs \<rparr>))
          else Inr entry
      | None \<Rightarrow> Inr entry)"

text \<open>The body of the loop over the delivered entries: the map and the flag \<open>changed\<close>.\<close>

type_synonym coverage_map = "(jstr \<times> coverage_entry) list"

definition merge_entry ::
  "nat \<Rightarrow> jsval \<Rightarrow> coverage_map \<times> bool \<Rightarrow> (coverage_map \<times> bool) result" where
  "merge_entry maximum raw st =
     (case parseCoverage raw of Inl e \<Rightarrow> Inl e
      | Inr entry \<Rightarrow>
          (let (entries, changed) = st; key = coverageKey entry; prior = map_of entries key in
           case next_entry prior entry of Inl e \<Rightarrow> Inl e
           | Inr nxt \<Rightarrow>
               (case (case prior of None \<Rightarrow> Inr False
                      | Some p \<Rightarrow> stable_equal (coverage_json p) (coverage_json nxt)) of
                  Inl e \<Rightarrow> Inl e
                | Inr same \<Rightarrow>
                    if same then Inr st
                    else
                      (let entries' = AList.update key nxt entries in
                       if length entries' > maximum then Inl ReadCoverageCapacityError
                       else Inr (entries', True)))))"

definition coverage_map_of :: "coverage_entry list \<Rightarrow> coverage_map" where
  "coverage_map_of es = foldl (\<lambda>m e. AList.update (coverageKey e) e m) [] es"

definition mergeCoverage :: "read_state \<Rightarrow> jsval list \<Rightarrow> nat \<Rightarrow> read_state result" where
  "mergeCoverage st delivered maximum =
     (case run_steps (merge_entry maximum) delivered (coverage_map_of (rs_coverage st), False) of
        Inl e \<Rightarrow> Inl e
      | Inr (entries, changed) \<Rightarrow>
          Inr (if changed then st \<lparr> rs_coverage := map snd entries \<rparr> else st))"

definition mergeReadCoverage :: "read_state \<Rightarrow> jsval list \<Rightarrow> read_state result" where
  "mergeReadCoverage st delivered = mergeCoverage st delivered MAX_READ_COVERAGE_RECORDS"

definition mergeReadCoverageForScan :: "read_state \<Rightarrow> jsval list \<Rightarrow> read_state result" where
  "mergeReadCoverageForScan st delivered =
     (if length delivered > MAX_READ_COVERAGE_RECORDS then Inl ReadCoverageCapacityError
      else mergeCoverage st delivered (MAX_READ_COVERAGE_RECORDS + length delivered))"

definition isReadCoverageComplete :: "coverage_entry \<Rightarrow> bool" where
  "isReadCoverageComplete e \<longleftrightarrow>
     (case cv_ranges e of [r] \<Rightarrow> r_start r = 0 \<and> r_end r = cv_total_bytes e | _ \<Rightarrow> False)"

section \<open>Well-formed records\<close>

definition ranges_ok :: "int \<Rightarrow> read_range list \<Rightarrow> bool" where
  "ranges_ok whole rs \<longleftrightarrow>
     normalized rs \<and> list_all (\<lambda>r. r_end r \<le> whole \<and> (r_start r = r_end r \<longrightarrow> whole = 0)) rs"

definition coverage_ok :: "coverage_entry \<Rightarrow> bool" where
  "coverage_ok e \<longleftrightarrow>
     provider_pattern (cv_provider e) \<and> session_id_pattern (cv_session_id e) \<and>
     turn_id_pattern (cv_turn_id e) \<and> sha256_pattern (cv_record_sha256 e) \<and>
     sha256_pattern (cv_field_sha256 e) \<and> safe_nonneg (cv_total_bytes e) \<and>
     cv_ranges e \<noteq> [] \<and> length (cv_ranges e) \<le> MAX_READ_COVERAGE_RANGES \<and>
     ranges_ok (cv_total_bytes e) (cv_ranges e)"

fun turn_ok :: "jstr \<Rightarrow> int option \<Rightarrow> delivery_turn \<Rightarrow> bool" where
  "turn_ok provider generation (CodexTurn t) \<longleftrightarrow> provider = js ''codex'' \<and> turn_id_pattern t"
| "turn_ok provider generation (ClaudeTurn g) \<longleftrightarrow>
     provider = js ''claude'' \<and> safe_pos g \<and> (case generation of Some c \<Rightarrow> g \<le> c | None \<Rightarrow> False)"

definition pending_ok :: "jstr \<Rightarrow> int option \<Rightarrow> pending_read \<Rightarrow> bool" where
  "pending_ok provider generation p \<longleftrightarrow>
     nonce_pattern (pd_nonce p) \<and> bounded 512 (pd_tool_use_id p) \<and>
     turn_ok provider generation (pd_turn p) \<and>
     bounded 4096 (pd_project_root p) \<and> isAbsolute (pd_project_root p) \<and>
     bounded 8192 (pd_command p) \<and> sha256_pattern (pd_query_sha256 p) \<and>
     sha256_pattern (pd_tool_input_sha256 p) \<and> timestamp (pd_created_at p) \<and>
     timestamp (pd_expires_at p) \<and> lifetime_ok (pd_created_at p) (pd_expires_at p) \<and>
     (case pd_output p of None \<Rightarrow> True | Some s \<Rightarrow> bounded READ_OUTPUT_CEILING_BYTES s)"

definition read_state_ok :: "jstr \<Rightarrow> int option \<Rightarrow> read_state \<Rightarrow> bool" where
  "read_state_ok provider generation st \<longleftrightarrow>
     length (rs_pending st) \<le> MAX_PENDING_READS \<and>
     length (rs_coverage st) \<le> MAX_READ_COVERAGE_RECORDS \<and>
     list_all (pending_ok provider generation) (rs_pending st) \<and>
     distinct (map pd_nonce (rs_pending st)) \<and> distinct (map pd_tool_use_id (rs_pending st)) \<and>
     list_all coverage_ok (rs_coverage st) \<and> distinct (map coverageKey (rs_coverage st)) \<and>
     (case rs_informed_turn st of None \<Rightarrow> True | Some t \<Rightarrow> turn_ok provider generation t)"

lemma normalized_snoc_last:
  assumes "normalized rs" "range_ok r"
    "case at_last rs of Some p \<Rightarrow> r_end p < r_start r | None \<Rightarrow> True"
  shows "normalized (rs @ [r])"
proof (cases rs rule: rev_cases)
  case Nil
  with assms show ?thesis by (simp add: range_simps)
next
  case (snoc qs p)
  then have "\<forall>s\<in>set rs. r_end s < r_start r" using assms by (auto simp: range_simps range_ok_def)
  with assms show ?thesis by (simp add: normalized_snoc)
qed

lemma ranges_ok_snoc:
  assumes "ranges_ok whole acc" "safe_nonneg a" "safe_nonneg b" "\<not> range_refused whole acc a b"
  shows "ranges_ok whole (acc @ [\<lparr> r_start = a, r_end = b \<rparr>])"
proof -
  have "normalized (acc @ [\<lparr> r_start = a, r_end = b \<rparr>])"
    using assms by (intro normalized_snoc_last)
      (auto simp: ranges_ok_def range_ok_def range_refused_def split: option.splits)
  with assms show ?thesis by (auto simp: ranges_ok_def range_refused_def)
qed

lemma range_refused_snoc:
  assumes "ranges_ok whole (acc @ r # rs)"
  shows "\<not> range_refused whole acc (r_start r) (r_end r)" "safe_nonneg (r_start r)" "safe_nonneg (r_end r)"
  using assms
  by (cases acc rule: rev_cases;
      auto simp: ranges_ok_def range_refused_def normalized_def sorted_wrt_append range_ok_def)+

lemma parse_ranges_ok:
  "parse_ranges whole acc vs = Some rs \<Longrightarrow> ranges_ok whole acc \<Longrightarrow>
   ranges_ok whole rs \<and> length rs = length acc + length vs"
proof (induction whole acc vs arbitrary: rs rule: parse_ranges.induct)
  case (2 whole acc v vs)
  from "2.prems"(1) obtain ps a b where
    "as_keys [''start'', ''end''] v = Some ps" "as_integer (jget ps ''start'') = Some a"
    "as_integer (jget ps ''end'') = Some b" "\<not> range_refused whole acc a b"
    and rest: "parse_ranges whole (acc @ [\<lparr> r_start = a, r_end = b \<rparr>]) vs = Some rs"
    and safe: "safe_nonneg a" "safe_nonneg b"
    by (auto simp: bind_eq_Some_conv guard_Some as_integer_Some)
  note IH = "2.IH" [OF this(1-3) _ rest]
  from IH ranges_ok_snoc [OF "2.prems"(2) safe \<open>\<not> range_refused whole acc a b\<close>]
    \<open>\<not> range_refused whole acc a b\<close>
  show ?case by (simp add: guard_Some)
qed simp

lemma parse_ranges_props:
  "ranges_ok whole (acc @ rs) \<Longrightarrow>
   parse_ranges whole acc (map (\<lambda>r. JObj (canon_props (range_props r))) rs) = Some (acc @ rs)"
proof (induction rs arbitrary: acc)
  case (Cons r rs)
  have keys: "distinct (map fst (range_props r))" "only_keys (range_props r) [''start'', ''end'']"
    by (simp_all add: range_props_def)
  have "ranges_ok whole ((acc @ [r]) @ rs)" using Cons.prems by simp
  then show ?case using Cons.IH [of "acc @ [r]"] range_refused_snoc [OF Cons.prems] keys
    by (cases r, simp add: encoder_simps) (simp add: range_props_def encoder_simps)
qed simp

lemma read_coverage_entry_ok: "read_coverage_entry v = Some e \<Longrightarrow> coverage_ok e"
  by (auto simp: read_coverage_entry_def coverage_ok_def decoder_simps
      dest!: parse_ranges_ok simp: ranges_ok_def)

lemma field_name_inj [simp]: "field_name f = field_name g \<longleftrightarrow> f = g"
  by (cases f; cases g) simp_all

lemma as_field_name [encoder_simps]: "as_field (JStr (field_name f)) = Some f"
  by (cases f) (simp_all add: as_field_def)

lemma coverage_props_keys:
  "distinct (map fst (coverage_props e))" "only_keys (coverage_props e) coverage_keys"
  by (simp_all add: coverage_props_def coverage_keys_def)

lemma read_coverage_entry_props:
  "coverage_ok e \<Longrightarrow> read_coverage_entry (JObj (canon_props (coverage_props e))) = Some e"
  using parse_ranges_props [of "cv_total_bytes e" "[]" "cv_ranges e"]
  by (simp add: read_coverage_entry_def coverage_props_keys encoder_simps)
    (simp add: coverage_props_def coverage_ok_def encoder_simps)

lemma parseReadTurn_ok: "parseReadTurn v provider g = Some t \<Longrightarrow> turn_ok provider g t"
  by (auto simp: parseReadTurn_def decoder_simps safe_nonneg_def safe_pos_def split: if_splits)

lemma turn_props_keys: "distinct (map fst (turn_props t))"
  by (cases t) simp_all

lemma parseReadTurn_props [encoder_simps]:
  "turn_ok provider g t \<Longrightarrow> parseReadTurn (JObj (canon_props (turn_props t))) provider g = Some t"
  using turn_props_keys [of t]
  by (cases t) (auto simp: parseReadTurn_def encoder_simps guard_bind safe_pos_nonneg safe_pos_def
      split: option.splits)

lemma parsePending_ok: "parsePending provider g v = Some p \<Longrightarrow> pending_ok provider g p"
  by (auto simp: parsePending_def pending_ok_def decoder_simps dest!: parseReadTurn_ok)

lemma pending_props_keys:
  "distinct (map fst (pending_props p))" "only_keys (pending_props p) pending_keys"
  by (simp_all add: pending_props_def pending_keys_def opt_prop_def split: option.split)

lemma parsePending_props:
  "pending_ok provider g p \<Longrightarrow> parsePending provider g (JObj (canon_props (pending_props p))) = Some p"
  by (simp add: parsePending_def pending_props_keys encoder_simps)
    (cases "pd_output p"; simp add: pending_props_def pending_ok_def encoder_simps)

lemma read_read_state_ok: "read_read_state v provider g = Some st \<Longrightarrow> read_state_ok provider g st"
  by (auto simp: read_read_state_def read_state_ok_def decoder_simps
      dest: map_opt_length parseReadTurn_ok
      elim: map_opt_all [OF _ parsePending_ok] map_opt_all [OF _ read_coverage_entry_ok])

lemma read_state_props_keys:
  "distinct (map fst (read_state_props st))" "only_keys (read_state_props st) state_keys"
  by (simp_all add: read_state_props_def state_keys_def opt_prop_def split: option.split)

lemma map_opt_pending:
  "list_all (pending_ok provider g) ps \<Longrightarrow>
   map_opt (parsePending provider g) (map (\<lambda>p. JObj (canon_props (pending_props p))) ps) = Some ps"
  by (intro map_opt_map) (simp add: list_all_iff parsePending_props)

lemma map_opt_coverage:
  "list_all coverage_ok es \<Longrightarrow>
   map_opt read_coverage_entry (map (\<lambda>e. JObj (canon_props (coverage_props e))) es) = Some es"
  by (intro map_opt_map) (simp add: list_all_iff read_coverage_entry_props)

lemma read_read_state_props:
  "read_state_ok provider g st \<Longrightarrow>
   read_read_state (JObj (canon_props (read_state_props st))) provider g = Some st"
  by (simp add: read_read_state_def read_state_props_keys encoder_simps)
    (cases "rs_informed_turn st"; simp add: read_state_props_def read_state_ok_def map_opt_pending
      map_opt_coverage encoder_simps)

end
