(* ===== verification/Coverage_Merge.thy ===== *)
theory Coverage_Merge
  imports Read_Coverage
begin

text \<open>
  What \<open>mergeReadCoverage\<close> promises: well-formed read states stay well-formed, nothing but
  delivered bytes of the same record version is ever acknowledged, and replays change nothing.
\<close>

section \<open>Serialized entries\<close>

lemma coverage_json_serializable: "serializable (coverage_json e)" "numbers_ok (coverage_json e)"
  by (auto simp: coverage_json_def coverage_props_def range_props_def list_all_iff)

lemma coverage_json_inj:
  assumes "coverage_ok p" "coverage_ok q" "canon (coverage_json p) = canon (coverage_json q)"
  shows "p = q"
proof -
  have "read_coverage_entry (canon (coverage_json p)) = Some p"
    "read_coverage_entry (canon (coverage_json q)) = Some q"
    using assms(1,2) by (simp_all add: coverage_json_def read_coverage_entry_props)
  then have "Some p = Some q" using assms(3) by metis
  then show ?thesis by simp
qed

lemma stable_equal_coverage:
  assumes "coverage_ok p" "coverage_ok q"
  shows "stable_equal (coverage_json p) (coverage_json q) = Inr (p = q)"
proof -
  have "coverage_json e \<noteq> JUndef" for e by (simp add: coverage_json_def)
  with coverage_json_inj [OF assms] show ?thesis
    by (auto simp: stable_equal_canon coverage_json_serializable)
qed

section \<open>Keys\<close>

lemma split_at:
  assumes "c \<notin> set xs" "c \<notin> set ys" "xs @ c # r = ys @ c # s"
  shows "xs = ys \<and> r = s"
proof -
  have "takeWhile (\<lambda>u. u \<noteq> c) (zs @ c # t) = zs" if "c \<notin> set zs" for zs t
    using that by (subst takeWhile_append2) auto
  with assms have "xs = ys" by metis
  with assms show ?thesis by simp
qed

lemma provider_no_slash: "provider_pattern s \<Longrightarrow> 0x2F \<notin> set s"
  by (cases s) (auto simp: provider_pattern_def is_lower_def is_digit_def list_all_iff)

lemma coverageKey_inj:
  assumes "coverage_ok e" "coverage_ok f" "coverageKey e = coverageKey f"
  shows "cv_provider e = cv_provider f" "cv_session_id e = cv_session_id f"
    "cv_turn_id e = cv_turn_id f" "cv_field e = cv_field f"
proof -
  have slash: "js ''/'' = [0x2F]" by (simp add: js_def)
  have len: "length (cv_session_id e) = length (cv_session_id f)"
    "length (cv_turn_id e) = length (cv_turn_id f)"
    using assms(1,2) by (auto simp: coverage_ok_def session_id_pattern_def turn_id_pattern_def
        dest!: id_pattern_length)
  from split_at [of "0x2F" "cv_provider e" "cv_provider f"] assms
  have p: "cv_provider e = cv_provider f" and
    rest: "cv_session_id e @ js ''/'' @ cv_turn_id e @ js ''/'' @ field_name (cv_field e) =
     cv_session_id f @ js ''/'' @ cv_turn_id f @ js ''/'' @ field_name (cv_field f)"
    by (auto simp: coverageKey_def slash coverage_ok_def dest!: provider_no_slash)
  from rest len show "cv_session_id e = cv_session_id f" "cv_turn_id e = cv_turn_id f"
    "cv_field e = cv_field f" by simp_all
  show "cv_provider e = cv_provider f" by (rule p)
qed

lemma coverageKey_ranges [simp]: "coverageKey (e \<lparr> cv_ranges := rs \<rparr>) = coverageKey e"
  by (simp add: coverageKey_def)

section \<open>Ranges of one version\<close>

lemma ranges_ok_zero:
  assumes "ranges_ok 0 rs" "rs \<noteq> []"
  shows "rs = [\<lparr> r_start = 0, r_end = 0 \<rparr>]"
proof -
  have zero: "r = \<lparr> r_start = 0, r_end = 0 \<rparr>" if "r \<in> set rs" for r
    using assms(1) that
    by (cases r) (force simp: ranges_ok_def normalized_def list_all_iff range_ok_def safe_nonneg_def)
  show ?thesis
  proof (cases rs)
    case (Cons r rs')
    have "rs' = []"
    proof (rule ccontr)
      assume "rs' \<noteq> []"
      then obtain s where "s \<in> set rs'" by (cases rs') auto
      then have "r_end r < r_start s" using assms(1) by (auto simp: Cons ranges_ok_def range_simps)
      with zero [of r] zero [of s] \<open>s \<in> set rs'\<close> show False by (simp add: Cons)
    qed
    with zero [of r] show ?thesis by (simp add: Cons)
  qed (use assms in simp)
qed

lemma ranges_ok_nonempty: "ranges_ok whole rs \<Longrightarrow> whole \<noteq> 0 \<Longrightarrow> nonempty rs"
  by (force simp: ranges_ok_def nonempty_def normalized_def list_all_iff range_ok_def order.order_iff_strict)

lemma ranges_ok_bound: "ranges_ok whole rs \<Longrightarrow> covered rs \<subseteq> {0..<whole}"
  by (force simp: ranges_ok_def covered_def bytes_of_def normalized_def list_all_iff range_ok_def
      safe_nonneg_def)

lemma ranges_okI:
  assumes "normalized rs" "nonempty rs" "covered rs \<subseteq> {0..<whole}"
  shows "ranges_ok whole rs"
proof -
  have "r_end r \<le> whole" if "r \<in> set rs" for r
  proof -
    have "r_end r - 1 \<in> covered rs"
      using that assms(2) by (force simp: covered_def bytes_of_def nonempty_def list_all_iff)
    with assms(3) have "r_end r - 1 \<in> {0..<whole}" by blast
    then show ?thesis by simp
  qed
  with assms(1,2) show ?thesis by (fastforce simp: ranges_ok_def nonempty_def list_all_iff)
qed

lemma mergeReadRanges_zero:
  "mergeReadRanges [\<lparr> r_start = 0, r_end = 0 \<rparr>, \<lparr> r_start = 0, r_end = 0 \<rparr>] =
   Inr [\<lparr> r_start = 0, r_end = 0 \<rparr>]"
  by (simp add: mergeReadRanges_def sort_ranges_def merge_step_def safe_nonneg_def safe_int_def
      max_safe_def at_last_def MAX_READ_COVERAGE_RANGES_def)

lemma merge_version:
  assumes "ranges_ok whole ps" "ranges_ok whole es" "ps \<noteq> []" "es \<noteq> []"
    and m: "mergeReadRanges (ps @ es) = Inr rs"
  shows "ranges_ok whole rs" "rs \<noteq> []" "length rs \<le> MAX_READ_COVERAGE_RANGES"
    "covered rs = covered ps \<union> covered es"
proof -
  show len: "length rs \<le> MAX_READ_COVERAGE_RANGES"
    and cov: "covered rs = covered ps \<union> covered es"
    using mergeReadRanges_Inr [OF m] by simp_all
  have "ranges_ok whole rs \<and> rs \<noteq> []"
  proof (cases "whole = 0")
    case True
    with assms have "ps = [\<lparr> r_start = 0, r_end = 0 \<rparr>]" "es = [\<lparr> r_start = 0, r_end = 0 \<rparr>]"
      using ranges_ok_zero by blast+
    with m assms(1) show ?thesis by (auto simp: mergeReadRanges_zero)
  next
    case False
    have ne: "nonempty (ps @ es)"
      using ranges_ok_nonempty [OF assms(1) False] ranges_ok_nonempty [OF assms(2) False]
      by (simp add: nonempty_def)
    have "ranges_ok whole rs"
      using mergeReadRanges_Inr(2) [OF m] mergeReadRanges_nonempty [OF ne m]
      by (rule ranges_okI) (use cov ranges_ok_bound assms(1,2) in auto)
    moreover have "covered rs \<noteq> {}"
      using ne assms(3) by (cases ps) (auto simp: cov range_simps bytes_of_def)
    ultimately show ?thesis by auto
  qed
  then show "ranges_ok whole rs" "rs \<noteq> []" by simp_all
qed

lemma merge_version_absorbs:
  assumes "ranges_ok whole ps" "ranges_ok whole es" "ps \<noteq> []" "es \<noteq> []"
    and "length ps \<le> MAX_READ_COVERAGE_RANGES" "covered es \<subseteq> covered ps"
  shows "mergeReadRanges (ps @ es) = Inr ps"
proof (cases "whole = 0")
  case True
  with assms have "ps = [\<lparr> r_start = 0, r_end = 0 \<rparr>]" "es = [\<lparr> r_start = 0, r_end = 0 \<rparr>]"
    using ranges_ok_zero by blast+
  then show ?thesis by (simp add: mergeReadRanges_zero)
next
  case False
  have ne: "nonempty ps" "nonempty (ps @ es)"
    using ranges_ok_nonempty [OF assms(1) False] ranges_ok_nonempty [OF assms(2) False]
    by (simp_all add: nonempty_def)
  have ok: "list_all range_ok (ps @ es)" using assms(1,2) by (simp add: ranges_ok_def normalized_def)
  obtain m where m: "normalized m" "nonempty m" "covered m = covered (ps @ es)"
    "mergeReadRanges (ps @ es) =
       (if length m > MAX_READ_COVERAGE_RANGES then Inl ReadCoverageCapacityError else Inr m)"
    by (rule mergeReadRanges_cover [OF ok ne(2)])
  have "m = ps"
    using normalized_unique [OF m(1) _ m(2) ne(1)] m(3) assms(1,6) by (auto simp: ranges_ok_def)
  with m assms(5) show ?thesis by simp
qed

section \<open>One delivered entry\<close>

definition map_inv :: "nat \<Rightarrow> coverage_map \<Rightarrow> bool" where
  "map_inv maximum M \<longleftrightarrow> distinct (map fst M) \<and> length M \<le> maximum \<and>
     (\<forall>(k, x)\<in>set M. k = coverageKey x \<and> coverage_ok x)"

lemma map_invD:
  "map_inv mx M \<Longrightarrow> map_of M k = Some x \<Longrightarrow> k = coverageKey x \<and> coverage_ok x"
  by (auto simp: map_inv_def dest: map_of_SomeD)

lemma sameVersion_sym: "sameVersion p e \<longleftrightarrow> sameVersion e p"
  by (auto simp: sameVersion_def)

lemma sameVersion_trans: "sameVersion p e \<Longrightarrow> sameVersion e f \<Longrightarrow> sameVersion p f"
  by (simp add: sameVersion_def)

lemma sameVersion_ranges [simp]: "sameVersion (e \<lparr> cv_ranges := rs \<rparr>) f \<longleftrightarrow> sameVersion e f"
  by (simp add: sameVersion_def)

lemma next_entry_version:
  assumes "coverage_ok p" "coverage_ok d" "sameVersion p d" "next_entry (Some p) d = Inr n"
  shows "coverage_ok n" "coverageKey n = coverageKey d" "sameVersion n d"
    "covered (cv_ranges n) = covered (cv_ranges p) \<union> covered (cv_ranges d)"
proof -
  from assms(3,4) obtain rs where rs: "mergeReadRanges (cv_ranges p @ cv_ranges d) = Inr rs"
    and n: "n = d \<lparr> cv_ranges := rs \<rparr>"
    by (auto simp: next_entry_def split: sum.splits)
  have "ranges_ok (cv_total_bytes d) (cv_ranges p)" "ranges_ok (cv_total_bytes d) (cv_ranges d)"
    "cv_ranges p \<noteq> []" "cv_ranges d \<noteq> []"
    using assms(1-3) by (auto simp: coverage_ok_def sameVersion_def)
  note v = merge_version [OF this rs]
  show "coverage_ok n" using assms(2) v by (simp add: n coverage_ok_def)
  show "coverageKey n = coverageKey d" by (simp add: n)
  show "sameVersion n d" by (simp add: n) (simp add: sameVersion_def)
  show "covered (cv_ranges n) = covered (cv_ranges p) \<union> covered (cv_ranges d)"
    using v by (simp add: n)
qed

lemma next_entry_fresh:
  "prior = None \<or> (\<exists>p. prior = Some p \<and> \<not> sameVersion p d) \<Longrightarrow> next_entry prior d = Inr d"
  by (auto simp: next_entry_def)

lemma next_entry_absorbs:
  assumes "coverage_ok p" "coverage_ok d" "sameVersion p d" "coverageKey p = coverageKey d"
    "covered (cv_ranges d) \<subseteq> covered (cv_ranges p)"
  shows "next_entry (Some p) d = Inr p"
proof -
  have "ranges_ok (cv_total_bytes d) (cv_ranges p)" "ranges_ok (cv_total_bytes d) (cv_ranges d)"
    "cv_ranges p \<noteq> []" "cv_ranges d \<noteq> []" "length (cv_ranges p) \<le> MAX_READ_COVERAGE_RANGES"
    using assms(1-3) by (auto simp: coverage_ok_def sameVersion_def)
  from merge_version_absorbs [OF this assms(5)]
  have "next_entry (Some p) d = Inr (d \<lparr> cv_ranges := cv_ranges p \<rparr>)"
    using assms(3) by (simp add: next_entry_def)
  moreover have "d \<lparr> cv_ranges := cv_ranges p \<rparr> = p"
    using coverageKey_inj [OF assms(1,2,4)] assms(3)
    by (intro coverage_entry.equality) (auto simp: sameVersion_def)
  ultimately show ?thesis by simp
qed

lemma next_entry_cases:
  assumes "map_inv mx M" "coverage_ok d" "next_entry (map_of M (coverageKey d)) d = Inr n"
  shows "coverage_ok n \<and> coverageKey n = coverageKey d \<and> sameVersion n d"
proof (cases "\<exists>p. map_of M (coverageKey d) = Some p \<and> sameVersion p d")
  case True
  then obtain p where p: "map_of M (coverageKey d) = Some p" "sameVersion p d" by auto
  with next_entry_version [of p d n] map_invD [OF assms(1) p(1)] assms show ?thesis by simp
next
  case False
  then have "n = d"
    using assms(3) next_entry_fresh [of "map_of M (coverageKey d)" d]
    by (cases "map_of M (coverageKey d)") auto
  with assms(2) show ?thesis by (simp add: sameVersion_def)
qed

text \<open>What one iteration does to the map.\<close>

lemma merge_entry_Inr:
  assumes inv: "map_inv mx M" and step: "merge_entry mx raw (M, c) = Inr (M', c')"
  obtains d n where "read_coverage_entry raw = Some d" "coverage_ok d"
    "next_entry (map_of M (coverageKey d)) d = Inr n" "sameVersion n d"
    "map_of M' = (map_of M)(coverageKey d \<mapsto> n)" "map_inv mx M'"
    "c' = c \<and> M' = M \<or> c' = True"
proof -
  from step obtain d n where d: "read_coverage_entry raw = Some d"
    and n: "next_entry (map_of M (coverageKey d)) d = Inr n"
    by (auto simp: merge_entry_def parseCoverage_def decoder_simps Let_def split: sum.splits)
  have ok: "coverage_ok d" by (rule read_coverage_entry_ok [OF d])
  note nc = next_entry_cases [OF inv ok n]
  have "map_of M' = (map_of M)(coverageKey d \<mapsto> n) \<and> map_inv mx M' \<and> (c' = c \<and> M' = M \<or> c' = True)"
  proof (cases "map_of M (coverageKey d) = Some n")
    case True
    then have "M' = M \<and> c' = c"
      using step d n nc stable_equal_coverage [of n n]
      by (simp add: merge_entry_def parseCoverage_def type_checked_def Let_def)
    with True inv show ?thesis by auto
  next
    case False
    let ?U = "AList.update (coverageKey d) n M"
    have "(case map_of M (coverageKey d) of None \<Rightarrow> Inr False
         | Some p \<Rightarrow> stable_equal (coverage_json p) (coverage_json n)) = Inr False"
      using False nc map_invD [OF inv] stable_equal_coverage by (auto split: option.split)
    then have "M' = ?U \<and> c' = True \<and> length ?U \<le> mx"
      using step d n by (auto simp: merge_entry_def parseCoverage_def type_checked_def Let_def
          split: if_splits)
    moreover have "distinct (map fst ?U)" using inv by (simp add: map_inv_def distinct_update)
    moreover have "\<forall>(k, x)\<in>set ?U. k = coverageKey x \<and> coverage_ok x"
    proof clarify
      fix k x assume "(k, x) \<in> set ?U"
      with \<open>distinct (map fst ?U)\<close> have "map_of ?U k = Some x" by (rule map_of_is_SomeI)
      then have "k = coverageKey d \<and> x = n \<or> map_of M k = Some x"
        by (auto simp: update_conv' split: if_splits)
      with nc map_invD [OF inv] show "k = coverageKey x \<and> coverage_ok x" by auto
    qed
    ultimately show ?thesis by (simp add: map_inv_def update_conv')
  qed
  with d ok n nc show ?thesis by (intro that) auto
qed

section \<open>Bytes acknowledged for one record version\<close>

definition same_record :: "coverage_entry \<Rightarrow> coverage_entry \<Rightarrow> bool" where
  "same_record x e \<longleftrightarrow> coverageKey x = coverageKey e \<and> sameVersion x e"

definition acked :: "coverage_entry list \<Rightarrow> coverage_entry \<Rightarrow> int set" where
  "acked es e = (\<Union>x\<in>{x \<in> set es. same_record x e}. covered (cv_ranges x))"

text \<open>The entries a list of raw values decodes to.\<close>

definition decoded :: "jsval list \<Rightarrow> coverage_entry list" where
  "decoded raws = List.map_filter read_coverage_entry raws"

lemma decoded_Nil [simp]: "decoded [] = []"
  by (simp add: decoded_def map_filter_simps)

lemma decoded_Cons: "read_coverage_entry raw = Some d \<Longrightarrow> decoded (raw # raws) = d # decoded raws"
  by (simp add: decoded_def map_filter_simps)

lemma acked_Nil [simp]: "acked [] e = {}"
  by (simp add: acked_def)

lemma acked_Cons: "acked (d # ds) e = (if same_record d e then covered (cv_ranges d) else {}) \<union> acked ds e"
  by (auto simp: acked_def)

lemma acked_map:
  assumes "map_inv mx M"
  shows "acked (map snd M) e =
     (case map_of M (coverageKey e) of Some x \<Rightarrow> if sameVersion x e then covered (cv_ranges x) else {}
      | None \<Rightarrow> {})"
proof -
  have get: "map_of M (coverageKey e) = Some x" if "(k, x) \<in> set M" "coverageKey x = coverageKey e" for k x
    using assms that by (force simp: map_inv_def)
  show ?thesis
  proof (cases "map_of M (coverageKey e)")
    case None
    with get have "{x \<in> set (map snd M). same_record x e} = {}"
      by (fastforce simp: same_record_def)
    with None show ?thesis unfolding acked_def by (simp only: option.case) simp
  next
    case (Some y)
    have y: "(coverageKey e, y) \<in> set M" "coverageKey y = coverageKey e"
      using map_of_SomeD [OF Some] map_invD [OF assms Some] by simp_all
    then have mem: "y \<in> set (map snd M)" by force
    have only: "x = y" if "x \<in> set (map snd M)" "coverageKey x = coverageKey e" for x
    proof -
      from that(1) obtain k where "(k, x) \<in> set M" by auto
      with get that(2) Some show ?thesis by fastforce
    qed
    have "{x \<in> set (map snd M). same_record x e} = {x. x = y \<and> sameVersion y e}"
      unfolding same_record_def using only mem y(2) by blast
    then show ?thesis by (simp add: acked_def Some)
  qed
qed

lemma merge_entry_acked:
  assumes inv: "map_inv mx M" and step: "merge_entry mx raw (M, c) = Inr (M', c')"
    and d: "read_coverage_entry raw = Some d"
  shows "acked (map snd M') e \<subseteq> acked (map snd M) e \<union> acked [d] e"
    and "coverageKey d = coverageKey e \<longrightarrow> sameVersion d e \<Longrightarrow>
      acked (map snd M') e = acked (map snd M) e \<union> acked [d] e"
proof -
  from merge_entry_Inr [OF inv step] d obtain n where
    ok: "coverage_ok d" and n: "next_entry (map_of M (coverageKey d)) d = Inr n" "sameVersion n d"
    and M': "map_of M' = (map_of M)(coverageKey d \<mapsto> n)" "map_inv mx M'"
    by (metis option.inject)
  have cov: "covered (cv_ranges n) = covered (cv_ranges d) \<union>
      (case map_of M (coverageKey d) of Some p \<Rightarrow> if sameVersion p d then covered (cv_ranges p) else {}
       | None \<Rightarrow> {})"
  proof (cases "\<exists>p. map_of M (coverageKey d) = Some p \<and> sameVersion p d")
    case True
    then obtain p where p: "map_of M (coverageKey d) = Some p" "sameVersion p d" by auto
    with next_entry_version(4) [OF _ ok p(2), of n] n map_invD [OF inv p(1)] show ?thesis by auto
  next
    case False
    then have "n = d"
      using n next_entry_fresh [of "map_of M (coverageKey d)" d] by (cases "map_of M (coverageKey d)") auto
    with False show ?thesis by (auto split: option.split)
  qed
  have trans: "sameVersion d e \<Longrightarrow> sameVersion p d = sameVersion p e" for p
    by (auto simp: sameVersion_def)
  have same: "sameVersion n e = sameVersion d e" using n(2) by (auto simp: sameVersion_def)
  show "acked (map snd M') e \<subseteq> acked (map snd M) e \<union> acked [d] e"
    using cov same trans
    by (auto simp: acked_map [OF inv] acked_map [OF M'(2)] M'(1) acked_Cons same_record_def
        split: option.splits if_splits)
  show "acked (map snd M') e = acked (map snd M) e \<union> acked [d] e"
    if "coverageKey d = coverageKey e \<longrightarrow> sameVersion d e"
    using cov same trans that
    by (auto simp: acked_map [OF inv] acked_map [OF M'(2)] M'(1) acked_Cons same_record_def
        split: option.splits if_splits)
qed

lemma merge_run_acked:
  "map_inv mx M \<Longrightarrow> run_steps (merge_entry mx) raws (M, c) = Inr (M', c') \<Longrightarrow>
   acked (map snd M') e \<subseteq> acked (map snd M) e \<union> acked (decoded raws) e \<and>
   ((\<forall>d\<in>set (decoded raws). coverageKey d = coverageKey e \<longrightarrow> sameVersion d e) \<longrightarrow>
    acked (map snd M') e = acked (map snd M) e \<union> acked (decoded raws) e)"
proof (induction raws arbitrary: M c)
  case (Cons raw raws)
  from Cons.prems obtain N b where N: "merge_entry mx raw (M, c) = Inr (N, b)"
    "run_steps (merge_entry mx) raws (N, b) = Inr (M', c')"
    by (auto simp: run_steps_Cons_Inr simp del: run_steps.simps)
  from merge_entry_Inr [OF Cons.prems(1) N(1)] obtain d
    where d: "read_coverage_entry raw = Some d" and inv: "map_inv mx N" by metis
  have "acked (d # decoded raws) e = acked [d] e \<union> acked (decoded raws) e"
    by (simp add: acked_Cons)
  with Cons.IH [OF inv N(2)] merge_entry_acked [OF Cons.prems(1) N(1) d, of e]
  show ?case unfolding decoded_Cons [OF d] set_simps by blast
qed simp

section \<open>Replay\<close>

definition coverage_holds :: "coverage_map \<times> bool \<Rightarrow> jsval \<Rightarrow> bool" where
  "coverage_holds s raw \<longleftrightarrow>
     (case read_coverage_entry raw of None \<Rightarrow> False
      | Some d \<Rightarrow> (case map_of (fst s) (coverageKey d) of None \<Rightarrow> False
          | Some x \<Rightarrow> sameVersion x d \<and> covered (cv_ranges d) \<subseteq> covered (cv_ranges x)))"

definition coverage_agree :: "jsval \<Rightarrow> jsval \<Rightarrow> bool" where
  "coverage_agree raw raw' \<longleftrightarrow>
     (case (read_coverage_entry raw, read_coverage_entry raw') of
        (Some d, Some d') \<Rightarrow> coverageKey d = coverageKey d' \<longrightarrow> sameVersion d d'
      | _ \<Rightarrow> True)"

lemma next_entry_grows:
  assumes "map_inv mx M" "coverage_ok d" "next_entry (map_of M (coverageKey d)) d = Inr n"
  shows "covered (cv_ranges d) \<subseteq> covered (cv_ranges n)"
    "map_of M (coverageKey d) = Some p \<Longrightarrow> sameVersion p d \<Longrightarrow>
     covered (cv_ranges p) \<subseteq> covered (cv_ranges n)"
proof -
  show "covered (cv_ranges d) \<subseteq> covered (cv_ranges n)"
  proof (cases "\<exists>p. map_of M (coverageKey d) = Some p \<and> sameVersion p d")
    case True
    then obtain p where p: "map_of M (coverageKey d) = Some p" "sameVersion p d" by auto
    with next_entry_version(4) [OF _ assms(2) p(2), of n] assms map_invD [OF assms(1) p(1)]
    show ?thesis by auto
  next
    case False
    then have "n = d"
      using assms(3) next_entry_fresh [of "map_of M (coverageKey d)" d]
      by (cases "map_of M (coverageKey d)") auto
    then show ?thesis by simp
  qed
  assume p: "map_of M (coverageKey d) = Some p" "sameVersion p d"
  with next_entry_version(4) [OF _ assms(2) p(2), of n] assms map_invD [OF assms(1) p(1)]
  show "covered (cv_ranges p) \<subseteq> covered (cv_ranges n)" by auto
qed

interpretation coverage_merge:
  absorbing "merge_entry mx" "\<lambda>s. map_inv mx (fst s)" coverage_holds coverage_agree for mx
proof
  fix s s' :: "coverage_map \<times> bool" and e f :: jsval
  obtain M c where s [simp]: "s = (M, c)" by (cases s)
  obtain M' c' where s' [simp]: "s' = (M', c')" by (cases s')
  assume inv: "map_inv mx (fst s)"
  {
    assume step: "merge_entry mx e s = Inr s'"
    have "map_inv mx M" "merge_entry mx e (M, c) = Inr (M', c')" using inv step by simp_all
    from merge_entry_Inr [OF this] obtain d n where d: "read_coverage_entry e = Some d"
      "coverage_ok d" "next_entry (map_of M (coverageKey d)) d = Inr n" "sameVersion n d"
      "map_of M' = (map_of M)(coverageKey d \<mapsto> n)" "map_inv mx M'" by metis
    note grows = next_entry_grows [OF _ d(2,3), of mx]
    show "map_inv mx (fst s')" using d by simp
    show "coverage_holds s' e" using d grows inv by (simp add: coverage_holds_def)
    assume agree: "coverage_agree e f" and holds: "coverage_holds s f"
    from holds obtain df x where f: "read_coverage_entry f = Some df"
      "map_of M (coverageKey df) = Some x" "sameVersion x df"
      "covered (cv_ranges df) \<subseteq> covered (cv_ranges x)"
      by (auto simp: coverage_holds_def split: option.splits)
    show "coverage_holds s' f"
    proof (cases "coverageKey d = coverageKey df")
      case True
      then have v: "sameVersion d df" using agree d f by (simp add: coverage_agree_def)
      then have "sameVersion x d" "sameVersion n df" using f d by (auto simp: sameVersion_def)
      with grows(2) [of x] True f d inv show ?thesis by (auto simp: coverage_holds_def)
    next
      case False
      with f d show ?thesis by (simp add: coverage_holds_def)
    qed
  }
  assume "coverage_holds s e"
  then obtain d x where d: "read_coverage_entry e = Some d" "map_of M (coverageKey d) = Some x"
    "sameVersion x d" "covered (cv_ranges d) \<subseteq> covered (cv_ranges x)"
    by (auto simp: coverage_holds_def split: option.splits)
  have x: "coverage_ok x" "coverageKey x = coverageKey d" using map_invD [of mx M] inv d by auto
  from next_entry_absorbs [OF x(1) read_coverage_entry_ok [OF d(1)] d(3) x(2) d(4)]
  show "merge_entry mx e s = Inr s"
    using d x stable_equal_coverage [of x x]
    by (simp add: merge_entry_def parseCoverage_def type_checked_def)
qed

section \<open>The whole merge\<close>

lemma update_fresh: "k \<notin> fst ` set al \<Longrightarrow> AList.update k v al = al @ [(k, v)]"
  by (induction al) auto

lemma coverage_map_of_distinct:
  "distinct (map coverageKey es) \<Longrightarrow> coverage_map_of es = map (\<lambda>e. (coverageKey e, e)) es"
proof (induction es rule: rev_induct)
  case (snoc e es)
  then show ?case
    by (simp add: coverage_map_of_def) (subst update_fresh, auto simp: image_image)
qed (simp add: coverage_map_of_def)

lemma coverage_map_start:
  assumes "list_all coverage_ok es" "distinct (map coverageKey es)" "length es \<le> mx"
  shows "map_inv mx (coverage_map_of es)" "map snd (coverage_map_of es) = es"
  using assms by (auto simp: coverage_map_of_distinct map_inv_def comp_def list_all_iff)

lemma merge_entry_changed: "snd s \<Longrightarrow> merge_entry mx e s = Inr s' \<Longrightarrow> snd s'"
  by (cases s) (auto simp: merge_entry_def Let_def split: sum.splits if_splits)

lemma merge_unchanged:
  "map_inv mx M \<Longrightarrow> run_steps (merge_entry mx) raws (M, c) = Inr (M', c') \<Longrightarrow> \<not> c' \<Longrightarrow> M' = M"
proof (induction raws arbitrary: M c)
  case (Cons raw raws)
  from Cons.prems obtain N b where N: "merge_entry mx raw (M, c) = Inr (N, b)"
    "run_steps (merge_entry mx) raws (N, b) = Inr (M', c')"
    by (auto simp: run_steps_Cons_Inr simp del: run_steps.simps)
  from merge_entry_Inr [OF Cons.prems(1) N(1)] have "map_inv mx N" and "N = M \<or> b" by metis+
  have "\<not> b"
  proof
    assume b
    have "snd s'" if "snd s" "run_steps (merge_entry mx) es s = Inr s'" for es s s'
      using run_steps_invariant [of snd "merge_entry mx" s es s'] that merge_entry_changed by blast
    from this [of "(N, b)" raws "(M', c')"] N(2) \<open>b\<close> Cons.prems(3) show False by simp
  qed
  with Cons.IH [OF \<open>map_inv mx N\<close> N(2) Cons.prems(3)] \<open>N = M \<or> b\<close> show ?case by simp
qed simp

lemma mergeCoverage_run:
  assumes "list_all coverage_ok (rs_coverage st)" "distinct (map coverageKey (rs_coverage st))"
    "length (rs_coverage st) \<le> mx" and m: "mergeCoverage st ds mx = Inr st'"
  obtains M' c' where "map_inv mx (coverage_map_of (rs_coverage st))"
    "run_steps (merge_entry mx) ds (coverage_map_of (rs_coverage st), False) = Inr (M', c')"
    "map_inv mx M'" "st' = st \<lparr> rs_coverage := map snd M' \<rparr>"
proof -
  note start = coverage_map_start [OF assms(1-3)]
  from m obtain M' c' where
    run: "run_steps (merge_entry mx) ds (coverage_map_of (rs_coverage st), False) = Inr (M', c')"
    and st': "st' = (if c' then st \<lparr> rs_coverage := map snd M' \<rparr> else st)"
    by (auto simp: mergeCoverage_def split: sum.splits)
  have "map_inv mx M'" using coverage_merge.run_inv [OF _ run] start by simp
  moreover have "st' = st \<lparr> rs_coverage := map snd M' \<rparr>"
    using st' merge_unchanged [OF start(1) run] start(2) by auto
  ultimately show ?thesis using start run that by blast
qed

lemma map_inv_list:
  "map_inv mx M \<Longrightarrow> list_all coverage_ok (map snd M) \<and> distinct (map coverageKey (map snd M)) \<and>
   length (map snd M) \<le> mx \<and> coverage_map_of (map snd M) = M"
proof -
  assume inv: "map_inv mx M"
  then have keys: "map coverageKey (map snd M) = map fst M" by (auto simp: map_inv_def)
  then have d: "distinct (map coverageKey (map snd M))" using inv by (simp only: map_inv_def)
  have "map (\<lambda>p. (coverageKey (snd p), snd p)) M = M"
    using inv by (intro map_idI) (auto simp: map_inv_def)
  then have "coverage_map_of (map snd M) = M" using d by (simp add: coverage_map_of_distinct comp_def)
  with d inv show ?thesis by (auto simp: map_inv_def list_all_iff)
qed

section \<open>Properties\<close>

text \<open>C25: merging delivered pages keeps a read state well-formed and within its bounds, and no
  byte of a record version becomes acknowledged unless it already was, or a delivered page of that
  very version holds it; when the delivery does not mix versions of the record, every delivered
  byte is acknowledged.\<close>

theorem mergeReadCoverage_exact:
  assumes ok: "read_state_ok provider generation st" and m: "mergeReadCoverage st ds = Inr st'"
  shows "read_state_ok provider generation st' \<and>
    acked (rs_coverage st') e \<subseteq> acked (rs_coverage st) e \<union> acked (decoded ds) e \<and>
    ((\<forall>d\<in>set (decoded ds). coverageKey d = coverageKey e \<longrightarrow> sameVersion d e) \<longrightarrow>
     acked (rs_coverage st') e = acked (rs_coverage st) e \<union> acked (decoded ds) e)"
proof -
  from ok have c: "list_all coverage_ok (rs_coverage st)" "distinct (map coverageKey (rs_coverage st))"
    "length (rs_coverage st) \<le> MAX_READ_COVERAGE_RECORDS" by (simp_all add: read_state_ok_def)
  from mergeCoverage_run [OF c m [unfolded mergeReadCoverage_def]] obtain M' c' where
    inv: "map_inv MAX_READ_COVERAGE_RECORDS (coverage_map_of (rs_coverage st))"
    and run: "run_steps (merge_entry MAX_READ_COVERAGE_RECORDS) ds (coverage_map_of (rs_coverage st), False) =
      Inr (M', c')"
    and M': "map_inv MAX_READ_COVERAGE_RECORDS M'" and st': "st' = st \<lparr> rs_coverage := map snd M' \<rparr>" .
  from merge_run_acked [OF inv run, of e] map_inv_list [OF M'] ok show ?thesis
    unfolding coverage_map_start(2) [OF c] st' by (simp add: read_state_ok_def)
qed

text \<open>Replaying a delivery returns the state it produced, provided the delivery does not hold
  two versions of one record.\<close>

theorem mergeReadCoverage_replay:
  assumes ok: "read_state_ok provider generation st" and m: "mergeReadCoverage st ds = Inr st'"
    and agree: "\<forall>a\<in>set ds. \<forall>b\<in>set ds. coverage_agree a b"
  shows "mergeReadCoverage st' ds = Inr st'"
proof -
  from ok have c: "list_all coverage_ok (rs_coverage st)" "distinct (map coverageKey (rs_coverage st))"
    "length (rs_coverage st) \<le> MAX_READ_COVERAGE_RECORDS" by (simp_all add: read_state_ok_def)
  from mergeCoverage_run [OF c m [unfolded mergeReadCoverage_def]] obtain M' c' where
    inv: "map_inv MAX_READ_COVERAGE_RECORDS (coverage_map_of (rs_coverage st))"
    and run: "run_steps (merge_entry MAX_READ_COVERAGE_RECORDS) ds (coverage_map_of (rs_coverage st), False) =
      Inr (M', c')"
    and M': "map_inv MAX_READ_COVERAGE_RECORDS M'" and st': "st' = st \<lparr> rs_coverage := map snd M' \<rparr>" .
  have "\<forall>d\<in>set ds. coverage_holds (M', c') d"
    by (rule coverage_merge.run_holds [OF _ run agree]) (use inv in simp)
  then have "\<forall>d\<in>set ds. coverage_holds (M', False) d"
    unfolding coverage_holds_def fst_conv .
  then have "run_steps (merge_entry MAX_READ_COVERAGE_RECORDS) ds (M', False) = Inr (M', False)"
    by (intro coverage_merge.run_absorbs) (use M' in simp_all)
  then show ?thesis
    using map_inv_list [OF M'] by (simp add: mergeReadCoverage_def mergeCoverage_def st')
qed

text \<open>An entry counts as complete exactly when every byte of the field was delivered.\<close>

theorem isReadCoverageComplete_iff:
  assumes ok: "coverage_ok e"
  shows "isReadCoverageComplete e \<longleftrightarrow> covered (cv_ranges e) = {0..<cv_total_bytes e}"
proof -
  let ?w = "cv_total_bytes e" and ?all = "\<lparr> r_start = 0, r_end = cv_total_bytes e \<rparr>"
  have w: "ranges_ok ?w (cv_ranges e)" "cv_ranges e \<noteq> []" "0 \<le> ?w" "safe_nonneg ?w"
    using ok by (simp_all add: coverage_ok_def safe_nonneg_def)
  have complete: "isReadCoverageComplete e \<longleftrightarrow> cv_ranges e = [?all]"
    by (auto simp: isReadCoverageComplete_def split: list.split)
  show ?thesis
  proof (cases "?w = 0")
    case True
    then have "cv_ranges e = [?all]" using ranges_ok_zero [of "cv_ranges e"] w by simp
    with True complete show ?thesis by (simp add: bytes_of_def)
  next
    case False
    have n: "normalized (cv_ranges e)" "nonempty (cv_ranges e)"
      using w(1) ranges_ok_nonempty [OF w(1) False] by (simp_all add: ranges_ok_def)
    have a: "normalized [?all]" "nonempty [?all]" "covered [?all] = {0..<?w}"
      using w(3,4) False
      by (simp_all add: range_simps nonempty_def range_ok_def bytes_of_def safe_nonneg_def safe_int_def max_safe_def)
    show ?thesis
      unfolding complete using normalized_unique [OF n(1) a(1) n(2) a(2)] a(3) by metis
  qed
qed

section \<open>Witnesses\<close>

definition sample_entry :: "int \<Rightarrow> int \<Rightarrow> coverage_entry" where
  "sample_entry a b = \<lparr> cv_provider = js ''codex'', cv_session_id = js ''ses_'' @ replicate 32 0x61,
     cv_turn_id = js ''turn_'' @ replicate 32 0x62, cv_record_sha256 = replicate 64 0x30,
     cv_field = FRecord, cv_field_sha256 = replicate 64 0x31, cv_total_bytes = 20,
     cv_ranges = [page a b] \<rparr>"

definition sample_state :: read_state where
  "sample_state = emptyNudgeReadState \<lparr> rs_coverage := [sample_entry 0 10] \<rparr>"

lemma sample_state_ok: "read_state_ok (js ''codex'') None sample_state"
  by code_simp

definition sample_delivery :: jsval where
  "sample_delivery = canon (coverage_json (sample_entry 8 20))"

lemma sample_delivery_read: "read_coverage_entry sample_delivery = Some (sample_entry 8 20)"
proof -
  have "coverage_ok (sample_entry 8 20)" by code_simp
  then show ?thesis by (simp add: sample_delivery_def coverage_json_def read_coverage_entry_props)
qed

lemma sample_merge:
  "mergeReadCoverage sample_state [sample_delivery] =
   Inr (sample_state \<lparr> rs_coverage := [sample_entry 0 20] \<rparr>)"
proof -
  define K where "K = coverageKey (sample_entry 0 0)"
  have key: "coverageKey (sample_entry a b) = K" for a b
    unfolding K_def by (simp add: sample_entry_def coverageKey_def)
  have ok: "coverage_ok (sample_entry 0 10)" "coverage_ok (sample_entry 0 20)" by code_simp+
  have "mergeReadRanges [page 0 10, page 8 20] = Inr [page 0 20]" by code_simp
  then have nxt: "next_entry (Some (sample_entry 0 10)) (sample_entry 8 20) = Inr (sample_entry 0 20)"
    by (simp add: next_entry_def sameVersion_def sample_entry_def)
  have "sample_entry 0 10 \<noteq> sample_entry 0 20" by (simp add: sample_entry_def page_def)
  then show ?thesis
    using nxt stable_equal_coverage [OF ok]
    by (simp add: mergeReadCoverage_def mergeCoverage_def sample_state_def coverage_map_of_def
        merge_entry_def parseCoverage_def type_checked_def sample_delivery_read key
        MAX_READ_COVERAGE_RECORDS_def)
qed

lemma sample_merge_agree:
  "\<forall>a\<in>set [sample_delivery]. \<forall>b\<in>set [sample_delivery]. coverage_agree a b"
  by (simp add: coverage_agree_def sample_delivery_read sameVersion_def)

theorem mergeReadCoverage_exact_witness:
  "acked (rs_coverage (sample_state \<lparr> rs_coverage := [sample_entry 0 20] \<rparr>)) (sample_entry 0 10) = {0..<20}"
proof -
  have same: "same_record (sample_entry a b) (sample_entry c d)" for a b c d
    by (simp add: same_record_def sample_entry_def coverageKey_def sameVersion_def)
  have decoded: "decoded [sample_delivery] = [sample_entry 8 20]"
    by (simp add: decoded_Cons [OF sample_delivery_read])
  show ?thesis
    using mergeReadCoverage_exact [OF sample_state_ok sample_merge, of "sample_entry 0 10"] same
    unfolding decoded
    by (auto simp: acked_Cons same_record_def sample_state_def sample_entry_def page_def bytes_of_def)
qed

theorem mergeReadCoverage_replay_witness:
  "mergeReadCoverage (sample_state \<lparr> rs_coverage := [sample_entry 0 20] \<rparr>) [sample_delivery] =
   Inr (sample_state \<lparr> rs_coverage := [sample_entry 0 20] \<rparr>)"
  by (rule mergeReadCoverage_replay [OF sample_state_ok sample_merge sample_merge_agree])

theorem isReadCoverageComplete_iff_witness:
  "\<not> isReadCoverageComplete (sample_entry 8 20) \<and> covered (cv_ranges (sample_entry 8 20)) \<noteq> {0..<20}"
proof -
  have "coverage_ok (sample_entry 8 20)" by code_simp
  from isReadCoverageComplete_iff [OF this] show ?thesis
    by (simp add: isReadCoverageComplete_def sample_entry_def page_def)
qed

end
