(* ===== verification/Safe_Store.thy ===== *)
theory Safe_Store
  imports Decoders "HOL-Library.Sublist"
begin

text \<open>
  \<open>core/safe-store.ts\<close> and \<open>core/atomic-json.ts\<close>: the guarded tree of small JSON files under
  \<open>.barbaro\<close>.  A store maps a path, relative to the guarded root, to the entry \<open>lstat\<close> finds there;
  the root itself is the empty path.  A JSON file is its size in bytes and what \<open>JSON.parse\<close> makes
  of its text (\<open>None\<close> when it throws).

  An operation is an action: it gives the states the tree passes through, one per effect, and its
  result.  A crash leaves one of these states behind.
\<close>

section \<open>Entries and actions\<close>

type_synonym store_path = "jstr list"

record json_file =
  jf_size :: nat
  jf_json :: "jsval option"

datatype entry = Directory | Symlink | OtherEntry | JsonFile json_file

type_synonym store = "store_path \<Rightarrow> entry option"

type_synonym 'a action = "store \<Rightarrow> store list \<times> 'a result"

definition final :: "store \<Rightarrow> store list \<times> 'a result \<Rightarrow> store" where
  "final st r = last (st # fst r)"

definition outcome :: "store list \<times> 'a result \<Rightarrow> 'a result" where
  "outcome r = snd r"

definition return :: "'a \<Rightarrow> 'a action" where
  "return v = (\<lambda>st. ([], Inr v))"

definition raise :: "js_error \<Rightarrow> 'a action" where
  "raise e = (\<lambda>st. ([], Inl e))"

text \<open>An observation of the tree, and one effect on it.\<close>

definition observe :: "(store \<Rightarrow> 'a result) \<Rightarrow> 'a action" where
  "observe f = (\<lambda>st. ([], f st))"

definition effect :: "(store \<Rightarrow> store) \<Rightarrow> unit action" where
  "effect f = (\<lambda>st. ([f st], Inr ()))"

definition andThen :: "'a action \<Rightarrow> ('a \<Rightarrow> 'b action) \<Rightarrow> 'b action" where
  "andThen m f = (\<lambda>st. case m st of
       (tr, Inl e) \<Rightarrow> (tr, Inl e)
     | (tr, Inr v) \<Rightarrow> (case f v (last (st # tr)) of (tr', r) \<Rightarrow> (tr @ tr', r)))"

text \<open>\<open>try { m } catch { cleanup; rethrow }\<close>\<close>

definition cleanup :: "'a action \<Rightarrow> (store \<Rightarrow> store) \<Rightarrow> 'a action" where
  "cleanup m f = (\<lambda>st. case m st of
       (tr, Inl e) \<Rightarrow> (tr @ [f (last (st # tr))], Inl e)
     | (tr, Inr v) \<Rightarrow> (tr, Inr v))"

text \<open>\<open>try { await m } catch (error)\<close>: the error becomes a value.\<close>

definition attempt :: "'a action \<Rightarrow> 'a result action" where
  "attempt m = (\<lambda>st. case m st of (tr, r) \<Rightarrow> (tr, Inr r))"

section \<open>Paths\<close>

definition validateComponent :: "jstr \<Rightarrow> bool" where
  "validateComponent c \<longleftrightarrow>
     \<not> (c = [] \<or> c = js ''.'' \<or> c = js ''..'' \<or> 0x2F \<in> set c \<or> 0x5C \<in> set c \<or> 0 \<in> set c)"

definition validatePath :: "store_path \<Rightarrow> unit result" where
  "validatePath p = (if list_all validateComponent p then Inr () else Inl TypeError)"

text \<open>
  \<open>inspectDirectoryChain\<close>: every prefix of the path, from the guarded root, must be a real
  directory; a missing one is created or ends the walk.  \<open>None\<close> is the missing directory.
\<close>

definition chain_entry :: "bool \<Rightarrow> store_path \<Rightarrow> bool action" where
  "chain_entry create path st =
     (case st path of
        None \<Rightarrow> if create then ([st(path \<mapsto> Directory)], Inr True)
                else ([], Inr False)
      | Some Directory \<Rightarrow> ([], Inr True)
      | Some _ \<Rightarrow> ([], Inl UnsafeStorePathError))"

fun inspect_chain :: "bool \<Rightarrow> store_path \<Rightarrow> jstr list \<Rightarrow> bool action" where
  "inspect_chain create visited [] = chain_entry create visited"
| "inspect_chain create visited (c # cs) =
     andThen (chain_entry create visited)
       (\<lambda>present. if present then inspect_chain create (visited @ [c]) cs else return False)"

definition inspectDirectoryChain :: "bool \<Rightarrow> store_path \<Rightarrow> bool action" where
  "inspectDirectoryChain create path =
     andThen (observe (\<lambda>_. validatePath path)) (\<lambda>_. inspect_chain create [] path)"

definition verifyDirectory :: "store_path \<Rightarrow> store \<Rightarrow> bool result" where
  "verifyDirectory path st = outcome (inspectDirectoryChain False path st)"

definition ensureDirectory :: "store_path \<Rightarrow> bool action" where
  "ensureDirectory path = inspectDirectoryChain True path"

definition ensureParentForFile :: "store_path \<Rightarrow> bool action" where
  "ensureParentForFile path =
     andThen (observe (\<lambda>_. validatePath path))
       (\<lambda>_. if path = [] then raise TypeError else ensureDirectory (butlast path))"

section \<open>Reading\<close>

text \<open>\<open>readRegularFile\<close> and \<open>readUtf8File\<close>; \<open>None\<close> is a missing file.\<close>

definition readUtf8File :: "store_path \<Rightarrow> int \<Rightarrow> store \<Rightarrow> json_file option result" where
  "readUtf8File path maximum st =
     (if \<not> safe_nonneg maximum then Inl TypeError
      else if \<not> list_all validateComponent path then Inl TypeError
      else if path = [] then Inl TypeError
      else (case verifyDirectory (butlast path) st of
          Inl e \<Rightarrow> Inl e
        | Inr False \<Rightarrow> Inr None
        | Inr True \<Rightarrow>
            (case st path of
               None \<Rightarrow> Inr None
             | Some (JsonFile f) \<Rightarrow>
                 if int (jf_size f) > maximum then Inl StoreFileTooLargeError else Inr (Some f)
             | Some _ \<Rightarrow> Inl UnsafeStorePathError)))"

section \<open>Writing\<close>

text \<open>The file written for a value: its stable text and a newline, read back as its canonical form.\<close>

definition file_of :: "jsval \<Rightarrow> json_file result" where
  "file_of v =
     (case stableStringify v of Inl e \<Rightarrow> Inl e
      | Inr t \<Rightarrow> Inr \<lparr> jf_size = byte_length t + 1, jf_json = Some (canon v) \<rparr>)"

definition temporaryName :: "jstr \<Rightarrow> jstr \<Rightarrow> jstr" where
  "temporaryName name nonce = js ''.'' @ name @ js ''.tmp-'' @ nonce"

definition temporaryPath :: "store_path \<Rightarrow> jstr \<Rightarrow> store_path" where
  "temporaryPath path nonce = butlast path @ [temporaryName (last path) nonce]"

definition open_exclusive :: "store_path \<Rightarrow> unit action" where
  "open_exclusive path = (\<lambda>st. case st path of
       None \<Rightarrow> ([st(path \<mapsto> JsonFile \<lparr> jf_size = 0, jf_json = None \<rparr>)], Inr ())
     | Some _ \<Rightarrow> ([], Inl PlainError))"

definition write_text :: "store_path \<Rightarrow> jsval \<Rightarrow> unit action" where
  "write_text path v = (\<lambda>st. case file_of v of
       Inl e \<Rightarrow> ([], Inl e)
     | Inr f \<Rightarrow> ([st(path \<mapsto> JsonFile f)], Inr ()))"

definition require_directory :: "store_path \<Rightarrow> unit action" where
  "require_directory path = observe (\<lambda>st.
     case verifyDirectory path st of Inl e \<Rightarrow> Inl e
     | Inr present \<Rightarrow> if present then Inr () else Inl UnsafeStorePathError)"

definition rename :: "store_path \<Rightarrow> store_path \<Rightarrow> unit action" where
  "rename source target = (\<lambda>st. case st target of
       Some Directory \<Rightarrow> ([], Inl PlainError)
     | _ \<Rightarrow> ([st(target := st source, source := None)], Inr ()))"

text \<open>\<open>unlink\<close> with its failure ignored: a directory is left alone.\<close>

definition unlink :: "store_path \<Rightarrow> store \<Rightarrow> store" where
  "unlink path st = (if st path = Some Directory then st else st(path := None))"

text \<open>\<open>nonce\<close> stands for the process id and the random suffix of the temporary name.\<close>

definition writeJsonFileAtomically :: "jstr \<Rightarrow> store_path \<Rightarrow> jsval \<Rightarrow> unit action" where
  "writeJsonFileAtomically nonce path v =
     andThen (ensureParentForFile path) (\<lambda>_.
       cleanup
         (andThen (open_exclusive (temporaryPath path nonce)) (\<lambda>_.
          andThen (write_text (temporaryPath path nonce) v) (\<lambda>_.
          andThen (require_directory (butlast path)) (\<lambda>_.
          rename (temporaryPath path nonce) path))))
         (unlink (temporaryPath path nonce)))"

section \<open>Reasoning about actions\<close>

named_theorems action_defs

lemmas [action_defs] = final_def outcome_def return_def raise_def observe_def effect_def andThen_def
  cleanup_def

text \<open>Every state an action passes through is related to the one it started from.\<close>

definition traced :: "(store \<Rightarrow> store \<Rightarrow> bool) \<Rightarrow> 'a action \<Rightarrow> bool" where
  "traced R m \<longleftrightarrow> (\<forall>st. \<forall>s\<in>set (fst (m st)). R st s)"

definition preorder_rel :: "(store \<Rightarrow> store \<Rightarrow> bool) \<Rightarrow> bool" where
  "preorder_rel R \<longleftrightarrow> reflp R \<and> transp R"

lemma tracedD: "traced R m \<Longrightarrow> s \<in> set (fst (m st)) \<Longrightarrow> R st s"
  by (simp add: traced_def)

lemma traced_final: "preorder_rel R \<Longrightarrow> traced R m \<Longrightarrow> R st (final st (m st))"
  by (auto simp: traced_def final_def preorder_rel_def dest: reflpD)

named_theorems traced_intros

lemma traced_pure [traced_intros]: "traced R (return v)" "traced R (raise e)" "traced R (observe f)"
  by (simp_all add: traced_def action_defs)

lemma traced_andThen [traced_intros]:
  assumes "preorder_rel R" "traced R m" "\<And>v. traced R (f v)"
  shows "traced R (andThen m f)"
  unfolding traced_def
proof (intro allI ballI)
  fix st s assume s: "s \<in> set (fst (andThen m f st))"
  obtain tr r where m: "m st = (tr, r)" by (cases "m st")
  have head: "R st t" if "t \<in> set tr" for t using assms(2) m that by (force simp: traced_def)
  show "R st s"
  proof (cases r)
    case (Inl e)
    with s m head show ?thesis by (simp add: andThen_def)
  next
    case (Inr v)
    obtain tr' r' where f: "f v (last (st # tr)) = (tr', r')" by (cases "f v (last (st # tr))")
    have mid: "R st (last (st # tr))" using head assms(1) by (auto simp: preorder_rel_def dest: reflpD)
    have "R (last (st # tr)) t" if "t \<in> set tr'" for t
      using assms(3) [of v] f that unfolding traced_def by (metis fst_conv)
    with s m Inr f head mid assms(1) show ?thesis
      by (auto simp: andThen_def preorder_rel_def dest: transpD)
  qed
qed

lemma traced_cleanup [traced_intros]:
  assumes "preorder_rel R" "traced R m" "\<And>s. R s (f s)"
  shows "traced R (cleanup m f)"
  unfolding traced_def
proof (intro allI ballI)
  fix st s assume s: "s \<in> set (fst (cleanup m f st))"
  obtain tr r where m: "m st = (tr, r)" by (cases "m st")
  have head: "R st t" if "t \<in> set tr" for t using assms(2) m that by (force simp: traced_def)
  have mid: "R st (last (st # tr))" using head assms(1) by (auto simp: preorder_rel_def dest: reflpD)
  show "R st s"
    using s m head mid assms(1) assms(3) [of "last (st # tr)"]
    by (cases r) (auto simp: cleanup_def preorder_rel_def dest: transpD)
qed

lemma traced_attempt [traced_intros]: "traced R m \<Longrightarrow> traced R (attempt m)"
  by (auto simp: traced_def attempt_def split: prod.split)

lemma traced_cases [traced_intros]:
  "(b \<Longrightarrow> traced R m) \<Longrightarrow> (\<not> b \<Longrightarrow> traced R n) \<Longrightarrow> traced R (if b then m else n)"
  "traced R m \<Longrightarrow> (\<And>x. traced R (f x)) \<Longrightarrow> traced R (case y of None \<Rightarrow> m | Some x \<Rightarrow> f x)"
  "(\<And>x. traced R (g x)) \<Longrightarrow> (\<And>x. traced R (f x)) \<Longrightarrow> traced R (case z of Inl x \<Rightarrow> g x | Inr x \<Rightarrow> f x)"
  "(\<And>x y. traced R (h x y)) \<Longrightarrow> traced R (case w of (x, y) \<Rightarrow> h x y)"
  by (auto split: option.split sum.split prod.split)

lemma traced_effect: "(\<And>st. R st (f st)) \<Longrightarrow> traced R (effect f)"
  by (simp add: traced_def effect_def)

lemma andThen_states:
  "s \<in> set (fst (andThen m f st)) \<Longrightarrow>
     s \<in> set (fst (m st)) \<or>
     (\<exists>tr v. m st = (tr, Inr v) \<and> s \<in> set (fst (f v (last (st # tr)))))"
proof -
  obtain tr r where m: "m st = (tr, r)" by (metis surj_pair)
  show "s \<in> set (fst (andThen m f st)) \<Longrightarrow> ?thesis"
  proof (cases r)
    case (Inr v)
    obtain tr' r' where "f v (last (st # tr)) = (tr', r')" by (metis surj_pair)
    then show "s \<in> set (fst (andThen m f st)) \<Longrightarrow> ?thesis" using m Inr by (auto simp: andThen_def)
  qed (simp add: andThen_def m)
qed

lemma andThen_return_states: "s \<in> set (fst (andThen m (\<lambda>_. return v) st)) \<Longrightarrow> s \<in> set (fst (m st))"
  by (drule andThen_states) (auto simp: return_def)

lemma andThen_Inr:
  assumes "andThen m f st = (tr, Inr v)"
  obtains tr1 x tr2 where "m st = (tr1, Inr x)" "f x (last (st # tr1)) = (tr2, Inr v)" "tr = tr1 @ tr2"
proof -
  obtain tr1 r where m: "m st = (tr1, r)" by (metis surj_pair)
  show thesis
  proof (cases r)
    case (Inr x)
    obtain tr2 r2 where f: "f x (last (st # tr1)) = (tr2, r2)" by (metis surj_pair)
    have "tr = tr1 @ tr2" "r2 = Inr v" using assms m Inr f by (simp_all add: andThen_def)
    then show thesis using m Inr f by (intro that) simp_all
  qed (use assms m in \<open>simp add: andThen_def\<close>)
qed

section \<open>Trees\<close>

text \<open>Whatever exists has real directories above it.\<close>

definition tree :: "store \<Rightarrow> bool" where
  "tree st \<longleftrightarrow> (\<forall>q r. st q \<noteq> None \<and> strict_prefix r q \<longrightarrow> st r = Some Directory)"

text \<open>Something that is not a directory stands in the way of a path.\<close>

definition blocked :: "store \<Rightarrow> store_path \<Rightarrow> bool" where
  "blocked st path \<longleftrightarrow> (\<exists>k<length path. st (take k path) \<notin> {None, Some Directory})"

lemma strict_prefix_take: "strict_prefix r q \<longleftrightarrow> (\<exists>k<length q. r = take k q)"
proof
  assume "strict_prefix r q"
  then obtain zs where "q = r @ zs" "zs \<noteq> []" by (auto simp: strict_prefix_def prefix_def)
  then show "\<exists>k<length q. r = take k q" by (intro exI [of _ "length r"]) auto
next
  assume "\<exists>k<length q. r = take k q"
  then show "strict_prefix r q"
    by (metis append_take_drop_id length_take min.absorb4 nat_neq_iff prefixI strict_prefix_def)
qed

lemma treeD: "tree st \<Longrightarrow> st q \<noteq> None \<Longrightarrow> k < length q \<Longrightarrow> st (take k q) = Some Directory"
  unfolding tree_def strict_prefix_take by blast

lemma tree_None:
  assumes "tree st" "st (take k path) = None" "k < length path" "k \<le> j"
  shows "st (take j path) = None"
proof (rule ccontr)
  assume some: "st (take j path) \<noteq> None"
  with assms(2,4) have "k < j" by (metis le_neq_implies_less)
  with some assms(3) have "st (take k (take j path)) = Some Directory"
    by (intro treeD [OF assms(1)]) auto
  with assms(2) \<open>k < j\<close> show False by (simp add: min_def)
qed

lemma tree_update:
  assumes "tree st" "st q \<noteq> Some Directory \<or> e = Directory"
    "\<And>k. k < length q \<Longrightarrow> st (take k q) = Some Directory"
  shows "tree (st(q \<mapsto> e))"
  unfolding tree_def strict_prefix_take
proof (intro allI impI, elim conjE exE)
  fix p r k assume p: "(st(q \<mapsto> e)) p \<noteq> None" and k: "k < length p" "r = take k p"
  show "(st(q \<mapsto> e)) r = Some Directory"
  proof (cases "p = q")
    case True
    with k assms(3) show ?thesis by auto
  next
    case False
    with p have "st p \<noteq> None" by simp
    from treeD [OF assms(1) this k(1)] k(2) assms(2) show ?thesis by auto
  qed
qed

lemma tree_unlink:
  assumes "tree st"
  shows "tree (unlink q st)"
  using assms by (auto simp: tree_def unlink_def)

text \<open>The walk of \<open>inspectDirectoryChain\<close> over an existing tree changes nothing.\<close>

lemma inspect_chain_read:
  assumes "tree st" "\<And>j. j < k \<Longrightarrow> st (take j path) = Some Directory" "k \<le> length path"
  shows "inspect_chain False (take k path) (drop k path) st =
    ([], if \<exists>j\<le>length path. st (take j path) \<notin> {None, Some Directory} then Inl UnsafeStorePathError
         else Inr (\<forall>j\<le>length path. st (take j path) = Some Directory))"
  using assms
proof (induction "length path - k" arbitrary: k)
  case 0
  then have k: "k = length path" by simp
  have below: "st (take j path) = Some Directory" if "j < length path" for j using 0 that k by simp
  have all: "(\<exists>j\<le>length path. st (take j path) \<notin> {None, Some Directory}) \<longleftrightarrow> st path \<notin> {None, Some Directory}"
    "(\<forall>j\<le>length path. st (take j path) = Some Directory) \<longleftrightarrow> st path = Some Directory"
    using below by (auto simp: le_less)
  show ?case
    unfolding all k by (auto simp: chain_entry_def split: option.split entry.split)
next
  case (Suc n)
  then have k: "k < length path" by simp
  then have drop: "drop k path = path ! k # drop (Suc k) path" by (simp add: Cons_nth_drop_Suc)
  have visited: "take k path @ [path ! k] = take (Suc k) path" using k by (simp add: take_Suc_conv_app_nth)
  show ?case
  proof (cases "st (take k path)")
    case None
    have above: "st (take j path) = None" if "k \<le> j" for j
      using tree_None [OF Suc.prems(1) None k that] .
    have "st (take j path) \<in> {None, Some Directory}" for j
      using above Suc.prems(2) by (cases "j < k") auto
    moreover have "\<not> (\<forall>j\<le>length path. st (take j path) = Some Directory)" using None k by force
    ultimately show ?thesis
      using None by (simp add: drop chain_entry_def andThen_def return_def)
  next
    case (Some e)
    show ?thesis
    proof (cases "e = Directory")
      case True
      have "st (take j path) = Some Directory" if "j < Suc k" for j
        using that Suc.prems(2) Some True by (cases "j = k") auto
      from Suc.hyps(1) [OF _ Suc.prems(1) this] Suc.hyps(2) k
      have "inspect_chain False (take (Suc k) path) (drop (Suc k) path) st =
        ([], if \<exists>j\<le>length path. st (take j path) \<notin> {None, Some Directory} then Inl UnsafeStorePathError
             else Inr (\<forall>j\<le>length path. st (take j path) = Some Directory))" by simp
      with Some True show ?thesis by (simp add: drop chain_entry_def andThen_def visited)
    next
      case False
      then have "\<exists>j\<le>length path. st (take j path) \<notin> {None, Some Directory}"
        using Some k by (intro exI [of _ k]) auto
      with Some False show ?thesis
        by (cases e) (simp_all add: drop chain_entry_def andThen_def)
    qed
  qed
qed

lemma verifyDirectory_tree:
  "tree st \<Longrightarrow> list_all validateComponent path \<Longrightarrow> verifyDirectory path st =
     (if \<exists>j\<le>length path. st (take j path) \<notin> {None, Some Directory} then Inl UnsafeStorePathError
      else Inr (\<forall>j\<le>length path. st (take j path) = Some Directory))"
  using inspect_chain_read [of st 0 path]
  by (simp add: verifyDirectory_def inspectDirectoryChain_def action_defs validatePath_def)

definition sized :: "int \<Rightarrow> json_file \<Rightarrow> json_file option result" where
  "sized maximum f =
     (if int (jf_size f) > maximum then Inl StoreFileTooLargeError else Inr (Some f))"

definition usable_path :: "store_path \<Rightarrow> bool" where
  "usable_path path \<longleftrightarrow> path \<noteq> [] \<and> list_all validateComponent path"

lemma readUtf8File_tree:
  assumes "tree st" "usable_path path" "safe_nonneg maximum"
  shows "readUtf8File path maximum st =
    (if blocked st path then Inl UnsafeStorePathError
     else case st path of None \<Rightarrow> Inr None | Some (JsonFile f) \<Rightarrow> sized maximum f
          | Some _ \<Rightarrow> Inl UnsafeStorePathError)"
proof -
  have len: "j \<le> length (butlast path) \<longleftrightarrow> j < length path" for j
    using assms(2) by (cases path rule: rev_cases) (auto simp: usable_path_def)
  have take: "take j (butlast path) = take j path" if "j < length path" for j
    using that by (simp add: take_butlast)
  have comps: "list_all validateComponent (butlast path)"
    using assms(2) by (auto simp: usable_path_def list_all_iff dest: in_set_butlastD)
  have v: "verifyDirectory (butlast path) st =
     (if blocked st path then Inl UnsafeStorePathError
      else Inr (\<forall>j<length path. st (take j path) = Some Directory))"
  proof -
    have "(\<exists>j\<le>length (butlast path). st (take j (butlast path)) \<notin> {None, Some Directory}) \<longleftrightarrow> blocked st path"
      unfolding blocked_def len using take by auto
    moreover have "(\<forall>j\<le>length (butlast path). st (take j (butlast path)) = Some Directory) \<longleftrightarrow>
        (\<forall>j<length path. st (take j path) = Some Directory)"
      unfolding len using take by auto
    ultimately show ?thesis unfolding verifyDirectory_tree [OF assms(1) comps] by presburger
  qed
  show ?thesis
  proof (cases "\<forall>j<length path. st (take j path) = Some Directory")
    case True
    then show ?thesis
      using assms
      by (auto simp: readUtf8File_def usable_path_def v sized_def split: option.split entry.split)
  next
    case False
    then have "st path = None" using treeD [OF assms(1)] by blast
    moreover have "verifyDirectory (butlast path) st =
        (if blocked st path then Inl UnsafeStorePathError else Inr False)"
    proof -
      have "(\<forall>j<length path. st (take j path) = Some Directory) = False" using False by blast
      with v show ?thesis by (simp only: )
    qed
    ultimately show ?thesis
      using assms by (simp add: readUtf8File_def usable_path_def)
  qed
qed

end
