(* ===== verification/Store_Writes.thy ===== *)
theory Store_Writes
  imports Safe_Store
begin

text \<open>
  What a write does to a tree: the states it passes through, what it leaves behind, and what the
  other files of the tree see of it.
\<close>

section \<open>Making directories\<close>

definition make_dirs :: "store_path \<Rightarrow> store \<Rightarrow> store" where
  "make_dirs p st = (\<lambda>q. if prefix q p then Some Directory else st q)"

text \<open>Every step of the path is free or a directory.\<close>

definition clear :: "store \<Rightarrow> store_path \<Rightarrow> bool" where
  "clear st p \<longleftrightarrow> (\<forall>j\<le>length p. st (take j p) \<in> {None, Some Directory})"

lemma prefix_take_le: "prefix q (take k p) \<longleftrightarrow> (\<exists>j\<le>k. j \<le> length p \<and> q = take j p)"
proof
  assume "prefix q (take k p)"
  then obtain zs where e: "take k p = q @ zs" by (auto simp: prefix_def)
  have len: "length q \<le> k" "length q \<le> length p"
    using arg_cong [OF e, of length] by simp_all
  have "q = take (length q) (take k p)" by (simp add: e)
  with len show "\<exists>j\<le>k. j \<le> length p \<and> q = take j p"
    by (intro exI [of _ "length q"]) (simp add: min_def)
qed (metis prefix_def take_is_prefix min.absorb1 take_take)

lemma make_dirs_take:
  assumes "\<And>j. j < k \<Longrightarrow> st (take j p) = Some Directory" "k \<le> length p"
  shows "make_dirs (take k p) st = st(take k p \<mapsto> Directory)"
  using assms by (auto simp: make_dirs_def prefix_take_le fun_eq_iff le_less)

lemma make_dirs_again:
  assumes "k \<le> length p"
  shows "make_dirs (take j p) (make_dirs (take k p) st) = make_dirs (take (max j k) p) st"
  using assms by (auto simp: make_dirs_def prefix_take_le fun_eq_iff le_max_iff_disj)

lemma tree_make_dirs:
  assumes "tree st" "clear st p"
  shows "tree (make_dirs (take k p) st)"
  unfolding tree_def
proof (intro allI impI, elim conjE)
  fix q r assume q: "make_dirs (take k p) st q \<noteq> None" and r: "strict_prefix r q"
  show "make_dirs (take k p) st r = Some Directory"
  proof (cases "prefix q (take k p)")
    case True
    with r have "prefix r (take k p)" by (meson prefix_order.dual_order.trans prefix_order.less_imp_le)
    then show ?thesis by (simp add: make_dirs_def)
  next
    case False
    with q have "st q \<noteq> None" by (simp add: make_dirs_def)
    with assms(1) r have "st r = Some Directory" by (auto simp: tree_def)
    then show ?thesis by (simp add: make_dirs_def)
  qed
qed

lemma clear_make_dirs: "clear st p \<Longrightarrow> clear (make_dirs q st) p"
  by (auto simp: clear_def make_dirs_def)

lemma inspect_chain_create:
  assumes "tree st" "\<And>j. j < k \<Longrightarrow> st (take j p) = Some Directory" "k \<le> length p" "clear st p"
  shows "\<exists>tr. inspect_chain True (take k p) (drop k p) st = (tr, Inr True) \<and>
    last (st # tr) = make_dirs p st \<and> (\<forall>s\<in>set tr. \<exists>j\<le>length p. s = make_dirs (take j p) st)"
  using assms
proof (induction "length p - k" arbitrary: k st)
  case 0
  then have k: "k = length p" by simp
  from 0 k have "make_dirs p st = st(p \<mapsto> Directory)" using make_dirs_take [of k st p] by simp
  moreover have "st p \<in> {None, Some Directory}" using 0 k by (auto simp: clear_def)
  moreover have "make_dirs p st = st" if "st p = Some Directory"
    using calculation(1) that by (simp add: fun_upd_idem)
  ultimately show ?case
    using k by (cases "st p") (auto simp: chain_entry_def intro!: exI [of _ "length p"])
next
  case (Suc n)
  then have k: "k < length p" by simp
  then have drop: "drop k p = p ! k # drop (Suc k) p" by (simp add: Cons_nth_drop_Suc)
  have visited: "take k p @ [p ! k] = take (Suc k) p" using k by (simp add: take_Suc_conv_app_nth)
  let ?st = "make_dirs (take k p) st"
  have md: "?st = st(take k p \<mapsto> Directory)" using make_dirs_take Suc.prems(2,3) by blast
  have below: "?st (take j p) = Some Directory" if "j < Suc k" for j
  proof -
    have "prefix (take j p) (take k p)"
      using that k unfolding prefix_take_le by (intro exI [of _ j]) simp
    then show ?thesis by (simp add: make_dirs_def)
  qed
  have "\<exists>tr. inspect_chain True (take (Suc k) p) (drop (Suc k) p) ?st = (tr, Inr True) \<and>
    last (?st # tr) = make_dirs p ?st \<and> (\<forall>s\<in>set tr. \<exists>j\<le>length p. s = make_dirs (take j p) ?st)"
    by (rule Suc.hyps(1) [OF _ tree_make_dirs [OF Suc.prems(1,4)] below _ clear_make_dirs [OF Suc.prems(4)]])
      (use k Suc.hyps(2) in linarith)+
  then obtain tr where tr: "inspect_chain True (take (Suc k) p) (drop (Suc k) p) ?st = (tr, Inr True)"
    "last (?st # tr) = make_dirs p ?st" "\<forall>s\<in>set tr. \<exists>j\<le>length p. s = make_dirs (take j p) ?st"
    by blast
  have "st (take k p) \<in> {None, Some Directory}" using Suc.prems(4) k by (simp add: clear_def)
  moreover have "?st = st" if "st (take k p) = Some Directory" using md that by (simp add: fun_upd_idem)
  ultimately have chain: "chain_entry True (take k p) st = (if st (take k p) = None then [?st] else [], Inr True)"
    "last (st # (if st (take k p) = None then [?st] else [])) = ?st"
    by (auto simp: chain_entry_def md)
  have whole: "make_dirs p ?st = make_dirs p st"
    using make_dirs_again [of k p "length p" st] k by (simp add: max_def)
  have states: "\<exists>j\<le>length p. s = make_dirs (take j p) st"
    if "s \<in> set ((if st (take k p) = None then [?st] else []) @ tr)" for s
  proof (cases "s \<in> set tr")
    case True
    then obtain j where "j \<le> length p" "s = make_dirs (take j p) ?st" using tr(3) by blast
    then show ?thesis
      using make_dirs_again [of k p j st] k by (intro exI [of _ "max j k"]) simp
  next
    case False
    with that have "s = ?st" by (auto split: if_splits)
    with k show ?thesis by (intro exI [of _ k]) simp
  qed
  show ?case
    using tr chain whole states
    by (intro exI [of _ "(if st (take k p) = None then [?st] else []) @ tr"])
      (auto simp: drop visited andThen_def last_append split: if_splits)
qed

lemma inspect_chain_blocked:
  assumes "tree st" "\<And>j. j < k \<Longrightarrow> st (take j p) = Some Directory" "k \<le> length p" "\<not> clear st p"
  shows "inspect_chain create (take k p) (drop k p) st = ([], Inl UnsafeStorePathError)"
  using assms
proof (induction "length p - k" arbitrary: k)
  case 0
  then have k: "k = length p" by simp
  with 0 have "st p \<notin> {None, Some Directory}" by (auto simp: clear_def le_less)
  then show ?case by (auto simp: k chain_entry_def split: option.split entry.split)
next
  case (Suc n)
  then have k: "k < length p" by simp
  then have drop: "drop k p = p ! k # drop (Suc k) p" by (simp add: Cons_nth_drop_Suc)
  have visited: "take k p @ [p ! k] = take (Suc k) p" using k by (simp add: take_Suc_conv_app_nth)
  have notNone: "st (take k p) \<noteq> None"
  proof
    assume "st (take k p) = None"
    then have "st (take j p) \<in> {None, Some Directory}" for j
      using tree_None [OF Suc.prems(1) _ k] Suc.prems(2) by (cases "k \<le> j") auto
    with Suc.prems(4) show False unfolding clear_def by blast
  qed
  show ?case
  proof (cases "st (take k p) = Some Directory")
    case True
    then have "st (take j p) = Some Directory" if "j < Suc k" for j
      using that Suc.prems(2) by (cases "j = k") auto
    from Suc.hyps(1) [OF _ Suc.prems(1) this _ Suc.prems(4)] Suc.hyps(2) k
    have "inspect_chain create (take (Suc k) p) (drop (Suc k) p) st = ([], Inl UnsafeStorePathError)" by simp
    with True show ?thesis by (simp add: drop visited andThen_def chain_entry_def)
  next
    case False
    with notNone show ?thesis
      by (auto simp: drop andThen_def chain_entry_def split: option.split entry.split)
  qed
qed


lemma ensureDirectory_tree:
  assumes "tree st" "list_all validateComponent p"
  shows "clear st p \<Longrightarrow> \<exists>tr. ensureDirectory p st = (tr, Inr True) \<and> last (st # tr) = make_dirs p st \<and>
      (\<forall>s\<in>set tr. \<exists>j\<le>length p. s = make_dirs (take j p) st)"
    and "\<not> clear st p \<Longrightarrow> ensureDirectory p st = ([], Inl UnsafeStorePathError)"
  using inspect_chain_create [of st 0 p] inspect_chain_blocked [of st 0 p True] assms
  by (auto simp: ensureDirectory_def inspectDirectoryChain_def action_defs validatePath_def
      split del: if_split)

section \<open>Writing a file\<close>

lemma usable_parent: "usable_path path \<Longrightarrow> list_all validateComponent (butlast path)"
  by (auto simp: usable_path_def list_all_iff dest: in_set_butlastD)

lemma clear_parent: "usable_path path \<Longrightarrow> clear st (butlast path) \<longleftrightarrow> \<not> blocked st path"
proof -
  assume "usable_path path"
  then have "j \<le> length (butlast path) \<longleftrightarrow> j < length path" for j
    by (cases path rule: rev_cases) (auto simp: usable_path_def)
  then show ?thesis by (auto simp: clear_def blocked_def take_butlast)
qed

lemma ensureParent_tree:
  assumes "tree st" "usable_path path"
  shows "\<not> blocked st path \<Longrightarrow> \<exists>tr. ensureParentForFile path st = (tr, Inr True) \<and>
      last (st # tr) = make_dirs (butlast path) st \<and>
      (\<forall>s\<in>set tr. \<exists>j\<le>length (butlast path). s = make_dirs (take j (butlast path)) st)"
    and "blocked st path \<Longrightarrow> ensureParentForFile path st = ([], Inl UnsafeStorePathError)"
  using ensureDirectory_tree [OF assms(1) usable_parent [OF assms(2)]] clear_parent [OF assms(2), of st]
    assms(2)
  by (auto simp: ensureParentForFile_def action_defs validatePath_def usable_path_def split del: if_split)

text \<open>A sibling name is neither the target nor on the way to it.\<close>

definition sibling :: "store_path \<Rightarrow> store_path \<Rightarrow> bool" where
  "sibling t path \<longleftrightarrow> t \<noteq> path \<and> butlast t = butlast path \<and> t \<noteq> []"

lemma temporary_sibling: "path \<noteq> [] \<Longrightarrow> sibling (temporaryPath path nonce) path"
  by (cases path rule: rev_cases) (auto simp: sibling_def temporaryPath_def temporaryName_def js_def)

lemma not_prefix_butlast: "path \<noteq> [] \<Longrightarrow> \<not> prefix path (butlast path)"
  by (metis append_butlast_last_id not_Cons_self2 prefix_order.antisym prefix_def append_self_conv)

lemma sibling_not_prefix:
  assumes "sibling t path" "path \<noteq> []"
  shows "\<not> prefix t (butlast path)" "\<not> prefix path (butlast path)" "\<not> prefix t path" "\<not> prefix path t"
proof -
  have "length t = length path"
  proof -
    have "length t - 1 = length path - 1" using assms by (metis sibling_def length_butlast)
    moreover have "0 < length t" "0 < length path" using assms by (simp_all add: sibling_def)
    ultimately show ?thesis by linarith
  qed
  moreover have "length (butlast path) < length path" using assms(2) by simp
  ultimately show "\<not> prefix t (butlast path)" "\<not> prefix path (butlast path)"
    by (auto dest!: prefix_length_le)
  from \<open>length t = length path\<close> assms(1) show "\<not> prefix t path" "\<not> prefix path t"
    by (auto simp: prefix_def sibling_def)
qed



text \<open>
  Every record file is replaced in the same way, whatever its text and its temporary name:
  \<open>replace_file temp path r\<close> writes \<open>r\<close> to \<open>temp\<close> and moves it to \<open>path\<close>.
\<close>

definition write_file :: "store_path \<Rightarrow> json_file result \<Rightarrow> unit action" where
  "write_file path r = (\<lambda>st. case r of
       Inl e \<Rightarrow> ([], Inl e)
     | Inr f \<Rightarrow> ([st(path \<mapsto> JsonFile f)], Inr ()))"

definition replace_file :: "store_path \<Rightarrow> store_path \<Rightarrow> json_file result \<Rightarrow> unit action" where
  "replace_file temp path r =
     andThen (ensureParentForFile path) (\<lambda>_.
       cleanup
         (andThen (open_exclusive temp) (\<lambda>_.
          andThen (write_file temp r) (\<lambda>_.
          andThen (require_directory (butlast path)) (\<lambda>_.
          rename temp path))))
         (unlink temp))"

lemma write_as_replace:
  "writeJsonFileAtomically nonce path v = replace_file (temporaryPath path nonce) path (file_of v)"
  unfolding writeJsonFileAtomically_def replace_file_def write_text_def write_file_def ..

definition empty_file :: json_file where
  "empty_file = \<lparr> jf_size = 0, jf_json = None \<rparr>"

definition written :: "store_path \<Rightarrow> json_file \<Rightarrow> store \<Rightarrow> store" where
  "written path f st = (make_dirs (butlast path) st)(path \<mapsto> JsonFile f)"

text \<open>The effects of a write once its directories exist, and its result.\<close>

definition write_tail ::
  "store_path \<Rightarrow> store_path \<Rightarrow> json_file result \<Rightarrow> store \<Rightarrow> store list \<times> unit result" where
  "write_tail path temp r st =
     (let base = make_dirs (butlast path) st in
      if st temp \<noteq> None then ([unlink temp base], Inl PlainError)
      else (case r of
          Inl e \<Rightarrow> ([base(temp \<mapsto> JsonFile empty_file), base], Inl e)
        | Inr f \<Rightarrow>
            if st path = Some Directory
            then ([base(temp \<mapsto> JsonFile empty_file), base(temp \<mapsto> JsonFile f), base], Inl PlainError)
            else ([base(temp \<mapsto> JsonFile empty_file), base(temp \<mapsto> JsonFile f), written path f st],
                  Inr ())))"

lemma make_dirs_parent:
  assumes "usable_path path" "\<not> blocked st path"
  shows "make_dirs (butlast path) st path = st path"
    "sibling t path \<Longrightarrow> make_dirs (butlast path) st t = st t"
  using assms sibling_not_prefix(1) [of t path] not_prefix_butlast [of path]
  by (auto simp: make_dirs_def usable_path_def)

lemma tree_base: "tree st \<Longrightarrow> usable_path path \<Longrightarrow> \<not> blocked st path \<Longrightarrow> tree (make_dirs (butlast path) st)"
  using tree_make_dirs [of st "butlast path" "length (butlast path)"] clear_parent [of path st] by simp

lemma base_above:
  assumes "sibling t path \<or> t = path" "path \<noteq> []" "k < length t"
  shows "make_dirs (butlast path) st (take k t) = Some Directory"
proof -
  have "butlast t = butlast path" using assms(1) by (auto simp: sibling_def)
  moreover have "take k t = take k (butlast t)" using assms(3) by (simp add: take_butlast)
  ultimately show ?thesis by (simp add: make_dirs_def take_is_prefix)
qed

lemma tree_base_update:
  assumes "tree st" "usable_path path" "\<not> blocked st path" "sibling t path \<or> t = path"
    "st t \<noteq> Some Directory"
  shows "tree ((make_dirs (butlast path) st)(t \<mapsto> e))"
proof (rule tree_update [OF tree_base [OF assms(1-3)]])
  show "make_dirs (butlast path) st t \<noteq> Some Directory \<or> e = Directory"
    using assms make_dirs_parent [OF assms(2,3)] by auto
  show "make_dirs (butlast path) st (take k t) = Some Directory" if "k < length t" for k
    using that assms by (intro base_above) (auto simp: usable_path_def)
qed

lemma require_directory_base:
  assumes "tree st" "usable_path path" "\<not> blocked st path" "sibling t path" "st t = None"
  shows "require_directory (butlast path) ((make_dirs (butlast path) st)(t \<mapsto> JsonFile f)) = ([], Inr ())"
proof -
  let ?s = "(make_dirs (butlast path) st)(t \<mapsto> JsonFile f)"
  have tr: "tree ?s" using assms by (intro tree_base_update) auto
  have "?s (take j (butlast path)) = Some Directory" for j
  proof -
    have "take j (butlast path) \<noteq> t"
      using sibling_not_prefix(1) [OF assms(4)] assms(2) take_is_prefix [of j "butlast path"]
      by (auto simp: usable_path_def)
    then show ?thesis by (simp add: make_dirs_def take_is_prefix)
  qed
  then show ?thesis
    using verifyDirectory_tree [OF tr usable_parent [OF assms(2)]]
    by (simp add: require_directory_def observe_def)
qed

lemma andThen_step:
  "m st = (tr, Inr v) \<Longrightarrow>
     andThen m f st = (tr @ fst (f v (last (st # tr))), snd (f v (last (st # tr))))"
  by (simp add: andThen_def split: prod.split)

lemma replace_tree:
  assumes "tree st" "usable_path path" "\<not> blocked st path" "sibling temp path"
  shows "\<exists>tr. replace_file temp path r st =
      (tr @ fst (write_tail path temp r st),
       snd (write_tail path temp r st)) \<and>
    (\<forall>s\<in>set tr. \<exists>j\<le>length (butlast path). s = make_dirs (take j (butlast path)) st)"
proof -
  let ?t = "temp" and ?b = "make_dirs (butlast path) st"
  note sib = assms(4)
  have base: "?b ?t = st ?t" "?b path = st path" "path \<noteq> ?t"
    using make_dirs_parent [OF assms(2,3)] sib by (auto simp: sibling_def)
  obtain tr where tr: "ensureParentForFile path st = (tr, Inr True)" "last (st # tr) = ?b"
    "\<forall>s\<in>set tr. \<exists>j\<le>length (butlast path). s = make_dirs (take j (butlast path)) st"
    using ensureParent_tree(1) [OF assms(1-3)] by blast
  have req: "require_directory (butlast path) (?b(?t \<mapsto> JsonFile f)) = ([], Inr ())" if "st ?t = None" for f
    using require_directory_base [OF assms(1-3) sib that] .
  have undo: "?b(?t := None) = ?b" if "st ?t = None" using base that by (auto simp: fun_eq_iff)
  have ren: "?b(?t \<mapsto> e, path \<mapsto> e, ?t := None) = ?b(path \<mapsto> e)" if "st ?t = None" for e
    using base that by (auto simp: fun_eq_iff)
  have inner: "cleanup
         (andThen (open_exclusive ?t) (\<lambda>_. andThen (write_file ?t r) (\<lambda>_.
          andThen (require_directory (butlast path)) (\<lambda>_. rename ?t path)))) (unlink ?t) ?b =
      write_tail path ?t r st"
  proof (cases "st ?t")
    case None
    show ?thesis
      using base None req ren undo
      by (cases r; cases "st path = Some Directory")
        (auto simp: write_tail_def cleanup_def andThen_def open_exclusive_def write_file_def rename_def
          unlink_def written_def empty_file_def Let_def fun_upd_twist split: option.split entry.split)
  next
    case (Some e)
    then show ?thesis
      using base by (simp add: write_tail_def cleanup_def andThen_def open_exclusive_def Let_def)
  qed
  show ?thesis
    using tr inner
    unfolding replace_file_def
      andThen_step [where m = "ensureParentForFile path" and st = st, OF tr(1)] tr(2) inner by blast
qed


lemma replace_blocked:
  assumes "tree st" "usable_path path" "blocked st path"
  shows "replace_file temp path r st = ([], Inl UnsafeStorePathError)"
  using ensureParent_tree(2) [OF assms] by (simp add: replace_file_def andThen_def)

section \<open>What a reader sees\<close>

text \<open>The three sorts of states a write passes through, relative to the tree it started from.\<close>

definition write_state :: "store_path \<Rightarrow> store_path \<Rightarrow> json_file option \<Rightarrow> store \<Rightarrow> store \<Rightarrow> bool" where
  "write_state path temp f st s \<longleftrightarrow>
     (\<exists>j. s = make_dirs (take j (butlast path)) st) \<or>
     (\<exists>x. st temp = None \<and> s = (make_dirs (butlast path) st)(temp \<mapsto> JsonFile x)) \<or>
     s = unlink temp (make_dirs (butlast path) st) \<or>
     (\<exists>g. f = Some g \<and> st path \<noteq> Some Directory \<and> s = written path g st)"

lemma write_stateI:
  "write_state path temp f st (make_dirs (take j (butlast path)) st)"
  "write_state path temp f st (make_dirs (butlast path) st)"
  "st temp = None \<Longrightarrow> write_state path temp f st ((make_dirs (butlast path) st)(temp \<mapsto> JsonFile x))"
  "write_state path temp f st (unlink temp (make_dirs (butlast path) st))"
  "st path \<noteq> Some Directory \<Longrightarrow> write_state path temp (Some g) st (written path g st)"
  unfolding write_state_def
  using take_all [of "butlast path" "length path"] by (simp, blast | metis diff_le_self length_butlast)+

lemma write_tail_states:
  "s \<in> set (fst (write_tail path temp r st)) \<Longrightarrow>
     write_state path temp (case r of Inl _ \<Rightarrow> None | Inr f \<Rightarrow> Some f) st s"
  by (auto simp: write_tail_def Let_def intro: write_stateI split: if_splits sum.splits)

lemma replace_states:
  assumes "tree st" "usable_path path" "sibling temp path" "s \<in> set (fst (replace_file temp path r st))"
  shows "write_state path temp (case r of Inl _ \<Rightarrow> None | Inr f \<Rightarrow> Some f) st s"
proof (cases "blocked st path")
  case True
  with assms show ?thesis by (simp add: replace_blocked)
next
  case False
  from replace_tree [OF assms(1,2) False assms(3), of r] assms(4)
  have "(\<exists>j. s = make_dirs (take j (butlast path)) st) \<or> s \<in> set (fst (write_tail path temp r st))" by auto
  then show ?thesis using write_tail_states write_stateI(1) by blast
qed

text \<open>Away from the target and the temporary file a write only ever makes missing directories.\<close>

lemma write_state_elsewhere:
  assumes "write_state path temp f st s" "usable_path path" "\<not> blocked st path" "r \<noteq> temp" "r \<noteq> path"
  shows "s r = st r \<or> (st r = None \<and> s r = Some Directory \<and> prefix r (butlast path))"
proof -
  have clear: "clear st (butlast path)" using assms(2,3) by (simp add: clear_parent)
  have dirs: "make_dirs (take j (butlast path)) st r = st r \<or>
      (st r = None \<and> make_dirs (take j (butlast path)) st r = Some Directory \<and> prefix r (butlast path))" for j
  proof (cases "prefix r (take j (butlast path))")
    case True
    then obtain k where k: "k \<le> length (butlast path)" "r = take k (butlast path)"
      by (auto simp: prefix_take_le)
    with clear have "st r \<in> {None, Some Directory}" by (simp add: clear_def)
    with True k show ?thesis by (auto simp: make_dirs_def take_is_prefix)
  qed (simp add: make_dirs_def)
  from dirs [of "length path"] have base: "make_dirs (butlast path) st r = st r \<or>
      (st r = None \<and> make_dirs (butlast path) st r = Some Directory \<and> prefix r (butlast path))" by simp
  from assms(1) dirs base assms(4,5) show ?thesis
    unfolding write_state_def by (elim disjE exE conjE) (simp_all add: unlink_def written_def)
qed

lemma write_state_target:
  assumes "write_state path temp f st s" "usable_path path" "path \<noteq> temp"
  shows "s path = st path \<or> (\<exists>g. f = Some g \<and> s path = Some (JsonFile g))"
proof -
  have "\<not> prefix path (take j (butlast path))" for j
    using not_prefix_butlast [of path] assms(2) prefix_order.order_trans [OF _ take_is_prefix]
    by (auto simp: usable_path_def)
  then have dirs: "make_dirs (take j (butlast path)) st path = st path" for j
    by (simp add: make_dirs_def)
  from dirs [of "length path"] have "make_dirs (butlast path) st path = st path" by simp
  with assms dirs show ?thesis
    unfolding write_state_def by (elim disjE exE conjE) (simp_all add: unlink_def written_def)
qed

lemma write_state_tree:
  assumes "write_state path temp f st s" "tree st" "usable_path path" "\<not> blocked st path" "sibling temp path"
  shows "tree s"
  using assms(1) unfolding write_state_def
proof (elim disjE exE conjE)
  fix j assume "s = make_dirs (take j (butlast path)) st"
  then show ?thesis using tree_make_dirs assms clear_parent by blast
next
  fix x assume "st temp = None" "s = (make_dirs (butlast path) st)(temp \<mapsto> JsonFile x)"
  then show ?thesis using tree_base_update [OF assms(2-4)] assms(5) by simp
next
  assume "s = unlink temp (make_dirs (butlast path) st)"
  then show ?thesis using tree_unlink tree_base assms by blast
next
  fix g assume "st path \<noteq> Some Directory" "s = written path g st"
  then show ?thesis using tree_base_update [OF assms(2-4)] by (simp add: written_def)
qed

text \<open>A path in another branch: neither the target nor the temporary file is on the way to it.\<close>

definition apart :: "store_path \<Rightarrow> store_path \<Rightarrow> store_path \<Rightarrow> bool" where
  "apart path temp q \<longleftrightarrow> parallel q path \<and> \<not> prefix temp q"

lemma blocked_cong:
  "(\<And>k. k < length q \<Longrightarrow> s (take k q) \<in> {None, Some Directory} \<longleftrightarrow> st (take k q) \<in> {None, Some Directory}) \<Longrightarrow>
     blocked s q \<longleftrightarrow> blocked st q"
  unfolding blocked_def by blast

lemma write_state_blocked:
  assumes "write_state path temp f st s" "usable_path path" "\<not> blocked st path"
    "\<And>k. k < length q \<Longrightarrow> take k q \<noteq> temp \<and> take k q \<noteq> path"
  shows "blocked s q \<longleftrightarrow> blocked st q"
proof (rule blocked_cong)
  fix k assume "k < length q"
  with assms(4) have "take k q \<noteq> temp" "take k q \<noteq> path" by auto
  from write_state_elsewhere [OF assms(1-3) this]
  show "s (take k q) \<in> {None, Some Directory} \<longleftrightarrow> st (take k q) \<in> {None, Some Directory}" by auto
qed

lemma readUtf8File_cong:
  assumes "tree st" "tree s" "blocked s q \<longleftrightarrow> blocked st q" "s q = st q" "usable_path q" "safe_nonneg m"
  shows "readUtf8File q m s = readUtf8File q m st"
  using assms by (simp add: readUtf8File_tree)

lemma apart_ways:
  assumes "apart path temp q"
  shows "take k q \<noteq> temp \<and> take k q \<noteq> path" "q \<noteq> temp" "q \<noteq> path" "\<not> prefix q (butlast path)"
proof -
  have np: "\<not> prefix path q" "\<not> prefix q path" "\<not> prefix temp q" using assms by (auto simp: apart_def)
  from np(1,3) take_is_prefix [of k q] show "take k q \<noteq> temp \<and> take k q \<noteq> path" by auto
  from np show "q \<noteq> temp" "q \<noteq> path" by auto
  from np(2) show "\<not> prefix q (butlast path)"
    using prefix_order.order_trans [OF _ prefixeq_butlast] by blast
qed

lemma write_state_apart:
  assumes "write_state path temp f st s" "tree st" "usable_path path" "\<not> blocked st path"
    "sibling temp path" "apart path temp q" "usable_path q" "safe_nonneg m"
  shows "readUtf8File q m s = readUtf8File q m st"
proof (rule readUtf8File_cong)
  show "blocked s q \<longleftrightarrow> blocked st q" using write_state_blocked [OF assms(1,3,4)] apart_ways(1) [OF assms(6)] by blast
  show "s q = st q" using write_state_elsewhere [OF assms(1,3,4) apart_ways(2,3) [OF assms(6)]]
    apart_ways(4) [OF assms(6)] by blast
qed (use assms write_state_tree in blast)+

lemma write_state_read_target:
  assumes "write_state path temp f st s" "tree st" "usable_path path" "\<not> blocked st path"
    "sibling temp path" "safe_nonneg m"
  shows "readUtf8File path m s = readUtf8File path m st \<or>
    (\<exists>g. f = Some g \<and> readUtf8File path m s = sized m g)"
proof -
  have ne: "path \<noteq> temp" "path \<noteq> []" using assms(3,5) by (auto simp: sibling_def usable_path_def)
  have "take k path \<noteq> temp \<and> take k path \<noteq> path" if "k < length path" for k
  proof -
    have "length (take k path) < length path" using that by simp
    then show ?thesis using sibling_not_prefix(3) [OF assms(5) ne(2)] take_is_prefix [of k path] by auto
  qed
  from write_state_blocked [OF assms(1,3,4) this] assms(4) have nb: "\<not> blocked s path" by blast
  have ts: "tree s" using write_state_tree assms by blast
  from write_state_target [OF assms(1,3) ne(1)] show ?thesis
  proof
    assume "s path = st path"
    then show ?thesis using readUtf8File_cong [of st s path m] nb ts assms by blast
  next
    assume "\<exists>g. f = Some g \<and> s path = Some (JsonFile g)"
    then show ?thesis using nb ts assms by (auto simp: readUtf8File_tree)
  qed
qed

end
