(* ===== verification/Record_Store.thy ===== *)
theory Record_Store
  imports Store_Writes
begin

text \<open>
  The contract of the small JSON record files under \<open>.barbaro\<close>: what every store of the program
  (workstreams, participation, cursors, leases) relies on when it writes a record with
  \<open>writeJsonFileAtomically\<close> and reads it back with \<open>readUtf8File\<close>.
\<close>

section \<open>The contract\<close>

text \<open>
  A write \<open>w\<close> has a key, and a new value unless the value handed to it cannot be stored; its
  trace holds the states a crash can leave behind.
\<close>

locale record_store =
  fixes ok :: "'s \<Rightarrow> bool"
    and get :: "'k \<Rightarrow> 's \<Rightarrow> 'v"
    and put :: "'w \<Rightarrow> 's \<Rightarrow> 's list \<times> unit result"
    and key :: "'w \<Rightarrow> 'k"
    and new :: "'w \<Rightarrow> 'v option"
    and away :: "'w \<Rightarrow> 'k \<Rightarrow> bool"
  assumes keeps: "ok st \<Longrightarrow> s \<in> set (fst (put w st)) \<Longrightarrow> ok s"
    and target: "ok st \<Longrightarrow> s \<in> set (fst (put w st)) \<Longrightarrow>
      get (key w) s = get (key w) st \<or> new w = Some (get (key w) s)"
    and elsewhere: "ok st \<Longrightarrow> s \<in> set (fst (put w st)) \<Longrightarrow> away w k \<Longrightarrow> get k s = get k st"
    and success: "ok st \<Longrightarrow> snd (put w st) = Inr () \<Longrightarrow>
      new w = Some (get (key w) (last (st # fst (put w st))))"
    and failure: "ok st \<Longrightarrow> snd (put w st) = Inl e \<Longrightarrow>
      get (key w) (last (st # fst (put w st))) = get (key w) st"
begin

text \<open>The state after a sequence of writes, each tried whatever became of the others.\<close>

primrec run :: "'w list \<Rightarrow> 's \<Rightarrow> 's" where
  "run [] st = st"
| "run (w # ws) st = run ws (last (st # fst (put w st)))"

text \<open>Every state on the way.\<close>

primrec passes :: "'w list \<Rightarrow> 's \<Rightarrow> 's list" where
  "passes [] st = []"
| "passes (w # ws) st = fst (put w st) @ passes ws (last (st # fst (put w st)))"

text \<open>The abstract store: the value of a key, or what was there before.\<close>

primrec model :: "'w list \<Rightarrow> 's \<Rightarrow> ('k \<Rightarrow> 'v) \<Rightarrow> 'k \<Rightarrow> 'v" where
  "model [] st m = m"
| "model (w # ws) st m =
     model ws (last (st # fst (put w st)))
       (case (snd (put w st), new w) of (Inr _, Some v) \<Rightarrow> m(key w := v) | _ \<Rightarrow> m)"

definition settled :: "'w list \<Rightarrow> 'k \<Rightarrow> bool" where
  "settled ws k \<longleftrightarrow> (\<forall>w\<in>set ws. key w = k \<or> away w k)"

lemma put_ok: "ok st \<Longrightarrow> ok (last (st # fst (put w st)))"
  using keeps [of st "last (fst (put w st))" w] by (cases "fst (put w st) = []") auto

lemma put_elsewhere: "ok st \<Longrightarrow> away w k \<Longrightarrow> get k (last (st # fst (put w st))) = get k st"
  using elsewhere [of st "last (fst (put w st))" w k] by (cases "fst (put w st) = []") auto

lemma run_ok: "ok st \<Longrightarrow> ok (run ws st)"
  by (induction ws arbitrary: st) (simp_all only: run.simps put_ok)

lemma put_model:
  assumes "ok st" "key w = k \<or> away w k"
  shows "get k (last (st # fst (put w st))) =
    (case (snd (put w st), new w) of (Inr _, Some v) \<Rightarrow> ((\<lambda>k. get k st)(key w := v)) k | _ \<Rightarrow> get k st)"
proof (cases "snd (put w st)")
  case (Inl e)
  then show ?thesis
    using assms failure [OF assms(1) Inl] put_elsewhere [OF assms(1), of w k] by (auto simp del: last.simps)
next
  case (Inr u)
  then have "new w = Some (get (key w) (last (st # fst (put w st))))" using success [OF assms(1)] by simp
  then show ?thesis
    using assms Inr put_elsewhere [OF assms(1), of w k] by (auto simp del: last.simps)
qed

lemma run_last: "run ws st = last (st # passes ws st)"
proof (induction ws arbitrary: st)
  case (Cons w ws)
  then show ?case
    by (cases "fst (put w st) = []"; cases "passes ws (last (fst (put w st))) = []") auto
qed simp

text \<open>A sequence of writes is a sequence of updates of the abstract store.\<close>

lemma run_model_gen:
  "ok st \<Longrightarrow> settled ws k \<Longrightarrow> m k = get k st \<Longrightarrow> get k (run ws st) = model ws st m k"
proof (induction ws arbitrary: st m)
  case (Cons w ws)
  have w: "key w = k \<or> away w k" and ws: "settled ws k" using Cons.prems(2) by (auto simp: settled_def)
  let ?m = "case (snd (put w st), new w) of (Inr _, Some v) \<Rightarrow> m(key w := v) | _ \<Rightarrow> m"
  have "?m k = get k (last (st # fst (put w st)))"
    unfolding put_model [OF Cons.prems(1) w] using Cons.prems(3) by (auto split: sum.split option.split)
  from Cons.IH [where m = ?m, OF put_ok [OF Cons.prems(1)] ws this] show ?case by (simp del: last.simps)
qed simp

lemma run_model: "ok st \<Longrightarrow> settled ws k \<Longrightarrow> get k (run ws st) = model ws st (\<lambda>k. get k st) k"
  by (rule run_model_gen) simp_all

text \<open>Whatever state is left behind, a key holds what it held or a complete value written to it.\<close>

lemma passes_values:
  "ok st \<Longrightarrow> settled ws k \<Longrightarrow> s \<in> set (passes ws st) \<Longrightarrow>
     ok s \<and> (get k s = get k st \<or> (\<exists>w\<in>set ws. key w = k \<and> new w = Some (get k s)))"
proof (induction ws arbitrary: st)
  case (Cons w ws)
  have w: "key w = k \<or> away w k" and ws: "settled ws k" using Cons.prems(2) by (auto simp: settled_def)
  let ?st = "last (st # fst (put w st))"
  have one: "get k s' = get k st \<or> key w = k \<and> new w = Some (get k s')" if "s' \<in> set (fst (put w st))" for s'
    using w target [OF Cons.prems(1) that] elsewhere [OF Cons.prems(1) that] by auto
  have mid: "get k ?st = get k st \<or> key w = k \<and> new w = Some (get k ?st)"
    using one [of "last (fst (put w st))"] by (cases "fst (put w st) = []") auto
  from Cons.prems(3) consider "s \<in> set (fst (put w st))" | "s \<in> set (passes ws ?st)"
    unfolding passes.simps by auto
  then show ?case
  proof cases
    case 1
    then show ?thesis using one keeps [OF Cons.prems(1)] by auto
  next
    case 2
    from Cons.IH [OF put_ok [OF Cons.prems(1)] ws 2] mid show ?thesis by (auto simp del: last.simps)
  qed
qed simp

end

section \<open>The JSON files of a guarded store\<close>

record file_write =
  fw_nonce :: jstr
  fw_path :: store_path
  fw_value :: jsval

definition put_file :: "file_write \<Rightarrow> unit action" where
  "put_file w = writeJsonFileAtomically (fw_nonce w) (fw_path w) (fw_value w)"

definition get_file :: "store_path \<Rightarrow> store \<Rightarrow> int \<Rightarrow> json_file option result" where
  "get_file path st maximum = readUtf8File path maximum st"

definition new_file :: "file_write \<Rightarrow> (int \<Rightarrow> json_file option result) option" where
  "new_file w = (case file_of (fw_value w) of Inl _ \<Rightarrow> None
     | Inr f \<Rightarrow> Some (\<lambda>m. if safe_nonneg m then sized m f else Inl TypeError))"

definition file_away :: "file_write \<Rightarrow> store_path \<Rightarrow> bool" where
  "file_away w q \<longleftrightarrow> apart (fw_path w) (temporaryPath (fw_path w) (fw_nonce w)) q"


text \<open>The laws of \<open>replace_file\<close>, for any file that is written beside its target.\<close>

lemma replace_unusable: "\<not> usable_path path \<Longrightarrow> replace_file temp path r st = ([], Inl TypeError)"
  by (auto simp: usable_path_def replace_file_def ensureParentForFile_def andThen_def
      observe_def raise_def validatePath_def)

lemma write_tail_outcome:
  assumes "tree st" "usable_path path" "\<not> blocked st path" "sibling temp path"
  shows "snd (write_tail path temp r st) = Inr () \<Longrightarrow>
      \<exists>f. r = Inr f \<and> st path \<noteq> Some Directory \<and>
        last (x # fst (write_tail path temp r st)) = written path f st"
    and "snd (write_tail path temp r st) = Inl e \<Longrightarrow>
      \<exists>s. last (x # fst (write_tail path temp r st)) = s \<and> write_state path temp None st s"
  by (auto simp: write_tail_def Let_def intro: write_stateI split: if_splits sum.splits)

lemma write_tail_nonempty: "fst (write_tail path temp r st) \<noteq> []"
  by (auto simp: write_tail_def Let_def split: sum.split)

lemma replace_final:
  assumes "tree st" "usable_path path" "\<not> blocked st path" "sibling temp path"
  shows "snd (replace_file temp path r st) = snd (write_tail path temp r st)"
    "last (st # fst (replace_file temp path r st)) = last (x # fst (write_tail path temp r st))"
proof -
  obtain tr where tr: "replace_file temp path r st =
      (tr @ fst (write_tail path temp r st), snd (write_tail path temp r st))"
    using replace_tree [OF assms, of r] by blast
  note ne = write_tail_nonempty [of path temp r st]
  show "snd (replace_file temp path r st) = snd (write_tail path temp r st)"
    "last (st # fst (replace_file temp path r st)) = last (x # fst (write_tail path temp r st))"
    using ne by (simp_all add: tr)
qed

lemma usable_sibling: "usable_path path \<Longrightarrow> sibling (temporaryPath path nonce) path"
  by (rule temporary_sibling) (simp add: usable_path_def)

lemma replace_success:
  assumes "tree st" "usable_path path \<Longrightarrow> sibling temp path" "snd (replace_file temp path r st) = Inr ()"
  shows "usable_path path" "\<not> blocked st path"
    "\<exists>f. r = Inr f \<and> st path \<noteq> Some Directory \<and> last (st # fst (replace_file temp path r st)) = written path f st"
proof -
  show u: "usable_path path" using assms replace_unusable by fastforce
  show b: "\<not> blocked st path" using assms u replace_blocked by fastforce
  show "\<exists>f. r = Inr f \<and> st path \<noteq> Some Directory \<and> last (st # fst (replace_file temp path r st)) = written path f st"
    using write_tail_outcome(1) [OF assms(1) u b assms(2) [OF u], of r]
      replace_final [OF assms(1) u b assms(2) [OF u], of r] assms(3) by (simp only:)
qed

lemma written_read:
  assumes "tree st" "usable_path path" "\<not> blocked st path" "st path \<noteq> Some Directory" "safe_nonneg m"
  shows "readUtf8File path m (written path f st) = sized m f" "tree (written path f st)"
proof -
  have ws: "write_state path (temporaryPath path nonce) (Some f) st (written path f st)" for nonce
    using assms(4) by (rule write_stateI)
  show t: "tree (written path f st)"
    using write_state_tree [OF ws assms(1-3) usable_sibling [OF assms(2)]] .
  have "take k path \<noteq> temporaryPath path [] \<and> take k path \<noteq> path" if "k < length path" for k
  proof -
    have "length (take k path) < length path" using that by simp
    then show ?thesis
      using sibling_not_prefix(3) [OF usable_sibling [OF assms(2)]] take_is_prefix [of k path] assms(2)
      by (auto simp: usable_path_def)
  qed
  from write_state_blocked [OF ws assms(2,3) this] have "\<not> blocked (written path f st) path"
    using assms(3) by blast
  then show "readUtf8File path m (written path f st) = sized m f"
    using readUtf8File_tree [OF t assms(2,5)] by (simp add: written_def)
qed


lemma read_unusable: "\<not> usable_path q \<Longrightarrow> readUtf8File q m st = Inl TypeError"
  by (auto simp: readUtf8File_def usable_path_def)

lemma read_bad_bound: "\<not> safe_nonneg m \<Longrightarrow> readUtf8File q m st = Inl TypeError"
  by (simp add: readUtf8File_def)

lemma replace_state:
  assumes "tree st" "usable_path path \<Longrightarrow> sibling temp path" "s \<in> set (fst (replace_file temp path r st))"
  shows "usable_path path" "\<not> blocked st path"
    "write_state path temp (case r of Inl _ \<Rightarrow> None | Inr f \<Rightarrow> Some f) st s" "sibling temp path"
proof -
  show u: "usable_path path" using assms(3) replace_unusable by fastforce
  show "\<not> blocked st path" using assms(1,3) u replace_blocked by fastforce
  show "sibling temp path" by (rule assms(2) [OF u])
  then show "write_state path temp (case r of Inl _ \<Rightarrow> None | Inr f \<Rightarrow> Some f) st s"
    using replace_states [OF assms(1) u] assms(3) by simp
qed

lemma replace_keeps_tree:
  assumes "tree st" "usable_path path \<Longrightarrow> sibling temp path" "s \<in> set (fst (replace_file temp path r st))"
  shows "tree s"
  using write_state_tree [OF replace_state(3) [OF assms] assms(1) replace_state(1,2,4) [OF assms]] .

lemma replace_away:
  assumes "tree st" "usable_path path \<Longrightarrow> sibling temp path" "s \<in> set (fst (replace_file temp path r st))"
    "apart path temp q"
  shows "get_file q s = get_file q st"
proof (rule ext)
  fix m
  show "get_file q s m = get_file q st m"
    using write_state_apart [OF replace_state(3) [OF assms(1-3)] assms(1) replace_state(1,2,4) [OF assms(1-3)] assms(4)]
      read_unusable read_bad_bound
    unfolding get_file_def by metis
qed

text \<open>Either the target reads as before at every bound, or as the new file at every bound.\<close>

definition reads_as :: "json_file \<Rightarrow> int \<Rightarrow> json_file option result" where
  "reads_as f = (\<lambda>m. if safe_nonneg m then sized m f else Inl TypeError)"

lemma write_state_read:
  assumes "write_state path temp f st s" "tree st" "usable_path path" "\<not> blocked st path"
    "sibling temp path"
  shows "get_file path s = get_file path st \<or>
    (\<exists>g. f = Some g \<and> get_file path s = reads_as g)"
proof -
  have ne: "path \<noteq> temp" "path \<noteq> []" using assms(3,5) by (auto simp: sibling_def usable_path_def)
  have "take k path \<noteq> temp \<and> take k path \<noteq> path" if "k < length path" for k
  proof -
    have "length (take k path) < length path" using that by simp
    then show ?thesis using sibling_not_prefix(3) [OF assms(5) ne(2)] take_is_prefix [of k path] by auto
  qed
  from write_state_blocked [OF assms(1,3,4) this] assms(4) have nb: "\<not> blocked s path" by blast
  have ts: "tree s" using write_state_tree assms by blast
  from write_state_target [OF assms(1,3) ne(1)] show ?thesis
  proof
    assume eq: "s path = st path"
    have "readUtf8File path m s = readUtf8File path m st" for m
      using readUtf8File_cong [of st s path m] nb ts eq assms read_bad_bound by metis
    then show ?thesis by (simp add: get_file_def fun_eq_iff)
  next
    assume "\<exists>g. f = Some g \<and> s path = Some (JsonFile g)"
    then show ?thesis
      using nb ts assms(3) by (auto simp: get_file_def fun_eq_iff readUtf8File_tree read_bad_bound reads_as_def)
  qed
qed

lemma replace_reads:
  assumes "tree st" "usable_path path \<Longrightarrow> sibling temp path" "snd (replace_file temp path r st) = Inr ()"
  shows "\<exists>f. r = Inr f \<and> get_file path (last (st # fst (replace_file temp path r st))) = reads_as f"
proof -
  obtain f where f: "r = Inr f" "st path \<noteq> Some Directory"
    "last (st # fst (replace_file temp path r st)) = written path f st"
    using replace_success(3) [OF assms] by blast
  have "get_file path (written path f st) = reads_as f"
    using written_read(1) [OF assms(1) replace_success(1,2) [OF assms] f(2)] read_bad_bound
    by (auto simp: get_file_def fun_eq_iff reads_as_def)
  with f show ?thesis by simp
qed

lemma replace_failure:
  assumes "tree st" "usable_path path \<Longrightarrow> sibling temp path" "snd (replace_file temp path r st) = Inl e"
  shows "get_file path (last (st # fst (replace_file temp path r st))) = get_file path st"
proof (cases "usable_path path \<and> \<not> blocked st path")
  case True
  then have u: "usable_path path" "\<not> blocked st path" by auto
  note fin = replace_final [OF assms(1) u assms(2) [OF u(1)], of r]
  obtain s where s: "last (st # fst (replace_file temp path r st)) = s" "write_state path temp None st s"
    using write_tail_outcome(2) [OF assms(1) u assms(2) [OF u(1)]] assms(3) fin by metis
  from write_state_read [OF s(2) assms(1) u assms(2) [OF u(1)]] s(1) show ?thesis by auto
next
  case False
  then have "fst (replace_file temp path r st) = []"
    using replace_unusable replace_blocked [OF assms(1)] by fastforce
  then show ?thesis by simp
qed

text \<open>The same for \<open>writeJsonFileAtomically\<close>.\<close>

lemma new_file_eq: "new_file w = (case file_of (fw_value w) of Inl _ \<Rightarrow> None | Inr f \<Rightarrow> Some (reads_as f))"
  unfolding new_file_def reads_as_def ..

lemma put_as_replace:
  "put_file w = replace_file (temporaryPath (fw_path w) (fw_nonce w)) (fw_path w) (file_of (fw_value w))"
  by (simp add: put_file_def write_as_replace)

lemma write_unusable:
  "\<not> usable_path path \<Longrightarrow> writeJsonFileAtomically nonce path v st = ([], Inl TypeError)"
  by (simp add: write_as_replace replace_unusable)

lemma write_tree:
  assumes "tree st" "usable_path path" "\<not> blocked st path"
  shows "\<exists>tr. writeJsonFileAtomically nonce path v st =
      (tr @ fst (write_tail path (temporaryPath path nonce) (file_of v) st),
       snd (write_tail path (temporaryPath path nonce) (file_of v) st)) \<and>
    (\<forall>s\<in>set tr. \<exists>j\<le>length (butlast path). s = make_dirs (take j (butlast path)) st)"
  using replace_tree [OF assms usable_sibling [OF assms(2)]] by (simp add: write_as_replace)

lemma write_final:
  assumes "tree st" "usable_path path" "\<not> blocked st path"
  shows "snd (writeJsonFileAtomically nonce path v st) =
      snd (write_tail path (temporaryPath path nonce) (file_of v) st)"
  using replace_final(1) [OF assms usable_sibling [OF assms(2)]] by (simp add: write_as_replace)

lemma write_success:
  assumes "tree st" "snd (writeJsonFileAtomically nonce path v st) = Inr ()"
  shows "usable_path path" "\<not> blocked st path"
    "\<exists>f. file_of v = Inr f \<and> st path \<noteq> Some Directory \<and>
      last (st # fst (writeJsonFileAtomically nonce path v st)) = written path f st"
  using replace_success [OF assms(1) usable_sibling assms(2) [unfolded write_as_replace]]
  unfolding write_as_replace by blast+

lemma put_file_state:
  assumes "tree st" "s \<in> set (fst (put_file w st))"
  shows "usable_path (fw_path w)" "\<not> blocked st (fw_path w)"
    "write_state (fw_path w) (temporaryPath (fw_path w) (fw_nonce w))
      (case file_of (fw_value w) of Inl _ \<Rightarrow> None | Inr f \<Rightarrow> Some f) st s"
  using replace_state [OF assms(1) usable_sibling] assms(2) by (simp_all add: put_as_replace)

lemma put_file_tree: "tree st \<Longrightarrow> s \<in> set (fst (put_file w st)) \<Longrightarrow> tree s"
  using replace_keeps_tree [OF _ usable_sibling] by (simp add: put_as_replace)

lemma put_file_away:
  "tree st \<Longrightarrow> s \<in> set (fst (put_file w st)) \<Longrightarrow> file_away w q \<Longrightarrow> get_file q s = get_file q st"
  using replace_away [OF _ usable_sibling] by (simp add: put_as_replace file_away_def)

lemma put_file_success:
  assumes "tree st" "snd (put_file w st) = Inr ()"
  shows "new_file w = Some (get_file (fw_path w) (last (st # fst (put_file w st))))"
  using replace_reads [OF assms(1) usable_sibling] assms(2)
  by (fastforce simp: put_as_replace new_file_eq simp del: last.simps)

lemma put_file_failure:
  "tree st \<Longrightarrow> snd (put_file w st) = Inl e \<Longrightarrow>
     get_file (fw_path w) (last (st # fst (put_file w st))) = get_file (fw_path w) st"
  using replace_failure [OF _ usable_sibling] by (simp add: put_as_replace del: last.simps)

interpretation files: record_store tree get_file put_file fw_path new_file file_away
proof unfold_locales
  fix st s w assume tr: "tree st" and s: "s \<in> set (fst (put_file w st))"
  show "tree s" using put_file_tree [OF tr s] .
  show "get_file (fw_path w) s = get_file (fw_path w) st \<or> new_file w = Some (get_file (fw_path w) s)"
    using write_state_read [OF put_file_state(3) [OF tr s] tr put_file_state(1,2) [OF tr s]
        usable_sibling [OF put_file_state(1) [OF tr s]]]
    by (auto simp: new_file_eq split: sum.splits)
  show "get_file k s = get_file k st" if "file_away w k" for k
    using put_file_away [OF tr s that] .
qed (use put_file_success put_file_failure in blast)+

section \<open>Operations that write files\<close>

lemma last_trace_append: "last (st # tr @ tr') = last (last (st # tr) # tr')"
  by (cases tr') auto

text \<open>One write followed by a return, and two writes in sequence.\<close>

lemma one_put:
  assumes "andThen (put_file w) (\<lambda>_. return r) st = (tr, res)"
  shows "set tr = set (files.passes [w] st)"
    "res = Inr x \<Longrightarrow> x = r \<and> snd (put_file w st) = Inr () \<and> last (st # tr) = files.run [w] st"
  using assms
  by (cases "put_file w st"; cases "snd (put_file w st)"; auto simp: andThen_def return_def)+

lemma two_puts:
  assumes "andThen (put_file w1) (\<lambda>_. andThen (put_file w2) (\<lambda>_. return r)) st = (tr, res)"
  shows "set tr \<subseteq> set (files.passes [w1, w2] st)"
    "res = Inr x \<Longrightarrow> x = r \<and> snd (put_file w1 st) = Inr () \<and>
      snd (put_file w2 (last (st # fst (put_file w1 st)))) = Inr () \<and>
      last (st # tr) = files.run [w1, w2] st"
proof -
  obtain tr1 r1 where 1: "put_file w1 st = (tr1, r1)" by (cases "put_file w1 st")
  obtain tr2 r2 where 2: "put_file w2 (last (st # tr1)) = (tr2, r2)"
    by (cases "put_file w2 (last (st # tr1))")
  show "set tr \<subseteq> set (files.passes [w1, w2] st)"
    using assms 1 2 by (cases r1; cases r2) (auto simp: andThen_def return_def simp del: last.simps)
  show "x = r \<and> snd (put_file w1 st) = Inr () \<and> snd (put_file w2 (last (st # fst (put_file w1 st)))) = Inr () \<and>
      last (st # tr) = files.run [w1, w2] st" if "res = Inr x"
    using assms 1 2 that last_trace_append [of st tr1 tr2]
    by (cases r1; cases r2) (auto simp: andThen_def return_def simp del: last.simps)
qed

section \<open>A small tree\<close>

definition empty_root :: store where
  "empty_root = [[] \<mapsto> Directory]"

definition sample_path :: store_path where
  "sample_path = [js ''cursors'', js ''a.json'']"

definition sample_write :: file_write where
  "sample_write = \<lparr> fw_nonce = js ''1'', fw_path = sample_path, fw_value = JObj [] \<rparr>"

lemma tree_empty_root: "tree empty_root"
  by (auto simp: tree_def empty_root_def)

lemma usable_sample: "usable_path sample_path"
  by (simp add: usable_path_def sample_path_def validateComponent_def js_def)

lemma clear_sample: "\<not> blocked empty_root sample_path"
  by (auto simp: blocked_def empty_root_def sample_path_def)

lemma sample_passes: "fst (put_file sample_write empty_root) \<noteq> []"
  using write_tree [OF tree_empty_root usable_sample clear_sample, of "js ''1''" "JObj []"]
    write_tail_nonempty
  by (auto simp: put_file_def sample_write_def)

section \<open>Properties\<close>

text \<open>C13: whatever becomes of a sequence of atomic writes, at every moment the tree is well-formed
  and each file reads as it did before or as one complete file that was written to it: a reader
  never sees a partial record, and a crash never leaves one.\<close>

theorem writes_old_or_new:
  assumes "tree st" "\<forall>w\<in>set ws. fw_path w = q \<or> file_away w q" "s \<in> set (files.passes ws st)"
  shows "tree s \<and> (get_file q s = get_file q st \<or>
    (\<exists>w\<in>set ws. fw_path w = q \<and> new_file w = Some (get_file q s)))"
  using files.passes_values [of st ws q s] assms by (simp add: files.settled_def)

theorem writes_old_or_new_witness:
  "tree (hd (files.passes [sample_write] empty_root)) \<and>
   (get_file sample_path (hd (files.passes [sample_write] empty_root)) = get_file sample_path empty_root \<or>
    (\<exists>w\<in>{sample_write}. fw_path w = sample_path \<and>
      new_file w = Some (get_file sample_path (hd (files.passes [sample_write] empty_root)))))"
proof -
  have "hd (files.passes [sample_write] empty_root) \<in> set (files.passes [sample_write] empty_root)"
    using sample_passes by simp
  with writes_old_or_new [OF tree_empty_root, of "[sample_write]" sample_path] show ?thesis
    by (simp add: sample_write_def)
qed

text \<open>A sequence of atomic writes refines updates of a map from paths to files: afterwards each
  file reads as the last successful write to it, or as it did before.\<close>

theorem writes_refine_map:
  assumes "tree st" "\<forall>w\<in>set ws. fw_path w = q \<or> file_away w q"
  shows "get_file q (files.run ws st) = files.model ws st (\<lambda>q. get_file q st) q"
  using files.run_model [of st ws q] assms by (simp add: files.settled_def)

theorem writes_refine_map_witness:
  "get_file sample_path (files.run [sample_write] empty_root) =
     files.model [sample_write] empty_root (\<lambda>q. get_file q empty_root) sample_path"
  using writes_refine_map [OF tree_empty_root, of "[sample_write]" sample_path]
  by (simp add: sample_write_def)

end
