(* ===== verification/Text_Bounds.thy ===== *)
theory Text_Bounds
  imports Record_Store "HOL-Library.Multiset"
begin

text \<open>
  How large the text of a value can be.  Records are read back under a byte bound; the lemmas give
  an upper bound of the file written for a value from the lengths of its strings alone.
\<close>

section \<open>Bytes and code units\<close>

lemma byte_length_concat: "byte_length s = sum_list (map (\<lambda>c. length (utf8_char c)) (characters s))"
  by (simp add: byte_length_def utf8_def length_concat comp_def)

lemma utf8_char_length: "length (utf8_char c) \<le> 3 * length c"
  by (cases c rule: utf8_char.cases) (auto simp: Let_def)

lemma utf8_char_length_ge: "is_character c \<Longrightarrow> length c \<le> length (utf8_char c)"
  by (cases c rule: utf8_char.cases) (auto simp: Let_def is_character_def)

lemma sum_characters: "sum_list (map length (characters s)) = length s"
  by (metis concat_characters length_concat)

lemma byte_length_le: "byte_length s \<le> 3 * length s"
proof -
  have "byte_length s \<le> sum_list (map (\<lambda>c. 3 * length c) (characters s))"
    unfolding byte_length_concat by (intro sum_list_mono utf8_char_length)
  then show ?thesis by (simp add: sum_list_const_mult sum_characters)
qed

lemma length_le_byte_length: "length s \<le> byte_length s"
proof -
  have "sum_list (map length (characters s)) \<le> byte_length s"
    unfolding byte_length_concat using characters_are by (intro sum_list_mono utf8_char_length_ge) auto
  then show ?thesis by (simp add: sum_characters)
qed

lemma quote_char_length: "is_character c \<Longrightarrow> length (quote_char c) \<le> 6 * length c"
  by (cases c rule: quote_char.cases) (auto simp: hex4_def is_character_def)

lemma quote_length: "length (quote s) \<le> 2 + 6 * length s"
proof -
  have "length (concat (map quote_char (characters s))) \<le> sum_list (map (\<lambda>c. 6 * length c) (characters s))"
    unfolding length_concat map_map comp_def using characters_are
    by (intro sum_list_mono quote_char_length) auto
  then show ?thesis by (simp add: quote_def sum_list_const_mult sum_characters)
qed

section \<open>A bound on the text of a value\<close>

function text_bound :: "jsval \<Rightarrow> nat" where
  "text_bound (JArr xs) = 2 + sum_list (map (\<lambda>x. 5 + text_bound x) xs)"
| "text_bound (JObj ps) = 2 + sum_list (map (\<lambda>(k, v). 4 + 6 * length k + text_bound v) ps)"
| "text_bound JNull = 4"
| "text_bound (JBool b) = 5"
| "text_bound (JNum n) = (case n of NInt i \<Rightarrow> length (decimal i) | NOther s \<Rightarrow> length s | NonFinite \<Rightarrow> 0)"
| "text_bound (JStr s) = 2 + 6 * length s"
| "text_bound JUndef = 4"
| "text_bound (JBigInt i) = 0"
| "text_bound JNonPlain = 0"
  by pat_completeness auto
termination
  by (relation "measure size") (auto dest: jsval_size_JArr jsval_size_JObj simp del: jsval.size)

lemma join_length: "length (join [c] ts) \<le> sum_list (map (\<lambda>t. 1 + length t) ts)"
  by (cases ts) (auto simp: join_def length_concat comp_def)

lemma json_text_length: "length (json_text v) \<le> text_bound v"
proof (induction v rule: json_text.induct)
  case (1 xs)
  have "length (join [0x2C] (map json_text xs)) \<le> sum_list (map (\<lambda>x. 1 + length (json_text x)) xs)"
    using join_length [of "0x2C" "map json_text xs"] by (simp add: comp_def)
  also have "\<dots> \<le> sum_list (map (\<lambda>x. 5 + text_bound x) xs)"
    using 1 by (intro sum_list_mono) (simp add: trans_le_add2)
  finally show ?case by simp
next
  case (2 ps)
  let ?t = "\<lambda>(k, v). quote k @ 0x3A # json_text v"
  have "length (join [0x2C] (map ?t ps)) \<le> sum_list (map (\<lambda>p. 1 + length (?t p)) ps)"
    using join_length [of "0x2C" "map ?t ps"] by (simp add: comp_def)
  also have "\<dots> \<le> sum_list (map (\<lambda>(k, v). 4 + 6 * length k + text_bound v) ps)"
  proof (intro sum_list_mono)
    fix p assume p: "p \<in> set ps"
    obtain k v where kv: "p = (k, v)" by (cases p)
    have "length (json_text v) \<le> text_bound v" using 2 [OF p kv [symmetric]] .
    then show "1 + length (?t p) \<le> (\<lambda>(k, v). 4 + 6 * length k + text_bound v) p"
      using quote_length [of k] by (simp add: kv)
  qed
  finally show ?case by simp
qed (simp_all add: js_def quote_length [simplified] split: jnum.split)

lemma sum_list_filter_le: "sum_list (map f (filter P xs)) \<le> (sum_list (map f xs) :: nat)"
  by (induction xs) auto

lemma sum_list_sort_key: "sum_list (map f (sort_key g xs)) = (sum_list (map f xs) :: nat)"
  by (metis mset_map mset_sort sum_mset_sum_list)

lemma text_bound_canon: "text_bound (canon v) \<le> text_bound v"
proof (induction v rule: canon.induct)
  case (1 xs)
  have "sum_list (map (\<lambda>x. 5 + text_bound (case canon x of JUndef \<Rightarrow> JNull | y \<Rightarrow> y)) xs) \<le>
      sum_list (map (\<lambda>x. 5 + text_bound x) xs)"
  proof (intro sum_list_mono)
    fix x assume "x \<in> set xs"
    with 1 have "text_bound (canon x) \<le> text_bound x" by blast
    then show "5 + text_bound (case canon x of JUndef \<Rightarrow> JNull | y \<Rightarrow> y) \<le> 5 + text_bound x"
      by (cases "canon x") simp_all
  qed
  then show ?case by (simp add: canon.simps comp_def)
next
  case (2 ps)
  let ?w = "\<lambda>(k, v). 4 + 6 * length k + text_bound v"
  have "sum_list (map ?w (canon_props ps)) \<le> sum_list (map ?w (map (\<lambda>(k, v). (k, canon v)) (sort_key fst ps)))"
    unfolding canon_props_def by (rule sum_list_filter_le)
  also have "\<dots> \<le> sum_list (map ?w (sort_key fst ps))"
    unfolding map_map comp_def using 2 by (intro sum_list_mono) fastforce
  also have "\<dots> = sum_list (map ?w ps)" by (rule sum_list_sort_key)
  finally show ?case by simp
qed simp_all

lemma text_bound_update:
  "text_bound (JObj (AList.update k v ps)) \<le> text_bound (JObj ps) + 4 + 6 * length k + text_bound v"
  by (induction ps) (auto simp del: canon_JObj)

lemma file_of_size:
  "file_of v = Inr f \<Longrightarrow> jf_size f \<le> 3 * text_bound v + 1"
proof -
  assume f: "file_of v = Inr f"
  then obtain t where t: "stableStringify v = Inr t" "jf_size f = byte_length t + 1"
    by (auto simp: file_of_def split: sum.splits)
  have ser: "serializable v \<and> v \<noteq> JUndef"
    using t(1) stableStringify_canon [of v] encode_unserializable [of v False]
    by (cases "serializable v") (auto simp: stableStringify_def split: sum.splits option.splits)
  then have "t = json_text (canon v)"
    using t(1) stableStringify_canon [of v] by (auto split: if_splits)
  then show ?thesis
    using t(2) byte_length_le [of t] json_text_length [of "canon v"] text_bound_canon [of v] by simp
qed

lemma serializable_file: "serializable v \<Longrightarrow> v \<noteq> JUndef \<Longrightarrow> \<exists>f. file_of v = Inr f"
  by (simp add: file_of_def stableStringify_canon)

end
