(* ===== verification/Workstreams.thy ===== *)
theory Workstreams
  imports Text_Bounds "HOL-Library.Product_Lexorder"
begin

text \<open>
  \<open>workstreams/types.ts\<close> and \<open>workstreams/store.ts\<close>: the store of workstreams.  A workstream
  has a record file named by its random identifier and a claim file named by its human name; the
  record decides, the claim is an index.  The operations run under the directory lock, so a model
  operation is one uninterrupted action; a crash leaves one of the states of its trace.

  A parsed record is the list of its properties, as \<open>JSON.parse\<close> gives it: the code returns the
  parsed object itself, unknown properties included.
\<close>

section \<open>Data\<close>

definition WORKSTREAM_SCHEMA :: jstr where
  "WORKSTREAM_SCHEMA = js ''barbaro.workstream.v1''"

definition MAX_RECORD_BYTES :: int where
  "MAX_RECORD_BYTES = 16 * 1024"

definition MAX_CLAIM_BYTES :: int where
  "MAX_CLAIM_BYTES = 1024"

datatype workstream_status = Open | Completed

fun status_name :: "workstream_status \<Rightarrow> jstr" where
  "status_name Open = js ''open''"
| "status_name Completed = js ''completed''"

datatype workstream_creator = SessionCreator jstr jstr | CliCreator

type_synonym workstream = "(jstr \<times> jsval) list"

text \<open>\<open>WORKSTREAM_NAME_PATTERN\<close>: \<open>/^[a-z0-9](?:[a-z0-9-]{0,62}[a-z0-9])?$/\<close>\<close>

definition slug_unit :: "16 word \<Rightarrow> bool" where
  "slug_unit u \<longleftrightarrow> is_lower u \<or> is_digit u"

definition isWorkstreamName :: "jstr \<Rightarrow> bool" where
  "isWorkstreamName s \<longleftrightarrow> s \<noteq> [] \<and> length s \<le> 64 \<and> slug_unit (hd s) \<and> slug_unit (last s) \<and>
     list_all (\<lambda>u. slug_unit u \<or> u = 0x2D) s"

definition isWorkstreamId :: "jstr \<Rightarrow> bool" where
  "isWorkstreamId = workstream_id_pattern"

definition recordComponents :: "jstr \<Rightarrow> store_path" where
  "recordComponents workstreamId = [js ''workstreams'', workstreamId @ js ''.json'']"

definition claimComponents :: "jstr \<Rightarrow> store_path" where
  "claimComponents name = [js ''workstreams'', js ''names'', name]"

section \<open>Arguments\<close>

text \<open>White space and line terminators, which \<open>trim\<close> removes at both ends.\<close>

definition is_space :: "16 word \<Rightarrow> bool" where
  "is_space u \<longleftrightarrow> u \<in> {0x09, 0x0A, 0x0B, 0x0C, 0x0D, 0x20, 0xA0, 0x1680, 0x2028, 0x2029, 0x202F,
     0x205F, 0x3000, 0xFEFF} \<or> (0x2000 \<le> u \<and> u \<le> 0x200A)"

definition trim :: "jstr \<Rightarrow> jstr" where
  "trim s = rev (dropWhile is_space (rev (dropWhile is_space s)))"

definition normalizeTitle :: "jstr option \<Rightarrow> jstr option result" where
  "normalizeTitle title =
     (case title of None \<Rightarrow> Inr None
      | Some t \<Rightarrow>
          if trim t = [] then Inr None
          else if byte_length (trim t) > 512 then Inl TypeError
          else Inr (Some (trim t)))"

definition validateCreator :: "workstream_creator \<Rightarrow> unit result" where
  "validateCreator creator =
     (case creator of CliCreator \<Rightarrow> Inr ()
      | SessionCreator provider session \<Rightarrow>
          if \<not> provider_pattern provider then Inl TypeError
          else if \<not> session_id_pattern session then Inl TypeError
          else Inr ())"

fun creator_json :: "workstream_creator \<Rightarrow> jsval" where
  "creator_json CliCreator = JObj [(js ''kind'', JStr (js ''cli''))]"
| "creator_json (SessionCreator provider session) =
     JObj [(js ''provider'', JStr provider), (js ''session_id'', JStr session)]"

section \<open>Parsing\<close>

definition isCreator :: "jsval \<Rightarrow> bool" where
  "isCreator v =
     (case as_object v of None \<Rightarrow> False
      | Some ps \<Rightarrow>
          if jget ps ''kind'' = JStr (js ''cli'') then length ps = 1
          else as_pattern provider_pattern (jget ps ''provider'') \<noteq> None \<and>
               as_pattern session_id_pattern (jget ps ''session_id'') \<noteq> None)"

definition is_status :: "jsval \<Rightarrow> bool" where
  "is_status v \<longleftrightarrow> v = JStr (status_name Open) \<or> v = JStr (status_name Completed)"

definition is_date :: "jsval \<Rightarrow> bool" where
  "is_date v = (case as_string v of None \<Rightarrow> False | Some s \<Rightarrow> date_parse s \<noteq> None)"

definition workstream_valid :: "jstr option \<Rightarrow> workstream \<Rightarrow> bool" where
  "workstream_valid expectedId ps \<longleftrightarrow>
     as_pattern isWorkstreamId (jget ps ''workstream_id'') \<noteq> None \<and>
     (case expectedId of None \<Rightarrow> True | Some i \<Rightarrow> jget ps ''workstream_id'' = JStr i) \<and>
     as_pattern isWorkstreamName (jget ps ''name'') \<noteq> None \<and>
     (absent ps ''title'' \<or> as_string (jget ps ''title'') \<noteq> None) \<and>
     is_status (jget ps ''status'') \<and>
     is_date (jget ps ''created_at'') \<and>
     is_date (jget ps ''updated_at'') \<and>
     as_positive (jget ps ''revision'') \<noteq> None \<and>
     isCreator (jget ps ''created_by'')"

definition parseWorkstream :: "json_file \<Rightarrow> jstr option \<Rightarrow> workstream result" where
  "parseWorkstream file expectedId =
     (case jf_json file of
        None \<Rightarrow> Inl SyntaxError
      | Some v \<Rightarrow>
          (case as_object v of
             None \<Rightarrow> Inl TypeError
           | Some ps \<Rightarrow>
               if jget ps ''schema'' \<noteq> JStr WORKSTREAM_SCHEMA then Inl TypeError
               else if workstream_valid expectedId ps then Inr ps
               else Inl TypeError))"

section \<open>Reading\<close>

definition get :: "jstr \<Rightarrow> store \<Rightarrow> workstream option result" where
  "get workstreamId st =
     (if \<not> isWorkstreamId workstreamId then Inl TypeError
      else (case readUtf8File (recordComponents workstreamId) MAX_RECORD_BYTES st of
          Inl e \<Rightarrow> Inl e
        | Inr None \<Rightarrow> Inr None
        | Inr (Some f) \<Rightarrow> map_sum id Some (parseWorkstream f (Some workstreamId))))"

text \<open>The identifier a claim points to.\<close>

definition claimed :: "json_file \<Rightarrow> jstr option" where
  "claimed f =
     (case jf_json f of None \<Rightarrow> None
      | Some v \<Rightarrow> (case as_object v of None \<Rightarrow> None
          | Some ps \<Rightarrow> as_pattern isWorkstreamId (jget ps ''workstream_id'')))"

text \<open>A claim binds a name to a record exactly as long as that record still says so.\<close>

definition named :: "jstr \<Rightarrow> workstream option result \<Rightarrow> workstream option" where
  "named name found =
     (case found of
        Inl _ \<Rightarrow> None
      | Inr None \<Rightarrow> None
      | Inr (Some record) \<Rightarrow> if jget record ''name'' = JStr name then Some record else None)"

definition resolveName :: "jstr \<Rightarrow> store \<Rightarrow> workstream option result" where
  "resolveName name st =
     (case readUtf8File (claimComponents name) MAX_CLAIM_BYTES st of
        Inl e \<Rightarrow> Inl e
      | Inr None \<Rightarrow> Inr None
      | Inr (Some f) \<Rightarrow>
          (case claimed f of
             None \<Rightarrow> Inr None
           | Some workstreamId \<Rightarrow> Inr (named name (get workstreamId st))))"

definition resolve :: "jstr \<Rightarrow> store \<Rightarrow> workstream option result" where
  "resolve reference st =
     (if isWorkstreamId reference then get reference st
      else if \<not> isWorkstreamName reference then Inr None
      else resolveName reference st)"

text \<open>
  \<open>list\<close>: \<open>entries\<close> are the names \<open>readdir\<close> finds in the directory, in any order.  A record that
  cannot be read or parsed is left out (and reported to \<open>onInvalid\<close>).
\<close>

definition record_filename :: "jstr \<Rightarrow> jstr option" where
  "record_filename n =
     (let i = take (length n - 5) n in
      if isWorkstreamId i \<and> n = i @ js ''.json'' then Some i else None)"

definition listed :: "store \<Rightarrow> jstr \<Rightarrow> workstream list" where
  "listed st n =
     (case record_filename n of
        None \<Rightarrow> []
      | Some i \<Rightarrow>
          (case st (recordComponents i) of
             Some (JsonFile _) \<Rightarrow>
               (case readUtf8File (recordComponents i) MAX_RECORD_BYTES st of
                  Inr (Some f) \<Rightarrow> (case parseWorkstream f (Some i) of Inr r \<Rightarrow> [r] | Inl _ \<Rightarrow> [])
                | _ \<Rightarrow> [])
           | _ \<Rightarrow> []))"

definition text_of :: "jsval \<Rightarrow> jstr" where
  "text_of v = (case as_string v of Some s \<Rightarrow> s | None \<Rightarrow> [])"

definition list_order :: "workstream \<Rightarrow> jstr \<times> jstr" where
  "list_order r = (text_of (jget r ''name''), text_of (jget r ''workstream_id''))"

definition list_workstreams :: "jstr list \<Rightarrow> store \<Rightarrow> workstream list result" where
  "list_workstreams entries st =
     (case verifyDirectory [js ''workstreams''] st of
        Inl e \<Rightarrow> Inl e
      | Inr present \<Rightarrow>
          Inr (if present then sort_key list_order (concat (map (listed st) (sort entries))) else []))"

section \<open>Writing\<close>

definition claim_json :: "jstr \<Rightarrow> jsval" where
  "claim_json workstreamId = JObj [(js ''workstream_id'', JStr workstreamId)]"

definition new_record ::
  "jstr \<Rightarrow> jstr \<Rightarrow> jstr option \<Rightarrow> workstream_creator \<Rightarrow> int \<Rightarrow> workstream" where
  "new_record workstreamId name title creator now =
     [(js ''schema'', JStr WORKSTREAM_SCHEMA),
      (js ''workstream_id'', JStr workstreamId),
      (js ''name'', JStr name)] @
     opt_prop ''title'' (map_option JStr title) @
     [(js ''status'', JStr (status_name Open)),
      (js ''created_at'', JStr (to_iso now)),
      (js ''created_by'', creator_json creator),
      (js ''updated_at'', JStr (to_iso now)),
      (js ''revision'', JNum (NInt 1))]"

text \<open>
  \<open>workstreamId\<close> is the random identifier the code draws, the nonces are those of the two
  temporary files, and \<open>now\<close> is a time value in milliseconds.
\<close>

record create_options =
  co_name :: jstr
  co_title :: "jstr option"
  co_createdBy :: workstream_creator
  co_now :: int

definition create ::
  "jstr \<Rightarrow> jstr \<Rightarrow> jstr \<Rightarrow> create_options \<Rightarrow> workstream action" where
  "create nonce1 nonce2 workstreamId options =
     (if \<not> isWorkstreamName (co_name options) then raise InvalidWorkstreamNameError
      else
        andThen (observe (\<lambda>_. validateCreator (co_createdBy options))) (\<lambda>_.
        andThen (observe (\<lambda>_. normalizeTitle (co_title options))) (\<lambda>title.
        if \<not> valid_time (co_now options) then raise TypeError
        else
          andThen (observe (resolveName (co_name options))) (\<lambda>existing.
          case existing of
            Some _ \<Rightarrow> raise WorkstreamNameTakenError
          | None \<Rightarrow>
              andThen (writeJsonFileAtomically nonce1 (claimComponents (co_name options))
                         (claim_json workstreamId)) (\<lambda>_.
              andThen (writeJsonFileAtomically nonce2 (recordComponents workstreamId)
                         (JObj (new_record workstreamId (co_name options) title
                            (co_createdBy options) (co_now options)))) (\<lambda>_.
              return (new_record workstreamId (co_name options) title
                        (co_createdBy options) (co_now options))))))))"

text \<open>\<open>{ ...current, status, updated_at, revision }\<close>: overridden in place, in the order of the keys.\<close>

definition revised :: "workstream \<Rightarrow> workstream_status \<Rightarrow> int \<Rightarrow> workstream" where
  "revised current status now =
     AList.update (js ''revision'')
       (JNum (NInt ((case as_safe_int (jget current ''revision'') of Some n \<Rightarrow> n | None \<Rightarrow> 0) + 1)))
       (AList.update (js ''updated_at'') (JStr (to_iso now))
         (AList.update (js ''status'') (JStr (status_name status)) current))"

definition setStatus ::
  "jstr \<Rightarrow> jstr \<Rightarrow> workstream_status \<Rightarrow> int \<Rightarrow> workstream action" where
  "setStatus nonce reference status now =
     (if \<not> valid_time now then raise TypeError
      else
        andThen (observe (resolve reference)) (\<lambda>found.
        case found of
          None \<Rightarrow> raise WorkstreamNotFoundError
        | Some current \<Rightarrow>
            if jget current ''status'' = JStr (status_name status) then return current
            else
              andThen (writeJsonFileAtomically nonce
                         (recordComponents (text_of (jget current ''workstream_id'')))
                         (JObj (revised current status now))) (\<lambda>_.
              return (revised current status now))))"

definition complete :: "jstr \<Rightarrow> jstr \<Rightarrow> int \<Rightarrow> workstream action" where
  "complete nonce reference now = setStatus nonce reference Completed now"

definition reopen :: "jstr \<Rightarrow> jstr \<Rightarrow> int \<Rightarrow> workstream action" where
  "reopen nonce reference now = setStatus nonce reference Open now"

end
