(* ===== verification/Workstream_Store.thy ===== *)
theory Workstream_Store
  imports Workstreams
begin

text \<open>
  What the operations on workstreams keep: a name resolves to at most one record, a new name never
  disturbs another, and a crash leaves the name either unresolved or resolved to the complete new
  record.
\<close>

section \<open>Paths\<close>

lemma slug_not_special: "slug_unit u \<Longrightarrow> u \<noteq> 0x2E \<and> u \<noteq> 0x2F \<and> u \<noteq> 0x5C \<and> u \<noteq> 0"
  by (auto simp: slug_unit_def is_lower_def is_digit_def)

lemma name_units: "isWorkstreamName n \<Longrightarrow> u \<in> set n \<Longrightarrow> u \<noteq> 0x2E \<and> u \<noteq> 0x2F \<and> u \<noteq> 0x5C \<and> u \<noteq> 0"
  using slug_not_special by (fastforce simp: isWorkstreamName_def list_all_iff)

lemma hex_units: "is_hex u \<Longrightarrow> u \<noteq> 0x2E \<and> u \<noteq> 0x2F \<and> u \<noteq> 0x5C \<and> u \<noteq> 0"
  by (auto simp: is_hex_def is_digit_def)

lemma id_shape: "isWorkstreamId i \<Longrightarrow> \<exists>h. i = js ''ws_'' @ h \<and> length h = 32 \<and> list_all is_hex h"
proof -
  assume "isWorkstreamId i"
  then have i: "take (length ''ws_'') i = js ''ws_''" "length i = length ''ws_'' + 32"
    "list_all is_hex (drop (length ''ws_'') i)"
    unfolding isWorkstreamId_def workstream_id_pattern_def id_pattern_def by blast+
  then have "i = js ''ws_'' @ drop (length ''ws_'') i" by (metis append_take_drop_id)
  moreover have "length (drop (length ''ws_'') i) = 32" using i(2) by simp
  ultimately show ?thesis using i(3) by blast
qed

lemma id_units: "isWorkstreamId i \<Longrightarrow> u \<in> set i \<Longrightarrow> u \<noteq> 0x2E \<and> u \<noteq> 0x2F \<and> u \<noteq> 0x5C \<and> u \<noteq> 0"
proof -
  assume i: "isWorkstreamId i" and u: "u \<in> set i"
  obtain h where "i = js ''ws_'' @ h" "list_all is_hex h" using id_shape [OF i] by blast
  then show ?thesis using u hex_units by (auto simp: js_def list_all_iff)
qed

lemma name_component: "isWorkstreamName n \<Longrightarrow> validateComponent n"
  using name_units [of n] by (fastforce simp: validateComponent_def isWorkstreamName_def js_def)

lemma id_component: "isWorkstreamId i \<Longrightarrow> validateComponent (i @ js ''.json'')"
  using id_units [of i] by (auto simp: validateComponent_def js_def)

lemma usable_claim: "isWorkstreamName n \<Longrightarrow> usable_path (claimComponents n)"
  using name_component by (simp add: usable_path_def claimComponents_def) (simp add: validateComponent_def js_def)

lemma usable_record: "isWorkstreamId i \<Longrightarrow> usable_path (recordComponents i)"
  using id_component by (simp add: usable_path_def recordComponents_def) (simp add: validateComponent_def js_def)

lemma id_ne_names: "isWorkstreamId i \<Longrightarrow> i @ js ''.json'' \<noteq> js ''names''"
  by (auto simp: isWorkstreamId_def workstream_id_pattern_def id_pattern_def dest: arg_cong [of _ _ length])

text \<open>A temporary name starts with a dot; a record or claim name never does.\<close>

lemma temporary_hd: "temporaryName x nonce = 0x2E # x @ js ''.tmp-'' @ nonce"
  by (simp add: temporaryName_def js_def)

lemma name_not_temporary: "isWorkstreamName n \<Longrightarrow> n \<noteq> temporaryName x nonce"
  using name_units [of n "0x2E"] by (auto simp: temporary_hd)

lemma id_not_temporary: "isWorkstreamId i \<Longrightarrow> i @ js ''.json'' \<noteq> temporaryName x nonce"
  by (drule id_shape) (auto simp: temporary_hd js_def)

lemma names_not_temporary: "js ''names'' \<noteq> temporaryName x nonce"
  by (simp add: temporary_hd js_def)

definition claim_write :: "jstr \<Rightarrow> jstr \<Rightarrow> jstr \<Rightarrow> file_write" where
  "claim_write nonce name i =
     \<lparr> fw_nonce = nonce, fw_path = claimComponents name, fw_value = claim_json i \<rparr>"

definition record_write :: "jstr \<Rightarrow> jstr \<Rightarrow> workstream \<Rightarrow> file_write" where
  "record_write nonce i r =
     \<lparr> fw_nonce = nonce, fw_path = recordComponents i, fw_value = JObj r \<rparr>"

lemmas workstream_writes = claim_write_def record_write_def

lemma claim_away:
  "isWorkstreamName m \<Longrightarrow> m \<noteq> n \<Longrightarrow> file_away (claim_write nonce n i) (claimComponents m)"
  "isWorkstreamId j \<Longrightarrow> file_away (claim_write nonce n i) (recordComponents j)"
  using name_not_temporary [of m n nonce] id_ne_names [of j]
  by (auto simp: file_away_def apart_def workstream_writes claimComponents_def recordComponents_def
      temporaryPath_def)

lemma record_away:
  "isWorkstreamId j \<Longrightarrow> j \<noteq> i \<Longrightarrow> file_away (record_write nonce i r) (recordComponents j)"
  "isWorkstreamId i \<Longrightarrow> file_away (record_write nonce i r) (claimComponents m)"
  using id_not_temporary [of j "i @ js ''.json''" nonce] names_not_temporary [of "i @ js ''.json''" nonce]
    id_ne_names [of i]
  by (auto simp: file_away_def apart_def workstream_writes claimComponents_def recordComponents_def
      temporaryPath_def)

section \<open>Resolution through the files\<close>

lemma get_by_file:
  "get_file (recordComponents i) s = get_file (recordComponents i) st \<Longrightarrow> get i s = get i st"
  by (simp add: get_def get_file_def fun_eq_iff)

lemma resolveName_by_file:
  assumes "get_file (claimComponents n) s = get_file (claimComponents n) st"
    "\<And>i. named n (get i s) = named n (get i st)"
  shows "resolveName n s = resolveName n st"
proof -
  have "readUtf8File (claimComponents n) m s = readUtf8File (claimComponents n) m st" for m
    using assms(1) by (simp add: get_file_def fun_eq_iff)
  with assms(2) show ?thesis by (simp add: resolveName_def split: sum.split option.split)
qed


section \<open>The record of a new workstream\<close>

lemma file_of_JObj: "file_of (JObj ps) = Inr f \<Longrightarrow> jf_json f = Some (JObj (canon_props ps))"
  by (auto simp: file_of_def split: sum.splits)

definition creator_ok :: "workstream_creator \<Rightarrow> bool" where
  "creator_ok c = (case c of CliCreator \<Rightarrow> True
     | SessionCreator p s \<Rightarrow> provider_pattern p \<and> session_id_pattern s)"

lemma validateCreator_Inr: "validateCreator c = Inr u \<longleftrightarrow> creator_ok c"
  by (auto simp: validateCreator_def creator_ok_def split: workstream_creator.split)

lemma isCreator_canon: "creator_ok c \<Longrightarrow> isCreator (canon (creator_json c))"
proof (cases c)
  case CliCreator
  then show ?thesis by (simp add: isCreator_def canon_props_def canon.simps jget_def)
next
  case (SessionCreator p s)
  moreover assume "creator_ok c"
  ultimately show ?thesis
    by (simp add: isCreator_def jget_canon_props canon.simps creator_ok_def)
qed

lemma date_parse_iso: "valid_time t \<Longrightarrow> date_parse (to_iso t) = Some t"
  by (rule date_parse_to_iso)

lemma distinct_new_record: "distinct (map fst (new_record i n t c w))"
  by (auto simp: new_record_def opt_prop_def split: option.split)

lemma jget_new_record [simp]:
  "jget (new_record i n t c w) ''schema'' = JStr WORKSTREAM_SCHEMA"
  "jget (new_record i n t c w) ''workstream_id'' = JStr i"
  "jget (new_record i n t c w) ''name'' = JStr n"
  "jget (new_record i n t c w) ''title'' = (case t of None \<Rightarrow> JUndef | Some x \<Rightarrow> JStr x)"
  "jget (new_record i n t c w) ''status'' = JStr (status_name Open)"
  "jget (new_record i n t c w) ''created_at'' = JStr (to_iso w)"
  "jget (new_record i n t c w) ''updated_at'' = JStr (to_iso w)"
  "jget (new_record i n t c w) ''created_by'' = creator_json c"
  "jget (new_record i n t c w) ''revision'' = JNum (NInt 1)"
  by (cases t; simp add: new_record_def opt_prop_def)+

lemma new_record_valid:
  assumes "isWorkstreamId i" "isWorkstreamName n" "creator_ok c" "valid_time w"
  shows "workstream_valid (Some i) (canon_props (new_record i n t c w))"
  using assms isCreator_canon [OF assms(3)]
  by (cases t) (simp_all add: workstream_valid_def jget_canon_props distinct_new_record canon.simps
      is_status_def is_date_def date_parse_iso absent_def as_positive_Some safe_pos_def safe_int_def
      max_safe_def as_positive_def)

lemma parse_new_record:
  assumes "isWorkstreamId i" "isWorkstreamName n" "creator_ok c" "valid_time w"
    "file_of (JObj (new_record i n t c w)) = Inr f"
  shows "parseWorkstream f (Some i) = Inr (canon_props (new_record i n t c w))"
  using file_of_JObj [OF assms(5)] new_record_valid [OF assms(1-4)]
  by (simp add: parseWorkstream_def jget_canon_props distinct_new_record canon.simps)

lemma claimed_claim:
  assumes "isWorkstreamId i" "file_of (claim_json i) = Inr f"
  shows "claimed f = Some i"
  using assms(1) file_of_JObj [OF assms(2) [unfolded claim_json_def]]
  by (simp add: claimed_def jget_canon_props canon.simps)

section \<open>Sizes\<close>

definition modest_creator :: "workstream_creator \<Rightarrow> bool" where
  "modest_creator c = (case c of CliCreator \<Rightarrow> True | SessionCreator p s \<Rightarrow> length p \<le> 64)"

lemma id_length: "isWorkstreamId i \<Longrightarrow> length i = 35"
  using id_shape [of i] by auto

lemma claim_fits:
  "isWorkstreamId i \<Longrightarrow> file_of (claim_json i) = Inr f \<Longrightarrow> int (jf_size f) \<le> MAX_CLAIM_BYTES"
  using file_of_size [of "claim_json i" f] id_length [of i]
  by (simp add: claim_json_def MAX_CLAIM_BYTES_def)

lemma creator_bound:
  "creator_ok c \<Longrightarrow> modest_creator c \<Longrightarrow> text_bound (creator_json c) \<le> 740"
  using id_pattern_length [of "''ses_''" 32]
  by (cases c) (auto simp: creator_ok_def modest_creator_def session_id_pattern_def)

lemma record_fits:
  assumes "isWorkstreamId i" "isWorkstreamName n" "creator_ok c" "modest_creator c"
    "\<forall>x. t = Some x \<longrightarrow> byte_length x \<le> 512" "file_of (JObj (new_record i n t c w)) = Inr f"
  shows "int (jf_size f) \<le> MAX_RECORD_BYTES"
proof -
  have "length n \<le> 64" using assms(2) by (simp add: isWorkstreamName_def)
  moreover have "length x \<le> 512" if "t = Some x" for x
    using assms(5) that length_le_byte_length [of x] by auto
  moreover have "length (decimal 1) = 1" by (simp add: decimal_def decimal_nat.simps)
  ultimately have "text_bound (JObj (new_record i n t c w)) \<le> 5400"
    using id_length [OF assms(1)] length_to_iso [of w] creator_bound [OF assms(3,4)]
    by (cases t) (auto simp: new_record_def opt_prop_def WORKSTREAM_SCHEMA_def)
  then show ?thesis using file_of_size [OF assms(6)] by (simp add: MAX_RECORD_BYTES_def)
qed


section \<open>Creating\<close>

lemma andThen_observe:
  "andThen (observe f) g st = (case f st of Inl e \<Rightarrow> ([], Inl e) | Inr v \<Rightarrow> g v st)"
  by (simp add: andThen_def observe_def split: sum.split)

lemma put_claim: "put_file (claim_write nonce n i) = writeJsonFileAtomically nonce (claimComponents n) (claim_json i)"
  by (simp add: put_file_def claim_write_def fun_eq_iff)

lemma put_record: "put_file (record_write nonce i r) = writeJsonFileAtomically nonce (recordComponents i) (JObj r)"
  by (simp add: put_file_def record_write_def fun_eq_iff)

text \<open>What \<open>create\<close> has checked before it writes, and the two writes it then makes.\<close>

definition create_ready :: "create_options \<Rightarrow> jstr option \<Rightarrow> store \<Rightarrow> bool" where
  "create_ready opts title st \<longleftrightarrow> isWorkstreamName (co_name opts) \<and> creator_ok (co_createdBy opts) \<and>
     normalizeTitle (co_title opts) = Inr title \<and> valid_time (co_now opts) \<and>
     resolveName (co_name opts) st = Inr None"

definition record_of :: "jstr \<Rightarrow> create_options \<Rightarrow> jstr option \<Rightarrow> workstream" where
  "record_of i opts title = new_record i (co_name opts) title (co_createdBy opts) (co_now opts)"

definition create_writes :: "jstr \<Rightarrow> jstr \<Rightarrow> jstr \<Rightarrow> create_options \<Rightarrow> jstr option \<Rightarrow> file_write list" where
  "create_writes n1 n2 i opts title =
     [claim_write n1 (co_name opts) i, record_write n2 i (record_of i opts title)]"

lemma create_cases:
  assumes "create n1 n2 i opts st = (tr, res)"
  obtains (refused) e where "tr = []" "res = Inl e"
  | (ready) title where "create_ready opts title st"
      "set tr \<subseteq> set (files.passes (create_writes n1 n2 i opts title) st)"
      "\<And>r. res = Inr r \<Longrightarrow> r = record_of i opts title \<and>
        snd (put_file (claim_write n1 (co_name opts) i) st) = Inr () \<and>
        snd (put_file (record_write n2 i (record_of i opts title))
          (last (st # fst (put_file (claim_write n1 (co_name opts) i) st)))) = Inr () \<and>
        last (st # tr) = files.run (create_writes n1 n2 i opts title) st"
proof (cases "\<exists>title. create_ready opts title st")
  case True
  then obtain title where t: "create_ready opts title st" by blast
  then have v: "validateCreator (co_createdBy opts) = Inr ()"
    by (simp add: validateCreator_Inr create_ready_def)
  from t have eq: "create n1 n2 i opts st =
      andThen (put_file (claim_write n1 (co_name opts) i)) (\<lambda>_.
      andThen (put_file (record_write n2 i (record_of i opts title))) (\<lambda>_.
      return (record_of i opts title))) st"
    by (simp add: create_def create_ready_def andThen_observe put_claim put_record record_of_def v)
  note two = two_puts [OF assms [unfolded eq]]
  show ?thesis
    by (rule ready [OF t]) (use two in \<open>simp_all add: create_writes_def\<close>)
next
  case False
  have "\<exists>e. create n1 n2 i opts st = ([], Inl e)"
    using False validateCreator_Inr [of "co_createdBy opts" "()"]
    by (cases "validateCreator (co_createdBy opts)"; cases "normalizeTitle (co_title opts)";
        cases "resolveName (co_name opts) st"; cases "resolveName (co_name opts) st = Inr None")
      (auto simp: create_def create_ready_def andThen_observe raise_def split: option.splits)
  then show ?thesis using assms refused by auto
qed


section \<open>What the writes of a creation change\<close>

lemma away_irrefl: "\<not> file_away w (fw_path w)"
  by (simp add: file_away_def apart_def parallel_def)

lemma passes_away:
  assumes "tree st" "\<forall>w\<in>set ws. file_away w q" "s \<in> set (files.passes ws st)"
  shows "get_file q s = get_file q st"
  using files.passes_values [of st ws q s] assms away_irrefl by (auto simp: files.settled_def)

lemma passes_target:
  assumes "tree st" "\<forall>w\<in>set ws. fw_path w = q \<or> file_away w q" "s \<in> set (files.passes ws st)"
  shows "tree s \<and> (get_file q s = get_file q st \<or> (\<exists>w\<in>set ws. fw_path w = q \<and> new_file w = Some (get_file q s)))"
  using files.passes_values [of st ws q s] assms by (auto simp: files.settled_def)

lemma new_file_read:
  "new_file w = Some (get_file q s) \<Longrightarrow>
     \<exists>f. file_of (fw_value w) = Inr f \<and> (\<forall>m. safe_nonneg m \<longrightarrow> readUtf8File q m s = sized m f)"
proof -
  assume new: "new_file w = Some (get_file q s)"
  then obtain f where f: "file_of (fw_value w) = Inr f" by (auto simp: new_file_def split: sum.splits)
  with new have "(\<lambda>m. if safe_nonneg m then sized m f else Inl TypeError) = get_file q s"
    by (simp add: new_file_def)
  then have "readUtf8File q m s = sized m f" if "safe_nonneg m" for m
    using that unfolding get_file_def by metis
  with f show ?thesis by blast
qed

lemma bounds_safe [simp]: "safe_nonneg MAX_RECORD_BYTES" "safe_nonneg MAX_CLAIM_BYTES"
  by (simp_all add: MAX_RECORD_BYTES_def MAX_CLAIM_BYTES_def safe_nonneg_def safe_int_def max_safe_def)

text \<open>The conditions under which a created record is certain to be readable again.\<close>

definition creatable :: "jstr \<Rightarrow> create_options \<Rightarrow> bool" where
  "creatable i opts \<longleftrightarrow> isWorkstreamId i \<and> modest_creator (co_createdBy opts)"

lemma ready_record_fits:
  assumes "create_ready opts title st" "creatable i opts"
    "file_of (JObj (record_of i opts title)) = Inr f"
  shows "int (jf_size f) \<le> MAX_RECORD_BYTES" "parseWorkstream f (Some i) = Inr (canon_props (record_of i opts title))"
proof -
  have "\<forall>x. title = Some x \<longrightarrow> byte_length x \<le> 512"
    using assms(1) by (auto simp: create_ready_def normalizeTitle_def split: option.splits if_splits)
  then show "int (jf_size f) \<le> MAX_RECORD_BYTES"
    using assms record_fits [of i "co_name opts" "co_createdBy opts" title "co_now opts" f]
    by (simp add: create_ready_def creatable_def record_of_def)
  show "parseWorkstream f (Some i) = Inr (canon_props (record_of i opts title))"
    using assms parse_new_record [of i "co_name opts" "co_createdBy opts" "co_now opts" title f]
    by (simp add: create_ready_def creatable_def record_of_def)
qed

lemma get_new_record:
  assumes "create_ready opts title st" "creatable i opts"
    "new_file (record_write n2 i (record_of i opts title)) = Some (get_file (recordComponents i) s)"
  shows "get i s = Inr (Some (canon_props (record_of i opts title)))"
proof -
  obtain f where f: "file_of (JObj (record_of i opts title)) = Inr f"
    "\<forall>m. safe_nonneg m \<longrightarrow> readUtf8File (recordComponents i) m s = sized m f"
    using new_file_read [OF assms(3)] by (auto simp: record_write_def)
  have i: "isWorkstreamId i" using assms(2) by (simp add: creatable_def)
  from ready_record_fits [OF assms(1,2) f(1)] f(2) i show ?thesis
    by (simp add: get_def sized_def)
qed

lemma claim_points:
  assumes "isWorkstreamId i" "new_file (claim_write n1 n i) = Some (get_file (claimComponents n) s)"
  shows "resolveName n s = Inr (named n (get i s))"
proof -
  obtain f where f: "file_of (claim_json i) = Inr f"
    "\<forall>m. safe_nonneg m \<longrightarrow> readUtf8File (claimComponents n) m s = sized m f"
    using new_file_read [OF assms(2)] by (auto simp: claim_write_def)
  from f(2) claim_fits [OF assms(1) f(1)] claimed_claim [OF assms(1) f(1)] show ?thesis
    by (simp add: resolveName_def sized_def)
qed

lemma jget_record_name: "jget (canon_props (record_of i opts title)) ''name'' = JStr (co_name opts)"
  by (simp add: record_of_def jget_canon_props distinct_new_record canon.simps)

lemma create_pass:
  assumes "tree st" "create_ready opts title st" "creatable i opts" "get i st = Inr None"
    "s \<in> set (files.passes (create_writes n1 n2 i opts title) st)"
  shows "tree s"
    "isWorkstreamId j \<Longrightarrow> j \<noteq> i \<Longrightarrow> get j s = get j st"
    "get i s = Inr None \<or> get i s = Inr (Some (canon_props (record_of i opts title)))"
    "isWorkstreamName m \<Longrightarrow> m \<noteq> co_name opts \<Longrightarrow> resolveName m s = resolveName m st"
    "resolveName (co_name opts) s \<in> {Inr None, Inr (Some (canon_props (record_of i opts title)))}"
proof -
  let ?n = "co_name opts" and ?ws = "create_writes n1 n2 i opts title"
  have i: "isWorkstreamId i" and n: "isWorkstreamName ?n"
    using assms(2,3) by (simp_all add: creatable_def create_ready_def)
  have ws: "set ?ws = {claim_write n1 ?n i, record_write n2 i (record_of i opts title)}"
    by (simp add: create_writes_def)
  have paths: "fw_path (claim_write n1 ?n i) = claimComponents ?n"
    "fw_path (record_write n2 i r) = recordComponents i" for r
    by (simp_all add: workstream_writes)
  have ne: "recordComponents i \<noteq> claimComponents ?n" by (simp add: recordComponents_def claimComponents_def)
  have rec: "get_file (recordComponents i) s = get_file (recordComponents i) st \<or>
      new_file (record_write n2 i (record_of i opts title)) = Some (get_file (recordComponents i) s)"
    and tree: "tree s"
    using passes_target [OF assms(1) _ assms(5), of "recordComponents i"] ws paths claim_away(2) [OF i] ne
    by auto
  show "tree s" by (fact tree)
  show other: "get j s = get j st" if "isWorkstreamId j" "j \<noteq> i" for j
    using that passes_away [OF assms(1) _ assms(5), of "recordComponents j"] ws claim_away(2) record_away(1)
    by (intro get_by_file) auto
  show get_i: "get i s = Inr None \<or> get i s = Inr (Some (canon_props (record_of i opts title)))"
    using rec get_by_file [of i s st] get_new_record [OF assms(2,3)] assms(4) by auto
  have same: "named m (get j s) = named m (get j st)" if "m \<noteq> ?n" for m j
  proof (cases "j = i")
    case True
    with get_i assms(4) that show ?thesis by (auto simp: named_def jget_record_name)
  next
    case False
    then show ?thesis using other [of j] by (cases "isWorkstreamId j") (simp_all add: get_def)
  qed
  show "resolveName m s = resolveName m st" if "isWorkstreamName m" "m \<noteq> ?n" for m
    using that passes_away [OF assms(1) _ assms(5), of "claimComponents m"] ws
      claim_away(1) [OF that] record_away(2) [OF i] same
    by (intro resolveName_by_file) auto
  have "get_file (claimComponents ?n) s = get_file (claimComponents ?n) st \<or>
      new_file (claim_write n1 ?n i) = Some (get_file (claimComponents ?n) s)"
    using passes_target [OF assms(1) _ assms(5), of "claimComponents ?n"] ws paths record_away(2) [OF i] ne
    by auto
  then show "resolveName ?n s \<in> {Inr None, Inr (Some (canon_props (record_of i opts title)))}"
  proof
    assume "new_file (claim_write n1 ?n i) = Some (get_file (claimComponents ?n) s)"
    from claim_points [OF i this] get_i show ?thesis by (auto simp: named_def jget_record_name)
  next
    assume old: "get_file (claimComponents ?n) s = get_file (claimComponents ?n) st"
    have eq: "readUtf8File (claimComponents ?n) MAX_CLAIM_BYTES s = readUtf8File (claimComponents ?n) MAX_CLAIM_BYTES st"
      using old by (simp add: get_file_def fun_eq_iff)
    have none: "resolveName ?n st = Inr None" using assms(2) by (simp add: create_ready_def)
    have step: "named ?n (get j s) = named ?n (get j st) \<or> named ?n (get j s) = Some (canon_props (record_of i opts title))" for j
      using other [of j] get_i assms(4)
      by (cases "j = i"; cases "isWorkstreamId j") (auto simp: named_def jget_record_name get_def)
    show ?thesis
    proof (cases "\<exists>f j. readUtf8File (claimComponents ?n) MAX_CLAIM_BYTES st = Inr (Some f) \<and> claimed f = Some j")
      case True
      then obtain f j where fj: "readUtf8File (claimComponents ?n) MAX_CLAIM_BYTES st = Inr (Some f)"
        "claimed f = Some j" by blast
      then have "named ?n (get j st) = None" using none by (simp add: resolveName_def)
      with step [of j] show ?thesis using fj eq by (auto simp: resolveName_def)
    next
      case False
      then have "resolveName ?n s = resolveName ?n st"
        using eq by (auto simp: resolveName_def split: sum.split option.split)
      with none show ?thesis by simp
    qed
  qed
qed


section \<open>Creation as an update of the names\<close>

text \<open>The abstract store: what each name resolves to.\<close>

definition names_of :: "store \<Rightarrow> jstr \<Rightarrow> workstream option" where
  "names_of st n =
     (if isWorkstreamName n then case resolveName n st of Inr r \<Rightarrow> r | Inl _ \<Rightarrow> None else None)"

lemma create_success:
  assumes "tree st" "create_ready opts title st" "creatable i opts" "get i st = Inr None"
    "snd (put_file (claim_write n1 (co_name opts) i) st) = Inr ()"
    "snd (put_file (record_write n2 i (record_of i opts title))
      (last (st # fst (put_file (claim_write n1 (co_name opts) i) st)))) = Inr ()"
    "s = files.run (create_writes n1 n2 i opts title) st"
  shows "get i s = Inr (Some (canon_props (record_of i opts title)))"
    "resolveName (co_name opts) s = Inr (Some (canon_props (record_of i opts title)))"
    "s \<in> set (files.passes (create_writes n1 n2 i opts title) st)"
proof -
  let ?c = "claim_write n1 (co_name opts) i" and ?r = "record_write n2 i (record_of i opts title)"
  let ?mid = "last (st # fst (put_file ?c st))"
  have i: "isWorkstreamId i" using assms(3) by (simp add: creatable_def)
  have s: "s = last (?mid # fst (put_file ?r ?mid))" using assms(7) by (simp add: create_writes_def)
  have mid: "tree ?mid" using files.put_ok [OF assms(1)] .
  have paths: "fw_path ?c = claimComponents (co_name opts)" "fw_path ?r = recordComponents i"
    by (simp_all add: workstream_writes)
  have "new_file ?r = Some (get_file (recordComponents i) s)"
    using files.success [OF mid assms(6)] by (simp only: s paths)
  then show g: "get i s = Inr (Some (canon_props (record_of i opts title)))"
    using get_new_record [OF assms(2,3)] by blast
  have "new_file ?c = Some (get_file (claimComponents (co_name opts)) ?mid)"
    using files.success [OF assms(1,5)] by (simp only: paths)
  also have "get_file (claimComponents (co_name opts)) ?mid = get_file (claimComponents (co_name opts)) s"
    using files.put_elsewhere [OF mid record_away(2) [OF i]] by (simp only: s)
  finally show "resolveName (co_name opts) s = Inr (Some (canon_props (record_of i opts title)))"
    using claim_points [OF i] g by (simp add: named_def jget_record_name)
  have "files.passes (create_writes n1 n2 i opts title) st \<noteq> []"
  proof
    assume "files.passes (create_writes n1 n2 i opts title) st = []"
    then have "s = st" using assms(7) files.run_last by (metis last_ConsL)
    with g assms(4) show False by simp
  qed
  then show "s \<in> set (files.passes (create_writes n1 n2 i opts title) st)"
    unfolding assms(7) files.run_last by simp
qed


section \<open>Changing the status\<close>

text \<open>A record as its writer left it: distinct keys, in canonical form.\<close>

definition stored_record :: "workstream \<Rightarrow> bool" where
  "stored_record r \<longleftrightarrow> distinct (map fst r) \<and> canon_props r = r"

lemma stored_canon: "stored_record r \<Longrightarrow> canon (jget r key) = jget r key"
  using jget_canon_props [of r key] by (simp add: stored_record_def)

lemma get_found:
  assumes "get i st = Inr (Some cur)"
  shows "isWorkstreamId i" "jget cur ''schema'' = JStr WORKSTREAM_SCHEMA" "workstream_valid (Some i) cur"
    "jget cur ''workstream_id'' = JStr i"
  using assms
  by (auto simp: get_def parseWorkstream_def workstream_valid_def map_sum_def
      split: if_splits sum.splits option.splits)

lemma resolveName_found:
  assumes "resolveName n st = Inr (Some cur)"
  shows "\<exists>i. get i st = Inr (Some cur) \<and> jget cur ''name'' = JStr n"
  using assms by (auto simp: resolveName_def named_def split: sum.splits option.splits if_splits)

lemma resolve_found:
  assumes "resolve reference st = Inr (Some cur)"
  shows "\<exists>i. get i st = Inr (Some cur)"
  using assms resolveName_found by (auto simp: resolve_def split: if_splits)

definition revision_of :: "workstream \<Rightarrow> int" where
  "revision_of r = (case as_safe_int (jget r ''revision'') of Some n \<Rightarrow> n | None \<Rightarrow> 0)"

lemma jget_revised [simp]:
  "jget (revised cur status now) key =
     (if key = ''revision'' then JNum (NInt (revision_of cur + 1))
      else if key = ''updated_at'' then JStr (to_iso now)
      else if key = ''status'' then JStr (status_name status)
      else jget cur key)"
  by (simp add: revised_def revision_of_def)

lemma distinct_revised: "distinct (map fst cur) \<Longrightarrow> distinct (map fst (revised cur status now))"
  by (simp add: revised_def distinct_update)

lemma revised_valid:
  assumes "workstream_valid (Some i) cur" "stored_record cur" "valid_time now" "revision_of cur < max_safe"
  shows "workstream_valid (Some i) (canon_props (revised cur status now))"
proof -
  obtain n where "jget cur ''revision'' = JNum (NInt n)" "safe_pos n"
    using assms(1) by (auto simp: workstream_valid_def decoder_simps)
  then have rev: "revision_of cur = n" "as_positive (JNum (NInt (n + 1))) = Some (n + 1)"
    using assms(4) by (auto simp: revision_of_def safe_pos_def safe_int_def as_positive_Some max_safe_def)
  have "distinct (map fst (revised cur status now))"
    using assms(2) distinct_revised by (simp add: stored_record_def)
  then show ?thesis
    using assms(1,3) stored_canon [OF assms(2)] rev
    by (cases status) (auto simp: workstream_valid_def jget_canon_props canon.simps absent_def is_status_def
        is_date_def date_parse_iso split: if_splits)
qed

text \<open>A revised record that still fits the bound is read back.\<close>

definition record_fitting :: "workstream \<Rightarrow> bool" where
  "record_fitting r \<longleftrightarrow> (\<forall>f. file_of (JObj r) = Inr f \<longrightarrow> int (jf_size f) \<le> MAX_RECORD_BYTES)"

lemma get_revised:
  assumes "get i st = Inr (Some cur)" "stored_record cur" "valid_time now" "revision_of cur < max_safe"
    "record_fitting (revised cur status now)"
    "new_file (record_write nonce i (revised cur status now)) = Some (get_file (recordComponents i) s)"
  shows "get i s = Inr (Some (canon_props (revised cur status now)))"
proof -
  obtain f where f: "file_of (JObj (revised cur status now)) = Inr f"
    "\<forall>m. safe_nonneg m \<longrightarrow> readUtf8File (recordComponents i) m s = sized m f"
    using new_file_read [OF assms(6)] by (auto simp: record_write_def)
  have "distinct (map fst (revised cur status now))"
    using assms(2) distinct_revised by (simp add: stored_record_def)
  then have "parseWorkstream f (Some i) = Inr (canon_props (revised cur status now))"
    using revised_valid [OF get_found(3) [OF assms(1)] assms(2-4)] get_found(2) [OF assms(1)] file_of_JObj [OF f(1)]
    by (simp add: parseWorkstream_def jget_canon_props canon.simps)
  with f(2) assms(5) f(1) get_found(1) [OF assms(1)] show ?thesis
    by (simp add: get_def sized_def record_fitting_def)
qed

lemma named_record: "named n (Inr (Some r)) = (if jget r ''name'' = JStr n then Some r else None)"
  by (simp add: named_def)

lemma jget_canon_revised:
  assumes "stored_record cur" "key \<notin> {''revision'', ''updated_at'', ''status''}"
  shows "jget (canon_props (revised cur status now)) key = jget cur key"
  using assms stored_canon [OF assms(1), of key] distinct_revised [of cur]
  by (simp add: jget_canon_props stored_record_def)

text \<open>Replacing one record replaces it under every name that resolves to it, and nothing else.\<close>

lemma replace_record:
  assumes "get i st = Inr (Some cur)" "stored_record cur"
    "get i s = Inr (Some (canon_props (revised cur status now)))"
    "\<And>j. isWorkstreamId j \<Longrightarrow> j \<noteq> i \<Longrightarrow> get j s = get j st"
    "get_file (claimComponents m) s = get_file (claimComponents m) st"
  shows "resolveName m s =
    (if resolveName m st = Inr (Some cur) then Inr (Some (canon_props (revised cur status now)))
     else resolveName m st)"
proof (cases "\<exists>f j. readUtf8File (claimComponents m) MAX_CLAIM_BYTES st = Inr (Some f) \<and> claimed f = Some j")
  case True
  then obtain f j where fj: "readUtf8File (claimComponents m) MAX_CLAIM_BYTES st = Inr (Some f)"
    "claimed f = Some j" by blast
  have "readUtf8File (claimComponents m) MAX_CLAIM_BYTES s = Inr (Some f)"
    using fj(1) assms(5) by (simp add: get_file_def fun_eq_iff)
  then have r: "resolveName m st = Inr (named m (get j st))" "resolveName m s = Inr (named m (get j s))"
    using fj by (simp_all add: resolveName_def)
  show ?thesis
  proof (cases "j = i")
    case True
    then show ?thesis
      using r assms(1,3) jget_canon_revised [OF assms(2), of "''name''"] by (simp add: named_record)
  next
    case False
    have "get j s = get j st" using assms(4) False by (cases "isWorkstreamId j") (simp_all add: get_def)
    moreover have "named m (get j st) \<noteq> Some cur"
    proof
      assume "named m (get j st) = Some cur"
      then have "get j st = Inr (Some cur)" by (auto simp: named_def split: sum.splits option.splits if_splits)
      from get_found(4) [OF this] get_found(4) [OF assms(1)] False show False by simp
    qed
    ultimately show ?thesis using r by simp
  qed
next
  case False
  moreover have "readUtf8File (claimComponents m) MAX_CLAIM_BYTES s = readUtf8File (claimComponents m) MAX_CLAIM_BYTES st"
    using assms(5) by (simp add: get_file_def fun_eq_iff)
  ultimately have "resolveName m s = resolveName m st" "resolveName m st \<noteq> Inr (Some cur)"
    by (auto simp: resolveName_def split: sum.split option.split)
  then show ?thesis by simp
qed

lemma setStatus_cases:
  assumes "resolve reference st = Inr (Some cur)" "get i st = Inr (Some cur)"
    "setStatus nonce reference status now st = (tr, res)"
  shows "valid_time now \<Longrightarrow> jget cur ''status'' \<noteq> JStr (status_name status) \<Longrightarrow>
      set tr = set (files.passes [record_write nonce i (revised cur status now)] st) \<and>
      (\<forall>r. res = Inr r \<longrightarrow> r = revised cur status now \<and>
        snd (put_file (record_write nonce i (revised cur status now)) st) = Inr () \<and>
        last (st # tr) = files.run [record_write nonce i (revised cur status now)] st)"
    and "valid_time now \<Longrightarrow> jget cur ''status'' = JStr (status_name status) \<Longrightarrow> tr = [] \<and> res = Inr cur"
    and "\<not> valid_time now \<Longrightarrow> tr = [] \<and> res = Inl TypeError"
proof -
  have i: "text_of (jget cur ''workstream_id'') = i"
    using get_found(4) [OF assms(2)] by (simp add: text_of_def)
  show "set tr = set (files.passes [record_write nonce i (revised cur status now)] st) \<and>
      (\<forall>r. res = Inr r \<longrightarrow> r = revised cur status now \<and>
        snd (put_file (record_write nonce i (revised cur status now)) st) = Inr () \<and>
        last (st # tr) = files.run [record_write nonce i (revised cur status now)] st)"
    if "valid_time now" "jget cur ''status'' \<noteq> JStr (status_name status)"
  proof -
    have eq: "setStatus nonce reference status now st =
        andThen (put_file (record_write nonce i (revised cur status now)))
          (\<lambda>_. return (revised cur status now)) st"
      using assms(1) that i by (simp add: setStatus_def andThen_observe put_record)
    from one_put [OF assms(3) [unfolded eq]] show ?thesis by blast
  qed
qed (use assms in \<open>auto simp: setStatus_def andThen_observe return_def raise_def\<close>)

end
