(* ===== verification/Workstream_Laws.thy ===== *)
theory Workstream_Laws
  imports Workstream_Store
begin

text \<open>
  The properties of the workstream store, over the map \<open>names_of\<close> from names to records: creating
  adds one entry, changing a status replaces one entry, a crash leaves the map as before or as after,
  and listing returns exactly the records that can be read.
\<close>

section \<open>When a write goes through\<close>

definition writable :: "store \<Rightarrow> file_write \<Rightarrow> bool" where
  "writable st w \<longleftrightarrow> usable_path (fw_path w) \<and> \<not> blocked st (fw_path w) \<and>
     st (fw_path w) \<noteq> Some Directory \<and> st (temporaryPath (fw_path w) (fw_nonce w)) = None \<and>
     (\<exists>f. file_of (fw_value w) = Inr f)"

lemma put_succeeds: "tree st \<Longrightarrow> writable st w \<Longrightarrow> snd (put_file w st) = Inr ()"
  using write_final [of st "fw_path w" "fw_nonce w" "fw_value w"]
  by (auto simp: writable_def put_file_def write_tail_def Let_def)

lemma put_state:
  assumes "tree st" "snd (put_file w st) = Inr ()"
  shows "write_state (fw_path w) (temporaryPath (fw_path w) (fw_nonce w))
      (case file_of (fw_value w) of Inl _ \<Rightarrow> None | Inr f \<Rightarrow> Some f) st (last (st # fst (put_file w st)))"
    "usable_path (fw_path w)" "\<not> blocked st (fw_path w)"
proof -
  note w = assms(2) [unfolded put_file_def]
  show u: "usable_path (fw_path w)" and b: "\<not> blocked st (fw_path w)"
    using write_success(1,2) [OF assms(1) w] .
  have "fst (put_file w st) \<noteq> []"
    using write_tree [OF assms(1) u b, of "fw_nonce w" "fw_value w"] write_tail_nonempty
    by (auto simp: put_file_def)
  then have "last (st # fst (put_file w st)) \<in> set (fst (put_file w st))" by simp
  from put_file_state(3) [OF assms(1) this]
  show "write_state (fw_path w) (temporaryPath (fw_path w) (fw_nonce w))
      (case file_of (fw_value w) of Inl _ \<Rightarrow> None | Inr f \<Rightarrow> Some f) st (last (st # fst (put_file w st)))" .
qed

text \<open>The claim written first never stands in the way of the record.\<close>

lemma record_after_claim:
  assumes "tree st" "isWorkstreamId i" "writable st (claim_write n1 n j)" "writable st (record_write n2 i r)"
  shows "writable (last (st # fst (put_file (claim_write n1 n j) st))) (record_write n2 i r)"
proof -
  let ?w = "claim_write n1 n j" and ?p = "recordComponents i"
  let ?s = "last (st # fst (put_file ?w st))" and ?t = "temporaryPath (recordComponents i) n2"
  note ok = put_state [OF assms(1) put_succeeds [OF assms(1,3)]]
  have cp: "fw_path ?w = claimComponents n" "fw_nonce ?w = n1" by (simp_all add: claim_write_def)
  have rp: "fw_path (record_write n2 i r) = ?p" "fw_nonce (record_write n2 i r) = n2"
    "fw_value (record_write n2 i r) = JObj r" by (simp_all add: record_write_def)
  have k: "take k ?p \<noteq> temporaryPath (claimComponents n) n1 \<and> take k ?p \<noteq> claimComponents n" for k
    by (auto simp: recordComponents_def claimComponents_def temporaryPath_def take_Cons' dest: arg_cong [of _ _ length])
  have blocked: "blocked ?s ?p \<longleftrightarrow> blocked st ?p"
    using write_state_blocked [OF ok(1) ok(2,3)] k unfolding cp by blast
  have path: "?s ?p = st ?p \<or> prefix ?p [js ''workstreams'', js ''names'']"
    using write_state_elsewhere [OF ok(1) ok(2,3), of ?p] k [of 2]
    by (auto simp: cp recordComponents_def claimComponents_def)
  have "?s ?t = st ?t \<or> prefix ?t [js ''workstreams'', js ''names'']"
    using write_state_elsewhere [OF ok(1) ok(2,3), of ?t]
    by (auto simp: cp recordComponents_def claimComponents_def temporaryPath_def)
  then have temp: "?s ?t = st ?t"
    using names_not_temporary [of "i @ js ''.json''" n2]
    by (auto simp: recordComponents_def temporaryPath_def)
  from path have "?s ?p = st ?p" using id_ne_names [OF assms(2)] by (auto simp: recordComponents_def)
  with assms(4) blocked temp show ?thesis unfolding writable_def rp by simp
qed

lemma create_succeeds:
  assumes "tree st" "create_ready opts title st" "isWorkstreamId i"
    "writable st (claim_write n1 (co_name opts) i)"
    "writable st (record_write n2 i (record_of i opts title))"
  shows "snd (create n1 n2 i opts st) = Inr (record_of i opts title)" "fst (create n1 n2 i opts st) \<noteq> []"
proof -
  have ready: "resolveName (co_name opts) st = Inr None" "isWorkstreamName (co_name opts)"
    "validateCreator (co_createdBy opts) = Inr ()" "normalizeTitle (co_title opts) = Inr title"
    "valid_time (co_now opts)"
    using assms(2) by (auto simp: create_ready_def validateCreator_Inr)
  let ?c = "claim_write n1 (co_name opts) i" and ?r = "record_write n2 i (record_of i opts title)"
  have eq: "create n1 n2 i opts st = andThen (put_file ?c) (\<lambda>_. andThen (put_file ?r) (\<lambda>_.
      return (record_of i opts title))) st"
    using ready by (simp add: create_def andThen_observe put_claim put_record record_of_def)
  have 1: "snd (put_file ?c st) = Inr ()" using put_succeeds [OF assms(1,4)] .
  have 2: "snd (put_file ?r (last (st # fst (put_file ?c st)))) = Inr ()"
    using put_succeeds [OF files.put_ok [OF assms(1)] record_after_claim [OF assms(1,3,4,5)]] .
  from 1 2 show "snd (create n1 n2 i opts st) = Inr (record_of i opts title)"
    unfolding eq
    by (cases "put_file ?c st"; cases "put_file ?r (last (st # fst (put_file ?c st)))")
      (auto simp: andThen_def return_def simp del: last.simps)
  have "fst (put_file ?c st) \<noteq> []"
    using write_tree [OF assms(1), of "fw_path ?c" "fw_nonce ?c" "fw_value ?c"] assms(4) write_tail_nonempty
    by (auto simp: put_file_def writable_def)
  then show "fst (create n1 n2 i opts st) \<noteq> []"
    unfolding eq by (cases "put_file ?c st") (auto simp: andThen_def split: sum.split prod.split)
qed

text \<open>A second write to the same file under another temporary name goes through as well.\<close>

lemma writable_again:
  assumes "tree st" "writable st w" "fw_path w' = fw_path w" "fw_nonce w' \<noteq> fw_nonce w"
    "st (temporaryPath (fw_path w') (fw_nonce w')) = None" "\<exists>f. file_of (fw_value w') = Inr f"
  shows "writable (last (st # fst (put_file w st))) w'"
proof -
  let ?s = "last (st # fst (put_file w st))" and ?p = "fw_path w"
  let ?t = "temporaryPath ?p (fw_nonce w)" and ?t' = "temporaryPath ?p (fw_nonce w')"
  note succ = put_succeeds [OF assms(1,2)]
  note ok = put_state [OF assms(1) succ]
  have sib: "sibling ?t ?p" "sibling ?t' ?p" using usable_sibling [OF ok(2)] by blast+
  have ne: "?t' \<noteq> ?t" using assms(4) by (simp add: temporaryPath_def temporaryName_def)
  have "take k ?p \<noteq> ?t \<and> take k ?p \<noteq> ?p" if "k < length ?p" for k
  proof -
    have "length (take k ?p) < length ?p" using that by simp
    then show ?thesis
      using sibling_not_prefix(3) [OF sib(1)] take_is_prefix [of k ?p] ok(2) by (auto simp: usable_path_def)
  qed
  from write_state_blocked [OF ok(1-3) this] ok(3) have "\<not> blocked ?s ?p" by blast
  moreover have "?s ?t' = None"
    using write_state_elsewhere [OF ok(1-3) ne] sib(2) sibling_not_prefix(1) [OF sib(2)] assms(3,5) ok(2)
    by (auto simp: sibling_def usable_path_def)
  moreover have "?s ?p \<noteq> Some Directory"
    using write_state_target [OF ok(1,2)] sib(1) assms(2) by (auto simp: sibling_def writable_def)
  ultimately show ?thesis using assms(3,6) ok(2) by (simp add: writable_def)
qed

section \<open>Listing\<close>

lemma record_filename_json: "isWorkstreamId i \<Longrightarrow> record_filename (i @ js ''.json'') = Some i"
  by (simp add: record_filename_def)

lemma record_filename_Some: "record_filename n = Some i \<longleftrightarrow> isWorkstreamId i \<and> n = i @ js ''.json''"
  using record_filename_json by (auto simp: record_filename_def Let_def split: if_splits)

lemma listed_iff:
  assumes "tree st"
  shows "r \<in> set (listed st n) \<longleftrightarrow> (\<exists>i. n = i @ js ''.json'' \<and> get i st = Inr (Some r))"
proof (cases "record_filename n")
  case None
  then have "\<not> (\<exists>i. isWorkstreamId i \<and> n = i @ js ''.json'')" using record_filename_json by auto
  then have "\<not> (\<exists>i. n = i @ js ''.json'' \<and> get i st = Inr (Some r))" using get_found(1) by blast
  with None show ?thesis by (simp add: listed_def)
next
  case (Some i)
  then have i: "isWorkstreamId i" "n = i @ js ''.json''" by (simp_all add: record_filename_Some)
  have found: "st (recordComponents i) = Some (JsonFile f)"
    if "readUtf8File (recordComponents i) MAX_RECORD_BYTES st = Inr (Some f)" for f
    using that readUtf8File_tree [OF assms usable_record [OF i(1)], of MAX_RECORD_BYTES]
    by (auto simp: sized_def split: if_splits option.splits entry.splits)
  have "r \<in> set (listed st n) \<longleftrightarrow> get i st = Inr (Some r)"
    using Some i(1) found
    by (auto simp: listed_def get_def map_sum_def split: option.splits entry.splits sum.splits)
  with i(2) show ?thesis by simp
qed

lemma listed_short: "length (listed st n) \<le> 1"
  by (auto simp: listed_def split: option.split entry.split sum.split)

lemma distinct_listed:
  assumes "tree st" "distinct ns"
  shows "distinct (concat (map (listed st) ns))"
  using assms(2)
proof (induction ns)
  case (Cons n ns)
  have "distinct (listed st n)" using listed_short [of st n] by (cases "listed st n") auto
  moreover have False if r: "r \<in> set (listed st n)" "m \<in> set ns" "r \<in> set (listed st m)" for r m
  proof -
    obtain i j where ij: "n = i @ js ''.json''" "get i st = Inr (Some r)"
      "m = j @ js ''.json''" "get j st = Inr (Some r)"
      using r(1,3) unfolding listed_iff [OF assms(1)] by blast
    then have "i = j" using get_found(4) [OF ij(2)] get_found(4) [OF ij(4)] by simp
    with ij r(2) Cons.prems show False by simp
  qed
  ultimately show ?case using Cons by auto
qed simp

lemma recordComponents_entry: "recordComponents i = [js ''workstreams'', n] \<longleftrightarrow> n = i @ js ''.json''"
  by (auto simp: recordComponents_def)

lemma get_entry:
  assumes "tree st" "get i st = Inr (Some r)"
  shows "st [js ''workstreams'', i @ js ''.json''] \<noteq> None" "st [js ''workstreams''] = Some Directory"
proof -
  have i: "isWorkstreamId i" using get_found(1) [OF assms(2)] .
  show "st [js ''workstreams'', i @ js ''.json''] \<noteq> None"
    using assms(2) i readUtf8File_tree [OF assms(1) usable_record [OF i], of MAX_RECORD_BYTES]
    by (cases "st [js ''workstreams'', i @ js ''.json'']")
      (auto simp: get_def recordComponents_def split: if_splits)
  then show "st [js ''workstreams''] = Some Directory"
    using treeD [OF assms(1), of "[js ''workstreams'', i @ js ''.json'']" 1] by simp
qed

lemma revised_bound:
  "text_bound (JObj (revised cur status now)) \<le>
     text_bound (JObj cur) + length (decimal (revision_of cur + 1)) + 400"
proof -
  let ?a = "AList.update (js ''status'') (JStr (status_name status)) cur"
  let ?b = "AList.update (js ''updated_at'') (JStr (to_iso now)) ?a"
  have "text_bound (JObj ?a) \<le> text_bound (JObj cur) + 110"
    using text_bound_update [of "js ''status''" "JStr (status_name status)" cur] by (cases status) simp_all
  moreover have "text_bound (JObj ?b) \<le> text_bound (JObj ?a) + 230"
    using text_bound_update [of "js ''updated_at''" "JStr (to_iso now)" ?a] length_to_iso [of now]
    by (simp del: text_bound.simps(2))
  moreover have "text_bound (JObj (revised cur status now)) \<le>
      text_bound (JObj ?b) + 52 + length (decimal (revision_of cur + 1))"
    using text_bound_update [of "js ''revision''" "JNum (NInt (revision_of cur + 1))" ?b]
    by (simp add: revised_def revision_of_def del: text_bound.simps(2))
  ultimately show ?thesis by simp
qed

lemma setStatus_effect:
  assumes "tree st" "resolve reference st = Inr (Some cur)" "get i st = Inr (Some cur)"
    "jget cur ''status'' \<noteq> JStr (status_name status)"
    "stored_record cur" "revision_of cur < max_safe" "record_fitting (revised cur status now)"
    "setStatus nonce reference status now st = (tr, Inr r)"
  shows "r = revised cur status now" "last (st # tr) \<in> set tr"
    "s \<in> set tr \<Longrightarrow> isWorkstreamId j \<Longrightarrow> j \<noteq> i \<Longrightarrow> get j s = get j st"
    "s \<in> set tr \<Longrightarrow> get_file (claimComponents m) s = get_file (claimComponents m) st"
    "s \<in> set tr \<Longrightarrow> get i s = get i st \<or> get i s = Inr (Some (canon_props (revised cur status now)))"
    "get i (last (st # tr)) = Inr (Some (canon_props (revised cur status now)))"
proof -
  have now: "valid_time now" using setStatus_cases(3) [OF assms(2,3,8)] by auto
  let ?new = "revised cur status now" and ?w = "record_write nonce i (revised cur status now)"
  have ok: "snd (put_file ?w st) = Inr ()" and fin: "last (st # tr) = files.run [?w] st"
    and states: "set tr = set (files.passes [?w] st)"
    using setStatus_cases(1) [OF assms(2,3,8) now assms(4)] by auto
  show "r = ?new" using setStatus_cases(1) [OF assms(2,3,8) now assms(4)] by blast
  have i: "isWorkstreamId i" using get_found(1) [OF assms(3)] .
  have path: "fw_path ?w = recordComponents i" by (simp add: record_write_def)
  note reread = get_revised [OF assms(3,5) now assms(6,7)]
  show "get j s = get j st" if "s \<in> set tr" "isWorkstreamId j" "j \<noteq> i"
    using that passes_away [OF assms(1), of "[?w]" "recordComponents j" s] record_away(1) states
    by (intro get_by_file) auto
  show "get_file (claimComponents m) s = get_file (claimComponents m) st" if "s \<in> set tr"
    using that passes_away [OF assms(1), of "[?w]" "claimComponents m" s] record_away(2) [OF i] states by auto
  show "get i s = get i st \<or> get i s = Inr (Some (canon_props ?new))" if "s \<in> set tr"
    using passes_target [OF assms(1), of "[?w]" "recordComponents i" s] that states path
      get_by_file [of i s st] reread by auto
  show new: "get i (last (st # tr)) = Inr (Some (canon_props ?new))"
    using files.success [OF assms(1) ok] reread path fin by simp
  have "tr \<noteq> []"
  proof
    assume "tr = []"
    then have "canon_props ?new = cur" using new assms(3) by simp
    then have "jget (canon_props ?new) ''status'' = jget cur ''status''" by simp
    then show False
      using assms(4,5) distinct_revised [of cur status now]
      by (simp add: jget_canon_props stored_record_def canon.simps)
  qed
  then show "last (st # tr) \<in> set tr" by simp
qed

lemma revision_of_revised:
  "workstream_valid (Some i) cur \<Longrightarrow> revision_of cur < max_safe \<Longrightarrow>
     revision_of (revised cur status now) = revision_of cur + 1"
proof -
  assume "workstream_valid (Some i) cur" and small: "revision_of cur < max_safe"
  then obtain n where n: "jget cur ''revision'' = JNum (NInt n)" "safe_pos n"
    by (auto simp: workstream_valid_def decoder_simps)
  then have "revision_of cur = n" by (simp add: revision_of_def safe_pos_def)
  with n small show ?thesis
    by (simp add: revision_of_def [of "revised cur status now"] safe_pos_def safe_int_def)
qed

section \<open>A small store\<close>

definition sample_id :: jstr where
  "sample_id = js ''ws_'' @ replicate 32 0x61"

definition sample_options :: create_options where
  "sample_options = \<lparr> co_name = js ''tui'', co_title = Some (js '' Terminal ''), co_createdBy = CliCreator, co_now = 0 \<rparr>"

definition sample_record :: workstream where
  "sample_record = record_of sample_id sample_options (Some (js ''Terminal''))"

definition sample_create :: "store list \<times> workstream result" where
  "sample_create = create (js ''1'') (js ''2'') sample_id sample_options empty_root"

lemma sample_id_ok: "isWorkstreamId sample_id"
  unfolding isWorkstreamId_def workstream_id_pattern_def id_pattern_def sample_id_def
  by (simp add: is_hex_def list_all_iff)

lemma sample_creatable: "creatable sample_id sample_options"
  by (simp add: creatable_def sample_id_ok sample_options_def modest_creator_def)

lemma sample_name_ok: "isWorkstreamName (js ''tui'')"
  by (simp add: isWorkstreamName_def js_def slug_unit_def is_lower_def)

lemma empty_missing:
  "usable_path p \<Longrightarrow> safe_nonneg m \<Longrightarrow> readUtf8File p m empty_root = Inr None"
proof -
  assume p: "usable_path p" "safe_nonneg m"
  have "\<not> blocked empty_root p" by (auto simp: blocked_def empty_root_def)
  with p readUtf8File_tree [OF tree_empty_root p] show ?thesis
    by (auto simp: empty_root_def usable_path_def)
qed

lemma sample_ready: "create_ready sample_options (Some (js ''Terminal'')) empty_root"
proof -
  have "normalizeTitle (Some (js '' Terminal '')) = Inr (Some (js ''Terminal''))"
    by (simp add: normalizeTitle_def trim_def js_def is_space_def byte_length_js_ascii)
  moreover have "resolveName (js ''tui'') empty_root = Inr None"
    by (simp add: resolveName_def empty_missing usable_claim sample_name_ok)
  ultimately show ?thesis
    by (simp add: create_ready_def sample_options_def sample_name_ok creator_ok_def valid_time_def)
qed

lemma sample_fresh: "get sample_id empty_root = Inr None"
  by (simp add: get_def sample_id_ok empty_missing usable_record)

lemma empty_writable:
  "usable_path (fw_path w) \<Longrightarrow> serializable (fw_value w) \<Longrightarrow> fw_value w \<noteq> JUndef \<Longrightarrow> writable empty_root w"
  using serializable_file [of "fw_value w"]
  by (auto simp: writable_def blocked_def empty_root_def usable_path_def temporaryPath_def)

lemma sample_writable:
  "writable empty_root (claim_write (js ''1'') (co_name sample_options) sample_id)"
  "writable empty_root (record_write n sample_id (record_of sample_id sample_options (Some (js ''Terminal''))))"
  by (rule empty_writable;
      simp add: workstream_writes usable_claim usable_record sample_name_ok sample_id_ok sample_options_def
        claim_json_def record_of_def new_record_def opt_prop_def)+

lemma sample_create_result: "snd sample_create = Inr sample_record" "fst sample_create \<noteq> []"
  using create_succeeds [OF tree_empty_root sample_ready sample_id_ok sample_writable]
  by (simp_all add: sample_create_def sample_record_def)

lemma sample_create_eq:
  "create (js ''1'') (js ''2'') sample_id sample_options empty_root = (fst sample_create, Inr sample_record)"
  using sample_create_result(1) by (metis prod.collapse sample_create_def)

definition sample_store :: store where
  "sample_store = last (empty_root # fst sample_create)"

lemma sample_store_facts:
  "tree sample_store" "get sample_id sample_store = Inr (Some (canon_props sample_record))"
  "resolveName (js ''tui'') sample_store = Inr (Some (canon_props sample_record))"
  "writable sample_store (record_write (js ''3'') sample_id (revised (canon_props sample_record) Completed 5))"
proof -
  let ?c = "claim_write (js ''1'') (co_name sample_options) sample_id"
    and ?r = "record_write (js ''2'') sample_id sample_record"
  let ?mid = "last (empty_root # fst (put_file ?c empty_root))"
  note rec = sample_record_def [symmetric]
  let ?ws = "create_writes (js ''1'') (js ''2'') sample_id sample_options (Some (js ''Terminal''))"
  have ws: "?ws = [?c, ?r]" by (simp add: create_writes_def rec)
  have both: "sample_store = files.run ?ws empty_root \<and>
      snd (put_file ?c empty_root) = Inr () \<and> snd (put_file ?r ?mid) = Inr ()"
    using sample_create_eq
  proof (cases rule: create_cases)
    case (ready title)
    then have t: "title = Some (js ''Terminal'')" using sample_ready by (simp add: create_ready_def)
    from ready(3) [OF refl, unfolded t rec] show ?thesis unfolding sample_store_def by blast
  qed simp
  then have run': "sample_store = files.run ?ws empty_root"
    and ok: "snd (put_file ?c empty_root) = Inr ()" "snd (put_file ?r ?mid) = Inr ()" by blast+
  from run' have run: "sample_store = files.run [?c, ?r] empty_root" unfolding ws .
  note fin = create_success [OF tree_empty_root sample_ready sample_creatable sample_fresh ok [unfolded sample_record_def] run']
  show "get sample_id sample_store = Inr (Some (canon_props sample_record))"
    "resolveName (js ''tui'') sample_store = Inr (Some (canon_props sample_record))"
    using fin(1,2) unfolding rec by (simp_all add: sample_options_def)
  show "tree sample_store" unfolding run by (rule files.run_ok [OF tree_empty_root])
  have mid: "tree ?mid" using files.put_ok [OF tree_empty_root] .
  have w: "writable ?mid (record_write n sample_id sample_record)" for n
    using record_after_claim [OF tree_empty_root sample_id_ok sample_writable(1)] sample_writable(2) [of n]
    unfolding rec by blast
  have "serializable (JObj (revised (canon_props sample_record) Completed 5))"
    by (simp add: revised_def sample_record_def record_of_def new_record_def opt_prop_def sample_options_def
        canon_props_def literal_simps canon.simps del: canon_JObj)
  then have "\<exists>f. file_of (JObj (revised (canon_props sample_record) Completed 5)) = Inr f"
    by (rule serializable_file) simp
  then have "writable (last (?mid # fst (put_file ?r ?mid)))
      (record_write (js ''3'') sample_id (revised (canon_props sample_record) Completed 5))"
    using w [of "js ''3''"] by (intro writable_again [OF mid w]) (simp_all add: record_write_def writable_def)
  then show "writable sample_store (record_write (js ''3'') sample_id (revised (canon_props sample_record) Completed 5))"
    unfolding run by simp
qed

section \<open>Properties\<close>

text \<open>C1: creating a workstream refines adding one entry to the map from names to records: the name
  was free, it now resolves to exactly the record returned, the record is found under its
  identifier, and no other name or record changes.\<close>

theorem create_refines_names:
  assumes "tree st" "creatable i opts" "get i st = Inr None"
    "create n1 n2 i opts st = (tr, Inr r)"
  shows "tree (last (st # tr)) \<and> names_of st (co_name opts) = None \<and>
    names_of (last (st # tr)) = (names_of st)(co_name opts \<mapsto> canon_props r) \<and>
    get i (last (st # tr)) = Inr (Some (canon_props r)) \<and>
    (\<forall>j. isWorkstreamId j \<and> j \<noteq> i \<longrightarrow> get j (last (st # tr)) = get j st)"
  using assms(4)
proof (cases rule: create_cases)
  case (ready title)
  have r: "r = record_of i opts title" and s: "last (st # tr) = files.run (create_writes n1 n2 i opts title) st"
    and ok: "snd (put_file (claim_write n1 (co_name opts) i) st) = Inr ()"
      "snd (put_file (record_write n2 i (record_of i opts title))
        (last (st # fst (put_file (claim_write n1 (co_name opts) i) st)))) = Inr ()"
    using ready(3) [OF refl] by auto
  note fin = create_success [OF assms(1) ready(1) assms(2,3) ok s]
  note pass = create_pass [OF assms(1) ready(1) assms(2,3) fin(3)]
  have n: "isWorkstreamName (co_name opts)" "resolveName (co_name opts) st = Inr None"
    using ready(1) by (simp_all add: create_ready_def)
  have "names_of (last (st # tr)) m = ((names_of st)(co_name opts \<mapsto> canon_props r)) m" for m
    using n fin(2) pass(4) [of m] by (auto simp: names_of_def r simp del: last.simps)
  then show ?thesis
    using pass(1,2) fin(1) n by (auto simp: names_of_def r fun_eq_iff simp del: last.simps)
qed simp

theorem create_refines_names_witness:
  "names_of sample_store = (names_of empty_root)(js ''tui'' \<mapsto> canon_props sample_record)"
  using create_refines_names [OF tree_empty_root sample_creatable sample_fresh sample_create_eq]
  by (simp add: sample_store_def sample_options_def del: last.simps)

text \<open>C2: whatever becomes of a creation, in every state it passes through the name is still free or
  already resolves to the complete new record, and every other name resolves as before.\<close>

theorem create_crash_safe:
  assumes "tree st" "creatable i opts" "get i st = Inr None"
    "create n1 n2 i opts st = (tr, res)" "s \<in> set tr"
  shows "tree s \<and> (\<forall>m. m \<noteq> co_name opts \<longrightarrow> names_of s m = names_of st m) \<and>
    (\<exists>title. normalizeTitle (co_title opts) = Inr title \<and>
      names_of s (co_name opts) \<in> {None, Some (canon_props (record_of i opts title))})"
  using assms(4)
proof (cases rule: create_cases)
  case (ready title)
  have "s \<in> set (files.passes (create_writes n1 n2 i opts title) st)" using ready(2) assms(5) by blast
  note pass = create_pass [OF assms(1) ready(1) assms(2,3) this]
  have "normalizeTitle (co_title opts) = Inr title" using ready(1) by (simp add: create_ready_def)
  moreover have "names_of s (co_name opts) \<in> {None, Some (canon_props (record_of i opts title))}"
    using pass(5) by (auto simp: names_of_def)
  ultimately show ?thesis using pass(1,4) by (auto simp: names_of_def)
qed (use assms(5) in simp)

theorem create_crash_safe_witness:
  "tree (hd (fst sample_create)) \<and> names_of (hd (fst sample_create)) (js ''other'') = names_of empty_root (js ''other'') \<and>
   (\<exists>title. normalizeTitle (co_title sample_options) = Inr title \<and>
      names_of (hd (fst sample_create)) (co_name sample_options) \<in>
        {None, Some (canon_props (record_of sample_id sample_options title))})"
proof -
  have "hd (fst sample_create) \<in> set (fst sample_create)" using sample_create_result(2) by simp
  from create_crash_safe [OF tree_empty_root sample_creatable sample_fresh sample_create_eq this]
  show ?thesis by (simp add: sample_options_def)
qed

text \<open>A name that resolves is never taken again: creating is refused without touching the store,
  and with valid arguments the refusal is the name-taken error.\<close>

theorem create_taken:
  assumes "resolveName (co_name opts) st = Inr (Some existing)"
  shows "fst (create n1 n2 i opts st) = [] \<and>
    (snd (create n1 n2 i opts st) = Inl WorkstreamNameTakenError \<longleftrightarrow>
      isWorkstreamName (co_name opts) \<and> creator_ok (co_createdBy opts) \<and>
      (\<exists>title. normalizeTitle (co_title opts) = Inr title) \<and> valid_time (co_now opts))"
proof -
  have errors: "e = TypeError" if "validateCreator c = Inl e \<or> normalizeTitle t = Inl e" for c t e
    using that by (auto simp: validateCreator_def normalizeTitle_def split: workstream_creator.splits
        option.splits if_splits)
  show ?thesis
    using assms validateCreator_Inr [of "co_createdBy opts" "()"] errors
    by (cases "validateCreator (co_createdBy opts)"; cases "normalizeTitle (co_title opts)")
      (auto simp: create_def andThen_observe raise_def)
qed

theorem create_taken_witness:
  "create (js ''4'') (js ''5'') sample_id sample_options sample_store = ([], Inl WorkstreamNameTakenError)"
  using create_taken [of sample_options sample_store "canon_props sample_record" "js ''4''" "js ''5''" sample_id]
    sample_store_facts(3) sample_ready
  by (cases "create (js ''4'') (js ''5'') sample_id sample_options sample_store")
    (auto simp: create_ready_def sample_options_def)

text \<open>C3: changing the status of a workstream that was found replaces its record, with the next
  revision, under every name that resolves to it; every other name and record is untouched, and
  every state on the way shows each name as before or as after.\<close>

theorem setStatus_refines_names:
  assumes "tree st" "resolve reference st = Inr (Some cur)" "get i st = Inr (Some cur)"
    "jget cur ''status'' \<noteq> JStr (status_name status)"
    "stored_record cur" "revision_of cur < max_safe" "record_fitting (revised cur status now)"
    "setStatus nonce reference status now st = (tr, Inr r)"
  shows "r = revised cur status now \<and> revision_of r = revision_of cur + 1 \<and>
    get i (last (st # tr)) = Inr (Some (canon_props r)) \<and>
    (\<forall>m. names_of (last (st # tr)) m =
      (if names_of st m = Some cur then Some (canon_props r) else names_of st m)) \<and>
    (\<forall>j. isWorkstreamId j \<and> j \<noteq> i \<longrightarrow> get j (last (st # tr)) = get j st) \<and>
    (\<forall>s\<in>set tr. \<forall>m. names_of s m \<in> {names_of st m, names_of (last (st # tr)) m})"
proof -
  let ?new = "revised cur status now"
  note eff = setStatus_effect [OF assms]
  have after: "names_of (last (st # tr)) m =
      (if names_of st m = Some cur then Some (canon_props ?new) else names_of st m)" for m
    using replace_record [OF assms(3,5) eff(6) eff(3) [OF eff(2)] eff(4) [OF eff(2)], of m]
    by (auto simp: names_of_def simp del: last.simps split: sum.splits)
  have between: "names_of s m \<in> {names_of st m, names_of (last (st # tr)) m}" if s: "s \<in> set tr" for s m
    using eff(5) [OF s]
  proof
    assume same: "get i s = get i st"
    have "get j s = get j st" if "isWorkstreamId j" for j
      using same eff(3) [OF s that] by (cases "j = i") simp_all
    then have "named m (get j s) = named m (get j st)" for j
      by (cases "isWorkstreamId j") (simp_all add: get_def)
    then have "resolveName m s = resolveName m st" using eff(4) [OF s] by (intro resolveName_by_file)
    then show ?thesis by (simp add: names_of_def)
  next
    assume "get i s = Inr (Some (canon_props ?new))"
    from replace_record [OF assms(3,5) this eff(3) [OF s] eff(4) [OF s], of m] after [of m]
    show ?thesis by (auto simp: names_of_def simp del: last.simps split: sum.splits)
  qed
  show ?thesis
    using eff(6) after between eff(3) [OF eff(2)] revision_of_revised [OF get_found(3) [OF assms(3)] assms(6)]
    unfolding eff(1) by blast
qed

theorem setStatus_refines_names_witness:
  "names_of (last (sample_store # fst (setStatus (js ''3'') (js ''tui'') Completed 5 sample_store))) (js ''tui'') =
     Some (canon_props (revised (canon_props sample_record) Completed 5))"
proof -
  let ?cur = "canon_props sample_record" and ?new = "revised (canon_props sample_record) Completed 5"
  have name: "resolve (js ''tui'') sample_store = Inr (Some ?cur)"
    using sample_store_facts(3) sample_name_ok
    by (simp add: resolve_def isWorkstreamId_def workstream_id_pattern_def id_pattern_def)
  have d: "distinct (map fst sample_record)"
    unfolding sample_record_def record_of_def by (rule distinct_new_record)
  have get: "jget ?cur key = canon (jget sample_record key)" for key by (rule jget_canon_props [OF d])
  have status: "jget ?cur ''status'' \<noteq> JStr (status_name Completed)"
    unfolding get by (simp add: sample_record_def record_of_def canon.simps)
  have stored: "stored_record ?cur"
    using distinct_canon_props [OF d] by (simp add: stored_record_def canon_props_idem)
  have rev: "revision_of ?cur < max_safe"
    unfolding revision_of_def get
    by (simp add: sample_record_def record_of_def canon.simps max_safe_def safe_int_def)
  have "text_bound (JObj sample_record) \<le> 2000"
    using length_to_iso [of 0] id_length [OF sample_id_ok]
    by (simp add: sample_record_def record_of_def new_record_def opt_prop_def sample_options_def
        WORKSTREAM_SCHEMA_def decimal_def decimal_nat.simps)
  then have "text_bound (JObj ?cur) \<le> 2000" using text_bound_canon [of "JObj sample_record"] by simp
  moreover have "text_bound (JObj ?new) \<le> text_bound (JObj ?cur) + 1000"
  proof -
    have "revision_of ?cur = 1"
      unfolding revision_of_def get
      by (simp add: sample_record_def record_of_def canon.simps max_safe_def safe_int_def)
    moreover have "length (decimal 2) = 1" by (simp add: decimal_def decimal_nat.simps)
    ultimately show ?thesis using revised_bound [of ?cur Completed 5] by simp
  qed
  ultimately have "text_bound (JObj ?new) \<le> 5000" by simp
  then have fits: "record_fitting ?new"
    using file_of_size by (fastforce simp: record_fitting_def MAX_RECORD_BYTES_def)
  have "setStatus (js ''3'') (js ''tui'') Completed 5 sample_store =
      andThen (put_file (record_write (js ''3'') sample_id ?new)) (\<lambda>_. return ?new) sample_store"
    using name status get_found(4) [OF sample_store_facts(2)]
    by (simp add: setStatus_def andThen_observe put_record text_of_def valid_time_def)
  then have "snd (setStatus (js ''3'') (js ''tui'') Completed 5 sample_store) = Inr ?new"
    using put_succeeds [OF sample_store_facts(1,4)]
    by (cases "put_file (record_write (js ''3'') sample_id ?new) sample_store")
      (simp add: andThen_def return_def)
  then have eq: "setStatus (js ''3'') (js ''tui'') Completed 5 sample_store =
      (fst (setStatus (js ''3'') (js ''tui'') Completed 5 sample_store), Inr ?new)"
    by (metis prod.collapse)
  have "names_of sample_store (js ''tui'') = Some ?cur"
    using sample_store_facts(3) sample_name_ok by (simp add: names_of_def)
  with setStatus_refines_names [OF sample_store_facts(1) name sample_store_facts(2) status stored rev fits eq,
      THEN conjunct2, THEN conjunct2, THEN conjunct2, THEN conjunct1]
  show ?thesis by (simp del: last.simps)
qed

text \<open>Listing returns every record that can be read under its identifier, each once, in the order
  of name and identifier; entries that are no valid records are left out.\<close>

theorem list_workstreams_exact:
  assumes "tree st" "distinct entries" "set entries = {n. st [js ''workstreams'', n] \<noteq> None}"
    "list_workstreams entries st = Inr rs"
  shows "set rs = {r. \<exists>i. get i st = Inr (Some r)} \<and> distinct rs \<and> sorted (map list_order rs)"
proof (cases "verifyDirectory [js ''workstreams''] st")
  case (Inr present)
  then have rs: "rs = (if present then sort_key list_order (concat (map (listed st) (sort entries))) else [])"
    using assms(4) by (simp add: list_workstreams_def)
  show ?thesis
  proof (cases present)
    case True
    have "set rs = (\<Union>n\<in>set entries. set (listed st n))" using True rs by simp
    then have "r \<in> set rs \<longleftrightarrow> (\<exists>i. get i st = Inr (Some r))" for r
      using listed_iff [OF assms(1)] get_entry(1) [OF assms(1)] assms(3) by blast
    moreover have "distinct rs"
      using True rs distinct_listed [OF assms(1), of "sort entries"] assms(2) by (simp del: distinct_concat_iff)
    ultimately show ?thesis using rs True by auto
  next
    case False
    have comps: "list_all validateComponent [js ''workstreams'']" by (simp add: validateComponent_def js_def)
    have "st [js ''workstreams''] \<noteq> Some Directory"
    proof
      assume d: "st [js ''workstreams''] = Some Directory"
      then have "st [] = Some Directory" using treeD [OF assms(1), of "[js ''workstreams'']" 0] by simp
      with d have "\<forall>j\<le>length [js ''workstreams'']. st (take j [js ''workstreams'']) = Some Directory"
        by (auto simp: le_Suc_eq)
      with False Inr verifyDirectory_tree [OF assms(1) comps] show False by (auto split: if_splits)
    qed
    with get_entry(2) [OF assms(1)] False rs show ?thesis by auto
  qed
qed (use assms(4) in \<open>simp add: list_workstreams_def\<close>)

theorem list_workstreams_exact_witness:
  "list_workstreams [] empty_root = Inr [] \<and> sorted (map list_order ([] :: workstream list))"
proof -
  have l: "list_workstreams [] empty_root = Inr []"
    using verifyDirectory_tree [OF tree_empty_root, of "[js ''workstreams'']"]
    by (simp add: list_workstreams_def validateComponent_def js_def empty_root_def le_Suc_eq)
  moreover have "set [] = {n. empty_root [js ''workstreams'', n] \<noteq> None}" by (simp add: empty_root_def)
  ultimately show ?thesis
    using list_workstreams_exact [of empty_root "[]" "[]"] tree_empty_root by simp
qed

end
