(* ===== verification/Typed_Id.thy ===== *)
theory Typed_Id
  imports Stable_Json
begin

text \<open>
  \<open>core/id.ts\<close> and \<open>active/identity.ts\<close>: stable identifiers.  The SHA-256 digest of
  \<open>node:crypto\<close> is the parameter \<open>sha\<close> of the model, a function from bytes to bytes; nothing
  is assumed of it.  The lemmas show that the framed input of the hash determines the type and
  every part, that the two framing routines of the program agree, and that the lease identifier
  derived by the active store is the one the hooks create.
\<close>

section \<open>Bytes of concatenated text\<close>

lemma characters_append:
  "t = [] \<or> \<not> low_surrogate (hd t) \<Longrightarrow> characters (s @ t) = characters s @ characters t"
proof (induction s rule: characters.induct)
  case (2 u)
  then show ?case by (cases t) auto
qed auto

lemma utf8_append: "t = [] \<or> \<not> low_surrogate (hd t) \<Longrightarrow> utf8 (s @ t) = utf8 s @ utf8 t"
  by (simp add: utf8_def characters_append)

definition ascii_unit :: "16 word \<Rightarrow> bool" where
  "ascii_unit u \<longleftrightarrow> unat u < 0x80"

lemma ascii_not_surrogate: "ascii_unit u \<Longrightarrow> \<not> low_surrogate u \<and> \<not> high_surrogate u"
  by (simp add: ascii_unit_def low_surrogate_def high_surrogate_def)

lemma utf8_ascii_Cons: "ascii_unit u \<Longrightarrow> utf8 (u # s) = byte_of (unat u) # utf8 s"
  using ascii_not_surrogate [of u] by (cases s) (auto simp: utf8_def ascii_unit_def)

lemma utf8_ascii: "list_all ascii_unit s \<Longrightarrow> utf8 s = map (\<lambda>u. byte_of (unat u)) s"
  by (induction s) (auto simp: utf8_ascii_Cons)

lemma digits_ascii: "list_all ascii_unit (decimal_nat n)"
  using decimal_nat_digits [of n]
  by (auto simp: list_all_iff ascii_unit_def is_digit_def word_le_nat_alt)

section \<open>Framing\<close>

datatype id_type = Session | Turn | Action | Evidence | Lease

fun id_type_name :: "id_type \<Rightarrow> string" where
  "id_type_name Session = ''session''"
| "id_type_name Turn = ''turn''"
| "id_type_name Action = ''action''"
| "id_type_name Evidence = ''evidence''"
| "id_type_name Lease = ''lease''"

fun id_prefix :: "id_type \<Rightarrow> string" where
  "id_prefix Session = ''ses''"
| "id_prefix Turn = ''turn''"
| "id_prefix Action = ''act''"
| "id_prefix Evidence = ''ev''"
| "id_prefix Lease = ''lease''"

definition id_domain :: jstr where
  "id_domain = js ''barbaro-id-v1''"

text \<open>One framed part: \<open>-1:\<close> for a missing part, the UTF-8 length and the bytes otherwise.\<close>

definition frame_part :: "jstr option \<Rightarrow> byte list" where
  "frame_part part =
     (case part of None \<Rightarrow> utf8 (js ''-1:'')
      | Some p \<Rightarrow> utf8 (decimal (int (byte_length p)) @ js '':'') @ utf8 p)"

definition encodeTypedIdInput :: "id_type \<Rightarrow> jstr option list \<Rightarrow> byte list" where
  "encodeTypedIdInput t parts =
     utf8 id_domain @ [0] @ utf8 (js (id_type_name t)) @
     concat (map (\<lambda>p. 0 # frame_part p) parts)"

definition hex_bytes :: "byte list \<Rightarrow> jstr" where
  "hex_bytes bs = concat (map (\<lambda>b. [hex_unit (unat b div 16), hex_unit (unat b mod 16)]) bs)"

definition createTypedId :: "(byte list \<Rightarrow> byte list) \<Rightarrow> id_type \<Rightarrow> jstr option list \<Rightarrow> jstr" where
  "createTypedId sha t parts =
     js (id_prefix t) @ js ''_'' @ hex_bytes (take 16 (sha (encodeTypedIdInput t parts)))"

definition createSessionId :: "(byte list \<Rightarrow> byte list) \<Rightarrow> jstr \<Rightarrow> jstr \<Rightarrow> jstr" where
  "createSessionId sha provider native = createTypedId sha Session [Some provider, Some native]"

definition createTurnId ::
    "(byte list \<Rightarrow> byte list) \<Rightarrow> jstr \<Rightarrow> jstr \<Rightarrow> jstr \<Rightarrow> jstr \<Rightarrow> jstr" where
  "createTurnId sha provider native actor key =
     createTypedId sha Turn [Some provider, Some native, Some actor, Some key]"

definition createActionId ::
    "(byte list \<Rightarrow> byte list) \<Rightarrow> jstr \<Rightarrow> jstr \<Rightarrow> int \<Rightarrow> jstr result" where
  "createActionId sha turn source occurrence =
     (if \<not> safe_nonneg occurrence then Inl RangeError
      else Inr (createTypedId sha Action [Some turn, Some source, Some (decimal occurrence)]))"

definition createEvidenceId ::
    "(byte list \<Rightarrow> byte list) \<Rightarrow> jstr \<Rightarrow> jstr \<Rightarrow> int \<Rightarrow> jstr result" where
  "createEvidenceId sha turn source occurrence =
     (if \<not> safe_nonneg occurrence then Inl RangeError
      else Inr (createTypedId sha Evidence [Some turn, Some source, Some (decimal occurrence)]))"

definition createLeaseId :: "(byte list \<Rightarrow> byte list) \<Rightarrow> jstr \<Rightarrow> jstr \<Rightarrow> jstr \<Rightarrow> jstr" where
  "createLeaseId sha provider native actor =
     createTypedId sha Lease [Some provider, Some native, Some actor]"

section \<open>The active store's framing\<close>

definition framedHash :: "(byte list \<Rightarrow> byte list) \<Rightarrow> jstr \<Rightarrow> jstr list \<Rightarrow> byte list" where
  "framedHash sha domain parts =
     (let framed = map (\<lambda>p. decimal (int (byte_length p)) @ js '':'' @ p) parts
      in sha (utf8 (join [0] (domain # framed))))"

definition deriveLeaseId :: "(byte list \<Rightarrow> byte list) \<Rightarrow> jstr \<Rightarrow> jstr \<Rightarrow> jstr \<Rightarrow> jstr result" where
  "deriveLeaseId sha provider native agent =
     (if \<not> provider_pattern provider then Inl TypeError
      else if native = [] then Inl TypeError
      else if agent = [] then Inl TypeError
      else Inr (js ''lease_'' @ hex_bytes (take 16
             (framedHash sha (js ''barbaro-id-v1'' @ [0] @ js ''lease'') [provider, native, agent]))))"

text \<open>\<open>ActiveActorKey\<close>\<close>

record actor_key =
  a_provider :: jstr
  a_session_id :: jstr
  a_agent_id :: jstr

definition activeActorFilename :: "(byte list \<Rightarrow> byte list) \<Rightarrow> actor_key \<Rightarrow> jstr result" where
  "activeActorFilename sha actor =
     (if \<not> provider_pattern (a_provider actor) then Inl TypeError
      else if \<not> session_id_pattern (a_session_id actor) then Inl TypeError
      else if a_agent_id actor = [] then Inl TypeError
      else Inr (js ''actor_'' @
             hex_bytes (framedHash sha (js ''barbaro-active-actor-file-v1'')
               [a_provider actor, a_session_id actor, a_agent_id actor]) @ js ''.json''))"

section \<open>The framing is uniquely readable\<close>

text \<open>A framed part in terms of the bytes of the part.\<close>

definition frame_bytes :: "byte list option \<Rightarrow> byte list" where
  "frame_bytes p = (case p of None \<Rightarrow> [0x2D, 0x31, 0x3A]
     | Some b \<Rightarrow> map (\<lambda>u. byte_of (unat u)) (decimal_nat (length b)) @ [0x3A] @ b)"

lemma utf8_js_colon: "utf8 (s @ js '':'') = utf8 s @ [0x3A]"
  by (subst utf8_append) (auto simp: literal_simps low_surrogate_def utf8_ascii_Cons ascii_unit_def byte_of_def)

lemma frame_part_bytes: "frame_part p = frame_bytes (map_option utf8 p)"
  by (cases p)
    (auto simp: frame_part_def frame_bytes_def utf8_js_colon decimal_def utf8_ascii digits_ascii
      byte_length_def literal_simps utf8_ascii_Cons ascii_unit_def byte_of_def)

lemma digit_byte: "is_digit u \<Longrightarrow> byte_of (unat u) \<noteq> 0x3A \<and> byte_of (unat u) \<noteq> 0x2D"
proof -
  assume "is_digit u"
  then have "0x30 \<le> unat u" "unat u \<le> 0x39" by (simp_all add: is_digit_def word_le_nat_alt)
  then have "unat (byte_of (unat u)) \<noteq> 0x3A" "unat (byte_of (unat u)) \<noteq> 0x2D"
    using unat_byte_of [of "unat u"] by simp_all
  then show ?thesis by auto
qed

lemma unat_digit_byte: "is_digit u \<Longrightarrow> unat (byte_of (unat u)) = unat u"
  by (rule unat_byte_of) (simp add: is_digit_def word_le_nat_alt)

lemma digit_byte_inj:
  assumes "list_all is_digit s" "list_all is_digit t"
    and "map (\<lambda>u. byte_of (unat u)) s = map (\<lambda>u. byte_of (unat u)) t"
  shows "s = t"
proof -
  have "inj_on (\<lambda>u. byte_of (unat u)) (set s \<union> set t)"
  proof (rule inj_onI)
    fix u v
    assume "u \<in> set s \<union> set t" "v \<in> set s \<union> set t" "byte_of (unat u) = byte_of (unat v)"
    moreover from this have "is_digit u" "is_digit v" using assms(1,2) by (auto simp: list_all_iff)
    ultimately have "unat u = unat v" by (metis unat_digit_byte)
    then show "u = v" by (simp only: word_unat_eq_iff)
  qed
  with assms(3) show ?thesis by (rule map_inj_on)
qed

lemma frame_bytes_split:
  assumes eq: "frame_bytes p @ r = frame_bytes q @ s"
  shows "p = q"
proof -
  let ?d = "\<lambda>b :: byte list. map (\<lambda>u. byte_of (unat u)) (decimal_nat (length b))"
  have digits: "c \<in> set (?d b) \<Longrightarrow> c \<noteq> 0x3A \<and> c \<noteq> 0x2D" for b c
    using decimal_nat_digits [of "length b"] digit_byte by (auto simp: list_all_iff)
  have head: "hd (?d b @ t) \<noteq> 0x2D" for b t
    using decimal_nat_digits [of "length b"] digits [of _ b]
    by (cases "decimal_nat (length b)") auto
  have cut: "takeWhile (\<lambda>c. c \<noteq> 0x3A) (?d b @ [0x3A] @ t) = ?d b" for b t
    using digits [of _ b] by (subst takeWhile_append2) auto
  show ?thesis
  proof (cases p; cases q)
    fix b c
    assume pq: "p = Some b" "q = Some c"
    with eq have all: "?d b @ [0x3A] @ b @ r = ?d c @ [0x3A] @ c @ s"
      by (simp add: frame_bytes_def)
    then have same: "?d b = ?d c" using cut by metis
    then have "decimal_nat (length b) = decimal_nat (length c)"
      using decimal_nat_digits by (intro digit_byte_inj) auto
    then have "length b = length c" by (metis value_of_decimal_nat)
    moreover from all same have "b @ r = c @ s" by simp
    ultimately show ?thesis using pq by simp
  next
    fix c
    assume "p = None" "q = Some c"
    with eq have "0x2D # 0x31 # 0x3A # r = ?d c @ [0x3A] @ c @ s" by (simp add: frame_bytes_def)
    then have "hd (?d c @ [0x3A] @ c @ s) = 0x2D" by (metis list.sel(1))
    with head show ?thesis by blast
  next
    fix b
    assume "p = Some b" "q = None"
    with eq have "?d b @ [0x3A] @ b @ r = 0x2D # 0x31 # 0x3A # s" by (simp add: frame_bytes_def)
    then have "hd (?d b @ [0x3A] @ b @ r) = 0x2D" by (metis list.sel(1))
    with head show ?thesis by blast
  qed simp
qed

interpretation framing: self_delimiting "\<lambda>p. 0 # frame_bytes p" "\<lambda>_. True"
  by unfold_locales (auto dest: frame_bytes_split)

section \<open>Properties\<close>

lemma zero_free_names: "0 \<notin> set (utf8 (js (id_type_name t)))"
  by (cases t) (simp_all add: literal_simps utf8_ascii_Cons ascii_unit_def byte_of_def)

lemma id_type_name_inj: "utf8 (js (id_type_name t)) = utf8 (js (id_type_name t')) \<longleftrightarrow> t = t'"
  by (cases t; cases t')
    (simp_all add: literal_simps utf8_ascii_Cons ascii_unit_def byte_of_def)

lemma encodeTypedIdInput_bytes:
  "encodeTypedIdInput t parts = utf8 id_domain @ [0] @ utf8 (js (id_type_name t)) @
     concat (map (\<lambda>p. 0 # frame_bytes p) (map (map_option utf8) parts))"
  by (simp add: encodeTypedIdInput_def frame_part_bytes comp_def)

lemma id_input_split:
  assumes "encodeTypedIdInput t ps = encodeTypedIdInput t' qs"
  shows "t = t' \<and> map (map_option utf8) ps = map (map_option utf8) qs"
proof -
  let ?c = "\<lambda>xs. concat (map (\<lambda>p. 0 # frame_bytes p) xs)"
  have cut: "takeWhile (\<lambda>b. b \<noteq> 0) (utf8 (js (id_type_name x)) @ ?c xs) =
      utf8 (js (id_type_name x))" for x xs
  proof -
    have nz: "b \<noteq> 0" if "b \<in> set (utf8 (js (id_type_name x)))" for b
      using that zero_free_names [of x] by metis
    have "takeWhile (\<lambda>b. b \<noteq> 0) (?c xs) = []" by (cases xs) simp_all
    with nz show ?thesis by (simp add: takeWhile_append2)
  qed
  from assms have eq: "utf8 (js (id_type_name t)) @ ?c (map (map_option utf8) ps) =
      utf8 (js (id_type_name t')) @ ?c (map (map_option utf8) qs)"
    by (simp only: encodeTypedIdInput_bytes same_append_eq)
  then have "utf8 (js (id_type_name t)) = utf8 (js (id_type_name t'))" using cut by metis
  with eq show ?thesis
    using framing.concat_inj [of "map (map_option utf8) ps" "map (map_option utf8) qs"]
    by (simp add: id_type_name_inj)
qed

text \<open>C32: the hashed input of a stable identifier determines the type and the exact UTF-8 bytes
  of every part, missing parts and empty parts included.\<close>

theorem encodeTypedIdInput_eq_iff:
  "encodeTypedIdInput t ps = encodeTypedIdInput t' qs \<longleftrightarrow>
     t = t' \<and> map (map_option utf8) ps = map (map_option utf8) qs"
  by (metis encodeTypedIdInput_bytes id_input_split)

lemma framed_join:
  "utf8 (join [0] (d # map (\<lambda>p. decimal (int (byte_length p)) @ js '':'' @ p) ps)) =
   utf8 d @ concat (map (\<lambda>p. 0 # frame_part (Some p)) ps)"
proof -
  let ?f = "\<lambda>p. decimal (int (byte_length p)) @ js '':'' @ p"
  have zero: "ascii_unit 0" "\<not> low_surrogate 0" by (simp_all add: ascii_unit_def low_surrogate_def)
  have zb: "byte_of 0 = 0" by (simp add: byte_of_def)
  have one: "utf8 (?f p @ t) = frame_part (Some p) @ utf8 t" if "t = [] \<or> hd t = 0" for p t
  proof -
    have "utf8 (js '':'' @ p @ t) = 0x3A # utf8 p @ utf8 t"
      using that zero by (auto simp: literal_simps utf8_ascii_Cons ascii_unit_def byte_of_def utf8_append)
    moreover have "utf8 (?f p @ t) = utf8 (decimal (int (byte_length p))) @ utf8 (js '':'' @ p @ t)"
      using utf8_append [of "js '':'' @ p @ t" "decimal (int (byte_length p))"]
      by (simp add: literal_simps low_surrogate_def)
    ultimately show ?thesis by (simp add: frame_part_def utf8_js_colon)
  qed
  have rest: "utf8 (concat (map (\<lambda>p. 0 # ?f p) ps)) = concat (map (\<lambda>p. 0 # frame_part (Some p)) ps)"
  proof (induction ps)
    case (Cons p ps)
    have "concat (map (\<lambda>p. 0 # ?f p) ps) = [] \<or> hd (concat (map (\<lambda>p. 0 # ?f p) ps)) = 0"
      by (cases ps) auto
    from one [OF this, of p] Cons show ?case
      by (simp add: utf8_ascii_Cons zero zb)
  qed simp
  have "join [0] (d # map ?f ps) = d @ concat (map (\<lambda>p. 0 # ?f p) ps)"
    by (simp add: join_Cons comp_def)
  moreover have "utf8 (d @ concat (map (\<lambda>p. 0 # ?f p) ps)) =
      utf8 d @ utf8 (concat (map (\<lambda>p. 0 # ?f p) ps))"
    by (rule utf8_append) (use zero in \<open>cases ps; simp\<close>)
  ultimately show ?thesis using rest by simp
qed

text \<open>on arguments it accepts, the lease identifier that \<open>active/identity.ts\<close> derives with
  its own string framing is the one \<open>core/id.ts\<close> creates with its buffer framing; it rejects
  every other argument.\<close>

theorem deriveLeaseId_createLeaseId:
  "deriveLeaseId sha provider native agent =
     (if provider_pattern provider \<and> native \<noteq> [] \<and> agent \<noteq> []
      then Inr (createLeaseId sha provider native agent) else Inl TypeError)"
proof -
  let ?ps = "[provider, native, agent]"
  have "utf8 (js ''barbaro-id-v1'' @ [0] @ js ''lease'') = utf8 id_domain @ [0] @ utf8 (js ''lease'')"
    by (simp add: literal_simps id_domain_def utf8_ascii_Cons ascii_unit_def byte_of_def)
  then have "utf8 (join [0] ((js ''barbaro-id-v1'' @ [0] @ js ''lease'') #
        map (\<lambda>p. decimal (int (byte_length p)) @ js '':'' @ p) ?ps)) =
      encodeTypedIdInput Lease (map Some ?ps)"
    unfolding framed_join encodeTypedIdInput_def by simp
  then have "framedHash sha (js ''barbaro-id-v1'' @ [0] @ js ''lease'') ?ps =
      sha (encodeTypedIdInput Lease (map Some ?ps))"
    by (simp only: framedHash_def Let_def)
  then show ?thesis
    by (simp add: deriveLeaseId_def createLeaseId_def createTypedId_def js_def)
qed

end
