(* ===== verification/Participation.thy ===== *)
theory Participation
  imports Workstream_Laws Typed_Id
begin

text \<open>
  \<open>hooks/participation.ts\<close>: the consent of a session.  A prompt that leads with the Barbaro command
  may enrol the session in a workstream; the record of a session keeps the history of its
  memberships, which is only ever extended.

  The texts of messages are not modelled: a \<open>notice\<close> names the message and what it is about.  What
  other processes do to the store while this one waits for a lock is an argument of the operations
  (\<open>interference\<close>).  \<open>sha\<close> is the SHA-256 digest, \<open>lower\<close> the lower-casing of the platform and
  \<open>attachment\<close> the recognition of a Codex skill attachment, which depends on the file system.
\<close>

section \<open>Data\<close>

definition SESSION_PARTICIPATION_SCHEMA :: jstr where
  "SESSION_PARTICIPATION_SCHEMA = js ''barbaro.session-participation.v1''"

definition SESSION_PARTICIPATION_SCHEMA_V2 :: jstr where
  "SESSION_PARTICIPATION_SCHEMA_V2 = js ''barbaro.session-participation.v2''"

definition MAX_PARTICIPATION_BYTES :: int where
  "MAX_PARTICIPATION_BYTES = 16 * 1024"

datatype participating_provider = Codex | Claude

fun provider_name :: "participating_provider \<Rightarrow> jstr" where
  "provider_name Codex = js ''codex''"
| "provider_name Claude = js ''claude''"

text \<open>A parsed participation record is the list of its properties.\<close>

type_synonym participation = "(jstr \<times> jsval) list"

datatype invocation = Bare | New jstr | Join jstr

datatype notice =
    AlreadyMember jstr jstr
  | NoWorkstream jstr
  | NotOpen jstr jsval
  | NameExists jstr jsval
  | InvalidName jstr
  | Moved jstr
  | Joined jstr bool
  | Roster "jsval list"
  | Membership "workstream option"
  | Unscoped

record admission =
  ad_joined :: bool
  ad_initiated :: bool
  ad_participation :: "participation option"
  ad_pending :: bool
  ad_refused :: "notice option"
  ad_message :: "notice option"

record admit_options =
  ao_provider :: participating_provider
  ao_nativeSessionId :: jstr
  ao_event :: jstr
  ao_prompt :: "jstr option"
  ao_commandName :: "jstr option"
  ao_now :: int

section \<open>Invocations\<close>

definition ascii_lower_unit :: "16 word \<Rightarrow> 16 word" where
  "ascii_lower_unit u = (if 0x41 \<le> u \<and> u \<le> 0x5A then u + 0x20 else u)"

text \<open>\<open>split(/\r?\n/)\<close>\<close>

fun split_crlf :: "jstr \<Rightarrow> jstr \<Rightarrow> jstr list" where
  "split_crlf acc [] = [rev acc]"
| "split_crlf acc (u # us) =
     (if u = 0x0A then rev (if acc \<noteq> [] \<and> hd acc = 0x0D then tl acc else acc) # split_crlf [] us
      else split_crlf (u # acc) us)"

definition trimStart :: "jstr \<Rightarrow> jstr" where
  "trimStart s = dropWhile is_space s"

text \<open>\<open>/^(?:\/|\$)barbaro(?=\s|$)/iu\<close>: what follows the token.\<close>

definition token_rest :: "jstr \<Rightarrow> jstr option" where
  "token_rest line =
     (case line of
        [] \<Rightarrow> None
      | c # r \<Rightarrow>
          if (c = 0x2F \<or> c = 0x24) \<and> map ascii_lower_unit (take 7 r) = js ''barbaro'' \<and>
             (drop 7 r = [] \<or> is_space (hd (drop 7 r)))
          then Some (drop 7 r) else None)"

text \<open>\<open>replace(/^(?:&#x20;)+/iu, " ")\<close>\<close>

function drop_entities :: "jstr \<Rightarrow> jstr" where
  "drop_entities s =
     (if map ascii_lower_unit (take 6 s) = js ''&#x20;'' then drop_entities (drop 6 s) else s)"
  by pat_completeness auto
termination
  by (relation "measure length") (auto dest: arg_cong [of _ _ length])

declare drop_entities.simps [simp del]

definition decode_separator :: "jstr \<Rightarrow> jstr" where
  "decode_separator s = (if drop_entities s = s then s else 0x20 # drop_entities s)"

text \<open>\<open>split(/\s+/u).filter((word) => word.length > 0)\<close>\<close>

fun words_from :: "jstr \<Rightarrow> jstr \<Rightarrow> jstr list" where
  "words_from acc [] = (if acc = [] then [] else [rev acc])"
| "words_from acc (u # us) =
     (if is_space u then (if acc = [] then [] else [rev acc]) @ words_from [] us
      else words_from (u # acc) us)"

definition strip_bom :: "jstr \<Rightarrow> jstr" where
  "strip_bom s = (case s of u # r \<Rightarrow> if u = 0xFEFF then r else s | [] \<Rightarrow> [])"

definition first_nonblank :: "jstr list \<Rightarrow> jstr" where
  "first_nonblank ls = (case filter (\<lambda>l. trim l \<noteq> []) ls of [] \<Rightarrow> [] | l # _ \<Rightarrow> trim l)"

text \<open>The argument text: after the token, or on the next line that is not blank.\<close>

definition argument_text :: "jstr list \<Rightarrow> jstr \<Rightarrow> jstr" where
  "argument_text following rest =
     (let a = trim (decode_separator rest);
          b = (if a = [] then first_nonblank following else a)
      in case token_rest b of Some r \<Rightarrow> trimStart r | None \<Rightarrow> b)"

definition parse_words :: "(jstr \<Rightarrow> jstr) \<Rightarrow> jstr list \<Rightarrow> invocation" where
  "parse_words lower ws =
     (case ws of
        verb # name # _ \<Rightarrow>
          if lower verb = js ''new'' then New (lower name)
          else if lower verb = js ''join'' then Join (lower name)
          else Bare
      | _ \<Rightarrow> Bare)"

definition parseBarbaroInvocation ::
  "(jstr \<Rightarrow> jstr) \<Rightarrow> (jstr \<Rightarrow> jstr option) option \<Rightarrow> jstr \<Rightarrow> invocation option" where
  "parseBarbaroInvocation lower attachment prompt =
     (case split_crlf [] (strip_bom prompt) of
        [] \<Rightarrow> None
      | first # following \<Rightarrow>
          (let line = trimStart first in
           case (case token_rest line of
                   Some r \<Rightarrow> Some r
                 | None \<Rightarrow> (case attachment of None \<Rightarrow> None | Some f \<Rightarrow> f line)) of
             None \<Rightarrow> None
           | Some rest \<Rightarrow>
               Some (parse_words lower (words_from [] (argument_text following rest)))))"

definition isBarbaroJoinPrompt :: "(jstr \<Rightarrow> jstr) \<Rightarrow> (jstr \<Rightarrow> jstr option) option \<Rightarrow> jstr \<Rightarrow> bool" where
  "isBarbaroJoinPrompt lower attachment prompt \<longleftrightarrow> parseBarbaroInvocation lower attachment prompt \<noteq> None"

definition isBarbaroExpansion :: "(jstr \<Rightarrow> jstr) \<Rightarrow> jstr option \<Rightarrow> bool" where
  "isBarbaroExpansion lower commandName =
     (case commandName of None \<Rightarrow> False | Some c \<Rightarrow> lower (trim c) = js ''barbaro'')"

definition invocationFor ::
  "(jstr \<Rightarrow> jstr) \<Rightarrow> (jstr \<Rightarrow> jstr option) \<Rightarrow> admit_options \<Rightarrow> invocation option" where
  "invocationFor lower attachment options =
     (if ao_event options = js ''UserPromptSubmit'' \<and> ao_prompt options \<noteq> None then
        parseBarbaroInvocation lower
          (if ao_provider options = Codex then Some attachment else None) (the (ao_prompt options))
      else if ao_provider options = Claude \<and> ao_event options = js ''UserPromptExpansion'' \<and>
              isBarbaroExpansion lower (ao_commandName options) then
        (case ao_prompt options of
           None \<Rightarrow> Some Bare
         | Some prompt \<Rightarrow>
             (case parseBarbaroInvocation lower None prompt of
                None \<Rightarrow> Some Bare
              | Some i \<Rightarrow> Some i))
      else None)"

section \<open>Records\<close>

definition participationSessionId :: "(byte list \<Rightarrow> byte list) \<Rightarrow> participating_provider \<Rightarrow> jstr \<Rightarrow> jstr result" where
  "participationSessionId sha provider native =
     (if native = [] then Inl TypeError else Inr (createSessionId sha (provider_name provider) native))"

definition participationComponents :: "participating_provider \<Rightarrow> jstr \<Rightarrow> store_path result" where
  "participationComponents provider sessionId =
     (if \<not> session_id_pattern sessionId then Inl TypeError
      else Inr [js ''sessions'', provider_name provider, sessionId @ js ''.json''])"

text \<open>A membership is well-formed: its time is a date after the previous one.\<close>

fun memberships_from :: "int option \<Rightarrow> jsval list \<Rightarrow> bool" where
  "memberships_from previous [] = True"
| "memberships_from previous (m # ms) =
     (case as_object m of
        None \<Rightarrow> False
      | Some ps \<Rightarrow>
          as_pattern isWorkstreamId (jget ps ''workstream_id'') \<noteq> None \<and>
          (case as_string (jget ps ''from'') of
             None \<Rightarrow> False
           | Some from \<Rightarrow>
               (case date_parse from of
                  None \<Rightarrow> False
                | Some t \<Rightarrow> (case previous of None \<Rightarrow> True | Some p \<Rightarrow> p < t) \<and> memberships_from (Some t) ms)))"

definition membership_id :: "jsval \<Rightarrow> jsval" where
  "membership_id m = (case as_object m of None \<Rightarrow> JUndef | Some ps \<Rightarrow> jget ps ''workstream_id'')"

definition validateMemberships :: "jsval \<Rightarrow> jsval \<Rightarrow> bool" where
  "validateMemberships v current =
     (case as_array v of
        None \<Rightarrow> False
      | Some ms \<Rightarrow> ms \<noteq> [] \<and> memberships_from None ms \<and> membership_id (last ms) = current)"

definition participation_valid :: "jstr \<Rightarrow> jstr \<Rightarrow> participation \<Rightarrow> bool" where
  "participation_valid provider sessionId ps \<longleftrightarrow>
     (jget ps ''schema'' = JStr SESSION_PARTICIPATION_SCHEMA \<or>
      jget ps ''schema'' = JStr SESSION_PARTICIPATION_SCHEMA_V2) \<and>
     jget ps ''provider'' = JStr provider \<and>
     jget ps ''session_id'' = JStr sessionId \<and>
     jget ps ''initiated_by'' = JStr (js ''user_prompt'') \<and>
     is_date (jget ps ''joined_at'') \<and>
     (if jget ps ''schema'' = JStr SESSION_PARTICIPATION_SCHEMA
      then absent ps ''workstream_id'' \<and> absent ps ''memberships''
      else as_pattern isWorkstreamId (jget ps ''workstream_id'') \<noteq> None \<and>
           (absent ps ''memberships'' \<or>
            validateMemberships (jget ps ''memberships'') (jget ps ''workstream_id'')))"

definition parseParticipation :: "json_file \<Rightarrow> jstr \<Rightarrow> jstr \<Rightarrow> participation result" where
  "parseParticipation file provider sessionId =
     (case jf_json file of
        None \<Rightarrow> Inl SyntaxError
      | Some v \<Rightarrow>
          (case as_object v of
             None \<Rightarrow> Inl TypeError
           | Some ps \<Rightarrow> if participation_valid provider sessionId ps then Inr ps else Inl TypeError))"

definition participationMemberships :: "participation \<Rightarrow> jsval list" where
  "participationMemberships ps =
     (if jget ps ''schema'' = JStr SESSION_PARTICIPATION_SCHEMA then []
      else (case jget ps ''memberships'' of
          JArr ms \<Rightarrow> ms
        | _ \<Rightarrow> [JObj [(js ''workstream_id'', jget ps ''workstream_id''), (js ''from'', jget ps ''joined_at'')]]))"

definition membership_from :: "jsval \<Rightarrow> int option" where
  "membership_from m =
     (case as_object m of None \<Rightarrow> None
      | Some ps \<Rightarrow> (case as_string (jget ps ''from'') of None \<Rightarrow> None | Some s \<Rightarrow> date_parse s))"

text \<open>\<open>None\<close> stands for NaN, the time of a membership whose date does not parse: the date made of it
  is invalid.\<close>

definition nextMembershipFrom :: "jsval list \<Rightarrow> int \<Rightarrow> jstr result" where
  "nextMembershipFrom memberships requestedFrom =
     (let from =
        (case at_last memberships of
           None \<Rightarrow> Some requestedFrom
         | Some previous \<Rightarrow>
             map_option (\<lambda>previousFrom.
               if requestedFrom > previousFrom then requestedFrom else previousFrom + 1) (membership_from previous))
      in case from of
           None \<Rightarrow> Inl TypeError
         | Some t \<Rightarrow> if valid_time t then Inr (to_iso t) else Inl TypeError)"

definition membership_json :: "jstr \<Rightarrow> jstr \<Rightarrow> jsval" where
  "membership_json workstreamId from = JObj [(js ''workstream_id'', JStr workstreamId), (js ''from'', JStr from)]"

definition next_participation ::
  "jstr \<Rightarrow> jstr \<Rightarrow> participation option \<Rightarrow> jstr \<Rightarrow> jstr \<Rightarrow> int \<Rightarrow> participation" where
  "next_participation provider sessionId previous workstreamId from joinedAt =
     [(js ''schema'', JStr SESSION_PARTICIPATION_SCHEMA_V2),
      (js ''provider'', JStr provider),
      (js ''session_id'', JStr sessionId),
      (js ''joined_at'', (case previous of None \<Rightarrow> JStr (to_iso joinedAt) | Some p \<Rightarrow> jget p ''joined_at'')),
      (js ''initiated_by'', JStr (js ''user_prompt'')),
      (js ''workstream_id'', JStr workstreamId),
      (js ''memberships'',
        JArr ((case previous of None \<Rightarrow> [] | Some p \<Rightarrow> participationMemberships p) @
              [membership_json workstreamId from]))]"

section \<open>Reading\<close>

definition readComponents :: "store_path \<Rightarrow> jstr \<Rightarrow> jstr \<Rightarrow> store \<Rightarrow> participation option result" where
  "readComponents components provider sessionId st =
     (case readUtf8File components MAX_PARTICIPATION_BYTES st of
        Inl e \<Rightarrow> Inl e
      | Inr None \<Rightarrow> Inr None
      | Inr (Some f) \<Rightarrow> map_sum id Some (parseParticipation f provider sessionId))"

definition readStable :: "participating_provider \<Rightarrow> jstr \<Rightarrow> store \<Rightarrow> participation option result" where
  "readStable provider sessionId st =
     (case participationComponents provider sessionId of
        Inl e \<Rightarrow> Inl e
      | Inr components \<Rightarrow> readComponents components (provider_name provider) sessionId st)"

definition read_participation ::
  "(byte list \<Rightarrow> byte list) \<Rightarrow> participating_provider \<Rightarrow> jstr \<Rightarrow> store \<Rightarrow> participation option result" where
  "read_participation sha provider native st =
     (case participationSessionId sha provider native of
        Inl e \<Rightarrow> Inl e
      | Inr sessionId \<Rightarrow> readStable provider sessionId st)"

definition hasJoined ::
  "(byte list \<Rightarrow> byte list) \<Rightarrow> participating_provider \<Rightarrow> jstr \<Rightarrow> store \<Rightarrow> bool result" where
  "hasJoined sha provider native st =
     map_sum id (\<lambda>p. p \<noteq> None) (read_participation sha provider native st)"

text \<open>\<open>list\<close>, over the entries \<open>readdir\<close> finds in the directory of each provider.\<close>

definition session_filename :: "jstr \<Rightarrow> jstr option" where
  "session_filename n =
     (let i = take (length n - 5) n in
      if session_id_pattern i \<and> n = i @ js ''.json'' then Some i else None)"

definition listed_session :: "store \<Rightarrow> participating_provider \<Rightarrow> jstr \<Rightarrow> participation list" where
  "listed_session st provider n =
     (case session_filename n of
        None \<Rightarrow> []
      | Some i \<Rightarrow>
          (case st [js ''sessions'', provider_name provider, n] of
             Some (JsonFile _) \<Rightarrow>
               (case readComponents [js ''sessions'', provider_name provider, n] (provider_name provider) i st of
                  Inr (Some p) \<Rightarrow> [p]
                | _ \<Rightarrow> [])
           | _ \<Rightarrow> []))"

fun list_sessions ::
  "(participating_provider \<Rightarrow> jstr list) \<Rightarrow> participating_provider list \<Rightarrow> store \<Rightarrow> participation list result" where
  "list_sessions entries [] st = Inr []"
| "list_sessions entries (provider # ps) st =
     (case verifyDirectory [js ''sessions'', provider_name provider] st of
        Inl e \<Rightarrow> Inl e
      | Inr present \<Rightarrow>
          (case list_sessions entries ps st of
             Inl e \<Rightarrow> Inl e
           | Inr rest \<Rightarrow>
               Inr ((if present then concat (map (listed_session st provider) (sort (entries provider))) else [])
                    @ rest)))"

definition PARTICIPATING_PROVIDERS :: "participating_provider list" where
  "PARTICIPATING_PROVIDERS = [Claude, Codex]"

section \<open>Admission\<close>

definition refusal :: "participation option \<Rightarrow> notice \<Rightarrow> admission" where
  "refusal existing reason =
     \<lparr> ad_joined = (existing \<noteq> None), ad_initiated = False, ad_participation = existing,
       ad_pending = False, ad_refused = Some reason, ad_message = Some reason \<rparr>"

definition idempotent :: "participation \<Rightarrow> workstream \<Rightarrow> admission" where
  "idempotent existing resolved =
     \<lparr> ad_joined = True, ad_initiated = False, ad_participation = Some existing, ad_pending = False,
       ad_refused = None,
       ad_message = Some (AlreadyMember (text_of (jget resolved ''name'')) (text_of (jget resolved ''workstream_id''))) \<rparr>"

datatype decision =
    Settle admission
  | Proceed "workstream option" "participation option"

definition invocation_name :: "invocation \<Rightarrow> jstr" where
  "invocation_name i = (case i of New n \<Rightarrow> n | Join n \<Rightarrow> n | Bare \<Rightarrow> [])"

definition is_open :: "workstream \<Rightarrow> bool" where
  "is_open w \<longleftrightarrow> jget w ''status'' = JStr (status_name Open)"

text \<open>\<open>#decide\<close>, on the record of the session and the resolution of the name.\<close>

definition decide_from :: "invocation \<Rightarrow> participation option \<Rightarrow> workstream option \<Rightarrow> decision" where
  "decide_from i existing resolved =
     (let name = invocation_name i; joining = (case i of Join _ \<Rightarrow> True | _ \<Rightarrow> False) in
      case existing of
        Some e \<Rightarrow>
          (case resolved of
             Some w \<Rightarrow>
               if jget w ''workstream_id'' = jget e ''workstream_id'' then Settle (idempotent e w)
               else if \<not> is_open w then Settle (refusal (Some e) (NotOpen name (jget w ''status'')))
               else Proceed (Some w) (Some e)
           | None \<Rightarrow>
               if joining then Settle (refusal (Some e) (NoWorkstream name))
               else Proceed None (Some e))
      | None \<Rightarrow>
          if joining then
            (case resolved of
               None \<Rightarrow> Settle (refusal None (NoWorkstream name))
             | Some w \<Rightarrow>
                 if \<not> is_open w then Settle (refusal None (NotOpen name (jget w ''status'')))
                 else Proceed (Some w) None)
          else
            (case resolved of
               Some w \<Rightarrow> Settle (refusal None (NameExists name (jget w ''status'')))
             | None \<Rightarrow> Proceed None None))"

definition decide ::
  "store_path \<Rightarrow> jstr \<Rightarrow> jstr \<Rightarrow> invocation \<Rightarrow> store \<Rightarrow> decision result" where
  "decide components provider sessionId i st =
     (case readComponents components provider sessionId st of
        Inl e \<Rightarrow> Inl e
      | Inr existing \<Rightarrow>
          (case resolve (invocation_name i) st of
             Inl e \<Rightarrow> Inl e
           | Inr resolved \<Rightarrow>
               (case decide_from i existing resolved of
                  Settle a \<Rightarrow> Inr (Settle a)
                | Proceed w e \<Rightarrow>
                    (case e of
                       Some p \<Rightarrow>
                         if jget p ''workstream_id'' = JUndef then Inr (Proceed w e)
                         else (case get (text_of (jget p ''workstream_id'')) st of
                             Inl err \<Rightarrow> Inl err
                           | Inr _ \<Rightarrow> Inr (Proceed w e))
                     | None \<Rightarrow> Inr (Proceed w e)))))"

text \<open>What other processes do while this one waits for the session lock, and for the store lock.\<close>

record interference =
  it_before_lock :: "store \<Rightarrow> store"
  it_before_create :: "store \<Rightarrow> store"

text \<open>The random parts of the temporary names and of the identifier of a new workstream.\<close>

record draws =
  dr_claim :: jstr
  dr_record :: jstr
  dr_participation :: jstr
  dr_workstreamId :: jstr

definition creation :: "jstr \<Rightarrow> jstr \<Rightarrow> jstr \<Rightarrow> int \<Rightarrow> create_options" where
  "creation name provider sessionId now =
     \<lparr> co_name = name, co_title = None, co_createdBy = SessionCreator provider sessionId, co_now = now \<rparr>"

text \<open>The workstream to join: the one decided on, or a new one; \<open>Inl\<close> refuses.\<close>

definition obtain_workstream ::
  "interference \<Rightarrow> draws \<Rightarrow> jstr \<Rightarrow> jstr \<Rightarrow> jstr \<Rightarrow> int \<Rightarrow> workstream option \<Rightarrow> participation option \<Rightarrow>
   (admission + workstream \<times> bool) action" where
  "obtain_workstream env d name provider sessionId now decided existing =
     (case decided of
        Some w \<Rightarrow> return (Inr (w, False))
      | None \<Rightarrow>
          andThen (effect (it_before_create env)) (\<lambda>_.
          andThen (attempt (create (dr_claim d) (dr_record d) (dr_workstreamId d)
                     (creation name provider sessionId now))) (\<lambda>r.
          case r of
            Inr w \<Rightarrow> return (Inr (w, True))
          | Inl e \<Rightarrow>
              if e = WorkstreamNameTakenError then
                andThen (observe (resolveName name)) (\<lambda>taken.
                case taken of
                  Some w \<Rightarrow>
                    if existing \<noteq> None \<and> is_open w then return (Inr (w, False))
                    else return (Inl (refusal existing (NameExists name (jget w ''status''))))
                | None \<Rightarrow> raise e)
              else raise e)))"

definition admitted :: "participation option \<Rightarrow> workstream \<Rightarrow> bool \<Rightarrow> participation \<Rightarrow> admission" where
  "admitted previous w created p =
     \<lparr> ad_joined = True, ad_initiated = True, ad_participation = Some p, ad_pending = False,
       ad_refused = None,
       ad_message = Some (if previous \<noteq> None then Moved (text_of (jget w ''name''))
                          else Joined (text_of (jget w ''name'')) created) \<rparr>"

text \<open>The locked pass of \<open>#enroll\<close>.\<close>

definition enroll_locked ::
  "interference \<Rightarrow> draws \<Rightarrow> store_path \<Rightarrow> jstr \<Rightarrow> jstr \<Rightarrow> invocation \<Rightarrow> int \<Rightarrow> admission action" where
  "enroll_locked env d components provider sessionId i now =
     andThen (observe (decide components provider sessionId i)) (\<lambda>decided.
     case decided of
       Settle a \<Rightarrow> return a
     | Proceed chosen previous \<Rightarrow>
         andThen (obtain_workstream env d (invocation_name i) provider sessionId now chosen previous) (\<lambda>got.
         case got of
           Inl refused \<Rightarrow> return refused
         | Inr (w, created) \<Rightarrow>
             andThen (observe (\<lambda>_. nextMembershipFrom
                (case previous of None \<Rightarrow> [] | Some p \<Rightarrow> participationMemberships p) now)) (\<lambda>from.
             andThen (writeJsonFileAtomically (dr_participation d) components
                (JObj (next_participation provider sessionId previous
                   (text_of (jget w ''workstream_id'')) from now))) (\<lambda>_.
             return (admitted previous w created
                (next_participation provider sessionId previous
                   (text_of (jget w ''workstream_id'')) from now))))))"

definition enroll ::
  "(byte list \<Rightarrow> byte list) \<Rightarrow> interference \<Rightarrow> draws \<Rightarrow> participating_provider \<Rightarrow> jstr \<Rightarrow> invocation \<Rightarrow>
   int \<Rightarrow> admission action" where
  "enroll sha env d provider native i now =
     (if \<not> valid_time now then raise TypeError
      else
        andThen (observe (\<lambda>_. participationSessionId sha provider native)) (\<lambda>sessionId.
        andThen (observe (\<lambda>_. participationComponents provider sessionId)) (\<lambda>components.
        if \<not> isWorkstreamName (invocation_name i) then
          andThen (observe (readComponents components (provider_name provider) sessionId)) (\<lambda>existing.
          return (refusal existing (InvalidName (invocation_name i))))
        else
          andThen (observe (decide components (provider_name provider) sessionId i)) (\<lambda>preliminary.
          case preliminary of
            Settle a \<Rightarrow> return a
          | Proceed _ _ \<Rightarrow>
              andThen (ensureParentForFile components) (\<lambda>_.
              andThen (effect (it_before_lock env)) (\<lambda>_.
              enroll_locked env d components (provider_name provider) sessionId i now))))))"

definition describeMembership :: "participation \<Rightarrow> store \<Rightarrow> notice result" where
  "describeMembership p st =
     (if jget p ''workstream_id'' = JUndef then Inr Unscoped
      else map_sum id Membership (get (text_of (jget p ''workstream_id'')) st))"

text \<open>A bare invocation; \<open>entries\<close> is the directory of workstreams.\<close>

definition describe ::
  "(byte list \<Rightarrow> byte list) \<Rightarrow> jstr list \<Rightarrow> participating_provider \<Rightarrow> jstr \<Rightarrow> admission action" where
  "describe sha entries provider native =
     andThen (observe (read_participation sha provider native)) (\<lambda>participation.
     case participation of
       Some p \<Rightarrow>
         andThen (observe (describeMembership p)) (\<lambda>m.
         return \<lparr> ad_joined = True, ad_initiated = False, ad_participation = Some p, ad_pending = False,
                  ad_refused = None, ad_message = Some m \<rparr>)
     | None \<Rightarrow>
         andThen (observe (list_workstreams entries)) (\<lambda>all.
         return \<lparr> ad_joined = False, ad_initiated = False, ad_participation = None, ad_pending = True,
                  ad_refused = None,
                  ad_message = Some (Roster (map (\<lambda>w. jget w ''name'') (filter is_open all))) \<rparr>))"

definition admit ::
  "(byte list \<Rightarrow> byte list) \<Rightarrow> (jstr \<Rightarrow> jstr) \<Rightarrow> (jstr \<Rightarrow> jstr option) \<Rightarrow> jstr list \<Rightarrow> interference \<Rightarrow> draws \<Rightarrow>
   admit_options \<Rightarrow> admission action" where
  "admit sha lower attachment entries env d options =
     (case invocationFor lower attachment options of
        None \<Rightarrow>
          andThen (observe (read_participation sha (ao_provider options) (ao_nativeSessionId options))) (\<lambda>p.
          return \<lparr> ad_joined = (p \<noteq> None), ad_initiated = False, ad_participation = p, ad_pending = False,
                   ad_refused = None, ad_message = None \<rparr>)
      | Some Bare \<Rightarrow> describe sha entries (ao_provider options) (ao_nativeSessionId options)
      | Some i \<Rightarrow> enroll sha env d (ao_provider options) (ao_nativeSessionId options) i (ao_now options))"

end
