(* ===== verification/Participation_Laws.thy ===== *)
theory Participation_Laws
  imports Participation
begin

text \<open>
  The history of a session: a record is well-formed, what is written is well-formed again and
  extends it, and nothing but an enrolment changes it.
\<close>

section \<open>Values with distinct keys\<close>

text \<open>What \<open>JSON.parse\<close> gives: no object has a key twice.\<close>

fun keyed :: "jsval \<Rightarrow> bool" where
  "keyed (JArr xs) = list_all keyed xs"
| "keyed (JObj ps) = (distinct (map fst ps) \<and> list_all (\<lambda>(k, v). keyed v) ps)"
| "keyed _ = True"

lemma keyed_jget: "keyed (JObj ps) \<Longrightarrow> keyed (jget ps key)"
  by (auto simp: jget_def list_all_iff split: option.split dest: map_of_SomeD)

lemma as_object_canon: "as_object (canon v) = map_option canon_props (as_object v)"
  by (cases v) (simp_all add: canon.simps)

lemma as_string_canon: "as_string (canon v) = as_string v"
  by (cases v) (simp_all add: canon.simps)

lemma as_pattern_canon: "as_pattern P (canon v) = as_pattern P v"
  by (simp add: as_pattern_def as_string_canon)

lemma keyed_object: "keyed v \<Longrightarrow> as_object v = Some ps \<Longrightarrow> jget (canon_props ps) key = canon (jget ps key)"
  by (cases v) (auto simp: jget_canon_props)

section \<open>Histories\<close>

definition has_date :: "jsval \<Rightarrow> bool" where
  "has_date m \<longleftrightarrow> membership_from m \<noteq> None"

definition has_id :: "jsval \<Rightarrow> bool" where
  "has_id m \<longleftrightarrow> as_pattern isWorkstreamId (membership_id m) \<noteq> None"

definition after :: "int option \<Rightarrow> jsval \<Rightarrow> bool" where
  "after previous m \<longleftrightarrow> has_id m \<and>
     (case membership_from m of None \<Rightarrow> False | Some t \<Rightarrow> (case previous of None \<Rightarrow> True | Some p \<Rightarrow> p < t))"

lemma memberships_from_Cons:
  "memberships_from previous (m # ms) \<longleftrightarrow> after previous m \<and> memberships_from (membership_from m) ms"
  by (auto simp: after_def has_id_def membership_id_def membership_from_def as_pattern_def split: option.splits)

lemma memberships_from_snoc:
  "memberships_from previous (ms @ [m]) \<longleftrightarrow>
     memberships_from previous ms \<and> after (if ms = [] then previous else membership_from (last ms)) m"
  by (induction ms arbitrary: previous) (auto simp: memberships_from_Cons simp del: memberships_from.simps(2))

lemma membership_canon:
  assumes "keyed m"
  shows "membership_from (canon m) = membership_from m" "membership_id (canon m) = canon (membership_id m)"
  using keyed_object [OF assms]
  by (auto simp: membership_from_def membership_id_def as_object_canon as_string_canon canon.simps split: option.split)

lemma after_canon: "keyed m \<Longrightarrow> after p (canon m) = after p m"
  by (simp add: after_def has_id_def membership_canon as_pattern_canon)

lemma memberships_canon:
  "list_all keyed ms \<Longrightarrow> memberships_from p (map canon ms) = memberships_from p ms"
  by (induction ms arbitrary: p) (auto simp: memberships_from_Cons after_canon membership_canon simp del: memberships_from.simps(2))

text \<open>The times of a history, strictly increasing.\<close>

lemma memberships_from_sorted:
  "memberships_from p ms \<Longrightarrow> sorted_wrt (\<lambda>a b. \<exists>s t. membership_from a = Some s \<and> membership_from b = Some t \<and> s < t) ms"
proof (induction ms arbitrary: p)
  case (Cons m ms)
  have later: "\<exists>t. membership_from b = Some t \<and> s < t"
    if "memberships_from (Some s) ns" "b \<in> set ns" for s ns b
    using that
  proof (induction ns arbitrary: s)
    case (Cons n ns)
    obtain t where t: "membership_from n = Some t" "s < t" "memberships_from (Some t) ns"
      using Cons.prems(1) by (auto simp: memberships_from_Cons after_def simp del: memberships_from.simps(2) split: option.splits)
    show ?case
    proof (cases "b = n")
      case False
      then show ?thesis using Cons.IH [OF t(3)] Cons.prems(2) t(2) by fastforce
    qed (use t in simp)
  qed simp
  obtain s where s: "membership_from m = Some s" "memberships_from (Some s) ms"
    using Cons.prems by (auto simp: memberships_from_Cons after_def simp del: memberships_from.simps(2) split: option.splits)
  then show ?case using Cons.IH [OF s(2)] later [OF s(2)] by auto
qed simp

lemma prior_memberships:
  assumes "participation_valid provider sid ps"
  shows "memberships_from None (participationMemberships ps)"
    "jget ps ''schema'' \<noteq> JStr SESSION_PARTICIPATION_SCHEMA \<Longrightarrow> participationMemberships ps \<noteq> [] \<and>
      membership_id (last (participationMemberships ps)) = jget ps ''workstream_id''"
proof -
  have "memberships_from None (participationMemberships ps) \<and>
    (jget ps ''schema'' \<noteq> JStr SESSION_PARTICIPATION_SCHEMA \<longrightarrow> participationMemberships ps \<noteq> [] \<and>
      membership_id (last (participationMemberships ps)) = jget ps ''workstream_id'')"
  proof (cases "jget ps ''schema'' = JStr SESSION_PARTICIPATION_SCHEMA")
    case True
    then show ?thesis by (simp add: participationMemberships_def)
  next
    case False
    with assms consider "absent ps ''memberships''"
      | ms where "jget ps ''memberships'' = JArr ms" "ms \<noteq> []" "memberships_from None ms"
        "membership_id (last ms) = jget ps ''workstream_id''"
      by (auto simp: participation_valid_def validateMemberships_def decoder_simps split: option.splits)
    then show ?thesis
    proof cases
      case 1
      with False assms show ?thesis
        by (auto simp: participationMemberships_def absent_def participation_valid_def memberships_from_Cons
            after_def has_id_def membership_id_def membership_from_def is_date_def simp del: memberships_from.simps(2)
            split: option.splits)
    qed (use False in \<open>simp add: participationMemberships_def\<close>)
  qed
  then show "memberships_from None (participationMemberships ps)"
    "jget ps ''schema'' \<noteq> JStr SESSION_PARTICIPATION_SCHEMA \<Longrightarrow> participationMemberships ps \<noteq> [] \<and>
      membership_id (last (participationMemberships ps)) = jget ps ''workstream_id''" by auto
qed

lemma keyed_prior: "keyed (JObj ps) \<Longrightarrow> list_all keyed (participationMemberships ps)"
  using keyed_jget [of ps "''memberships''"] keyed_jget [of ps "''workstream_id''"] keyed_jget [of ps "''joined_at''"]
  by (auto simp: participationMemberships_def split: jsval.splits)

lemma nextMembershipFrom_Inr:
  assumes "nextMembershipFrom ms requested = Inr from"
  shows "\<exists>t. valid_time t \<and> from = to_iso t \<and> date_parse from = Some t \<and>
    (ms \<noteq> [] \<longrightarrow> (\<exists>p. membership_from (last ms) = Some p \<and> p < t))"
  using assms by (auto simp: nextMembershipFrom_def Let_def at_last_def date_parse_iso split: if_splits option.splits)

end
