(* ===== verification/Read_States.thy ===== *)
theory Read_States
  imports Coverage_Merge Participation_Laws
begin

text \<open>
  What the strict decoder of read states accepts (\<open>parseNudgeReadState\<close> of \<open>nudge/read-state.ts\<close>): up to
  the order of the properties, exactly the objects that spell a well-formed state, field by field.
\<close>

section \<open>Values of \<open>JSON.parse\<close>\<close>

fun parsed :: "jsval \<Rightarrow> bool" where
  "parsed (JArr xs) = list_all parsed xs"
| "parsed (JObj ps) = (distinct (map fst ps) \<and> list_all (\<lambda>(k, v). parsed v) ps)"
| "parsed JUndef = False"
| "parsed (JBigInt n) = False"
| "parsed JNonPlain = False"
| "parsed v = True"

lemma parsed_keyed: "parsed v \<Longrightarrow> keyed v"
proof (induction v rule: parsed.induct)
  case (2 ps)
  have "keyed v" if "(k, v) \<in> set ps" for k v
    using "2.IH" [of "(k, v)" k v] "2.prems" that by (auto simp: list_all_iff)
  with "2.prems" show ?case by (auto simp: list_all_iff)
qed (auto simp: list_all_iff)

lemma parsed_get: "parsed (JObj ps) \<Longrightarrow> jget ps key = JUndef \<or> parsed (jget ps key)"
  by (auto simp: jget_def list_all_iff split: option.split dest: map_of_SomeD)

lemma keyed_array: "keyed v \<Longrightarrow> v = JArr xs \<Longrightarrow> x \<in> set xs \<Longrightarrow> keyed x"
  by (simp add: list_all_iff)

section \<open>Objects with the same properties\<close>

lemma map_of_canon_props:
  assumes "distinct (map fst ps)"
  shows "map_of (canon_props ps) k = (case map_of ps k of None \<Rightarrow> None | Some v \<Rightarrow> if v = JUndef then None else Some (canon v))"
proof -
  have *: "distinct (map fst (map (\<lambda>(k, v). (k, canon v)) (sort_key fst ps)))"
    using distinct_keys_sort [OF assms] by (simp add: comp_def case_prod_unfold)
  have "map_of (map (\<lambda>(k, v). (k, canon v)) (sort_key fst ps)) k = map_option canon (map_of ps k)"
    using map_of_sort_key [OF assms] by (simp add: map_of_map comp_def)
  then show ?thesis
    by (simp add: canon_props_def map_of_filter_distinct [OF *] canon_JUndef split: option.splits)
qed

lemma canon_props_same:
  assumes "distinct (map fst ps)" "distinct (map fst qs)"
    "\<And>k. map_of (canon_props ps) k = map_of (canon_props qs) k"
  shows "canon_props ps = canon_props qs"
proof -
  note d = distinct_canon_props [OF assms(1)] distinct_canon_props [OF assms(2)]
  have "map_of (canon_props ps) = map_of (canon_props qs)" using assms(3) by (rule ext)
  with d have set: "set (canon_props ps) = set (canon_props qs)" by (simp add: map_of_inject_set)
  have "inj_on fst (set (canon_props ps))" using d(1) by (simp add: distinct_map)
  then have "inj_on fst (set (canon_props ps) \<union> set (canon_props qs))" unfolding set by simp
  then show ?thesis
    by (rule map_sorted_distinct_set_unique [OF _ sorted_canon_props d(1) sorted_canon_props d(2) set])
qed

lemma canon_object:
  assumes "distinct (map fst ps)" "only_keys ps ks" "distinct (map fst qs)" "only_keys qs ks"
    "\<And>k. k \<in> set ks \<Longrightarrow> canon (jget ps k) = canon (jget qs k)"
  shows "canon (JObj ps) = canon (JObj qs)"
proof -
  have none: "map_of rs k = None" if "only_keys rs ks" "k \<notin> js ` set ks" for rs k
    using that by (force simp: only_keys_def list_all_iff map_of_eq_None_iff)
  have get: "map_of (canon_props rs) (js k) = (if canon (jget rs k) = JUndef then None else Some (canon (jget rs k)))"
    if "distinct (map fst rs)" for rs k
    using that by (auto simp: map_of_canon_props jget_def canon_JUndef split: option.split)
  have "canon_props ps = canon_props qs"
  proof (rule canon_props_same [OF assms(1,3)])
    fix k
    show "map_of (canon_props ps) k = map_of (canon_props qs) k"
    proof (cases "k \<in> js ` set ks")
      case True
      then obtain key where "k = js key" "key \<in> set ks" by blast
      with assms(5) show ?thesis by (simp add: get assms(1,3))
    next
      case False
      with none [OF assms(2)] none [OF assms(4)] show ?thesis by (simp add: map_of_canon_props assms(1,3))
    qed
  qed
  then show ?thesis by simp
qed

lemmas state_props = coverage_props_def range_props_def pending_props_def read_state_props_def

section \<open>What is decoded is what is spelled\<close>

lemma parse_ranges_spelled:
  assumes "parse_ranges whole acc vs = Some rs" "list_all keyed vs"
  shows "\<exists>new. rs = acc @ new \<and> map canon vs = map (\<lambda>r. canon (JObj (range_props r))) new"
  using assms
proof (induction whole acc vs arbitrary: rs rule: parse_ranges.induct)
  case (2 whole acc v vs)
  from "2.prems"(1) obtain ps a b where p: "v = JObj ps" "only_keys ps [''start'', ''end'']"
    "jget ps ''start'' = JNum (NInt a)" "jget ps ''end'' = JNum (NInt b)" "safe_nonneg a" "safe_nonneg b"
    "\<not> range_refused whole acc a b"
    and rest: "parse_ranges whole (acc @ [\<lparr> r_start = a, r_end = b \<rparr>]) vs = Some rs"
    by (auto simp: decoder_simps)
  have "canon v = canon (JObj (range_props \<lparr> r_start = a, r_end = b \<rparr>))"
    unfolding p(1) by (rule canon_object [OF _ p(2)]) (use p "2.prems"(2) in \<open>auto simp: range_props_def\<close>)
  moreover obtain new where "rs = (acc @ [\<lparr> r_start = a, r_end = b \<rparr>]) @ new"
    "map canon vs = map (\<lambda>r. canon (JObj (range_props r))) new"
  proof -
    have "as_keys [''start'', ''end''] v = Some ps" "as_integer (jget ps ''start'') = Some a"
      "as_integer (jget ps ''end'') = Some b" using p by (simp_all add: decoder_simps)
    note IH = "2.IH" [OF this _ rest]
    show thesis using IH p(7) "2.prems"(2) by (force simp: guard_Some intro: that)
  qed
  ultimately show ?case by (intro exI [of _ "\<lparr> r_start = a, r_end = b \<rparr> # new"]) simp
qed simp

lemma canon_objects: "map canon vs = map (\<lambda>x. canon (JObj (f x))) xs \<Longrightarrow> canon (JArr vs) = canon (JArr (map (\<lambda>x. JObj (f x)) xs))"
proof -
  assume eq: "map canon vs = map (\<lambda>x. canon (JObj (f x))) xs"
  have "JUndef \<notin> set (map canon vs)" unfolding eq by auto
  then have "\<forall>v\<in>set vs. v \<noteq> JUndef" by (auto simp: canon.simps image_iff)
  with eq show ?thesis by (simp add: canon_JArr)
qed

lemma read_coverage_entry_spelled:
  assumes "read_coverage_entry v = Some e" "keyed v"
  shows "canon v = canon (JObj (coverage_props e))"
proof -
  from assms(1) obtain ps vs where v: "v = JObj ps" "only_keys ps coverage_keys" "jget ps ''ranges'' = JArr vs"
    "parse_ranges (cv_total_bytes e) [] vs = Some (cv_ranges e)"
    and fields: "jget ps ''provider'' = JStr (cv_provider e)" "jget ps ''session_id'' = JStr (cv_session_id e)"
      "jget ps ''turn_id'' = JStr (cv_turn_id e)" "jget ps ''record_sha256'' = JStr (cv_record_sha256 e)"
      "jget ps ''field'' = JStr (field_name (cv_field e))" "jget ps ''field_sha256'' = JStr (cv_field_sha256 e)"
      "jget ps ''total_bytes'' = JNum (NInt (cv_total_bytes e))"
    by (auto simp: read_coverage_entry_def decoder_simps as_field_def split: if_splits)
  have "list_all keyed vs" using keyed_jget [of ps "''ranges''"] assms(2) v(1,3) by simp
  with parse_ranges_spelled [OF v(4)] have "canon (JArr vs) = canon (JArr (map (\<lambda>r. JObj (range_props r)) (cv_ranges e)))"
    by (intro canon_objects) auto
  with v(3) fields have "canon (jget ps k) = canon (jget (coverage_props e) k)" if "k \<in> set coverage_keys" for k
    using that by (simp add: coverage_keys_def del: canon_JArr_JObj)
      (elim disjE; simp add: coverage_props_def del: canon_JArr_JObj)
  then show ?thesis
    unfolding v(1) by (intro canon_object [OF _ v(2) coverage_props_keys]) (use assms(2) v(1) in simp_all)
qed

lemma parseReadTurn_spelled:
  assumes "parseReadTurn v provider generation = Some t" "keyed v"
  shows "canon v = canon (JObj (turn_props t))"
proof (cases "provider = js ''codex''")
  case True
  with assms(1) obtain ps i where p: "v = JObj ps" "only_keys ps [''kind'', ''turn_id'']" "t = CodexTurn i"
    "jget ps ''kind'' = JStr (js ''codex'')" "jget ps ''turn_id'' = JStr i"
    by (auto simp: parseReadTurn_def decoder_simps)
  show ?thesis unfolding p(1) by (rule canon_object [OF _ p(2)]) (use p assms(2) in auto)
next
  case False
  with assms(1) obtain ps g where p: "v = JObj ps" "only_keys ps [''kind'', ''generation'']" "t = ClaudeTurn g"
    "jget ps ''kind'' = JStr (js ''claude'')" "jget ps ''generation'' = JNum (NInt g)"
    by (auto simp: parseReadTurn_def decoder_simps)
  show ?thesis unfolding p(1) by (rule canon_object [OF _ p(2)]) (use p assms(2) in auto)
qed

lemma parsePending_spelled:
  assumes "parsePending provider generation v = Some p" "keyed v"
  shows "canon v = canon (JObj (pending_props p))"
proof -
  from assms(1) obtain ps where v: "v = JObj ps" "only_keys ps pending_keys"
    "parseReadTurn (jget ps ''turn'') provider generation = Some (pd_turn p)"
    and fields: "jget ps ''nonce'' = JStr (pd_nonce p)" "jget ps ''tool_use_id'' = JStr (pd_tool_use_id p)"
      "jget ps ''project_root'' = JStr (pd_project_root p)" "jget ps ''command'' = JStr (pd_command p)"
      "jget ps ''query_sha256'' = JStr (pd_query_sha256 p)" "jget ps ''tool_input_sha256'' = JStr (pd_tool_input_sha256 p)"
      "jget ps ''created_at'' = JStr (pd_created_at p)" "jget ps ''expires_at'' = JStr (pd_expires_at p)"
      "jget ps ''output'' = (case pd_output p of None \<Rightarrow> JUndef | Some s \<Rightarrow> JStr s)"
    by (auto simp: parsePending_def decoder_simps)
  have "canon (jget ps ''turn'') = canon (JObj (turn_props (pd_turn p)))"
    using parseReadTurn_spelled [OF v(3)] keyed_jget [of ps "''turn''"] assms(2) v(1) by simp
  with fields have "canon (jget ps k) = canon (jget (pending_props p) k)" if "k \<in> set pending_keys" for k
    using that by (simp add: pending_keys_def)
      (elim disjE; cases "pd_output p"; simp add: pending_props_def)
  then show ?thesis
    unfolding v(1) by (intro canon_object [OF _ v(2) pending_props_keys]) (use assms(2) v(1) in simp_all)
qed

lemma map_opt_spelled:
  assumes "map_opt f vs = Some xs" "\<And>v x. v \<in> set vs \<Longrightarrow> f v = Some x \<Longrightarrow> canon v = canon (JObj (g x))"
  shows "canon (JArr vs) = canon (JArr (map (\<lambda>x. JObj (g x)) xs))"
proof (rule canon_objects)
  show "map canon vs = map (\<lambda>x. canon (JObj (g x))) xs"
    using assms
  proof (induction vs arbitrary: xs)
    case (Cons v vs)
    then obtain x ys where "f v = Some x" "map_opt f vs = Some ys" "xs = x # ys" by (auto simp: bind_eq_Some_conv)
    with Cons.IH [of ys] Cons.prems(2) show ?case by simp
  qed simp
qed

lemma read_read_state_spelled:
  assumes "read_read_state v provider generation = Some st" "keyed v"
  shows "canon v = canon (JObj (read_state_props st))"
proof -
  from assms(1) obtain ps pv cv where v: "v = JObj ps" "only_keys ps state_keys"
    "jget ps ''pending'' = JArr pv" "jget ps ''coverage'' = JArr cv" "jget ps ''outside_window'' = JBool (rs_outside_window st)"
    "map_opt (parsePending provider generation) pv = Some (rs_pending st)"
    "map_opt read_coverage_entry cv = Some (rs_coverage st)"
    "as_optional (\<lambda>t. parseReadTurn t provider generation) (jget ps ''informed_turn'') = Some (rs_informed_turn st)"
    by (auto simp: read_read_state_def decoder_simps)
  have k: "keyed (jget ps key)" for key using keyed_jget assms(2) v(1) by blast
  have "list_all keyed pv" "list_all keyed cv" using k [of "''pending''"] k [of "''coverage''"] by (simp_all add: v(3,4))
  then have "canon (JArr pv) = canon (JArr (map (\<lambda>p. JObj (pending_props p)) (rs_pending st)))"
    "canon (JArr cv) = canon (JArr (map (\<lambda>e. JObj (coverage_props e)) (rs_coverage st)))"
    using map_opt_spelled [OF v(6)] map_opt_spelled [OF v(7)] parsePending_spelled read_coverage_entry_spelled
    by (auto simp: list_all_iff simp del: canon_JArr_JObj canon_JObj)
  moreover have "canon (jget ps ''informed_turn'') =
      canon (case rs_informed_turn st of None \<Rightarrow> JUndef | Some t \<Rightarrow> JObj (turn_props t))"
    using v(8) parseReadTurn_spelled k by (auto simp: decoder_simps simp del: canon_JObj)
  ultimately have "canon (jget ps k) = canon (jget (read_state_props st) k)" if "k \<in> set state_keys" for k
    using that v(3-5) by (simp add: state_keys_def del: canon_JArr_JObj canon_JObj)
      (elim disjE; cases "rs_informed_turn st"; simp add: read_state_props_def del: canon_JArr_JObj canon_JObj)
  then show ?thesis
    unfolding v(1) by (intro canon_object [OF _ v(2) read_state_props_keys]) (use assms(2) v(1) in simp_all)
qed

section \<open>The order of properties does not matter\<close>

lemma parsed_array:
  assumes "parsed (JArr xs)"
  shows "canon (JArr xs) = JArr (map canon xs)"
proof -
  have "\<forall>x\<in>set xs. x \<noteq> JUndef" using assms by (auto simp: list_all_iff)
  then show ?thesis by (rule canon_JArr)
qed

lemma keys_canon:
  assumes "parsed (JObj ps)"
  shows "only_keys (canon_props ps) ks = only_keys ps ks"
proof -
  have d: "distinct (map fst ps)" and p: "\<forall>(k, v)\<in>set ps. v \<noteq> JUndef" using assms by (auto simp: list_all_iff)
  have "fst ` set (canon_props ps) = fst ` set ps"
    using p by (force simp: canon_props_def canon_JUndef image_iff)
  then show ?thesis by (metis (mono_tags, lifting) only_keys_def list_all_iff list.set_map)
qed

lemma scalars_canon:
  "as_integer (canon v) = as_integer v" "as_bool (canon v) = as_bool v" "as_field (canon v) = as_field v"
  "as_pattern P (canon v) = as_pattern P v" "canon v = JStr s \<longleftrightarrow> v = JStr s"
  by (cases v; simp add: canon.simps as_integer_def as_field_def as_pattern_def)+

lemma array_canon: "parsed v \<Longrightarrow> as_array (canon v) = map_option (map canon) (as_array v)"
  by (cases v) (simp_all add: canon.simps(3-) parsed_array del: parsed.simps)

lemma map_opt_canon: "(\<And>x. x \<in> set xs \<Longrightarrow> f (canon x) = f x) \<Longrightarrow> map_opt f (map canon xs) = map_opt f xs"
  by (induction xs) auto

lemma parse_ranges_canon:
  "list_all parsed vs \<Longrightarrow> parse_ranges whole acc (map canon vs) = parse_ranges whole acc vs"
proof (induction vs arbitrary: acc)
  case (Cons v vs)
  then have vs: "list_all parsed vs" and v: "parsed v" by simp_all
  show ?case
  proof (cases v)
    case (JObj ps)
    with v have "distinct (map fst ps)" by simp
    then show ?thesis
      using Cons.IH [OF vs] keys_canon v by (simp add: JObj as_keys_def jget_canon_props scalars_canon del: parsed.simps)
  qed (simp_all add: as_keys_def canon.simps parsed_array split: jsval.splits)
qed simp

text \<open>An element or a property of a parsed value that is an array.\<close>

lemma array_property:
  assumes "parsed (JObj ps)"
  obtains (other) "as_array (jget ps key) = None" "as_array (canon (jget ps key)) = None"
    | (array) xs where "jget ps key = JArr xs" "canon (jget ps key) = JArr (map canon xs)" "list_all parsed xs"
proof (cases "jget ps key")
  case (JArr xs)
  then have "parsed (JArr xs)" using parsed_get [OF assms, of key] by auto
  then show thesis using array JArr parsed_array by simp
qed (use other in \<open>simp_all add: canon.simps\<close>)

lemma as_keys_parsed:
  assumes "parsed (JObj ps)"
  shows "as_keys ks (canon (JObj ps)) = (if only_keys ps ks then Some (canon_props ps) else None)"
    "as_keys ks (JObj ps) = (if only_keys ps ks then Some ps else None)"
    "jget (canon_props ps) key = canon (jget ps key)"
  using assms keys_canon [OF assms] by (simp_all add: as_keys_def jget_canon_props)

lemma not_object_canon:
  "as_object v = None \<Longrightarrow> as_keys ks (canon v) = None \<and> as_keys ks v = None"
  by (cases v) (simp_all add: as_keys_def canon.simps)

lemma read_coverage_entry_canon:
  assumes "parsed v"
  shows "read_coverage_entry (canon v) = read_coverage_entry v"
proof (cases "as_object v")
  case None
  then show ?thesis using not_object_canon by (simp add: read_coverage_entry_def)
next
  case (Some ps)
  then have v: "v = JObj ps" by (simp add: decoder_simps)
  note get = as_keys_parsed [OF assms [unfolded v]]
  show ?thesis
    by (rule array_property [OF assms [unfolded v], of "''ranges''"])
      (simp_all add: read_coverage_entry_def v get scalars_canon parse_ranges_canon del: canon_JObj)
qed

lemma parseReadTurn_canon:
  assumes "parsed v"
  shows "parseReadTurn (canon v) provider generation = parseReadTurn v provider generation"
proof (cases "as_object v")
  case None
  then show ?thesis using not_object_canon by (simp add: parseReadTurn_def)
next
  case (Some ps)
  then have v: "v = JObj ps" by (simp add: decoder_simps)
  show ?thesis
    by (simp add: parseReadTurn_def v as_keys_parsed [OF assms [unfolded v]] scalars_canon del: canon_JObj)
qed

lemma turn_property:
  assumes "parsed (JObj ps)"
  shows "parseReadTurn (canon (jget ps key)) provider generation = parseReadTurn (jget ps key) provider generation"
  using parsed_get [OF assms, of key] parseReadTurn_canon by (auto simp: canon.simps)

lemma optional_canon:
  assumes "f (canon v) = f v"
  shows "as_optional f (canon v) = as_optional f v"
  using assms by (simp add: as_optional_def canon_JUndef)

lemma parsePending_canon:
  assumes "parsed v"
  shows "parsePending provider generation (canon v) = parsePending provider generation v"
proof (cases "as_object v")
  case None
  then show ?thesis using not_object_canon by (simp add: parsePending_def)
next
  case (Some ps)
  then have v: "v = JObj ps" by (simp add: decoder_simps)
  have "as_optional (as_pattern Q) (canon (jget ps key)) = as_optional (as_pattern Q) (jget ps key)" for Q key
    by (rule optional_canon) (rule scalars_canon)
  then show ?thesis
    by (simp add: parsePending_def v as_keys_parsed [OF assms [unfolded v]] scalars_canon
        turn_property [OF assms [unfolded v]] del: canon_JObj)
qed

lemma read_read_state_canon:
  assumes "parsed v"
  shows "read_read_state (canon v) provider generation = read_read_state v provider generation"
proof (cases "as_object v")
  case None
  then show ?thesis using not_object_canon by (simp add: read_read_state_def)
next
  case (Some ps)
  then have v: "v = JObj ps" by (simp add: decoder_simps)
  note get = as_keys_parsed [OF assms [unfolded v]]
  have opt: "as_optional (\<lambda>t. parseReadTurn t provider generation) (canon (jget ps key)) =
      as_optional (\<lambda>t. parseReadTurn t provider generation) (jget ps key)" for key
    by (rule optional_canon) (rule turn_property [OF assms [unfolded v]])
  have lists: "list_all parsed xs \<Longrightarrow> map_opt (parsePending provider generation) (map canon xs) = map_opt (parsePending provider generation) xs"
    "list_all parsed xs \<Longrightarrow> map_opt read_coverage_entry (map canon xs) = map_opt read_coverage_entry xs" for xs
    by (rule map_opt_canon, simp add: list_all_iff parsePending_canon read_coverage_entry_canon)+
  show ?thesis
    by (rule array_property [OF assms [unfolded v], of "''pending''"];
        rule array_property [OF assms [unfolded v], of "''coverage''"])
      (simp_all add: read_read_state_def v get scalars_canon opt lists del: canon_JObj)
qed

section \<open>Properties\<close>

text \<open>C30: \<open>parseNudgeReadState\<close> takes a parsed value for a read state exactly when the value spells that state
  (its properties and those of its entries, in any order, and no others) and the state is well-formed
  for the provider and generation that read it: at most 32 pending reads and 1024 coverage entries,
  nonces, tool uses and coverage keys each only once, every identifier, digest, path, time, lifetime,
  turn and text as its record asks, and ranges in order, apart and within the bytes of their field.
  Nothing else is accepted, and what a well-formed state is written as is read back as that state.
\<close>

theorem parseNudgeReadState_roundtrip:
  assumes "parsed v"
  shows "parseNudgeReadState v provider generation = Inr st \<longleftrightarrow>
    read_state_ok provider generation st \<and> canon v = canon (JObj (read_state_props st))"
proof -
  have "read_read_state v provider generation = Some st \<longleftrightarrow>
      read_state_ok provider generation st \<and> canon v = canon (JObj (read_state_props st))"
  proof
    assume "read_read_state v provider generation = Some st"
    with parsed_keyed [OF assms]
    show "read_state_ok provider generation st \<and> canon v = canon (JObj (read_state_props st))"
      using read_read_state_ok read_read_state_spelled by blast
  next
    assume ok: "read_state_ok provider generation st \<and> canon v = canon (JObj (read_state_props st))"
    then have "read_read_state (canon v) provider generation = Some st"
      using read_read_state_props by (metis canon_JObj)
    then show "read_read_state v provider generation = Some st" using read_read_state_canon [OF assms] by simp
  qed
  then show ?thesis by (simp add: parseNudgeReadState_def type_checked_Inr)
qed

text \<open>A state with everything in it, its properties in another order.\<close>

definition sample_pending :: pending_read where
  "sample_pending = \<lparr> pd_nonce = replicate 32 0x61, pd_tool_use_id = js ''toolu_1'',
     pd_turn = CodexTurn (js ''turn_'' @ replicate 32 0x62), pd_project_root = js ''/work'',
     pd_command = js ''barbaro read context'', pd_query_sha256 = replicate 64 0x30,
     pd_tool_input_sha256 = replicate 64 0x31, pd_created_at = js ''2026-01-01T00:00:00.000Z'',
     pd_expires_at = js ''2026-01-01T00:05:00.000Z'', pd_output = Some (js ''text'') \<rparr>"

definition full_state :: read_state where
  "full_state = \<lparr> rs_pending = [sample_pending], rs_coverage = [sample_entry 0 10], rs_outside_window = True,
     rs_informed_turn = Some (CodexTurn (js ''turn_'' @ replicate 32 0x62)) \<rparr>"

lemma full_state_ok: "read_state_ok (js ''codex'') None full_state"
proof -
  have life: "lifetime_ok (js ''2026-01-01T00:00:00.000Z'') (js ''2026-01-01T00:05:00.000Z'')" by code_simp
  then have time: "timestamp (js ''2026-01-01T00:00:00.000Z'')" "timestamp (js ''2026-01-01T00:05:00.000Z'')"
    by (auto simp: lifetime_ok_def timestamp_def bounded_def byte_length_js_ascii js_def split: option.splits)
  have texts: "bounded 512 (js ''toolu_1'')" "bounded 4096 (js ''/work'')" "isAbsolute (js ''/work'')"
    "bounded 8192 (js ''barbaro read context'')" "bounded READ_OUTPUT_CEILING_BYTES (js ''text'')"
    by (simp_all add: bounded_def byte_length_js_ascii isAbsolute_def js_def READ_OUTPUT_CEILING_BYTES_def)
  have ids: "coverage_ok (sample_entry 0 10)" "sha256_pattern (replicate 64 0x31)" "sha256_pattern (replicate 64 0x30)"
    "nonce_pattern (replicate 32 0x61)" "turn_id_pattern (js ''turn_'' @ replicate 32 0x62)" by code_simp+
  show ?thesis
    by (simp add: read_state_ok_def full_state_def pending_ok_def sample_pending_def life time texts ids
        MAX_PENDING_READS_def MAX_READ_COVERAGE_RECORDS_def)
qed

lemma full_state_parsed: "parsed (JObj (rev (read_state_props full_state)))"
  by code_simp

theorem parseNudgeReadState_roundtrip_witness:
  "parseNudgeReadState (JObj (rev (read_state_props full_state))) (js ''codex'') None = Inr full_state"
proof -
  let ?ps = "read_state_props full_state"
  have keys: "distinct (map fst (rev ?ps))" "only_keys (rev ?ps) state_keys"
    using read_state_props_keys [of full_state] by (simp_all add: rev_map [symmetric] only_keys_def)
  have "map_of (rev ?ps) = map_of ?ps"
    using keys(1) read_state_props_keys(1) [of full_state] by (simp add: map_of_inject_set)
  then have "canon (JObj (rev ?ps)) = canon (JObj ?ps)"
    by (intro canon_object [OF keys read_state_props_keys]) (simp add: jget_def)
  then show ?thesis
    using parseNudgeReadState_roundtrip [OF full_state_parsed, of "js ''codex''" None full_state] full_state_ok by blast
qed

end
