(* ===== verification/Participation_History.thy ===== *)
theory Participation_History
  imports Participation_Laws
begin

text \<open>
  The records of the sessions over the life of a store.  Any number of processes create workstreams,
  change their status and enrol sessions; an enrolment waits for the lock of its session and, when
  it creates a workstream, for the lock of the workstreams, and other processes act while it
  waits.  Each record is only ever extended.
\<close>

section \<open>The files of the sessions\<close>

definition session_path :: "participating_provider \<Rightarrow> jstr \<Rightarrow> store_path" where
  "session_path P sid = [js ''sessions'', provider_name P, sid @ js ''.json'']"

lemma components_Inr: "participationComponents P sid = Inr c \<longleftrightarrow> session_id_pattern sid \<and> c = session_path P sid"
  by (auto simp: participationComponents_def session_path_def)

lemma session_shape:
  assumes "session_id_pattern i"
  shows "\<exists>h. i = js ''ses_'' @ h \<and> length h = 32 \<and> list_all is_hex h"
proof -
  have i: "take (length ''ses_'') i = js ''ses_''" "length i = length ''ses_'' + 32"
    "list_all is_hex (drop (length ''ses_'') i)"
    using assms unfolding session_id_pattern_def id_pattern_def by blast+
  then have "i = js ''ses_'' @ drop (length ''ses_'') i" by (metis append_take_drop_id)
  moreover have "length (drop (length ''ses_'') i) = 32" using i(2) by simp
  ultimately show ?thesis using i(3) by blast
qed

lemma session_component: "session_id_pattern i \<Longrightarrow> validateComponent (i @ js ''.json'')"
proof -
  assume "session_id_pattern i"
  then obtain h where h: "i = js ''ses_'' @ h" "list_all is_hex h" using session_shape by blast
  have "u \<noteq> 0x2F \<and> u \<noteq> 0x5C \<and> u \<noteq> 0" if "u \<in> set h" for u
    using h(2) that hex_units by (auto simp: list_all_iff)
  then show ?thesis unfolding h(1) by (auto simp: validateComponent_def js_def)
qed

lemma usable_session: "session_id_pattern sid \<Longrightarrow> usable_path (session_path P sid)"
  using session_component [of sid]
  by (cases P) (simp_all add: usable_path_def session_path_def, simp_all add: validateComponent_def js_def)

lemma session_not_temporary: "session_id_pattern i \<Longrightarrow> i @ js ''.json'' \<noteq> temporaryName x nonce"
  by (drule session_shape) (auto simp: temporary_hd js_def)

lemma session_paths_apart:
  assumes "session_id_pattern sid" "session_id_pattern sid'" "(P', sid') \<noteq> (P, sid)"
  shows "apart (session_path P sid) (temporaryPath (session_path P sid) nonce) (session_path P' sid')"
  using session_not_temporary [OF assms(2), THEN not_sym] assms(3)
  by (cases P; cases P') (auto simp: apart_def session_path_def temporaryPath_def)

lemma workstream_paths_apart:
  assumes "hd path = js ''workstreams''" "2 \<le> length path"
  shows "apart path (temporaryPath path nonce) (session_path P sid)"
  using assms by (cases path; cases "tl path")
    (auto simp: apart_def session_path_def temporaryPath_def parallel_def)

section \<open>What a reader of a session sees\<close>

abbreviation seen :: "participating_provider \<Rightarrow> jstr \<Rightarrow> store \<Rightarrow> participation option result" where
  "seen \<equiv> readStable"

lemma seen_by_file:
  "get_file (session_path P sid) s = get_file (session_path P sid) st \<Longrightarrow> seen P sid s = seen P sid st"
  by (simp add: readStable_def participationComponents_def readComponents_def session_path_def get_file_def fun_eq_iff)

lemma seen_not_session: "\<not> session_id_pattern sid \<Longrightarrow> seen P sid st = Inl TypeError"
  by (simp add: readStable_def participationComponents_def)

lemma seen_read:
  "session_id_pattern sid \<Longrightarrow> seen P sid st = readComponents (session_path P sid) (provider_name P) sid st"
  by (simp add: readStable_def participationComponents_def session_path_def)

text \<open>Another process sees the record of a session change only as the record is extended.\<close>

definition continues :: "participation \<Rightarrow> participation \<Rightarrow> bool" where
  "continues p q \<longleftrightarrow> keyed (JObj q) \<and> jget q ''joined_at'' = jget p ''joined_at'' \<and>
     prefix (map canon (participationMemberships p)) (map canon (participationMemberships q))"

definition later :: "participation option result \<Rightarrow> participation option result \<Rightarrow> bool" where
  "later a b =
     (case a of
        Inl e \<Rightarrow> b = Inl e
      | Inr None \<Rightarrow> True
      | Inr (Some p) \<Rightarrow>
          keyed (JObj p) \<longrightarrow> b = Inl StoreFileTooLargeError \<or> (\<exists>q. b = Inr (Some q) \<and> continues p q))"

lemma later_refl [simp]: "later a a"
  by (auto simp: later_def continues_def split: sum.split option.split)

lemma later_trans: "later a b \<Longrightarrow> later b c \<Longrightarrow> later a c"
  by (auto simp: later_def continues_def split: sum.splits option.splits dest: prefix_order.trans)

type_synonym session_key = "participating_provider \<times> jstr"

definition evolved :: "session_key set \<Rightarrow> store \<Rightarrow> store \<Rightarrow> bool" where
  "evolved held a b \<longleftrightarrow> (tree a \<longrightarrow> tree b \<and>
     (\<forall>P sid. later (seen P sid a) (seen P sid b) \<and> ((P, sid) \<in> held \<longrightarrow> seen P sid b = seen P sid a)))"

lemma evolved_preorder: "preorder_rel (evolved held)"
  unfolding preorder_rel_def
proof
  show "transp (evolved held)"
    unfolding transp_def evolved_def by (metis later_trans)
qed (simp add: reflp_def evolved_def)

lemma evolved_trans: "evolved held a b \<Longrightarrow> evolved held b c \<Longrightarrow> evolved held a c"
  using evolved_preorder by (auto simp: preorder_rel_def dest: transpD)

lemma evolved_refl [simp]: "evolved held a a"
  using evolved_preorder by (auto simp: preorder_rel_def dest: reflpD)

text \<open>No record of a session is touched.\<close>

definition untouched :: "store \<Rightarrow> store \<Rightarrow> bool" where
  "untouched a b \<longleftrightarrow> (tree a \<longrightarrow> tree b \<and>
     (\<forall>P sid. session_id_pattern sid \<longrightarrow> get_file (session_path P sid) b = get_file (session_path P sid) a))"

lemma untouched_preorder: "preorder_rel untouched"
  unfolding preorder_rel_def by (auto simp: reflp_def transp_def untouched_def)

lemma untouched_seen: "untouched a b \<Longrightarrow> tree a \<Longrightarrow> seen P sid b = seen P sid a"
  by (cases "session_id_pattern sid") (simp_all add: seen_not_session, rule seen_by_file, simp add: untouched_def)

lemma untouched_evolved:
  assumes "untouched a b"
  shows "evolved held a b"
  unfolding evolved_def
proof (rule impI)
  assume a: "tree a"
  have "seen P sid b = seen P sid a" for P sid by (rule untouched_seen [OF assms a])
  moreover have "tree b" using assms a by (simp add: untouched_def)
  ultimately show "tree b \<and> (\<forall>P sid. later (seen P sid a) (seen P sid b) \<and>
      ((P, sid) \<in> held \<longrightarrow> seen P sid b = seen P sid a))" by simp
qed

lemma traced_evolved: "traced untouched m \<Longrightarrow> traced (evolved held) m"
  unfolding traced_def using untouched_evolved by blast

section \<open>The operations on workstreams leave the sessions alone\<close>

lemma write_untouched:
  assumes "hd path = js ''workstreams''" "2 \<le> length path"
  shows "traced untouched (writeJsonFileAtomically nonce path v)"
  unfolding traced_def untouched_def
proof (intro allI ballI impI)
  fix st s assume s: "s \<in> set (fst (writeJsonFileAtomically nonce path v st))" and t: "tree st"
  define w where "w = \<lparr> fw_nonce = nonce, fw_path = path, fw_value = v \<rparr>"
  have put: "s \<in> set (fst (put_file w st))" using s by (simp add: w_def put_file_def)
  have "file_away w (session_path P sid)" for P sid
    using workstream_paths_apart [OF assms] by (simp add: w_def file_away_def)
  then show "tree s \<and> (\<forall>P sid. session_id_pattern sid \<longrightarrow>
      get_file (session_path P sid) s = get_file (session_path P sid) st)"
    using put_file_tree [OF t put] put_file_away [OF t put] by blast
qed

lemma create_untouched: "traced untouched (create n1 n2 i opts)"
  unfolding create_def
  by (intro traced_intros untouched_preorder write_untouched)
    (simp_all add: claimComponents_def recordComponents_def)

lemma setStatus_untouched: "traced untouched (setStatus nonce reference status now)"
  unfolding setStatus_def
  by (intro traced_intros untouched_preorder write_untouched) (simp_all add: recordComponents_def)

section \<open>An enrolment extends one record\<close>

lemma ensureParent_untouched:
  assumes "session_id_pattern sid"
  shows "traced untouched (ensureParentForFile (session_path P sid))"
  unfolding traced_def untouched_def
proof (intro allI ballI impI)
  let ?p = "session_path P sid" and ?t = "temporaryPath (session_path P sid) (js ''x'')"
  fix st s assume s: "s \<in> set (fst (ensureParentForFile ?p st))" and t: "tree st"
  note u = usable_session [OF assms, of P]
  have nb: "\<not> blocked st ?p" using s ensureParent_tree(2) [OF t u] by (cases "blocked st ?p") auto
  from ensureParent_tree(1) [OF t u nb] s have "\<exists>j. s = make_dirs (take j (butlast ?p)) st" by auto
  then have ws: "write_state ?p ?t None st s" using write_stateI(1) by blast
  note sib = usable_sibling [OF u]
  show "tree s \<and> (\<forall>P' sid'. session_id_pattern sid' \<longrightarrow>
      get_file (session_path P' sid') s = get_file (session_path P' sid') st)"
  proof (intro conjI allI impI)
    show "tree s" using write_state_tree [OF ws t u nb sib] .
    fix P' sid' assume sid': "session_id_pattern sid'"
    show "get_file (session_path P' sid') s = get_file (session_path P' sid') st"
    proof (cases "(P', sid') = (P, sid)")
      case True
      then show ?thesis using write_state_read [OF ws t u nb sib] by simp
    next
      case False
      show ?thesis
        using write_state_apart [OF ws t u nb sib session_paths_apart [OF assms sid' False]
            usable_session [OF sid']] read_bad_bound
        unfolding get_file_def fun_eq_iff by metis
    qed
  qed
qed

lemma keyed_canon: "keyed v \<Longrightarrow> keyed (canon v)"
proof (induction v rule: canon.induct)
  case (1 xs)
  moreover have "keyed (case y of JUndef \<Rightarrow> JNull | z \<Rightarrow> z) = keyed y" for y by (cases y) simp_all
  ultimately show ?case by (simp add: canon.simps list_all_iff)
next
  case (2 ps)
  have "keyed (canon v)" if "(k, v) \<in> set ps" for k v
    using 2(1) [of "(k, v)" k v] 2(2) that by (auto simp: list_all_iff)
  then have "list_all (\<lambda>(k, v). keyed v) (canon_props ps)" by (auto simp: canon_props_def list_all_iff)
  with 2(2) show ?case using distinct_canon_props [of ps] by simp
qed (simp_all add: canon.simps)

lemma memberships_objects:
  "memberships_from previous ms \<Longrightarrow> m \<in> set ms \<Longrightarrow> m \<noteq> JUndef"
  by (induction ms arbitrary: previous) (auto split: option.splits)

text \<open>What an enrolment reads, and what it is about to write.\<close>

definition prior :: "participation option \<Rightarrow> jsval list" where
  "prior previous = (case previous of None \<Rightarrow> [] | Some p \<Rightarrow> participationMemberships p)"

definition sound_previous :: "participating_provider \<Rightarrow> jstr \<Rightarrow> participation option \<Rightarrow> bool" where
  "sound_previous P sid previous \<longleftrightarrow>
     (\<forall>p. previous = Some p \<longrightarrow> participation_valid (provider_name P) sid p \<and> keyed (JObj p))"

lemma jget_next [simp]:
  "jget (next_participation provider sid previous i from now) ''schema'' = JStr SESSION_PARTICIPATION_SCHEMA_V2"
  "jget (next_participation provider sid previous i from now) ''provider'' = JStr provider"
  "jget (next_participation provider sid previous i from now) ''session_id'' = JStr sid"
  "jget (next_participation provider sid previous i from now) ''initiated_by'' = JStr (js ''user_prompt'')"
  "jget (next_participation provider sid previous i from now) ''workstream_id'' = JStr i"
  "jget (next_participation provider sid previous i from now) ''joined_at'' =
     (case previous of None \<Rightarrow> JStr (to_iso now) | Some p \<Rightarrow> jget p ''joined_at'')"
  "jget (next_participation provider sid previous i from now) ''memberships'' =
     JArr (prior previous @ [membership_json i from])"
  by (simp_all add: next_participation_def prior_def)

lemma distinct_next: "distinct (map fst (next_participation provider sid previous i from now))"
  by (simp add: next_participation_def)

lemma membership_json_simps [simp]:
  "membership_from (membership_json i from) = date_parse from"
  "membership_id (membership_json i from) = JStr i"
  "keyed (membership_json i from)"
  by (simp_all add: membership_json_def membership_from_def membership_id_def)

lemma schemas_differ [simp]: "SESSION_PARTICIPATION_SCHEMA_V2 \<noteq> SESSION_PARTICIPATION_SCHEMA"
  by (simp add: SESSION_PARTICIPATION_SCHEMA_V2_def SESSION_PARTICIPATION_SCHEMA_def)

lemma prior_sound:
  assumes "sound_previous P sid previous"
  shows "memberships_from None (prior previous)" "list_all keyed (prior previous)"
  using assms prior_memberships(1) keyed_prior
  by (auto simp: sound_previous_def prior_def split: option.split)

text \<open>The history that is written is well-formed.\<close>

lemma next_history:
  assumes "sound_previous P sid previous" "nextMembershipFrom (prior previous) now = Inr from" "isWorkstreamId i"
  shows "memberships_from None (prior previous @ [membership_json i from])"
    "list_all keyed (prior previous @ [membership_json i from])"
proof -
  note ms = prior_sound [OF assms(1)]
  obtain t where t: "date_parse from = Some t"
    "prior previous \<noteq> [] \<Longrightarrow> \<exists>p. membership_from (last (prior previous)) = Some p \<and> p < t"
    using nextMembershipFrom_Inr [OF assms(2)] by blast
  have "after (if prior previous = [] then None else membership_from (last (prior previous))) (membership_json i from)"
    using t assms(3) by (auto simp: after_def has_id_def)
  with ms(1) show "memberships_from None (prior previous @ [membership_json i from])"
    by (simp add: memberships_from_snoc)
qed (use prior_sound [OF assms(1)] in simp)

definition next_record ::
  "participating_provider \<Rightarrow> jstr \<Rightarrow> participation option \<Rightarrow> jstr \<Rightarrow> jstr \<Rightarrow> int \<Rightarrow> participation" where
  "next_record P sid previous i from now =
     canon_props (next_participation (provider_name P) sid previous i from now)"

lemma jget_next_record:
  assumes "sound_previous P sid previous" "nextMembershipFrom (prior previous) now = Inr from" "isWorkstreamId i"
  shows "jget (next_record P sid previous i from now) ''schema'' = JStr SESSION_PARTICIPATION_SCHEMA_V2"
    "jget (next_record P sid previous i from now) ''provider'' = JStr (provider_name P)"
    "jget (next_record P sid previous i from now) ''session_id'' = JStr sid"
    "jget (next_record P sid previous i from now) ''initiated_by'' = JStr (js ''user_prompt'')"
    "jget (next_record P sid previous i from now) ''workstream_id'' = JStr i"
    "jget (next_record P sid previous i from now) ''joined_at'' =
       (case previous of None \<Rightarrow> JStr (to_iso now) | Some p \<Rightarrow> jget p ''joined_at'')"
    "jget (next_record P sid previous i from now) ''memberships'' =
       JArr (map canon (prior previous @ [membership_json i from]))"
proof -
  note get = jget_canon_props [OF distinct_next [of "provider_name P" sid previous i "from" now]]
  have "canon (jget p ''joined_at'') = jget p ''joined_at''" if "previous = Some p" for p
    using that assms(1) by (cases "jget p ''joined_at''") (auto simp: sound_previous_def participation_valid_def is_date_def canon.simps)
  then show "jget (next_record P sid previous i from now) ''joined_at'' =
       (case previous of None \<Rightarrow> JStr (to_iso now) | Some p \<Rightarrow> jget p ''joined_at'')"
    by (auto simp: next_record_def get canon.simps split: option.split)
  have "canon (JArr (prior previous @ [membership_json i from])) =
      JArr (map canon (prior previous @ [membership_json i from]))"
    by (rule canon_JArr) (use memberships_objects [OF next_history(1) [OF assms]] in blast)
  then show "jget (next_record P sid previous i from now) ''memberships'' =
       JArr (map canon (prior previous @ [membership_json i from]))"
    by (simp add: next_record_def get)
qed (simp_all add: next_record_def canon.simps jget_canon_props [OF distinct_next])

lemma memberships_next_record:
  assumes "sound_previous P sid previous" "nextMembershipFrom (prior previous) now = Inr from" "isWorkstreamId i"
  shows "participationMemberships (next_record P sid previous i from now) =
    map canon (prior previous @ [membership_json i from])"
  by (simp add: participationMemberships_def jget_next_record [OF assms])

lemma next_record_valid:
  assumes "sound_previous P sid previous" "nextMembershipFrom (prior previous) now = Inr from" "isWorkstreamId i"
    "valid_time now"
  shows "participation_valid (provider_name P) sid (next_record P sid previous i from now)"
proof -
  have "memberships_from None (map canon (prior previous @ [membership_json i from]))"
    using next_history [OF assms(1-3)] memberships_canon by blast
  moreover have "is_date (jget (next_record P sid previous i from now) ''joined_at'')"
    using assms(1,4) by (auto simp: jget_next_record [OF assms(1-3)] is_date_def date_parse_iso
        sound_previous_def participation_valid_def split: option.splits)
  ultimately show ?thesis
    using membership_canon(2) [of "membership_json i from"] assms(3)
    by (simp add: participation_valid_def jget_next_record [OF assms(1-3)] validateMemberships_def
        canon.simps del: map_append) (simp add: last_map canon.simps)
qed

lemma keyed_next_record:
  assumes "sound_previous P sid previous" "nextMembershipFrom (prior previous) now = Inr from" "isWorkstreamId i"
  shows "keyed (JObj (next_record P sid previous i from now))"
proof -
  have "keyed (jget p ''joined_at'')" if "previous = Some p" for p
    using that assms(1) keyed_jget by (auto simp: sound_previous_def)
  then have "keyed (JObj (next_participation (provider_name P) sid previous i from now))"
    using prior_sound(2) [OF assms(1)]
    by (simp add: next_participation_def prior_def list_all_iff split: option.splits)
  then show ?thesis unfolding next_record_def using keyed_canon by fastforce
qed

lemma next_record_continues:
  assumes "sound_previous P sid (Some p)" "nextMembershipFrom (participationMemberships p) now = Inr from" "isWorkstreamId i"
  shows "continues p (next_record P sid (Some p) i from now)"
proof -
  have *: "nextMembershipFrom (prior (Some p)) now = Inr from" using assms(2) by (simp add: prior_def)
  show ?thesis
    using keyed_next_record [OF assms(1) * assms(3)]
    by (simp add: continues_def memberships_next_record [OF assms(1) * assms(3)]
        jget_next_record [OF assms(1) * assms(3)] prior_def canon_idem comp_def)
qed

section \<open>The steps of an enrolment\<close>

lemma decide_Proceed:
  assumes "decide components provider sid i st = Inr (Proceed chosen previous)"
  shows "readComponents components provider sid st = Inr previous"
    "chosen = Some w \<Longrightarrow> resolve (invocation_name i) st = Inr (Some w)"
  using assms by (auto simp: decide_def decide_from_def Let_def split: sum.splits option.splits if_splits decision.splits)

definition identified :: "workstream \<Rightarrow> bool" where
  "identified w \<longleftrightarrow> (\<exists>i. isWorkstreamId i \<and> jget w ''workstream_id'' = JStr i)"

lemma identified_id: "identified w \<Longrightarrow> isWorkstreamId (text_of (jget w ''workstream_id''))"
  by (auto simp: identified_def text_of_def)

lemma get_identified: "get i st = Inr (Some w) \<Longrightarrow> identified w"
  using get_found(1,4) by (auto simp: identified_def)

lemma resolve_identified: "resolve n st = Inr (Some w) \<Longrightarrow> identified w"
  using resolve_found get_identified by blast

lemma create_identified:
  assumes "create n1 n2 i opts st = (tr, Inr w)" "isWorkstreamId i"
  shows "identified w"
  using assms(1)
proof (cases rule: create_cases)
  case (ready title)
  then have "w = record_of i opts title" by simp
  with assms(2) show ?thesis by (simp add: identified_def record_of_def)
qed simp

text \<open>How a workstream to join is obtained: without a draw, or by a creation under its lock.\<close>

lemma obtain_workstream_Some: "obtain_workstream env d name provider sid now (Some w) previous st = ([], Inr (Inr (w, False)))"
  by (simp add: obtain_workstream_def return_def)

lemma obtain_identified:
  assumes "obtain_workstream env d name provider sid now chosen previous st = (tr, Inr (Inr (w, created)))"
    "isWorkstreamId (dr_workstreamId d)" "\<And>w. chosen = Some w \<Longrightarrow> identified w"
  shows "identified w"
proof (cases chosen)
  case (Some w')
  with assms(1,3) show ?thesis by (simp add: obtain_workstream_Some)
next
  case None
  obtain tr' r where c: "create (dr_claim d) (dr_record d) (dr_workstreamId d) (creation name provider sid now)
      (it_before_create env st) = (tr', r)" by (metis surj_pair)
  show ?thesis
  proof (cases r)
    case (Inr w')
    with assms(1) None c have "w = w'"
      by (auto simp: obtain_workstream_def action_defs attempt_def split: prod.splits)
    with create_identified [OF c [unfolded Inr] assms(2)] show ?thesis by simp
  next
    case (Inl e)
    with assms(1) None c obtain st' where "resolveName name st' = Inr (Some w)"
      by (auto simp: obtain_workstream_def action_defs attempt_def split: prod.splits if_splits sum.splits option.splits)
    then show ?thesis using resolveName_found get_identified by blast
  qed
qed

lemma obtain_evolved:
  assumes "\<And>x. evolved held x (it_before_create env x)"
  shows "traced (evolved held) (obtain_workstream env d name provider sid now chosen previous)"
  unfolding obtain_workstream_def
  by (intro traced_intros evolved_preorder traced_effect assms traced_evolved [OF create_untouched])

text \<open>The record that is written.\<close>

lemma seen_previous:
  assumes "seen P sid st = Inr previous" "\<And>p. previous = Some p \<Longrightarrow> keyed (JObj p)"
  shows "sound_previous P sid previous"
  using assms by (auto simp: sound_previous_def readStable_def readComponents_def parseParticipation_def
      split: sum.splits option.splits if_splits)

lemma participation_bound_safe [simp]: "safe_nonneg MAX_PARTICIPATION_BYTES"
  by (simp add: safe_nonneg_def safe_int_def max_safe_def MAX_PARTICIPATION_BYTES_def)

lemma written_record_seen:
  assumes "session_id_pattern sid" "sound_previous P sid previous"
    "nextMembershipFrom (prior previous) now = Inr from" "isWorkstreamId i" "valid_time now"
    "file_of (JObj (next_participation (provider_name P) sid previous i from now)) = Inr f"
    "readUtf8File (session_path P sid) MAX_PARTICIPATION_BYTES s = sized MAX_PARTICIPATION_BYTES f"
  shows "seen P sid s =
    (if int (jf_size f) > MAX_PARTICIPATION_BYTES then Inl StoreFileTooLargeError
     else Inr (Some (next_record P sid previous i from now)))"
proof -
  have "jf_json f = Some (JObj (next_record P sid previous i from now))"
    using file_of_JObj [OF assms(6)] by (simp add: next_record_def)
  then have "parseParticipation f (provider_name P) sid = Inr (next_record P sid previous i from now)"
    using next_record_valid [OF assms(2-5)] by (simp add: parseParticipation_def)
  then show ?thesis using assms(7) by (simp add: seen_read [OF assms(1)] readComponents_def sized_def)
qed

lemma enrol_write_evolved:
  assumes "session_id_pattern sid" "(P, sid) \<notin> held" "seen P sid st = Inr previous"
    "nextMembershipFrom (prior previous) now = Inr from" "isWorkstreamId i" "valid_time now"
    "s \<in> set (fst (writeJsonFileAtomically nonce (session_path P sid)
        (JObj (next_participation (provider_name P) sid previous i from now)) st))"
  shows "evolved held st s"
  unfolding evolved_def
proof (rule impI)
  assume t: "tree st"
  define w where "w = \<lparr> fw_nonce = nonce, fw_path = session_path P sid,
    fw_value = JObj (next_participation (provider_name P) sid previous i from now) \<rparr>"
  have put: "s \<in> set (fst (put_file w st))" using assms(7) by (simp add: w_def put_file_def)
  have other: "seen P' sid' s = seen P' sid' st" if "(P', sid') \<noteq> (P, sid)" for P' sid'
  proof (cases "session_id_pattern sid'")
    case True
    then show ?thesis using put_file_away [OF t put] session_paths_apart [OF assms(1) True that]
      by (intro seen_by_file) (simp add: file_away_def w_def)
  qed (simp add: seen_not_session)
  have own: "later (seen P sid st) (seen P sid s)"
  proof (cases "(\<forall>p. previous = Some p \<longrightarrow> keyed (JObj p)) \<and> get_file (session_path P sid) s \<noteq> get_file (session_path P sid) st")
    case True
    then have sound: "sound_previous P sid previous" using seen_previous [OF assms(3)] by blast
    from write_state_read [OF put_file_state(3) [OF t put] t put_file_state(1,2) [OF t put] usable_sibling [OF put_file_state(1) [OF t put]]] True
    obtain f where f: "file_of (fw_value w) = Inr f"
      "get_file (session_path P sid) s = reads_as f"
      by (auto simp: w_def split: sum.splits)
    have "safe_nonneg MAX_PARTICIPATION_BYTES" by simp
    then have "readUtf8File (session_path P sid) MAX_PARTICIPATION_BYTES s = sized MAX_PARTICIPATION_BYTES f"
      using f(2) by (simp add: get_file_def fun_eq_iff reads_as_def)
    from written_record_seen [OF assms(1) sound assms(4-6) _ this] f(1)
    show ?thesis
      using next_record_continues [of P sid _ now "from" i] sound assms(3-5)
      by (auto simp: w_def later_def prior_def split: option.splits)
  next
    case False
    then consider p where "previous = Some p" "\<not> keyed (JObj p)" | "seen P sid s = seen P sid st"
      using seen_by_file [of P sid s st] by blast
    then show ?thesis by cases (use assms(3) in \<open>auto simp: later_def simp del: keyed.simps\<close>)
  qed
  show "tree s \<and> (\<forall>P sid. later (seen P sid st) (seen P sid s) \<and>
      ((P, sid) \<in> held \<longrightarrow> seen P sid s = seen P sid st))"
  proof (intro conjI allI impI)
    show "tree s" using put_file_tree [OF t put] .
    fix P' sid'
    show "later (seen P' sid' st) (seen P' sid' s)"
      using own other [of P' sid'] by (cases "(P', sid') = (P, sid)") auto
    show "(P', sid') \<in> held \<Longrightarrow> seen P' sid' s = seen P' sid' st"
      using other [of P' sid'] assms(2) by metis
  qed
qed

lemma evolved_mono: "evolved held' a b \<Longrightarrow> held \<subseteq> held' \<Longrightarrow> evolved held a b"
  by (auto simp: evolved_def)

lemma finish_states:
  assumes "s \<in> set (fst (andThen (observe (\<lambda>_. n)) (\<lambda>x. andThen (w x) (\<lambda>_. return (a x))) st))"
  shows "\<exists>x. n = Inr x \<and> s \<in> set (fst (w x st))"
  using assms andThen_return_states by (cases n) (auto simp: andThen_observe)

lemma trace_last: "\<forall>s\<in>set tr. evolved held st s \<Longrightarrow> evolved held st (last (st # tr))"
  by (cases "tr = []") auto

text \<open>The end of the locked pass: the record is extended by the new membership.\<close>

definition finish_enroll ::
  "draws \<Rightarrow> participating_provider \<Rightarrow> jstr \<Rightarrow> participation option \<Rightarrow> int \<Rightarrow> (admission + workstream \<times> bool) \<Rightarrow>
   admission action" where
  "finish_enroll d P sid previous now got =
     (case got of
        Inl refused \<Rightarrow> return refused
      | Inr (w, created) \<Rightarrow>
          andThen (observe (\<lambda>_. nextMembershipFrom (prior previous) now)) (\<lambda>from.
          andThen (writeJsonFileAtomically (dr_participation d) (session_path P sid)
             (JObj (next_participation (provider_name P) sid previous (text_of (jget w ''workstream_id'')) from now))) (\<lambda>_.
          return (admitted previous w created
             (next_participation (provider_name P) sid previous (text_of (jget w ''workstream_id'')) from now)))))"

lemma enroll_locked_Proceed:
  assumes "decide (session_path P sid) (provider_name P) sid i st = Inr (Proceed chosen previous)"
  shows "enroll_locked env d (session_path P sid) (provider_name P) sid i now st =
    andThen (obtain_workstream env d (invocation_name i) (provider_name P) sid now chosen previous)
      (finish_enroll d P sid previous now) st"
  using assms unfolding prior_def finish_enroll_def by (simp add: enroll_locked_def andThen_observe)

lemma locked_evolved:
  assumes "session_id_pattern sid" "(P, sid) \<notin> held" "isWorkstreamId (dr_workstreamId d)" "valid_time now"
    "\<And>x. evolved (insert (P, sid) held) x (it_before_create env x)"
    "s \<in> set (fst (enroll_locked env d (session_path P sid) (provider_name P) sid i now st))"
  shows "evolved held st s"
proof (cases "tree st")
  case tree: True
  let ?k = "insert (P, sid) held"
  from assms(6) obtain chosen previous where dec:
    "decide (session_path P sid) (provider_name P) sid i st = Inr (Proceed chosen previous)"
    by (auto simp: enroll_locked_def andThen_observe return_def split: sum.splits decision.splits)
  obtain tr r where m: "obtain_workstream env d (invocation_name i) (provider_name P) sid now chosen previous st = (tr, r)"
    by (metis surj_pair)
  have ev: "evolved ?k st x" if "x \<in> set tr" for x
    using tracedD [OF obtain_evolved [OF assms(5)]] that m by (metis fst_conv)
  note st' = trace_last [of tr ?k st] 
  have seen: "seen P sid (last (st # tr)) = Inr previous"
    using st' ev tree decide_Proceed(1) [OF dec] by (auto simp: evolved_def seen_read [OF assms(1)])
  have "s \<in> set (fst (andThen (obtain_workstream env d (invocation_name i) (provider_name P) sid now chosen previous)
      (finish_enroll d P sid previous now) st))"
    using assms(6) by (simp add: enroll_locked_Proceed [OF dec])
  from andThen_states [OF this] m have "s \<in> set tr \<or> (\<exists>v. r = Inr v \<and> s \<in> set (fst (finish_enroll d P sid previous now v (last (st # tr)))))"
    by (auto simp del: last.simps)
  then consider "s \<in> set tr"
    | w created "from" where "r = Inr (Inr (w, created))"
      "nextMembershipFrom (prior previous) now = Inr from"
      "s \<in> set (fst (writeJsonFileAtomically (dr_participation d) (session_path P sid)
        (JObj (next_participation (provider_name P) sid previous (text_of (jget w ''workstream_id'')) from now))
        (last (st # tr))))"
  proof (elim disjE exE conjE)
    fix v assume 2: "r = Inr v" "s \<in> set (fst (finish_enroll d P sid previous now v (last (st # tr))))"
    show ?thesis
    proof (cases v)
      case (Inr wc)
      obtain w created where wc: "wc = (w, created)" by (cases wc)
      from finish_states [OF 2(2) [unfolded Inr wc finish_enroll_def sum.case prod.case]] obtain x where
        "nextMembershipFrom (prior previous) now = Inr x"
        "s \<in> set (fst (writeJsonFileAtomically (dr_participation d) (session_path P sid)
          (JObj (next_participation (provider_name P) sid previous (text_of (jget w ''workstream_id'')) x now))
          (last (st # tr))))" by (elim exE conjE) (rule that)
      then show ?thesis by (rule that(2) [OF 2(1) [unfolded Inr wc]])
    qed (use 2 in \<open>simp add: return_def finish_enroll_def\<close>)
  qed (rule that(1))
  then show ?thesis
  proof cases
    case 1
    then show ?thesis using ev evolved_mono by blast
  next
    case 2
    have "identified w"
      by (rule obtain_identified [OF m [unfolded 2(1)] assms(3)])
        (use decide_Proceed(2) [OF dec] resolve_identified in blast)
    then have "evolved held (last (st # tr)) s"
      using enrol_write_evolved [OF assms(1,2) seen 2(2) _ assms(4) 2(3)] identified_id by blast
    moreover have "evolved held st (last (st # tr))"
      using evolved_mono [OF st'] ev by blast
    ultimately show ?thesis using evolved_trans by blast
  qed
qed (simp add: evolved_def)

lemma enroll_evolved:
  assumes "\<And>sid. participationSessionId sha P native = Inr sid \<Longrightarrow> (P, sid) \<notin> held"
    "\<And>sid x. participationSessionId sha P native = Inr sid \<Longrightarrow>
      evolved (insert (P, sid) held) x (it_before_create env x)"
    "\<And>x. evolved held x (it_before_lock env x)" "isWorkstreamId (dr_workstreamId d)"
  shows "traced (evolved held) (enroll sha env d P native i now)"
proof (cases "\<exists>sid. participationSessionId sha P native = Inr sid \<and> session_id_pattern sid \<and> valid_time now")
  case False
  have "fst (enroll sha env d P native i now st) = []" for st
    using False by (auto simp: enroll_def andThen_observe raise_def participationComponents_def split: sum.splits)
  then show ?thesis by (simp add: traced_def)
next
  case True
  then obtain sid where sid: "participationSessionId sha P native = Inr sid" "session_id_pattern sid" "valid_time now"
    by blast
  have locked: "traced (evolved held) (enroll_locked env d (session_path P sid) (provider_name P) sid i now)"
    unfolding traced_def using locked_evolved [OF sid(2) assms(1) [OF sid(1)] assms(4) sid(3) assms(2) [OF sid(1)]] by blast
  have eq: "participationComponents P sid = Inr (session_path P sid)" using sid(2) components_Inr by blast
  show ?thesis
    unfolding traced_def
  proof (intro allI ballI)
    fix st s assume s: "s \<in> set (fst (enroll sha env d P native i now st))"
    define rest where "rest = andThen (ensureParentForFile (session_path P sid)) (\<lambda>_.
        andThen (effect (it_before_lock env)) (\<lambda>_.
        enroll_locked env d (session_path P sid) (provider_name P) sid i now))"
    have "traced (evolved held) rest"
      unfolding rest_def
      by (intro traced_intros evolved_preorder traced_effect assms(3) locked
          traced_evolved [OF ensureParent_untouched [OF sid(2)]])
    moreover have "s \<in> set (fst (rest st))"
      using s sid eq by (auto simp: enroll_def andThen_observe rest_def return_def split: sum.splits if_splits decision.splits)
    ultimately show "evolved held st s" by (rule tracedD)
  qed
qed

section \<open>The life of a store\<close>

text \<open>
  \<open>lives sha held a b\<close>: processes that do not hold the locks in \<open>held\<close> take the store from \<open>a\<close> to
  \<open>b\<close>, which may be any state one of them leaves behind when it crashes.
\<close>

inductive lives :: "(byte list \<Rightarrow> byte list) \<Rightarrow> session_key set \<Rightarrow> store \<Rightarrow> store \<Rightarrow> bool"
  for sha :: "byte list \<Rightarrow> byte list" where
  lives_stay: "lives sha held a a"
| lives_create: "lives sha held a b \<Longrightarrow> s \<in> set (fst (create n1 n2 i opts b)) \<Longrightarrow> lives sha held a s"
| lives_status: "lives sha held a b \<Longrightarrow> s \<in> set (fst (setStatus nonce reference status now b)) \<Longrightarrow> lives sha held a s"
| lives_enroll:
    "lives sha held a b \<Longrightarrow>
     (\<And>sid. participationSessionId sha P native = Inr sid \<Longrightarrow> (P, sid) \<notin> held) \<Longrightarrow>
     (\<And>sid x. participationSessionId sha P native = Inr sid \<Longrightarrow>
        lives sha (insert (P, sid) held) x (it_before_create env x)) \<Longrightarrow>
     (\<And>x. lives sha held x (it_before_lock env x)) \<Longrightarrow>
     isWorkstreamId (dr_workstreamId d) \<Longrightarrow>
     s \<in> set (fst (enroll sha env d P native i now b)) \<Longrightarrow> lives sha held a s"

inductive_simps lives_iff: "lives sha held a b"

lemma lives_evolved: "lives sha held a b \<Longrightarrow> evolved held a b"
proof (induction rule: lives.induct)
  case (lives_create held a b s n1 n2 i opts)
  then show ?case using evolved_trans tracedD [OF create_untouched] untouched_evolved by metis
next
  case (lives_status held a b s nonce reference status now)
  then show ?case using evolved_trans tracedD [OF setStatus_untouched] untouched_evolved by metis
next
  case (lives_enroll held a b P native env d s i now)
  have "traced (evolved held) (enroll sha env d P native i now)"
    by (rule enroll_evolved) (use lives_enroll in auto)
  from tracedD [OF this lives_enroll.hyps(6)] lives_enroll.IH(1) show ?case
    using evolved_trans by blast
qed simp

text \<open>The history of a session, from the times a reader finds.\<close>

definition history :: "participating_provider \<Rightarrow> jstr \<Rightarrow> store \<Rightarrow> jsval list" where
  "history P sid st =
     (case seen P sid st of Inr (Some p) \<Rightarrow> map canon (participationMemberships p) | _ \<Rightarrow> [])"

section \<open>What one enrolment does\<close>

definition alone :: interference where
  "alone = \<lparr> it_before_lock = (\<lambda>st. st), it_before_create = (\<lambda>st. st) \<rparr>"

text \<open>The store an enrolment finds when it has made its directories and holds the lock of the session.\<close>

definition locked_store :: "interference \<Rightarrow> participating_provider \<Rightarrow> jstr \<Rightarrow> store \<Rightarrow> store" where
  "locked_store env P sid st = it_before_lock env (make_dirs (butlast (session_path P sid)) st)"

lemma decide_Settle: "decide components provider sid i st = Inr (Settle a) \<Longrightarrow> \<not> ad_initiated a"
  by (auto simp: decide_def decide_from_def Let_def refusal_def idempotent_def
      split: sum.splits option.splits if_splits decision.splits)

lemma decide_open:
  "decide components provider sid i st = Inr (Proceed (Some w) previous) \<Longrightarrow> is_open w"
  by (auto simp: decide_def decide_from_def Let_def split: sum.splits option.splits if_splits decision.splits)

lemma obtain_open:
  assumes "obtain_workstream env d name provider sid now chosen previous st = (tr, Inr (Inr (w, created)))"
    "\<And>w. chosen = Some w \<Longrightarrow> is_open w"
  shows "is_open w"
proof (cases chosen)
  case (Some w')
  with assms show ?thesis by (simp add: obtain_workstream_Some)
next
  case None
  obtain tr' r where c: "create (dr_claim d) (dr_record d) (dr_workstreamId d) (creation name provider sid now)
      (it_before_create env st) = (tr', r)" by (metis surj_pair)
  show ?thesis
  proof (cases r)
    case (Inr w')
    with assms(1) None c have w: "w = w'"
      by (auto simp: obtain_workstream_def action_defs attempt_def split: prod.splits)
    from c Inr have "\<exists>title. w' = record_of (dr_workstreamId d) (creation name provider sid now) title"
      by (cases rule: create_cases) auto
    then show ?thesis by (auto simp: w is_open_def record_of_def)
  next
    case (Inl e)
    with assms(1) None c show ?thesis
      by (auto simp: obtain_workstream_def action_defs attempt_def split: prod.splits if_splits sum.splits option.splits)
  qed
qed

lemma obtain_refused:
  "obtain_workstream env d name provider sid now chosen previous st = (tr, Inr (Inl refused)) \<Longrightarrow> \<not> ad_initiated refused"
  by (auto simp: obtain_workstream_def action_defs attempt_def refusal_def
      split: prod.splits if_splits sum.splits option.splits)

lemma write_seen:
  assumes "tree st" "session_id_pattern sid" "sound_previous P sid previous"
    "nextMembershipFrom (prior previous) now = Inr from" "isWorkstreamId i" "valid_time now"
    "writeJsonFileAtomically nonce (session_path P sid)
       (JObj (next_participation (provider_name P) sid previous i from now)) st = (tr, Inr ())"
  shows "seen P sid (last (st # tr)) \<in> {Inl StoreFileTooLargeError, Inr (Some (next_record P sid previous i from now))}"
proof -
  let ?v = "JObj (next_participation (provider_name P) sid previous i from now)"
  have ok: "snd (writeJsonFileAtomically nonce (session_path P sid) ?v st) = Inr ()"
    and last: "last (st # tr) = last (st # fst (writeJsonFileAtomically nonce (session_path P sid) ?v st))"
    using assms(7) by simp_all
  note w = write_success [OF assms(1) ok]
  obtain f where f: "file_of ?v = Inr f" "st (session_path P sid) \<noteq> Some Directory"
    "last (st # tr) = written (session_path P sid) f st" using w(3) unfolding last by blast
  from written_read(1) [OF assms(1) w(1,2) f(2) participation_bound_safe]
  have "readUtf8File (session_path P sid) MAX_PARTICIPATION_BYTES (last (st # tr)) = sized MAX_PARTICIPATION_BYTES f"
    unfolding f(3) .
  from written_record_seen [OF assms(2-6) f(1) this] show ?thesis by simp
qed

text \<open>The step from the store under the lock to the one with the new membership: the decision, the
  workstream obtained by it, and the record written.\<close>

definition session_write :: "draws \<Rightarrow> participating_provider \<Rightarrow> jstr \<Rightarrow> participation \<Rightarrow> file_write" where
  "session_write d P sid p =
     \<lparr> fw_nonce = dr_participation d, fw_path = session_path P sid, fw_value = JObj p \<rparr>"

definition admits_to ::
  "interference \<Rightarrow> draws \<Rightarrow> participating_provider \<Rightarrow> jstr \<Rightarrow> invocation \<Rightarrow> int \<Rightarrow> store \<Rightarrow>
   participation option \<Rightarrow> workstream \<Rightarrow> store \<Rightarrow> bool" where
  "admits_to env d P sid i now st previous w st' \<longleftrightarrow>
     (\<exists>chosen tr created p.
        decide (session_path P sid) (provider_name P) sid i st = Inr (Proceed chosen previous) \<and>
        obtain_workstream env d (invocation_name i) (provider_name P) sid now chosen previous st =
          (tr, Inr (Inr (w, created))) \<and>
        st' = last (last (st # tr) # fst (put_file (session_write d P sid p) (last (st # tr)))))"

lemma locked_admits:
  assumes "enroll_locked env d (session_path P sid) (provider_name P) sid i now st = (tr, Inr a)" "ad_initiated a"
    "tree st" "session_id_pattern sid" "isWorkstreamId (dr_workstreamId d)" "valid_time now"
    "\<And>x. evolved {(P, sid)} x (it_before_create env x)" "\<And>p. seen P sid st = Inr (Some p) \<Longrightarrow> keyed (JObj p)"
  shows "\<exists>previous w created from. seen P sid st = Inr previous \<and> sound_previous P sid previous \<and>
    admits_to env d P sid i now st previous w (last (st # tr)) \<and>
    identified w \<and> nextMembershipFrom (prior previous) now = Inr from \<and>
    a = admitted previous w created
      (next_participation (provider_name P) sid previous (text_of (jget w ''workstream_id'')) from now) \<and>
    seen P sid (last (st # tr)) \<in> {Inl StoreFileTooLargeError,
      Inr (Some (next_record P sid previous (text_of (jget w ''workstream_id'')) from now))}"
proof -
  from assms(1,2) obtain chosen previous where dec:
    "decide (session_path P sid) (provider_name P) sid i st = Inr (Proceed chosen previous)"
    by (auto simp: enroll_locked_def andThen_observe return_def split: sum.splits decision.splits dest: decide_Settle)
  have seen: "seen P sid st = Inr previous" using decide_Proceed(1) [OF dec] by (simp add: seen_read [OF assms(4)])
  have sound: "sound_previous P sid previous" using seen_previous [OF seen] assms(8) seen by blast
  from assms(1) [unfolded enroll_locked_Proceed [OF dec]] obtain tr1 got tr2 where got:
    "obtain_workstream env d (invocation_name i) (provider_name P) sid now chosen previous st = (tr1, Inr got)"
    "finish_enroll d P sid previous now got (last (st # tr1)) = (tr2, Inr a)" "tr = tr1 @ tr2"
    by (rule andThen_Inr)
  obtain w created where w: "got = Inr (w, created)"
    using got(1,2) assms(2) obtain_refused by (cases got) (fastforce simp: finish_enroll_def return_def)+
  from got(2) obtain "from" tr3 where fin: "nextMembershipFrom (prior previous) now = Inr from"
    "writeJsonFileAtomically (dr_participation d) (session_path P sid)
      (JObj (next_participation (provider_name P) sid previous (text_of (jget w ''workstream_id'')) from now))
      (last (st # tr1)) = (tr2, Inr ())"
    "a = admitted previous w created
      (next_participation (provider_name P) sid previous (text_of (jget w ''workstream_id'')) from now)"
    unfolding finish_enroll_def w
    by (auto simp: andThen_observe return_def split: sum.splits elim!: andThen_Inr)
  have ev: "evolved {(P, sid)} st (last (st # tr1))"
    using trace_last tracedD [OF obtain_evolved [OF assms(7)]] got(1) by (metis fst_conv)
  have id: "identified w"
    by (rule obtain_identified [OF got(1) [unfolded w] assms(5)])
      (use decide_Proceed(2) [OF dec] resolve_identified in blast)
  let ?p = "next_participation (provider_name P) sid previous (text_of (jget w ''workstream_id'')) from now"
  have "last (st # tr) = last (last (st # tr1) # fst (put_file (session_write d P sid ?p) (last (st # tr1))))"
    by (simp add: session_write_def put_file_def fin(2) got(3) del: last.simps) (simp add: last_append)
  then have "admits_to env d P sid i now st previous w (last (st # tr))"
    unfolding admits_to_def using dec got(1) [unfolded w] by blast
  moreover have "seen P sid (last (st # tr)) \<in> {Inl StoreFileTooLargeError,
      Inr (Some (next_record P sid previous (text_of (jget w ''workstream_id'')) from now))}"
    using write_seen [OF _ assms(4) sound fin(1) identified_id [OF id] assms(6) fin(2)] ev assms(3) got(3)
    by (auto simp: evolved_def last_append split: if_splits)
  ultimately show ?thesis using seen sound id fin(1,3) by blast
qed

text \<open>Making the directory of a session changes nothing a reader of workstreams sees.\<close>

lemma ensureParent_result:
  assumes "tree st" "session_id_pattern sid" "\<not> blocked st (session_path P sid)"
  obtains tr where "ensureParentForFile (session_path P sid) st = (tr, Inr True)"
    "last (st # tr) = make_dirs (butlast (session_path P sid)) st"
  using ensureParent_tree(1) [OF assms(1) usable_session [OF assms(2)] assms(3)] by blast

lemma ensured_reads:
  assumes "tree st" "session_id_pattern sid" "\<not> blocked st (session_path P sid)" "hd q = js ''workstreams''" "2 \<le> length q"
  shows "get_file q (make_dirs (butlast (session_path P sid)) st) = get_file q st"
proof (rule ext)
  fix m
  let ?p = "session_path P sid"
  note u = usable_session [OF assms(2), of P]
  have ap: "apart ?p (temporaryPath ?p (js ''x'')) q"
    using assms(4,5) by (cases q; cases "tl q") (auto simp: apart_def session_path_def temporaryPath_def parallel_def)
  show "get_file q (make_dirs (butlast ?p) st) m = get_file q st m"
    using write_state_apart [OF write_stateI(2) assms(1) u assms(3) usable_sibling [OF u] ap] read_unusable read_bad_bound
    unfolding get_file_def by metis
qed

lemma ensured_get:
  assumes "tree st" "session_id_pattern sid" "\<not> blocked st (session_path P sid)"
  shows "get i (make_dirs (butlast (session_path P sid)) st) = get i st"
  by (rule get_by_file, rule ensured_reads [OF assms]) (simp_all add: recordComponents_def)

lemma ensured_resolve:
  assumes "tree st" "session_id_pattern sid" "\<not> blocked st (session_path P sid)"
  shows "resolve n (make_dirs (butlast (session_path P sid)) st) = resolve n st"
proof -
  have "resolveName n (make_dirs (butlast (session_path P sid)) st) = resolveName n st"
    by (rule resolveName_by_file, rule ensured_reads [OF assms])
      (simp_all add: claimComponents_def ensured_get [OF assms])
  then show ?thesis by (simp add: resolve_def ensured_get [OF assms])
qed

lemma ensured_seen:
  assumes "tree st" "session_id_pattern sid" "\<not> blocked st (session_path P sid)"
  shows "seen P' sid' (make_dirs (butlast (session_path P sid)) st) = seen P' sid' st"
    "tree (make_dirs (butlast (session_path P sid)) st)"
proof -
  obtain tr where tr: "ensureParentForFile (session_path P sid) st = (tr, Inr True)"
    "last (st # tr) = make_dirs (butlast (session_path P sid)) st" using ensureParent_result [OF assms] .
  have "untouched st (final st (ensureParentForFile (session_path P sid) st))"
    by (rule traced_final [OF untouched_preorder ensureParent_untouched [OF assms(2)]])
  then have un: "untouched st (make_dirs (butlast (session_path P sid)) st)"
    using tr by (simp add: final_def)
  then show "seen P' sid' (make_dirs (butlast (session_path P sid)) st) = seen P' sid' st"
    by (rule untouched_seen [OF _ assms(1)])
  show "tree (make_dirs (butlast (session_path P sid)) st)" using un assms(1) by (simp add: untouched_def)
qed

lemma ensured_decide:
  assumes "tree st" "session_id_pattern sid" "\<not> blocked st (session_path P sid)"
  shows "decide (session_path P sid) (provider_name P) sid i (make_dirs (butlast (session_path P sid)) st) =
    decide (session_path P sid) (provider_name P) sid i st"
  using ensured_seen(1) [OF assms, of P sid]
  unfolding decide_def ensured_resolve [OF assms] ensured_get [OF assms] by (simp add: seen_read [OF assms(2)])

lemma enroll_Proceed:
  assumes "tree st" "session_id_pattern sid" "\<not> blocked st (session_path P sid)"
    "participationSessionId sha P native = Inr sid" "valid_time now" "isWorkstreamName (invocation_name i)"
    "decide (session_path P sid) (provider_name P) sid i st = Inr (Proceed chosen previous)"
    "enroll_locked env d (session_path P sid) (provider_name P) sid i now (locked_store env P sid st) = (tr', r)"
  shows "\<exists>tr. enroll sha env d P native i now st = (tr, r) \<and>
    last (st # tr) = last (locked_store env P sid st # tr')"
proof -
  obtain tr where tr: "ensureParentForFile (session_path P sid) st = (tr, Inr True)"
    "last (st # tr) = make_dirs (butlast (session_path P sid)) st" using ensureParent_result [OF assms(1-3)] .
  have "participationComponents P sid = Inr (session_path P sid)" using assms(2) components_Inr by blast
  then have "enroll sha env d P native i now st =
    andThen (ensureParentForFile (session_path P sid)) (\<lambda>_.
    andThen (effect (it_before_lock env)) (\<lambda>_.
    enroll_locked env d (session_path P sid) (provider_name P) sid i now)) st"
    using assms(4-7) by (simp add: enroll_def andThen_observe)
  moreover have "andThen (effect (it_before_lock env)) (\<lambda>_.
      enroll_locked env d (session_path P sid) (provider_name P) sid i now) (make_dirs (butlast (session_path P sid)) st) =
      (locked_store env P sid st # tr', r)"
    using assms(8) by (simp add: andThen_def effect_def locked_store_def)
  ultimately have "enroll sha env d P native i now st =
      (tr @ locked_store env P sid st # tr', r)"
    by (simp only: andThen_step [where m = "ensureParentForFile (session_path P sid)", OF tr(1), unfolded tr(2)]
        fst_conv snd_conv)
  then show ?thesis by auto
qed

lemma enroll_initiated:
  assumes "enroll sha env d P native i now st = (tr, Inr a)" "ad_initiated a" "tree st"
    "participationSessionId sha P native = Inr sid"
  shows "session_id_pattern sid" "valid_time now" "isWorkstreamName (invocation_name i)"
    "\<exists>chosen previous. decide (session_path P sid) (provider_name P) sid i st = Inr (Proceed chosen previous)"
    "\<not> blocked st (session_path P sid)"
proof -
  show sid: "session_id_pattern sid" and now: "valid_time now"
    using assms(1,4) by (auto simp: enroll_def andThen_observe raise_def participationComponents_def split: if_splits)
  have comps: "participationComponents P sid = Inr (session_path P sid)" using sid components_Inr by blast
  have "isWorkstreamName (invocation_name i) \<and>
      (\<exists>chosen previous. decide (session_path P sid) (provider_name P) sid i st = Inr (Proceed chosen previous))"
    using assms(1,2,4) now comps
    by (auto simp: enroll_def andThen_observe return_def refusal_def dest: decide_Settle
        split: if_splits sum.splits decision.splits)
  then show "isWorkstreamName (invocation_name i)" and
    pre: "\<exists>chosen previous. decide (session_path P sid) (provider_name P) sid i st = Inr (Proceed chosen previous)" by blast+
  then show "\<not> blocked st (session_path P sid)"
    using decide_Proceed(1) readUtf8File_tree [OF assms(3) usable_session [OF sid] participation_bound_safe, of P]
    by (fastforce simp: readComponents_def split: if_splits sum.splits)
qed

lemma enroll_admits:
  assumes "enroll sha env d P native i now st = (tr, Inr a)" "ad_initiated a" "tree st"
    "participationSessionId sha P native = Inr sid" "isWorkstreamId (dr_workstreamId d)"
    "s = locked_store env P sid st" "tree s" "\<And>x. evolved {(P, sid)} x (it_before_create env x)"
    "\<And>p. readStable P sid s = Inr (Some p) \<Longrightarrow> keyed (JObj p)"
  shows "\<exists>previous w created from. seen P sid s = Inr previous \<and> sound_previous P sid previous \<and>
    admits_to env d P sid i now s previous w (last (st # tr)) \<and>
    identified w \<and> nextMembershipFrom (prior previous) now = Inr from \<and>
    a = admitted previous w created
      (next_participation (provider_name P) sid previous (text_of (jget w ''workstream_id'')) from now) \<and>
    seen P sid (last (st # tr)) \<in> {Inl StoreFileTooLargeError,
      Inr (Some (next_record P sid previous (text_of (jget w ''workstream_id'')) from now))}"
proof -
  note ini = enroll_initiated [OF assms(1-4)]
  obtain chosen previous0 where pre: "decide (session_path P sid) (provider_name P) sid i st = Inr (Proceed chosen previous0)"
    using ini(4) by blast
  obtain tr' r where locked: "enroll_locked env d (session_path P sid) (provider_name P) sid i now s = (tr', r)"
    by (metis surj_pair)
  from enroll_Proceed [OF assms(3) ini(1,5) assms(4) ini(2,3) pre locked [unfolded assms(6)]] assms(1)
  have r: "r = Inr a" "last (st # tr) = last (s # tr')" unfolding assms(6) by auto
  from locked_admits [OF locked [unfolded r(1)] assms(2) assms(7) ini(1) assms(5) ini(2) assms(8,9)]
  show ?thesis unfolding r(2) .
qed

end
