(* ===== verification/Participation_Consent.thy ===== *)
theory Participation_Consent
  imports Participation_History
begin

text \<open>
  When an enrolment goes through, what a prompt must say for one to happen, and what everything else
  leaves alone.
\<close>

section \<open>An enrolment that returns\<close>

lemma andThen_obtained:
  "andThen (obtain_workstream env d name provider sid now (Some w) previous) f st = f (Inr (w, False)) st"
  by (simp add: andThen_def obtain_workstream_Some)

lemma writable_ensured:
  assumes "writable st (session_write d P sid p)"
  shows "writable (make_dirs (butlast (session_path P sid)) st) (session_write d P sid p)"
proof -
  have u: "usable_path (session_path P sid)" and nb: "\<not> blocked st (session_path P sid)"
    using assms by (simp_all add: writable_def session_write_def)
  have "\<not> blocked (make_dirs (butlast (session_path P sid)) st) (session_path P sid)"
    using nb clear_make_dirs clear_parent [OF u] by blast
  then show ?thesis
    using assms make_dirs_parent [OF u nb] usable_sibling [OF u, of "dr_participation d"]
    by (simp add: writable_def session_write_def)
qed

lemma put_resolve:
  assumes "tree st"
  shows "resolve n (last (st # fst (put_file (session_write d P sid p) st))) = resolve n st"
proof (cases "fst (put_file (session_write d P sid p) st) = []")
  case False
  let ?s = "last (st # fst (put_file (session_write d P sid p) st))"
  have s: "?s \<in> set (fst (put_file (session_write d P sid p) st))" using False by simp
  have away: "file_away (session_write d P sid p) q" if "hd q = js ''workstreams''" "2 \<le> length q" for q
    using that by (cases q; cases "tl q")
      (auto simp: file_away_def session_write_def apart_def session_path_def temporaryPath_def parallel_def)
  have get: "get i ?s = get i st" for i
    by (rule get_by_file, rule put_file_away [OF assms s], rule away) (simp_all add: recordComponents_def)
  have cong: "named n (get i ?s) = named n (get i st)" for i by (simp only: get)
  have "resolveName n ?s = resolveName n st"
    by (rule resolveName_by_file [OF put_file_away [OF assms s away] cong]) (simp_all add: claimComponents_def)
  then show ?thesis unfolding resolve_def get by simp
qed simp

text \<open>Names are no identifiers, so they are resolved through their links.\<close>

lemma name_not_id: "isWorkstreamName n \<Longrightarrow> \<not> isWorkstreamId n"
proof
  assume n: "isWorkstreamName n" "isWorkstreamId n"
  from id_shape [OF n(2)] have "0x5F \<in> set n" by (auto simp: js_def)
  then show False using n(1)
    by (auto simp: isWorkstreamName_def slug_unit_def is_lower_def is_digit_def list_all_iff)
qed

lemma resolve_name: "isWorkstreamName n \<Longrightarrow> resolve n st = resolveName n st"
  using name_not_id by (simp add: resolve_def)

lemma create_resolves:
  assumes "tree st" "creatable i opts" "get i st = Inr None" "create n1 n2 i opts st = (tr, Inr r)"
  shows "tree (last (st # tr))" "resolveName (co_name opts) (last (st # tr)) = Inr (Some (canon_props r))"
    "\<exists>title. r = record_of i opts title"
proof -
  obtain title where ready: "create_ready opts title st" and r: "r = record_of i opts title"
    and s: "last (st # tr) = files.run (create_writes n1 n2 i opts title) st"
    and ok: "snd (put_file (claim_write n1 (co_name opts) i) st) = Inr ()"
      "snd (put_file (record_write n2 i (record_of i opts title))
        (last (st # fst (put_file (claim_write n1 (co_name opts) i) st)))) = Inr ()"
    using assms(4) by (cases rule: create_cases) auto
  note fin = create_success [OF assms(1) ready assms(2,3) ok s]
  show "resolveName (co_name opts) (last (st # tr)) = Inr (Some (canon_props r))" using fin(2) unfolding r .
  show "tree (last (st # tr))" using create_pass(1) [OF assms(1) ready assms(2,3) fin(3)] .
  show "\<exists>title. r = record_of i opts title" using r by blast
qed

lemma jget_created:
  "jget (canon_props (record_of i opts title)) ''workstream_id'' = JStr i"
  "jget (canon_props (record_of i opts title)) ''status'' = JStr (status_name Open)"
  "jget (record_of i opts title) ''workstream_id'' = JStr i"
  using jget_canon_props [OF distinct_new_record] by (simp_all add: record_of_def canon.simps)

text \<open>What an enrolment obtains is what the name resolves to from then on, and it is open.\<close>

lemma obtain_resolves:
  assumes "obtain_workstream env d n (provider_name P) sid now chosen previous st = (tr, Inr (Inr (w, created)))"
    "isWorkstreamName n" "isWorkstreamId (dr_workstreamId d)" "tree st" "tree (it_before_create env st)"
    "chosen = None \<Longrightarrow> get (dr_workstreamId d) (it_before_create env st) = Inr None"
    "\<And>u. chosen = Some u \<Longrightarrow> resolve n st = Inr (Some u) \<and> is_open u"
  shows "\<exists>u. resolve n (last (st # tr)) = Inr (Some u) \<and> is_open u \<and>
    jget u ''workstream_id'' = jget w ''workstream_id'' \<and> (chosen \<noteq> None \<longrightarrow> chosen = Some u)"
proof (cases chosen)
  case (Some u)
  with assms(1,7) show ?thesis by (simp add: obtain_workstream_Some)
next
  case None
  let ?st = "it_before_create env st" and ?opts = "creation n (provider_name P) sid now"
  obtain tr' r where c: "create (dr_claim d) (dr_record d) (dr_workstreamId d) ?opts ?st = (tr', r)" by (metis surj_pair)
  show ?thesis
  proof (cases r)
    case (Inr w')
    with assms(1) None c have w: "w = w'" "last (st # tr) = last (?st # tr')"
      by (auto simp: obtain_workstream_def action_defs attempt_def split: prod.splits if_splits)
    have "length (provider_name P) \<le> 64" by (cases P) (simp_all add: js_def)
    then have "creatable (dr_workstreamId d) ?opts"
      using assms(3) by (simp add: creatable_def creation_def modest_creator_def)
    note made = create_resolves [OF assms(5) this assms(6) [OF None] c [unfolded Inr]]
    obtain title where "w = record_of (dr_workstreamId d) ?opts title" using made(3) w(1) by blast
    then show ?thesis
      using made(2) None w jget_created [of "dr_workstreamId d" ?opts title] resolve_name [OF assms(2)]
      by (simp add: creation_def is_open_def del: last.simps)
  next
    case (Inl e)
    with assms(1) None c have "resolveName n (last (st # tr)) = Inr (Some w) \<and> is_open w"
      by (auto simp: obtain_workstream_def action_defs attempt_def split: prod.splits if_splits sum.splits option.splits)
    then show ?thesis using None resolve_name [OF assms(2)] by (simp del: last.simps)
  qed
qed

text \<open>Writing the record of a session keeps what names resolve to.\<close>

lemma admits_resolves:
  assumes "admits_to env d P sid i now s previous w st'" "isWorkstreamName (invocation_name i)"
    "isWorkstreamId (dr_workstreamId d)" "tree s" "\<And>x. evolved {(P, sid)} x (it_before_create env x)"
    "resolve (invocation_name i) s = Inr None \<Longrightarrow> get (dr_workstreamId d) (it_before_create env s) = Inr None"
    "session_id_pattern sid"
  shows "\<exists>u. resolve (invocation_name i) st' = Inr (Some u) \<and> is_open u \<and>
    jget u ''workstream_id'' = jget w ''workstream_id'' \<and>
    (case resolve (invocation_name i) s of Inl e \<Rightarrow> False
     | Inr None \<Rightarrow> \<exists>n. i = New n
     | Inr (Some v) \<Rightarrow> u = v \<and> (\<forall>q. previous = Some q \<longrightarrow> jget q ''workstream_id'' \<noteq> jget u ''workstream_id'') \<and>
         (previous = None \<longrightarrow> (\<exists>n. i = Join n)))"
proof -
  obtain chosen tr created p where
    dec: "decide (session_path P sid) (provider_name P) sid i s = Inr (Proceed chosen previous)"
    and got: "obtain_workstream env d (invocation_name i) (provider_name P) sid now chosen previous s = (tr, Inr (Inr (w, created)))"
    and st': "st' = last (last (s # tr) # fst (put_file (session_write d P sid p) (last (s # tr))))"
    using assms(1) by (auto simp: admits_to_def)
  have chosen: "resolve (invocation_name i) s = Inr chosen"
    "case chosen of None \<Rightarrow> \<exists>n. i = New n
     | Some v \<Rightarrow> is_open v \<and> (\<forall>q. previous = Some q \<longrightarrow> jget q ''workstream_id'' \<noteq> jget v ''workstream_id'') \<and>
         (previous = None \<longrightarrow> (\<exists>n. i = Join n))"
    using dec assms(2)
    by (auto simp: decide_def decide_from_def Let_def invocation_name_def isWorkstreamName_def
        split: sum.splits option.splits if_splits decision.splits invocation.splits)
  have "tree (it_before_create env s)" using assms(4,5) by (simp add: evolved_def)
  from obtain_resolves [OF got assms(2,3,4) this] chosen assms(6) obtain u where
    u: "resolve (invocation_name i) (last (s # tr)) = Inr (Some u)" "is_open u"
    "jget u ''workstream_id'' = jget w ''workstream_id''" "chosen \<noteq> None \<longrightarrow> chosen = Some u"
    by (auto simp del: last.simps split: option.splits)
  have "evolved {(P, sid)} s (last (s # tr))"
    using trace_last tracedD [OF obtain_evolved [OF assms(5)]] got by (metis fst_conv)
  then have "tree (last (s # tr))" using assms(4) by (simp add: evolved_def)
  from put_resolve [OF this] have "resolve (invocation_name i) st' = Inr (Some u)" unfolding st' using u(1) by simp
  then show ?thesis using u(2-4) chosen by (cases chosen) auto
qed

section \<open>Joining by name\<close>

text \<open>A store in which a session may join a workstream by its name: the name resolves to an open one,
  the session is not in it already, and the workstream it is in, if any, can be looked up.\<close>

definition joinable ::
  "participating_provider \<Rightarrow> jstr \<Rightarrow> jstr \<Rightarrow> store \<Rightarrow> participation option \<Rightarrow> workstream \<Rightarrow> bool" where
  "joinable P sid n st previous w \<longleftrightarrow>
     readStable P sid st = Inr previous \<and> resolve n st = Inr (Some w) \<and> jget w ''status'' = JStr (js ''open'') \<and>
     (\<forall>q. previous = Some q \<longrightarrow> jget w ''workstream_id'' \<noteq> jget q ''workstream_id'' \<and>
        (jget q ''workstream_id'' = JUndef \<or> (\<exists>v. get (text_of (jget q ''workstream_id'')) st = Inr v)))"

lemma joinable_decide:
  assumes "joinable P sid n st previous w" "session_id_pattern sid"
  shows "decide (session_path P sid) (provider_name P) sid (Join n) st = Inr (Proceed (Some w) previous)"
  using assms by (auto simp: joinable_def seen_read decide_def decide_from_def invocation_name_def is_open_def
      split: option.splits sum.splits)

lemma join_returns:
  assumes "tree st" "participationSessionId sha P native = Inr sid" "session_id_pattern sid" "valid_time now"
    "isWorkstreamName n" "joinable P sid n st previous0 w0" "s = locked_store env P sid st" "tree s"
    "joinable P sid n s previous w" "\<And>q. previous = Some q \<Longrightarrow> keyed (JObj q)"
    "nextMembershipFrom (case previous of None \<Rightarrow> [] | Some p \<Rightarrow> participationMemberships p) now = Inr from"
    "p = next_participation (provider_name P) sid previous (text_of (jget w ''workstream_id'')) from now"
    "writable s (session_write d P sid p)" "file_of (JObj p) = Inr f" "int (jf_size f) \<le> MAX_PARTICIPATION_BYTES"
  shows "\<exists>tr. enroll sha env d P native (Join n) now st = (tr, Inr (admitted previous w False p)) \<and>
    readStable P sid (last (st # tr)) = Inr (Some (canon_props p)) \<and>
    (\<forall>m. resolve m (last (st # tr)) = resolve m s)"
proof -
  note sid = assms(3)
  note dec0 = joinable_decide [OF assms(6) sid] and dec = joinable_decide [OF assms(9) sid]
  have nb: "\<not> blocked st (session_path P sid)"
    using decide_Proceed(1) [OF dec0] readUtf8File_tree [OF assms(1) usable_session [OF sid] participation_bound_safe, of P]
    by (auto simp: readComponents_def split: if_splits sum.splits)
  have name: "isWorkstreamName (invocation_name (Join n))" using assms(5) by (simp add: invocation_name_def)
  have ok: "snd (put_file (session_write d P sid p) s) = Inr ()" by (rule put_succeeds [OF assms(8,13)])
  then obtain tr' where put: "writeJsonFileAtomically (dr_participation d) (session_path P sid) (JObj p) s = (tr', Inr ())"
    by (metis put_file_def session_write_def file_write.select_convs surjective_pairing)
  have "enroll_locked env d (session_path P sid) (provider_name P) sid (Join n) now s =
      andThen (writeJsonFileAtomically (dr_participation d) (session_path P sid) (JObj p)) (\<lambda>_.
      return (admitted previous w False p)) s"
    using dec assms(11,12) by (simp add: enroll_locked_def andThen_observe andThen_obtained return_def)
  also have "\<dots> = (tr', Inr (admitted previous w False p))"
    by (simp add: andThen_def put return_def)
  finally have locked: "enroll_locked env d (session_path P sid) (provider_name P) sid (Join n) now s =
      (tr', Inr (admitted previous w False p))" .
  from enroll_Proceed [OF assms(1) sid nb assms(2,4) name dec0 locked [unfolded assms(7)]] obtain tr where
    tr: "enroll sha env d P native (Join n) now st = (tr, Inr (admitted previous w False p))"
    "last (st # tr) = last (s # tr')" unfolding assms(7) by blast
  from write_success(3) [OF assms(8), of "dr_participation d" "session_path P sid" "JObj p"] put assms(14)
  have last: "last (s # tr') = written (session_path P sid) f s" "s (session_path P sid) \<noteq> Some Directory" by auto
  have "usable_path (session_path P sid)" "\<not> blocked s (session_path P sid)"
    using assms(13) by (simp_all add: writable_def session_write_def)
  from written_read(1) [OF assms(8) this last(2) participation_bound_safe]
  have read: "readUtf8File (session_path P sid) MAX_PARTICIPATION_BYTES (last (s # tr')) = sized MAX_PARTICIPATION_BYTES f"
    unfolding last(1) .
  have "seen P sid s = Inr previous" using assms(9) by (simp add: joinable_def)
  then have sound: "sound_previous P sid previous" by (rule seen_previous) (rule assms(10))
  have wid: "isWorkstreamId (text_of (jget w ''workstream_id''))"
    using assms(9) resolve_identified identified_id by (auto simp: joinable_def)
  have "seen P sid (last (s # tr')) = Inr (Some (canon_props p))"
    using written_record_seen [OF sid sound _ wid assms(4) _ read] assms(11,12,14,15)
    by (simp add: prior_def next_record_def)
  moreover have "resolve m (last (s # tr')) = resolve m s" for m
    using put_resolve [OF assms(8), where d = d and P = P and sid = sid and p = p and n = m] put
    by (simp add: put_file_def session_write_def)
  ultimately show ?thesis using tr by auto
qed

text \<open>Otherwise the answer is settled by the first reading of the store, and nothing is written.\<close>

lemma join_settles:
  assumes "participationSessionId sha P native = Inr sid" "session_id_pattern sid" "valid_time now" "isWorkstreamName n"
    "readStable P sid st = Inr previous"
  shows "resolve n st = Inr None \<Longrightarrow>
      enroll sha env d P native (Join n) now st = ([], Inr (refusal previous (NoWorkstream n)))"
    "resolve n st = Inr (Some w) \<Longrightarrow> previous = Some q \<Longrightarrow> jget w ''workstream_id'' = jget q ''workstream_id'' \<Longrightarrow>
      enroll sha env d P native (Join n) now st = ([], Inr (idempotent q w))"
    "resolve n st = Inr (Some w) \<Longrightarrow> (\<forall>q. previous = Some q \<longrightarrow> jget w ''workstream_id'' \<noteq> jget q ''workstream_id'') \<Longrightarrow>
      jget w ''status'' \<noteq> JStr (js ''open'') \<Longrightarrow>
      enroll sha env d P native (Join n) now st = ([], Inr (refusal previous (NotOpen n (jget w ''status''))))"
proof -
  have c: "participationComponents P sid = Inr (session_path P sid)" using assms(2) components_Inr by blast
  have r: "readComponents (session_path P sid) (provider_name P) sid st = Inr previous"
    using assms(5) by (simp add: seen_read [OF assms(2)])
  note defs = enroll_def andThen_observe c decide_def decide_from_def return_def Let_def invocation_name_def is_open_def
  show "resolve n st = Inr None \<Longrightarrow>
      enroll sha env d P native (Join n) now st = ([], Inr (refusal previous (NoWorkstream n)))"
    using assms(1,3,4) r by (auto simp: defs split: option.splits)
  show "resolve n st = Inr (Some w) \<Longrightarrow> previous = Some q \<Longrightarrow> jget w ''workstream_id'' = jget q ''workstream_id'' \<Longrightarrow>
      enroll sha env d P native (Join n) now st = ([], Inr (idempotent q w))"
    using assms(1,3,4) r by (auto simp: defs)
  show "resolve n st = Inr (Some w) \<Longrightarrow> (\<forall>q. previous = Some q \<longrightarrow> jget w ''workstream_id'' \<noteq> jget q ''workstream_id'') \<Longrightarrow>
      jget w ''status'' \<noteq> JStr (js ''open'') \<Longrightarrow>
      enroll sha env d P native (Join n) now st = ([], Inr (refusal previous (NotOpen n (jget w ''status''))))"
    using assms(1,3,4) r by (auto simp: defs split: option.splits)
qed

section \<open>A store to try it on\<close>

text \<open>Creating a workstream leaves every path outside its directory as it was.\<close>

definition outside_same :: "store \<Rightarrow> store \<Rightarrow> bool" where
  "outside_same a b \<longleftrightarrow> (tree a \<longrightarrow> tree b \<and> (\<forall>q. q \<noteq> [] \<and> hd q \<noteq> js ''workstreams'' \<longrightarrow> b q = a q))"

lemma outside_preorder: "preorder_rel outside_same"
  unfolding preorder_rel_def by (auto simp: reflp_def transp_def outside_same_def)

lemma write_outside:
  assumes "hd path = js ''workstreams''" "2 \<le> length path"
  shows "traced outside_same (writeJsonFileAtomically nonce path v)"
  unfolding traced_def outside_same_def
proof (intro allI ballI impI)
  fix st s assume s: "s \<in> set (fst (writeJsonFileAtomically nonce path v st))" and t: "tree st"
  define w where "w = \<lparr> fw_nonce = nonce, fw_path = path, fw_value = v \<rparr>"
  have put: "s \<in> set (fst (put_file w st))" using s by (simp add: w_def put_file_def)
  have same: "s q = st q" if q: "q \<noteq> []" "hd q \<noteq> js ''workstreams''" for q
  proof -
    obtain b r where path: "path = js ''workstreams'' # b # r"
      using assms by (cases path; cases "tl path") auto
    have ne: "q \<noteq> temporaryPath path nonce" "q \<noteq> path"
      using q by (auto simp: path temporaryPath_def)
    have "\<not> prefix q (js ''workstreams'' # butlast (b # r))" using q by (cases q) auto
    then have "\<not> prefix q (butlast path)" by (simp add: path)
    with ne show ?thesis
    using write_state_elsewhere [OF put_file_state(3) [OF t put] put_file_state(1,2) [OF t put], of q]
    by (auto simp: w_def)
  qed
  then show "tree s \<and> (\<forall>q. q \<noteq> [] \<and> hd q \<noteq> js ''workstreams'' \<longrightarrow> s q = st q)"
    using put_file_tree [OF t put] by blast
qed

lemma create_outside: "traced outside_same (create n1 n2 i opts)"
  unfolding create_def
  by (intro traced_intros outside_preorder write_outside)
    (simp_all add: claimComponents_def recordComponents_def)

lemma sample_sessions: "hd q = js ''sessions'' \<Longrightarrow> q \<noteq> [] \<Longrightarrow> sample_store q = None"
proof -
  assume q: "hd q = js ''sessions''" "q \<noteq> []"
  have "outside_same empty_root sample_store"
    using traced_final [OF outside_preorder create_outside, of empty_root]
    by (simp add: sample_store_def sample_create_def final_def)
  moreover have "tree empty_root" by (simp add: tree_empty_root)
  ultimately have "sample_store q = empty_root q" using q by (auto simp: outside_same_def)
  then show ?thesis using q(2) by (simp add: empty_root_def)
qed

definition sample_sha :: "byte list \<Rightarrow> byte list" where
  "sample_sha bytes = replicate 32 0"

definition sample_session :: jstr where
  "sample_session = js ''ses_'' @ replicate 32 0x30"

definition sample_draws :: draws where
  "sample_draws = \<lparr> dr_claim = js ''4'', dr_record = js ''5'', dr_participation = js ''6'', dr_workstreamId = sample_id \<rparr>"

definition sample_membership :: participation where
  "sample_membership = next_participation (js ''codex'') sample_session None sample_id (to_iso 1) 1"

lemma sample_session_id:
  "participationSessionId sample_sha Codex (js ''n'') = Inr sample_session" "session_id_pattern sample_session"
proof -
  have unit: "hex_unit 0 = 0x30" by (simp add: hex_unit_def unit_of_def js_def)
  have "hex_bytes (replicate n 0) = replicate (2 * n) 0x30" for n
    by (induction n) (simp_all add: hex_bytes_def unit)
  from this [of 16] show "participationSessionId sample_sha Codex (js ''n'') = Inr sample_session"
    by (simp add: participationSessionId_def createSessionId_def createTypedId_def sample_sha_def sample_session_def
        js_def)
  show "session_id_pattern sample_session"
    by (simp add: session_id_pattern_def id_pattern_def sample_session_def list_all_iff is_hex_def is_digit_def)
qed

lemma sample_unblocked: "\<not> blocked sample_store (session_path Codex sample_session)"
proof -
  have "sample_store [] = Some Directory"
  proof -
    have "sample_store [js ''workstreams'', sample_id @ js ''.json''] \<noteq> None"
      using get_entry(1) [OF sample_store_facts(1,2)] .
    from treeD [OF sample_store_facts(1) this, of 0] show ?thesis by simp
  qed
  moreover have "sample_store (take k (session_path Codex sample_session)) = None" if "0 < k" for k
    using that by (intro sample_sessions) (simp_all add: session_path_def hd_take)
  ultimately show ?thesis
    unfolding blocked_def by (metis insertI1 insert_commute less_nat_zero_code linorder_neqE_nat take0)
qed

lemma sample_unseen: "readStable Codex sample_session sample_store = Inr None"
proof -
  have "sample_store (session_path Codex sample_session) = None"
    by (rule sample_sessions) (simp_all add: session_path_def)
  then show ?thesis
    using readUtf8File_tree [OF sample_store_facts(1) usable_session [OF sample_session_id(2)] participation_bound_safe, of Codex]
      sample_unblocked by (simp add: seen_read [OF sample_session_id(2)] readComponents_def)
qed

lemma sample_resolve: "resolve (js ''tui'') sample_store = Inr (Some (canon_props sample_record))"
proof -
  have "\<not> isWorkstreamId (js ''tui'')" by (simp add: isWorkstreamId_def workstream_id_pattern_def id_pattern_def)
  then show ?thesis using sample_store_facts(3) sample_name_ok by (simp add: resolve_def)
qed

lemma sample_joinable: "joinable Codex sample_session (js ''tui'') sample_store None (canon_props sample_record)"
proof -
  have "distinct (map fst sample_record)" unfolding sample_record_def record_of_def by (rule distinct_new_record)
  then have "jget (canon_props sample_record) ''status'' = JStr (js ''open'')"
    by (simp add: jget_canon_props) (simp add: sample_record_def record_of_def canon.simps)
  then show ?thesis using sample_unseen sample_resolve by (simp add: joinable_def)
qed

lemma sample_workstream: "text_of (jget (canon_props sample_record) ''workstream_id'') = sample_id"
proof -
  have "distinct (map fst sample_record)" unfolding sample_record_def record_of_def by (rule distinct_new_record)
  then show ?thesis
    by (simp add: jget_canon_props) (simp add: sample_record_def record_of_def canon.simps text_of_def)
qed

lemma sample_next: "nextMembershipFrom (case (None :: participation option) of None \<Rightarrow> [] | Some p \<Rightarrow> participationMemberships p) 1 = Inr (to_iso 1)"
  by (simp add: nextMembershipFrom_def at_last_def valid_time_def)

lemma sample_membership_file:
  obtains f where "file_of (JObj sample_membership) = Inr f" "int (jf_size f) \<le> MAX_PARTICIPATION_BYTES"
proof -
  have "serializable (JObj sample_membership)"
    by (simp add: sample_membership_def next_participation_def membership_json_def)
  then obtain f where f: "file_of (JObj sample_membership) = Inr f" using serializable_file by blast
  have "text_bound (JObj sample_membership) \<le> 4000"
    using length_to_iso [of 1]
    by (simp add: sample_membership_def next_participation_def membership_json_def sample_session_def sample_id_def
        SESSION_PARTICIPATION_SCHEMA_V2_def)
  with file_of_size [OF f] have "int (jf_size f) \<le> MAX_PARTICIPATION_BYTES" by (simp add: MAX_PARTICIPATION_BYTES_def)
  with f show thesis by (rule that)
qed

lemma sample_session_writable:
  "writable sample_store (session_write sample_draws Codex sample_session sample_membership)"
proof -
  have "hd (temporaryPath (session_path Codex sample_session) n) = js ''sessions''"
    "temporaryPath (session_path Codex sample_session) n \<noteq> []" for n
    by (simp_all add: temporaryPath_def session_path_def)
  moreover have "hd (session_path Codex sample_session) = js ''sessions''" "session_path Codex sample_session \<noteq> []"
    by (simp_all add: session_path_def)
  moreover obtain f where "file_of (JObj sample_membership) = Inr f" using sample_membership_file by blast
  ultimately show ?thesis
    using sample_sessions sample_unblocked usable_session [OF sample_session_id(2), of Codex]
    by (simp add: writable_def session_write_def sample_draws_def)
qed

lemma sample_join_name: "isWorkstreamName (invocation_name (Join (js ''tui'')))" "valid_time 1"
  using sample_name_ok by (simp_all add: invocation_name_def valid_time_def)

definition sample_locked :: store where
  "sample_locked = locked_store alone Codex sample_session sample_store"

text \<open>Nothing changes while the session waits for its lock.\<close>

lemma sample_locked_facts:
  "tree sample_locked" "sample_locked = make_dirs (butlast (session_path Codex sample_session)) sample_store"
  "readStable Codex sample_session sample_locked = Inr None" "resolve n sample_locked = resolve n sample_store"
  "joinable Codex sample_session (js ''tui'') sample_locked None (canon_props sample_record)"
  "writable sample_locked (session_write sample_draws Codex sample_session sample_membership)"
proof -
  show eq: "sample_locked = make_dirs (butlast (session_path Codex sample_session)) sample_store"
    by (simp add: sample_locked_def locked_store_def alone_def)
  note ens = sample_store_facts(1) sample_session_id(2) sample_unblocked
  show "tree sample_locked" "readStable Codex sample_session sample_locked = Inr None"
    unfolding eq using ensured_seen [OF ens] sample_unseen by simp_all
  show "resolve n sample_locked = resolve n sample_store" for n unfolding eq by (rule ensured_resolve [OF ens])
  then show "joinable Codex sample_session (js ''tui'') sample_locked None (canon_props sample_record)"
    using sample_joinable \<open>readStable Codex sample_session sample_locked = Inr None\<close> by (simp add: joinable_def)
  show "writable sample_locked (session_write sample_draws Codex sample_session sample_membership)"
    unfolding eq by (rule writable_ensured [OF sample_session_writable])
qed

lemma sample_enroll:
  "\<exists>tr. enroll sample_sha alone sample_draws Codex (js ''n'') (Join (js ''tui'')) 1 sample_store =
       (tr, Inr (admitted None (canon_props sample_record) False sample_membership)) \<and>
     readStable Codex sample_session (last (sample_store # tr)) = Inr (Some (canon_props sample_membership)) \<and>
     (\<forall>n. resolve n (last (sample_store # tr)) = resolve n sample_locked)"
proof -
  obtain f where f: "file_of (JObj sample_membership) = Inr f" "int (jf_size f) \<le> MAX_PARTICIPATION_BYTES"
    by (rule sample_membership_file)
  show ?thesis
    by (rule join_returns [OF sample_store_facts(1) sample_session_id sample_join_name(2) sample_name_ok sample_joinable
        sample_locked_def sample_locked_facts(1,5) _ sample_next _ sample_locked_facts(6) f])
      (simp_all add: sample_membership_def sample_workstream)
qed

text \<open>The record of an admission extends the one that was found.\<close>

lemma extended_record:
  assumes "seen P sid s = Inr previous" "sound_previous P sid previous" "nextMembershipFrom (prior previous) now = Inr from"
    "isWorkstreamId i" "valid_time now" "p = next_participation (provider_name P) sid previous i from now"
  shows "participation_valid (provider_name P) sid (canon_props p)"
    "map canon (participationMemberships p) = history P sid s @ [canon (membership_json i from)]"
    "memberships_from None (map canon (participationMemberships p))"
    "\<forall>q. readStable P sid s = Inr (Some q) \<longrightarrow> jget p ''joined_at'' = jget q ''joined_at''"
proof -
  have mem: "participationMemberships p = prior previous @ [membership_json i from]"
    by (simp add: assms(6) participationMemberships_def)
  show "memberships_from None (map canon (participationMemberships p))"
    using next_history [OF assms(2-4)] memberships_canon unfolding mem by blast
  show "participation_valid (provider_name P) sid (canon_props p)"
    using next_record_valid [OF assms(2-5)] by (simp add: next_record_def assms(6))
  show "map canon (participationMemberships p) = history P sid s @ [canon (membership_json i from)]"
    unfolding mem using assms(1) by (simp add: history_def prior_def split: option.splits)
  show "\<forall>q. readStable P sid s = Inr (Some q) \<longrightarrow> jget p ''joined_at'' = jget q ''joined_at''"
    using assms(1) by (simp add: assms(6))
qed

section \<open>The properties of enrolments\<close>

text \<open>C6: What becomes of a session that is told to join a workstream by its name.  When no workstream has
  the name, or its workstream is not open, it is refused; when the session is in it already, it is
  told so; in these cases nothing is written.  Otherwise, and when the same is found once the lock of
  the session is held, it is admitted: the enrolment returns, its record is the earlier one with the
  new membership at the end, a reader finds that record, and every name resolves as it did when the
  lock was taken.  The record must be writable there, and within the bound of its readers; what other
  processes do while the session waits for its lock is arbitrary.
\<close>

theorem enroll_join_returns:
  assumes "tree st" "participationSessionId sha P native = Inr sid" "session_id_pattern sid" "valid_time now"
    "isWorkstreamName n" "readStable P sid st = Inr previous0" "resolve n st = Inr found"
  shows "(found = None \<longrightarrow> enroll sha env d P native (Join n) now st = ([], Inr (refusal previous0 (NoWorkstream n)))) \<and>
    (\<forall>w q. found = Some w \<and> previous0 = Some q \<and> jget w ''workstream_id'' = jget q ''workstream_id'' \<longrightarrow>
       enroll sha env d P native (Join n) now st = ([], Inr (idempotent q w))) \<and>
    (\<forall>w. found = Some w \<and> (\<forall>q. previous0 = Some q \<longrightarrow> jget w ''workstream_id'' \<noteq> jget q ''workstream_id'') \<and>
         jget w ''status'' \<noteq> JStr (js ''open'') \<longrightarrow>
       enroll sha env d P native (Join n) now st = ([], Inr (refusal previous0 (NotOpen n (jget w ''status''))))) \<and>
    (\<forall>w0 s previous w from p f. joinable P sid n st previous0 w0 \<and>
         s = locked_store env P sid st \<and> tree s \<and> joinable P sid n s previous w \<and>
         (\<forall>q. previous = Some q \<longrightarrow> keyed (JObj q)) \<and>
         nextMembershipFrom (case previous of None \<Rightarrow> [] | Some q \<Rightarrow> participationMemberships q) now = Inr from \<and>
         p = next_participation (provider_name P) sid previous (text_of (jget w ''workstream_id'')) from now \<and>
         writable s (session_write d P sid p) \<and> file_of (JObj p) = Inr f \<and> int (jf_size f) \<le> MAX_PARTICIPATION_BYTES \<longrightarrow>
       (\<exists>tr. enroll sha env d P native (Join n) now st = (tr, Inr (admitted previous w False p)) \<and>
          readStable P sid (last (st # tr)) = Inr (Some (canon_props p)) \<and>
          (\<forall>m. resolve m (last (st # tr)) = resolve m s)))"
proof (intro conjI)
  note settles = join_settles [OF assms(2-6)]
  show "found = None \<longrightarrow> enroll sha env d P native (Join n) now st = ([], Inr (refusal previous0 (NoWorkstream n)))"
    using settles(1) assms(7) by blast
  show "\<forall>w q. found = Some w \<and> previous0 = Some q \<and> jget w ''workstream_id'' = jget q ''workstream_id'' \<longrightarrow>
      enroll sha env d P native (Join n) now st = ([], Inr (idempotent q w))"
    using settles(2) assms(7) by blast
  show "\<forall>w. found = Some w \<and> (\<forall>q. previous0 = Some q \<longrightarrow> jget w ''workstream_id'' \<noteq> jget q ''workstream_id'') \<and>
      jget w ''status'' \<noteq> JStr (js ''open'') \<longrightarrow>
      enroll sha env d P native (Join n) now st = ([], Inr (refusal previous0 (NotOpen n (jget w ''status''))))"
    using settles(3) assms(7) by blast
qed (intro allI impI, elim conjE, rule join_returns [OF assms(1-5)], auto)

theorem enroll_join_returns_witness:
  "\<exists>tr. enroll sample_sha alone sample_draws Codex (js ''n'') (Join (js ''tui'')) 1 sample_store =
       (tr, Inr (admitted None (canon_props sample_record) False sample_membership)) \<and>
     readStable Codex sample_session (last (sample_store # tr)) = Inr (Some (canon_props sample_membership)) \<and>
     (\<forall>n. resolve n (last (sample_store # tr)) = resolve n sample_locked)"
proof -
  obtain f where f: "file_of (JObj sample_membership) = Inr f" "int (jf_size f) \<le> MAX_PARTICIPATION_BYTES"
    by (rule sample_membership_file)
  have p: "sample_membership = next_participation (provider_name Codex) sample_session None
      (text_of (jget (canon_props sample_record) ''workstream_id'')) (to_iso 1) 1"
    by (simp add: sample_membership_def sample_workstream)
  note all = enroll_join_returns [OF sample_store_facts(1) sample_session_id sample_join_name(2) sample_name_ok sample_unseen
      sample_resolve, of alone sample_draws, THEN conjunct2, THEN conjunct2, THEN conjunct2, rule_format]
  show ?thesis
    by (rule all) (intro conjI, rule sample_joinable, rule sample_locked_def, rule sample_locked_facts(1),
        rule sample_locked_facts(5), simp, rule sample_next, rule p, rule sample_locked_facts(6), rule f(1), rule f(2))
qed

text \<open>C5: An enrolment that reports it has admitted the session has appended exactly one membership to the
  record of the session, and it is in an open workstream of the store: the name that was given
  resolves to it when the enrolment returns.  If the name resolved when the lock was taken, it was to
  that workstream, the session was not in it, and it was not told to create one for a first
  membership; otherwise it was told to create it.  The time of the membership is later than every
  earlier one, the joining time is kept, and the record that is returned is the one a reader finds
  from then on, unless it has outgrown the bound of its readers.  Other processes may do anything
  that \<open>lives\<close> allows while this one waits for the lock of the session, and for that of the
  workstreams, as long as they do not take the identifier drawn for a new workstream.
\<close>

theorem enroll_extends:
  assumes "enroll sha env d P native i now st = (tr, Inr a)" "ad_initiated a" "tree st"
    "participationSessionId sha P native = Inr sid" "isWorkstreamId (dr_workstreamId d)"
    "s = locked_store env P sid st" "lives sha {} (make_dirs (butlast (session_path P sid)) st) s"
    "\<And>x. lives sha {(P, sid)} x (it_before_create env x)"
    "resolve (invocation_name i) s = Inr None \<Longrightarrow> get (dr_workstreamId d) (it_before_create env s) = Inr None"
    "\<And>p. readStable P sid s = Inr (Some p) \<Longrightarrow> keyed (JObj p)"
  shows "\<exists>w from p. resolve (invocation_name i) (last (st # tr)) = Inr (Some w) \<and>
    jget w ''status'' = JStr (js ''open'') \<and>
    (case resolve (invocation_name i) s of Inl e \<Rightarrow> False
     | Inr None \<Rightarrow> \<exists>n. i = New n
     | Inr (Some u) \<Rightarrow> w = u \<and>
         (\<forall>q. readStable P sid s = Inr (Some q) \<longrightarrow> jget q ''workstream_id'' \<noteq> jget w ''workstream_id'') \<and>
         (readStable P sid s = Inr None \<longrightarrow> (\<exists>n. i = Join n))) \<and>
    ad_participation a = Some p \<and> jget p ''workstream_id'' = jget w ''workstream_id'' \<and>
    participation_valid (provider_name P) sid (canon_props p) \<and>
    map canon (participationMemberships p) =
      history P sid s @ [canon (membership_json (text_of (jget w ''workstream_id'')) from)] \<and>
    memberships_from None (map canon (participationMemberships p)) \<and>
    (\<forall>q. readStable P sid s = Inr (Some q) \<longrightarrow> jget p ''joined_at'' = jget q ''joined_at'') \<and>
    readStable P sid (last (st # tr)) \<in> {Inl StoreFileTooLargeError, Inr (Some (canon_props p))}"
proof -
  note ini = enroll_initiated [OF assms(1-4)]
  have quiet: "evolved {(P, sid)} x (it_before_create env x)" for x using lives_evolved [OF assms(8)] .
  have tree: "tree s"
    using lives_evolved [OF assms(7)] ensured_seen(2) [OF assms(3) ini(1,5)] by (simp add: evolved_def)
  obtain previous v created "from" where enr: "seen P sid s = Inr previous" "sound_previous P sid previous"
    "admits_to env d P sid i now s previous v (last (st # tr))" "identified v"
    "nextMembershipFrom (prior previous) now = Inr from"
    "a = admitted previous v created
      (next_participation (provider_name P) sid previous (text_of (jget v ''workstream_id'')) from now)"
    "seen P sid (last (st # tr)) \<in> {Inl StoreFileTooLargeError,
      Inr (Some (next_record P sid previous (text_of (jget v ''workstream_id'')) from now))}"
    using enroll_admits [OF assms(1-6) tree quiet assms(10)] by blast
  from admits_resolves [OF enr(3) ini(3) assms(5) tree quiet assms(9) ini(1)] obtain w where
    w: "resolve (invocation_name i) (last (st # tr)) = Inr (Some w)" "is_open w"
      "jget w ''workstream_id'' = jget v ''workstream_id''"
    and before: "case resolve (invocation_name i) s of Inl e \<Rightarrow> False
      | Inr None \<Rightarrow> \<exists>n. i = New n
      | Inr (Some u) \<Rightarrow> w = u \<and> (\<forall>q. previous = Some q \<longrightarrow> jget q ''workstream_id'' \<noteq> jget w ''workstream_id'') \<and>
         (previous = None \<longrightarrow> (\<exists>n. i = Join n))" by blast
  define p where "p = next_participation (provider_name P) sid previous (text_of (jget v ''workstream_id'')) from now"
  have "jget p ''workstream_id'' = jget w ''workstream_id''"
    using enr(4) w(3) by (auto simp: p_def identified_def text_of_def)
  moreover have "case resolve (invocation_name i) s of Inl e \<Rightarrow> False
     | Inr None \<Rightarrow> \<exists>n. i = New n
     | Inr (Some u) \<Rightarrow> w = u \<and>
         (\<forall>q. readStable P sid s = Inr (Some q) \<longrightarrow> jget q ''workstream_id'' \<noteq> jget w ''workstream_id'') \<and>
         (readStable P sid s = Inr None \<longrightarrow> (\<exists>n. i = Join n))"
    using before enr(1) by (auto split: sum.splits option.splits)
  moreover have "ad_participation a = Some p" "jget w ''status'' = JStr (js ''open'')"
    using enr(6) w(2) by (simp_all add: admitted_def p_def is_open_def)
  moreover have "readStable P sid (last (st # tr)) \<in> {Inl StoreFileTooLargeError, Inr (Some (canon_props p))}"
    using enr(7) by (simp add: p_def next_record_def)
  ultimately show ?thesis using w(1,3) extended_record [OF enr(1,2,5) identified_id [OF enr(4)] ini(2) p_def]
    by (intro exI [of _ w] exI [of _ "from"] exI [of _ p]) simp
qed

theorem enroll_extends_witness:
  "\<exists>tr w. enroll sample_sha alone sample_draws Codex (js ''n'') (Join (js ''tui'')) 1 sample_store =
       (tr, Inr (admitted None (canon_props sample_record) False sample_membership)) \<and>
     resolve (js ''tui'') (last (sample_store # tr)) = Inr (Some w) \<and> jget w ''status'' = JStr (js ''open'') \<and>
     jget sample_membership ''workstream_id'' = jget w ''workstream_id'' \<and>
     memberships_from None (map canon (participationMemberships sample_membership))"
proof -
  obtain tr where tr: "enroll sample_sha alone sample_draws Codex (js ''n'') (Join (js ''tui'')) 1 sample_store =
       (tr, Inr (admitted None (canon_props sample_record) False sample_membership))"
    using sample_enroll by blast
  have id: "isWorkstreamId (dr_workstreamId sample_draws)" by (simp add: sample_draws_def sample_id_ok)
  have quiet: "lives sample_sha {} (make_dirs (butlast (session_path Codex sample_session)) sample_store) sample_locked"
    "\<And>x. lives sample_sha {(Codex, sample_session)} x (it_before_create alone x)"
    unfolding sample_locked_facts(2) by (simp_all add: alone_def lives_stay)
  have name: "invocation_name (Join (js ''tui'')) = js ''tui''" by (simp add: invocation_name_def)
  have at: "resolve (js ''tui'') sample_locked = Inr (Some (canon_props sample_record))"
    by (simp add: sample_locked_facts(4) sample_resolve)
  have p: "ad_participation (admitted None (canon_props sample_record) False sample_membership) = Some sample_membership"
    "ad_initiated (admitted None (canon_props sample_record) False sample_membership)" by (simp_all add: admitted_def)
  from enroll_extends [OF tr p(2) sample_store_facts(1) sample_session_id(1) id sample_locked_def quiet,
      unfolded name at sample_locked_facts(3) p(1)]
  obtain w where "resolve (js ''tui'') (last (sample_store # tr)) = Inr (Some w)" "jget w ''status'' = JStr (js ''open'')"
    "jget sample_membership ''workstream_id'' = jget w ''workstream_id''"
    "memberships_from None (map canon (participationMemberships sample_membership))" by auto
  with tr show ?thesis by blast
qed

text \<open>C4: Whatever processes do, and wherever they crash, the membership history of a session is
  only ever extended and its joining time never changes, unless the record outgrows the bound of its
  readers; a record that cannot be read stays as it is; and the history of a session whose lock is
  held does not change at all.\<close>

theorem participation_history_grows:
  assumes "lives sha held a b" "tree a"
    "\<And>p. readStable P sid a = Inr (Some p) \<Longrightarrow> keyed (JObj p)"
  shows "tree b \<and>
    (readStable P sid b = Inl StoreFileTooLargeError \<or> prefix (history P sid a) (history P sid b)) \<and>
    (\<forall>p q. readStable P sid a = Inr (Some p) \<and> readStable P sid b = Inr (Some q) \<longrightarrow>
       jget q ''joined_at'' = jget p ''joined_at'') \<and>
    (\<forall>e. readStable P sid a = Inl e \<longrightarrow> readStable P sid b = Inl e) \<and>
    ((P, sid) \<in> held \<longrightarrow> readStable P sid b = readStable P sid a)"
proof -
  have "later (seen P sid a) (seen P sid b)" and held: "(P, sid) \<in> held \<Longrightarrow> seen P sid b = seen P sid a" and "tree b"
    using lives_evolved [OF assms(1)] assms(2) by (auto simp: evolved_def)
  with assms(3) show ?thesis
    by (cases "seen P sid a"; cases "\<exists>p. seen P sid a = Inr (Some p)")
      (auto simp: later_def history_def continues_def simp del: keyed.simps split: option.splits)
qed

theorem participation_history_grows_witness:
  "\<exists>st. lives sample_sha {} sample_store st \<and> tree st \<and>
     readStable Codex sample_session st = Inr (Some (canon_props sample_membership))"
proof -
  obtain tr where tr: "enroll sample_sha alone sample_draws Codex (js ''n'') (Join (js ''tui'')) 1 sample_store =
       (tr, Inr (admitted None (canon_props sample_record) False sample_membership))"
    "readStable Codex sample_session (last (sample_store # tr)) = Inr (Some (canon_props sample_membership))"
    using sample_enroll by blast
  have "tr \<noteq> []"
  proof
    assume "tr = []"
    with tr(2) sample_unseen show False by (simp only: last.simps if_True) simp
  qed
  then have "last (sample_store # tr) \<in> set (fst (enroll sample_sha alone sample_draws Codex (js ''n'') (Join (js ''tui'')) 1 sample_store))"
    unfolding tr(1) by simp
  then have "lives sample_sha {} sample_store (last (sample_store # tr))"
    by (rule lives_enroll [OF lives_stay, rotated -1])
      (simp_all add: alone_def lives_stay sample_draws_def sample_id_ok)
  moreover from participation_history_grows [OF this sample_store_facts(1), of Codex sample_session]
  have "tree (last (sample_store # tr))" by (simp add: sample_unseen)
  ultimately show ?thesis using tr(2) by blast
qed

section \<open>Prompts\<close>

text \<open>A prompt that is not an invocation, and a bare invocation, write nothing: the answer reports
  the record of the session as it is.\<close>

theorem admit_reads_only:
  assumes "invocationFor lower attachment options \<in> {None, Some Bare}"
  shows "fst (admit sha lower attachment entries env d options st) = [] \<and>
    (\<forall>a. snd (admit sha lower attachment entries env d options st) = Inr a \<longrightarrow>
       \<not> ad_initiated a \<and>
       read_participation sha (ao_provider options) (ao_nativeSessionId options) st = Inr (ad_participation a) \<and>
       hasJoined sha (ao_provider options) (ao_nativeSessionId options) st = Inr (ad_joined a) \<and>
       (ad_pending a \<longleftrightarrow> invocationFor lower attachment options = Some Bare \<and> \<not> ad_joined a))"
proof (cases "read_participation sha (ao_provider options) (ao_nativeSessionId options) st")
  case (Inl e)
  with assms show ?thesis by (auto simp: admit_def describe_def andThen_observe)
next
  case (Inr p)
  consider "invocationFor lower attachment options = None" | "invocationFor lower attachment options = Some Bare"
    using assms by auto
  then show ?thesis
  proof cases
    case 1
    with Inr show ?thesis by (simp add: admit_def andThen_observe return_def hasJoined_def)
  next
    case 2
    with Inr show ?thesis
      by (cases p; cases "list_workstreams entries st"; cases "describeMembership (the p) st")
        (simp_all add: admit_def describe_def andThen_observe return_def hasJoined_def)
  qed
qed

definition bare_prompt :: admit_options where
  "bare_prompt = \<lparr> ao_provider = Claude, ao_nativeSessionId = js ''n'', ao_event = js ''UserPromptSubmit'',
     ao_prompt = Some (js ''please look at /barbaro''), ao_commandName = None, ao_now = 0 \<rparr>"

lemma bare_prompt_invocation: "invocationFor (\<lambda>s. s) (\<lambda>_. None) bare_prompt = None"
  by code_simp

theorem admit_reads_only_witness:
  "fst (admit sample_sha (\<lambda>s. s) (\<lambda>_. None) [] alone sample_draws bare_prompt sample_store) = []"
  using admit_reads_only [of "\<lambda>s. s" "\<lambda>_. None" bare_prompt] bare_prompt_invocation by simp

text \<open>Naming the workstream a session is already in, whether to join or to create it, changes
  nothing and is answered with the record as it is, even when the workstream is completed.\<close>

theorem enroll_idempotent:
  assumes "valid_time now" "participationSessionId sha P native = Inr sid" "isWorkstreamName (invocation_name i)"
    "readStable P sid st = Inr (Some p)" "resolve (invocation_name i) st = Inr (Some w)"
    "jget w ''workstream_id'' = jget p ''workstream_id''"
  shows "enroll sha env d P native i now st = ([], Inr (idempotent p w))"
proof -
  have sid: "session_id_pattern sid" using assms(4) seen_not_session by fastforce
  then have c: "participationComponents P sid = Inr (session_path P sid)" using components_Inr by blast
  have "readComponents (session_path P sid) (provider_name P) sid st = Inr (Some p)"
    using assms(4) by (simp add: seen_read [OF sid])
  then show ?thesis
    using assms by (simp add: enroll_def andThen_observe c decide_def decide_from_def return_def Let_def)
qed

theorem enroll_idempotent_witness:
  "\<exists>st. enroll sample_sha alone sample_draws Codex (js ''n'') (New (js ''tui'')) 1 st =
     ([], Inr (idempotent (canon_props sample_membership) (canon_props sample_record)))"
proof -
  obtain st where st: "readStable Codex sample_session st = Inr (Some (canon_props sample_membership))"
    "resolve (js ''tui'') st = Inr (Some (canon_props sample_record))"
    using sample_enroll sample_resolve sample_locked_facts(4) by force
  have d: "distinct (map fst sample_record)" unfolding sample_record_def record_of_def by (rule distinct_new_record)
  have "jget (canon_props sample_record) ''workstream_id'' = jget (canon_props sample_membership) ''workstream_id''"
    unfolding sample_membership_def jget_canon_props [OF d] jget_canon_props [OF distinct_next]
    by (simp add: sample_record_def record_of_def)
  with st sample_join_name sample_session_id(1) show ?thesis
    by (intro exI [of _ st] enroll_idempotent) (simp_all add: invocation_name_def)
qed

text \<open>The canonical spelling of a command is read as what it says, whatever follows on later lines.\<close>

definition command_line :: "jstr \<Rightarrow> jstr \<Rightarrow> jstr" where
  "command_line verb name = js ''/barbaro '' @ verb @ [0x20] @ name"

definition no_space :: "jstr \<Rightarrow> bool" where
  "no_space w \<longleftrightarrow> w \<noteq> [] \<and> list_all (\<lambda>u. \<not> is_space u \<and> u \<noteq> 0x0A \<and> u \<noteq> 0x0D) w"

lemma words_from_plain: "list_all (\<lambda>u. \<not> is_space u) w \<Longrightarrow> words_from acc (w @ s) = words_from (rev w @ acc) s"
  by (induction w arbitrary: acc) simp_all

lemma words_from_two:
  assumes "no_space v" "no_space n"
  shows "words_from [] (v @ 0x20 # n) = [v, n]"
proof -
  have "list_all (\<lambda>u. \<not> is_space u) v" "list_all (\<lambda>u. \<not> is_space u) n"
    using assms by (auto simp: no_space_def list_all_iff)
  then show ?thesis
    using words_from_plain [of v "[]" "0x20 # n"] words_from_plain [of n "[]" "[]"] assms
    by (auto simp: no_space_def is_space_def)
qed

lemma split_crlf_plain: "0x0A \<notin> set l \<Longrightarrow> split_crlf acc (l @ s) = split_crlf (rev l @ acc) s"
  by (induction l arbitrary: acc) auto

text \<open>The first line of a text, up to a line feed.\<close>

lemma first_line:
  assumes "no_space n" "0x0A \<notin> set l" "r = [] \<or> hd r = 0x0A"
  shows "\<exists>ls. split_crlf [] (l @ n @ r) = (l @ n) # ls"
proof -
  have n: "0x0A \<notin> set n" "last n \<noteq> 0x0D" "n \<noteq> []"
    using assms(1) last_in_set [of n] by (auto simp: no_space_def list_all_iff)
  then have "split_crlf [] (l @ n @ r) = split_crlf (rev (l @ n)) r"
    using split_crlf_plain [of "l @ n" "[]" r] assms(2) by simp
  moreover have "hd (rev n @ rev l) = last n" using n(3) by (simp add: hd_rev)
  ultimately show ?thesis using assms(3) n by (cases r) (auto simp: hd_rev)
qed

lemma trim_plain:
  assumes "no_space v" "no_space n"
  shows "trim (0x20 # v @ 0x20 # n) = v @ 0x20 # n" "trimStart (v @ s) = v @ s"
proof -
  have hd: "\<not> is_space (hd v)" "\<not> is_space (last n)" "v \<noteq> []" "n \<noteq> []"
    using assms last_in_set [of n] hd_in_set [of v] by (auto simp: no_space_def list_all_iff)
  then obtain v' where v': "v = hd v # v'" by (metis list.exhaust_sel)
  with hd(1) have drop: "dropWhile is_space (v @ s) = v @ s" for s by (metis append_Cons dropWhile.simps(2))
  then show "trimStart (v @ s) = v @ s" by (simp add: trimStart_def)
  have "dropWhile is_space (rev (v @ 0x20 # n)) = rev (v @ 0x20 # n)"
    using hd(2,4) by (simp add: dropWhile_append3 hd_rev dropWhile_eq_self_iff)
  moreover have "is_space 0x20" by (simp add: is_space_def)
  ultimately show "trim (0x20 # v @ 0x20 # n) = v @ 0x20 # n"
    using drop [of "0x20 # n"] by (simp add: trim_def)
qed

lemma name_unit_no_space: "slug_unit u \<or> u = 0x2D \<Longrightarrow> \<not> is_space u \<and> u \<noteq> 0x0A \<and> u \<noteq> 0x0D"
  by (auto simp: slug_unit_def is_lower_def is_digit_def is_space_def word_le_nat_alt)

lemma name_no_space: "isWorkstreamName n \<Longrightarrow> no_space n"
  using name_unit_no_space unfolding isWorkstreamName_def no_space_def list_all_iff by blast

lemma token_rest_command: "token_rest (js ''/barbaro'' @ 0x20 # s) = Some (0x20 # s)"
proof -
  have "is_space 0x20" by (simp add: is_space_def)
  then show ?thesis by (simp add: token_rest_def js_def ascii_lower_unit_def)
qed

text \<open>The canonical spelling of a command is read as what it says: \<open>/barbaro join <name>\<close> and
  \<open>/barbaro new <name>\<close>, with any text on the lines below.\<close>

theorem parseBarbaroInvocation_canonical:
  assumes "isWorkstreamName name" "verb = js ''join'' \<or> verb = js ''new''" "below = [] \<or> hd below = 0x0A"
    "lower verb = verb" "lower name = name"
  shows "parseBarbaroInvocation lower attachment (command_line verb name @ below) =
    Some (if verb = js ''join'' then Join name else New name)"
proof -
  note n = name_no_space [OF assms(1)]
  have v: "no_space verb" "token_rest (verb @ 0x20 # name) = None"
    using assms(2) by (auto simp: no_space_def js_def is_space_def token_rest_def)
  have line: "command_line verb name = js ''/barbaro'' @ 0x20 # verb @ 0x20 # name"
    by (simp add: command_line_def js_def)
  have "0x0A \<notin> set (js ''/barbaro'' @ 0x20 # verb @ [0x20])"
    using assms(2) by (auto simp: js_def)
  from first_line [OF n this assms(3)] obtain ls where
    split: "split_crlf [] (command_line verb name @ below) = command_line verb name # ls"
    by (auto simp: line)
  have bom: "strip_bom (command_line verb name @ below) = command_line verb name @ below"
    by (simp add: line strip_bom_def js_def)
  have start: "trimStart (command_line verb name) = command_line verb name"
    by (simp add: line trimStart_def js_def is_space_def)
  have sep: "decode_separator (0x20 # verb @ 0x20 # name) = 0x20 # verb @ 0x20 # name"
    by (subst decode_separator_def, subst (1 2) drop_entities.simps) (simp add: js_def ascii_lower_unit_def)
  have "verb \<noteq> []" using v(1) by (simp add: no_space_def)
  then have arg: "argument_text ls (0x20 # verb @ 0x20 # name) = verb @ 0x20 # name"
    using v(2) by (simp add: argument_text_def sep trim_plain [OF v(1) n] Let_def)
  show ?thesis
    using assms(2,4,5) unfolding parseBarbaroInvocation_def bom split
    by (auto simp: start [unfolded line] Let_def line token_rest_command arg words_from_two [OF v(1) n] parse_words_def)
qed

theorem parseBarbaroInvocation_canonical_witness:
  "parseBarbaroInvocation (\<lambda>s. s) None (command_line (js ''join'') (js ''tui'') @ [0x0A]) = Some (Join (js ''tui''))"
  using parseBarbaroInvocation_canonical [of "js ''tui''" "js ''join''" "[0x0A]" "\<lambda>s. s" None] sample_name_ok by simp

end
