(* ===== verification/Participation_Size.thy ===== *)
theory Participation_Size
  imports Participation_Consent
begin

text \<open>
  How large the record of a session must become: every membership is kept, each takes its place in
  the file, and the readers accept at most \<open>MAX_PARTICIPATION_BYTES\<close> bytes.
\<close>

section \<open>Lower bounds of texts\<close>

lemma join_ge: "sum_list (map length ts) \<le> length (join [c] ts)"
  by (cases ts) (auto simp: join_def length_concat comp_def intro: sum_list_mono)

lemma quote_char_ge: "length c \<le> length (quote_char c)"
  by (cases c rule: quote_char.cases) auto

lemma quote_ge: "2 + length s \<le> length (quote s)"
proof -
  have "sum_list (map length (characters s)) \<le> length (concat (map quote_char (characters s)))"
    unfolding length_concat map_map comp_def by (intro sum_list_mono quote_char_ge)
  then show ?thesis by (simp add: quote_def sum_characters)
qed

lemma array_ge: "sum_list (map (\<lambda>x. length (json_text x)) xs) \<le> length (json_text (JArr xs))"
  using join_ge [of "map json_text xs" "0x2C"] by (simp add: comp_def)

lemma member_ge:
  assumes "(k, v) \<in> set ps"
  shows "length (json_text v) \<le> length (json_text (JObj ps))"
proof -
  let ?t = "\<lambda>(k, v). quote k @ 0x3A # json_text v"
  have "length (?t (k, v)) \<le> sum_list (map (length \<circ> ?t) ps)"
    using assms by (intro member_le_sum_list) (auto simp: image_iff intro!: bexI [of _ "(k, v)"])
  also have "\<dots> \<le> length (join [0x2C] (map ?t ps))" using join_ge [of "map ?t ps" "0x2C"] by simp
  finally show ?thesis by simp
qed

lemma jget_in: "jget ps key \<noteq> JUndef \<Longrightarrow> (js key, jget ps key) \<in> set ps"
  by (auto simp: jget_def split: option.splits dest: map_of_SomeD)

lemma file_of_size_ge: "file_of v = Inr f \<Longrightarrow> length (json_text (canon v)) < jf_size f"
proof -
  assume f: "file_of v = Inr f"
  then obtain t where t: "stableStringify v = Inr t" "jf_size f = byte_length t + 1"
    by (auto simp: file_of_def split: sum.splits)
  have "serializable v \<and> v \<noteq> JUndef"
    using t(1) stableStringify_canon [of v] encode_unserializable [of v False]
    by (cases "serializable v") (auto simp: stableStringify_def split: sum.splits option.splits)
  then have "t = json_text (canon v)"
    using t(1) stableStringify_canon [of v] by (auto split: if_splits)
  then show ?thesis using t(2) length_le_byte_length [of t] by simp
qed

section \<open>The size of a history\<close>

lemma membership_ge:
  assumes "keyed m" "has_id m"
  shows "37 \<le> length (json_text (canon m))"
proof -
  obtain ps i where ps: "as_object m = Some ps" "jget ps ''workstream_id'' = JStr i" "isWorkstreamId i"
    using assms(2) by (auto simp: has_id_def membership_id_def as_pattern_def split: option.splits if_splits elim!: as_string.elims)
  have "as_object (canon m) = Some (canon_props ps)" by (simp add: as_object_canon ps(1))
  then have m: "canon m = JObj (canon_props ps)" by (cases "canon m") auto
  have "jget (canon_props ps) ''workstream_id'' = JStr i"
    using keyed_object [OF assms(1) ps(1)] ps(2) by (simp add: canon.simps)
  then have "(js ''workstream_id'', JStr i) \<in> set (canon_props ps)"
    using jget_in [of "canon_props ps" "''workstream_id''"] by simp
  from member_ge [OF this] show ?thesis using quote_ge [of i] id_length [OF ps(3)] by (simp add: m)
qed

lemma memberships_have_ids: "memberships_from p ms \<Longrightarrow> m \<in> set ms \<Longrightarrow> has_id m"
  by (induction ms arbitrary: p) (auto simp: memberships_from_Cons after_def simp del: memberships_from.simps(2))

text \<open>C34: The record of a session that has moved often is larger than its readers accept: from 443
  memberships on, whatever is written for it can never be read again.\<close>

theorem participation_outgrows:
  assumes "participation_valid provider sid p" "keyed (JObj p)" "443 \<le> length (participationMemberships p)"
    "file_of (JObj p) = Inr f"
  shows "int (jf_size f) > MAX_PARTICIPATION_BYTES"
proof -
  obtain ms where ms: "jget p ''memberships'' = JArr ms" "participationMemberships p = ms"
    using assms(3) by (auto simp: participationMemberships_def split: if_splits jsval.splits)
  note wf = prior_memberships(1) [OF assms(1), unfolded ms(2)]
  have keyed: "list_all keyed ms" using keyed_prior [OF assms(2)] by (simp add: ms(2))
  have "distinct (map fst p)" using assms(2) by simp
  from jget_canon_props [OF this] ms(1) have "jget (canon_props p) ''memberships'' = JArr (map canon ms)"
    using canon_JArr [of ms] memberships_objects [OF wf] by auto
  then have "(js ''memberships'', JArr (map canon ms)) \<in> set (canon_props p)"
    using jget_in [of "canon_props p" "''memberships''"] by simp
  from member_ge [OF this] have "length (json_text (JArr (map canon ms))) < jf_size f"
    using file_of_size_ge [OF assms(4)] by simp
  moreover have "sum_list (map (\<lambda>m. 37) ms) \<le> sum_list (map (\<lambda>m. length (json_text (canon m))) ms)"
    using membership_ge memberships_have_ids [OF wf] keyed by (intro sum_list_mono) (auto simp: list_all_iff)
  ultimately have "37 * length ms < jf_size f"
    using array_ge [of "map canon ms"] by (simp add: comp_def sum_list_triv)
  then show ?thesis using assms(3) by (simp add: ms(2) MAX_PARTICIPATION_BYTES_def)
qed

definition many_moves :: "jsval list" where
  "many_moves = map (\<lambda>k. membership_json sample_id (to_iso (int k))) [0..<443]"

definition moved_often :: participation where
  "moved_often = canon_props
     [(js ''schema'', JStr SESSION_PARTICIPATION_SCHEMA_V2), (js ''provider'', JStr (js ''codex'')),
      (js ''session_id'', JStr sample_session), (js ''joined_at'', JStr (to_iso 0)),
      (js ''initiated_by'', JStr (js ''user_prompt'')), (js ''workstream_id'', JStr sample_id),
      (js ''memberships'', JArr many_moves)]"

lemma moves_from:
  assumes "\<forall>p. previous = Some p \<longrightarrow> p < int a" "b \<le> 1000"
  shows "memberships_from previous (map (\<lambda>k. membership_json sample_id (to_iso (int k))) [a..<b])"
  using assms(1)
proof (induction "b - a" arbitrary: a previous)
  case (Suc n)
  then have a: "[a..<b] = a # [Suc a..<b]" by (simp add: upt_conv_Cons)
  have "date_parse (to_iso (int a)) = Some (int a)"
    using Suc.hyps(2) assms(2) by (intro date_parse_iso) (simp add: valid_time_def)
  moreover have "memberships_from (Some (int a)) (map (\<lambda>k. membership_json sample_id (to_iso (int k))) [Suc a..<b])"
    using Suc.hyps by simp
  ultimately show ?case
    using Suc.prems sample_id_ok
    by (simp add: a memberships_from_Cons after_def has_id_def del: memberships_from.simps(2) upt_Suc split: option.split)
qed simp

lemma many_moves_wf: "memberships_from None many_moves" "length many_moves = 443" "list_all keyed many_moves"
  using moves_from [of None 0 443] by (simp_all add: many_moves_def list_all_iff)

theorem participation_outgrows_witness:
  "\<exists>f. file_of (JObj moved_often) = Inr f \<and> int (jf_size f) > MAX_PARTICIPATION_BYTES"
proof -
  let ?ps = "[(js ''schema'', JStr SESSION_PARTICIPATION_SCHEMA_V2), (js ''provider'', JStr (js ''codex'')),
      (js ''session_id'', JStr sample_session), (js ''joined_at'', JStr (to_iso 0)),
      (js ''initiated_by'', JStr (js ''user_prompt'')), (js ''workstream_id'', JStr sample_id),
      (js ''memberships'', JArr many_moves)]"
  have d: "distinct (map fst ?ps)" by simp
  note get = jget_canon_props [OF d]
  have arr: "canon (JArr many_moves) = JArr (map canon many_moves)"
    using canon_JArr [of many_moves] memberships_objects [OF many_moves_wf(1)] by blast
  have wf: "memberships_from None (map canon many_moves)"
    using many_moves_wf memberships_canon by blast
  have last: "membership_id (last (map canon many_moves)) = JStr sample_id"
  proof -
    have "many_moves \<noteq> []" using many_moves_wf(2) by auto
    moreover have "last many_moves = membership_json sample_id (to_iso 442)"
      by (simp add: many_moves_def last_map)
    ultimately show ?thesis
      using membership_canon(2) [of "membership_json sample_id (to_iso 442)"] by (simp add: last_map canon.simps)
  qed
  have "many_moves \<noteq> []" using many_moves_wf(2) by auto
  then have g: "jget moved_often ''memberships'' = JArr (map canon many_moves)"
    "jget moved_often ''schema'' = JStr SESSION_PARTICIPATION_SCHEMA_V2"
    "jget moved_often ''provider'' = JStr (js ''codex'')" "jget moved_often ''session_id'' = JStr sample_session"
    "jget moved_often ''initiated_by'' = JStr (js ''user_prompt'')" "jget moved_often ''joined_at'' = JStr (to_iso 0)"
    "jget moved_often ''workstream_id'' = JStr sample_id"
    by (simp_all add: moved_often_def get arr canon.simps(6))
  have valid: "participation_valid (js ''codex'') sample_session moved_often"
    using wf last sample_id_ok \<open>many_moves \<noteq> []\<close>
    by (simp add: participation_valid_def g validateMemberships_def is_date_def date_parse_iso valid_time_def)
  have keyed: "keyed (JObj moved_often)"
    using keyed_canon [of "JObj ?ps"] many_moves_wf(3) unfolding moved_often_def by simp
  have len: "443 \<le> length (participationMemberships moved_often)"
    by (simp add: participationMemberships_def g many_moves_wf(2))
  have "serializable (JObj ?ps)"
    by (auto simp: many_moves_def membership_json_def list_all_iff)
  then obtain f where "file_of (JObj moved_often) = Inr f"
    using serializable_file [of "JObj moved_often"] serializable_canon [of "JObj ?ps"]
    unfolding moved_often_def by (metis canon_JObj jsval.distinct)
  with participation_outgrows [OF valid keyed len] show ?thesis by blast
qed

end
