(* ===== verification/Active_Validation.thy ===== *)
theory Active_Validation
  imports Decoders Typed_Id
begin

text \<open>
  \<open>active/validation.ts\<close> and \<open>active/types.ts\<close>: the strict validation of an active lease, the
  advisory record of what one actor of a session is doing.  A validator collects the issues it
  finds, each a path into the value and a message, in the order of the code.

  \<open>Date.parse\<close> reads the separators \<open>t\<close> and \<open>z\<close> as \<open>T\<close> and \<open>Z\<close> (\<open>upper_marks\<close>).  Values are finite
  trees, so that a cycle cannot occur.
\<close>

section \<open>Data\<close>

type_synonym issue = "jstr \<times> jstr"

definition ACTIVE_LEASE_SCHEMA :: jstr where
  "ACTIVE_LEASE_SCHEMA = js ''barbaro.active.v1''"

datatype lease_state = Working | Waiting | Blocked | Idle

fun state_name :: "lease_state \<Rightarrow> jstr" where
  "state_name Working = js ''working''"
| "state_name Waiting = js ''waiting''"
| "state_name Blocked = js ''blocked''"
| "state_name Idle = js ''idle''"

text \<open>A validated lease is the list of its properties.\<close>

type_synonym lease = "(jstr \<times> jsval) list"

definition TOP_LEVEL_KEYS :: "string list" where
  "TOP_LEVEL_KEYS =
     [''schema'', ''lease_id'', ''provider'', ''session_id'', ''workstream_id'', ''turn_id'', ''agent_id'',
      ''state'', ''intent'', ''current_action'', ''claims'', ''unknown_write_scope'', ''revision'',
      ''updated_at'', ''expires_at'', ''source_refs'', ''extensions'']"

section \<open>Paths of issues\<close>

definition key_path :: "jstr \<Rightarrow> jstr \<Rightarrow> jstr" where
  "key_path path key = path @ js ''.'' @ key"

definition member_path :: "jstr \<Rightarrow> string \<Rightarrow> jstr" where
  "member_path path key = key_path path (js key)"

definition index_path :: "jstr \<Rightarrow> nat \<Rightarrow> jstr" where
  "index_path path i = path @ js ''['' @ decimal (int i) @ js '']''"

definition indexed :: "(jstr \<Rightarrow> jsval \<Rightarrow> issue list) \<Rightarrow> jstr \<Rightarrow> jsval list \<Rightarrow> issue list" where
  "indexed f path xs = concat (map (\<lambda>(i, x). f (index_path path i) x) (enumerate 0 xs))"

text \<open>\<open>if (value !== undefined) validate(value)\<close>\<close>

definition unless_absent :: "(jsval \<Rightarrow> issue list) \<Rightarrow> jsval \<Rightarrow> issue list" where
  "unless_absent f v = (if v = JUndef then [] else f v)"

definition check :: "bool \<Rightarrow> jstr \<Rightarrow> string \<Rightarrow> issue list" where
  "check ok path message = (if ok then [] else [(path, js message)])"

section \<open>Validators\<close>

definition rejectUnknownKeys :: "(jstr \<times> jsval) list \<Rightarrow> string list \<Rightarrow> jstr \<Rightarrow> issue list" where
  "rejectUnknownKeys ps allowed path =
     concat (map (\<lambda>(k, _). check (k \<in> set (map js allowed)) (key_path path k) ''is not allowed'') ps)"

definition validateString :: "(jstr \<Rightarrow> bool) option \<Rightarrow> jstr \<Rightarrow> jsval \<Rightarrow> issue list" where
  "validateString pattern path v =
     (case as_string v of
        None \<Rightarrow> [(path, js ''must be a string'')]
      | Some s \<Rightarrow>
          if s = [] then [(path, js ''must not be empty'')]
          else (case pattern of
              None \<Rightarrow> []
            | Some p \<Rightarrow> check (p s) path ''has an invalid format''))"

definition validateSafeInteger :: "int \<Rightarrow> jstr \<Rightarrow> jsval \<Rightarrow> issue list" where
  "validateSafeInteger minimum path v =
     (case as_safe_int v of
        Some n \<Rightarrow> if minimum \<le> n then [] else
          [(path, js ''must be a safe integer between '' @ decimal minimum @ js '' and '' @ decimal max_safe)]
      | None \<Rightarrow>
          [(path, js ''must be a safe integer between '' @ decimal minimum @ js '' and '' @ decimal max_safe)])"

text \<open>The fields of a text that matches \<open>RFC3339_PATTERN\<close>.\<close>

record rfc_time =
  rt_year :: int
  rt_month :: int
  rt_day :: int
  rt_hour :: int
  rt_minute :: int
  rt_second :: int
  rt_offsetHour :: int
  rt_offsetMinute :: int

definition upper_marks :: "jstr \<Rightarrow> jstr" where
  "upper_marks = map (\<lambda>u. if u = 0x74 then 0x54 else if u = 0x7A then 0x5A else u)"

definition rfc_offset :: "jstr \<Rightarrow> (int \<times> int) option" where
  "rfc_offset s = (case s of [] \<Rightarrow> None
     | u # r \<Rightarrow> if u = 0x5A then (if r = [] then Some (0, 0) else None)
         else if u = 0x2B \<or> u = 0x2D then
           (case read_digits 2 0 r of None \<Rightarrow> None
            | Some (h, q) \<Rightarrow> (case time_field 0x3A q of None \<Rightarrow> None
               | Some (m, e) \<Rightarrow> if e = [] then Some (h, m) else None))
         else None)"

definition rfc3339 :: "jstr \<Rightarrow> rfc_time option" where
  "rfc3339 s =
     Option.bind (read_digits 4 0 (upper_marks s)) (\<lambda>(y, s1).
     Option.bind (time_field 0x2D s1) (\<lambda>(mo, s2).
     Option.bind (time_field 0x2D s2) (\<lambda>(d, s3).
     Option.bind (time_field 0x54 s3) (\<lambda>(h, s4).
     Option.bind (time_field 0x3A s4) (\<lambda>(mi, s5).
     Option.bind (time_field 0x3A s5) (\<lambda>(sec, s6).
     Option.bind (read_fraction s6) (\<lambda>(_, s7).
     Option.bind (rfc_offset s7) (\<lambda>(oh, om).
       Some \<lparr> rt_year = y, rt_month = mo, rt_day = d, rt_hour = h, rt_minute = mi, rt_second = sec,
              rt_offsetHour = oh, rt_offsetMinute = om \<rparr>))))))))"

definition real_time :: "rfc_time \<Rightarrow> bool" where
  "real_time t \<longleftrightarrow> 1 \<le> rt_month t \<and> rt_month t \<le> 12 \<and>
     1 \<le> rt_day t \<and> rt_day t \<le> month_days (rt_year t) ! nat (rt_month t - 1) \<and>
     rt_hour t \<le> 23 \<and> rt_minute t \<le> 59 \<and> rt_second t \<le> 59 \<and>
     rt_offsetHour t \<le> 23 \<and> rt_offsetMinute t \<le> 59"

definition timestampMillis :: "jstr \<Rightarrow> jsval \<Rightarrow> issue list \<times> int option" where
  "timestampMillis path v =
     (case as_string v of
        None \<Rightarrow> ([(path, js ''must be an RFC 3339 date-time string'')], None)
      | Some s \<Rightarrow>
          (case rfc3339 s of
             None \<Rightarrow> ([(path, js ''must be an RFC 3339 date-time string'')], None)
           | Some t \<Rightarrow>
               if \<not> real_time t then ([(path, js ''must be a real RFC 3339 date-time'')], None)
               else (case date_parse (upper_marks s) of
                   None \<Rightarrow> ([(path, js ''must be a real date-time'')], None)
                 | Some ms \<Rightarrow> ([], Some ms))))"

text \<open>\<open>value.split("/")\<close>\<close>

fun path_parts :: "jstr \<Rightarrow> jstr list" where
  "path_parts [] = [[]]"
| "path_parts (u # us) =
     (case path_parts us of
        [] \<Rightarrow> [[u]]
      | p # ps \<Rightarrow> if u = 0x2F then [] # p # ps else (u # p) # ps)"

definition is_letter :: "16 word \<Rightarrow> bool" where
  "is_letter u \<longleftrightarrow> (0x41 \<le> u \<and> u \<le> 0x5A) \<or> is_lower u"

text \<open>\<open>/^[A-Za-z]:\//\<close>\<close>

definition drive_path :: "jstr \<Rightarrow> bool" where
  "drive_path s \<longleftrightarrow> 3 \<le> length s \<and> is_letter (s ! 0) \<and> s ! 1 = 0x3A \<and> s ! 2 = 0x2F"

definition repo_path :: "jstr \<Rightarrow> bool" where
  "repo_path s \<longleftrightarrow> \<not> isAbsolute s \<and> \<not> drive_path s \<and> 0x5C \<notin> set s \<and> 0 \<notin> set s \<and> js ''..'' \<notin> set (path_parts s)"

definition quoted :: "string \<Rightarrow> string" where
  "quoted t = [CHR 0x27] @ t @ [CHR 0x27]"

definition validateRepoPath :: "jstr \<Rightarrow> jsval \<Rightarrow> issue list" where
  "validateRepoPath path v =
     (case validateString None path v of
        [] \<Rightarrow> check (case as_string v of Some s \<Rightarrow> repo_path s | None \<Rightarrow> False) path
                (''must be a workspace-relative POSIX path without '' @ quoted ''..'')
      | issues \<Rightarrow> issues)"

text \<open>\<open>value.key === "a" || \<dots>\<close>\<close>

definition one_of :: "string list \<Rightarrow> jsval \<Rightarrow> bool" where
  "one_of names v = (case as_string v of Some s \<Rightarrow> s \<in> set (map js names) | None \<Rightarrow> False)"

definition validateRedaction :: "jstr \<Rightarrow> jsval \<Rightarrow> issue list" where
  "validateRedaction path v =
     (case as_object v of
        None \<Rightarrow> [(path, js ''must be an object'')]
      | Some ps \<Rightarrow>
          rejectUnknownKeys ps [''kind'', ''count''] path @
          validateString None (member_path path ''kind'') (jget ps ''kind'') @
          validateSafeInteger 1 (member_path path ''count'') (jget ps ''count''))"

definition validateContent :: "jstr \<Rightarrow> jsval \<Rightarrow> issue list" where
  "validateContent path v =
     (case as_object v of
        None \<Rightarrow> [(path, js ''must be an object'')]
      | Some ps \<Rightarrow>
          rejectUnknownKeys ps [''text'', ''fidelity'', ''truncated'', ''original_utf8_bytes'', ''redactions''] path @
          check (as_string (jget ps ''text'') \<noteq> None) (member_path path ''text'') ''must be a string'' @
          check (one_of [''verbatim'', ''normalized'', ''excerpt'', ''redacted''] (jget ps ''fidelity''))
            (member_path path ''fidelity'') ''has an invalid value'' @
          check (as_bool (jget ps ''truncated'') \<noteq> None) (member_path path ''truncated'') ''must be a boolean'' @
          (if \<not> absent ps ''original_utf8_bytes''
           then validateSafeInteger 0 (member_path path ''original_utf8_bytes'') (jget ps ''original_utf8_bytes'')
           else check (jget ps ''truncated'' \<noteq> JBool True) (member_path path ''original_utf8_bytes'')
                  ''is required when content is truncated'') @
          (case as_array (jget ps ''redactions'') of
             None \<Rightarrow> [(member_path path ''redactions'', js ''must be an array'')]
           | Some xs \<Rightarrow> indexed validateRedaction (member_path path ''redactions'') xs))"

definition validateCurrentAction :: "jstr \<Rightarrow> jsval \<Rightarrow> issue list" where
  "validateCurrentAction path v =
     (case as_object v of
        None \<Rightarrow> [(path, js ''must be an object'')]
      | Some ps \<Rightarrow>
          rejectUnknownKeys ps [''kind'', ''tool_name'', ''path'', ''command'', ''started_at''] path @
          check (one_of [''file_change'', ''command'', ''test'', ''tool'', ''other''] (jget ps ''kind''))
            (member_path path ''kind'') ''has an invalid value'' @
          unless_absent (validateString None (member_path path ''tool_name'')) (jget ps ''tool_name'') @
          unless_absent (validateRepoPath (member_path path ''path'')) (jget ps ''path'') @
          unless_absent (validateContent (member_path path ''command'')) (jget ps ''command'') @
          unless_absent (\<lambda>t. fst (timestampMillis (member_path path ''started_at'') t)) (jget ps ''started_at''))"

definition validateClaim :: "jstr \<Rightarrow> jsval \<Rightarrow> issue list" where
  "validateClaim path v =
     (case as_object v of
        None \<Rightarrow> [(path, js ''must be an object'')]
      | Some ps \<Rightarrow>
          rejectUnknownKeys ps [''path'', ''mode'', ''confidence''] path @
          validateRepoPath (member_path path ''path'') (jget ps ''path'') @
          check (jget ps ''mode'' = JStr (js ''write'')) (member_path path ''mode'') (''must equal '' @ quoted ''write'') @
          check (one_of [''exact'', ''inferred''] (jget ps ''confidence'')) (member_path path ''confidence'')
            ''has an invalid value'')"

text \<open>\<open>typeof a === "number" && typeof b === "number" && b < a\<close>, for integers.\<close>

definition line_order :: "jsval \<Rightarrow> jsval \<Rightarrow> bool" where
  "line_order a b =
     (case (as_safe_int a, as_safe_int b) of (Some m, Some n) \<Rightarrow> m \<le> n | _ \<Rightarrow> True)"

definition validateSourceRef :: "jstr \<Rightarrow> jsval \<Rightarrow> issue list" where
  "validateSourceRef path v =
     (case as_object v of
        None \<Rightarrow> [(path, js ''must be an object'')]
      | Some ps \<Rightarrow>
          rejectUnknownKeys ps [''trace_id'', ''trace_path'', ''line_start'', ''line_end'', ''native_record_ids''] path @
          validateString None (member_path path ''trace_id'') (jget ps ''trace_id'') @
          unless_absent (validateString None (member_path path ''trace_path'')) (jget ps ''trace_path'') @
          unless_absent (validateSafeInteger 1 (member_path path ''line_start'')) (jget ps ''line_start'') @
          unless_absent (\<lambda>line_end.
            validateSafeInteger 1 (member_path path ''line_end'') line_end @
            (if absent ps ''line_start''
             then [(member_path path ''line_start'', js ''is required when line_end is present'')]
             else check (line_order (jget ps ''line_start'') line_end) (member_path path ''line_end'')
                    ''must not precede line_start'')) (jget ps ''line_end'') @
          unless_absent (\<lambda>ids. case as_array ids of
              None \<Rightarrow> [(member_path path ''native_record_ids'', js ''must be an array'')]
            | Some xs \<Rightarrow> indexed (validateString None) (member_path path ''native_record_ids'') xs)
            (jget ps ''native_record_ids''))"

function validateJsonValue :: "jstr \<Rightarrow> jsval \<Rightarrow> issue list" where
  "validateJsonValue path JNull = []"
| "validateJsonValue path (JStr s) = []"
| "validateJsonValue path (JBool b) = []"
| "validateJsonValue path (JNum n) = check (n \<noteq> NonFinite) path ''must be a finite JSON number''"
| "validateJsonValue path (JArr xs) =
     concat (map (\<lambda>(i, x). validateJsonValue (index_path path i) x) (enumerate 0 xs))"
| "validateJsonValue path (JObj ps) =
     concat (map (\<lambda>(k, v). validateJsonValue (key_path path k) v) ps)"
| "validateJsonValue path JNonPlain = [(path, js ''must be a plain JSON object'')]"
| "validateJsonValue path JUndef = [(path, js ''must contain only JSON values'')]"
| "validateJsonValue path (JBigInt i) = [(path, js ''must contain only JSON values'')]"
  by pat_completeness auto
termination
  by (relation "measure (\<lambda>(_, v). size v)")
    (auto dest: jsval_size_JArr jsval_size_JObj simp del: jsval.size simp: in_set_enumerate_eq dest!: nth_mem)

definition validateExtension :: "jstr \<Rightarrow> jstr \<times> jsval \<Rightarrow> issue list" where
  "validateExtension path p =
     (case p of (provider, extension) \<Rightarrow>
        check (provider_pattern provider) (key_path path provider) ''has an invalid provider key'' @
        (case as_object extension of
           None \<Rightarrow> [(key_path path provider, js ''must be an object'')]
         | Some _ \<Rightarrow> validateJsonValue (key_path path provider) extension))"

definition actor_key_ok :: "actor_key \<Rightarrow> bool" where
  "actor_key_ok a \<longleftrightarrow>
     validateString (Some provider_pattern) (js ''$.provider'') (JStr (a_provider a)) @
     validateString (Some session_id_pattern) (js ''$.session_id'') (JStr (a_session_id a)) @
     validateString None (js ''$.agent_id'') (JStr (a_agent_id a)) = []"

definition validateActiveActorKey :: "actor_key \<Rightarrow> unit result" where
  "validateActiveActorKey a = (if actor_key_ok a then Inr () else Inl ActiveLeaseValidationError)"

text \<open>The issues of a lease, field by field.\<close>

definition identity_issues :: "lease \<Rightarrow> issue list" where
  "identity_issues ps =
     check (jget ps ''schema'' = JStr ACTIVE_LEASE_SCHEMA) (js ''$.schema'')
       (''must equal '' @ quoted ''barbaro.active.v1'') @
     validateString (Some lease_id_pattern) (js ''$.lease_id'') (jget ps ''lease_id'') @
     validateString (Some provider_pattern) (js ''$.provider'') (jget ps ''provider'') @
     validateString (Some session_id_pattern) (js ''$.session_id'') (jget ps ''session_id'') @
     unless_absent (validateString (Some workstream_id_pattern) (js ''$.workstream_id'')) (jget ps ''workstream_id'') @
     unless_absent (validateString (Some turn_id_pattern) (js ''$.turn_id'')) (jget ps ''turn_id'') @
     validateString None (js ''$.agent_id'') (jget ps ''agent_id'') @
     check (one_of [''working'', ''waiting'', ''blocked'', ''idle''] (jget ps ''state'')) (js ''$.state'')
       ''has an invalid value''"

definition work_issues :: "lease \<Rightarrow> issue list" where
  "work_issues ps =
     unless_absent (validateContent (js ''$.intent'')) (jget ps ''intent'') @
     unless_absent (validateCurrentAction (js ''$.current_action'')) (jget ps ''current_action'') @
     (case as_array (jget ps ''claims'') of
        None \<Rightarrow> [(js ''$.claims'', js ''must be an array'')]
      | Some xs \<Rightarrow> indexed validateClaim (js ''$.claims'') xs) @
     check (as_bool (jget ps ''unknown_write_scope'') \<noteq> None) (js ''$.unknown_write_scope'') ''must be a boolean''"

definition time_issues :: "lease \<Rightarrow> issue list" where
  "time_issues ps =
     (case timestampMillis (js ''$.updated_at'') (jget ps ''updated_at'') of (updated, updatedAt) \<Rightarrow>
      case timestampMillis (js ''$.expires_at'') (jget ps ''expires_at'') of (expires, expiresAt) \<Rightarrow>
        updated @ expires @
        (case (updatedAt, expiresAt) of
           (Some u, Some e) \<Rightarrow> check (u < e) (js ''$.expires_at'') ''must be later than updated_at''
         | _ \<Rightarrow> []))"

definition reference_issues :: "lease \<Rightarrow> issue list" where
  "reference_issues ps =
     unless_absent (\<lambda>v. case as_array v of
         None \<Rightarrow> [(js ''$.source_refs'', js ''must be an array'')]
       | Some xs \<Rightarrow> indexed validateSourceRef (js ''$.source_refs'') xs) (jget ps ''source_refs'') @
     unless_absent (\<lambda>v. case as_object v of
         None \<Rightarrow> [(js ''$.extensions'', js ''must be an object'')]
       | Some qs \<Rightarrow> concat (map (validateExtension (js ''$.extensions'')) qs)) (jget ps ''extensions'')"

definition lease_issues :: "jsval \<Rightarrow> issue list" where
  "lease_issues v =
     (case as_object v of
        None \<Rightarrow> [(js ''$'', js ''must be an object'')]
      | Some ps \<Rightarrow>
          rejectUnknownKeys ps TOP_LEVEL_KEYS (js ''$'') @ validateJsonValue (js ''$'') v @
          identity_issues ps @ work_issues ps @
          validateSafeInteger 1 (js ''$.revision'') (jget ps ''revision'') @
          time_issues ps @ reference_issues ps)"

definition validateActiveLease :: "jsval \<Rightarrow> lease result" where
  "validateActiveLease v =
     (case as_object v of
        Some ps \<Rightarrow> if lease_issues v = [] then Inr ps else Inl ActiveLeaseValidationError
      | None \<Rightarrow> Inl ActiveLeaseValidationError)"

text \<open>\<open>parseActiveLeaseJson\<close>, on what \<open>JSON.parse\<close> makes of the text.\<close>

definition parseActiveLeaseJson :: "jsval option \<Rightarrow> lease result" where
  "parseActiveLeaseJson parsed =
     (case parsed of None \<Rightarrow> Inl ActiveLeaseValidationError | Some v \<Rightarrow> validateActiveLease v)"

text \<open>\<open>Date.parse(lease.expires_at)\<close>; \<open>None\<close> is NaN.\<close>

definition lease_time :: "lease \<Rightarrow> string \<Rightarrow> int option" where
  "lease_time l key =
     (case as_string (jget l key) of None \<Rightarrow> None | Some s \<Rightarrow> date_parse (upper_marks s))"

definition isActiveLeaseVisible :: "lease \<Rightarrow> int \<Rightarrow> bool" where
  "isActiveLeaseVisible l now \<longleftrightarrow>
     jget l ''state'' \<noteq> JStr (state_name Idle) \<and>
     (case lease_time l ''expires_at'' of None \<Rightarrow> False | Some e \<Rightarrow> now < e)"

end
