(* ===== verification/Active_Validation_Laws.thy ===== *)
theory Active_Validation_Laws
  imports Active_Validation
begin

text \<open>
  What the validation of a lease guarantees: when a validator finds no issue, what it accepted; that
  an accepted time is the instant its text names; and that an accepted value survives being written
  and parsed unchanged.
\<close>

section \<open>No issues\<close>

named_theorems no_issues \<open>when a validator finds nothing\<close>

lemma check_Nil [no_issues]: "check ok path message = [] \<longleftrightarrow> ok"
  by (simp add: check_def)

lemma append_Nil_iff [no_issues]: "xs @ ys = [] \<longleftrightarrow> xs = [] \<and> ys = []"
  by simp

lemma unless_absent_Nil [no_issues]: "unless_absent f v = [] \<longleftrightarrow> v = JUndef \<or> f v = []"
  by (simp add: unless_absent_def)

lemma all_enumerate: "(\<forall>(i, x)\<in>set (enumerate 0 xs). P i x) \<longleftrightarrow> (\<forall>i<length xs. P i (xs ! i))"
  unfolding Ball_def split_paired_All by (simp add: in_set_enumerate_eq)

lemma indexed_Nil [no_issues]:
  "indexed f path xs = [] \<longleftrightarrow> (\<forall>i<length xs. f (index_path path i) (xs ! i) = [])"
proof -
  have "indexed f path xs = [] \<longleftrightarrow> (\<forall>(i, x)\<in>set (enumerate 0 xs). f (index_path path i) x = [])"
    by (simp add: indexed_def case_prod_unfold)
  then show ?thesis unfolding all_enumerate .
qed

lemma rejectUnknownKeys_Nil [no_issues]: "rejectUnknownKeys ps allowed path = [] \<longleftrightarrow> only_keys ps allowed"
  by (auto simp: rejectUnknownKeys_def only_keys_def list_all_iff check_Nil)

lemma validateString_Nil [no_issues]:
  "validateString pattern path v = [] \<longleftrightarrow>
     (\<exists>s. v = JStr s \<and> s \<noteq> [] \<and> (case pattern of None \<Rightarrow> True | Some p \<Rightarrow> p s))"
  by (cases v) (auto simp: validateString_def check_Nil split: option.splits)

lemma validateSafeInteger_Nil [no_issues]:
  "validateSafeInteger m path v = [] \<longleftrightarrow> (\<exists>n. v = JNum (NInt n) \<and> safe_int n \<and> m \<le> n)"
  by (auto simp: validateSafeInteger_def as_safe_int_Some split: option.splits)

lemma validateRepoPath_Nil [no_issues]:
  "validateRepoPath path v = [] \<longleftrightarrow> (\<exists>s. v = JStr s \<and> s \<noteq> [] \<and> repo_path s)"
proof (cases "validateString None path v")
  case Nil
  then obtain s where "v = JStr s" "s \<noteq> []" by (auto simp: validateString_Nil)
  with Nil show ?thesis by (simp add: validateRepoPath_def check_Nil)
next
  case (Cons x xs)
  then have "validateRepoPath path v \<noteq> []" by (simp add: validateRepoPath_def)
  moreover have "\<not> (\<exists>s. v = JStr s \<and> s \<noteq> [])" using Cons validateString_Nil [of None path v] by auto
  ultimately show ?thesis by blast
qed

lemma timestampMillis_Nil: "fst (timestampMillis path v) = [] \<longleftrightarrow> snd (timestampMillis path v) \<noteq> None"
  by (auto simp: timestampMillis_def split: option.splits)

lemma timestampMillis_Some:
  "snd (timestampMillis path v) = Some ms \<longleftrightarrow>
     (\<exists>s t. v = JStr s \<and> rfc3339 s = Some t \<and> real_time t \<and> date_parse (upper_marks s) = Some ms)"
  by (cases v) (auto simp: timestampMillis_def split: option.splits)

lemma time_issues_Nil [no_issues]:
  "time_issues ps = [] \<longleftrightarrow> (\<exists>u e. snd (timestampMillis (js ''$.updated_at'') (jget ps ''updated_at'')) = Some u \<and>
     snd (timestampMillis (js ''$.expires_at'') (jget ps ''expires_at'')) = Some e \<and> u < e)"
  using timestampMillis_Nil [of "js ''$.updated_at''" "jget ps ''updated_at''"]
    timestampMillis_Nil [of "js ''$.expires_at''" "jget ps ''expires_at''"]
  by (cases "timestampMillis (js ''$.updated_at'') (jget ps ''updated_at'')";
      cases "timestampMillis (js ''$.expires_at'') (jget ps ''expires_at'')")
    (auto simp: time_issues_def check_Nil split: option.splits)

section \<open>Plain values\<close>

text \<open>A value without anything JSON cannot express.\<close>

fun plain :: "jsval \<Rightarrow> bool" where
  "plain (JArr xs) = list_all plain xs"
| "plain (JObj ps) = list_all (\<lambda>(k, v). plain v) ps"
| "plain (JNum n) = (n \<noteq> NonFinite)"
| "plain JNonPlain = False"
| "plain JUndef = False"
| "plain (JBigInt i) = False"
| "plain _ = True"

lemma validateJsonValue_Nil [no_issues]: "validateJsonValue path v = [] \<longleftrightarrow> plain v"
proof (induction path v rule: validateJsonValue.induct)
  case (5 path xs)
  have "validateJsonValue (index_path path i) x = [] \<longleftrightarrow> plain x" if "(i, x) \<in> set (enumerate 0 xs)" for i x
    using 5 [OF that] by simp
  then have "validateJsonValue path (JArr xs) = [] \<longleftrightarrow> (\<forall>(i, x)\<in>set (enumerate 0 xs). plain x)" by auto
  also have "\<dots> \<longleftrightarrow> list_all plain xs"
    unfolding all_enumerate by (simp add: list_all_length)
  finally show ?case by simp
next
  case (6 path ps)
  have "validateJsonValue (key_path path k) v = [] \<longleftrightarrow> plain v" if "(k, v) \<in> set ps" for k v
    using 6 [OF that] by simp
  then show ?case by (auto simp: list_all_iff)
qed (simp_all add: check_Nil)

text \<open>\<open>JSON.parse(JSON.stringify(value))\<close>; \<open>None\<close> where it throws or is not determined.\<close>

function json_clone :: "jsval \<Rightarrow> jsval option" where
  "json_clone (JArr xs) =
     map_option JArr (those (map (\<lambda>x. if x = JUndef then Some JNull else json_clone x) xs))"
| "json_clone (JObj ps) =
     map_option JObj (those (map (\<lambda>(k, v). map_option (Pair k) (json_clone v)) (filter (\<lambda>(k, v). v \<noteq> JUndef) ps)))"
| "json_clone JNull = Some JNull"
| "json_clone (JBool b) = Some (JBool b)"
| "json_clone (JNum n) = Some (if n = NonFinite then JNull else JNum n)"
| "json_clone (JStr s) = Some (JStr s)"
| "json_clone JUndef = None"
| "json_clone (JBigInt i) = None"
| "json_clone JNonPlain = None"
  by pat_completeness auto
termination
  by (relation "measure size") (auto dest: jsval_size_JArr jsval_size_JObj simp del: jsval.size)

lemma those_same: "\<forall>x\<in>set xs. f x = Some x \<Longrightarrow> those (map f xs) = Some xs"
  by (induction xs) auto

lemma plain_no_undefined: "plain (JObj ps) \<Longrightarrow> filter (\<lambda>(k, v). v \<noteq> JUndef) ps = ps"
  by (auto simp: list_all_iff intro!: filter_True)

lemma json_clone_plain: "plain v \<Longrightarrow> json_clone v = Some v"
proof (induction v rule: json_clone.induct)
  case (1 xs)
  have "(if x = JUndef then Some JNull else json_clone x) = Some x" if "x \<in> set xs" for x
    using 1(1) [OF that] 1(2) that by (auto simp: list_all_iff)
  then show ?case by (subst json_clone.simps) (simp add: those_same)
next
  case (2 ps)
  have "(\<lambda>(k, v). map_option (Pair k) (json_clone v)) p = Some p" if "p \<in> set ps" for p
    using 2(1) [of p "fst p" "snd p"] 2(2) that plain_no_undefined [OF 2(2)] by (cases p) (auto simp: list_all_iff)
  then show ?case by (subst json_clone.simps) (simp add: plain_no_undefined [OF 2(2)] those_same)
qed simp_all

section \<open>Accepted leases\<close>

lemma validateActiveLease_Inr:
  "validateActiveLease v = Inr ps \<longleftrightarrow> v = JObj ps \<and> lease_issues v = []"
  by (cases v) (auto simp: validateActiveLease_def split: if_splits)

lemma accepted_lease:
  assumes "validateActiveLease v = Inr ps"
  shows "v = JObj ps" "plain (JObj ps)" "only_keys ps TOP_LEVEL_KEYS"
    "\<exists>n. jget ps ''revision'' = JNum (NInt n) \<and> safe_pos n"
    "\<exists>s. jget ps ''provider'' = JStr s \<and> provider_pattern s"
    "\<exists>s. jget ps ''session_id'' = JStr s \<and> session_id_pattern s"
    "\<exists>s. jget ps ''agent_id'' = JStr s \<and> s \<noteq> []"
    "\<exists>s. jget ps ''lease_id'' = JStr s \<and> lease_id_pattern s"
    "\<exists>u e. lease_time ps ''updated_at'' = Some u \<and> lease_time ps ''expires_at'' = Some e \<and> u < e"
  using assms
  by (auto simp: validateActiveLease_Inr lease_issues_def identity_issues_def no_issues timestampMillis_Some
      lease_time_def safe_pos_def simp del: validateJsonValue.simps plain.simps)

section \<open>Times\<close>

lemma read_digits_bounds:
  "read_digits k n s = Some (m, r) \<Longrightarrow> 0 \<le> n \<Longrightarrow> 10 ^ k * n \<le> m \<and> m < 10 ^ k * (n + 1)"
proof (induction k n s rule: read_digits.induct)
  case (3 k n u s)
  then have u: "is_digit u" "read_digits k (10 * n + digit_value u) s = Some (m, r)" by (auto split: if_splits)
  have "48 \<le> unat u" "unat u \<le> 57" using u(1) by (auto simp: is_digit_def word_le_nat_alt)
  then have dv: "0 \<le> digit_value u" "digit_value u \<le> 9" unfolding digit_value_def by linarith+
  with 3 u have ih: "10 ^ k * (10 * n + digit_value u) \<le> m" "m < 10 ^ k * (10 * n + digit_value u + 1)" by auto
  have "10 ^ Suc k * n \<le> 10 ^ k * (10 * n + digit_value u)" using dv(1) by (simp add: algebra_simps)
  moreover have "(10 :: int) ^ k * (10 * n + digit_value u + 1) \<le> 10 ^ k * (10 * n + 10)"
    using dv(2) by (intro mult_left_mono) auto
  moreover have "(10 :: int) ^ k * (10 * n + 10) = 10 ^ Suc k * (n + 1)" by (simp add: algebra_simps)
  ultimately show ?case using ih by linarith
qed auto

lemma read_year_digits:
  assumes "read_digits 4 0 s = Some p"
  shows "read_year s = Some p"
proof -
  have "is_digit (hd s)" "s \<noteq> []"
    using assms by (cases s; auto simp: numeral_eq_Suc split: if_splits)+
  then show ?thesis using assms by (cases s) (auto simp: read_year_def is_digit_def)
qed

lemma rfc_offset_read:
  assumes "rfc_offset s = Some (h, m)" "h \<le> 23" "m \<le> 59"
  shows "\<exists>sign\<in>{1, - 1}. read_offset s = Some (sign * (h * 60 + m) * 60000)"
proof (cases s)
  case Nil
  with assms(1) show ?thesis by (simp add: rfc_offset_def)
next
  case (Cons u r)
  show ?thesis
  proof (cases "u = 0x5A")
    case True
    with assms(1) Cons have "h = 0" "m = 0" "read_offset s = Some 0"
      by (simp_all add: rfc_offset_def read_offset_def split: if_splits)
    then show ?thesis by (intro bexI [of _ 1]) simp_all
  next
    case False
    with assms(1) Cons obtain q e where "u = 0x2B \<or> u = 0x2D" "read_digits 2 0 r = Some (h, q)"
      "time_field 0x3A q = Some (m, e)" "e = []"
      by (auto simp: rfc_offset_def split: option.splits if_splits)
    then have "read_offset s = Some ((if u = 0x2D then - 1 else 1) * (h * 60 + m) * 60000)"
      using assms(2,3) Cons False by (simp add: read_offset_def)
    then show ?thesis by (cases "u = 0x2D") simp_all
  qed
qed

lemma rfc_offset_bounds: "rfc_offset s = Some (h, m) \<Longrightarrow> 0 \<le> h \<and> 0 \<le> m"
  by (auto simp: rfc_offset_def time_field_def dest!: read_digits_bounds split: list.splits option.splits if_splits)

lemma time_field_bounds: "time_field c s = Some (n, r) \<Longrightarrow> 0 \<le> n \<and> n < 100"
  by (auto simp: time_field_def dest: read_digits_bounds split: option.splits)

lemma read_fraction_bounds: "read_fraction s = Some (f, r) \<Longrightarrow> 0 \<le> f \<and> f < 1000"
  by (auto simp: read_fraction_def Let_def dest: read_digits_bounds split: option.splits if_splits)

lemma four_digit_time:
  assumes "0 \<le> y" "y < 10000" "1 \<le> mo" "mo \<le> 12" "1 \<le> d" "d \<le> 31" "0 \<le> h" "h \<le> 23" "0 \<le> mi" "mi \<le> 59"
    "0 \<le> s" "s \<le> 59" "0 \<le> f" "f < 1000" "\<bar>off\<bar> \<le> 86400000"
  shows "valid_time (make_time y mo d h mi s f - off)"
proof -
  have "day_from_year 0 = - 719528" "day_from_year 10000 = 2932897" by (simp_all add: day_from_year_def)
  then have year: "\<bar>day_from_year y\<bar> \<le> 3000000"
    using day_from_year_mono [of 0 y] day_from_year_mono [of y 10000] assms(1,2)
    unfolding abs_le_iff by simp
  have "0 \<le> sum_list (take n (month_days y)) \<and> sum_list (take n (month_days y)) \<le> 366" for n
  proof -
    have "sum_list (month_days y) = sum_list (take n (month_days y)) + sum_list (drop n (month_days y))"
      by (metis append_take_drop_id sum_list_append)
    moreover have "\<forall>l\<in>set (month_days y). 0 \<le> l" by (simp add: month_days_def)
    then have "0 \<le> sum_list (take n (month_days y))" "0 \<le> sum_list (drop n (month_days y))"
      by (auto intro!: sum_list_nonneg dest: in_set_takeD in_set_dropD)
    ultimately show ?thesis by (auto simp: sum_month_days split: if_splits)
  qed
  then have "0 \<le> month_start y mo" "month_start y mo \<le> 366" by (simp_all add: month_start_def)
  moreover have "day_from_year y \<le> 3000000" "- 3000000 \<le> day_from_year y" "off \<le> 86400000" "- 86400000 \<le> off"
    using year assms(15) by (auto simp: abs_le_iff)
  ultimately have day: "day_from_year y + month_start y mo + d - 1 \<le> 3000400"
    "- 3000000 \<le> day_from_year y + month_start y mo + d - 1" using assms(5,6) by linarith+
  define day where "day = day_from_year y + month_start y mo + d - 1"
  have "day * 86400000 \<le> 3000400 * 86400000" "- 3000000 * 86400000 \<le> day * 86400000"
    using day unfolding day_def [symmetric] by (intro mult_right_mono; simp)+
  moreover have "off \<le> 86400000" "- 86400000 \<le> off" using assms(15) by (auto simp: abs_le_iff)
  moreover have "h * 3600000 \<le> 23 * 3600000" "0 \<le> h * 3600000" "mi * 60000 \<le> 59 * 60000" "0 \<le> mi * 60000"
    "s * 1000 \<le> 59 * 1000" "0 \<le> s * 1000" using assms(7-12) by simp_all
  ultimately show ?thesis
    using assms(13,14) unfolding valid_time_def make_time_def abs_le_iff day_def [symmetric]
    by (intro conjI) linarith+
qed

text \<open>A text is accepted as a time exactly when it spells a real date and time of day, and the time
  is the instant it names; the last check of the code never fails.\<close>

lemma rfc3339_instant:
  assumes "rfc3339 s = Some t" "real_time t"
  shows "\<exists>f sign. 0 \<le> f \<and> f < 1000 \<and> sign \<in> {1, - 1} \<and>
    date_parse (upper_marks s) = Some (make_time (rt_year t) (rt_month t) (rt_day t) (rt_hour t) (rt_minute t) (rt_second t) f
      - sign * (rt_offsetHour t * 60 + rt_offsetMinute t) * 60000)"
proof -
  obtain y mo d h mi sec f oh om s1 s2 s3 s4 s5 s6 s7 where p:
    "read_digits 4 0 (upper_marks s) = Some (y, s1)" "time_field 0x2D s1 = Some (mo, s2)"
    "time_field 0x2D s2 = Some (d, s3)" "time_field 0x54 s3 = Some (h, s4)" "time_field 0x3A s4 = Some (mi, s5)"
    "time_field 0x3A s5 = Some (sec, s6)" "read_fraction s6 = Some (f, s7)" "rfc_offset s7 = Some (oh, om)"
    and t: "t = \<lparr> rt_year = y, rt_month = mo, rt_day = d, rt_hour = h, rt_minute = mi, rt_second = sec,
              rt_offsetHour = oh, rt_offsetMinute = om \<rparr>"
    using assms(1) by (auto simp: rfc3339_def bind_eq_Some_conv)
  note b = read_digits_bounds [OF p(1)] time_field_bounds [OF p(4)] time_field_bounds [OF p(5)]
    time_field_bounds [OF p(6)] read_fraction_bounds [OF p(7)] rfc_offset_bounds [OF p(8)]
  from assms(2) have r: "1 \<le> mo" "mo \<le> 12" "1 \<le> d" "d \<le> month_days y ! nat (mo - 1)" "h \<le> 23" "mi \<le> 59"
    "sec \<le> 59" "oh \<le> 23" "om \<le> 59" by (auto simp: real_time_def t)
  have "month_days y ! nat (mo - 1) \<in> set (month_days y)" using r(1,2) by (intro nth_mem) (simp add: month_days_def)
  moreover have "\<forall>l\<in>set (month_days y). l \<le> 31" by (simp add: month_days_def)
  ultimately have d31: "d \<le> 31" using r(4) by force
  obtain sign where sign: "sign \<in> {1, - 1}" "read_offset s7 = Some (sign * (oh * 60 + om) * 60000)"
    using rfc_offset_read [OF p(8) r(8,9)] by blast
  have "\<bar>sign * (oh * 60 + om) * 60000\<bar> \<le> 86400000" using sign(1) b(6) r(8,9) by auto
  then have v: "valid_time (make_time y mo d h mi sec f - sign * (oh * 60 + om) * 60000)"
    using b r d31 by (intro four_digit_time) auto
  have "date_parse (upper_marks s) = Some (make_time y mo d h mi sec f - sign * (oh * 60 + om) * 60000)"
    using r d31 v p sign(2) by (simp add: date_parse_def read_year_digits [OF p(1)] Let_def)
  then show ?thesis using b(5) sign(1) by (intro exI [of _ f] exI [of _ sign]) (simp add: t)
qed

lemma accepted_time:
  "snd (timestampMillis path (JStr s)) = Some ms \<longleftrightarrow>
     (\<exists>t. rfc3339 s = Some t \<and> real_time t \<and> date_parse (upper_marks s) = Some ms)"
  by (auto simp: timestampMillis_Some)

text \<open>The times the program writes are accepted as long as their year has four digits.\<close>

definition four_digit_year :: "int \<Rightarrow> bool" where
  "four_digit_year ms \<longleftrightarrow> 0 \<le> year_from_day (ms div 86400000) \<and> year_from_day (ms div 86400000) \<le> 9999"

lemma upper_marks_plain: "0x74 \<notin> set s \<Longrightarrow> 0x7A \<notin> set s \<Longrightarrow> upper_marks s = s"
  by (auto simp: upper_marks_def intro!: map_idI)

lemma digits_units: "u \<in> set (digits k n) \<Longrightarrow> is_digit u"
proof (induction k arbitrary: n)
  case (Suc k)
  moreover have "is_digit (digit_unit (nat (n mod 10)))"
    by (rule digit_unit_is_digit) (simp add: nat_less_iff)
  ultimately show ?case by auto
qed simp

lemma digits_no_marks: "0x74 \<notin> set (digits k n)" "0x7A \<notin> set (digits k n)"
  using digits_units [of "0x74" k n] digits_units [of "0x7A" k n] by (auto simp: is_digit_def)

lemma upper_marks_to_iso:
  assumes "valid_time ms"
  shows "upper_marks (to_iso ms) = to_iso ms"
proof -
  obtain y m d h mi s f where iso: "to_iso ms = year_text y @ 0x2D # digits 2 m @ 0x2D # digits 2 d @ 0x54 #
      digits 2 h @ 0x3A # digits 2 mi @ 0x3A # digits 2 s @ 0x2E # digits 3 f @ [0x5A]"
    using to_iso_fields [OF assms(1)] by blast
  have "0x74 \<notin> set (year_text y)" "0x7A \<notin> set (year_text y)"
    using digits_no_marks by (simp_all add: year_text_def del: digits.simps)
  then show ?thesis
    using digits_no_marks by (intro upper_marks_plain) (simp_all add: iso del: digits.simps)
qed

lemma to_iso_accepted:
  assumes "valid_time ms" "four_digit_year ms"
  shows "timestampMillis path (JStr (to_iso ms)) = ([], Some ms)"
proof -
  obtain y m d h mi s f where iso: "to_iso ms = year_text y @ 0x2D # digits 2 m @ 0x2D # digits 2 d @ 0x54 #
      digits 2 h @ 0x3A # digits 2 mi @ 0x3A # digits 2 s @ 0x2E # digits 3 f @ [0x5A]"
    and y: "y = year_from_day (ms div 86400000)"
    and b: "1 \<le> m" "m \<le> 12" "1 \<le> d" "d \<le> month_days y ! nat (m - 1)" "d \<le> 31" "0 \<le> h" "h < 24" "0 \<le> mi" "mi < 60"
      "0 \<le> s" "s < 60" "0 \<le> f" "f < 1000"
    using to_iso_fields [OF assms(1)] by blast
  have yt: "year_text y = digits 4 y" and yb: "0 \<le> y" "y < 10 ^ 4"
    using assms(2) by (simp_all add: y four_digit_year_def year_text_def del: digits.simps)
  have off: "rfc_offset [0x5A] = Some (0, 0)" by (simp add: rfc_offset_def)
  note up = upper_marks_to_iso [OF assms(1), unfolded iso yt]
  have "m < 100" "d < 100" "h < 100" "mi < 100" "s < 100" "0 \<le> m" "0 \<le> d" using b by simp_all
  then have "rfc3339 (to_iso ms) = Some \<lparr> rt_year = y, rt_month = m, rt_day = d, rt_hour = h, rt_minute = mi,
      rt_second = s, rt_offsetHour = 0, rt_offsetMinute = 0 \<rparr>"
    using b read_digits_digits [OF yb, of 0]
    by (simp only: rfc3339_def up iso yt Option.bind.bind_lunit prod.case
        read_field_digits read_fraction_digits off) simp
  moreover have "real_time \<lparr> rt_year = y, rt_month = m, rt_day = d, rt_hour = h, rt_minute = mi,
      rt_second = s, rt_offsetHour = 0, rt_offsetMinute = 0 \<rparr>" using b by (simp add: real_time_def)
  ultimately show ?thesis
    by (simp add: timestampMillis_def upper_marks_to_iso [OF assms(1)] date_parse_to_iso [OF assms(1)])
qed

end
