(* ===== verification/Timestamps.thy ===== *)
theory Timestamps
  imports Active_Validation_Laws
begin

text \<open>
  Which texts are times for \<open>timestampMillis\<close> of \<open>active/validation.ts\<close>, and which instant each of them
  names.  The reference does not read: it says how a date, a time of day, a fraction of a second and a
  zone are spelled, with the two marks in either case.
\<close>

section \<open>Spelling a time\<close>

text \<open>A zone is UTC, with its mark, or an offset: whether it lies behind UTC, hours and minutes.\<close>

datatype zone = Zulu "16 word" | Shifted bool int int

fun zone_text :: "zone \<Rightarrow> jstr" where
  "zone_text (Zulu mark) = [mark]"
| "zone_text (Shifted behind h m) = (if behind then 0x2D else 0x2B) # digits 2 h @ 0x3A # digits 2 m"

fun zone_ok :: "zone \<Rightarrow> bool" where
  "zone_ok (Zulu mark) \<longleftrightarrow> mark = 0x5A \<or> mark = 0x7A"
| "zone_ok (Shifted behind h m) \<longleftrightarrow> 0 \<le> h \<and> h \<le> 23 \<and> 0 \<le> m \<and> m \<le> 59"

text \<open>Minutes ahead of UTC.\<close>

fun zone_minutes :: "zone \<Rightarrow> int" where
  "zone_minutes (Zulu mark) = 0"
| "zone_minutes (Shifted behind h m) = (if behind then - (h * 60 + m) else h * 60 + m)"

text \<open>The digits of a fraction; those beyond the milliseconds do not count.\<close>

definition fraction_text :: "int list \<Rightarrow> jstr" where
  "fraction_text ds = (if ds = [] then [] else 0x2E # map (\<lambda>d. digit_unit (nat d)) ds)"

fun fraction_millis :: "int list \<Rightarrow> int" where
  "fraction_millis [] = 0"
| "fraction_millis [a] = 100 * a"
| "fraction_millis [a, b] = 100 * a + 10 * b"
| "fraction_millis (a # b # c # _) = 100 * a + 10 * b + c"

definition decimal_digits :: "int list \<Rightarrow> bool" where
  "decimal_digits ds \<longleftrightarrow> list_all (\<lambda>d. 0 \<le> d \<and> d \<le> 9) ds"

record clock =
  ck_year :: int
  ck_month :: int
  ck_day :: int
  ck_hour :: int
  ck_minute :: int
  ck_second :: int
  ck_fraction :: "int list"
  ck_zone :: zone

definition clock_text :: "16 word \<Rightarrow> clock \<Rightarrow> jstr" where
  "clock_text mark c =
     digits 4 (ck_year c) @ 0x2D # digits 2 (ck_month c) @ 0x2D # digits 2 (ck_day c) @ mark #
     digits 2 (ck_hour c) @ 0x3A # digits 2 (ck_minute c) @ 0x3A # digits 2 (ck_second c) @
     fraction_text (ck_fraction c) @ zone_text (ck_zone c)"

text \<open>A real date, time of day and zone.\<close>

definition clock_ok :: "clock \<Rightarrow> bool" where
  "clock_ok c \<longleftrightarrow> 0 \<le> ck_year c \<and> ck_year c \<le> 9999 \<and> 1 \<le> ck_month c \<and> ck_month c \<le> 12 \<and>
     1 \<le> ck_day c \<and> ck_day c \<le> month_days (ck_year c) ! nat (ck_month c - 1) \<and>
     0 \<le> ck_hour c \<and> ck_hour c \<le> 23 \<and> 0 \<le> ck_minute c \<and> ck_minute c \<le> 59 \<and>
     0 \<le> ck_second c \<and> ck_second c \<le> 59 \<and> decimal_digits (ck_fraction c) \<and> zone_ok (ck_zone c)"

text \<open>The instant, in milliseconds since 1970.\<close>

definition clock_instant :: "clock \<Rightarrow> int" where
  "clock_instant c =
     make_time (ck_year c) (ck_month c) (ck_day c) (ck_hour c) (ck_minute c) (ck_second c) (fraction_millis (ck_fraction c))
     - zone_minutes (ck_zone c) * 60000"

definition names_instant :: "jstr \<Rightarrow> int \<Rightarrow> bool" where
  "names_instant s ms \<longleftrightarrow>
     (\<exists>mark c. (mark = 0x54 \<or> mark = 0x74) \<and> clock_ok c \<and> s = clock_text mark c \<and> ms = clock_instant c)"

section \<open>Reading what was spelled\<close>

lemma month_days_le: "1 \<le> m \<Longrightarrow> m \<le> 12 \<Longrightarrow> month_days y ! nat (m - 1) \<le> 31"
proof -
  assume "1 \<le> m" "m \<le> 12"
  then have "month_days y ! nat (m - 1) \<in> set (month_days y)" by (intro nth_mem) (simp add: month_days_def)
  moreover have "\<forall>l\<in>set (month_days y). l \<le> 31" by (simp add: month_days_def)
  ultimately show ?thesis by blast
qed

lemma digit_units:
  assumes "decimal_digits ds"
  shows "list_all is_digit (map (\<lambda>d. digit_unit (nat d)) ds)" "map digit_value (map (\<lambda>d. digit_unit (nat d)) ds) = ds"
proof -
  have d: "nat d < 10" "0 \<le> d" if "d \<in> set ds" for d using assms that by (auto simp: decimal_digits_def list_all_iff)
  show "list_all is_digit (map (\<lambda>d. digit_unit (nat d)) ds)"
    using d digit_unit_is_digit by (auto simp: list_all_iff)
  show "map digit_value (map (\<lambda>d. digit_unit (nat d)) ds) = ds"
    unfolding map_map by (rule map_idI) (use d in \<open>simp add: digit_value_def unat_digit_unit\<close>)
qed

lemma zone_hd: "zone_ok z \<Longrightarrow> zone_text z \<noteq> [] \<and> \<not> is_digit (hd (zone_text z)) \<and> hd (zone_text z) \<noteq> 0x2E"
  by (cases z) (auto simp: is_digit_def)

lemma read_fraction_text:
  assumes "decimal_digits ds" "zone_ok z"
  shows "read_fraction (fraction_text ds @ zone_text z) = Some (fraction_millis ds, zone_text z)"
proof (cases "ds = []")
  case True
  obtain u r where "zone_text z = u # r" "u \<noteq> 0x2E" using zone_hd [OF assms(2)] by (cases "zone_text z") auto
  with True show ?thesis by (simp add: read_fraction_def fraction_text_def)
next
  case False
  let ?us = "map (\<lambda>d. digit_unit (nat d)) ds"
  obtain u r where z: "zone_text z = u # r" "\<not> is_digit u" using zone_hd [OF assms(2)] by (cases "zone_text z") auto
  have us: "takeWhile is_digit (?us @ zone_text z) = ?us" "dropWhile is_digit (?us @ zone_text z) = zone_text z"
    using digit_units(1) [OF assms(1)] z(2) unfolding z(1)
    by (subst takeWhile_append2 dropWhile_append2; auto simp: list_all_iff)+
  have val: "\<exists>r. read_digits 3 0 (?us @ [0x30, 0x30]) = Some (fraction_millis ds, r)"
    using False digit_units [OF assms(1)]
    by (cases ds rule: fraction_millis.cases) (simp_all add: numeral_3_eq_3 digit_value_def is_digit_def)
  with us False show ?thesis by (auto simp: read_fraction_def fraction_text_def Let_def)
qed

lemma read_zone:
  assumes "zone_ok z" "\<forall>mark. z = Zulu mark \<longrightarrow> mark = 0x5A"
  shows "read_offset (zone_text z) = Some (zone_minutes z * 60000)"
    "\<exists>oh om. rfc_offset (zone_text z) = Some (oh, om) \<and> oh \<le> 23 \<and> om \<le> 59"
proof -
  have "read_digits 2 0 (digits 2 h @ 0x3A # digits 2 m) = Some (h, 0x3A # digits 2 m)"
    "time_field 0x3A (0x3A # digits 2 m) = Some (m, [])" if "0 \<le> h" "h \<le> 23" "0 \<le> m" "m \<le> 59" for h m
    using that read_digits_digits [of h 2 0 "0x3A # digits 2 m"] read_field_digits [of m "0x3A" "[]"]
    by (simp_all del: digits.simps)
  then show "read_offset (zone_text z) = Some (zone_minutes z * 60000)"
    "\<exists>oh om. rfc_offset (zone_text z) = Some (oh, om) \<and> oh \<le> 23 \<and> om \<le> 59"
    using assms by (cases z; force simp: read_offset_def rfc_offset_def simp del: digits.simps)+
qed

lemma clock_bounds:
  assumes "clock_ok c"
  shows "ck_month c < 100" "ck_day c < 100" "ck_day c \<le> 31" "ck_hour c < 100" "ck_minute c < 100" "ck_second c < 100"
    "0 \<le> ck_month c" "0 \<le> ck_day c" "0 \<le> fraction_millis (ck_fraction c)" "fraction_millis (ck_fraction c) < 1000"
    "\<bar>zone_minutes (ck_zone c) * 60000\<bar> \<le> 86400000"
proof -
  show "ck_day c \<le> 31" using assms month_days_le [of "ck_month c" "ck_year c"] by (simp add: clock_ok_def)
  then show "ck_month c < 100" "ck_day c < 100" "ck_hour c < 100" "ck_minute c < 100" "ck_second c < 100"
    "0 \<le> ck_month c" "0 \<le> ck_day c" using assms by (simp_all add: clock_ok_def)
  have "decimal_digits (ck_fraction c)" "zone_ok (ck_zone c)" using assms by (simp_all add: clock_ok_def)
  note f = this(1) and z = this(2)
  show "0 \<le> fraction_millis (ck_fraction c)" "fraction_millis (ck_fraction c) < 1000"
    using f by (cases "ck_fraction c" rule: fraction_millis.cases; auto simp: decimal_digits_def)+
  show "\<bar>zone_minutes (ck_zone c) * 60000\<bar> \<le> 86400000" using z by (cases "ck_zone c") (auto simp: abs_le_iff)
qed

text \<open>A spelled time is read back field by field, and stands for its instant.\<close>

lemma clock_read:
  assumes "clock_ok c" "\<forall>mark. ck_zone c = Zulu mark \<longrightarrow> mark = 0x5A" "upper_marks s = clock_text 0x54 c"
  shows "\<exists>t. rfc3339 s = Some t \<and> real_time t" "date_parse (upper_marks s) = Some (clock_instant c)"
proof -
  note b = clock_bounds [OF assms(1)]
  have ok: "0 \<le> ck_year c" "ck_year c < 10 ^ 4" "decimal_digits (ck_fraction c)" "zone_ok (ck_zone c)"
    and k: "0 \<le> ck_hour c" "ck_hour c \<le> 23" "0 \<le> ck_minute c" "ck_minute c \<le> 59" "0 \<le> ck_second c" "ck_second c \<le> 59"
      "1 \<le> ck_month c" "ck_month c \<le> 12" "1 \<le> ck_day c" "ck_day c \<le> month_days (ck_year c) ! nat (ck_month c - 1)"
    using assms(1) by (simp_all add: clock_ok_def)
  note year = read_digits_digits [OF ok(1,2), of 0]
  note fraction = read_fraction_text [OF ok(3,4)]
  note zone = read_zone [OF ok(4) assms(2)]
  obtain oh om where off: "rfc_offset (zone_text (ck_zone c)) = Some (oh, om)" "oh \<le> 23" "om \<le> 59" using zone(2) by blast
  have "rfc3339 s = Some \<lparr> rt_year = ck_year c, rt_month = ck_month c, rt_day = ck_day c, rt_hour = ck_hour c,
      rt_minute = ck_minute c, rt_second = ck_second c, rt_offsetHour = oh, rt_offsetMinute = om \<rparr>"
    using b k by (simp only: rfc3339_def assms(3) clock_text_def year Option.bind.bind_lunit prod.case
        read_field_digits fraction off(1)) simp
  then show "\<exists>t. rfc3339 s = Some t \<and> real_time t" using off k by (simp add: real_time_def)
  have "valid_time (clock_instant c)"
    unfolding clock_instant_def using ok(1,2) k b by (intro four_digit_time) auto
  then show "date_parse (upper_marks s) = Some (clock_instant c)"
    using b k by (simp only: date_parse_def assms(3) clock_text_def read_year_digits [OF year] Option.bind.bind_lunit prod.case
        read_field_digits fraction zone(1) clock_instant_def) (simp add: Let_def)
qed

section \<open>Whatever is read was spelled\<close>

lemma digit_back:
  assumes "is_digit u"
  shows "0 \<le> digit_value u" "digit_value u \<le> 9" "digit_unit (nat (digit_value u)) = u"
proof -
  have "48 \<le> unat u" "unat u \<le> 57" using assms by (auto simp: is_digit_def word_le_nat_alt)
  then show b: "0 \<le> digit_value u" "digit_value u \<le> 9" unfolding digit_value_def by linarith+
  have "nat (digit_value u) = unat u - 48" unfolding digit_value_def by linarith
  with \<open>48 \<le> unat u\<close> \<open>unat u \<le> 57\<close> have "unat (digit_unit (nat (digit_value u))) = unat u"
    by (simp add: unat_digit_unit)
  then show "digit_unit (nat (digit_value u)) = u" by (simp add: word_unat_eq_iff)
qed

lemma read_digits_inv: "read_digits k 0 s = Some (n, r) \<Longrightarrow> s = digits k n @ r"
proof (induction k arbitrary: n r)
  case (Suc k)
  obtain m q where q: "read_digits k 0 s = Some (m, q)" "read_digits 1 m q = Some (n, r)"
    using Suc.prems read_digits_append [of k 1 0 s] by (auto split: option.splits)
  then obtain u where u: "q = u # r" "is_digit u" "n = 10 * m + digit_value u"
    by (cases q) (auto split: if_splits)
  then have "n div 10 = m" "n mod 10 = digit_value u" using digit_back [of u] by auto
  with u q(1) Suc.IH [of m q] digit_back [of u] show ?case by simp
qed simp

lemma time_field_inv: "time_field mark s = Some (n, r) \<Longrightarrow> s = mark # digits 2 n @ r"
  by (cases s) (auto simp: time_field_def dest!: read_digits_inv split: if_splits simp del: digits.simps)

lemma fraction_millis_read:
  assumes "list_all is_digit us" "us \<noteq> []" "read_digits 3 0 (us @ [0x30, 0x30]) = Some (f, q)"
  shows "f = fraction_millis (map digit_value us)"
  using assms by (cases "map digit_value us" rule: fraction_millis.cases)
    (auto simp: numeral_3_eq_3 digit_value_def is_digit_def map_eq_Cons_conv split: if_splits)

lemma read_fraction_inv:
  assumes "read_fraction s = Some (f, r)"
  shows "\<exists>ds. decimal_digits ds \<and> s = fraction_text ds @ r \<and> f = fraction_millis ds"
proof (cases "expect 0x2E s")
  case None
  with assms have "s = fraction_text [] @ r" "f = fraction_millis []" "decimal_digits []"
    by (simp_all add: read_fraction_def fraction_text_def decimal_digits_def)
  then show ?thesis by blast
next
  case (Some q)
  define us where "us = takeWhile is_digit q"
  have us: "list_all is_digit us" by (auto simp: us_def list_all_iff dest: set_takeWhileD)
  from Some have s: "s = 0x2E # q" by (cases s) (auto split: if_splits)
  from assms Some obtain e where e: "us \<noteq> []" "read_digits 3 0 (us @ [0x30, 0x30]) = Some (f, e)" "r = dropWhile is_digit q"
    by (auto simp: read_fraction_def us_def Let_def split: if_splits)
  have "map (\<lambda>d. digit_unit (nat d)) (map digit_value us) = us"
    using us digit_back by (auto simp: list_all_iff intro!: map_idI)
  moreover have "decimal_digits (map digit_value us)" using us digit_back by (auto simp: decimal_digits_def list_all_iff)
  moreover have "q = us @ r" by (simp add: us_def e(3))
  ultimately show ?thesis
    using fraction_millis_read [OF us e(1,2)] e(1) s by (intro exI [of _ "map digit_value us"]) (simp add: fraction_text_def)
qed

lemma rfc_offset_inv:
  assumes "rfc_offset s = Some (oh, om)" "oh \<le> 23" "om \<le> 59"
  shows "\<exists>z. zone_ok z \<and> (\<forall>mark. z = Zulu mark \<longrightarrow> mark = 0x5A) \<and> s = zone_text z"
proof (cases s)
  case Nil
  with assms(1) show ?thesis by (simp add: rfc_offset_def)
next
  case (Cons u r)
  show ?thesis
  proof (cases "u = 0x5A")
    case True
    with assms(1) Cons have "s = zone_text (Zulu 0x5A)" by (simp add: rfc_offset_def split: if_splits)
    then show ?thesis by (intro exI [of _ "Zulu 0x5A"]) simp
  next
    case False
    with assms(1) Cons obtain q where q: "u = 0x2B \<or> u = 0x2D" "read_digits 2 0 r = Some (oh, q)"
      "time_field 0x3A q = Some (om, [])"
      by (auto simp: rfc_offset_def split: option.splits if_splits)
    then have "s = zone_text (Shifted (u = 0x2D) oh om)"
      using Cons read_digits_inv [OF q(2)] time_field_inv [OF q(3)] by (auto simp del: digits.simps)
    then show ?thesis using assms(2,3) rfc_offset_bounds [OF assms(1)] by (intro exI [of _ "Shifted (u = 0x2D) oh om"]) simp
  qed
qed

lemma rfc3339_inv:
  assumes "rfc3339 s = Some t" "real_time t"
  shows "\<exists>c. clock_ok c \<and> (\<forall>mark. ck_zone c = Zulu mark \<longrightarrow> mark = 0x5A) \<and> upper_marks s = clock_text 0x54 c"
proof -
  obtain y mo d h mi sec f oh om s1 s2 s3 s4 s5 s6 s7 where p:
    "read_digits 4 0 (upper_marks s) = Some (y, s1)" "time_field 0x2D s1 = Some (mo, s2)"
    "time_field 0x2D s2 = Some (d, s3)" "time_field 0x54 s3 = Some (h, s4)" "time_field 0x3A s4 = Some (mi, s5)"
    "time_field 0x3A s5 = Some (sec, s6)" "read_fraction s6 = Some (f, s7)" "rfc_offset s7 = Some (oh, om)"
    and t: "t = \<lparr> rt_year = y, rt_month = mo, rt_day = d, rt_hour = h, rt_minute = mi, rt_second = sec,
              rt_offsetHour = oh, rt_offsetMinute = om \<rparr>"
    using assms(1) by (auto simp: rfc3339_def bind_eq_Some_conv)
  from assms(2) have r: "1 \<le> mo" "mo \<le> 12" "1 \<le> d" "d \<le> month_days y ! nat (mo - 1)" "h \<le> 23" "mi \<le> 59"
    "sec \<le> 59" "oh \<le> 23" "om \<le> 59" by (auto simp: real_time_def t)
  obtain ds where ds: "decimal_digits ds" "s6 = fraction_text ds @ s7" using read_fraction_inv [OF p(7)] by blast
  obtain z where z: "zone_ok z" "\<forall>mark. z = Zulu mark \<longrightarrow> mark = 0x5A" "s7 = zone_text z"
    using rfc_offset_inv [OF p(8) r(8,9)] by blast
  define c where "c = \<lparr> ck_year = y, ck_month = mo, ck_day = d, ck_hour = h, ck_minute = mi, ck_second = sec,
    ck_fraction = ds, ck_zone = z \<rparr>"
  have "clock_ok c"
    using r ds(1) z(1) read_digits_bounds [OF p(1)] time_field_bounds [OF p(4)] time_field_bounds [OF p(5)]
      time_field_bounds [OF p(6)] by (simp add: clock_ok_def c_def)
  moreover have "upper_marks s = clock_text 0x54 c"
    using read_digits_inv [OF p(1)] time_field_inv [OF p(2)] time_field_inv [OF p(3)] time_field_inv [OF p(4)]
      time_field_inv [OF p(5)] time_field_inv [OF p(6)] ds(2) z(3) by (simp add: clock_text_def c_def del: digits.simps)
  ultimately show ?thesis using z(2) by (intro exI [of _ c]) (simp add: c_def)
qed

section \<open>The two marks, in either case\<close>

lemma upper_marks_append: "upper_marks (xs @ ys) = upper_marks xs @ upper_marks ys"
  by (simp add: upper_marks_def)

lemma upper_marks_split:
  assumes "upper_marks s = a @ b"
  shows "\<exists>a' b'. s = a' @ b' \<and> upper_marks a' = a \<and> upper_marks b' = b"
proof -
  have "s = take (length a) s @ drop (length a) s" by simp
  moreover have "upper_marks (take (length a) s) = a" "upper_marks (drop (length a) s) = b"
    using assms by (simp_all add: upper_marks_def take_map [symmetric] drop_map [symmetric])
  ultimately show ?thesis by blast
qed

lemma upper_marks_same:
  assumes "upper_marks s = x" "0x54 \<notin> set x" "0x5A \<notin> set x"
  shows "s = x"
proof -
  have "(if u = 0x74 then 0x54 else if u = 0x7A then 0x5A else u) = u" if "u \<in> set s" for u
    using that assms by (fastforce simp: upper_marks_def)
  then show ?thesis using assms(1) by (simp add: upper_marks_def map_idI)
qed

lemma digits_marks: "0x54 \<notin> set (digits k n)" "0x5A \<notin> set (digits k n)"
  using digits_units [of "0x54" k n] digits_units [of "0x5A" k n] by (auto simp: is_digit_def)

lemma fraction_marks:
  assumes "decimal_digits ds"
  shows "0x54 \<notin> set (fraction_text ds)" "0x5A \<notin> set (fraction_text ds)"
  using digit_units(1) [OF assms] by (auto simp: fraction_text_def list_all_iff is_digit_def dest!: bspec)

lemma upper_marks_zone:
  assumes "upper_marks s = zone_text z" "zone_ok z" "\<forall>mark. z = Zulu mark \<longrightarrow> mark = 0x5A"
  shows "\<exists>z'. zone_ok z' \<and> zone_minutes z' = zone_minutes z \<and> s = zone_text z'"
proof (cases z)
  case (Zulu mark)
  with assms obtain u where "s = [u]" "u = 0x5A \<or> u = 0x7A"
    by (cases s) (auto simp: upper_marks_def split: if_splits)
  then show ?thesis using Zulu by (intro exI [of _ "Zulu u"]) simp
next
  case (Shifted behind h m)
  have "s = zone_text z"
    by (rule upper_marks_same [OF assms(1)]) (use Shifted digits_marks in \<open>auto simp del: digits.simps\<close>)
  then show ?thesis using assms(2) by blast
qed

lemma marks_either_case:
  assumes "upper_marks s = clock_text 0x54 c" "clock_ok c" "\<forall>mark. ck_zone c = Zulu mark \<longrightarrow> mark = 0x5A"
  shows "\<exists>mark c'. (mark = 0x54 \<or> mark = 0x74) \<and> clock_ok c' \<and> clock_instant c' = clock_instant c \<and> s = clock_text mark c'"
proof -
  let ?date = "digits 4 (ck_year c) @ 0x2D # digits 2 (ck_month c) @ 0x2D # digits 2 (ck_day c)"
  let ?time = "digits 2 (ck_hour c) @ 0x3A # digits 2 (ck_minute c) @ 0x3A # digits 2 (ck_second c) @ fraction_text (ck_fraction c)"
  have ok: "decimal_digits (ck_fraction c)" "zone_ok (ck_zone c)" using assms(2) by (simp_all add: clock_ok_def)
  have "upper_marks s = ?date @ [0x54] @ ?time @ zone_text (ck_zone c)"
    using assms(1) by (simp add: clock_text_def del: digits.simps)
  from upper_marks_split [OF this] obtain a p where a': "s = a @ p" "upper_marks a = ?date"
    "upper_marks p = [0x54] @ ?time @ zone_text (ck_zone c)" by blast
  from upper_marks_split [OF a'(3)] obtain b q where b': "p = b @ q" "upper_marks b = [0x54]"
    "upper_marks q = ?time @ zone_text (ck_zone c)" by blast
  from upper_marks_split [OF b'(3)] obtain d e where "q = d @ e" "upper_marks d = ?time"
    "upper_marks e = zone_text (ck_zone c)" by blast
  with a' b' have s: "s = a @ b @ d @ e" "upper_marks a = ?date"
    "upper_marks b = [0x54]" "upper_marks d = ?time" "upper_marks e = zone_text (ck_zone c)" by simp_all
  have a: "a = ?date" by (rule upper_marks_same [OF s(2)]) (simp_all add: digits_marks del: digits.simps)
  have d: "d = ?time"
    by (rule upper_marks_same [OF s(4)]) (simp_all add: digits_marks fraction_marks [OF ok(1)] del: digits.simps)
  obtain mark where b: "b = [mark]" "mark = 0x54 \<or> mark = 0x74"
    using s(3) by (cases b) (auto simp: upper_marks_def split: if_splits)
  obtain z where z: "zone_ok z" "zone_minutes z = zone_minutes (ck_zone c)" "e = zone_text z"
    using upper_marks_zone [OF s(5) ok(2) assms(3)] by blast
  let ?c = "c\<lparr>ck_zone := z\<rparr>"
  have "clock_ok ?c" "clock_instant ?c = clock_instant c" "s = clock_text mark ?c"
    using assms(2) z s(1) a b(1) d by (simp_all add: clock_ok_def clock_instant_def clock_text_def del: digits.simps)
  then show ?thesis using b(2) by blast
qed

text \<open>Raising the marks of a spelled time.\<close>

lemma upper_marks_clock:
  assumes "clock_ok c" "mark = 0x54 \<or> mark = 0x74"
  shows "\<exists>c'. clock_ok c' \<and> clock_instant c' = clock_instant c \<and> (\<forall>m. ck_zone c' = Zulu m \<longrightarrow> m = 0x5A) \<and>
    upper_marks (clock_text mark c) = clock_text 0x54 c'"
proof -
  have ok: "decimal_digits (ck_fraction c)" "zone_ok (ck_zone c)" using assms(1) by (simp_all add: clock_ok_def)
  have digits: "upper_marks (digits k n) = digits k n" for k n using digits_no_marks by (intro upper_marks_plain)
  have fraction: "upper_marks (fraction_text (ck_fraction c)) = fraction_text (ck_fraction c)"
    using digit_units(1) [OF ok(1)] by (intro upper_marks_plain) (auto simp: fraction_text_def list_all_iff is_digit_def dest!: bspec)
  have cons: "upper_marks (u # us) = (if u = 0x74 then 0x54 else if u = 0x7A then 0x5A else u) # upper_marks us" for u us
    by (simp add: upper_marks_def)
  obtain z where z: "zone_ok z" "zone_minutes z = zone_minutes (ck_zone c)" "\<forall>m. z = Zulu m \<longrightarrow> m = 0x5A"
    "upper_marks (zone_text (ck_zone c)) = zone_text z"
  proof (cases "ck_zone c")
    case (Zulu m)
    then show ?thesis using ok(2) by (intro that [of "Zulu 0x5A"]) (auto simp: upper_marks_def)
  next
    case (Shifted behind h m)
    then show ?thesis using ok(2) by (intro that [of "ck_zone c"]) (auto simp: cons upper_marks_append digits simp del: digits.simps)
  qed
  let ?c = "c\<lparr>ck_zone := z\<rparr>"
  have "clock_ok ?c" "clock_instant ?c = clock_instant c" "upper_marks (clock_text mark c) = clock_text 0x54 ?c"
    using assms z digits fraction
    by (auto simp: clock_ok_def clock_instant_def clock_text_def cons upper_marks_append simp del: digits.simps)
  then show ?thesis using z(3) by (intro exI [of _ ?c]) simp
qed

lemma accepted_names:
  "(\<exists>t. rfc3339 s = Some t \<and> real_time t \<and> date_parse (upper_marks s) = Some ms) \<longleftrightarrow> names_instant s ms"
proof
  assume "\<exists>t. rfc3339 s = Some t \<and> real_time t \<and> date_parse (upper_marks s) = Some ms"
  then obtain t where t: "rfc3339 s = Some t" "real_time t" "date_parse (upper_marks s) = Some ms" by blast
  obtain c where c: "clock_ok c" "\<forall>mark. ck_zone c = Zulu mark \<longrightarrow> mark = 0x5A" "upper_marks s = clock_text 0x54 c"
    using rfc3339_inv [OF t(1,2)] by blast
  from clock_read(2) [OF c] t(3) have "ms = clock_instant c" by simp
  with marks_either_case [OF c(3,1,2)] show "names_instant s ms" unfolding names_instant_def by metis
next
  assume "names_instant s ms"
  then obtain mark c where c: "mark = 0x54 \<or> mark = 0x74" "clock_ok c" "s = clock_text mark c" "ms = clock_instant c"
    by (auto simp: names_instant_def)
  from upper_marks_clock [OF c(2,1)] obtain c' where c': "clock_ok c'" "clock_instant c' = ms"
    "\<forall>m. ck_zone c' = Zulu m \<longrightarrow> m = 0x5A" "upper_marks s = clock_text 0x54 c'" using c(3,4) by auto
  from clock_read [OF c'(1,3,4)] c'(2)
  show "\<exists>t. rfc3339 s = Some t \<and> real_time t \<and> date_parse (upper_marks s) = Some ms" by auto
qed

section \<open>Properties\<close>

text \<open>C37: \<open>timestampMillis\<close> takes a text as a time exactly when it spells a real date, time of day and zone
  as RFC 3339 asks (a year of four digits, the two marks in either case, a fraction of any length, no
  leap second), and the time is then the instant the text names: the date and time of day, the fraction
  to the millisecond, less the offset with its sign.  A value that is not a text is no time.  The text
  is reported exactly when it is not a time.
\<close>

theorem timestampMillis_exact:
  "(snd (timestampMillis path v) = Some ms \<longleftrightarrow> (\<exists>s. v = JStr s \<and> names_instant s ms)) \<and>
   (fst (timestampMillis path v) = [] \<longleftrightarrow> (\<exists>s ms. v = JStr s \<and> names_instant s ms))"
proof -
  have val: "snd (timestampMillis path v) = Some ms \<longleftrightarrow> (\<exists>s. v = JStr s \<and> names_instant s ms)" for ms
    unfolding timestampMillis_Some accepted_names [symmetric] by blast
  then show ?thesis using timestampMillis_Nil [of path v] by (metis not_Some_eq)
qed

theorem timestampMillis_exact_witness:
  "snd (timestampMillis [] (JStr (js ''2024-02-29t23:59:59.0625-01:30''))) = Some 1709256599062 \<and>
   names_instant (js ''2024-02-29t23:59:59.0625-01:30'') 1709256599062"
proof -
  have "snd (timestampMillis [] (JStr (js ''2024-02-29t23:59:59.0625-01:30''))) = Some 1709256599062" by code_simp
  then show ?thesis using timestampMillis_exact [of "[]" "JStr (js ''2024-02-29t23:59:59.0625-01:30'')" 1709256599062] by simp
qed

end
