(* ===== verification/Active_Store.thy ===== *)
theory Active_Store
  imports Active_Validation_Laws Record_Store
begin

text \<open>
  \<open>active/store.ts\<close>: the advisory leases under \<open>.barbaro/active\<close>, one file per actor of a session,
  each written with the next revision of the file it replaces.

  The critical section of an actor is held while the file is read, decided on and replaced; what
  other processes do before it is entered is the argument \<open>others\<close>.  \<open>sha\<close> is the SHA-256 digest,
  \<open>nonce\<close> the process id and random part of a temporary name, \<open>now\<close> the given time or the clock's,
  and \<open>entries\<close> the names \<open>readdir\<close> finds in a directory.
\<close>

section \<open>Arguments\<close>

definition DEFAULT_TTL_MS :: int where "DEFAULT_TTL_MS = 5 * 60 * 1000"

definition REAP_IDLE_AFTER_MS :: int where "REAP_IDLE_AFTER_MS = 24 * 60 * 60 * 1000"

definition MAX_ACTIVE_LEASE_BYTES :: int where "MAX_ACTIVE_LEASE_BYTES = 1024 * 1024"

text \<open>\<open>ActiveTime\<close>: a \<open>Date\<close> or a number (\<open>None\<close> is not a time), or a text.\<close>

datatype active_time = TimeValue "int option" | TimeText jstr

definition timeMillis :: "active_time \<Rightarrow> int result" where
  "timeMillis value =
     (case (case value of TimeValue ms \<Rightarrow> ms | TimeText s \<Rightarrow> date_parse (upper_marks s)) of
        None \<Rightarrow> Inl TypeError
      | Some ms \<Rightarrow> Inr ms)"

definition positiveTtl :: "int \<Rightarrow> int result" where
  "positiveTtl value = (if safe_pos value then Inr value else Inl TypeError)"

definition expectedRevision :: "int option \<Rightarrow> int option result" where
  "expectedRevision value =
     (case value of None \<Rightarrow> Inr None
      | Some n \<Rightarrow> if safe_nonneg n then Inr (Some n) else Inl TypeError)"

text \<open>\<open>JSON.parse(JSON.stringify(lease))\<close>\<close>

definition cloneLease :: "lease \<Rightarrow> lease result" where
  "cloneLease l = (case json_clone (JObj l) of Some (JObj l') \<Rightarrow> Inr l' | _ \<Rightarrow> Inl TypeError)"

definition lease_text :: "lease \<Rightarrow> string \<Rightarrow> jstr" where
  "lease_text l key = (case as_string (jget l key) of Some s \<Rightarrow> s | None \<Rightarrow> [])"

definition actorFromLease :: "lease \<Rightarrow> actor_key" where
  "actorFromLease l =
     \<lparr> a_provider = lease_text l ''provider'', a_session_id = lease_text l ''session_id'',
       a_agent_id = lease_text l ''agent_id'' \<rparr>"

definition sameActor :: "actor_key \<Rightarrow> actor_key \<Rightarrow> bool" where
  "sameActor l r \<longleftrightarrow>
     a_provider l = a_provider r \<and> a_session_id l = a_session_id r \<and> a_agent_id l = a_agent_id r"

definition GENERATED_FIELDS :: "string list" where
  "GENERATED_FIELDS = [''schema'', ''revision'', ''updated_at'', ''expires_at'']"

definition assertUpdateDoesNotSetGeneratedFields :: "jsval \<Rightarrow> lease result" where
  "assertUpdateDoesNotSetGeneratedFields update =
     (case as_object update of
        None \<Rightarrow> Inl TypeError
      | Some ps \<Rightarrow>
          if list_ex (\<lambda>key. js key \<in> set (map fst ps)) GENERATED_FIELDS then Inl TypeError else Inr ps)"

section \<open>The store\<close>

text \<open>The directory, relative to the guarded root, and the default time to live.\<close>

record lease_store =
  ls_directory :: store_path
  ls_defaultTtl :: int

definition ActiveLeaseStore :: "store_path \<Rightarrow> int option \<Rightarrow> lease_store result" where
  "ActiveLeaseStore directory defaultTtlMs =
     (case positiveTtl (case defaultTtlMs of None \<Rightarrow> DEFAULT_TTL_MS | Some n \<Rightarrow> n) of
        Inl e \<Rightarrow> Inl e
      | Inr ttl \<Rightarrow> Inr \<lparr> ls_directory = directory, ls_defaultTtl = ttl \<rparr>)"

definition actorPath ::
  "(byte list \<Rightarrow> byte list) \<Rightarrow> lease_store \<Rightarrow> actor_key \<Rightarrow> store_path result" where
  "actorPath sha s actor =
     (case validateActiveActorKey actor of
        Inl e \<Rightarrow> Inl e
      | Inr _ \<Rightarrow>
          (case activeActorFilename sha actor of
             Inl e \<Rightarrow> Inl e
           | Inr name \<Rightarrow> Inr (ls_directory s @ [a_provider actor, name])))"

definition readPath :: "store_path \<Rightarrow> store \<Rightarrow> lease option result" where
  "readPath path st =
     (case readUtf8File path MAX_ACTIVE_LEASE_BYTES st of
        Inl e \<Rightarrow> Inl e
      | Inr None \<Rightarrow> Inr None
      | Inr (Some f) \<Rightarrow> map_sum id Some (parseActiveLeaseJson (jf_json f)))"

definition readSnapshot ::
  "(byte list \<Rightarrow> byte list) \<Rightarrow> lease_store \<Rightarrow> actor_key \<Rightarrow> store \<Rightarrow> lease option result" where
  "readSnapshot sha s actor st =
     (case actorPath sha s actor of
        Inl e \<Rightarrow> Inl e
      | Inr path \<Rightarrow>
          (case readPath path st of
             Inl e \<Rightarrow> Inl e
           | Inr None \<Rightarrow> Inr None
           | Inr (Some l) \<Rightarrow>
               if sameActor actor (actorFromLease l) then Inr (Some l) else Inl PlainError))"

definition readActive ::
  "(byte list \<Rightarrow> byte list) \<Rightarrow> lease_store \<Rightarrow> actor_key \<Rightarrow> active_time \<Rightarrow> store \<Rightarrow> lease option result" where
  "readActive sha s actor now st =
     (case readSnapshot sha s actor st of
        Inl e \<Rightarrow> Inl e
      | Inr None \<Rightarrow> Inr None
      | Inr (Some l) \<Rightarrow>
          (case timeMillis now of
             Inl e \<Rightarrow> Inl e
           | Inr ms \<Rightarrow> Inr (if isActiveLeaseVisible l ms then Some l else None)))"

definition lease_revision :: "lease \<Rightarrow> int" where
  "lease_revision l = (case as_safe_int (jget l ''revision'') of Some n \<Rightarrow> n | None \<Rightarrow> 0)"

text \<open>\<open>current?.revision ?? 0\<close>\<close>

definition actual_revision :: "lease option \<Rightarrow> int" where
  "actual_revision current = (case current of None \<Rightarrow> 0 | Some l \<Rightarrow> lease_revision l)"

definition currentRevision ::
  "(byte list \<Rightarrow> byte list) \<Rightarrow> lease_store \<Rightarrow> actor_key \<Rightarrow> store \<Rightarrow> int result" where
  "currentRevision sha s actor st = map_sum id actual_revision (readSnapshot sha s actor st)"

section \<open>Building a lease\<close>

text \<open>\<open>{ ...base, revision, updated_at, expires_at }\<close>: \<open>toISOString\<close> throws outside its range.\<close>

definition stamp :: "lease \<Rightarrow> int \<Rightarrow> int \<Rightarrow> int \<Rightarrow> lease result" where
  "stamp base revision updatedAt expiresAt =
     (case toISOString updatedAt of
        Inl e \<Rightarrow> Inl e
      | Inr updated \<Rightarrow>
          (case toISOString expiresAt of
             Inl e \<Rightarrow> Inl e
           | Inr expires \<Rightarrow>
               Inr (AList.update (js ''expires_at'') (JStr expires)
                     (AList.update (js ''updated_at'') (JStr updated)
                       (AList.update (js ''revision'') (JNum (NInt revision)) base)))))"

definition buildLease :: "lease \<Rightarrow> int \<Rightarrow> int \<Rightarrow> int \<Rightarrow> lease result" where
  "buildLease update revision updatedAt expiresAt =
     stamp (AList.update (js ''schema'') (JStr ACTIVE_LEASE_SCHEMA) update) revision updatedAt expiresAt"

text \<open>The checked and detached body of an update.\<close>

definition detached_update :: "jsval \<Rightarrow> lease result" where
  "detached_update update =
     (case assertUpdateDoesNotSetGeneratedFields update of
        Inl e \<Rightarrow> Inl e
      | Inr ps \<Rightarrow>
          (case buildLease ps 1 0 1 of
             Inl e \<Rightarrow> Inl e
           | Inr template \<Rightarrow>
               (case validateActiveLease (JObj template) of
                  Inl e \<Rightarrow> Inl e
                | Inr valid \<Rightarrow> cloneLease valid)))"

definition assertCurrentIdentity :: "lease option \<Rightarrow> lease \<Rightarrow> unit result" where
  "assertCurrentIdentity current next =
     (case current of
        None \<Rightarrow> Inr ()
      | Some l \<Rightarrow>
          if \<not> sameActor (actorFromLease l) (actorFromLease next) then Inl PlainError
          else if jget l ''lease_id'' \<noteq> jget next ''lease_id'' then Inl PlainError
          else Inr ())"

text \<open>The lease that replaces the current one.\<close>

definition next_lease :: "lease option \<Rightarrow> lease \<Rightarrow> int option \<Rightarrow> active_time \<Rightarrow> int \<Rightarrow> lease result" where
  "next_lease current detached wanted now ttl =
     (case assertCurrentIdentity current detached of
        Inl e \<Rightarrow> Inl e
      | Inr _ \<Rightarrow>
          let actual = actual_revision current in
          if wanted \<noteq> None \<and> wanted \<noteq> Some actual then Inl ActiveLeaseRevisionConflictError
          else if max_safe \<le> actual then Inl RangeError
          else (case timeMillis now of
                  Inl e \<Rightarrow> Inl e
                | Inr ms \<Rightarrow>
                    (case stamp detached (actual + 1) ms (ms + ttl) of
                       Inl e \<Rightarrow> Inl e
                     | Inr l \<Rightarrow> validateActiveLease (JObj l))))"

section \<open>Writing\<close>

definition lease_file :: "lease \<Rightarrow> json_file" where
  "lease_file l = \<lparr> jf_size = byte_length (json_text (JObj l)) + 1, jf_json = Some (JObj l) \<rparr>"

definition leaseTemporaryName :: "jstr \<Rightarrow> jstr \<Rightarrow> jstr" where
  "leaseTemporaryName name nonce = js ''.'' @ name @ js ''.'' @ nonce @ js ''.tmp''"

definition atomicReplace ::
  "(byte list \<Rightarrow> byte list) \<Rightarrow> jstr \<Rightarrow> store_path \<Rightarrow> lease \<Rightarrow> unit action" where
  "atomicReplace sha nonce path l =
     (case activeActorFilename sha (actorFromLease l) of
        Inl e \<Rightarrow> andThen (ensureParentForFile path) (\<lambda>_. raise e)
      | Inr name \<Rightarrow> replace_file (butlast path @ [leaseTemporaryName name nonce]) path (Inr (lease_file l)))"

text \<open>The critical section of \<open>write\<close>: \<open>decide\<close> gives the lease to write from the current one.\<close>

definition replace_current ::
  "(byte list \<Rightarrow> byte list) \<Rightarrow> jstr \<Rightarrow> store_path \<Rightarrow> (lease option \<Rightarrow> lease result) \<Rightarrow> lease action" where
  "replace_current sha nonce path decide =
     andThen (observe (readPath path)) (\<lambda>current.
     andThen (observe (\<lambda>_. decide current)) (\<lambda>l.
     andThen (atomicReplace sha nonce path l) (\<lambda>_. return l)))"

record write_options =
  wo_ttlMs :: "int option"
  wo_expectedRevision :: "int option"
  wo_now :: active_time

definition ttl_of :: "lease_store \<Rightarrow> int option \<Rightarrow> int result" where
  "ttl_of s ttlMs = positiveTtl (case ttlMs of None \<Rightarrow> ls_defaultTtl s | Some n \<Rightarrow> n)"

text \<open>What \<open>write\<close> checks before it waits: the path, the body, the time to live and the revision.\<close>

definition write_request ::
  "(byte list \<Rightarrow> byte list) \<Rightarrow> lease_store \<Rightarrow> jsval \<Rightarrow> write_options \<Rightarrow>
   (store_path \<times> lease \<times> int \<times> int option) result" where
  "write_request sha s update options =
     (case assertUpdateDoesNotSetGeneratedFields update of Inl e \<Rightarrow> Inl e | Inr _ \<Rightarrow>
      case ttl_of s (wo_ttlMs options) of Inl e \<Rightarrow> Inl e | Inr ttl \<Rightarrow>
      case expectedRevision (wo_expectedRevision options) of Inl e \<Rightarrow> Inl e | Inr wanted \<Rightarrow>
      case detached_update update of Inl e \<Rightarrow> Inl e | Inr detached \<Rightarrow>
      case actorPath sha s (actorFromLease detached) of Inl e \<Rightarrow> Inl e | Inr path \<Rightarrow>
        Inr (path, detached, ttl, wanted))"

definition write_lease ::
  "(byte list \<Rightarrow> byte list) \<Rightarrow> lease_store \<Rightarrow> (store \<Rightarrow> store) \<Rightarrow> jstr \<Rightarrow> jsval \<Rightarrow> write_options \<Rightarrow> lease action" where
  "write_lease sha s others nonce update options =
     andThen (observe (\<lambda>_. write_request sha s update options)) (\<lambda>(path, detached, ttl, wanted).
     andThen (effect others) (\<lambda>_.
       replace_current sha nonce path
         (\<lambda>current. next_lease current detached wanted (wo_now options) ttl)))"

definition writeSnapshot ::
  "(byte list \<Rightarrow> byte list) \<Rightarrow> lease_store \<Rightarrow> (store \<Rightarrow> store) \<Rightarrow> jstr \<Rightarrow> jsval \<Rightarrow> lease action" where
  "writeSnapshot sha s others nonce l =
     andThen (observe (\<lambda>_. case validateActiveLease l of Inl e \<Rightarrow> Inl e | Inr valid \<Rightarrow> cloneLease valid)) (\<lambda>detached.
     andThen (observe (\<lambda>_. actorPath sha s (actorFromLease detached))) (\<lambda>path.
     andThen (effect others) (\<lambda>_.
       replace_current sha nonce path (\<lambda>current.
         case assertCurrentIdentity current detached of
           Inl e \<Rightarrow> Inl e
         | Inr _ \<Rightarrow>
             if lease_revision detached \<le> actual_revision current then Inl ActiveLeaseRevisionConflictError
             else Inr detached))))"

text \<open>\<open>idleLeaseUpdate\<close>: the tombstone; work details and claims are cleared.\<close>

record lease_identity =
  li_lease_id :: jstr
  li_provider :: jstr
  li_session_id :: jstr
  li_agent_id :: jstr
  li_workstream_id :: "jstr option"
  li_turn_id :: "jstr option"
  li_source_refs :: "jsval option"
  li_extensions :: "jsval option"

definition idleLeaseUpdate :: "lease_identity \<Rightarrow> jsval" where
  "idleLeaseUpdate i =
     JObj ([(js ''lease_id'', JStr (li_lease_id i)), (js ''provider'', JStr (li_provider i)),
            (js ''session_id'', JStr (li_session_id i)), (js ''agent_id'', JStr (li_agent_id i)),
            (js ''state'', JStr (state_name Idle)), (js ''claims'', JArr []),
            (js ''unknown_write_scope'', JBool False)] @
           opt_prop ''workstream_id'' (map_option JStr (li_workstream_id i)) @
           opt_prop ''turn_id'' (map_option JStr (li_turn_id i)) @
           opt_prop ''source_refs'' (li_source_refs i) @
           opt_prop ''extensions'' (li_extensions i))"

definition writeIdle ::
  "(byte list \<Rightarrow> byte list) \<Rightarrow> lease_store \<Rightarrow> (store \<Rightarrow> store) \<Rightarrow> jstr \<Rightarrow> lease_identity \<Rightarrow> write_options \<Rightarrow>
   lease action" where
  "writeIdle sha s others nonce identity options =
     write_lease sha s others nonce (idleLeaseUpdate identity) options"

section \<open>Deciding inside the critical section\<close>

text \<open>\<open>update\<close>: the decision is made on the very lease the write replaces.\<close>

datatype lease_decision = Ignore jstr | Write jsval

datatype update_result = Ignored jstr | Committed lease

record update_options =
  uo_ttlMs :: "int option"
  uo_now :: active_time
  uo_onWriteFailure :: "(js_error \<Rightarrow> unit action) option"
  uo_afterCommit :: "(lease \<Rightarrow> unit action) option"

text \<open>The lease a decision asks for.\<close>

definition decided_lease ::
  "actor_key \<Rightarrow> lease option \<Rightarrow> jsval \<Rightarrow> active_time \<Rightarrow> int \<Rightarrow> lease result" where
  "decided_lease actor current update now ttl =
     (case detached_update update of
        Inl e \<Rightarrow> Inl e
      | Inr detached \<Rightarrow>
          if \<not> sameActor actor (actorFromLease detached) then Inl PlainError
          else next_lease current detached None now ttl)"

text \<open>\<open>try { m } catch (error) { await onWriteFailure(error); throw error }\<close>\<close>

definition compensate :: "(js_error \<Rightarrow> unit action) option \<Rightarrow> 'a action \<Rightarrow> 'a action" where
  "compensate onWriteFailure m =
     andThen (attempt m) (\<lambda>r.
     case r of
       Inr v \<Rightarrow> return v
     | Inl e \<Rightarrow>
         (case onWriteFailure of
            None \<Rightarrow> raise e
          | Some handler \<Rightarrow>
              andThen (attempt (handler e)) (\<lambda>h.
              case h of Inr _ \<Rightarrow> raise e | Inl _ \<Rightarrow> raise AggregateError)))"

definition commit_decision ::
  "(byte list \<Rightarrow> byte list) \<Rightarrow> jstr \<Rightarrow> store_path \<Rightarrow> actor_key \<Rightarrow> lease option \<Rightarrow> jsval \<Rightarrow> int \<Rightarrow>
   update_options \<Rightarrow> update_result action" where
  "commit_decision sha nonce path actor current update ttl options =
     andThen (compensate (uo_onWriteFailure options)
       (andThen (observe (\<lambda>_. decided_lease actor current update (uo_now options) ttl)) (\<lambda>l.
        andThen (atomicReplace sha nonce path l) (\<lambda>_. return l)))) (\<lambda>l.
     andThen (case uo_afterCommit options of None \<Rightarrow> return () | Some after \<Rightarrow> after l) (\<lambda>_.
       return (Committed l)))"

definition current_of_actor :: "actor_key \<Rightarrow> store_path \<Rightarrow> store \<Rightarrow> lease option result" where
  "current_of_actor actor path st =
     (case readPath path st of
        Inl e \<Rightarrow> Inl e
      | Inr None \<Rightarrow> Inr None
      | Inr (Some l) \<Rightarrow> if sameActor actor (actorFromLease l) then Inr (Some l) else Inl PlainError)"

definition update_lease ::
  "(byte list \<Rightarrow> byte list) \<Rightarrow> lease_store \<Rightarrow> (store \<Rightarrow> store) \<Rightarrow> jstr \<Rightarrow> actor_key \<Rightarrow>
   (lease option \<Rightarrow> lease_decision action) \<Rightarrow> update_options \<Rightarrow> update_result action" where
  "update_lease sha s others nonce actor decide options =
     andThen (observe (\<lambda>_. actorPath sha s actor)) (\<lambda>path.
     andThen (observe (\<lambda>_. ttl_of s (uo_ttlMs options))) (\<lambda>ttl.
     andThen (effect others) (\<lambda>_.
     andThen (observe (current_of_actor actor path)) (\<lambda>current.
     andThen (decide current) (\<lambda>decision.
     case decision of
       Ignore reason \<Rightarrow> return (Ignored reason)
     | Write update \<Rightarrow> commit_decision sha nonce path actor current update ttl options)))))"

section \<open>Listing\<close>

definition ACTIVE_ACTOR_FILENAME_PATTERN :: "jstr \<Rightarrow> bool" where
  "ACTIVE_ACTOR_FILENAME_PATTERN n \<longleftrightarrow>
     take 6 n = js ''actor_'' \<and> length n = 75 \<and> list_all is_hex (take 64 (drop 6 n)) \<and> drop 70 n = js ''.json''"

record list_options =
  lo_provider :: "jstr option"
  lo_sessionId :: "jstr option"
  lo_agentId :: "jstr option"

definition check_list_options :: "list_options \<Rightarrow> unit result" where
  "check_list_options options =
     (if (case lo_provider options of None \<Rightarrow> True | Some p \<Rightarrow> provider_pattern p) \<and>
         (case lo_sessionId options of None \<Rightarrow> True | Some i \<Rightarrow> session_id_pattern i) \<and>
         lo_agentId options \<noteq> Some []
      then Inr () else Inl TypeError)"

definition listProviderDirectories ::
  "(store_path \<Rightarrow> store \<Rightarrow> jstr list) \<Rightarrow> lease_store \<Rightarrow> store \<Rightarrow> jstr list result" where
  "listProviderDirectories entries s st =
     (case verifyDirectory (ls_directory s) st of
        Inl e \<Rightarrow> Inl e
      | Inr False \<Rightarrow> Inr []
      | Inr True \<Rightarrow>
          let names = filter provider_pattern (entries (ls_directory s) st) in
          if list_ex (\<lambda>n. st (ls_directory s @ [n]) \<noteq> Some Directory) names then Inl UnsafeStorePathError
          else Inr (sort names))"

text \<open>The actor files \<open>readdir\<close> finds in the directory of a provider.\<close>

definition is_file :: "entry option \<Rightarrow> bool" where
  "is_file e = (case e of Some (JsonFile _) \<Rightarrow> True | _ \<Rightarrow> False)"

definition actor_files ::
  "(store_path \<Rightarrow> store \<Rightarrow> jstr list) \<Rightarrow> store_path \<Rightarrow> store \<Rightarrow> jstr list result" where
  "actor_files entries d st =
     (case verifyDirectory d st of
        Inl e \<Rightarrow> Inl e
      | Inr False \<Rightarrow> Inr []
      | Inr True \<Rightarrow>
          Inr (filter (\<lambda>n. is_file (st (d @ [n])) \<and> ACTIVE_ACTOR_FILENAME_PATTERN n) (entries d st)))"

text \<open>A file that does not hold a lease of its own actor is reported and skipped.\<close>

definition listed_lease ::
  "(byte list \<Rightarrow> byte list) \<Rightarrow> list_options \<Rightarrow> (lease \<Rightarrow> bool) \<Rightarrow> store_path \<Rightarrow> jstr \<Rightarrow> store \<Rightarrow> jstr \<Rightarrow> lease list" where
  "listed_lease sha options included d provider st name =
     (case readPath (d @ [name]) st of
        Inr (Some l) \<Rightarrow>
          if a_provider (actorFromLease l) = provider \<and> activeActorFilename sha (actorFromLease l) = Inr name \<and>
             (case lo_sessionId options of None \<Rightarrow> True | Some i \<Rightarrow> lease_text l ''session_id'' = i) \<and>
             (case lo_agentId options of None \<Rightarrow> True | Some a \<Rightarrow> lease_text l ''agent_id'' = a) \<and> included l
          then [l] else []
      | _ \<Rightarrow> [])"

definition list_provider ::
  "(byte list \<Rightarrow> byte list) \<Rightarrow> (store_path \<Rightarrow> store \<Rightarrow> jstr list) \<Rightarrow> lease_store \<Rightarrow> list_options \<Rightarrow>
   (lease \<Rightarrow> bool) \<Rightarrow> store \<Rightarrow> jstr \<Rightarrow> lease list result" where
  "list_provider sha entries s options included st provider =
     map_sum id
       (\<lambda>names. concat (map (listed_lease sha options included (ls_directory s @ [provider]) provider st) (sort names)))
       (actor_files entries (ls_directory s @ [provider]) st)"

definition actor_order :: "lease \<Rightarrow> jstr" where
  "actor_order l = join [0] [lease_text l ''provider'', lease_text l ''session_id'', lease_text l ''agent_id'']"

definition list_leases ::
  "(byte list \<Rightarrow> byte list) \<Rightarrow> (store_path \<Rightarrow> store \<Rightarrow> jstr list) \<Rightarrow> lease_store \<Rightarrow> list_options \<Rightarrow>
   (lease \<Rightarrow> bool) \<Rightarrow> store \<Rightarrow> lease list result" where
  "list_leases sha entries s options included st =
     (case check_list_options options of Inl e \<Rightarrow> Inl e | Inr _ \<Rightarrow>
      case (case lo_provider options of None \<Rightarrow> listProviderDirectories entries s st | Some p \<Rightarrow> Inr [p]) of
        Inl e \<Rightarrow> Inl e
      | Inr providers \<Rightarrow>
          map_sum id (\<lambda>ls. sort_key actor_order (concat ls))
            (traverse (list_provider sha entries s options included st) providers))"

definition listActive ::
  "(byte list \<Rightarrow> byte list) \<Rightarrow> (store_path \<Rightarrow> store \<Rightarrow> jstr list) \<Rightarrow> lease_store \<Rightarrow> list_options \<Rightarrow>
   active_time \<Rightarrow> store \<Rightarrow> lease list result" where
  "listActive sha entries s options now st =
     (case timeMillis now of Inl e \<Rightarrow> Inl e
      | Inr ms \<Rightarrow> list_leases sha entries s options (\<lambda>l. isActiveLeaseVisible l ms) st)"

definition listSnapshots ::
  "(byte list \<Rightarrow> byte list) \<Rightarrow> (store_path \<Rightarrow> store \<Rightarrow> jstr list) \<Rightarrow> lease_store \<Rightarrow> list_options \<Rightarrow>
   store \<Rightarrow> lease list result" where
  "listSnapshots sha entries s options st = list_leases sha entries s options (\<lambda>_. True) st"

section \<open>Reaping\<close>

definition isReapable :: "lease \<Rightarrow> int \<Rightarrow> bool" where
  "isReapable l cutoffMillis \<longleftrightarrow>
     jget l ''state'' = JStr (state_name Idle) \<and>
     (case lease_time l ''expires_at'' of None \<Rightarrow> False | Some e \<Rightarrow> e \<le> cutoffMillis)"

definition reapable_at :: "store_path \<Rightarrow> int \<Rightarrow> store \<Rightarrow> lease option result" where
  "reapable_at path cutoff st =
     map_sum id (\<lambda>current. case current of None \<Rightarrow> None | Some l \<Rightarrow> if isReapable l cutoff then Some l else None)
       (readPath path st)"

text \<open>One file: a candidate is read again in the critical section, and only then removed.\<close>

definition reap_file ::
  "(byte list \<Rightarrow> byte list) \<Rightarrow> (store \<Rightarrow> store) \<Rightarrow> int \<Rightarrow> store_path \<Rightarrow> jstr \<Rightarrow> int action" where
  "reap_file sha others cutoff d name =
     andThen (observe (reapable_at (d @ [name]) cutoff)) (\<lambda>candidate.
     case candidate of
       None \<Rightarrow> return 0
     | Some l \<Rightarrow>
         if activeActorFilename sha (actorFromLease l) \<noteq> Inr name then return 0
         else
           andThen (effect others) (\<lambda>_.
           andThen (observe (reapable_at (d @ [name]) cutoff)) (\<lambda>current.
           if current = None then return 0
           else andThen (effect (unlink (d @ [name]))) (\<lambda>_. return 1))))"

fun sum_actions :: "('a \<Rightarrow> int action) \<Rightarrow> 'a list \<Rightarrow> int action" where
  "sum_actions f [] = return 0"
| "sum_actions f (x # xs) =
     andThen (f x) (\<lambda>n. andThen (sum_actions f xs) (\<lambda>m. return (n + m)))"

definition reapExpiredIdle ::
  "(byte list \<Rightarrow> byte list) \<Rightarrow> (store_path \<Rightarrow> store \<Rightarrow> jstr list) \<Rightarrow> lease_store \<Rightarrow> (store \<Rightarrow> store) \<Rightarrow>
   active_time \<Rightarrow> int action" where
  "reapExpiredIdle sha entries s others now =
     andThen (observe (\<lambda>_. timeMillis now)) (\<lambda>ms.
     andThen (observe (listProviderDirectories entries s)) (\<lambda>providers.
       sum_actions (\<lambda>provider.
         andThen (observe (actor_files entries (ls_directory s @ [provider]))) (\<lambda>names.
           sum_actions (reap_file sha others (ms - REAP_IDLE_AFTER_MS) (ls_directory s @ [provider])) names))
         providers))"

end
