(* ===== verification/Active_Store_Files.thy ===== *)
theory Active_Store_Files
  imports Active_Store
begin

text \<open>
  The files of the leases: what a written lease reads as, that the files of two actors never
  interfere, and that the store is a record store in the sense of \<open>Record_Store\<close>.
\<close>

section \<open>Accepted leases\<close>

text \<open>The properties of a lease that has passed validation.\<close>

definition valid_lease :: "lease \<Rightarrow> bool" where
  "valid_lease l \<longleftrightarrow> lease_issues (JObj l) = []"

lemma validate_valid: "validateActiveLease (JObj l) = Inr l' \<longleftrightarrow> l' = l \<and> valid_lease l"
  by (auto simp: validateActiveLease_Inr valid_lease_def)

lemmas valid_leaseD = accepted_lease [OF validate_valid [THEN iffD2], OF conjI [OF refl]]

lemma cloneLease_valid: "valid_lease l \<Longrightarrow> cloneLease l = Inr l"
  using valid_leaseD(2) by (simp add: cloneLease_def json_clone_plain del: json_clone.simps plain.simps)

lemma lease_text_eq: "jget l key = JStr s \<Longrightarrow> lease_text l key = s"
  by (simp add: lease_text_def)

lemma valid_actor:
  assumes "valid_lease l"
  shows "provider_pattern (lease_text l ''provider'')" "session_id_pattern (lease_text l ''session_id'')"
    "lease_text l ''agent_id'' \<noteq> []" "0 < lease_revision l" "safe_int (lease_revision l)"
  using valid_leaseD(4-7) [OF assms]
  by (auto simp: lease_text_eq lease_revision_def as_safe_int_Some safe_pos_def)

lemma actor_sel [simp]:
  "a_provider (actorFromLease l) = lease_text l ''provider''"
  "a_session_id (actorFromLease l) = lease_text l ''session_id''"
  "a_agent_id (actorFromLease l) = lease_text l ''agent_id''"
  by (simp_all add: actorFromLease_def)

lemma sameActor_eq: "sameActor a b \<longleftrightarrow> a = b"
  by (cases a; cases b) (auto simp: sameActor_def)

lemma map_sum_Inr_iff: "map_sum f g x = Inr y \<longleftrightarrow> (\<exists>z. x = Inr z \<and> y = g z)"
  by (cases x) auto

lemma readPath_Inr: "readPath path st = Inr (Some l) \<Longrightarrow> valid_lease l"
  by (auto simp: readPath_def parseActiveLeaseJson_def validateActiveLease_Inr valid_lease_def map_sum_Inr_iff
      split: sum.splits option.splits)

section \<open>The names of the files\<close>

definition actor_filename :: "(byte list \<Rightarrow> byte list) \<Rightarrow> actor_key \<Rightarrow> jstr" where
  "actor_filename sha a = js ''actor_'' @
     hex_bytes (framedHash sha (js ''barbaro-active-actor-file-v1'') [a_provider a, a_session_id a, a_agent_id a]) @
     js ''.json''"

lemma activeActorFilename_Inr:
  "activeActorFilename sha a = Inr n \<longleftrightarrow>
     provider_pattern (a_provider a) \<and> session_id_pattern (a_session_id a) \<and> a_agent_id a \<noteq> [] \<and>
     n = actor_filename sha a"
  by (auto simp: activeActorFilename_def actor_filename_def)

lemma actor_key_ok_eq:
  "actor_key_ok a \<longleftrightarrow> provider_pattern (a_provider a) \<and> session_id_pattern (a_session_id a) \<and> a_agent_id a \<noteq> []"
  by (auto simp: actor_key_ok_def no_issues pattern_defs)

definition lease_path :: "(byte list \<Rightarrow> byte list) \<Rightarrow> lease_store \<Rightarrow> actor_key \<Rightarrow> store_path" where
  "lease_path sha s a = ls_directory s @ [a_provider a, actor_filename sha a]"

lemma actorPath_Inr: "actorPath sha s a = Inr p \<longleftrightarrow> actor_key_ok a \<and> p = lease_path sha s a"
  unfolding actorPath_def validateActiveActorKey_def lease_path_def
  using activeActorFilename_Inr [of sha a "actor_filename sha a"]
  by (auto simp: actor_key_ok_eq split: sum.split)

lemma valid_actor_key: "valid_lease l \<Longrightarrow> actor_key_ok (actorFromLease l)"
  using valid_actor [of l] by (simp add: actor_key_ok_eq)

lemma valid_filename: "valid_lease l \<Longrightarrow> activeActorFilename sha (actorFromLease l) = Inr (actor_filename sha (actorFromLease l))"
  using valid_actor [of l] by (simp add: activeActorFilename_Inr)

text \<open>A path that may hold a lease: in the directory of some provider, its name not hidden.\<close>

definition actor_file :: "lease_store \<Rightarrow> store_path \<Rightarrow> bool" where
  "actor_file s p \<longleftrightarrow> (\<exists>provider name. p = ls_directory s @ [provider, name] \<and> name \<noteq> [] \<and> hd name \<noteq> 0x2E)"

lemma filename_shape: "actor_filename sha a \<noteq> []" "hd (actor_filename sha a) \<noteq> 0x2E"
  by (simp_all add: actor_filename_def js_def)

lemma lease_path_actor_file: "actor_file s (lease_path sha s a)"
  using filename_shape by (auto simp: actor_file_def lease_path_def)

lemma listed_actor_file: "ACTIVE_ACTOR_FILENAME_PATTERN n \<Longrightarrow> actor_file s (ls_directory s @ [p, n])"
  by (cases n) (auto simp: actor_file_def ACTIVE_ACTOR_FILENAME_PATTERN_def js_def)

text \<open>The temporary name of a replacement is hidden, so it is beside its target and away from every
  other lease.\<close>

definition lease_temporary :: "(byte list \<Rightarrow> byte list) \<Rightarrow> jstr \<Rightarrow> lease_store \<Rightarrow> actor_key \<Rightarrow> store_path" where
  "lease_temporary sha nonce s a =
     ls_directory s @ [a_provider a, leaseTemporaryName (actor_filename sha a) nonce]"

lemma temporary_hidden: "hd (leaseTemporaryName n nonce) = 0x2E" "leaseTemporaryName n nonce \<noteq> []"
  by (simp_all add: leaseTemporaryName_def js_def)

lemma lease_sibling: "sibling (lease_temporary sha nonce s a) (lease_path sha s a)"
  using temporary_hidden [of "actor_filename sha a" nonce] filename_shape [of sha a]
  by (auto simp: sibling_def lease_temporary_def lease_path_def butlast_append)

lemma lease_apart:
  assumes "actor_file s q" "q \<noteq> lease_path sha s a"
  shows "apart (lease_path sha s a) (lease_temporary sha nonce s a) q"
proof -
  obtain provider name where q: "q = ls_directory s @ [provider, name]" "name \<noteq> []" "hd name \<noteq> 0x2E"
    using assms(1) by (auto simp: actor_file_def)
  have same: "prefix u v \<longleftrightarrow> u = v" if "length u = length v" for u v :: store_path
    using that by (auto simp: prefix_def)
  have "name \<noteq> leaseTemporaryName (actor_filename sha a) nonce"
    using q(3) temporary_hidden(1) by metis
  then show ?thesis
    using assms(2) q(1) by (auto simp: apart_def lease_path_def lease_temporary_def parallel_def same)
qed

section \<open>The record store of the leases\<close>

record lease_write =
  lw_store :: lease_store
  lw_lease :: lease
  lw_nonce :: jstr

definition written_path :: "(byte list \<Rightarrow> byte list) \<Rightarrow> lease_write \<Rightarrow> store_path" where
  "written_path sha w = lease_path sha (lw_store w) (actorFromLease (lw_lease w))"

definition put_lease :: "(byte list \<Rightarrow> byte list) \<Rightarrow> lease_write \<Rightarrow> unit action" where
  "put_lease sha w = replace_file (lease_temporary sha (lw_nonce w) (lw_store w) (actorFromLease (lw_lease w)))
     (written_path sha w) (Inr (lease_file (lw_lease w)))"

lemma put_lease_eq:
  "valid_lease l \<Longrightarrow> atomicReplace sha nonce (lease_path sha s (actorFromLease l)) l =
     put_lease sha \<lparr> lw_store = s, lw_lease = l, lw_nonce = nonce \<rparr>"
  by (simp add: atomicReplace_def valid_filename put_lease_def written_path_def lease_temporary_def lease_path_def
      butlast_append)

definition lease_away :: "(byte list \<Rightarrow> byte list) \<Rightarrow> lease_write \<Rightarrow> store_path \<Rightarrow> bool" where
  "lease_away sha w q \<longleftrightarrow> actor_file (lw_store w) q \<and> q \<noteq> written_path sha w"

interpretation leases: record_store tree get_file "put_lease sha" "written_path sha"
  "\<lambda>w. Some (reads_as (lease_file (lw_lease w)))" "lease_away sha" for sha
proof
  fix st :: store and s :: store and w :: lease_write and q e
  note sib = lease_sibling [of sha "lw_nonce w" "lw_store w" "actorFromLease (lw_lease w)", folded written_path_def]
  assume st: "tree st"
  {
    assume s: "s \<in> set (fst (put_lease sha w st))"
    note state = replace_state [OF st sib s [unfolded put_lease_def]]
    show "tree s" using replace_keeps_tree [OF st sib s [unfolded put_lease_def]] .
    show "get_file (written_path sha w) s = get_file (written_path sha w) st \<or>
        Some (reads_as (lease_file (lw_lease w))) = Some (get_file (written_path sha w) s)"
      using write_state_read [OF state(3) st state(1,2,4)] by auto
    assume "lease_away sha w q"
    then have "apart (written_path sha w)
        (lease_temporary sha (lw_nonce w) (lw_store w) (actorFromLease (lw_lease w))) q"
      using lease_apart by (simp add: lease_away_def written_path_def)
    then show "get_file q s = get_file q st"
      by (rule replace_away [OF st sib s [unfolded put_lease_def]])
  }
  {
    assume "snd (put_lease sha w st) = Inr ()"
    then show "Some (reads_as (lease_file (lw_lease w))) =
        Some (get_file (written_path sha w) (last (st # fst (put_lease sha w st))))"
      using replace_reads [OF st sib] unfolding put_lease_def by fastforce
  }
  {
    assume "snd (put_lease sha w st) = Inl e"
    then show "get_file (written_path sha w) (last (st # fst (put_lease sha w st))) = get_file (written_path sha w) st"
      using replace_failure [OF st sib] unfolding put_lease_def by blast
  }
qed

section \<open>What a reader sees\<close>

lemma lease_bound_safe [simp]: "safe_nonneg MAX_ACTIVE_LEASE_BYTES"
  by (simp add: MAX_ACTIVE_LEASE_BYTES_def safe_nonneg_def safe_int_def max_safe_def)

lemma readPath_by_file: "get_file p a = get_file p b \<Longrightarrow> readPath p a = readPath p b"
  by (simp add: readPath_def get_file_def fun_eq_iff)

text \<open>A lease as it is read back: one whose text exceeds the bound of a read is lost to it.\<close>

definition fits :: "lease \<Rightarrow> bool" where
  "fits l \<longleftrightarrow> int (jf_size (lease_file l)) \<le> MAX_ACTIVE_LEASE_BYTES"

definition stored :: "lease \<Rightarrow> lease option result" where
  "stored l = (if fits l then Inr (Some l) else Inl StoreFileTooLargeError)"

lemma reads_as_lease:
  assumes "get_file p st = reads_as (lease_file l)" "valid_lease l"
  shows "readPath p st = stored l"
proof -
  have "readUtf8File p MAX_ACTIVE_LEASE_BYTES st = sized MAX_ACTIVE_LEASE_BYTES (lease_file l)"
    using fun_cong [OF assms(1), of MAX_ACTIVE_LEASE_BYTES] by (simp add: get_file_def reads_as_def)
  then show ?thesis
    using assms(2) validate_valid [of l l]
    by (simp add: readPath_def sized_def stored_def fits_def parseActiveLeaseJson_def lease_file_def)
qed

text \<open>Replacing a lease: the states on the way, and the result.\<close>

lemma replace_lease:
  assumes "tree st" "valid_lease l" "p = lease_path sha s (actorFromLease l)"
    "x \<in> set (fst (atomicReplace sha nonce p l st))"
  shows "tree x" "readPath p x = readPath p st \<or> readPath p x = stored l"
    "actor_file s q \<Longrightarrow> q \<noteq> p \<Longrightarrow> readPath q x = readPath q st"
proof -
  let ?w = "\<lparr> lw_store = s, lw_lease = l, lw_nonce = nonce \<rparr>"
  have x: "x \<in> set (fst (put_lease sha ?w st))" and p: "written_path sha ?w = p"
    using assms(4) by (simp_all add: assms(3) put_lease_eq [OF assms(2)] written_path_def)
  show "tree x" by (rule leases.keeps [OF assms(1) x])
  show "readPath p x = readPath p st \<or> readPath p x = stored l"
    using leases.target [OF assms(1) x] readPath_by_file [of p x st] reads_as_lease [OF _ assms(2), of p x]
    unfolding p by force
  assume "actor_file s q" "q \<noteq> p"
  then have "lease_away sha ?w q" by (simp add: lease_away_def p)
  from leases.elsewhere [OF assms(1) x this] show "readPath q x = readPath q st" by (rule readPath_by_file)
qed

lemma replace_lease_result:
  assumes "tree st" "valid_lease l" "p = lease_path sha s (actorFromLease l)"
    "atomicReplace sha nonce p l st = (tr, r)"
  shows "r = Inr () \<Longrightarrow> readPath p (last (st # tr)) = stored l"
    "r = Inl e \<Longrightarrow> readPath p (last (st # tr)) = readPath p st"
proof -
  let ?w = "\<lparr> lw_store = s, lw_lease = l, lw_nonce = nonce \<rparr>"
  have put: "put_lease sha ?w st = (tr, r)" and p: "written_path sha ?w = p"
    using assms(4) by (simp_all add: assms(3) put_lease_eq [OF assms(2)] written_path_def)
  show "readPath p (last (st # tr)) = stored l" if "r = Inr ()"
    using leases.success [OF assms(1), of sha ?w] that reads_as_lease [OF _ assms(2)]
    unfolding put p by fastforce
  show "readPath p (last (st # tr)) = readPath p st" if "r = Inl e"
    by (rule readPath_by_file) (use leases.failure [OF assms(1), of sha ?w e] that in \<open>simp add: put p\<close>)
qed

end
