(* ===== verification/Active_Store_Laws.thy ===== *)
theory Active_Store_Laws
  imports Active_Store_Files
begin

text \<open>
  What every operation keeps of the leases: a lease is only ever followed by one of the same actor
  and identifier with a greater revision.
\<close>

section \<open>The next lease\<close>

definition stamped :: "lease \<Rightarrow> int \<Rightarrow> int \<Rightarrow> int \<Rightarrow> lease" where
  "stamped base revision updatedAt expiresAt =
     AList.update (js ''expires_at'') (JStr (to_iso expiresAt))
       (AList.update (js ''updated_at'') (JStr (to_iso updatedAt))
         (AList.update (js ''revision'') (JNum (NInt revision)) base))"

lemma stamp_Inr: "stamp base r u e = Inr l \<longleftrightarrow> valid_time u \<and> valid_time e \<and> l = stamped base r u e"
  by (auto simp: stamp_def toISOString_def stamped_def)

lemma jget_stamped:
  "jget (stamped base r u e) k =
     (if k = ''expires_at'' then JStr (to_iso e) else if k = ''updated_at'' then JStr (to_iso u)
      else if k = ''revision'' then JNum (NInt r) else jget base k)"
  by (simp add: stamped_def jget_update)

lemma lease_time_iso: "jget l k = JStr (to_iso t) \<Longrightarrow> valid_time t \<Longrightarrow> lease_time l k = Some t"
  by (simp add: lease_time_def upper_marks_to_iso date_parse_to_iso)

definition identity_kept :: "lease \<Rightarrow> lease \<Rightarrow> bool" where
  "identity_kept c l \<longleftrightarrow> actorFromLease c = actorFromLease l \<and> jget c ''lease_id'' = jget l ''lease_id''"

lemma assertCurrentIdentity_Inr:
  "assertCurrentIdentity current d = Inr u \<longleftrightarrow> (case current of None \<Rightarrow> True | Some c \<Rightarrow> identity_kept c d)"
  by (auto simp: assertCurrentIdentity_def sameActor_eq identity_kept_def split: option.split)

lemma next_lease_Inr:
  assumes "next_lease current d wanted now ttl = Inr l"
  obtains ms where "timeMillis now = Inr ms" "valid_time ms" "valid_time (ms + ttl)"
    "l = stamped d (actual_revision current + 1) ms (ms + ttl)" "valid_lease l"
    "wanted = None \<or> wanted = Some (actual_revision current)" "actual_revision current < max_safe"
    "case current of None \<Rightarrow> True | Some c \<Rightarrow> identity_kept c d"
proof -
  obtain u where u: "assertCurrentIdentity current d = Inr u"
    using assms by (cases "assertCurrentIdentity current d") (auto simp: next_lease_def)
  obtain ms where ms: "timeMillis now = Inr ms"
    using assms u by (cases "timeMillis now") (auto simp: next_lease_def Let_def split: if_splits)
  show thesis
    using assms u ms
    by (intro that [of ms])
      (auto simp: next_lease_def Let_def stamp_Inr validate_valid assertCurrentIdentity_Inr split: if_splits sum.splits)
qed

lemma actorFromLease_stamped [simp]: "actorFromLease (stamped d r u e) = actorFromLease d"
  by (simp add: actorFromLease_def lease_text_def jget_stamped)

lemma stamped_revision:
  "valid_lease (stamped d r u e) \<Longrightarrow> lease_revision (stamped d r u e) = r"
  using valid_leaseD(4) [of "stamped d r u e"] by (auto simp: lease_revision_def jget_stamped as_safe_int_Some safe_pos_def)

lemma stamped_times:
  "valid_time u \<Longrightarrow> lease_time (stamped d r u e) ''updated_at'' = Some u"
  "valid_time e \<Longrightarrow> lease_time (stamped d r u e) ''expires_at'' = Some e"
  by (simp_all add: lease_time_iso jget_stamped)

text \<open>The leases that may take the place of the current one.\<close>

definition succeeds :: "lease option \<Rightarrow> lease \<Rightarrow> bool" where
  "succeeds current l \<longleftrightarrow> valid_lease l \<and>
     (case current of None \<Rightarrow> True | Some c \<Rightarrow> identity_kept c l \<and> lease_revision c < lease_revision l)"

lemma identity_stamped: "identity_kept c d \<Longrightarrow> identity_kept c (stamped d r u e)"
  by (simp add: identity_kept_def jget_stamped)

lemma next_lease_succeeds:
  assumes "next_lease current d wanted now ttl = Inr l"
  shows "succeeds current l" "actorFromLease l = actorFromLease d" "lease_revision l = actual_revision current + 1"
proof -
  from assms obtain ms where ms: "l = stamped d (actual_revision current + 1) ms (ms + ttl)" "valid_lease l"
    "case current of None \<Rightarrow> True | Some c \<Rightarrow> identity_kept c d" by (rule next_lease_Inr)
  show rev: "lease_revision l = actual_revision current + 1" "actorFromLease l = actorFromLease d"
    using ms stamped_revision by simp_all
  show "succeeds current l"
    using ms rev identity_stamped by (auto simp: succeeds_def actual_revision_def split: option.splits)
qed

section \<open>How leases evolve\<close>

definition follows :: "lease option result \<Rightarrow> lease option result \<Rightarrow> bool" where
  "follows a b \<longleftrightarrow>
     (case a of
        Inl e \<Rightarrow> b = Inl e
      | Inr None \<Rightarrow> True
      | Inr (Some l) \<Rightarrow>
          b = Inl StoreFileTooLargeError \<or> (\<exists>l'. b = Inr (Some l') \<and> (l' = l \<or> succeeds (Some l) l')))"

lemma follows_refl [simp]: "follows a a"
  by (simp add: follows_def split: sum.split option.split)

lemma succeeds_trans: "succeeds (Some a) b \<Longrightarrow> succeeds (Some b) c \<Longrightarrow> succeeds (Some a) c"
  by (auto simp: succeeds_def identity_kept_def)

lemma follows_trans: "follows a b \<Longrightarrow> follows b c \<Longrightarrow> follows a c"
  by (auto simp: follows_def split: sum.splits option.splits intro: succeeds_trans)

lemma follows_stored: "succeeds current l \<Longrightarrow> follows (Inr current) (stored l)"
  by (cases current) (auto simp: follows_def stored_def)

text \<open>Nothing happens to the leases; or each is followed by a later one of its actor.\<close>

definition same_leases :: "lease_store \<Rightarrow> store \<Rightarrow> store \<Rightarrow> bool" where
  "same_leases s a b \<longleftrightarrow> (tree a \<longrightarrow> tree b \<and> (\<forall>p. actor_file s p \<longrightarrow> readPath p b = readPath p a))"

definition leases_follow :: "lease_store \<Rightarrow> store \<Rightarrow> store \<Rightarrow> bool" where
  "leases_follow s a b \<longleftrightarrow>
     (tree a \<longrightarrow> tree b \<and> (\<forall>p. actor_file s p \<longrightarrow> follows (readPath p a) (readPath p b)))"

lemma same_preorder: "preorder_rel (same_leases s)"
  by (auto simp: preorder_rel_def same_leases_def reflp_def transp_def)

lemma follow_preorder: "preorder_rel (leases_follow s)"
  unfolding preorder_rel_def reflp_def transp_def leases_follow_def using follows_trans by simp blast

lemma same_follow: "same_leases s a b \<Longrightarrow> leases_follow s a b"
  by (simp add: same_leases_def leases_follow_def)

lemma same_leases_refl [simp]: "same_leases s a a"
  by (simp add: same_leases_def)

lemma leases_follow_refl [simp]: "leases_follow s a a"
  by (simp add: leases_follow_def)

lemma leases_follow_trans: "leases_follow s a b \<Longrightarrow> leases_follow s b c \<Longrightarrow> leases_follow s a c"
  using follow_preorder [of s] by (auto simp: preorder_rel_def dest: transpD)

lemma traced_same: "traced (same_leases s) m \<Longrightarrow> traced (leases_follow s) m"
  using same_follow by (auto simp: traced_def)

section \<open>The critical section\<close>

text \<open>Replacing the current lease of an actor by one that succeeds it.\<close>

lemma replace_follows:
  assumes "readPath p st = Inr current" "succeeds current l" "p = lease_path sha s (actorFromLease l)"
    "x \<in> set (fst (atomicReplace sha nonce p l st))"
  shows "leases_follow s st x"
  unfolding leases_follow_def
proof (intro impI conjI allI)
  have v: "valid_lease l" using assms(2) by (simp add: succeeds_def)
  assume st: "tree st"
  note rep = replace_lease [OF st v assms(3,4)]
  show "tree x" by (rule rep(1))
  fix q assume "actor_file s q"
  then show "follows (readPath q st) (readPath q x)"
    using rep(2) rep(3) [of q] follows_stored [OF assms(2)] assms(1) by (cases "q = p") auto
qed

lemma andThen_observe_states:
  "x \<in> set (fst (andThen (observe g) f st)) \<longleftrightarrow> (\<exists>v. g st = Inr v \<and> x \<in> set (fst (f v st)))"
  by (auto simp: andThen_def observe_def split: sum.split prod.split)

text \<open>What a decision must give: a lease of the actor whose file is held.\<close>

definition admissible :: "actor_key \<Rightarrow> (lease option \<Rightarrow> lease result) \<Rightarrow> bool" where
  "admissible a decide \<longleftrightarrow> (\<forall>c l. decide c = Inr l \<longrightarrow> succeeds c l \<and> actorFromLease l = a)"

lemma replace_current_result:
  assumes "admissible a decide" "tree st"
    "replace_current sha nonce (lease_path sha s a) decide st = (tr, r)"
  shows "r = Inr l \<Longrightarrow> (\<exists>current. readPath (lease_path sha s a) st = Inr current \<and> decide current = Inr l) \<and>
      readPath (lease_path sha s a) (last (st # tr)) = stored l"
    "r = Inl e \<Longrightarrow> readPath (lease_path sha s a) (last (st # tr)) = readPath (lease_path sha s a) st"
proof -
  let ?p = "lease_path sha s a"
  have eq: "andThen (observe (readPath ?p)) (\<lambda>current. andThen (observe (\<lambda>_. decide current)) (\<lambda>l.
      andThen (atomicReplace sha nonce ?p l) (\<lambda>_. return l))) st = (tr, r)"
    using assms(3) by (simp add: replace_current_def)
  show "(\<exists>current. readPath ?p st = Inr current \<and> decide current = Inr l) \<and> readPath ?p (last (st # tr)) = stored l"
    if r: "r = Inr l"
  proof -
    from eq [unfolded r] obtain current where c: "readPath ?p st = Inr current" "decide current = Inr l"
      "atomicReplace sha nonce ?p l st = (tr, Inr ())"
      by (auto simp: andThen_def observe_def return_def split: sum.splits prod.splits)
    then have "succeeds current l" "actorFromLease l = a" using assms(1) by (auto simp: admissible_def)
    then have "readPath ?p (last (st # tr)) = stored l"
      using replace_lease_result(1) [OF assms(2) _ _ c(3)] by (simp add: succeeds_def)
    with c show ?thesis by blast
  qed
  show "readPath ?p (last (st # tr)) = readPath ?p st" if r: "r = Inl e"
  proof (cases "\<exists>current l. readPath ?p st = Inr current \<and> decide current = Inr l")
    case True
    then obtain current l where c: "readPath ?p st = Inr current" "decide current = Inr l" by blast
    with eq r have "atomicReplace sha nonce ?p l st = (tr, Inl e)"
      by (auto simp: andThen_def observe_def return_def split: sum.splits prod.splits)
    moreover have "valid_lease l" "actorFromLease l = a" using assms(1) c(2) by (auto simp: admissible_def succeeds_def)
    ultimately show ?thesis using replace_lease_result(2) [OF assms(2)] by blast
  next
    case False
    with eq have "tr = []" by (auto simp: andThen_def observe_def split: sum.splits prod.splits)
    then show ?thesis by simp
  qed
qed

lemma replace_current_elsewhere:
  assumes "admissible a decide" "tree st"
    "replace_current sha nonce (lease_path sha s a) decide st = (tr, r)"
    "actor_file s q" "q \<noteq> lease_path sha s a"
  shows "readPath q (last (st # tr)) = readPath q st"
proof -
  let ?p = "lease_path sha s a"
  have each: "readPath q x = readPath q st" if x: "x \<in> set tr" for x
  proof -
    have "x \<in> set (fst (andThen (observe (readPath ?p)) (\<lambda>current. andThen (observe (\<lambda>_. decide current)) (\<lambda>l.
      andThen (atomicReplace sha nonce ?p l) (\<lambda>_. return l))) st))"
      using assms(3) x by (simp add: replace_current_def)
    then obtain current l where l: "decide current = Inr l"
      "x \<in> set (fst (andThen (atomicReplace sha nonce ?p l) (\<lambda>_. return l) st))"
      by (auto simp: andThen_observe_states)
    then have "valid_lease l" "?p = lease_path sha s (actorFromLease l)"
      using assms(1) by (auto simp: admissible_def succeeds_def)
    from replace_lease(3) [OF assms(2) this andThen_return_states [OF l(2)] assms(4)] assms(5)
    show ?thesis by simp
  qed
  show ?thesis using each by (cases "tr = []") simp_all
qed

end
