(* ===== verification/Active_Leases.thy ===== *)
theory Active_Leases
  imports Active_Store_Laws
begin

text \<open>
  The operations on leases: what a successful and a failed write leave, and that writes, updates and
  snapshots, wherever they stop, only ever let a lease be followed by a later one.
\<close>

section \<open>Requests\<close>

lemma assertUpdate_Inr:
  "assertUpdateDoesNotSetGeneratedFields u = Inr ps \<longleftrightarrow>
     u = JObj ps \<and> (\<forall>k\<in>set GENERATED_FIELDS. js k \<notin> set (map fst ps))"
  by (cases u) (auto simp: assertUpdateDoesNotSetGeneratedFields_def list_ex_iff)

lemma detached_update_Inr:
  assumes "detached_update u = Inr d"
  shows "valid_lease d"
    "\<exists>ps. u = JObj ps \<and> d = stamped (AList.update (js ''schema'') (JStr ACTIVE_LEASE_SCHEMA) ps) 1 0 1"
proof -
  obtain ps where ps: "assertUpdateDoesNotSetGeneratedFields u = Inr ps"
    using assms by (cases "assertUpdateDoesNotSetGeneratedFields u") (auto simp: detached_update_def)
  obtain t where t: "buildLease ps 1 0 1 = Inr t"
    using assms ps by (cases "buildLease ps 1 0 1") (auto simp: detached_update_def)
  obtain l where "validateActiveLease (JObj t) = Inr l"
    using assms ps t by (cases "validateActiveLease (JObj t)") (auto simp: detached_update_def)
  then have l: "validateActiveLease (JObj t) = Inr t" "valid_lease t" by (simp_all add: validate_valid)
  then have d: "valid_lease t" "d = t"
    using assms ps t cloneLease_valid [OF l(2)] by (simp_all add: detached_update_def)
  then show "valid_lease d" by simp
  show "\<exists>ps. u = JObj ps \<and> d = stamped (AList.update (js ''schema'') (JStr ACTIVE_LEASE_SCHEMA) ps) 1 0 1"
    using t ps unfolding d(2) buildLease_def stamp_Inr assertUpdate_Inr by blast
qed

lemma ttl_of_Inr: "ttl_of s x = Inr t \<longleftrightarrow> t = (case x of None \<Rightarrow> ls_defaultTtl s | Some n \<Rightarrow> n) \<and> safe_pos t"
  by (auto simp: ttl_of_def positiveTtl_def)

lemma expectedRevision_Inr: "expectedRevision x = Inr y \<Longrightarrow> y = x"
  by (auto simp: expectedRevision_def split: option.splits if_splits)

lemma write_request_Inr:
  assumes "write_request sha s update options = Inr (path, d, ttl, wanted)"
  shows "detached_update update = Inr d" "path = lease_path sha s (actorFromLease d)"
    "ttl_of s (wo_ttlMs options) = Inr ttl" "wanted = wo_expectedRevision options"
  using assms expectedRevision_Inr
  by (auto simp: write_request_def actorPath_Inr split: sum.splits)

lemma admissible_next:
  "a = actorFromLease d \<Longrightarrow> admissible a (\<lambda>current. next_lease current d wanted now ttl)"
  using next_lease_succeeds by (simp add: admissible_def)

lemma write_lease_split:
  "write_lease sha s others nonce update options st =
     (case write_request sha s update options of
        Inl e \<Rightarrow> ([], Inl e)
      | Inr (path, d, ttl, wanted) \<Rightarrow>
          (case replace_current sha nonce path (\<lambda>c. next_lease c d wanted (wo_now options) ttl) (others st) of
             (tr, r) \<Rightarrow> (others st # tr, r)))"
  by (simp add: write_lease_def andThen_def observe_def effect_def split: sum.split prod.split)

section \<open>The steps of an operation\<close>

lemma writeSnapshot_split:
  "writeSnapshot sha s others nonce v st =
     (case validateActiveLease v of
        Inl e \<Rightarrow> ([], Inl e)
      | Inr d \<Rightarrow>
          (case replace_current sha nonce (lease_path sha s (actorFromLease d)) (\<lambda>current.
             case assertCurrentIdentity current d of
               Inl e \<Rightarrow> Inl e
             | Inr _ \<Rightarrow> if lease_revision d \<le> actual_revision current then Inl ActiveLeaseRevisionConflictError
                        else Inr d) (others st) of
             (tr, r) \<Rightarrow> (others st # tr, r)))"
proof (cases "validateActiveLease v")
  case (Inr d)
  then have v: "valid_lease d" by (auto simp: validateActiveLease_Inr valid_lease_def)
  have "actorPath sha s (actorFromLease d) = Inr (lease_path sha s (actorFromLease d))"
    using valid_actor_key [OF v] by (simp add: actorPath_Inr)
  with Inr cloneLease_valid [OF v] show ?thesis
    by (simp add: writeSnapshot_def andThen_def observe_def effect_def split: prod.split)
qed (simp add: writeSnapshot_def andThen_def observe_def)

lemma admissible_snapshot:
  assumes "valid_lease d"
  shows "admissible (actorFromLease d) (\<lambda>current.
     case assertCurrentIdentity current d of
       Inl e \<Rightarrow> Inl e
     | Inr _ \<Rightarrow> if lease_revision d \<le> actual_revision current then Inl ActiveLeaseRevisionConflictError else Inr d)"
  unfolding admissible_def
proof (intro allI impI, goal_cases)
  case (1 c l)
  then have "l = d" "\<not> lease_revision d \<le> actual_revision c" "assertCurrentIdentity c d = Inr ()"
    by (auto split: sum.splits if_splits)
  then show ?case using assms by (auto simp: succeeds_def assertCurrentIdentity_Inr actual_revision_def split: option.splits)
qed

lemma decided_lease_succeeds:
  assumes "decided_lease actor current update now ttl = Inr l"
  shows "succeeds current l" "actorFromLease l = actor" "lease_revision l = actual_revision current + 1"
    "\<exists>d. detached_update update = Inr d \<and> next_lease current d None now ttl = Inr l"
proof -
  from assms obtain d where d: "detached_update update = Inr d" "actor = actorFromLease d"
    "next_lease current d None now ttl = Inr l"
    by (auto simp: decided_lease_def sameActor_eq split: sum.splits if_splits)
  then show "succeeds current l" "actorFromLease l = actor" "lease_revision l = actual_revision current + 1"
    "\<exists>d. detached_update update = Inr d \<and> next_lease current d None now ttl = Inr l"
    using next_lease_succeeds [OF d(3)] by auto
qed

lemma traced_compensate [traced_intros]:
  assumes "preorder_rel R" "traced R m" "\<And>h e. onWriteFailure = Some h \<Longrightarrow> traced R (h e)"
  shows "traced R (compensate onWriteFailure m)"
  unfolding compensate_def using assms
  by (cases onWriteFailure) (auto intro!: traced_intros)

lemma compensate_states:
  assumes "y \<in> set (fst (compensate handler m st))" "m st = (tr, r)"
  shows "y \<in> set tr \<or> (\<exists>h e. handler = Some h \<and> r = Inl e \<and> y \<in> set (fst (h e (last (st # tr)))))"
proof (cases r)
  case (Inl e)
  show ?thesis
  proof (cases handler)
    case (Some h)
    obtain tr' r' where "h e (last (st # tr)) = (tr', r')" by (rule prod.exhaust)
    with assms Inl Some show ?thesis
      by (cases r') (auto simp: compensate_def andThen_def attempt_def raise_def)
  qed (use assms Inl in \<open>auto simp: compensate_def andThen_def attempt_def raise_def\<close>)
qed (use assms in \<open>auto simp: compensate_def andThen_def attempt_def return_def\<close>)

text \<open>The decision and the callbacks of an update leave the leases alone.\<close>

definition quiet_update :: "lease_store \<Rightarrow> (lease option \<Rightarrow> lease_decision action) \<Rightarrow> update_options \<Rightarrow> bool" where
  "quiet_update s decide options \<longleftrightarrow>
     (\<forall>c. traced (same_leases s) (decide c)) \<and>
     (\<forall>h e. uo_onWriteFailure options = Some h \<longrightarrow> traced (same_leases s) (h e)) \<and>
     (\<forall>h l. uo_afterCommit options = Some h \<longrightarrow> traced (same_leases s) (h l))"

lemma current_of_actor_Inr: "current_of_actor a p st = Inr c \<Longrightarrow> readPath p st = Inr c"
  by (auto simp: current_of_actor_def split: sum.splits option.splits if_splits)

lemma effect_then_states:
  "x \<in> set (fst (andThen (effect f) m st)) \<longleftrightarrow> x = f st \<or> x \<in> set (fst (m () (f st)))"
  by (auto simp: andThen_def effect_def split: prod.split)

lemma trace_end: "preorder_rel R \<Longrightarrow> traced R m \<Longrightarrow> m st = (tr, r) \<Longrightarrow> R st (last (st # tr))"
  using traced_final [of R m st] by (simp add: final_def)

section \<open>What every operation keeps\<close>

text \<open>
  A relation between the stores before and after, kept whenever the leases are left alone and
  whenever a lease is replaced by a good one that succeeds it: it is kept by every operation.
\<close>

locale lease_relation =
  fixes s :: lease_store
    and R :: "store \<Rightarrow> store \<Rightarrow> bool"
    and good :: "lease \<Rightarrow> bool"
  assumes preorder: "preorder_rel R"
    and off_tree: "\<not> tree a \<Longrightarrow> R a b"
    and same: "same_leases s a b \<Longrightarrow> R a b"
    and replace: "readPath p st = Inr current \<Longrightarrow> succeeds current l \<Longrightarrow> good l \<Longrightarrow>
      p = lease_path sha s (actorFromLease l) \<Longrightarrow> x \<in> set (fst (atomicReplace sha nonce p l st)) \<Longrightarrow> R st x"
begin

lemma kept_refl [simp]: "R a a"
  using preorder by (simp add: preorder_rel_def reflp_def)

lemma kept_trans: "R a b \<Longrightarrow> R b c \<Longrightarrow> R a c"
  using preorder by (auto simp: preorder_rel_def dest: transpD)

lemma quiet_traced: "traced (same_leases s) m \<Longrightarrow> traced R m"
  using same by (auto simp: traced_def)

lemma replace_current_traced:
  assumes "admissible a decide" "\<And>c l. decide c = Inr l \<Longrightarrow> good l"
  shows "traced R (replace_current sha nonce (lease_path sha s a) decide)"
  unfolding traced_def replace_current_def
proof (intro allI ballI)
  fix st x
  let ?p = "lease_path sha s a"
  assume "x \<in> set (fst (andThen (observe (readPath ?p)) (\<lambda>current. andThen (observe (\<lambda>_. decide current)) (\<lambda>l.
    andThen (atomicReplace sha nonce ?p l) (\<lambda>_. return l))) st))"
  then obtain current l where c: "readPath ?p st = Inr current" "decide current = Inr l"
    "x \<in> set (fst (andThen (atomicReplace sha nonce ?p l) (\<lambda>_. return l) st))"
    by (auto simp: andThen_observe_states)
  from c(2) assms have "succeeds current l" "actorFromLease l = a" "good l" by (auto simp: admissible_def)
  with replace [OF c(1) _ _ _ andThen_return_states [OF c(3)]] show "R st x" by simp
qed

lemma write_traced:
  assumes "\<And>st. R st (others st)"
    "\<And>c l ttl d w. safe_pos ttl \<Longrightarrow> next_lease c d w (wo_now options) ttl = Inr l \<Longrightarrow> good l"
  shows "traced R (write_lease sha s others nonce update options)"
  unfolding traced_def
proof (intro allI ballI)
  fix st x assume x: "x \<in> set (fst (write_lease sha s others nonce update options st))"
  then obtain path d ttl wanted where req: "write_request sha s update options = Inr (path, d, ttl, wanted)"
    by (cases "write_request sha s update options") (auto simp: write_lease_split)
  let ?d = "\<lambda>c. next_lease c d wanted (wo_now options) ttl"
  have ttl: "safe_pos ttl" using write_request_Inr(3) [OF req] by (auto simp: ttl_of_Inr)
  have "traced R (replace_current sha nonce path ?d)"
    unfolding write_request_Inr(2) [OF req]
    by (rule replace_current_traced [OF admissible_next [OF refl] assms(2) [OF ttl]])
  moreover have "x = others st \<or> x \<in> set (fst (replace_current sha nonce path ?d (others st)))"
    using x req by (auto simp: write_lease_split split: prod.splits)
  ultimately have "x = others st \<or> R (others st) x" by (auto dest: tracedD)
  then show "R st x" using assms(1) kept_trans by blast
qed

lemma snapshot_traced:
  assumes "\<And>st. R st (others st)" "\<And>d. validateActiveLease v = Inr d \<Longrightarrow> good d"
  shows "traced R (writeSnapshot sha s others nonce v)"
  unfolding traced_def
proof (intro allI ballI)
  fix st x assume x: "x \<in> set (fst (writeSnapshot sha s others nonce v st))"
  then obtain d where d: "validateActiveLease v = Inr d"
    by (cases "validateActiveLease v") (auto simp: writeSnapshot_split)
  then have v: "valid_lease d" by (auto simp: validateActiveLease_Inr valid_lease_def)
  let ?d = "\<lambda>current. case assertCurrentIdentity current d of Inl e \<Rightarrow> Inl e
     | Inr _ \<Rightarrow> if lease_revision d \<le> actual_revision current then Inl ActiveLeaseRevisionConflictError else Inr d"
  have "traced R (replace_current sha nonce (lease_path sha s (actorFromLease d)) ?d)"
    by (rule replace_current_traced [OF admissible_snapshot [OF v]])
      (use assms(2) [OF d] in \<open>auto split: sum.splits if_splits\<close>)
  from tracedD [OF this] have "x = others st \<or> R (others st) x"
    using x d by (cases "replace_current sha nonce (lease_path sha s (actorFromLease d)) ?d (others st)")
      (auto simp: writeSnapshot_split)
  then show "R st x" using assms(1) kept_trans by blast
qed

lemma commit_traced:
  assumes "quiet_update s decide options" "readPath p st = Inr current" "p = lease_path sha s actor"
    "\<And>c l ttl d w. safe_pos ttl \<Longrightarrow> next_lease c d w (uo_now options) ttl = Inr l \<Longrightarrow> good l" "safe_pos ttl"
    "x \<in> set (fst (commit_decision sha nonce p actor current update ttl options st))"
  shows "R st x"
proof -
  let ?commit_it = "andThen (observe (\<lambda>_. decided_lease actor current update (uo_now options) ttl)) (\<lambda>l.
        andThen (atomicReplace sha nonce p l) (\<lambda>_. return l))"
  have commit: "R st y" if "y \<in> set (fst (?commit_it st))" for y
  proof -
    from that obtain l where l: "decided_lease actor current update (uo_now options) ttl = Inr l"
      "y \<in> set (fst (andThen (atomicReplace sha nonce p l) (\<lambda>_. return l) st))"
      by (auto simp: andThen_observe_states)
    have "good l" using decided_lease_succeeds(4) [OF l(1)] assms(4,5) by blast
    from replace [OF assms(2) decided_lease_succeeds(1) [OF l(1)] this _ andThen_return_states [OF l(2)]]
    show ?thesis using decided_lease_succeeds(2) [OF l(1)] assms(3) by simp
  qed
  have after: "R y x" if "x \<in> set (fst (m y))" "traced (same_leases s) m" for m :: "unit action" and y
    by (rule tracedD [OF quiet_traced [OF that(2)] that(1)])
  obtain tr r where tr: "?commit_it st = (tr, r)" by (rule prod.exhaust)
  have step: "R st y" if "y \<in> set tr" for y by (rule commit) (simp add: tr that)
  then have last: "R st (last (st # tr))" by (cases "tr = []") simp_all
  have quiet: "traced (same_leases s) (h e)" if "uo_onWriteFailure options = Some h" for h e
    using assms(1) that by (auto simp: quiet_update_def)
  have comp: "R st y" if y: "y \<in> set (fst (compensate (uo_onWriteFailure options) ?commit_it st))" for y
  proof (cases "y \<in> set tr")
    case True
    then show ?thesis by (rule step)
  next
    case False
    with compensate_states [OF y tr] obtain e h where
      h: "uo_onWriteFailure options = Some h" "y \<in> set (fst (h e (last (st # tr))))" by blast
    from kept_trans [OF last tracedD [OF quiet_traced [OF quiet [OF h(1)]] h(2)]] show ?thesis .
  qed
  from andThen_states [OF assms(6) [unfolded commit_decision_def]] show ?thesis
  proof
    assume "\<exists>tr v. compensate (uo_onWriteFailure options) ?commit_it st = (tr, Inr v) \<and>
      x \<in> set (fst (andThen (case uo_afterCommit options of None \<Rightarrow> return () | Some after \<Rightarrow> after v)
        (\<lambda>_. return (Committed v)) (last (st # tr))))"
    then obtain tr v where t: "compensate (uo_onWriteFailure options) ?commit_it st = (tr, Inr v)"
      and "x \<in> set (fst (andThen (case uo_afterCommit options of None \<Rightarrow> return () | Some after \<Rightarrow> after v)
        (\<lambda>_. return (Committed v)) (last (st # tr))))" by (elim exE conjE)
    from andThen_return_states [OF this(2)]
    have x: "x \<in> set (fst ((case uo_afterCommit options of None \<Rightarrow> return () | Some after \<Rightarrow> after v) (last (st # tr))))" .
    have "R st (last (st # tr))" using comp t(1) by (cases "tr = []") auto
    moreover have "R (last (st # tr)) x"
      using x after assms(1) by (cases "uo_afterCommit options") (auto simp: return_def quiet_update_def)
    ultimately show ?thesis using kept_trans by blast
  qed (rule comp)
qed

lemma update_traced:
  assumes "\<And>st. R st (others st)" "quiet_update s decide options"
    "\<And>c l ttl d w. safe_pos ttl \<Longrightarrow> next_lease c d w (uo_now options) ttl = Inr l \<Longrightarrow> good l"
  shows "traced (R) (update_lease sha s others nonce actor decide options)"
  unfolding traced_def
proof (intro allI ballI)
  fix st x
  let ?st = "others st"
  let ?commit = "\<lambda>p current ttl d. case d of
       Ignore reason \<Rightarrow> return (Ignored reason)
     | Write update \<Rightarrow> commit_decision sha nonce p actor current update ttl options"
  assume "x \<in> set (fst (update_lease sha s others nonce actor decide options st))"
  then obtain ttl where ttl: "safe_pos ttl" and x: "x = ?st \<or> (\<exists>current. current_of_actor actor (lease_path sha s actor) ?st = Inr current \<and>
      x \<in> set (fst (andThen (decide current) (?commit (lease_path sha s actor) current ttl) ?st)))"
    unfolding update_lease_def andThen_observe_states effect_then_states actorPath_Inr ttl_of_Inr by blast
  have quiet: "traced (same_leases s) (decide c)" for c using assms(2) by (simp add: quiet_update_def)
  have "R ?st x" if tree: "tree ?st"
    using x
  proof (elim disjE exE conjE)
    fix current
    assume c: "current_of_actor actor (lease_path sha s actor) ?st = Inr current"
      "x \<in> set (fst (andThen (decide current) (?commit (lease_path sha s actor) current ttl) ?st))"
    from andThen_states [OF c(2)] show ?thesis
    proof
      assume "x \<in> set (fst (decide current ?st))"
      from tracedD [OF quiet_traced [OF quiet] this] show ?thesis .
    next
      assume "\<exists>tr v. decide current ?st = (tr, Inr v) \<and>
        x \<in> set (fst (?commit (lease_path sha s actor) current ttl v (last (?st # tr))))"
      then obtain tr v where d: "decide current ?st = (tr, Inr v)"
        "x \<in> set (fst (?commit (lease_path sha s actor) current ttl v (last (?st # tr))))" by blast
      have still: "same_leases s ?st (last (?st # tr))" by (rule trace_end [OF same_preorder quiet d(1)])
      have "readPath (lease_path sha s actor) (last (?st # tr)) = Inr current"
        using still tree current_of_actor_Inr [OF c(1)] lease_path_actor_file by (simp add: same_leases_def)
      from commit_traced [OF assms(2) this refl assms(3) ttl] d(2)
      have "R (last (?st # tr)) x" by (cases v) (auto simp: return_def)
      then show ?thesis using kept_trans [OF same [OF still]] by blast
    qed
  qed simp
  then have "R ?st x" using off_tree by blast
  then show "R st x" using assms(1) kept_trans by blast
qed



end

text \<open>First instance: a lease is only followed by later ones.\<close>

interpretation follow: lease_relation s "leases_follow s" "\<lambda>_. True" for s
proof
  show "leases_follow s a b" if "\<not> tree a" for a b using that by (simp add: leases_follow_def)
qed (simp_all add: follow_preorder same_follow replace_follows)

section \<open>Results\<close>

text \<open>A successful write, field by field.\<close>

lemma write_lease_Inr:
  assumes "tree (others st)" "write_lease sha s others nonce update options st = (tr, Inr l)"
  obtains d ttl current where "detached_update update = Inr d" "ttl_of s (wo_ttlMs options) = Inr ttl"
    "readPath (lease_path sha s (actorFromLease d)) (others st) = Inr current"
    "next_lease current d (wo_expectedRevision options) (wo_now options) ttl = Inr l"
    "readPath (lease_path sha s (actorFromLease d)) (last (st # tr)) = stored l"
proof -
  obtain path d ttl wanted where req: "write_request sha s update options = Inr (path, d, ttl, wanted)"
    using assms(2) by (cases "write_request sha s update options") (auto simp: write_lease_split)
  note r = write_request_Inr [OF req]
  obtain tr' where tr: "tr = others st # tr'"
    "replace_current sha nonce (lease_path sha s (actorFromLease d))
       (\<lambda>c. next_lease c d (wo_expectedRevision options) (wo_now options) ttl) (others st) = (tr', Inr l)"
    using assms(2) req r by (auto simp: write_lease_split split: prod.splits)
  from replace_current_result(1) [OF admissible_next [OF refl] assms(1) tr(2) refl]
  show thesis using that [OF r(1,3)] tr(1) by auto
qed

lemma write_lease_Inl:
  assumes "tree (others st)" "tree st" "write_lease sha s others nonce update options st = (tr, Inl e)"
    "actor_file s q"
  shows "tr = [] \<or> (tree (last (st # tr)) \<and> readPath q (last (st # tr)) = readPath q (others st))"
proof (cases "write_request sha s update options")
  case (Inl x)
  with assms(3) show ?thesis by (simp add: write_lease_split)
next
  case (Inr req)
  obtain path d ttl wanted where req: "write_request sha s update options = Inr (path, d, ttl, wanted)"
    using Inr by (cases req) auto
  let ?d = "\<lambda>c. next_lease c d wanted (wo_now options) ttl"
  note r = write_request_Inr [OF req]
  note adm = admissible_next [OF refl, of d wanted "wo_now options" ttl]
  obtain tr' where tr: "tr = others st # tr'"
    "replace_current sha nonce (lease_path sha s (actorFromLease d)) ?d (others st) = (tr', Inl e)"
    using assms(3) req r by (auto simp: write_lease_split split: prod.splits)
  have "leases_follow s (others st) (last (others st # tr'))"
    by (rule trace_end [OF follow_preorder follow.replace_current_traced [OF adm TrueI] tr(2)])
  then have t: "tree (last (st # tr))" using assms(1) by (simp add: leases_follow_def tr(1))
  have "readPath q (last (others st # tr')) = readPath q (others st)"
  proof (cases "q = lease_path sha s (actorFromLease d)")
    case True
    then show ?thesis using replace_current_result(2) [OF adm assms(1) tr(2) refl] by simp
  next
    case False
    show ?thesis using replace_current_elsewhere [OF adm assms(1) tr(2) assms(4) False] .
  qed
  with t tr(1) show ?thesis by simp
qed

end
