(* ===== verification/Active_Reaping.thy ===== *)
theory Active_Reaping
  imports Active_Leases
begin

text \<open>
  Reaping, and why it is safe: only tombstones a day past their expiry are removed, so that a lease
  written now keeps rejecting delayed writers for a day.
\<close>

section \<open>Removing a file\<close>

lemma unlink_read:
  assumes "tree st" "length q = length p" "q \<noteq> p"
  shows "readPath p (unlink q st) = readPath p st"
proof (cases "usable_path p")
  case True
  have "take k p \<noteq> q" if "k < length p" for k
    using that assms(2) by (metis length_take min.strict_order_iff min.commute nat_neq_iff)
  then have "blocked (unlink q st) p \<longleftrightarrow> blocked st p"
    by (intro blocked_cong) (simp add: unlink_def)
  moreover have "unlink q st p = st p" using assms(3) by (simp add: unlink_def)
  ultimately have "readUtf8File p MAX_ACTIVE_LEASE_BYTES (unlink q st) = readUtf8File p MAX_ACTIVE_LEASE_BYTES st"
    by (rule readUtf8File_cong [OF assms(1) tree_unlink [OF assms(1)] _ _ True lease_bound_safe])
  then show ?thesis by (simp add: readPath_def)
qed (simp add: readPath_def read_unusable)

lemma unlink_reads_none:
  assumes "tree st" "readPath p st = Inr (Some l)"
  shows "readPath p (unlink p st) = Inr None"
proof -
  have u: "usable_path p" using assms(2) by (cases "usable_path p") (auto simp: readPath_def read_unusable)
  have nb: "\<not> blocked st p" using assms u by (auto simp: readPath_def readUtf8File_tree)
  have plain: "st p \<noteq> Some Directory" using assms u nb by (auto simp: readPath_def readUtf8File_tree)
  have "take k p \<noteq> p" if "k < length p" for k
    using that by (metis length_take min.strict_order_iff min.commute nat_neq_iff)
  then have "blocked (unlink p st) p \<longleftrightarrow> blocked st p" by (intro blocked_cong) (simp add: unlink_def)
  then show ?thesis
    using u nb plain readUtf8File_tree [OF tree_unlink [OF assms(1)] u lease_bound_safe, of p]
    by (simp add: readPath_def unlink_def)
qed

section \<open>The effects of reaping\<close>

lemma reapable_at_Some:
  "reapable_at p cutoff st = Inr (Some l) \<longleftrightarrow> readPath p st = Inr (Some l) \<and> isReapable l cutoff"
  by (auto simp: reapable_at_def map_sum_Inr_iff split: option.splits)

text \<open>Whatever the relation, it holds along a reaping when it holds for the removal of each tombstone.\<close>

definition removes_in :: "(store \<Rightarrow> store \<Rightarrow> bool) \<Rightarrow> int \<Rightarrow> store_path \<Rightarrow> bool" where
  "removes_in R cutoff p \<longleftrightarrow>
     (\<forall>st l. readPath p st = Inr (Some l) \<and> isReapable l cutoff \<longrightarrow> R st (unlink p st))"

lemma traced_guarded_effect:
  assumes "\<And>st v. g st = Inr (Some v) \<Longrightarrow> R st (f st)"
  shows "traced R (andThen (observe g) (\<lambda>c. if c = None then return a else andThen (effect f) (\<lambda>_. return b)))"
  unfolding traced_def
proof (intro allI ballI)
  fix st x
  assume "x \<in> set (fst (andThen (observe g) (\<lambda>c. if c = None then return a else andThen (effect f) (\<lambda>_. return b)) st))"
  then obtain c where c: "g st = Inr (Some c)" "x = f st"
    by (auto simp: andThen_observe_states return_def effect_then_states split: if_splits)
  then show "R st x" using assms by simp
qed

lemma traced_reap_file:
  assumes "preorder_rel R" "\<And>st. R st (others st)" "removes_in R cutoff (d @ [name])"
  shows "traced R (reap_file sha others cutoff d name)"
  unfolding reap_file_def
  by (intro traced_intros traced_effect traced_guarded_effect assms(1,2))
    (use assms(3) in \<open>auto simp: removes_in_def reapable_at_Some\<close>)

lemma traced_sum_actions [traced_intros]:
  "preorder_rel R \<Longrightarrow> (\<And>x. traced R (f x)) \<Longrightarrow> traced R (sum_actions f xs)"
  by (induction xs) (simp_all add: traced_intros)

lemma traced_reap:
  assumes "preorder_rel R" "\<And>st. R st (others st)" "timeMillis now = Inr ms"
    "\<And>provider name. removes_in R (ms - REAP_IDLE_AFTER_MS) (ls_directory s @ [provider, name])"
  shows "traced R (reapExpiredIdle sha entries s others now)"
proof -
  have each: "traced R (reap_file sha others (ms - REAP_IDLE_AFTER_MS) (ls_directory s @ [provider]) name)" for provider name
    using assms(4) [of provider name] by (intro traced_reap_file assms(1,2)) simp
  show ?thesis
    unfolding reapExpiredIdle_def traced_def
  proof (intro allI ballI, goal_cases)
    case (1 st x)
    let ?m = "\<lambda>ms. andThen (observe (listProviderDirectories entries s)) (\<lambda>providers.
       sum_actions (\<lambda>provider.
         andThen (observe (actor_files entries (ls_directory s @ [provider]))) (\<lambda>names.
           sum_actions (reap_file sha others (ms - REAP_IDLE_AFTER_MS) (ls_directory s @ [provider])) names))
         providers)"
    have "traced R (?m ms)" by (intro traced_intros each assms(1))
    moreover have "x \<in> set (fst (?m ms st))"
      using 1 assms(3) unfolding andThen_observe_states [where g = "\<lambda>_. timeMillis now"] by auto
    ultimately show ?case by (rule tracedD)
  qed
qed

section \<open>Only tombstones are removed\<close>

text \<open>Nothing changes but that reapable leases disappear.\<close>

definition only_reaps :: "lease_store \<Rightarrow> int \<Rightarrow> store \<Rightarrow> store \<Rightarrow> bool" where
  "only_reaps s cutoff a b \<longleftrightarrow> (tree a \<longrightarrow> tree b \<and>
     (\<forall>p. length p = length (ls_directory s) + 2 \<longrightarrow>
        readPath p b = readPath p a \<or>
        (\<exists>l. readPath p a = Inr (Some l) \<and> isReapable l cutoff \<and> readPath p b = Inr None)))"

lemma only_reaps_preorder: "preorder_rel (only_reaps s cutoff)"
  unfolding preorder_rel_def
proof
  show "transp (only_reaps s cutoff)"
  proof (rule transpI)
    fix a b c
    assume ab: "only_reaps s cutoff a b" and bc: "only_reaps s cutoff b c"
    show "only_reaps s cutoff a c"
      unfolding only_reaps_def
    proof (intro impI conjI allI)
      assume a: "tree a"
      with ab have b: "tree b" by (simp add: only_reaps_def)
      with bc show "tree c" by (simp add: only_reaps_def)
      fix p :: store_path
      assume p: "length p = length (ls_directory s) + 2"
      from ab a p have 1: "readPath p b = readPath p a \<or>
          (\<exists>l. readPath p a = Inr (Some l) \<and> isReapable l cutoff \<and> readPath p b = Inr None)" by (simp add: only_reaps_def)
      from bc b p have 2: "readPath p c = readPath p b \<or>
          (\<exists>l. readPath p b = Inr (Some l) \<and> isReapable l cutoff \<and> readPath p c = Inr None)" by (simp add: only_reaps_def)
      from 1 2 show "readPath p c = readPath p a \<or>
          (\<exists>l. readPath p a = Inr (Some l) \<and> isReapable l cutoff \<and> readPath p c = Inr None)" by auto
    qed
  qed
qed (simp add: reflp_def only_reaps_def)

lemma removes_only_reaps: "removes_in (only_reaps s cutoff) cutoff (ls_directory s @ [provider, name])"
  unfolding removes_in_def only_reaps_def
proof (intro allI impI conjI, goal_cases)
  case (1 st l)
  then show ?case by (simp add: tree_unlink)
next
  case (2 st l p)
  then show ?case
    using unlink_read [of st "ls_directory s @ [provider, name]" p] unlink_reads_none [of st p l]
    by (cases "p = ls_directory s @ [provider, name]") auto
qed

section \<open>Runs\<close>

text \<open>
  A lease that is known to be there until an instant: its file holds it or a later one of the actor
  whose expiry is past the instant, or one that has grown too large to be read.
\<close>

definition fenced :: "int \<Rightarrow> int \<Rightarrow> jsval \<Rightarrow> lease option result \<Rightarrow> bool" where
  "fenced until revision i v \<longleftrightarrow>
     (case v of
        Inl e \<Rightarrow> True
      | Inr None \<Rightarrow> False
      | Inr (Some l) \<Rightarrow> revision \<le> lease_revision l \<and> jget l ''lease_id'' = i \<and>
          (\<exists>e. lease_time l ''expires_at'' = Some e \<and> until < e))"

definition keeps_fence :: "lease_store \<Rightarrow> int \<Rightarrow> store \<Rightarrow> store \<Rightarrow> bool" where
  "keeps_fence s until a b \<longleftrightarrow>
     (tree a \<longrightarrow> tree b \<and>
       (\<forall>p r i. actor_file s p \<and> fenced until r i (readPath p a) \<longrightarrow> fenced until r i (readPath p b)))"

lemma fence_preorder: "preorder_rel (keeps_fence s until)"
  by (auto simp: preorder_rel_def reflp_def transp_def keeps_fence_def)

lemma same_fence: "same_leases s a b \<Longrightarrow> keeps_fence s until a b"
  by (simp add: same_leases_def keeps_fence_def)

lemma actor_file_length: "actor_file s p \<Longrightarrow> length p = length (ls_directory s) + 2"
  by (auto simp: actor_file_def)

lemma removes_fence:
  assumes "cutoff \<le> until"
  shows "removes_in (keeps_fence s until) cutoff (ls_directory s @ [provider, name])"
  unfolding removes_in_def keeps_fence_def
proof (intro allI impI conjI, goal_cases)
  case (1 st l)
  then show ?case by (simp add: tree_unlink)
next
  case (2 st l p r i)
  show ?case
  proof (cases "p = ls_directory s @ [provider, name]")
    case True
    with 2 assms show ?thesis by (auto simp: fenced_def isReapable_def)
  next
    case False
    moreover have "length p = length (ls_directory s @ [provider, name])" using 2 actor_file_length by simp
    ultimately show ?thesis using 2 unlink_read [of st "ls_directory s @ [provider, name]" p] by simp
  qed
qed

lemma fenced_stored:
  assumes "succeeds current l" "lease_time l ''expires_at'' = Some e" "until < e" "fenced until r i (Inr current)"
  shows "fenced until r i (stored l)"
  using assms by (auto simp: fenced_def stored_def succeeds_def identity_kept_def split: option.splits)

lemma replace_fence:
  assumes "readPath p st = Inr current" "succeeds current l" "p = lease_path sha s (actorFromLease l)"
    "lease_time l ''expires_at'' = Some e" "until < e"
    "x \<in> set (fst (atomicReplace sha nonce p l st))"
  shows "keeps_fence s until st x"
  unfolding keeps_fence_def
proof (intro impI conjI allI)
  have v: "valid_lease l" using assms(2) by (simp add: succeeds_def)
  assume st: "tree st"
  note rep = replace_lease [OF st v assms(3,6)]
  show "tree x" by (rule rep(1))
  fix q r i assume q: "actor_file s q \<and> fenced until r i (readPath q st)"
  show "fenced until r i (readPath q x)"
  proof (cases "q = p")
    case True
    then show ?thesis using rep(2) fenced_stored [OF assms(2,4,5)] q assms(1) by auto
  qed (use rep(3) q in auto)
qed

text \<open>Second instance: leases that expire after the instant keep every fence.\<close>

definition outlives :: "int \<Rightarrow> lease \<Rightarrow> bool" where
  "outlives until l \<longleftrightarrow> (\<exists>e. lease_time l ''expires_at'' = Some e \<and> until < e)"

interpretation fence: lease_relation s "keeps_fence s until" "outlives until" for s until
proof
  show "keeps_fence s until a b" if "\<not> tree a" for a b using that by (simp add: keeps_fence_def)
  show "keeps_fence s until st x" if "readPath p st = Inr current" "succeeds current l" "outlives until l"
    "p = lease_path sha s (actorFromLease l)" "x \<in> set (fst (atomicReplace sha nonce p l st))"
    for p st current l sha x nonce
    using that(3) replace_fence [OF that(1,2,4) _ _ that(5)] by (auto simp: outlives_def)
qed (simp_all add: fence_preorder same_fence)

lemma next_lease_outlives:
  assumes "next_lease c d w now ttl = Inr l" "timeMillis now = Inr ms" "until \<le> ms" "safe_pos ttl"
  shows "outlives until l"
proof -
  obtain u where "timeMillis now = Inr u" "valid_time (u + ttl)" "l = stamped d (actual_revision c + 1) u (u + ttl)"
    using assms(1) by (rule next_lease_Inr)
  then show ?thesis using assms(2-4) stamped_times(2) [of "u + ttl"] by (auto simp: outlives_def safe_pos_def)
qed

section \<open>Delayed writers\<close>

text \<open>
  What can happen from an instant on, for as long as a tombstone of that instant must stay: any
  operation at any time since, stopped anywhere, and reaping during the day that follows.
\<close>

inductive lease_run ::
  "(byte list \<Rightarrow> byte list) \<Rightarrow> lease_store \<Rightarrow> int \<Rightarrow> store \<Rightarrow> store \<Rightarrow> bool"
  for sha s until where
  start: "lease_run sha s until a a"
| wrote: "lease_run sha s until a b \<Longrightarrow> timeMillis (wo_now options) = Inr ms \<Longrightarrow> until \<le> ms \<Longrightarrow>
    x \<in> set (fst (write_lease sha s id nonce update options b)) \<Longrightarrow> lease_run sha s until a x"
| updated: "lease_run sha s until a b \<Longrightarrow> timeMillis (uo_now uoptions) = Inr ms \<Longrightarrow> until \<le> ms \<Longrightarrow>
    quiet_update s decide uoptions \<Longrightarrow>
    x \<in> set (fst (update_lease sha s id nonce actor decide uoptions b)) \<Longrightarrow> lease_run sha s until a x"
| snapshotted: "lease_run sha s until a b \<Longrightarrow> outlives until d \<Longrightarrow>
    x \<in> set (fst (writeSnapshot sha s id nonce (JObj d) b)) \<Longrightarrow> lease_run sha s until a x"
| reaped: "lease_run sha s until a b \<Longrightarrow> timeMillis now = Inr ms \<Longrightarrow> ms \<le> until + REAP_IDLE_AFTER_MS \<Longrightarrow>
    (\<And>st. lease_run sha s until st (others st)) \<Longrightarrow>
    x \<in> set (fst (reapExpiredIdle sha entries s others now b)) \<Longrightarrow> lease_run sha s until a x"
| outside: "lease_run sha s until a b \<Longrightarrow> same_leases s b x \<Longrightarrow> lease_run sha s until a x"

inductive_cases lease_runE: "lease_run sha s until a b"

lemma lease_run_fence: "lease_run sha s until a b \<Longrightarrow> keeps_fence s until a b"
proof (induction rule: lease_run.induct)
  case (start a)
  show ?case by (rule fence.kept_refl)
next
  case (wrote a b options ms x nonce update)
  have "traced (keeps_fence s until) (write_lease sha s id nonce update options)"
    by (rule fence.write_traced) (use wrote next_lease_outlives in simp_all)
  from fence.kept_trans [OF wrote.IH tracedD [OF this wrote.hyps(4)]] show ?case .
next
  case (updated a b uoptions ms decide x nonce actor)
  have "traced (keeps_fence s until) (update_lease sha s id nonce actor decide uoptions)"
    by (rule fence.update_traced) (use updated next_lease_outlives in simp_all)
  from fence.kept_trans [OF updated.IH tracedD [OF this updated.hyps(5)]] show ?case .
next
  case (snapshotted a b d x nonce)
  have "traced (keeps_fence s until) (writeSnapshot sha s id nonce (JObj d))"
    by (rule fence.snapshot_traced) (use snapshotted in \<open>auto simp: validate_valid\<close>)
  from fence.kept_trans [OF snapshotted.IH tracedD [OF this snapshotted.hyps(3)]] show ?case .
next
  case (reaped a b now ms others x entries)
  have "traced (keeps_fence s until) (reapExpiredIdle sha entries s others now)"
    using reaped by (intro traced_reap [OF fence_preorder _ reaped.hyps(2)] removes_fence) simp_all
  from fence.kept_trans [OF reaped.IH(1) tracedD [OF this reaped.hyps(5)]] show ?case .
next
  case (outside a b x)
  from fence.kept_trans [OF outside.IH same_fence [OF outside.hyps(2)]] show ?case .
qed

end
