(* ===== verification/Active_Writes.thy ===== *)
theory Active_Writes
  imports Active_Reaping Text_Bounds
begin

text \<open>
  The properties of the lease store: what a write does, that a lease never goes back, that delayed
  writers are refused for a day, and that reaping removes tombstones only.
\<close>

section \<open>Success\<close>

text \<open>A file that can be read can be replaced.\<close>

lemma readPath_usable:
  assumes "tree st" "readPath p st = Inr current"
  shows "usable_path p" "\<not> blocked st p" "st p \<noteq> Some Directory"
proof -
  show u: "usable_path p" using assms(2) by (cases "usable_path p") (auto simp: readPath_def read_unusable)
  show b: "\<not> blocked st p" using assms u by (auto simp: readPath_def readUtf8File_tree)
  show "st p \<noteq> Some Directory" using assms u b by (auto simp: readPath_def readUtf8File_tree)
qed

lemma replace_lease_succeeds:
  assumes "tree st" "readPath p st = Inr current" "p = lease_path sha s (actorFromLease l)" "valid_lease l"
    "st (lease_temporary sha nonce s (actorFromLease l)) = None"
  shows "snd (atomicReplace sha nonce p l st) = Inr ()"
proof -
  note u = readPath_usable [OF assms(1,2)]
  let ?temp = "lease_temporary sha nonce s (actorFromLease l)"
  have sib: "sibling ?temp p" using lease_sibling by (simp add: assms(3))
  have "snd (replace_file ?temp p (Inr (lease_file l)) st) = Inr ()"
    unfolding replace_final(1) [OF assms(1) u(1,2) sib] using u(3) assms(5) by (simp add: write_tail_def Let_def)
  then show ?thesis
    unfolding assms(3) put_lease_eq [OF assms(4)] by (simp add: put_lease_def written_path_def)
qed

lemma replace_current_outcome:
  assumes "tree st" "admissible a decide" "st (lease_temporary sha nonce s a) = None"
  shows "snd (replace_current sha nonce (lease_path sha s a) decide st) =
    (case readPath (lease_path sha s a) st of Inl e \<Rightarrow> Inl e | Inr current \<Rightarrow> decide current)"
proof (cases "readPath (lease_path sha s a) st")
  case (Inr current)
  show ?thesis
  proof (cases "decide current")
    case (Inr l)
    have l: "valid_lease l" "actorFromLease l = a" using assms(2) Inr by (auto simp: admissible_def succeeds_def)
    have "snd (atomicReplace sha nonce (lease_path sha s a) l st) = Inr ()"
      using replace_lease_succeeds [OF assms(1) \<open>readPath _ st = _\<close> _ l(1)] assms(3) l(2) by simp
    with \<open>readPath _ st = _\<close> Inr show ?thesis
      by (cases "atomicReplace sha nonce (lease_path sha s a) l st")
        (simp add: replace_current_def andThen_def observe_def return_def)
  qed (use Inr in \<open>simp add: replace_current_def andThen_def observe_def\<close>)
qed (simp add: replace_current_def andThen_def observe_def)

section \<open>A sample\<close>

definition zero_sha :: "byte list \<Rightarrow> byte list" where
  "zero_sha bytes = replicate 32 0"

definition sample_leases :: lease_store where
  "sample_leases = \<lparr> ls_directory = [js ''active''], ls_defaultTtl = DEFAULT_TTL_MS \<rparr>"

definition zeros :: "nat \<Rightarrow> jstr" where
  "zeros n = replicate n 0x30"

definition sample_identity :: lease_identity where
  "sample_identity =
     \<lparr> li_lease_id = js ''lease_'' @ zeros 32, li_provider = js ''codex'', li_session_id = js ''ses_'' @ zeros 32,
       li_agent_id = js ''main'', li_workstream_id = None, li_turn_id = None, li_source_refs = None,
       li_extensions = None \<rparr>"

definition sample_options :: write_options where
  "sample_options = \<lparr> wo_ttlMs = None, wo_expectedRevision = None, wo_now = TimeValue (Some 0) \<rparr>"

text \<open>The body of a tombstone, stamped, and when it is valid.\<close>

definition idle_lease :: "lease_identity \<Rightarrow> int \<Rightarrow> int \<Rightarrow> int \<Rightarrow> lease" where
  "idle_lease i revision updatedAt expiresAt =
     [(js ''lease_id'', JStr (li_lease_id i)), (js ''provider'', JStr (li_provider i)),
      (js ''session_id'', JStr (li_session_id i)), (js ''agent_id'', JStr (li_agent_id i)),
      (js ''state'', JStr (state_name Idle)), (js ''claims'', JArr []), (js ''unknown_write_scope'', JBool False)] @
     opt_prop ''workstream_id'' (map_option JStr (li_workstream_id i)) @
     opt_prop ''turn_id'' (map_option JStr (li_turn_id i)) @
     [(js ''schema'', JStr ACTIVE_LEASE_SCHEMA), (js ''revision'', JNum (NInt revision)),
      (js ''updated_at'', JStr (to_iso updatedAt)), (js ''expires_at'', JStr (to_iso expiresAt))]"

definition plain_identity :: "lease_identity \<Rightarrow> bool" where
  "plain_identity i \<longleftrightarrow> lease_id_pattern (li_lease_id i) \<and> provider_pattern (li_provider i) \<and>
     session_id_pattern (li_session_id i) \<and> li_agent_id i \<noteq> [] \<and>
     (case li_workstream_id i of None \<Rightarrow> True | Some w \<Rightarrow> workstream_id_pattern w) \<and>
     (case li_turn_id i of None \<Rightarrow> True | Some t \<Rightarrow> turn_id_pattern t) \<and>
     li_source_refs i = None \<and> li_extensions i = None"

lemma pattern_nonempty: "lease_id_pattern s \<Longrightarrow> s \<noteq> []" "session_id_pattern s \<Longrightarrow> s \<noteq> []"
  "workstream_id_pattern s \<Longrightarrow> s \<noteq> []" "turn_id_pattern s \<Longrightarrow> s \<noteq> []" "provider_pattern s \<Longrightarrow> s \<noteq> []"
  by (auto simp: pattern_defs)

lemma idle_lease_valid:
  assumes "plain_identity i" "safe_pos r" "valid_time u" "four_digit_year u" "valid_time e" "four_digit_year e" "u < e"
  shows "valid_lease (idle_lease i r u e)"
proof -
  let ?l = "idle_lease i r u e"
  note get = idle_lease_def opt_prop_def jget_def
  have id: "identity_issues ?l = []"
    using assms(1) pattern_nonempty
    by (auto simp: identity_issues_def no_issues get plain_identity_def one_of_def split: option.splits)
  have work: "work_issues ?l = []"
    by (auto simp: work_issues_def no_issues get split: option.splits)
  have "jget ?l ''updated_at'' = JStr (to_iso u)" "jget ?l ''expires_at'' = JStr (to_iso e)"
    by (simp_all add: get split: option.splits)
  then have times: "time_issues ?l = []"
    using assms(7) by (simp add: no_issues to_iso_accepted assms(3-6))
  have refs: "reference_issues ?l = []"
    by (auto simp: reference_issues_def no_issues get split: option.splits)
  have rev: "validateSafeInteger 1 (js ''$.revision'') (jget ?l ''revision'') = []"
    using assms(2) by (simp add: no_issues get safe_pos_def split: option.splits)
  have keys: "rejectUnknownKeys ?l TOP_LEVEL_KEYS (js ''$'') = []"
    by (simp add: no_issues only_keys_def idle_lease_def opt_prop_def TOP_LEVEL_KEYS_def split: option.splits)
  have vals: "validateJsonValue (js ''$'') (JObj ?l) = []"
    by (simp add: no_issues idle_lease_def opt_prop_def del: validateJsonValue.simps split: option.splits)
  show ?thesis
    unfolding valid_lease_def lease_issues_def
    using id work times refs rev keys vals by (simp del: validateJsonValue.simps)
qed

lemma idle_stamped: "stamped (idle_lease i r u e) r' u' e' = idle_lease i r' u' e'"
  by (simp add: stamped_def idle_lease_def opt_prop_def split: option.split)

text \<open>The body that a tombstone's update is detached to.\<close>

lemma detached_idle:
  assumes "plain_identity i"
  shows "detached_update (idleLeaseUpdate i) = Inr (idle_lease i 1 0 1)"
proof -
  define ps where "ps = (case idleLeaseUpdate i of JObj ps \<Rightarrow> ps | _ \<Rightarrow> [])"
  have ps: "idleLeaseUpdate i = JObj ps" by (simp add: ps_def idleLeaseUpdate_def)
  have upd: "assertUpdateDoesNotSetGeneratedFields (JObj ps) = Inr ps"
    unfolding assertUpdate_Inr using assms
    by (auto simp: ps_def idleLeaseUpdate_def opt_prop_def GENERATED_FIELDS_def plain_identity_def split: option.split)
  have build: "buildLease ps 1 0 1 = Inr (idle_lease i 1 0 1)"
    using assms unfolding buildLease_def stamp_Inr
    by (simp add: ps_def idleLeaseUpdate_def opt_prop_def stamped_def idle_lease_def plain_identity_def valid_time_def
        split: option.split)
  have y: "four_digit_year 0" "four_digit_year 1" by code_simp+
  have v: "valid_lease (idle_lease i 1 0 1)"
    by (rule idle_lease_valid [OF assms]) (simp_all add: y valid_time_def safe_pos_def safe_int_def max_safe_def)
  then have "validateActiveLease (JObj (idle_lease i 1 0 1)) = Inr (idle_lease i 1 0 1)" by (simp add: validate_valid)
  with upd build cloneLease_valid [OF v] show ?thesis by (simp add: detached_update_def ps)
qed

definition sample_body :: lease where
  "sample_body = idle_lease sample_identity 1 0 1"

definition sample_lease :: lease where
  "sample_lease = idle_lease sample_identity 1 0 DEFAULT_TTL_MS"

lemma sample_plain: "plain_identity sample_identity"
  unfolding plain_identity_def by (intro conjI) code_simp+

lemma sample_detached: "detached_update (idleLeaseUpdate sample_identity) = Inr sample_body"
  unfolding sample_body_def by (rule detached_idle [OF sample_plain])

lemma sample_stamped: "stamped sample_body 1 0 DEFAULT_TTL_MS = sample_lease"
  by (simp add: sample_body_def sample_lease_def idle_stamped)

lemma sample_valid: "valid_lease sample_lease"
proof -
  have "four_digit_year 0" "four_digit_year DEFAULT_TTL_MS" by code_simp+
  then show ?thesis
    unfolding sample_lease_def
    by (intro idle_lease_valid sample_plain)
      (simp_all add: valid_time_def DEFAULT_TTL_MS_def safe_pos_def safe_int_def max_safe_def)
qed

lemma sample_choice: "next_lease None sample_body None (TimeValue (Some 0)) DEFAULT_TTL_MS = Inr sample_lease"
proof -
  have "stamp sample_body 1 0 DEFAULT_TTL_MS = Inr sample_lease"
    unfolding stamp_Inr sample_stamped by (simp add: valid_time_def DEFAULT_TTL_MS_def)
  then show ?thesis
    using sample_valid validate_valid [of sample_lease sample_lease]
    by (simp add: next_lease_def assertCurrentIdentity_def actual_revision_def timeMillis_def max_safe_def)
qed

lemma sample_revision: "lease_revision sample_lease = 1"
  using next_lease_succeeds(3) [OF sample_choice] by (simp add: actual_revision_def)

lemma sample_expires: "lease_time sample_lease ''expires_at'' = Some DEFAULT_TTL_MS"
  unfolding sample_stamped [symmetric] by (rule stamped_times) (simp add: valid_time_def DEFAULT_TTL_MS_def)

definition sample_actor :: actor_key where
  "sample_actor = actorFromLease sample_body"

lemma sample_actor_lease [simp]: "actorFromLease sample_lease = sample_actor"
  unfolding sample_stamped [symmetric] by (simp add: sample_actor_def)

lemma sample_request:
  "write_request zero_sha sample_leases (idleLeaseUpdate sample_identity) sample_options =
     Inr (lease_path zero_sha sample_leases sample_actor, sample_body, DEFAULT_TTL_MS, None)"
proof -
  have "actorPath zero_sha sample_leases (actorFromLease sample_body) = Inr (lease_path zero_sha sample_leases sample_actor)"
    using valid_actor_key [OF detached_update_Inr(1) [OF sample_detached]] by (simp add: actorPath_Inr sample_actor_def)
  moreover obtain ps where "assertUpdateDoesNotSetGeneratedFields (idleLeaseUpdate sample_identity) = Inr ps"
    using sample_detached
    by (cases "assertUpdateDoesNotSetGeneratedFields (idleLeaseUpdate sample_identity)") (simp_all add: detached_update_def)
  moreover have "ttl_of sample_leases None = Inr DEFAULT_TTL_MS" by code_simp
  ultimately show ?thesis
    by (simp add: write_request_def sample_options_def sample_detached expectedRevision_def)
qed

lemma sample_path_shape:
  "lease_path zero_sha sample_leases sample_actor =
     [js ''active'', js ''codex'', js ''actor_'' @ zeros 64 @ js ''.json'']"
proof -
  have "hex_bytes (replicate 32 0) = zeros 64" by code_simp
  moreover have "a_provider sample_actor = js ''codex''" by code_simp
  ultimately show ?thesis
    by (simp add: lease_path_def sample_leases_def actor_filename_def framedHash_def zero_sha_def)
qed

lemma sample_path_usable: "usable_path (lease_path zero_sha sample_leases sample_actor)"
  unfolding sample_path_shape by code_simp

lemma empty_root_None: "p \<noteq> [] \<Longrightarrow> empty_root p = None"
  by (simp add: empty_root_def)

lemma empty_root_blocked: "\<not> blocked empty_root p"
  by (auto simp: blocked_def empty_root_def)

lemma sample_unread: "readPath (lease_path zero_sha sample_leases sample_actor) empty_root = Inr None"
proof -
  have "empty_root (lease_path zero_sha sample_leases sample_actor) = None"
    by (rule empty_root_None) (simp add: lease_path_def)
  then show ?thesis
    using readUtf8File_tree [OF tree_empty_root sample_path_usable lease_bound_safe]
    by (simp add: readPath_def empty_root_blocked)
qed

section \<open>The size of a lease\<close>

lemma length_quote_le: "length (quote s) \<le> 6 * length s + 2"
proof -
  have "length (quote_char c) \<le> 6 * length c" for c by (induction c rule: quote_char.induct) (simp_all add: hex4_def)
  then have "length (concat (map quote_char cs)) \<le> 6 * length (concat cs)" for cs
    by (induction cs) (simp_all add: add_mono)
  from this [of "characters s"] show ?thesis by (simp add: quote_def)
qed

lemma length_join_le: "length (join [u] xs) \<le> sum_list (map (\<lambda>x. length x + 1) xs)"
proof (cases xs)
  case (Cons x ys)
  have "length (concat (map ((@) [u]) ys)) \<le> sum_list (map (\<lambda>x. length x + 1) ys)"
    by (induction ys) simp_all
  with Cons show ?thesis by (simp add: join_def)
qed (simp add: join_def)

lemma length_member_le:
  "length (json_text v) \<le> n \<Longrightarrow> length (quote k @ 0x3A # json_text v) + 1 \<le> 6 * length k + n + 4"
  using length_quote_le [of k] by simp

text \<open>A bound on the text of an object from bounds on its members.\<close>

lemma length_object_le:
  assumes "list_all (\<lambda>(k, v). length (json_text v) \<le> n \<and> length k \<le> m) ps"
  shows "length (json_text (JObj ps)) \<le> 2 + length ps * (6 * m + n + 4)"
proof -
  have "sum_list (map (\<lambda>x. length x + 1) (map (\<lambda>(k, v). quote k @ 0x3A # json_text v) ps)) \<le>
      length ps * (6 * m + n + 4)"
    using assms
  proof (induction ps)
    case (Cons p ps)
    obtain k v where p: "p = (k, v)" by (cases p)
    have "length (quote k @ 0x3A # json_text v) + 1 \<le> 6 * length k + n + 4" "length k \<le> m"
      using Cons.prems length_member_le [of v n k] by (simp_all add: p)
    then have "length (quote k @ 0x3A # json_text v) + 1 \<le> 6 * m + n + 4" by linarith
    with Cons show ?case by (simp add: p)
  qed simp
  then show ?thesis using length_join_le [of "0x2C" "map (\<lambda>(k, v). quote k @ 0x3A # json_text v) ps"] by simp
qed

section \<open>Writing\<close>

lemma write_outcome:
  assumes "tree (others st)" "write_request sha s update options = Inr (path, d, ttl, wanted)"
    "others st (lease_temporary sha nonce s (actorFromLease d)) = None"
  shows "snd (write_lease sha s others nonce update options st) =
    (case readPath path (others st) of Inl e \<Rightarrow> Inl e
     | Inr current \<Rightarrow> next_lease current d wanted (wo_now options) ttl)"
proof -
  have path: "path = lease_path sha s (actorFromLease d)" using write_request_Inr(2) [OF assms(2)] .
  note adm = admissible_next [OF refl, where d = d and wanted = wanted and now = "wo_now options" and ttl = ttl]
  show ?thesis
    using replace_current_outcome [OF assms(1) adm assms(3)] assms(2)
    unfolding path by (auto simp: write_lease_split split: prod.split)
qed

text \<open>C9: When the temporary name is free, writing a lease is exactly the reading of the lease its file
  holds once the actor's lock is held and the choice of the next lease from it: the result is that
  choice or its refusal, afterwards the file reads as the lease written (or is too large to be read)
  or, after a refusal, as before, and the file of no other actor has changed.\<close>

theorem write_lease_refines:
  assumes "tree (others st)" "write_request sha s update options = Inr (path, d, ttl, wanted)"
    "others st (lease_temporary sha nonce s (actorFromLease d)) = None"
    "write_lease sha s others nonce update options st = (tr, r)"
  shows "r = (case readPath path (others st) of Inl e \<Rightarrow> Inl e
       | Inr current \<Rightarrow> next_lease current d wanted (wo_now options) ttl) \<and>
     readPath path (last tr) = (case r of Inl _ \<Rightarrow> readPath path (others st) | Inr l \<Rightarrow> stored l) \<and>
     (\<forall>q. actor_file s q \<and> q \<noteq> path \<longrightarrow> readPath q (last tr) = readPath q (others st))"
proof -
  note req = write_request_Inr [OF assms(2)]
  note adm = admissible_next [OF refl, where d = d and wanted = wanted and now = "wo_now options" and ttl = ttl]
  obtain tr' where tr: "tr = others st # tr'"
    "replace_current sha nonce (lease_path sha s (actorFromLease d))
       (\<lambda>c. next_lease c d wanted (wo_now options) ttl) (others st) = (tr', r)"
    using assms(2,4) req by (auto simp: write_lease_split split: prod.splits)
  have "tr' = [] \<Longrightarrow> last tr = others st" "tr' \<noteq> [] \<Longrightarrow> last tr = last tr'" using tr(1) by simp_all
  then have l: "last tr = last (others st # tr')" by simp
  note res = replace_current_result [OF adm assms(1) tr(2)] replace_current_elsewhere [OF adm assms(1) tr(2)]
  have "snd (write_lease sha s others nonce update options st) = r" using assms(4) by simp
  then have r: "r = (case readPath path (others st) of Inl e \<Rightarrow> Inl e
       | Inr current \<Rightarrow> next_lease current d wanted (wo_now options) ttl)"
    using write_outcome [where others = others and st = st, OF assms(1-3)] by simp
  have "readPath path (last tr) = (case r of Inl _ \<Rightarrow> readPath path (others st) | Inr l \<Rightarrow> stored l)"
    unfolding l req(2) by (cases r) (use res(1,2) in \<open>simp_all del: last.simps\<close>)
  moreover have "\<forall>q. actor_file s q \<and> q \<noteq> path \<longrightarrow> readPath q (last tr) = readPath q (others st)"
    unfolding l req(2) using res(3) by blast
  ultimately show ?thesis using r by blast
qed

theorem write_lease_refines_witness:
  "\<exists>tr. write_lease zero_sha sample_leases id (js ''1'') (idleLeaseUpdate sample_identity) sample_options empty_root =
     (tr, Inr sample_lease) \<and>
   readPath (lease_path zero_sha sample_leases sample_actor) (last tr) = stored sample_lease"
proof -
  have "(id empty_root) (lease_temporary zero_sha (js ''1'') sample_leases (actorFromLease sample_body)) = None"
    by (simp add: empty_root_None lease_temporary_def)
  from write_lease_refines [where others = id, OF _ sample_request this prod.collapse [symmetric]]
  show ?thesis
    using sample_unread sample_choice tree_empty_root
    by (intro exI) (auto simp: sample_options_def intro: prod_eqI)
qed

end
