(* ===== verification/Active_Fence.thy ===== *)
theory Active_Fence
  imports Active_Writes
begin

text \<open>
  The fence a lease is for its actor: whatever happens during the day after an instant, the revision
  of a lease of that instant is never undercut, and every writer that is behind it is refused.
\<close>

section \<open>Refusals\<close>

lemma readSnapshot_Inr:
  "readSnapshot sha s actor st = Inr (Some l) \<longleftrightarrow>
     actor_key_ok actor \<and> readPath (lease_path sha s actor) st = Inr (Some l) \<and> actorFromLease l = actor"
proof (cases "actor_key_ok actor")
  case True
  then have "actorPath sha s actor = Inr (lease_path sha s actor)" by (simp add: actorPath_Inr)
  then show ?thesis
    using True by (auto simp: readSnapshot_def sameActor_eq split: sum.splits option.splits if_splits)
next
  case False
  then have "actorPath sha s actor \<noteq> Inr p" for p by (simp add: actorPath_Inr)
  then obtain e where "actorPath sha s actor = Inl e" by (cases "actorPath sha s actor") auto
  then show ?thesis using False by (simp add: readSnapshot_def)
qed

lemma fenced_file:
  assumes "lease_run sha s until a b" "tree a" "readSnapshot sha s actor a = Inr (Some l)" "outlives until l"
  shows "fenced until (lease_revision l) (jget l ''lease_id'') (readPath (lease_path sha s actor) b)"
proof -
  have "fenced until (lease_revision l) (jget l ''lease_id'') (readPath (lease_path sha s actor) a)"
    using assms(3,4) by (simp add: readSnapshot_Inr fenced_def outlives_def)
  with lease_run_fence [OF assms(1)] assms(2) lease_path_actor_file show ?thesis
    by (simp add: keeps_fence_def)
qed

lemma replace_current_refused:
  assumes "\<And>c. readPath p st = Inr c \<Longrightarrow> \<exists>e. decide c = Inl e"
  shows "\<exists>e. replace_current sha nonce p decide st = ([], Inl e)"
  using assms by (cases "readPath p st") (force simp: replace_current_def andThen_def observe_def)+

lemma fenced_cases:
  assumes "fenced until r i (readPath p st)" "readPath p st = Inr c"
  shows "\<exists>l. c = Some l \<and> r \<le> lease_revision l"
  using assms by (cases c) (auto simp: fenced_def)

lemma late_snapshot:
  assumes "fenced until r i (readPath (lease_path sha s (actorFromLease d)) st)" "lease_revision d \<le> r" "valid_lease d"
  shows "\<exists>e. writeSnapshot sha s id nonce (JObj d) st = ([st], Inl e)"
proof -
  let ?decide = "\<lambda>current. case assertCurrentIdentity current d of Inl e \<Rightarrow> Inl e
     | Inr _ \<Rightarrow> if lease_revision d \<le> actual_revision current then Inl ActiveLeaseRevisionConflictError else Inr d"
  have "\<exists>e. ?decide c = Inl e" if c: "readPath (lease_path sha s (actorFromLease d)) st = Inr c" for c
    using fenced_cases [OF assms(1) c] assms(2) by (auto simp: actual_revision_def split: sum.split)
  from replace_current_refused [where decide = ?decide and sha = sha and nonce = nonce, OF this] obtain e where
    e: "replace_current sha nonce (lease_path sha s (actorFromLease d)) ?decide st = ([], Inl e)" by blast
  have "validateActiveLease (JObj d) = Inr d" using assms(3) by (simp add: validate_valid)
  with e show ?thesis by (simp add: writeSnapshot_split)
qed

lemma late_write:
  assumes "fenced until r i (readPath p st)" "write_request sha s update options = Inr (p, d, ttl, Some w)" "w < r"
  shows "\<exists>e. write_lease sha s id nonce update options st = ([st], Inl e)"
proof -
  have "\<exists>e. next_lease c d (Some w) (wo_now options) ttl = Inl e" if c: "readPath p st = Inr c" for c
  proof (rule ccontr)
    assume "\<nexists>e. next_lease c d (Some w) (wo_now options) ttl = Inl e"
    then obtain l where "next_lease c d (Some w) (wo_now options) ttl = Inr l" by (metis sumE)
    then have "Some w = Some (actual_revision c)" by (rule next_lease_Inr) simp
    with fenced_cases [OF assms(1) c] assms(3) show False by (auto simp: actual_revision_def)
  qed
  from replace_current_refused [where decide = "\<lambda>c. next_lease c d (Some w) (wo_now options) ttl" and sha = sha
      and nonce = nonce and p = p and st = st, OF this] assms(2) show ?thesis by (auto simp: write_lease_split)
qed

section \<open>Properties\<close>

text \<open>C8: Whatever is written, updated, snapshotted or reaped from an instant on, wherever each
  operation is stopped and whatever happens in between, as long as no reaping is later than a day
  after the instant: a lease of the instant still stands, the identifier unchanged and the revision
  at least the one it had, unless its file has become unreadable.\<close>

theorem lease_stands:
  assumes "lease_run sha s until a b" "tree a" "readSnapshot sha s actor a = Inr (Some l)" "outlives until l"
  shows "case readPath (lease_path sha s actor) b of
      Inl e \<Rightarrow> True
    | Inr None \<Rightarrow> False
    | Inr (Some l') \<Rightarrow> lease_revision l \<le> lease_revision l' \<and> jget l' ''lease_id'' = jget l ''lease_id''"
  using fenced_file [OF assms] by (auto simp: fenced_def split: sum.splits option.splits)

text \<open>C7: A delayed writer is refused: after any such run, a snapshot whose revision is not greater
  than that of the lease, and a write that expects an older revision, fail and change nothing.\<close>

theorem delayed_writers_refused:
  assumes "lease_run sha s until a b" "tree a" "readSnapshot sha s actor a = Inr (Some l)" "outlives until l"
  shows "(\<forall>late nonce. valid_lease late \<and> actorFromLease late = actor \<and> lease_revision late \<le> lease_revision l \<longrightarrow>
      (\<exists>e. writeSnapshot sha s id nonce (JObj late) b = ([b], Inl e))) \<and>
    (\<forall>update options nonce d ttl w.
      write_request sha s update options = Inr (lease_path sha s actor, d, ttl, Some w) \<and> w < lease_revision l \<longrightarrow>
      (\<exists>e. write_lease sha s id nonce update options b = ([b], Inl e)))"
proof (intro conjI allI impI, goal_cases)
  case (1 late nonce)
  with fenced_file [OF assms] show ?case by (intro late_snapshot) auto
next
  case (2 update options nonce d ttl w)
  with fenced_file [OF assms] show ?case by (intro late_write) auto
qed

text \<open>The sample lease on disk.\<close>

definition sample_tree :: store where
  "sample_tree = written (lease_path zero_sha sample_leases sample_actor) (lease_file sample_lease) empty_root"

lemmas sample_written = written_read [OF tree_empty_root sample_path_usable empty_root_blocked,
    of _ "lease_file sample_lease", folded sample_tree_def]

lemma sample_free: "empty_root (lease_path zero_sha sample_leases sample_actor) \<noteq> Some Directory"
  unfolding sample_path_shape by (simp add: empty_root_def)

lemma sample_tree_ok: "tree sample_tree"
  by (rule sample_written(2) [OF sample_free lease_bound_safe])

lemma sample_fits: "stored sample_lease = Inr (Some sample_lease)"
proof -
  have iso: "length (to_iso 0) = 24" "length (to_iso 300000) = 24" by code_simp+
  have "list_all (\<lambda>(k, v). length (json_text v) \<le> 300 \<and> length k \<le> 20) sample_lease"
    using length_quote_le [of "to_iso 0"] length_quote_le [of "to_iso 300000"]
      length_quote_le [of "js ''lease_'' @ zeros 32"] length_quote_le [of "js ''ses_'' @ zeros 32"]
      length_quote_le [of "js ''codex''"] length_quote_le [of "js ''main''"] length_quote_le [of "js ''idle''"]
      length_quote_le [of ACTIVE_LEASE_SCHEMA] iso
    by (simp add: sample_lease_def idle_lease_def opt_prop_def sample_identity_def DEFAULT_TTL_MS_def join_def
        ACTIVE_LEASE_SCHEMA_def zeros_def decimal_def decimal_nat.simps [of "Suc 0"])
  from length_object_le [OF this] have "length (json_text (JObj sample_lease)) \<le> 2 + 11 * 424"
    by (simp add: sample_lease_def idle_lease_def opt_prop_def sample_identity_def)
  with byte_length_le [of "json_text (JObj sample_lease)"] have "int (jf_size (lease_file sample_lease)) \<le> MAX_ACTIVE_LEASE_BYTES"
    by (simp add: lease_file_def MAX_ACTIVE_LEASE_BYTES_def)
  then show ?thesis by (simp add: stored_def fits_def)
qed

lemma sample_seen: "readSnapshot zero_sha sample_leases sample_actor sample_tree = Inr (Some sample_lease)"
proof -
  have "get_file (lease_path zero_sha sample_leases sample_actor) sample_tree = reads_as (lease_file sample_lease)"
    using sample_written(1) [OF sample_free] by (auto simp: get_file_def fun_eq_iff reads_as_def read_bad_bound)
  from reads_as_lease [OF this sample_valid] sample_fits show ?thesis
    using valid_actor_key [OF sample_valid] by (simp add: readSnapshot_Inr)
qed

lemma sample_outlives: "outlives 0 sample_lease"
  using sample_expires by (simp add: outlives_def DEFAULT_TTL_MS_def)

theorem lease_stands_witness:
  "case readPath (lease_path zero_sha sample_leases sample_actor) sample_tree of
     Inl e \<Rightarrow> True | Inr None \<Rightarrow> False
   | Inr (Some l') \<Rightarrow> lease_revision sample_lease \<le> lease_revision l' \<and>
       jget l' ''lease_id'' = jget sample_lease ''lease_id''"
  by (rule lease_stands [OF lease_run.start sample_tree_ok sample_seen sample_outlives])

theorem delayed_writers_refused_witness:
  "\<exists>e. writeSnapshot zero_sha sample_leases id (js ''1'') (JObj sample_lease) sample_tree = ([sample_tree], Inl e)"
  using delayed_writers_refused [OF lease_run.start sample_tree_ok sample_seen sample_outlives]
    sample_valid by simp

end
