(* ===== verification/Active_Listing.thy ===== *)
theory Active_Listing
  imports Active_Fence
begin

text \<open>
  What the listings of leases and their reaping find: the leases a reader of each actor would see,
  and exactly the tombstones that are due.  \<open>readdir\<close> is taken to report the names in a directory,
  and the digest to have 32 bytes.
\<close>

section \<open>Names in a directory\<close>

definition truthful :: "(store_path \<Rightarrow> store \<Rightarrow> jstr list) \<Rightarrow> store \<Rightarrow> bool" where
  "truthful entries st \<longleftrightarrow> (\<forall>d n. n \<in> set (entries d st) \<longleftrightarrow> st (d @ [n]) \<noteq> None)"

definition digest32 :: "(byte list \<Rightarrow> byte list) \<Rightarrow> bool" where
  "digest32 sha \<longleftrightarrow> (\<forall>bytes. length (sha bytes) = 32)"

lemma hex_bytes_units: "length (hex_bytes bs) = 2 * length bs" "list_all is_hex (hex_bytes bs)"
proof -
  have "is_hex (hex_unit d)" if "d < 16" for d
    using that by (auto simp: hex_unit_def is_hex_def is_digit_def word_le_nat_alt unat_unit_of)
  moreover have "unat b div 16 < 16" for b :: byte using unsigned_less [where w = b and 'a = nat] by simp
  ultimately show "list_all is_hex (hex_bytes bs)"
    by (induction bs) (auto simp: hex_bytes_def)
qed (simp add: hex_bytes_def length_concat comp_def sum_list_triv)

lemma filename_pattern:
  assumes "digest32 sha"
  shows "ACTIVE_ACTOR_FILENAME_PATTERN (actor_filename sha a)"
proof -
  let ?h = "hex_bytes (framedHash sha (js ''barbaro-active-actor-file-v1'') [a_provider a, a_session_id a, a_agent_id a])"
  have "length ?h = 64" using assms by (simp add: hex_bytes_units digest32_def framedHash_def)
  moreover have "list_all is_hex ?h" by (rule hex_bytes_units)
  ultimately show ?thesis by (simp add: ACTIVE_ACTOR_FILENAME_PATTERN_def actor_filename_def)
qed

section \<open>Files\<close>

lemma is_file_some: "is_file e \<Longrightarrow> e \<noteq> None"
  by (cases e) (simp_all add: is_file_def)

lemma readPath_Some_file:
  assumes "tree st" "readPath p st = Inr (Some l)"
  shows "is_file (st p)"
proof -
  note u = readPath_usable [OF assms]
  then show ?thesis using assms by (auto simp: readPath_def readUtf8File_tree is_file_def split: option.splits entry.splits)
qed

lemma verifyDirectory_present:
  assumes "tree st" "usable_path (d @ [n])" "st (d @ [n]) \<noteq> None"
  shows "verifyDirectory d st = Inr True"
proof -
  have d: "list_all validateComponent d" using assms(2) by (auto simp: usable_path_def)
  have "st (take j d) = Some Directory" if "j \<le> length d" for j
    using treeD [OF assms(1,3), of j] that by simp
  then show ?thesis using verifyDirectory_tree [OF assms(1) d] by auto
qed

lemma actor_files_Inr:
  assumes "tree st" "truthful entries st" "actor_files entries d st = Inr names"
    "usable_path (d @ [n])" "is_file (st (d @ [n]))" "ACTIVE_ACTOR_FILENAME_PATTERN n"
  shows "n \<in> set names"
proof -
  have ne: "st (d @ [n]) \<noteq> None" by (rule is_file_some [OF assms(5)])
  have "n \<in> set (entries d st)" using assms(2) ne by (simp add: truthful_def)
  with assms(3,5,6) verifyDirectory_present [OF assms(1,4) ne] show ?thesis by (auto simp: actor_files_def)
qed

lemma provider_listed:
  assumes "tree st" "truthful entries st" "listProviderDirectories entries s st = Inr providers"
    "usable_path (ls_directory s @ [p, n])" "st (ls_directory s @ [p, n]) \<noteq> None" "provider_pattern p"
  shows "p \<in> set providers"
proof -
  have "st (ls_directory s @ [p]) = Some Directory"
    using treeD [OF assms(1,5), of "length (ls_directory s) + 1"] by simp
  moreover have "usable_path (ls_directory s @ [p])" using assms(4) by (auto simp: usable_path_def)
  ultimately have v: "verifyDirectory (ls_directory s) st = Inr True" "p \<in> set (entries (ls_directory s) st)"
    using verifyDirectory_present [OF assms(1)] assms(2) by (auto simp: truthful_def)
  with assms(3,6) show ?thesis by (auto simp: listProviderDirectories_def Let_def split: if_splits)
qed

section \<open>Listing\<close>

definition selected :: "list_options \<Rightarrow> lease \<Rightarrow> bool" where
  "selected options l \<longleftrightarrow>
     (case lo_provider options of None \<Rightarrow> True | Some p \<Rightarrow> lease_text l ''provider'' = p) \<and>
     (case lo_sessionId options of None \<Rightarrow> True | Some i \<Rightarrow> lease_text l ''session_id'' = i) \<and>
     (case lo_agentId options of None \<Rightarrow> True | Some a \<Rightarrow> lease_text l ''agent_id'' = a)"

lemma listed_lease_mem:
  "l \<in> set (listed_lease sha options included d provider st name) \<longleftrightarrow>
     readPath (d @ [name]) st = Inr (Some l) \<and> a_provider (actorFromLease l) = provider \<and>
     activeActorFilename sha (actorFromLease l) = Inr name \<and>
     (case lo_sessionId options of None \<Rightarrow> True | Some i \<Rightarrow> lease_text l ''session_id'' = i) \<and>
     (case lo_agentId options of None \<Rightarrow> True | Some a \<Rightarrow> lease_text l ''agent_id'' = a) \<and> included l"
  by (auto simp: listed_lease_def split: sum.splits option.splits if_splits)

lemma listed_snapshot:
  assumes "readPath (ls_directory s @ [provider, name]) st = Inr (Some l)"
    "a_provider (actorFromLease l) = provider" "activeActorFilename sha (actorFromLease l) = Inr name"
  shows "readSnapshot sha s (actorFromLease l) st = Inr (Some l)"
proof -
  have v: "valid_lease l" by (rule readPath_Inr [OF assms(1)])
  then have "name = actor_filename sha (actorFromLease l)" using assms(3) valid_filename [of l sha] by simp
  with assms(1,2) show ?thesis using valid_actor_key [OF v] by (simp add: readSnapshot_Inr lease_path_def)
qed

lemma traverse_mem: "traverse f xs = Inr ys \<Longrightarrow> y \<in> set ys \<longleftrightarrow> (\<exists>x\<in>set xs. f x = Inr y)"
  by (induction xs arbitrary: ys) (auto split: sum.splits)

lemma traverse_each: "traverse f xs = Inr ys \<Longrightarrow> x \<in> set xs \<Longrightarrow> \<exists>y. f x = Inr y"
  by (induction xs arbitrary: ys) (auto split: sum.splits)

lemma list_provider_mem:
  assumes "list_provider sha entries s options included st provider = Inr ls" "l \<in> set ls"
  shows "\<exists>name. l \<in> set (listed_lease sha options included (ls_directory s @ [provider]) provider st name)"
  using assms by (auto simp: list_provider_def map_sum_Inr_iff)

lemma list_provider_finds:
  assumes "list_provider sha entries s options included st provider = Inr ls" "tree st" "truthful entries st" "digest32 sha"
    "l \<in> set (listed_lease sha options included (ls_directory s @ [provider]) provider st (actor_filename sha (actorFromLease l)))"
  shows "l \<in> set ls"
proof -
  let ?d = "ls_directory s @ [provider]" and ?n = "actor_filename sha (actorFromLease l)"
  from assms(1) obtain names where names: "actor_files entries ?d st = Inr names"
    "ls = concat (map (listed_lease sha options included ?d provider st) (sort names))"
    by (auto simp: list_provider_def map_sum_Inr_iff)
  have r: "readPath (?d @ [?n]) st = Inr (Some l)" using assms(5) by (simp add: listed_lease_mem)
  have "?n \<in> set names"
    by (rule actor_files_Inr [OF assms(2,3) names(1) readPath_usable(1) [OF assms(2) r]
          readPath_Some_file [OF assms(2) r] filename_pattern [OF assms(4)]])
  with assms(5) show ?thesis unfolding names(2) by (auto simp del: listed_lease_mem)
qed

lemma list_leases_mem:
  assumes "list_leases sha entries s options included st = Inr ls" "tree st" "truthful entries st" "digest32 sha"
  shows "l \<in> set ls \<longleftrightarrow>
    readSnapshot sha s (actorFromLease l) st = Inr (Some l) \<and> selected options l \<and> included l"
proof -
  obtain providers lss where ps: "(case lo_provider options of None \<Rightarrow> listProviderDirectories entries s st
       | Some p \<Rightarrow> Inr [p]) = Inr providers"
    and lss: "traverse (list_provider sha entries s options included st) providers = Inr lss"
    and ls: "ls = sort_key actor_order (concat lss)"
    using assms(1) by (auto simp: list_leases_def map_sum_Inr_iff split: sum.splits)
  have "l \<in> set ls \<longleftrightarrow> (\<exists>p\<in>set providers. \<exists>xs. list_provider sha entries s options included st p = Inr xs \<and> l \<in> set xs)"
    using traverse_mem [OF lss] by (simp add: ls) blast
  also have "\<dots> \<longleftrightarrow> (\<exists>p\<in>set providers. \<exists>name. l \<in> set (listed_lease sha options included (ls_directory s @ [p]) p st name))"
    (is "?A \<longleftrightarrow> ?B")
  proof
    assume ?A
    then show ?B using list_provider_mem by blast
  next
    assume ?B
    then obtain p name where p: "p \<in> set providers"
      and l: "l \<in> set (listed_lease sha options included (ls_directory s @ [p]) p st name)" by blast
    then have "valid_lease l" using readPath_Inr by (auto simp: listed_lease_mem)
    then have "name = actor_filename sha (actorFromLease l)"
      using l valid_filename [of l sha] by (simp add: listed_lease_mem)
    moreover obtain xs where "list_provider sha entries s options included st p = Inr xs"
      using traverse_each [OF lss p] by blast
    ultimately show ?A using list_provider_finds [OF _ assms(2-4)] l p by blast
  qed
  also have "\<dots> \<longleftrightarrow> readSnapshot sha s (actorFromLease l) st = Inr (Some l) \<and> selected options l \<and> included l"
    (is "?B \<longleftrightarrow> ?C")
  proof
    assume ?B
    then show ?C
      using listed_snapshot ps by (auto simp: listed_lease_mem selected_def split: option.splits)
  next
    assume c: ?C
    let ?p = "lease_text l ''provider''"
    have r: "readPath (ls_directory s @ [?p, actor_filename sha (actorFromLease l)]) st = Inr (Some l)"
      and key: "actor_key_ok (actorFromLease l)" using c by (auto simp: readSnapshot_Inr lease_path_def)
    have "?p \<in> set providers"
    proof (cases "lo_provider options")
      case None
      then show ?thesis
        using ps provider_listed [OF assms(2,3) _ readPath_usable(1) [OF assms(2) r]] key
          is_file_some [OF readPath_Some_file [OF assms(2) r]] by (simp add: actor_key_ok_eq)
    qed (use ps c in \<open>auto simp: selected_def\<close>)
    moreover have "activeActorFilename sha (actorFromLease l) = Inr (actor_filename sha (actorFromLease l))"
      by (rule valid_filename [OF readPath_Inr [OF r]])
    ultimately show ?B using r c by (auto simp: listed_lease_mem selected_def)
  qed
  finally show ?thesis .
qed

lemma list_leases_sorted: "list_leases sha entries s options included st = Inr ls \<Longrightarrow> sorted (map actor_order ls)"
  by (auto simp: list_leases_def map_sum_Inr_iff split: sum.splits)

lemma readActive_Inr:
  assumes "timeMillis now = Inr ms"
  shows "readActive sha s a now st = Inr (Some l) \<longleftrightarrow>
    readSnapshot sha s a st = Inr (Some l) \<and> isActiveLeaseVisible l ms"
  using assms by (auto simp: readActive_def split: sum.splits option.splits if_splits)

text \<open>C35: When the digest has 32 bytes and \<open>readdir\<close> reports the names of a directory, a listing that
  succeeds holds exactly the leases that the reader of each actor would be given among those
  selected (at that time, for the active ones), in the order of provider, session and agent; files
  that are unreadable, invalid or not in their actor's place are left out.\<close>

theorem listings_exact:
  assumes "tree st" "truthful entries st" "digest32 sha"
  shows "(\<forall>ls. listActive sha entries s options now st = Inr ls \<longrightarrow>
      sorted (map actor_order ls) \<and>
      (\<forall>l. l \<in> set ls \<longleftrightarrow> readActive sha s (actorFromLease l) now st = Inr (Some l) \<and> selected options l)) \<and>
    (\<forall>ls. listSnapshots sha entries s options st = Inr ls \<longrightarrow>
      sorted (map actor_order ls) \<and>
      (\<forall>l. l \<in> set ls \<longleftrightarrow> readSnapshot sha s (actorFromLease l) st = Inr (Some l) \<and> selected options l))"
proof (intro conjI allI impI, goal_cases)
  case (1 ls)
  then show ?case using list_leases_sorted by (auto simp: listActive_def split: sum.splits)
next
  case (2 ls l)
  then obtain ms where ms: "timeMillis now = Inr ms"
    "list_leases sha entries s options (\<lambda>l. isActiveLeaseVisible l ms) st = Inr ls"
    by (auto simp: listActive_def split: sum.splits)
  show ?case unfolding list_leases_mem [OF ms(2) assms] readActive_Inr [OF ms(1)] by blast
next
  case (3 ls)
  then show ?case unfolding listSnapshots_def by (rule list_leases_sorted)
next
  case (4 ls l)
  then show ?case using list_leases_mem [OF _ assms] by (simp add: listSnapshots_def)
qed

text \<open>The sample on disk, listed.\<close>

definition sample_names :: "store_path \<Rightarrow> store \<Rightarrow> jstr list" where
  "sample_names d st = filter (\<lambda>n. st (d @ [n]) \<noteq> None) (lease_path zero_sha sample_leases sample_actor)"

lemma sample_tree_at:
  "sample_tree q = (if q = lease_path zero_sha sample_leases sample_actor then Some (JsonFile (lease_file sample_lease))
     else if prefix q (butlast (lease_path zero_sha sample_leases sample_actor)) then Some Directory else None)"
  unfolding sample_tree_def written_def sample_path_shape
  by (auto simp: make_dirs_def empty_root_def)

lemma sample_truthful: "truthful sample_names sample_tree"
  unfolding truthful_def
proof (intro allI)
  fix d n
  have "n \<in> set (lease_path zero_sha sample_leases sample_actor)" if "sample_tree (d @ [n]) \<noteq> None"
  proof -
    have "prefix (d @ [n]) (lease_path zero_sha sample_leases sample_actor)"
      using that prefix_order.trans [OF _ prefixeq_butlast] by (auto simp: sample_tree_at split: if_splits)
    then show ?thesis by (auto dest: set_mono_prefix)
  qed
  then show "n \<in> set (sample_names d sample_tree) \<longleftrightarrow> sample_tree (d @ [n]) \<noteq> None" by (auto simp: sample_names_def)
qed

lemma zero_digest: "digest32 zero_sha"
  by (simp add: digest32_def zero_sha_def)

definition any_lease :: list_options where
  "any_lease = \<lparr> lo_provider = None, lo_sessionId = None, lo_agentId = None \<rparr>"

lemma sample_providers: "listProviderDirectories sample_names sample_leases sample_tree = Inr [js ''codex'']"
proof -
  have u: "usable_path ([js ''active''] @ [js ''codex''])" by code_simp
  have "sample_tree ([js ''active''] @ [js ''codex'']) \<noteq> None" unfolding sample_tree_at sample_path_shape by simp
  from verifyDirectory_present [OF sample_tree_ok u this]
  have "verifyDirectory [js ''active''] sample_tree = Inr True" .
  moreover have "filter provider_pattern (sample_names [js ''active''] sample_tree) = [js ''codex'']"
  proof -
    have "provider_pattern (js ''codex'')" by code_simp
    then show ?thesis
      unfolding sample_names_def sample_tree_at sample_path_shape by (simp add: js_def)
  qed
  moreover have "sample_tree [js ''active'', js ''codex''] = Some Directory" unfolding sample_tree_at sample_path_shape by simp
  ultimately show ?thesis by (simp add: listProviderDirectories_def sample_leases_def)
qed

lemma sample_actor_files: "\<exists>names. actor_files sample_names [js ''active'', js ''codex''] sample_tree = Inr names"
proof -
  have "usable_path ([js ''active'', js ''codex''] @ [js ''actor_'' @ zeros 64 @ js ''.json''])"
    using sample_path_usable by (simp add: sample_path_shape)
  moreover have "sample_tree ([js ''active'', js ''codex''] @ [js ''actor_'' @ zeros 64 @ js ''.json'']) \<noteq> None"
    by (simp add: sample_tree_at sample_path_shape)
  ultimately show ?thesis using verifyDirectory_present [OF sample_tree_ok] by (simp add: actor_files_def)
qed

theorem listings_exact_witness:
  "\<exists>ls. listSnapshots zero_sha sample_names sample_leases any_lease sample_tree = Inr ls \<and> sample_lease \<in> set ls"
proof -
  obtain names where "actor_files sample_names [js ''active'', js ''codex''] sample_tree = Inr names"
    using sample_actor_files by blast
  then have "\<exists>ls. list_provider zero_sha sample_names sample_leases any_lease (\<lambda>_. True) sample_tree (js ''codex'') = Inr ls"
    by (simp add: list_provider_def sample_leases_def)
  then obtain ls where "listSnapshots zero_sha sample_names sample_leases any_lease sample_tree = Inr ls"
    using sample_providers
    by (auto simp: listSnapshots_def list_leases_def check_list_options_def any_lease_def)
  moreover have "selected any_lease sample_lease" by (simp add: selected_def any_lease_def)
  ultimately show ?thesis
    using listings_exact [OF sample_tree_ok sample_truthful zero_digest, of sample_leases any_lease] sample_seen
    by (intro exI [of _ ls]) simp
qed

end
