(* ===== verification/Active_Upkeep.thy ===== *)
theory Active_Upkeep
  imports Active_Listing
begin

text \<open>
  The upkeep of the leases: reaping removes every tombstone that is due and nothing else, and an
  update writes what was decided on the very lease it replaces.
\<close>

section \<open>Every file is visited\<close>

lemma sum_actions_visits:
  assumes "preorder_rel R" "\<And>x. traced R (f x)" "sum_actions f xs st = (tr, Inr n)" "x \<in> set xs"
  shows "\<exists>st1 tr1 m. R st st1 \<and> f x st1 = (tr1, Inr m) \<and> R (last (st1 # tr1)) (last (st # tr))"
  using assms(3,4)
proof (induction xs arbitrary: st tr n)
  case (Cons y ys)
  have R: "R a a" "R a b \<Longrightarrow> R b c \<Longrightarrow> R a c" for a b c
    using assms(1) by (auto simp: preorder_rel_def reflp_def dest: transpD)
  from Cons.prems(1) obtain tr1 k tr2 where f: "f y st = (tr1, Inr k)"
    "andThen (sum_actions f ys) (\<lambda>m. return (k + m)) (last (st # tr1)) = (tr2, Inr n)" "tr = tr1 @ tr2"
    by (auto elim: andThen_Inr)
  from f(2) obtain tr3 m where g: "sum_actions f ys (last (st # tr1)) = (tr3, Inr m)" "tr2 = tr3"
    by (auto simp: return_def elim!: andThen_Inr)
  have l: "last (st # tr) = last (last (st # tr1) # tr2)" by (simp add: f(3))
  show ?case
  proof (cases "x = y")
    case True
    have "R (last (st # tr1)) (last (st # tr))"
      unfolding l g(2) by (rule trace_end [OF assms(1) traced_sum_actions [OF assms(1,2)] g(1)])
    with True f(1) R(1) show ?thesis by blast
  next
    case False
    with Cons.prems(2) have "x \<in> set ys" by simp
    from Cons.IH [OF g(1) this] have "\<exists>st1 tr1' m. R (last (st # tr1)) st1 \<and> f x st1 = (tr1', Inr m) \<and>
      R (last (st1 # tr1')) (last (st # tr))" unfolding l g(2) .
    moreover have "R st (last (st # tr1))" by (rule trace_end [OF assms(1,2) f(1)])
    ultimately show ?thesis using R(2) by blast
  qed
qed simp

section \<open>Reaping, exactly\<close>

definition finite_dirs :: "store \<Rightarrow> bool" where
  "finite_dirs st \<longleftrightarrow> (\<forall>d. finite {n. st (d @ [n]) \<noteq> None})"

text \<open>\<open>readdir\<close> reports the names of every directory of a store that has finitely many.\<close>

definition reports :: "(store_path \<Rightarrow> store \<Rightarrow> jstr list) \<Rightarrow> bool" where
  "reports entries \<longleftrightarrow> (\<forall>st. finite_dirs st \<longrightarrow> truthful entries st)"

definition reaping :: "lease_store \<Rightarrow> int \<Rightarrow> store \<Rightarrow> store \<Rightarrow> bool" where
  "reaping s cutoff a b \<longleftrightarrow> only_reaps s cutoff a b \<and> (finite_dirs a \<longrightarrow> finite_dirs b)"

lemma reaping_preorder: "preorder_rel (reaping s cutoff)"
  using only_reaps_preorder [of s cutoff]
  unfolding preorder_rel_def reaping_def reflp_def transp_def by blast

lemma finite_dirs_unlink: "finite_dirs st \<Longrightarrow> finite_dirs (unlink p st)"
  unfolding finite_dirs_def
proof
  fix d assume "\<forall>d. finite {n. st (d @ [n]) \<noteq> None}"
  then show "finite {n. unlink p st (d @ [n]) \<noteq> None}"
    by (rule_tac finite_subset [of _ "{n. st (d @ [n]) \<noteq> None}"]) (auto simp: unlink_def)
qed

lemma removes_reaping: "removes_in (reaping s cutoff) cutoff (ls_directory s @ [provider, name])"
  using removes_only_reaps [of s cutoff provider name] finite_dirs_unlink
  by (auto simp: removes_in_def reaping_def)

lemma reaping_tree: "reaping s cutoff a b \<Longrightarrow> tree a \<Longrightarrow> tree b"
  by (simp add: reaping_def only_reaps_def)

lemma reaping_path:
  assumes "reaping s cutoff a b" "tree a" "length p = length (ls_directory s) + 2"
  shows "readPath p b = readPath p a \<or>
    (\<exists>l. readPath p a = Inr (Some l) \<and> isReapable l cutoff \<and> readPath p b = Inr None)"
  using assms by (simp add: reaping_def only_reaps_def)

lemma reaping_None:
  assumes "reaping s cutoff a b" "tree a" "length p = length (ls_directory s) + 2" "readPath p a = Inr None"
  shows "readPath p b = Inr None"
  using reaping_path [OF assms(1-3)] assms(4) by auto

lemma traced_reaping:
  "timeMillis now = Inr ms \<Longrightarrow>
     traced (reaping s (ms - REAP_IDLE_AFTER_MS)) (reapExpiredIdle sha entries s id now)"
  using reaping_preorder
  by (intro traced_reap [OF reaping_preorder _ _ removes_reaping]) (simp_all add: preorder_rel_def reflp_def)

text \<open>After its visit, a tombstone that is due is gone.\<close>

lemma reap_file_removes:
  assumes "tree st" "readPath (d @ [name]) st = Inr (Some l)" "isReapable l cutoff"
    "activeActorFilename sha (actorFromLease l) = Inr name" "reap_file sha id cutoff d name st = (tr, r)"
  shows "readPath (d @ [name]) (last (st # tr)) = Inr None"
proof -
  have "reapable_at (d @ [name]) cutoff st = Inr (Some l)" using assms(2,3) by (simp add: reapable_at_Some)
  then have "tr = [st, unlink (d @ [name]) st]"
    using assms(4,5) by (auto simp: reap_file_def andThen_def observe_def effect_def return_def)
  then show ?thesis using unlink_reads_none [OF assms(1,2)] by simp
qed

lemma reap_complete:
  assumes "tree st" "finite_dirs st" "reports entries" "digest32 sha" "timeMillis now = Inr ms"
    "reapExpiredIdle sha entries s id now st = (tr, Inr n)"
    "readSnapshot sha s a st = Inr (Some l)" "isReapable l (ms - REAP_IDLE_AFTER_MS)"
  shows "readPath (lease_path sha s a) (last (st # tr)) = Inr None"
proof -
  let ?cut = "ms - REAP_IDLE_AFTER_MS" and ?P = "a_provider a" and ?n = "actor_filename sha a"
  let ?d = "ls_directory s @ [?P]" and ?p = "lease_path sha s a"
  let ?R = "reaping s ?cut"
  let ?visit = "\<lambda>provider. andThen (observe (actor_files entries (ls_directory s @ [provider])))
    (\<lambda>names. sum_actions (reap_file sha id ?cut (ls_directory s @ [provider])) names)"
  have p: "?p = ?d @ [?n]" "length ?p = length (ls_directory s) + 2" by (simp_all add: lease_path_def)
  have key: "actor_key_ok a" and r: "readPath ?p st = Inr (Some l)" and act: "actorFromLease l = a"
    using assms(7) by (simp_all add: readSnapshot_Inr)
  have refl: "?R x x" for x using reaping_preorder by (simp add: preorder_rel_def reflp_def)
  have each: "traced ?R (reap_file sha id ?cut (ls_directory s @ [q]) m)" for q m
    using removes_reaping [of s ?cut q m] by (intro traced_reap_file reaping_preorder) (simp_all add: refl)
  have visit: "traced ?R (?visit q)" for q by (intro traced_intros reaping_preorder each)
  have truth: "truthful entries x" if "?R st x" for x
    using that assms(2,3) by (simp add: reports_def reaping_def)
  obtain providers where ps: "listProviderDirectories entries s st = Inr providers"
    "sum_actions ?visit providers st = (tr, Inr n)"
    using assms(5,6) by (auto simp: reapExpiredIdle_def andThen_def observe_def split: sum.splits prod.splits)
  have "?P \<in> set providers"
    using provider_listed [OF assms(1) truth [OF refl] ps(1), of ?P ?n] readPath_usable(1) [OF assms(1) r]
      is_file_some [OF readPath_Some_file [OF assms(1) r]] key by (simp add: lease_path_def actor_key_ok_eq)
  from sum_actions_visits [where f = ?visit, OF reaping_preorder visit ps(2) this] obtain st1 tr1 m where
    v1: "?R st st1" "?visit ?P st1 = (tr1, Inr m)" "?R (last (st1 # tr1)) (last (st # tr))" by blast
  have t1: "tree st1" by (rule reaping_tree [OF v1(1) assms(1)])
  have gone: "readPath ?p (last (st1 # tr1)) = Inr None"
  proof (cases "readPath ?p st1 = Inr None")
    case True
    from reaping_None [OF trace_end [OF reaping_preorder visit v1(2)] t1 p(2) True] show ?thesis .
  next
    case False
    with reaping_path [OF v1(1) assms(1) p(2)] r have r1: "readPath ?p st1 = Inr (Some l)" by auto
    obtain names where names: "actor_files entries ?d st1 = Inr names"
      "sum_actions (reap_file sha id ?cut ?d) names st1 = (tr1, Inr m)"
      using v1(2) by (auto simp: andThen_def observe_def split: sum.splits prod.splits)
    have "?n \<in> set names"
      using actor_files_Inr [OF t1 truth [OF v1(1)] names(1), of ?n] readPath_usable(1) [OF t1 r1]
        readPath_Some_file [OF t1 r1] filename_pattern [OF assms(4)] by (simp add: p(1))
    from sum_actions_visits [OF reaping_preorder each names(2) this] obtain st2 tr2 k where
      v2: "?R st1 st2" "reap_file sha id ?cut ?d ?n st2 = (tr2, Inr k)" "?R (last (st2 # tr2)) (last (st1 # tr1))" by blast
    have t2: "tree st2" by (rule reaping_tree [OF v2(1) t1])
    have "readPath ?p (last (st2 # tr2)) = Inr None"
    proof (cases "readPath ?p st2 = Inr None")
      case True
      from reaping_None [OF trace_end [OF reaping_preorder each v2(2)] t2 p(2) True] show ?thesis .
    next
      case False
      with reaping_path [OF v2(1) t1 p(2)] r1 have "readPath ?p st2 = Inr (Some l)" by auto
      then show ?thesis
        using reap_file_removes [OF t2 _ assms(8) _ v2(2)] valid_filename [OF readPath_Inr [OF r]] by (simp add: p(1) act)
    qed
    then show ?thesis
      using reaping_None [OF v2(3) _ p(2)] reaping_tree [OF trace_end [OF reaping_preorder each v2(2)] t2] by blast
  qed
  show ?thesis
    using reaping_None [OF v1(3) _ p(2) gone] reaping_tree [OF trace_end [OF reaping_preorder visit v1(2)] t1] by blast
qed

text \<open>C36: Reaping removes tombstones only: at every state it passes through, each lease file reads as
  before or held an idle lease that expired at least a day before the given time; and when it
  succeeds undisturbed, every actor's tombstone that was due is gone.\<close>

theorem reaping_exact:
  assumes "tree st" "timeMillis now = Inr ms"
  shows "(\<forall>x\<in>set (fst (reapExpiredIdle sha entries s id now st)). \<forall>p. actor_file s p \<longrightarrow>
      readPath p x = readPath p st \<or>
      (\<exists>l. readPath p st = Inr (Some l) \<and> isReapable l (ms - REAP_IDLE_AFTER_MS) \<and> readPath p x = Inr None)) \<and>
    (\<forall>tr n a l. finite_dirs st \<and> reports entries \<and> digest32 sha \<and>
      reapExpiredIdle sha entries s id now st = (tr, Inr n) \<and>
      readSnapshot sha s a st = Inr (Some l) \<and> isReapable l (ms - REAP_IDLE_AFTER_MS) \<longrightarrow>
      readPath (lease_path sha s a) (last (st # tr)) = Inr None)"
proof (intro conjI ballI allI impI, goal_cases)
  case (1 x p)
  then show ?case
    using reaping_path [OF tracedD [OF traced_reaping [OF assms(2)] 1(1)] assms(1)] actor_file_length by blast
next
  case (2 tr n a l)
  then show ?case using reap_complete [OF assms(1) _ _ _ assms(2)] by blast
qed

text \<open>The sample, reaped a day after its expiry.\<close>

definition all_names :: "store_path \<Rightarrow> store \<Rightarrow> jstr list" where
  "all_names d st = sorted_list_of_set {n. st (d @ [n]) \<noteq> None}"

lemma all_names_report: "reports all_names"
  by (simp add: reports_def truthful_def finite_dirs_def all_names_def)

lemma sample_finite: "finite_dirs sample_tree"
  unfolding finite_dirs_def
proof
  fix d
  have "{n. sample_tree (d @ [n]) \<noteq> None} \<subseteq> set (sample_names d sample_tree)"
    using sample_truthful by (auto simp: truthful_def)
  then show "finite {n. sample_tree (d @ [n]) \<noteq> None}" by (rule finite_subset) simp
qed

lemma sample_all_names: "sample_tree (d @ [m]) \<noteq> None \<Longrightarrow> all_names d sample_tree = [m]"
proof -
  assume m: "sample_tree (d @ [m]) \<noteq> None"
  have below: "prefix q (lease_path zero_sha sample_leases sample_actor)" if "sample_tree q \<noteq> None" for q
    using that prefix_order.trans [OF _ prefixeq_butlast] by (auto simp: sample_tree_at split: if_splits)
  have same: "n = m" if "sample_tree (d @ [n]) \<noteq> None" for n
    using prefix_same_cases [OF below [OF that] below [OF m]] by auto
  have "{n. sample_tree (d @ [n]) \<noteq> None} = {m}" using m same by blast
  then show ?thesis by (simp add: all_names_def)
qed

lemma sample_due: "isReapable sample_lease DEFAULT_TTL_MS"
  using sample_expires
  by (simp add: isReapable_def sample_lease_def) (simp add: idle_lease_def opt_prop_def sample_identity_def jget_def)

lemma sample_reaped:
  "snd (reapExpiredIdle zero_sha all_names sample_leases id
     (TimeValue (Some (DEFAULT_TTL_MS + REAP_IDLE_AFTER_MS))) sample_tree) = Inr 1"
proof -
  let ?a = "js ''active''" and ?c = "js ''codex''" and ?n = "js ''actor_'' @ zeros 64 @ js ''.json''"
  have at: "sample_tree ([?a] @ [?c]) = Some Directory" "sample_tree ([?a, ?c] @ [?n]) = Some (JsonFile (lease_file sample_lease))"
    unfolding sample_tree_at sample_path_shape by simp_all
  have u: "usable_path ([?a] @ [?c])" by code_simp
  have u2: "usable_path ([?a, ?c] @ [?n])" using sample_path_usable by (simp add: sample_path_shape)
  have v: "verifyDirectory [?a] sample_tree = Inr True" "verifyDirectory [?a, ?c] sample_tree = Inr True"
    using verifyDirectory_present [OF sample_tree_ok u] verifyDirectory_present [OF sample_tree_ok u2] at by simp_all
  have names: "all_names [?a] sample_tree = [?c]" "all_names [?a, ?c] sample_tree = [?n]"
    using sample_all_names [of "[?a]" ?c] sample_all_names [of "[?a, ?c]" ?n] at by simp_all
  have shape: "actor_filename zero_sha sample_actor = ?n"
    using sample_path_shape by (simp add: lease_path_def)
  have providers: "listProviderDirectories all_names sample_leases sample_tree = Inr [?c]"
  proof -
    have "provider_pattern ?c" by code_simp
    then show ?thesis using v(1) names(1) at(1) by (simp add: listProviderDirectories_def sample_leases_def)
  qed
  have found: "actor_files all_names [?a, ?c] sample_tree = Inr [?n]"
    using v(2) names(2) at(2) filename_pattern [OF zero_digest, of sample_actor]
    by (simp add: actor_files_def is_file_def shape)
  have due: "reapable_at [?a, ?c, ?n] DEFAULT_TTL_MS sample_tree = Inr (Some sample_lease)"
    using sample_seen sample_due by (simp add: reapable_at_Some readSnapshot_Inr sample_path_shape)
  have own: "activeActorFilename zero_sha sample_actor = Inr ?n"
    using valid_filename [OF sample_valid, of zero_sha] by (simp add: shape)
  show ?thesis
    using providers found due own
    by (simp add: reapExpiredIdle_def andThen_def observe_def effect_def return_def reap_file_def timeMillis_def
        sample_leases_def)
qed

theorem reaping_exact_witness:
  "\<exists>tr. reapExpiredIdle zero_sha all_names sample_leases id (TimeValue (Some (DEFAULT_TTL_MS + REAP_IDLE_AFTER_MS)))
      sample_tree = (tr, Inr 1) \<and>
     readPath (lease_path zero_sha sample_leases sample_actor) (last (sample_tree # tr)) = Inr None"
proof -
  have now: "timeMillis (TimeValue (Some (DEFAULT_TTL_MS + REAP_IDLE_AFTER_MS))) = Inr (DEFAULT_TTL_MS + REAP_IDLE_AFTER_MS)"
    by (simp add: timeMillis_def)
  obtain tr where tr: "reapExpiredIdle zero_sha all_names sample_leases id
      (TimeValue (Some (DEFAULT_TTL_MS + REAP_IDLE_AFTER_MS))) sample_tree = (tr, Inr 1)"
    using sample_reaped by (metis prod.collapse)
  have "isReapable sample_lease (DEFAULT_TTL_MS + REAP_IDLE_AFTER_MS - REAP_IDLE_AFTER_MS)" using sample_due by simp
  with reaping_exact [OF sample_tree_ok now, of zero_sha all_names sample_leases] tr
    sample_finite all_names_report zero_digest sample_seen show ?thesis by blast
qed

section \<open>Updates\<close>

lemma compensate_Inr: "compensate h m st = (tr, Inr v) \<Longrightarrow> m st = (tr, Inr v)"
proof -
  assume c: "compensate h m st = (tr, Inr v)"
  obtain tr1 r where m: "m st = (tr1, r)" by (rule prod.exhaust)
  show ?thesis
  proof (cases r)
    case (Inl e)
    show ?thesis
    proof (cases h)
      case (Some f)
      obtain tr2 r2 where "f e (last (st # tr1)) = (tr2, r2)" by (rule prod.exhaust)
      with c m Inl Some show ?thesis
        by (cases r2) (simp_all add: compensate_def andThen_def attempt_def raise_def)
    qed (use c m Inl in \<open>simp add: compensate_def andThen_def attempt_def raise_def\<close>)
  qed (use c m in \<open>simp add: compensate_def andThen_def attempt_def return_def\<close>)
qed

lemma andThen_observe_Inr:
  "andThen (observe g) f st = (tr, Inr v) \<longleftrightarrow> (\<exists>x. g st = Inr x \<and> f x st = (tr, Inr v))"
  by (auto simp: andThen_def observe_def split: sum.split prod.split)

lemma andThen_effect_Inr:
  "andThen (effect g) f st = (tr, Inr v) \<longleftrightarrow> (\<exists>tr'. tr = g st # tr' \<and> f () (g st) = (tr', Inr v))"
  by (auto simp: andThen_def effect_def split: prod.split)

text \<open>A commit that returns has stored the lease decided on.\<close>

lemma commit_result:
  assumes "tree st" "quiet_update s decide options" "p = lease_path sha s actor"
    "commit_decision sha nonce p actor current update ttl options st = (tr, Inr (Committed l))"
  shows "decided_lease actor current update (uo_now options) ttl = Inr l" "readPath p (last (st # tr)) = stored l"
proof -
  from assms(4) obtain tr3 l' tr4 where w: "compensate (uo_onWriteFailure options)
       (andThen (observe (\<lambda>_. decided_lease actor current update (uo_now options) ttl)) (\<lambda>l.
        andThen (atomicReplace sha nonce p l) (\<lambda>_. return l))) st = (tr3, Inr l')"
    "andThen (case uo_afterCommit options of None \<Rightarrow> return () | Some after \<Rightarrow> after l') (\<lambda>_. return (Committed l'))
       (last (st # tr3)) = (tr4, Inr (Committed l))" "tr = tr3 @ tr4"
    unfolding commit_decision_def by (rule andThen_Inr)
  have l': "l' = l" using w(2) by (auto simp: return_def elim!: andThen_Inr)
  from compensate_Inr [OF w(1)] show a: "decided_lease actor current update (uo_now options) ttl = Inr l"
    unfolding l' andThen_observe_Inr by (auto simp: return_def elim!: andThen_Inr)
  from compensate_Inr [OF w(1)] have b: "atomicReplace sha nonce p l st = (tr3, Inr ())"
    unfolding l' andThen_observe_Inr by (auto simp: return_def elim!: andThen_Inr)
  note dl = decided_lease_succeeds [OF a]
  have v: "valid_lease l" using dl(1) by (simp add: succeeds_def)
  have p: "p = lease_path sha s (actorFromLease l)" by (simp add: dl(2) assms(3))
  have stored: "readPath p (last (st # tr3)) = stored l"
    by (rule replace_lease_result(1) [OF assms(1) v p b refl])
  have "x \<in> set (fst (atomicReplace sha nonce p l st))" if "x \<in> set tr3" for x using b that by simp
  from replace_lease(1) [OF assms(1) v p this] have t3: "tree (last (st # tr3))"
    using assms(1) by (cases "tr3 = []") simp_all
  have after: "traced (same_leases s)
    (andThen (case uo_afterCommit options of None \<Rightarrow> return () | Some after \<Rightarrow> after l') (\<lambda>_. return (Committed l')))"
    using assms(2)
    by (cases "uo_afterCommit options") (auto simp: quiet_update_def intro!: traced_intros same_preorder)
  have "actor_file s p" by (simp add: assms(3) lease_path_actor_file)
  with trace_end [OF same_preorder after w(2)] have "readPath p (last (last (st # tr3) # tr4)) = stored l"
    using t3 stored by (simp add: same_leases_def)
  moreover have "last (last (st # tr3) # tr4) = last (st # tr)" by (simp add: w(3))
  ultimately show "readPath p (last (st # tr)) = stored l" by simp
qed

text \<open>C10: An update commits what was decided on the lease it replaces: the decision was made, inside the
  critical section, on the very lease its file then held, the committed lease is the next one for
  the body decided on, its revision is one more than that of the lease replaced, and the file holds
  it when the update returns.\<close>

theorem update_decides_on_current:
  assumes "tree (others st)" "quiet_update s decide options"
    "update_lease sha s others nonce actor decide options st = (tr, Inr (Committed l))"
  shows "\<exists>current update d ttl tr1.
    readPath (lease_path sha s actor) (others st) = Inr current \<and>
    decide current (others st) = (tr1, Inr (Write update)) \<and> detached_update update = Inr d \<and>
    next_lease current d None (uo_now options) ttl = Inr l \<and> actorFromLease l = actor \<and>
    lease_revision l = actual_revision current + 1 \<and>
    readPath (lease_path sha s actor) (last (st # tr)) = stored l"
proof -
  let ?p = "lease_path sha s actor" and ?st = "others st"
  obtain ttl tr0 where t0: "tr = ?st # tr0"
    "andThen (observe (current_of_actor actor ?p)) (\<lambda>current. andThen (decide current) (\<lambda>decision.
       case decision of Ignore reason \<Rightarrow> return (Ignored reason)
       | Write update \<Rightarrow> commit_decision sha nonce ?p actor current update ttl options)) ?st = (tr0, Inr (Committed l))"
    using assms(3) unfolding update_lease_def andThen_observe_Inr actorPath_Inr andThen_effect_Inr by blast
  from t0(2) obtain current where c: "current_of_actor actor ?p ?st = Inr current"
    "andThen (decide current) (\<lambda>decision.
       case decision of Ignore reason \<Rightarrow> return (Ignored reason)
       | Write update \<Rightarrow> commit_decision sha nonce ?p actor current update ttl options) ?st = (tr0, Inr (Committed l))"
    unfolding andThen_observe_Inr by blast
  from c(2) obtain tr1 decision tr2 where d: "decide current ?st = (tr1, Inr decision)"
    "(case decision of Ignore reason \<Rightarrow> return (Ignored reason)
       | Write update \<Rightarrow> commit_decision sha nonce ?p actor current update ttl options) (last (?st # tr1)) =
     (tr2, Inr (Committed l))" "tr0 = tr1 @ tr2"
    by (rule andThen_Inr)
  then obtain update where u: "decision = Write update"
    "commit_decision sha nonce ?p actor current update ttl options (last (?st # tr1)) = (tr2, Inr (Committed l))"
    by (cases decision) (auto simp: return_def)
  have quiet: "same_leases s ?st (last (?st # tr1))"
    using assms(2) trace_end [OF same_preorder [of s], of "decide current", OF _ d(1)] by (simp add: quiet_update_def)
  then have t: "tree (last (?st # tr1))" using assms(1) by (simp add: same_leases_def)
  note commit = commit_result [OF t assms(2) refl u(2)]
  have "last (last (?st # tr1) # tr2) = last (st # tr)" by (simp add: t0(1) d(3))
  with commit(2) show ?thesis
    using current_of_actor_Inr [OF c(1)] d(1) u(1) decided_lease_succeeds [OF commit(1)] by auto
qed

definition sample_update_options :: update_options where
  "sample_update_options =
     \<lparr> uo_ttlMs = None, uo_now = TimeValue (Some 0), uo_onWriteFailure = None, uo_afterCommit = None \<rparr>"

lemma sample_updated:
  "snd (update_lease zero_sha sample_leases id (js ''1'') sample_actor
     (\<lambda>_. return (Write (idleLeaseUpdate sample_identity))) sample_update_options empty_root) =
   Inr (Committed sample_lease)"
proof -
  have "actorPath zero_sha sample_leases sample_actor = Inr (lease_path zero_sha sample_leases sample_actor)"
    using valid_actor_key [OF sample_valid] by (simp add: actorPath_Inr)
  moreover have "ttl_of sample_leases None = Inr DEFAULT_TTL_MS" by code_simp
  moreover have "current_of_actor sample_actor (lease_path zero_sha sample_leases sample_actor) empty_root = Inr None"
    by (simp add: current_of_actor_def sample_unread)
  moreover have "decided_lease sample_actor None (idleLeaseUpdate sample_identity) (TimeValue (Some 0)) DEFAULT_TTL_MS =
      Inr sample_lease"
    using sample_choice by (simp add: decided_lease_def sample_detached sameActor_eq sample_actor_def)
  moreover have "snd (atomicReplace zero_sha (js ''1'') (lease_path zero_sha sample_leases sample_actor) sample_lease
      empty_root) = Inr ()"
    by (rule replace_lease_succeeds [OF tree_empty_root sample_unread _ sample_valid, of _ sample_leases])
      (simp_all add: empty_root_None lease_temporary_def)
  ultimately show ?thesis
    by (cases "atomicReplace zero_sha (js ''1'') (lease_path zero_sha sample_leases sample_actor) sample_lease empty_root")
      (simp add: update_lease_def commit_decision_def compensate_def attempt_def andThen_def observe_def effect_def
        return_def sample_update_options_def)
qed

theorem update_decides_on_current_witness:
  "\<exists>tr. update_lease zero_sha sample_leases id (js ''1'') sample_actor
      (\<lambda>_. return (Write (idleLeaseUpdate sample_identity))) sample_update_options empty_root =
      (tr, Inr (Committed sample_lease)) \<and>
    readPath (lease_path zero_sha sample_leases sample_actor) (last (empty_root # tr)) = stored sample_lease"
proof -
  have quiet: "quiet_update sample_leases (\<lambda>_. return (Write (idleLeaseUpdate sample_identity))) sample_update_options"
    by (simp add: quiet_update_def traced_pure sample_update_options_def)
  obtain tr where tr: "update_lease zero_sha sample_leases id (js ''1'') sample_actor
      (\<lambda>_. return (Write (idleLeaseUpdate sample_identity))) sample_update_options empty_root =
      (tr, Inr (Committed sample_lease))"
    using sample_updated by (metis prod.collapse)
  from update_decides_on_current [where others = id, OF _ quiet tr] tree_empty_root tr show ?thesis by auto
qed

end
