(* ===== verification/Lease_Claims.thy ===== *)
theory Lease_Claims
  imports Active_Store
begin

text \<open>
  \<open>active/conflicts.ts\<close> and the path normalization of \<open>core/content.ts\<close>: the paths the visible leases
  claim to write, normalized to the workspace, and where the claims of two workstreams overlap.

  The functions \<open>resolve\<close> and \<open>relative\<close> of \<open>node:path\<close> are modelled on POSIX, over the segments of
  absolute paths; \<open>cwd\<close> is the working directory of the process.
\<close>

section \<open>Paths\<close>

text \<open>Normalization of segments: \<open>.\<close> and empty segments vanish, \<open>..\<close> removes the one before.\<close>

fun normalize_segments :: "jstr list \<Rightarrow> jstr list \<Rightarrow> jstr list" where
  "normalize_segments acc [] = acc"
| "normalize_segments acc (s # ss) =
     (if s = [] \<or> s = js ''.'' then normalize_segments acc ss
      else if s = js ''..'' then normalize_segments (butlast acc) ss
      else normalize_segments (acc @ [s]) ss)"

definition resolve_path :: "jstr list \<Rightarrow> jstr \<Rightarrow> jstr list" where
  "resolve_path cwd p = normalize_segments (if isAbsolute p then [] else cwd) (path_parts p)"

definition relative_path :: "jstr list \<Rightarrow> jstr list \<Rightarrow> jstr" where
  "relative_path a b =
     (let common = length (longest_common_prefix a b)
      in join [0x2F] (replicate (length a - common) (js ''..'') @ drop common b))"

definition normalizeRepoPath :: "jstr list \<Rightarrow> jstr option \<Rightarrow> jstr \<Rightarrow> jstr option" where
  "normalizeRepoPath cwd workspaceRoot candidate =
     (case workspaceRoot of
        None \<Rightarrow> None
      | Some r \<Rightarrow>
          if r = [] then None
          else if 0 \<in> set candidate \<or> 0x5C \<in> set candidate \<or> drive_path candidate then None
          else
            let root = resolve_path cwd r; absolute = resolve_path root candidate;
                rel = relative_path root absolute
            in if rel = [] \<or> rel = js ''..'' \<or> prefix (js ''../'') rel \<or> prefix (js ''/'') rel then None
               else if 0x5C \<in> set rel \<or> 0 \<in> set rel \<or> prefix (js ''/'') rel \<or> drive_path rel \<or>
                       js ''..'' \<in> set (path_parts rel) then None
               else Some rel)"

section \<open>Claims\<close>

datatype claim_confidence = ExactClaim | InferredClaim | UnknownClaim

fun confidence_name :: "claim_confidence \<Rightarrow> jstr" where
  "confidence_name ExactClaim = js ''exact''"
| "confidence_name InferredClaim = js ''inferred''"
| "confidence_name UnknownClaim = js ''unknown''"

record write_claim =
  wc_lease_id :: jstr
  wc_provider :: jstr
  wc_session_id :: jstr
  wc_agent_id :: jstr
  wc_workstream_id :: "jstr option"
  wc_path :: "jstr option"
  wc_confidence :: claim_confidence
  wc_unknown_write_scope :: bool
  wc_expires_at :: jstr

definition claimPathsOverlap :: "jstr \<Rightarrow> jstr \<Rightarrow> bool" where
  "claimPathsOverlap l r \<longleftrightarrow> l = r \<or> prefix (r @ js ''/'') l \<or> prefix (l @ js ''/'') r"

text \<open>The paths a lease claims, in the order they are first named, with the weaker confidence of
  duplicates; and whether some claim could not be placed.\<close>

definition claim_path :: "jsval \<Rightarrow> jstr" where
  "claim_path c = (case as_object c of None \<Rightarrow> []
     | Some ps \<Rightarrow> (case as_string (jget ps ''path'') of None \<Rightarrow> [] | Some s \<Rightarrow> s))"

definition claim_confidence_of :: "jsval \<Rightarrow> claim_confidence" where
  "claim_confidence_of c = (case as_object c of None \<Rightarrow> InferredClaim
     | Some ps \<Rightarrow> if jget ps ''confidence'' = JStr (js ''exact'') then ExactClaim else InferredClaim)"

fun collect_paths ::
  "(jstr \<Rightarrow> jstr option) \<Rightarrow> jsval list \<Rightarrow> (jstr \<times> claim_confidence) list \<Rightarrow> bool \<Rightarrow>
   (jstr \<times> claim_confidence) list \<times> bool" where
  "collect_paths place [] paths unknown = (paths, unknown)"
| "collect_paths place (c # cs) paths unknown =
     (case place (claim_path c) of
        None \<Rightarrow> collect_paths place cs paths True
      | Some p \<Rightarrow>
          collect_paths place cs
            (AList.update p
              (if map_of paths p = Some InferredClaim then InferredClaim else claim_confidence_of c) paths)
            unknown)"

definition lease_claims :: "lease \<Rightarrow> jsval list" where
  "lease_claims l = (case as_array (jget l ''claims'') of None \<Rightarrow> [] | Some xs \<Rightarrow> xs)"

definition owner_of :: "lease \<Rightarrow> bool \<Rightarrow> jstr option \<Rightarrow> claim_confidence \<Rightarrow> write_claim" where
  "owner_of l unknown path confidence =
     \<lparr> wc_lease_id = lease_text l ''lease_id'', wc_provider = lease_text l ''provider'',
       wc_session_id = lease_text l ''session_id'', wc_agent_id = lease_text l ''agent_id'',
       wc_workstream_id = as_string (jget l ''workstream_id''), wc_path = path, wc_confidence = confidence,
       wc_unknown_write_scope = unknown, wc_expires_at = lease_text l ''expires_at'' \<rparr>"

definition claims_of_lease :: "(jstr \<Rightarrow> jstr option) \<Rightarrow> lease \<Rightarrow> write_claim list" where
  "claims_of_lease place l =
     (case collect_paths place (lease_claims l) [] (jget l ''unknown_write_scope'' = JBool True) of
        (paths, unknown) \<Rightarrow>
          map (\<lambda>(p, c). owner_of l unknown (Some p) c) paths @
          (if unknown \<and> paths = [] then [owner_of l unknown None UnknownClaim] else []))"

definition lease_skipped :: "lease \<Rightarrow> int \<Rightarrow> bool" where
  "lease_skipped l now \<longleftrightarrow>
     jget l ''state'' = JStr (state_name Idle) \<or>
     (case lease_time l ''expires_at'' of None \<Rightarrow> False | Some e \<Rightarrow> e \<le> now)"

definition or_null :: "jstr option \<Rightarrow> jsval" where
  "or_null s = (case s of None \<Rightarrow> JNull | Some t \<Rightarrow> JStr t)"

text \<open>\<open>stableStringify\<close> of a list of texts, which cannot fail.\<close>

definition identity_text :: "jsval \<Rightarrow> jstr" where
  "identity_text v = (case stableStringify v of Inl _ \<Rightarrow> [] | Inr t \<Rightarrow> t)"

definition claimIdentity :: "write_claim \<Rightarrow> jstr" where
  "claimIdentity c =
     identity_text (JArr [or_null (wc_workstream_id c), JStr (wc_provider c), JStr (wc_session_id c),
       JStr (wc_agent_id c), or_null (wc_path c)])"

definition projectWriteClaims :: "jstr list \<Rightarrow> jstr \<Rightarrow> lease list \<Rightarrow> int \<Rightarrow> write_claim list" where
  "projectWriteClaims cwd projectRoot leases now =
     sort_key claimIdentity
       (concat (map (claims_of_lease (normalizeRepoPath cwd (Some projectRoot)))
         (filter (\<lambda>l. \<not> lease_skipped l now) leases)))"

section \<open>Overlaps\<close>

record claim_overlap =
  ov_local :: write_claim
  ov_foreign :: write_claim
  ov_confidence :: claim_confidence

text \<open>The overlap of two claims, the left one first in the list.\<close>

definition overlap_of :: "jstr option \<Rightarrow> write_claim \<Rightarrow> write_claim \<Rightarrow> claim_overlap option" where
  "overlap_of workstreamId left right =
     (case (wc_path left, wc_path right) of
        (Some p, Some q) \<Rightarrow>
          if wc_workstream_id left = wc_workstream_id right then None
          else if wc_provider left = wc_provider right \<and> wc_session_id left = wc_session_id right then None
          else if workstreamId \<noteq> None \<and> wc_workstream_id left \<noteq> workstreamId \<and>
                  wc_workstream_id right \<noteq> workstreamId then None
          else if \<not> claimPathsOverlap p q then None
          else
            Some \<lparr> ov_local = (if workstreamId \<noteq> None \<and> workstreamId = wc_workstream_id right then right else left),
                   ov_foreign = (if workstreamId \<noteq> None \<and> workstreamId = wc_workstream_id right then left else right),
                   ov_confidence =
                     (if wc_confidence left = ExactClaim \<and> wc_confidence right = ExactClaim \<and> p = q
                      then ExactClaim else InferredClaim) \<rparr>
      | _ \<Rightarrow> None)"

fun projectClaimOverlaps :: "write_claim list \<Rightarrow> jstr option \<Rightarrow> claim_overlap list" where
  "projectClaimOverlaps [] workstreamId = []"
| "projectClaimOverlaps (left # rest) workstreamId =
     List.map_filter (overlap_of workstreamId left) rest @ projectClaimOverlaps rest workstreamId"

text \<open>What makes two reports of an overlap the same: everything but the times of expiry.\<close>

definition claim_document :: "write_claim \<Rightarrow> jsval" where
  "claim_document c =
     JObj [(js ''lease_id'', JStr (wc_lease_id c)), (js ''provider'', JStr (wc_provider c)),
           (js ''session_id'', JStr (wc_session_id c)), (js ''agent_id'', JStr (wc_agent_id c)),
           (js ''workstream_id'', or_null (wc_workstream_id c)),
           (js ''unknown_write_scope'', JBool (wc_unknown_write_scope c)),
           (js ''path'', or_null (wc_path c)), (js ''confidence'', JStr (confidence_name (wc_confidence c)))]"

definition claimOverlapIdentity :: "claim_overlap \<Rightarrow> jstr" where
  "claimOverlapIdentity ov = identity_text (JArr [claim_document (ov_local ov), claim_document (ov_foreign ov)])"

end
