(* ===== verification/Lease_Overlaps.thy ===== *)
theory Lease_Overlaps
  imports Lease_Claims Active_Writes
begin

text \<open>
  What the projection of write claims guarantees: a normalized path is in the one form the lease
  format accepts, overlap is containment of directories, and exactly the claims of visible leases
  and the overlaps between different workstreams are reported.
\<close>

section \<open>Segments\<close>

lemma path_parts_ne [simp]: "path_parts s \<noteq> []"
  by (induction s) (auto split: list.split)

lemma path_parts_Cons: "path_parts (u # us) =
    (if u = 0x2F then [] # path_parts us else (u # hd (path_parts us)) # tl (path_parts us))"
  by (cases "path_parts us") simp_all

lemma path_parts_append: "path_parts (x @ 0x2F # y) = path_parts x @ path_parts y"
  by (induction x) (simp_all add: path_parts_Cons del: path_parts.simps(2))

lemma path_parts_plain: "0x2F \<notin> set s \<Longrightarrow> path_parts s = [s]"
  by (induction s) (simp_all add: path_parts_Cons del: path_parts.simps(2))

lemma path_parts_no_slash: "t \<in> set (path_parts s) \<Longrightarrow> 0x2F \<notin> set t"
proof (induction s arbitrary: t)
  case (Cons u us)
  then show ?case
    using list.set_sel(1) [OF path_parts_ne [of us]] list.set_sel(2) [OF path_parts_ne [of us]]
    by (auto simp: path_parts_Cons simp del: path_parts.simps(2) split: if_splits)
qed simp

lemma join_segment: "xs \<noteq> [] \<Longrightarrow> join sep (x # xs) = x @ sep @ join sep xs"
  by (cases xs) (simp_all add: join_def)

lemma join_single [simp]: "join sep [x] = x"
  by (simp add: join_def)

lemma join_Nil [simp]: "join sep [] = []"
  by (simp add: join_def)

lemma path_parts_join: "xs \<noteq> [] \<Longrightarrow> \<forall>x\<in>set xs. 0x2F \<notin> set x \<Longrightarrow> path_parts (join [0x2F] xs) = xs"
proof (induction xs)
  case (Cons x xs)
  then show ?case by (cases "xs = []") (simp_all add: path_parts_plain join_segment path_parts_append)
qed simp

lemma join_path_parts: "join [0x2F] (path_parts s) = s"
proof (induction s)
  case (Cons u us)
  have "join [0x2F] ((u # p) # ps) = u # join [0x2F] (p # ps)" for p ps
    by (cases ps) (simp_all add: join_def)
  then show ?case
    using Cons by (simp add: path_parts_Cons join_segment del: path_parts.simps(2))
qed simp

definition plain_segment :: "jstr \<Rightarrow> bool" where
  "plain_segment s \<longleftrightarrow> s \<noteq> [] \<and> s \<noteq> js ''.'' \<and> s \<noteq> js ''..'' \<and> 0x2F \<notin> set s"

lemma normalize_plain:
  "list_all plain_segment acc \<Longrightarrow> \<forall>s\<in>set ss. 0x2F \<notin> set s \<Longrightarrow> list_all plain_segment (normalize_segments acc ss)"
proof (induction acc ss rule: normalize_segments.induct)
  case (2 acc s ss)
  have "list_all plain_segment (butlast acc)" using 2(4) by (auto simp: list_all_iff dest: in_set_butlastD)
  moreover have "list_all plain_segment (acc @ [s])" if "s \<noteq> []" "s \<noteq> js ''.''" "s \<noteq> js ''..''"
    using 2(4,5) that by (auto simp: list_all_iff plain_segment_def)
  ultimately show ?case using 2 by simp
qed simp

lemma normalize_append: "list_all plain_segment ss \<Longrightarrow> normalize_segments acc ss = acc @ ss"
  by (induction ss arbitrary: acc) (simp_all add: plain_segment_def)

lemma resolve_plain: "list_all plain_segment cwd \<Longrightarrow> list_all plain_segment (resolve_path cwd p)"
  unfolding resolve_path_def by (rule normalize_plain) (auto dest: path_parts_no_slash)

section \<open>Normalized paths\<close>

lemma common_prefix: "prefix (longest_common_prefix a b) a" "prefix (longest_common_prefix a b) b"
  by (rule longest_common_prefix_prefix1 longest_common_prefix_prefix2)+

text \<open>A relative path that does not start with \<open>..\<close> stays below.\<close>

lemma relative_below:
  assumes "relative_path a b \<noteq> js ''..''" "\<not> prefix (js ''../'') (relative_path a b)" "relative_path a b \<noteq> []"
  shows "\<exists>s. s \<noteq> [] \<and> b = a @ s \<and> relative_path a b = join [0x2F] s"
proof -
  let ?c = "longest_common_prefix a b"
  let ?k = "length a - length ?c" and ?rest = "drop (length ?c) b"
  have rel: "relative_path a b = join [0x2F] (replicate ?k (js ''..'') @ ?rest)"
    by (simp add: relative_path_def Let_def)
  have "?k = 0"
  proof (rule ccontr)
    assume "?k \<noteq> 0"
    then obtain k where k: "?k = Suc k" using not0_implies_Suc by blast
    have "relative_path a b = js ''..'' \<or> prefix (js ''../'') (relative_path a b)"
    proof (cases "replicate k (js ''..'') @ ?rest = []")
      case False
      then have "relative_path a b = js ''..'' @ [0x2F] @ join [0x2F] (replicate k (js ''..'') @ ?rest)"
        unfolding rel k by (simp add: join_segment)
      then show ?thesis by (simp add: js_def)
    qed (simp add: rel k)
    with assms(1,2) show False by blast
  qed
  moreover have "take (length ?c) a = ?c" "take (length ?c) b = ?c"
    using common_prefix [of a b] by (metis prefix_def append_eq_conv_conj)+
  ultimately have "a = ?c" using prefix_length_le [OF common_prefix(1) [of a b]] by (metis diff_is_0_eq le_antisym take_all)
  then have "b = a @ ?rest" using \<open>take (length ?c) b = ?c\<close> by (metis append_take_drop_id)
  moreover have "?rest \<noteq> []" using rel \<open>?k = 0\<close> assms(3) by auto
  ultimately show ?thesis using rel \<open>?k = 0\<close> by (intro exI [of _ ?rest]) simp
qed

lemma relative_append: "relative_path a (a @ s) = join [0x2F] s"
proof -
  have "longest_common_prefix a (a @ s) = a" by (induction a) (cases s, simp_all)
  then show ?thesis by (simp add: relative_path_def Let_def)
qed

lemma normalizeRepoPath_Some:
  assumes "normalizeRepoPath cwd (Some w) candidate = Some p"
  obtains s where "s \<noteq> []" "resolve_path (resolve_path cwd w) candidate = resolve_path cwd w @ s" "p = join [0x2F] s"
    "w \<noteq> []" "p \<noteq> []" "repo_path p" "\<not> prefix (js ''/'') p" "p \<noteq> js ''..''" "\<not> prefix (js ''../'') p"
proof -
  let ?r = "resolve_path cwd w" and ?a = "resolve_path (resolve_path cwd w) candidate"
  have p: "p = relative_path ?r ?a" "p \<noteq> []" "p \<noteq> js ''..''" "\<not> prefix (js ''../'') p" "\<not> prefix (js ''/'') p"
    "0x5C \<notin> set p" "0 \<notin> set p" "\<not> drive_path p" "js ''..'' \<notin> set (path_parts p)" "w \<noteq> []"
    using assms by (auto simp: normalizeRepoPath_def Let_def split: if_splits)
  have "\<not> isAbsolute p" using p(2,5) by (cases p) (auto simp: isAbsolute_def js_def)
  with p have "repo_path p" by (simp add: repo_path_def)
  moreover obtain s where "s \<noteq> []" "?a = ?r @ s" "p = join [0x2F] s"
    using relative_below [of ?r ?a] p by auto
  ultimately show thesis using that p by blast
qed

lemma normalize_again:
  assumes "list_all plain_segment cwd" "normalizeRepoPath cwd (Some w) candidate = Some p"
  shows "list_all plain_segment (path_parts p)" "normalizeRepoPath cwd (Some w) p = Some p"
    "resolve_path (resolve_path cwd w) p = resolve_path (resolve_path cwd w) candidate"
proof -
  let ?r = "resolve_path cwd w"
  from assms(2) obtain s where s: "s \<noteq> []" "resolve_path ?r candidate = ?r @ s" "p = join [0x2F] s"
    "w \<noteq> []" "p \<noteq> []" "repo_path p" "\<not> prefix (js ''/'') p" "p \<noteq> js ''..''" "\<not> prefix (js ''../'') p"
    by (rule normalizeRepoPath_Some)
  have "list_all plain_segment (?r @ s)"
    using resolve_plain [OF resolve_plain [OF assms(1)], of w candidate] by (simp add: s(2))
  then have plain: "list_all plain_segment s" by simp
  then have parts: "path_parts p = s" unfolding s(3) using s(1) by (intro path_parts_join) (auto simp: list_all_iff plain_segment_def)
  then show "list_all plain_segment (path_parts p)" using plain by simp
  have abs: "\<not> isAbsolute p" using s(6) by (simp add: repo_path_def)
  have again: "resolve_path ?r p = ?r @ s"
    using abs by (simp add: resolve_path_def [of ?r] parts normalize_append [OF plain])
  then show "resolve_path ?r p = resolve_path ?r candidate" by (simp add: s(2))
  show "normalizeRepoPath cwd (Some w) p = Some p"
    using s(4-9) again by (simp add: normalizeRepoPath_def Let_def relative_append s(3) [symmetric] repo_path_def)
qed

section \<open>Containment\<close>

definition within_dir :: "jstr \<Rightarrow> jstr \<Rightarrow> bool" where
  "within_dir p d \<longleftrightarrow> prefix (path_parts d) (path_parts p)"

lemma below_iff: "p = d \<or> prefix (d @ [0x2F]) p \<longleftrightarrow> within_dir p d"
proof
  assume "p = d \<or> prefix (d @ [0x2F]) p"
  then show "within_dir p d" by (auto simp: within_dir_def prefix_def path_parts_append)
next
  assume "within_dir p d"
  then obtain ts where ts: "path_parts p = path_parts d @ ts" by (auto simp: within_dir_def prefix_def)
  show "p = d \<or> prefix (d @ [0x2F]) p"
  proof (cases ts)
    case Nil
    then show ?thesis using ts join_path_parts by (metis append_Nil2)
  next
    case (Cons t ts')
    have "path_parts (d @ 0x2F # join [0x2F] ts) = path_parts p"
      unfolding path_parts_append ts
      using path_parts_join [of ts] Cons ts path_parts_no_slash [of _ p] by auto
    then have "p = d @ 0x2F # join [0x2F] ts" using join_path_parts by metis
    then show ?thesis by simp
  qed
qed

lemma claimPathsOverlap_iff: "claimPathsOverlap l r \<longleftrightarrow> within_dir l r \<or> within_dir r l"
  using below_iff [of l r] below_iff [of r l] by (auto simp: claimPathsOverlap_def js_def)

section \<open>The claims of a lease\<close>

definition claims_at :: "(jstr \<Rightarrow> jstr option) \<Rightarrow> jsval list \<Rightarrow> jstr \<Rightarrow> jsval set" where
  "claims_at place cs p = {c \<in> set cs. place (claim_path c) = Some p}"

text \<open>The weaker confidence of the claims of a path.\<close>

definition weakest :: "jsval set \<Rightarrow> claim_confidence" where
  "weakest C = (if \<exists>c\<in>C. claim_confidence_of c = InferredClaim then InferredClaim else ExactClaim)"

definition unplaced :: "(jstr \<Rightarrow> jstr option) \<Rightarrow> jsval list \<Rightarrow> bool" where
  "unplaced place cs \<longleftrightarrow> (\<exists>c\<in>set cs. place (claim_path c) = None)"

lemma confidence_two: "claim_confidence_of c = ExactClaim \<or> claim_confidence_of c = InferredClaim"
  by (simp add: claim_confidence_of_def split: option.split)

lemma claims_at_Cons:
  "claims_at place (c # cs) p = (if place (claim_path c) = Some p then insert c (claims_at place cs p) else claims_at place cs p)"
  by (auto simp: claims_at_def)

lemma weakest_insert:
  "weakest (insert c C) = (if claim_confidence_of c = InferredClaim then InferredClaim else weakest C)"
  by (auto simp: weakest_def)

lemma collect_paths_result:
  assumes "collect_paths place cs paths unknown = (paths', unknown')"
    "distinct (map fst paths)" "\<forall>c\<in>snd ` set paths. c \<noteq> UnknownClaim"
  shows "distinct (map fst paths')" "unknown' \<longleftrightarrow> unknown \<or> unplaced place cs"
    "map_of paths' p =
       (if claims_at place cs p = {} then map_of paths p
        else Some (if map_of paths p = Some InferredClaim then InferredClaim else weakest (claims_at place cs p)))"
proof -
  have "distinct (map fst paths') \<and> (unknown' \<longleftrightarrow> unknown \<or> unplaced place cs) \<and>
    map_of paths' p =
       (if claims_at place cs p = {} then map_of paths p
        else Some (if map_of paths p = Some InferredClaim then InferredClaim else weakest (claims_at place cs p)))"
    using assms
  proof (induction place cs paths unknown rule: collect_paths.induct)
    case (1 place paths unknown)
    then show ?case by (simp add: claims_at_def unplaced_def)
  next
    case (2 place c cs paths unknown)
    show ?case
    proof (cases "place (claim_path c)")
      case None
      with 2 show ?thesis by (simp add: claims_at_Cons unplaced_def)
    next
      case (Some q)
      let ?v = "if map_of paths q = Some InferredClaim then InferredClaim else claim_confidence_of c"
      let ?paths = "AList.update q ?v paths"
      have d: "distinct (map fst ?paths)" using 2(4) by (rule distinct_update)
      have "set ?paths \<subseteq> insert (q, ?v) (set paths)" by (induction paths) auto
      then have u: "\<forall>c\<in>snd ` set ?paths. c \<noteq> UnknownClaim"
        using 2(5) confidence_two [of c] by (auto split: if_splits)
      from 2(2) [OF Some _ d u] 2(3) Some have ih: "distinct (map fst paths')" "unknown' \<longleftrightarrow> unknown \<or> unplaced place cs"
        "map_of paths' p = (if claims_at place cs p = {} then map_of ?paths p
          else Some (if map_of ?paths p = Some InferredClaim then InferredClaim else weakest (claims_at place cs p)))"
        by simp_all
      have empty: "weakest {} = ExactClaim" by (simp add: weakest_def)
      show ?thesis
        using ih Some confidence_two [of c]
        by (auto simp: update_conv' claims_at_Cons weakest_insert empty unplaced_def)
    qed
  qed
  then show "distinct (map fst paths')" "unknown' \<longleftrightarrow> unknown \<or> unplaced place cs"
    "map_of paths' p =
       (if claims_at place cs p = {} then map_of paths p
        else Some (if map_of paths p = Some InferredClaim then InferredClaim else weakest (claims_at place cs p)))"
    by blast+
qed

text \<open>What a lease claims, in terms of its claims alone.\<close>

definition unknown_scope :: "(jstr \<Rightarrow> jstr option) \<Rightarrow> lease \<Rightarrow> bool" where
  "unknown_scope place l \<longleftrightarrow> jget l ''unknown_write_scope'' = JBool True \<or> unplaced place (lease_claims l)"

definition claimed_by :: "(jstr \<Rightarrow> jstr option) \<Rightarrow> lease \<Rightarrow> write_claim \<Rightarrow> bool" where
  "claimed_by place l c \<longleftrightarrow>
     (\<exists>p. claims_at place (lease_claims l) p \<noteq> {} \<and>
        c = owner_of l (unknown_scope place l) (Some p) (weakest (claims_at place (lease_claims l) p))) \<or>
     (\<forall>p. claims_at place (lease_claims l) p = {}) \<and> unknown_scope place l \<and>
       c = owner_of l True None UnknownClaim"

lemma claims_of_lease_mem: "c \<in> set (claims_of_lease place l) \<longleftrightarrow> claimed_by place l c"
proof -
  obtain paths unknown where r: "collect_paths place (lease_claims l) [] (jget l ''unknown_write_scope'' = JBool True) =
      (paths, unknown)" by (rule prod.exhaust)
  note res = collect_paths_result [OF r]
  have d: "distinct (map fst paths)" and u: "unknown = unknown_scope place l"
    using res(1,2) by (simp_all add: unknown_scope_def)
  have at: "(p, k) \<in> set paths \<longleftrightarrow> claims_at place (lease_claims l) p \<noteq> {} \<and> k = weakest (claims_at place (lease_claims l) p)" for p k
  proof -
    have "map_of paths p = (if claims_at place (lease_claims l) p = {} then None
        else Some (weakest (claims_at place (lease_claims l) p)))"
      unfolding res(3) [of p, simplified] by simp
    then show ?thesis using map_of_eq_Some_iff [OF d, of p k] by (auto split: if_splits)
  qed
  have "c \<in> set (claims_of_lease place l) \<longleftrightarrow>
      (\<exists>p k. (p, k) \<in> set paths \<and> c = owner_of l unknown (Some p) k) \<or>
      paths = [] \<and> unknown \<and> c = owner_of l unknown None UnknownClaim"
    by (auto simp: claims_of_lease_def r)
  moreover have "paths = [] \<longleftrightarrow> (\<forall>p. claims_at place (lease_claims l) p = {})"
    using at by (metis ex_in_conv list.set_intros(1) set_empty surj_pair)
  ultimately show ?thesis unfolding claimed_by_def at u by auto
qed

section \<open>Overlaps\<close>

lemma map_filter_mem: "y \<in> set (List.map_filter f xs) \<longleftrightarrow> (\<exists>x\<in>set xs. f x = Some y)"
  by (induction xs) (auto simp: List.map_filter_def)

lemma projectClaimOverlaps_mem:
  "ov \<in> set (projectClaimOverlaps cs w) \<longleftrightarrow> (\<exists>i j. i < j \<and> j < length cs \<and> overlap_of w (cs ! i) (cs ! j) = Some ov)"
proof (induction cs w rule: projectClaimOverlaps.induct)
  case (2 left rest w)
  have "(\<exists>i j. i < j \<and> j < length (left # rest) \<and> overlap_of w ((left # rest) ! i) ((left # rest) ! j) = Some ov) \<longleftrightarrow>
      (\<exists>j<length rest. overlap_of w left (rest ! j) = Some ov) \<or>
      (\<exists>i j. i < j \<and> j < length rest \<and> overlap_of w (rest ! i) (rest ! j) = Some ov)" (is "?L \<longleftrightarrow> ?R")
  proof
    assume ?L
    then obtain i j where ij: "i < j" "j < length (left # rest)"
      "overlap_of w ((left # rest) ! i) ((left # rest) ! j) = Some ov" by blast
    then obtain j' where j: "j = Suc j'" by (cases j) auto
    show ?R
    proof (cases i)
      case 0
      then show ?thesis using ij j by auto
    next
      case (Suc i')
      then show ?thesis using ij j by (intro disjI2 exI [of _ i'] exI [of _ j']) simp
    qed
  next
    assume ?R
    then show ?L
    proof
      assume "\<exists>j<length rest. overlap_of w left (rest ! j) = Some ov"
      then obtain j where "j < length rest" "overlap_of w left (rest ! j) = Some ov" by blast
      then show ?thesis by (intro exI [of _ 0] exI [of _ "Suc j"]) simp
    next
      assume "\<exists>i j. i < j \<and> j < length rest \<and> overlap_of w (rest ! i) (rest ! j) = Some ov"
      then obtain i j where "i < j" "j < length rest" "overlap_of w (rest ! i) (rest ! j) = Some ov" by blast
      then show ?thesis by (intro exI [of _ "Suc i"] exI [of _ "Suc j"]) simp
    qed
  qed
  moreover have "(\<exists>x\<in>set rest. overlap_of w left x = Some ov) \<longleftrightarrow> (\<exists>j<length rest. overlap_of w left (rest ! j) = Some ov)"
    by (metis in_set_conv_nth)
  ultimately show ?case using 2 unfolding projectClaimOverlaps.simps set_append Un_iff map_filter_mem by blast
qed simp

text \<open>Two claims collide: known paths, one inside the other, of different workstreams and sessions.\<close>

definition collide :: "write_claim \<Rightarrow> write_claim \<Rightarrow> bool" where
  "collide a b \<longleftrightarrow> wc_workstream_id a \<noteq> wc_workstream_id b \<and>
     (wc_provider a, wc_session_id a) \<noteq> (wc_provider b, wc_session_id b) \<and>
     (\<exists>p q. wc_path a = Some p \<and> wc_path b = Some q \<and> (within_dir p q \<or> within_dir q p))"

definition concerns :: "jstr option \<Rightarrow> write_claim \<Rightarrow> write_claim \<Rightarrow> bool" where
  "concerns w a b \<longleftrightarrow> w = None \<or> wc_workstream_id a = w \<or> wc_workstream_id b = w"

definition overlap_report :: "jstr option \<Rightarrow> write_claim \<Rightarrow> write_claim \<Rightarrow> claim_overlap" where
  "overlap_report w a b =
     \<lparr> ov_local = (if w \<noteq> None \<and> w = wc_workstream_id b then b else a),
       ov_foreign = (if w \<noteq> None \<and> w = wc_workstream_id b then a else b),
       ov_confidence = (if wc_confidence a = ExactClaim \<and> wc_confidence b = ExactClaim \<and> wc_path a = wc_path b
                        then ExactClaim else InferredClaim) \<rparr>"

lemma overlap_of_Some:
  "overlap_of w a b = Some ov \<longleftrightarrow> collide a b \<and> concerns w a b \<and> ov = overlap_report w a b"
  by (auto simp: overlap_of_def collide_def concerns_def overlap_report_def claimPathsOverlap_iff split: option.splits)

section \<open>Properties\<close>

text \<open>C39: A path that is normalized to a workspace is one the lease format accepts, in its only spelling:
  its segments are plain names, normalizing it again gives it back, and it names the file that the
  candidate named.  The working directory is taken to be an absolute normalized path.\<close>

theorem normalizeRepoPath_canonical:
  assumes "list_all plain_segment cwd" "normalizeRepoPath cwd (Some w) candidate = Some p"
  shows "validateRepoPath path (JStr p) = [] \<and> list_all plain_segment (path_parts p) \<and>
    normalizeRepoPath cwd (Some w) p = Some p \<and>
    resolve_path (resolve_path cwd w) p = resolve_path (resolve_path cwd w) candidate"
proof -
  from assms(2) have "p \<noteq> []" "repo_path p" by (rule normalizeRepoPath_Some, simp)+
  then show ?thesis using normalize_again [OF assms] by (simp add: validateRepoPath_Nil)
qed

theorem normalizeRepoPath_canonical_witness:
  "validateRepoPath (js ''$'') (JStr (js ''a/c'')) = [] \<and>
   normalizeRepoPath [js ''w''] (Some (js ''/w'')) (js ''a/c'') = Some (js ''a/c'')"
proof -
  have "normalizeRepoPath [js ''w''] (Some (js ''/w'')) (js ''./a/b/../c'') = Some (js ''a/c'')" by code_simp
  moreover have "list_all plain_segment [js ''w'']" by (simp add: plain_segment_def js_def)
  ultimately show ?thesis using normalizeRepoPath_canonical by blast
qed

text \<open>The write claims are exactly those of the leases that are neither idle nor expired: each
  normalized path a lease names, with the weaker confidence of its claims, or the one claim
  without a path when nothing is known but that something is written; in the order of their owners
  and paths.\<close>

theorem projectWriteClaims_exact:
  "sorted (map claimIdentity (projectWriteClaims cwd root leases now)) \<and>
   (c \<in> set (projectWriteClaims cwd root leases now) \<longleftrightarrow>
     (\<exists>l. l \<in> set leases \<and> \<not> lease_skipped l now \<and> claimed_by (normalizeRepoPath cwd (Some root)) l c))"
  by (auto simp: projectWriteClaims_def claims_of_lease_mem)

text \<open>C38: An overlap is reported exactly for the pairs of claims that collide: of different workstreams
  and different sessions, with known paths one of which is the other or a directory above it, and
  one of them in the workstream asked for, if any; that one is the local one.\<close>

theorem projectClaimOverlaps_exact:
  "ov \<in> set (projectClaimOverlaps cs w) \<longleftrightarrow>
     (\<exists>i j. i < j \<and> j < length cs \<and> collide (cs ! i) (cs ! j) \<and> concerns w (cs ! i) (cs ! j) \<and>
        ov = overlap_report w (cs ! i) (cs ! j))"
  unfolding projectClaimOverlaps_mem overlap_of_Some ..

end
