(* ===== verification/Directory_Lock.thy ===== *)
theory Directory_Lock
  imports Text_Bounds
begin

text \<open>
  \<open>output/directory-lock.ts\<close>: the lock of a resource is the directory \<open>resource.lock\<close>, made by its
  holder, with the file \<open>owner.json\<close> in it that names the holder.  A lock whose holder is gone is
  removed by whoever wants it next.

  The tasks that want the lock run concurrently; a step is a call to the operating system, with the
  code up to the next one.  Some steps stand for several calls made one after the other: the
  verification of a path, which looks at each of its directories; the read of \<open>owner.json\<close>, which opens,
  reads and closes it; and, once the file has been made, writing, syncing and closing it.  What another
  task does between the calls of such a step is not modelled.  \<open>lock_pc\<close> is where a task stands, with
  the local variables that are still needed.  The directory of the resource is taken to exist, so that
  \<open>ensureDirectory\<close> on it does nothing, and to be shared on a file system whose times come from the
  clock \<open>Date.now\<close> reads.  \<open>lw_alive\<close> is the answer of \<open>isProcessAlive\<close>, for which a process that may not
  be signalled (\<open>EPERM\<close>) is alive; a process id is not given to another process.
\<close>

section \<open>Options\<close>

record lock_request =
  lr_wait :: "int option"
  lr_poll :: "int option"
  lr_stale :: "int option"

record lock_options =
  wait_timeout :: int
  poll_interval :: int
  stale_after :: int

definition positiveInteger :: "int \<Rightarrow> int result" where
  "positiveInteger v = (if safe_pos v then Inr v else Inl TypeError)"

definition nonNegativeInteger :: "int \<Rightarrow> int result" where
  "nonNegativeInteger v = (if safe_nonneg v then Inr v else Inl TypeError)"

definition or_else :: "'a \<Rightarrow> 'a option \<Rightarrow> 'a" where
  "or_else d v = (case v of None \<Rightarrow> d | Some x \<Rightarrow> x)"

definition DEFAULT_WAIT_TIMEOUT_MS :: int where "DEFAULT_WAIT_TIMEOUT_MS = 30000"
definition DEFAULT_POLL_INTERVAL_MS :: int where "DEFAULT_POLL_INTERVAL_MS = 20"
definition DEFAULT_STALE_AFTER_MS :: int where "DEFAULT_STALE_AFTER_MS = 60000"
definition MAX_LOCK_OWNER_BYTES :: int where "MAX_LOCK_OWNER_BYTES = 16 * 1024"

definition resolveLockOptions :: "lock_request \<Rightarrow> lock_options result" where
  "resolveLockOptions req =
     (case nonNegativeInteger (or_else DEFAULT_WAIT_TIMEOUT_MS (lr_wait req)) of Inl e \<Rightarrow> Inl e
      | Inr w \<Rightarrow>
     (case positiveInteger (or_else DEFAULT_POLL_INTERVAL_MS (lr_poll req)) of Inl e \<Rightarrow> Inl e
      | Inr p \<Rightarrow>
     (case positiveInteger (or_else DEFAULT_STALE_AFTER_MS (lr_stale req)) of Inl e \<Rightarrow> Inl e
      | Inr s \<Rightarrow> Inr \<lparr> wait_timeout = w, poll_interval = p, stale_after = s \<rparr>)))"

section \<open>The owner of a lock\<close>

definition LOCK_SCHEMA :: string where
  "LOCK_SCHEMA = ''barbaro.directory-lock.v1''"

record lock_owner =
  lo_pid :: int
  lo_hostname :: jstr
  lo_token :: jstr
  lo_acquired_at :: jstr

definition token_pattern :: "jstr \<Rightarrow> bool" where
  "token_pattern = id_pattern '''' 32"

definition owner_json :: "lock_owner \<Rightarrow> jsval" where
  "owner_json ow =
     JObj [(js ''schema'', JStr (js LOCK_SCHEMA)), (js ''pid'', JNum (NInt (lo_pid ow))),
           (js ''hostname'', JStr (lo_hostname ow)), (js ''token'', JStr (lo_token ow)),
           (js ''acquired_at'', JStr (lo_acquired_at ow))]"

definition isDirectoryLockOwner :: "jsval \<Rightarrow> lock_owner option" where
  "isDirectoryLockOwner v = do {
     ps \<leftarrow> as_object v;
     guard (jget ps ''schema'' = JStr (js LOCK_SCHEMA));
     pid \<leftarrow> as_positive (jget ps ''pid'');
     host \<leftarrow> as_pattern (\<lambda>s. s \<noteq> []) (jget ps ''hostname'');
     token \<leftarrow> as_pattern token_pattern (jget ps ''token'');
     acquired \<leftarrow> as_string (jget ps ''acquired_at'');
     Some \<lparr> lo_pid = pid, lo_hostname = host, lo_token = token, lo_acquired_at = acquired \<rparr> }"

text \<open>What is at the path of the lock: the directory, with the owner file in it (and which file that
  is, for the handles open on it) and the time of its last change; or something else.\<close>

datatype lock_entry = LockDirectory "(nat \<times> json_file) option" int | NoDirectory

fun readLockOwner :: "lock_entry option \<Rightarrow> lock_owner option result" where
  "readLockOwner None = Inr None"
| "readLockOwner (Some NoDirectory) = Inl UnsafeStorePathError"
| "readLockOwner (Some (LockDirectory None changed)) = Inr None"
| "readLockOwner (Some (LockDirectory (Some (i, f)) changed)) =
     (if int (jf_size f) > MAX_LOCK_OWNER_BYTES then Inl StoreFileTooLargeError
      else Inr (case jf_json f of None \<Rightarrow> None | Some v \<Rightarrow> isDirectoryLockOwner v))"

definition normalizeLockPathError :: "js_error \<Rightarrow> js_error" where
  "normalizeLockPathError e =
     (if e = UnsafeStorePathError \<or> e = StoreFileTooLargeError then UnsafeDirectoryLockPathError else e)"

section \<open>Tasks\<close>

datatype lock_pc =
    Idling
  | Acquiring
  | Created
  | Opening lock_owner
  | Filling lock_owner nat
  | Undo_owner bool
  | Undo_directory bool
  | Holding lock_owner
  | Releasing lock_owner "unit result"
  | Release_verify "unit result"
  | Release_unlink "unit result"
  | Release_rmdir "unit result"
  | Contended
  | Examining
  | Reading int
  | Rereading jstr
  | Removing_owner
  | Removing_directory
  | Waiting
  | Sleeping int
  | Settled "unit result"

text \<open>A process is a host and a process id.\<close>

type_synonym process_id = "jstr \<times> int"

record lock_task =
  lt_pc :: lock_pc
  lt_started :: int

record lock_world =
  lw_lock :: "lock_entry option"
  lw_now :: int
  lw_files :: nat
  lw_tokens :: "jstr list"
  lw_alive :: "process_id \<Rightarrow> bool"
  lw_task :: "nat \<Rightarrow> lock_task"

definition pc :: "nat \<Rightarrow> lock_world \<Rightarrow> lock_pc" where
  "pc t w = lt_pc (lw_task w t)"

definition goto :: "nat \<Rightarrow> lock_pc \<Rightarrow> lock_world \<Rightarrow> lock_world" where
  "goto t p w = w\<lparr> lw_task := (lw_task w)(t := (lw_task w t)\<lparr> lt_pc := p \<rparr>) \<rparr>"

definition relock :: "lock_entry option \<Rightarrow> lock_world \<Rightarrow> lock_world" where
  "relock l w = w\<lparr> lw_lock := l \<rparr>"

definition fail :: "js_error \<Rightarrow> lock_pc" where
  "fail e = Settled (Inl (normalizeLockPathError e))"

text \<open>The end of \<open>withDirectoryLock\<close> when the release fails: the error of the operation goes first.\<close>

definition release_failed :: "unit result \<Rightarrow> lock_pc" where
  "release_failed r = (case r of Inl e \<Rightarrow> Settled (Inl e) | Inr _ \<Rightarrow> Settled (Inl DirectoryLockReleaseError))"

definition isStale :: "lock_options \<Rightarrow> process_id \<Rightarrow> lock_world \<Rightarrow> int \<Rightarrow> lock_owner option \<Rightarrow> bool" where
  "isStale opts self w changed owner =
     (case owner of
        None \<Rightarrow> lw_now w - changed \<ge> stale_after opts
      | Some ow \<Rightarrow>
          if lo_hostname ow = fst self then \<not> lw_alive w (fst self, lo_pid ow)
          else lw_now w - changed \<ge> stale_after opts)"

section \<open>Steps\<close>

text \<open>\<open>acquireDirectoryLock\<close>, from \<open>mkdir\<close> to the written owner: \<open>mkdir\<close>, the verification of the new
  directory, the exclusive \<open>open\<close> of \<open>owner.json\<close>, its writing up to \<open>close\<close>, and the two calls that undo
  what was made when one of them fails.\<close>

fun acquire_step :: "process_id \<Rightarrow> jstr \<Rightarrow> nat \<Rightarrow> lock_pc \<Rightarrow> lock_world \<Rightarrow> lock_world" where
  "acquire_step self token t Acquiring w =
     (case lw_lock w of
        None \<Rightarrow> goto t Created (relock (Some (LockDirectory None (lw_now w))) w)
      | Some _ \<Rightarrow> goto t Contended w)"
| "acquire_step self token t Created w =
     (case lw_lock w of
        None \<Rightarrow> goto t (fail UnsafeDirectoryLockPathError) w
      | Some NoDirectory \<Rightarrow> goto t (fail UnsafeStorePathError) w
      | Some (LockDirectory f changed) \<Rightarrow>
          (case toISOString (lw_now w) of
             Inl e \<Rightarrow> goto t (fail e) w
           | Inr now \<Rightarrow>
               goto t (Opening \<lparr> lo_pid = snd self, lo_hostname = fst self, lo_token = token, lo_acquired_at = now \<rparr>)
                 (w\<lparr> lw_tokens := token # lw_tokens w \<rparr>)))"
| "acquire_step self token t (Opening ow) w =
     (case lw_lock w of
        Some (LockDirectory None changed) \<Rightarrow>
          goto t (Filling ow (lw_files w))
            (relock (Some (LockDirectory (Some (lw_files w, \<lparr> jf_size = 0, jf_json = None \<rparr>)) (lw_now w)))
              (w\<lparr> lw_files := lw_files w + 1 \<rparr>))
      | Some (LockDirectory (Some _) changed) \<Rightarrow> goto t (Undo_owner True) w
      | _ \<Rightarrow> goto t (Undo_owner False) w)"
| "acquire_step self token t (Filling ow i) w =
     (case file_of (owner_json ow) of
        Inl e \<Rightarrow> goto t (Undo_owner False) w
      | Inr f \<Rightarrow>
          goto t (Holding ow)
            (case lw_lock w of
               Some (LockDirectory (Some (j, g)) changed) \<Rightarrow>
                 if j = i then relock (Some (LockDirectory (Some (i, f)) changed)) w else w
             | _ \<Rightarrow> w))"
| "acquire_step self token t (Undo_owner exists) w =
     goto t (Undo_directory exists)
       (case lw_lock w of
          Some (LockDirectory (Some _) changed) \<Rightarrow> relock (Some (LockDirectory None (lw_now w))) w
        | _ \<Rightarrow> w)"
| "acquire_step self token t (Undo_directory exists) w =
     goto t (if exists then Contended else fail PlainError)
       (case lw_lock w of Some (LockDirectory None changed) \<Rightarrow> relock None w | _ \<Rightarrow> w)"
| "acquire_step self token t _ w = w"

text \<open>\<open>recoverStaleDirectoryLock\<close>: the verification of the directory, \<open>lstat\<close>, the read of the owner, the
  second read, \<open>unlink\<close> and \<open>rmdir\<close>; and the wait when it gives \<open>false\<close>.\<close>

fun recover_step :: "lock_options \<Rightarrow> process_id \<Rightarrow> nat \<Rightarrow> lock_pc \<Rightarrow> lock_world \<Rightarrow> lock_world" where
  "recover_step opts self t Contended w =
     (case lw_lock w of
        None \<Rightarrow> goto t Acquiring w
      | Some NoDirectory \<Rightarrow> goto t (fail UnsafeStorePathError) w
      | Some (LockDirectory f changed) \<Rightarrow> goto t Examining w)"
| "recover_step opts self t Examining w =
     (case lw_lock w of
        None \<Rightarrow> goto t Acquiring w
      | Some NoDirectory \<Rightarrow> goto t (fail UnsafeDirectoryLockPathError) w
      | Some (LockDirectory f changed) \<Rightarrow> goto t (Reading changed) w)"
| "recover_step opts self t (Reading changed) w =
     (case readLockOwner (lw_lock w) of
        Inl e \<Rightarrow> goto t (fail e) w
      | Inr owner \<Rightarrow>
          if \<not> isStale opts self w changed owner then goto t Waiting w
          else (case owner of None \<Rightarrow> goto t Removing_owner w
                | Some ow \<Rightarrow> goto t (Rereading (lo_token ow)) w))"
| "recover_step opts self t (Rereading token) w =
     (case readLockOwner (lw_lock w) of
        Inl e \<Rightarrow> goto t (fail e) w
      | Inr owner \<Rightarrow>
          if map_option lo_token owner \<noteq> Some token then goto t Acquiring w else goto t Removing_owner w)"
| "recover_step opts self t Removing_owner w =
     (case lw_lock w of
        Some (LockDirectory (Some _) changed) \<Rightarrow>
          goto t Removing_directory (relock (Some (LockDirectory None (lw_now w))) w)
      | Some NoDirectory \<Rightarrow> goto t (fail PlainError) w
      | _ \<Rightarrow> goto t Removing_directory w)"
| "recover_step opts self t Removing_directory w =
     (case lw_lock w of
        None \<Rightarrow> goto t Acquiring w
      | Some NoDirectory \<Rightarrow> goto t (fail PlainError) w
      | Some (LockDirectory None changed) \<Rightarrow> goto t Acquiring (relock None w)
      | Some (LockDirectory (Some _) changed) \<Rightarrow> goto t Waiting w)"
| "recover_step opts self t Waiting w =
     (if lw_now w - lt_started (lw_task w t) \<ge> wait_timeout opts then goto t (fail DirectoryLockTimeoutError) w
      else goto t (Sleeping (lw_now w + poll_interval opts)) w)"
| "recover_step opts self t (Sleeping till) w = (if lw_now w \<ge> till then goto t Acquiring w else w)"
| "recover_step opts self t _ w = w"

text \<open>\<open>releaseDirectoryLock\<close>, after the operation has ended with a result.\<close>

fun release_step :: "nat \<Rightarrow> lock_pc \<Rightarrow> lock_world \<Rightarrow> lock_world" where
  "release_step t (Releasing ow r) w =
     (case readLockOwner (lw_lock w) of
        Inl e \<Rightarrow> goto t (release_failed r) w
      | Inr owner \<Rightarrow>
          if map_option lo_token owner \<noteq> Some (lo_token ow) then goto t (Settled r) w
          else goto t (Release_verify r) w)"
| "release_step t (Release_verify r) w =
     (case lw_lock w of
        None \<Rightarrow> goto t (Settled r) w
      | Some NoDirectory \<Rightarrow> goto t (release_failed r) w
      | Some (LockDirectory f changed) \<Rightarrow> goto t (Release_unlink r) w)"
| "release_step t (Release_unlink r) w =
     (case lw_lock w of
        Some (LockDirectory (Some _) changed) \<Rightarrow>
          goto t (Release_rmdir r) (relock (Some (LockDirectory None (lw_now w))) w)
      | _ \<Rightarrow> goto t (release_failed r) w)"
| "release_step t (Release_rmdir r) w =
     (case lw_lock w of
        Some (LockDirectory None changed) \<Rightarrow> goto t (Settled r) (relock None w)
      | _ \<Rightarrow> goto t (release_failed r) w)"
| "release_step t _ w = w"

definition task_step :: "lock_options \<Rightarrow> (nat \<Rightarrow> process_id) \<Rightarrow> jstr \<Rightarrow> nat \<Rightarrow> lock_world \<Rightarrow> lock_world" where
  "task_step opts who token t w =
     (case pc t w of
        Acquiring \<Rightarrow> acquire_step (who t) token t (pc t w) w
      | Created \<Rightarrow> acquire_step (who t) token t (pc t w) w
      | Opening _ \<Rightarrow> acquire_step (who t) token t (pc t w) w
      | Filling _ _ \<Rightarrow> acquire_step (who t) token t (pc t w) w
      | Undo_owner _ \<Rightarrow> acquire_step (who t) token t (pc t w) w
      | Undo_directory _ \<Rightarrow> acquire_step (who t) token t (pc t w) w
      | Releasing _ _ \<Rightarrow> release_step t (pc t w) w
      | Release_verify _ \<Rightarrow> release_step t (pc t w) w
      | Release_unlink _ \<Rightarrow> release_step t (pc t w) w
      | Release_rmdir _ \<Rightarrow> release_step t (pc t w) w
      | _ \<Rightarrow> recover_step opts (who t) t (pc t w) w)"

text \<open>What can happen: a task enters \<open>withDirectoryLock\<close>, runs on, ends its operation with a result;
  time passes; a process dies.  Tokens are 32 random hexadecimal digits, taken to be fresh.\<close>

definition enter :: "nat \<Rightarrow> lock_world \<Rightarrow> lock_world" where
  "enter t w = w\<lparr> lw_task := (lw_task w)(t := \<lparr> lt_pc = Acquiring, lt_started = lw_now w \<rparr>) \<rparr>"

inductive lock_step :: "lock_options \<Rightarrow> (nat \<Rightarrow> process_id) \<Rightarrow> lock_world \<Rightarrow> lock_world \<Rightarrow> bool"
  for opts who where
  Enter: "pc t w = Idling \<Longrightarrow> lw_alive w (who t) \<Longrightarrow> lock_step opts who w (enter t w)"
| Advance: "lw_alive w (who t) \<Longrightarrow> token_pattern token \<Longrightarrow> token \<notin> set (lw_tokens w) \<Longrightarrow>
     lock_step opts who w (task_step opts who token t w)"
| Finish: "pc t w = Holding ow \<Longrightarrow> lw_alive w (who t) \<Longrightarrow> lock_step opts who w (goto t (Releasing ow r) w)"
| Tick: "0 \<le> d \<Longrightarrow> lock_step opts who w (w\<lparr> lw_now := lw_now w + d \<rparr>)"
| Crash: "lock_step opts who w (w\<lparr> lw_alive := (lw_alive w)(p := False) \<rparr>)"

text \<open>The runs in which every world a step is taken from, and the last, is of a certain kind.\<close>

inductive lock_run :: "lock_options \<Rightarrow> (nat \<Rightarrow> process_id) \<Rightarrow> (lock_world \<Rightarrow> bool) \<Rightarrow> lock_world \<Rightarrow> lock_world \<Rightarrow> bool"
  for opts who P where
  Stay: "P w \<Longrightarrow> lock_run opts who P w w"
| Step: "lock_run opts who P w v \<Longrightarrow> lock_step opts who v u \<Longrightarrow> P u \<Longrightarrow> lock_run opts who P w u"

end
