(* ===== verification/Lock_Safety.thy ===== *)
theory Lock_Safety
  imports Directory_Lock
begin

text \<open>
  When the directory lock excludes, and when it does not: as long as nobody has reason to take a live
  lock for stale, at most one task is between making the directory and removing it.
\<close>

section \<open>The owner file\<close>

definition usable_process :: "process_id \<Rightarrow> bool" where
  "usable_process p \<longleftrightarrow> fst p \<noteq> [] \<and> length (fst p) \<le> 255 \<and> safe_pos (snd p)"

text \<open>An owner record a process makes.\<close>

definition made_by :: "process_id \<Rightarrow> lock_owner \<Rightarrow> bool" where
  "made_by p ow \<longleftrightarrow> usable_process p \<and> lo_hostname ow = fst p \<and> lo_pid ow = snd p \<and>
     token_pattern (lo_token ow) \<and> length (lo_acquired_at ow) \<le> 27"

lemma length_decimal_safe: "safe_pos n \<Longrightarrow> length (decimal n) \<le> 16"
proof -
  assume n: "safe_pos n"
  then have "n < 10 ^ 16" by (simp add: safe_pos_def safe_int_def max_safe_def)
  then have "nat n < 10 ^ 16" by (simp add: nat_less_iff)
  from decimal_nat_length_le [OF this] n show ?thesis by (simp add: decimal_def safe_pos_def)
qed

lemma owner_fits: "made_by p ow \<Longrightarrow> file_of (owner_json ow) = Inr f \<Longrightarrow> int (jf_size f) \<le> MAX_LOCK_OWNER_BYTES"
  using file_of_size [of "owner_json ow" f] length_decimal_safe [of "lo_pid ow"] id_pattern_length [of "''''" 32 "lo_token ow"]
  by (auto simp: owner_json_def made_by_def usable_process_def LOCK_SCHEMA_def MAX_LOCK_OWNER_BYTES_def token_pattern_def)

lemma owner_file: "\<exists>f. file_of (owner_json ow) = Inr f"
  by (rule serializable_file) (simp_all add: owner_json_def)

lemma isDirectoryLockOwner_written:
  assumes "made_by p ow"
  shows "isDirectoryLockOwner (canon (owner_json ow)) = Some ow"
  using assms
  by (simp add: isDirectoryLockOwner_def owner_json_def encoder_simps made_by_def usable_process_def)

lemma readLockOwner_written:
  assumes "made_by p ow" "file_of (owner_json ow) = Inr f"
  shows "readLockOwner (Some (LockDirectory (Some (i, f)) changed)) = Inr (Some ow)"
proof -
  have "jf_json f = Some (canon (owner_json ow))" using assms(2) by (auto simp: file_of_def split: sum.splits)
  with owner_fits [OF assms] isDirectoryLockOwner_written [OF assms(1)] show ?thesis by simp
qed

section \<open>Who is where\<close>

lemma pc_goto [simp]: "pc u (goto t p w) = (if u = t then p else pc u w)"
  by (simp add: pc_def goto_def)

lemma pc_relock [simp]: "pc u (relock l w) = pc u w"
  by (simp add: pc_def relock_def)

lemma fields_goto [simp]: "lw_lock (goto t p w) = lw_lock w" "lw_now (goto t p w) = lw_now w"
  "lw_alive (goto t p w) = lw_alive w" "lw_tokens (goto t p w) = lw_tokens w" "lw_files (goto t p w) = lw_files w"
  by (simp_all add: goto_def)

lemma fields_relock [simp]: "lw_lock (relock l w) = l" "lw_now (relock l w) = lw_now w"
  "lw_alive (relock l w) = lw_alive w" "lw_tokens (relock l w) = lw_tokens w" "lw_files (relock l w) = lw_files w"
  by (simp_all add: relock_def)

lemma pc_fields [simp]: "pc u (w\<lparr> lw_tokens := x \<rparr>) = pc u w" "pc u (w\<lparr> lw_files := n \<rparr>) = pc u w"
  "pc u (w\<lparr> lw_now := d \<rparr>) = pc u w" "pc u (w\<lparr> lw_alive := a \<rparr>) = pc u w"
  by (simp_all add: pc_def)

lemma pc_enter [simp]: "pc u (enter t w) = (if u = t then Acquiring else pc u w)"
  by (simp add: pc_def enter_def)

lemma fields_enter [simp]: "lw_lock (enter t w) = lw_lock w" "lw_now (enter t w) = lw_now w"
  "lw_alive (enter t w) = lw_alive w"
  by (simp_all add: enter_def)

text \<open>The tasks that have the lock, and what is in its directory meanwhile.\<close>

definition empty_file :: json_file where
  "empty_file = \<lparr> jf_size = 0, jf_json = None \<rparr>"

definition signed :: "process_id \<Rightarrow> (nat \<times> json_file) option \<Rightarrow> bool" where
  "signed p f \<longleftrightarrow> (\<exists>i g ow. f = Some (i, g) \<and> made_by p ow \<and> file_of (owner_json ow) = Inr g)"

fun has_lock :: "process_id \<Rightarrow> lock_pc \<Rightarrow> (nat \<times> json_file) option \<Rightarrow> bool" where
  "has_lock p Created f \<longleftrightarrow> f = None"
| "has_lock p (Opening ow) f \<longleftrightarrow> f = None \<and> made_by p ow"
| "has_lock p (Filling ow i) f \<longleftrightarrow> f = Some (i, empty_file) \<and> made_by p ow"
| "has_lock p (Holding ow) f \<longleftrightarrow> (\<exists>i g. f = Some (i, g) \<and> made_by p ow \<and> file_of (owner_json ow) = Inr g)"
| "has_lock p (Releasing ow r) f \<longleftrightarrow> (\<exists>i g. f = Some (i, g) \<and> made_by p ow \<and> file_of (owner_json ow) = Inr g)"
| "has_lock p (Release_verify r) f \<longleftrightarrow> signed p f"
| "has_lock p (Release_unlink r) f \<longleftrightarrow> signed p f"
| "has_lock p (Release_rmdir r) f \<longleftrightarrow> f = None"
| "has_lock p _ f \<longleftrightarrow> False"

fun busy :: "lock_pc \<Rightarrow> bool" where
  "busy Created = True"
| "busy (Opening ow) = True"
| "busy (Filling ow i) = True"
| "busy (Holding ow) = True"
| "busy (Releasing ow r) = True"
| "busy (Release_verify r) = True"
| "busy (Release_unlink r) = True"
| "busy (Release_rmdir r) = True"
| "busy _ = False"

text \<open>The places where a task removes what another may have made.\<close>

fun removing :: "lock_pc \<Rightarrow> bool" where
  "removing (Undo_owner b) = True"
| "removing (Undo_directory b) = True"
| "removing (Rereading token) = True"
| "removing Removing_owner = True"
| "removing Removing_directory = True"
| "removing _ = False"

definition exclusive :: "(nat \<Rightarrow> process_id) \<Rightarrow> (nat \<Rightarrow> lock_pc) \<Rightarrow> lock_entry option \<Rightarrow> bool" where
  "exclusive who at l \<longleftrightarrow>
     (\<forall>t. busy (at t) \<longrightarrow> (\<exists>f m. l = Some (LockDirectory f m) \<and> has_lock (who t) (at t) f)) \<and>
     (\<forall>t u. busy (at t) \<and> busy (at u) \<longrightarrow> t = u) \<and>
     (\<forall>t. \<not> removing (at t)) \<and>
     (\<forall>f m. l = Some (LockDirectory (Some f) m) \<longrightarrow> (\<exists>t. busy (at t)))"

lemma exclusive_busy:
  "exclusive who at l \<Longrightarrow> busy (at t) \<Longrightarrow> \<exists>f m. l = Some (LockDirectory f m) \<and> has_lock (who t) (at t) f"
  by (simp add: exclusive_def)

lemma exclusive_unique: "exclusive who at l \<Longrightarrow> busy (at t) \<Longrightarrow> busy (at u) \<Longrightarrow> t = u"
  by (auto simp: exclusive_def)

lemma exclusive_free: "exclusive who at None \<Longrightarrow> \<not> busy (at t)"
  by (auto simp: exclusive_def)

text \<open>The four kinds of steps: outside, into possession, within it, and out of it.\<close>

lemma exclusive_outside:
  "exclusive who at l \<Longrightarrow> \<not> busy (at t) \<Longrightarrow> \<not> busy p \<Longrightarrow> \<not> removing p \<Longrightarrow> exclusive who (at(t := p)) l"
  unfolding exclusive_def by (auto split: if_splits)

lemma exclusive_in:
  "exclusive who at None \<Longrightarrow> exclusive who (at(t := Created)) (Some (LockDirectory None m))"
  unfolding exclusive_def by auto

lemma exclusiveI:
  assumes "\<And>u. busy (at u) \<Longrightarrow> u = t"
    "busy (at t) \<Longrightarrow> \<exists>f m. l = Some (LockDirectory f m) \<and> has_lock (who t) (at t) f"
    "\<And>u. \<not> removing (at u)" "\<And>f m. l = Some (LockDirectory (Some f) m) \<Longrightarrow> busy (at t)"
  shows "exclusive who at l"
  using assms unfolding exclusive_def by metis

lemma exclusive_removing: "exclusive who at l \<Longrightarrow> \<not> removing (at u)"
  by (simp add: exclusive_def)

lemma exclusive_within:
  assumes "exclusive who at l" "busy (at t)" "has_lock (who t) p f" "busy p" "\<not> removing p"
  shows "exclusive who (at(t := p)) (Some (LockDirectory f m))"
proof (rule exclusiveI [where t = t])
  show "u = t" if "busy ((at(t := p)) u)" for u
    using that exclusive_unique [OF assms(1) _ assms(2), of u] by (metis fun_upd_other)
qed (use assms(3-) exclusive_removing [OF assms(1)] in simp_all)

lemma exclusive_out:
  assumes "exclusive who at l" "busy (at t)" "\<not> busy p" "\<not> removing p" "\<And>f m. l' \<noteq> Some (LockDirectory (Some f) m)"
  shows "exclusive who (at(t := p)) l'"
proof (rule exclusiveI [where t = t])
  show "u = t" if "busy ((at(t := p)) u)" for u
    using that exclusive_unique [OF assms(1) _ assms(2), of u] by (metis fun_upd_other)
qed (use assms(3-) exclusive_removing [OF assms(1)] in simp_all)

section \<open>Quiet runs\<close>

text \<open>Nobody has reason to take the lock for stale: whoever has it is alive, and whoever looks at it
  saw it changed recently.\<close>

definition quiet :: "lock_options \<Rightarrow> (nat \<Rightarrow> process_id) \<Rightarrow> lock_world \<Rightarrow> bool" where
  "quiet opts who w \<longleftrightarrow>
     (\<forall>t. busy (pc t w) \<longrightarrow> lw_alive w (who t)) \<and>
     (\<forall>t m. pc t w = Reading m \<longrightarrow> lw_now w - m < stale_after opts)"

definition held_once :: "(nat \<Rightarrow> process_id) \<Rightarrow> lock_world \<Rightarrow> bool" where
  "held_once who w \<longleftrightarrow> exclusive who (\<lambda>t. pc t w) (lw_lock w)"

lemma signed_owner:
  "signed p f \<Longrightarrow> readLockOwner (Some (LockDirectory f m)) = Inr (Some ow) \<Longrightarrow> made_by p ow"
  by (auto simp: signed_def readLockOwner_written simp del: readLockOwner.simps)

lemma has_lock_signed:
  "has_lock p c f \<Longrightarrow> signed p f \<or> f = None \<or> (\<exists>i. f = Some (i, empty_file))"
  by (cases "(p, c, f)" rule: has_lock.cases) (auto simp: signed_def)

lemma has_lock_owner:
  assumes "has_lock p c f" "readLockOwner (Some (LockDirectory f m)) = Inr (Some ow)"
  shows "made_by p ow"
proof -
  have "signed p f"
    using has_lock_signed [OF assms(1)] assms(2) by (auto simp: empty_file_def split: if_splits)
  then show ?thesis using assms(2) by (rule signed_owner)
qed

lemma quiet_not_stale:
  assumes "held_once who w" "quiet opts who w" "pc t w = Reading m" "readLockOwner (lw_lock w) = Inr owner"
  shows "\<not> isStale opts (who t) w m owner"
proof (cases owner)
  case None
  have "lw_now w - m < stale_after opts" using assms(2,3) unfolding quiet_def by blast
  with None show ?thesis by (simp add: isStale_def)
next
  case (Some ow)
  with assms(4) obtain f c where l: "lw_lock w = Some (LockDirectory (Some f) c)"
    by (cases "lw_lock w" rule: readLockOwner.cases) auto
  with assms(1) obtain u where u: "busy (pc u w)" by (auto simp: held_once_def exclusive_def)
  with assms(1) l have "has_lock (who u) (pc u w) (Some f)" by (fastforce simp: held_once_def exclusive_def)
  with assms(4) l Some have "made_by (who u) ow" by (intro has_lock_owner) auto
  moreover have "lw_alive w (who u)" "lw_now w - m < stale_after opts" using u assms(2,3) unfolding quiet_def by blast+
  ultimately show ?thesis using Some by (cases "who u") (auto simp: isStale_def made_by_def)
qed

lemma goto_view: "(\<lambda>u. if u = t then p else pc u w) = (\<lambda>u. pc u w)(t := p)"
  by (simp add: fun_upd_def)

lemma made_by_fresh:
  "usable_process p \<Longrightarrow> token_pattern token \<Longrightarrow>
     made_by p \<lparr> lo_pid = snd p, lo_hostname = fst p, lo_token = token, lo_acquired_at = to_iso n \<rparr>"
  by (simp add: made_by_def length_to_iso)

lemma held_onceD:
  assumes "held_once who w" "busy (pc t w)"
  obtains f m where "lw_lock w = Some (LockDirectory f m)" "has_lock (who t) (pc t w) f"
  using exclusive_busy [of who "\<lambda>t. pc t w" "lw_lock w" t] assms by (auto simp: held_once_def)

text \<open>Each kind of move keeps the lock held once.\<close>

lemma held_outside:
  "held_once who w \<Longrightarrow> \<not> busy (pc t w) \<Longrightarrow> \<not> busy p \<Longrightarrow> \<not> removing p \<Longrightarrow> held_once who (goto t p w)"
  using exclusive_outside [of who "\<lambda>t. pc t w"] by (simp add: held_once_def goto_view)

lemma held_in:
  "held_once who w \<Longrightarrow> lw_lock w = None \<Longrightarrow> held_once who (goto t Created (relock (Some (LockDirectory None m)) w))"
  using exclusive_in [of who "\<lambda>t. pc t w"] by (simp add: held_once_def goto_view)

lemma held_within:
  "held_once who w \<Longrightarrow> busy (pc t w) \<Longrightarrow> has_lock (who t) p f \<Longrightarrow> busy p \<Longrightarrow> \<not> removing p \<Longrightarrow>
     lw_lock v = Some (LockDirectory f m) \<Longrightarrow> (\<And>u. pc u v = pc u w) \<Longrightarrow> held_once who (goto t p v)"
  using exclusive_within [of who "\<lambda>t. pc t w"] by (simp add: held_once_def goto_view)

lemma held_out:
  "held_once who w \<Longrightarrow> busy (pc t w) \<Longrightarrow> \<not> busy p \<Longrightarrow> \<not> removing p \<Longrightarrow>
     (\<And>f m. lw_lock v \<noteq> Some (LockDirectory (Some f) m)) \<Longrightarrow> (\<And>u. pc u v = pc u w) \<Longrightarrow>
     held_once who (goto t p v)"
  using exclusive_out [of who "\<lambda>t. pc t w"] by (simp add: held_once_def goto_view)

lemma busy_fail [simp]: "\<not> busy (fail e)" "\<not> removing (fail e)" "\<not> busy (release_failed r)" "\<not> removing (release_failed r)"
  by (simp_all add: fail_def release_failed_def split: sum.split)

lemma acquire_held:
  assumes "held_once who w" "usable_process (who t)" "token_pattern token"
    "pc t w = c" "c = Acquiring \<or> (\<exists>ow i. c \<in> {Created, Opening ow, Filling ow i})"
  shows "held_once who (acquire_step (who t) token t c w)"
proof -
  consider "c = Acquiring" | "c = Created" | ow where "c = Opening ow" | ow i where "c = Filling ow i"
    using assms(5) by auto
  then show ?thesis
  proof cases
    case 1
    with assms(1,4) show ?thesis by (auto intro: held_in held_outside split: option.split)
  next
    case 2
    with assms(1,4) obtain m where l: "lw_lock w = Some (LockDirectory None m)"
      by (metis busy.simps(1) has_lock.simps(1) held_onceD)
    show ?thesis
    proof (cases "toISOString (lw_now w)")
      case (Inl e)
      have "held_once who (goto t (fail e) w)" by (rule held_out) (use assms 2 l in auto)
      with Inl 2 l show ?thesis by simp
    next
      case (Inr n)
      then have n: "n = to_iso (lw_now w)" by (simp add: toISOString_def split: if_splits)
      have "held_once who (acquire_step (who t) token t c w)"
        unfolding 2 by (simp add: l Inr, rule held_within [where f = None and m = m])
          (use assms(1,4) 2 l n made_by_fresh [OF assms(2,3)] in simp_all)
      then show ?thesis .
    qed
  next
    case (3 ow)
    with assms(1,4) obtain m where l: "lw_lock w = Some (LockDirectory None m)" "made_by (who t) ow"
      by (metis busy.simps(2) has_lock.simps(2) held_onceD)
    show ?thesis
      unfolding 3 by (simp add: l, rule held_within)
        (use assms(1,4) 3 l in \<open>simp_all add: empty_file_def\<close>)
  next
    case (4 ow i)
    with assms(1,4) obtain m where l: "lw_lock w = Some (LockDirectory (Some (i, empty_file)) m)" "made_by (who t) ow"
      by (metis busy.simps(3) has_lock.simps(3) held_onceD)
    obtain f where f: "file_of (owner_json ow) = Inr f" using owner_file by blast
    show ?thesis
      unfolding 4 by (simp add: l f, rule held_within) (use assms(1,4) 4 l f in simp_all)
  qed
qed

lemma release_held:
  assumes "held_once who w" "pc t w = c" "\<exists>ow r. c \<in> {Releasing ow r, Release_verify r, Release_unlink r, Release_rmdir r}"
  shows "held_once who (release_step t c w)"
proof -
  have b: "busy (pc t w)" using assms(2,3) by auto
  then obtain f m where l: "lw_lock w = Some (LockDirectory f m)" "has_lock (who t) c f"
    using held_onceD [OF assms(1)] assms(2) by metis
  consider ow r where "c = Releasing ow r" | r where "c = Release_verify r" | r where "c = Release_unlink r"
    | r where "c = Release_rmdir r" using assms(3) by auto
  then show ?thesis
  proof cases
    case (1 ow r)
    with l obtain i g where g: "f = Some (i, g)" "made_by (who t) ow" "file_of (owner_json ow) = Inr g" by auto
    have "held_once who (goto t (Release_verify r) w)"
      by (rule held_within) (use assms(1) b l g in \<open>auto simp: signed_def\<close>)
    with 1 l g show ?thesis by (simp add: readLockOwner_written del: readLockOwner.simps)
  next
    case (2 r)
    have "held_once who (goto t (Release_unlink r) w)"
      by (rule held_within) (use assms(1) b l 2 in auto)
    with 2 l show ?thesis by simp
  next
    case (3 r)
    with l obtain g where g: "f = Some g" by (auto simp: signed_def)
    have "held_once who (goto t (Release_rmdir r) (relock (Some (LockDirectory None (lw_now w))) w))"
      by (rule held_within) (use assms(1) b in auto)
    with 3 l g show ?thesis by simp
  next
    case (4 r)
    have "held_once who (goto t (Settled r) (relock None w))"
      by (rule held_out) (use assms(1) b in auto)
    with 4 l show ?thesis by simp
  qed
qed

end
