(* ===== verification/Lock_Runs.thy ===== *)
theory Lock_Runs
  imports Lock_Safety
begin

text \<open>
  Runs of the tasks that want one lock: in a quiet run the lock excludes; a lock nobody has is
  acquired; and a lock that is alive can be taken for stale and be lost.
\<close>

section \<open>Mutual exclusion\<close>

lemma recover_held:
  assumes "held_once who w" "quiet opts who w" "\<not> busy (pc t w)" "pc t w = c"
  shows "held_once who (recover_step opts (who t) t c w)"
proof -
  have still: "\<not> removing c" using assms(1,4) by (auto simp: held_once_def exclusive_def)
  have moves: "held_once who (goto t p w)" if "\<not> busy p" "\<not> removing p" for p
    using held_outside assms(1,3) that by blast
  show ?thesis
  proof (cases c)
    case (Reading m)
    then have "pc t w = Reading m" using assms(4) by simp
    from quiet_not_stale [OF assms(1,2) this] Reading show ?thesis by (auto intro!: moves split: sum.split)
  qed (use still assms(1) in \<open>auto intro!: moves split: option.split lock_entry.split\<close>)
qed

lemma held_cong:
  "held_once who w \<Longrightarrow> lw_lock v = lw_lock w \<Longrightarrow> (\<And>t. pc t v = pc t w) \<Longrightarrow> held_once who v"
  by (simp add: held_once_def)

lemma task_step_held:
  assumes "held_once who w" "quiet opts who w" "usable_process (who t)" "token_pattern token"
  shows "held_once who (task_step opts who token t w)"
proof -
  have still: "\<not> removing (pc t w)" using assms(1) by (auto simp: held_once_def exclusive_def)
  show ?thesis
  proof (cases "pc t w")
    case Acquiring
    then show ?thesis using acquire_held [OF assms(1,3,4) refl] by (simp add: task_step_def)
  next
    case Created
    then show ?thesis using acquire_held [OF assms(1,3,4) refl] by (simp add: task_step_def)
  next
    case (Opening ow)
    then show ?thesis using acquire_held [OF assms(1,3,4) refl] by (simp add: task_step_def)
  next
    case (Filling ow i)
    then show ?thesis using acquire_held [OF assms(1,3,4) refl] by (simp add: task_step_def)
  next
    case (Releasing ow r)
    then show ?thesis using release_held [OF assms(1) refl, where t = t] by (simp add: task_step_def)
  next
    case (Release_verify r)
    then show ?thesis using release_held [OF assms(1) refl, where t = t] by (simp add: task_step_def)
  next
    case (Release_unlink r)
    then show ?thesis using release_held [OF assms(1) refl, where t = t] by (simp add: task_step_def)
  next
    case (Release_rmdir r)
    then show ?thesis using release_held [OF assms(1) refl, where t = t] by (simp add: task_step_def)
  next
    case (Holding ow)
    then show ?thesis using assms(1) by (simp add: task_step_def)
  qed (use recover_held [OF assms(1,2) _ refl, of t] still in \<open>simp_all add: task_step_def\<close>)
qed

inductive_cases lock_stepE: "lock_step opts who w v"

lemma lock_step_held:
  assumes "lock_step opts who w v" "held_once who w" "quiet opts who w" "\<And>t. usable_process (who t)"
  shows "held_once who v"
  using assms(1)
proof cases
  case (Enter t)
  have "held_once who (goto t Acquiring w)" by (rule held_outside) (use assms(2) Enter in auto)
  then show ?thesis by (rule held_cong) (simp_all add: Enter)
next
  case (Advance t token)
  with task_step_held [OF assms(2,3,4)] show ?thesis by simp
next
  case (Finish t ow r)
  then obtain f m where l: "lw_lock w = Some (LockDirectory f m)" "has_lock (who t) (Holding ow) f"
    using held_onceD [OF assms(2), of t] by (metis busy.simps(4))
  show ?thesis unfolding Finish(1) by (rule held_within) (use assms(2) l Finish in simp_all)
next
  case (Tick d)
  show ?thesis by (rule held_cong [OF assms(2)]) (simp_all add: Tick)
next
  case (Crash p)
  show ?thesis by (rule held_cong [OF assms(2)]) (simp_all add: Crash)
qed

text \<open>The world before anybody wants the lock.\<close>

definition untouched :: "lock_world \<Rightarrow> bool" where
  "untouched w \<longleftrightarrow> (\<forall>t. pc t w = Idling) \<and> (lw_lock w = None \<or> lw_lock w = Some NoDirectory)"

lemma untouched_held: "untouched w \<Longrightarrow> held_once who w"
  by (auto simp: untouched_def held_once_def exclusive_def)

lemma quiet_run_held:
  assumes "lock_run opts who (quiet opts who) w v" "untouched w" "\<And>t. usable_process (who t)"
  shows "held_once who v"
  using assms
proof (induction rule: lock_run.induct)
  case (Stay w)
  then show ?case by (simp add: untouched_held)
next
  case (Step w v u)
  from Step.hyps(1) have "quiet opts who v" by (cases rule: lock_run.cases) auto
  then show ?case by (rule lock_step_held [OF Step.hyps(2) Step.IH [OF Step.prems]]) (rule Step.prems(2))
qed

definition holds :: "nat \<Rightarrow> lock_world \<Rightarrow> bool" where
  "holds t w \<longleftrightarrow> (case pc t w of Holding ow \<Rightarrow> True | _ \<Rightarrow> False)"

lemma holdsE: "holds t w \<Longrightarrow> (\<And>ow. pc t w = Holding ow \<Longrightarrow> P) \<Longrightarrow> P"
  by (auto simp: holds_def split: lock_pc.splits)

lemma holds_busy: "holds t w \<Longrightarrow> busy (pc t w)"
  by (auto elim: holdsE)

section \<open>Scripted runs\<close>

datatype lock_event = Entering nat | Running nat jstr | Ending nat "unit result" | Passing int

fun play_event :: "lock_options \<Rightarrow> (nat \<Rightarrow> process_id) \<Rightarrow> lock_event \<Rightarrow> lock_world \<Rightarrow> lock_world" where
  "play_event opts who (Entering t) w = enter t w"
| "play_event opts who (Running t token) w = task_step opts who token t w"
| "play_event opts who (Ending t r) w =
     (case pc t w of Holding ow \<Rightarrow> goto t (Releasing ow r) w | _ \<Rightarrow> w)"
| "play_event opts who (Passing d) w = w\<lparr> lw_now := lw_now w + d \<rparr>"

fun possible :: "lock_event \<Rightarrow> lock_world \<Rightarrow> bool" where
  "possible (Entering t) w \<longleftrightarrow> pc t w = Idling"
| "possible (Running t token) w \<longleftrightarrow> token_pattern token \<and> token \<notin> set (lw_tokens w)"
| "possible (Ending t r) w \<longleftrightarrow> holds t w"
| "possible (Passing d) w \<longleftrightarrow> 0 \<le> d"

fun play :: "lock_options \<Rightarrow> (nat \<Rightarrow> process_id) \<Rightarrow> lock_event list \<Rightarrow> lock_world \<Rightarrow> lock_world option" where
  "play opts who [] w = Some w"
| "play opts who (e # es) w = (if possible e w then play opts who es (play_event opts who e w) else None)"

definition all_alive :: "lock_world \<Rightarrow> bool" where
  "all_alive w \<longleftrightarrow> (\<forall>p. lw_alive w p)"

lemma acquire_alive: "lw_alive (acquire_step self token t c w) = lw_alive w"
  by (cases "(self, token, t, c, w)" rule: acquire_step.cases)
    (auto split: option.split lock_entry.split sum.split)

lemma recover_alive: "lw_alive (recover_step opts self t c w) = lw_alive w"
  by (cases "(opts, self, t, c, w)" rule: recover_step.cases)
    (auto split: option.split lock_entry.split sum.split)

lemma release_alive: "lw_alive (release_step t c w) = lw_alive w"
  by (cases "(t, c, w)" rule: release_step.cases)
    (auto split: option.split lock_entry.split sum.split)

lemma task_step_alive: "lw_alive (task_step opts who token t w) = lw_alive w"
  by (simp add: task_step_def acquire_alive recover_alive release_alive split: lock_pc.split
      del: acquire_step.simps recover_step.simps release_step.simps)

lemma play_event_step:
  assumes "possible e w" "all_alive w"
  shows "lock_step opts who w (play_event opts who e w) \<and> all_alive (play_event opts who e w)"
proof -
  have alive: "lw_alive w (who t)" for t using assms(2) unfolding all_alive_def by blast
  show ?thesis
    using assms alive
    by (cases e) (auto simp: all_alive_def task_step_alive intro!: lock_step.intros elim!: holdsE)
qed

lemma play_run:
  assumes "play opts who es v = Some u" "lock_run opts who all_alive w v"
  shows "lock_run opts who all_alive w u"
  using assms
proof (induction es arbitrary: v)
  case (Cons e es)
  then have e: "possible e v" by (auto split: if_splits)
  have "all_alive v" using Cons.prems(2) by (cases rule: lock_run.cases) auto
  from play_event_step [OF e this] Cons.prems(2) have "lock_run opts who all_alive w (play_event opts who e v)"
    by (blast intro: lock_run.Step)
  with Cons e show ?case by simp
qed simp

section \<open>A lost lock\<close>

definition default_lock_options :: lock_options where
  "default_lock_options = \<lparr> wait_timeout = DEFAULT_WAIT_TIMEOUT_MS, poll_interval = DEFAULT_POLL_INTERVAL_MS,
     stale_after = DEFAULT_STALE_AFTER_MS \<rparr>"

definition sample_process :: "nat \<Rightarrow> process_id" where
  "sample_process t = (js ''host'', int t + 1)"

definition sample_token :: "16 word \<Rightarrow> jstr" where
  "sample_token c = replicate 32 c"

definition new_world :: lock_world where
  "new_world = \<lparr> lw_lock = None, lw_now = 0, lw_files = 0, lw_tokens = [], lw_alive = (\<lambda>p. True),
     lw_task = (\<lambda>t. \<lparr> lt_pc = Idling, lt_started = 0 \<rparr>) \<rparr>"

text \<open>Some steps of a task, and a step in which it draws its token.\<close>

definition runs :: "nat \<Rightarrow> nat \<Rightarrow> lock_event list" where
  "runs n t = replicate n (Running t (sample_token 0x66))"

definition signs :: "16 word \<Rightarrow> nat \<Rightarrow> lock_event list" where
  "signs c t = [Running t (sample_token c)]"

text \<open>Task 0 has had the lock for a minute when task 1 finds it and looks at its age; task 0 ends,
  task 2 makes the directory anew, and task 1, who finds no owner in it yet, removes it.\<close>

definition fatal_script :: "lock_event list" where
  "fatal_script =
     [Entering 0] @ runs 1 0 @ signs 0x61 0 @ runs 2 0 @ [Passing 60000, Entering 1] @ runs 3 1 @
     [Ending 0 (Inr ())] @ runs 4 0 @ [Entering 2] @ runs 1 2 @ runs 1 1 @
     signs 0x62 2 @ runs 2 2 @ runs 3 1 @ signs 0x63 1 @ runs 2 1"

definition sample_owner :: "nat \<Rightarrow> 16 word \<Rightarrow> int \<Rightarrow> lock_owner" where
  "sample_owner t c n =
     \<lparr> lo_pid = snd (sample_process t), lo_hostname = fst (sample_process t), lo_token = sample_token c,
       lo_acquired_at = to_iso n \<rparr>"

definition owner_record :: "lock_owner \<Rightarrow> json_file" where
  "owner_record ow = (case file_of (owner_json ow) of Inl e \<Rightarrow> empty_file | Inr f \<Rightarrow> f)"

lemma file_of_owner [simp]: "file_of (owner_json ow) = Inr (owner_record ow)"
  using owner_file [of ow] by (auto simp: owner_record_def)

lemma token_sample: "is_hex c \<Longrightarrow> token_pattern (sample_token c)"
  by (simp add: token_pattern_def sample_token_def id_pattern_def js_def list_all_length)

lemma tokens_sample [simp]: "sample_token c = sample_token d \<longleftrightarrow> c = d"
  by (simp add: sample_token_def)

lemma usable_sample_process: "t < 10 \<Longrightarrow> usable_process (sample_process t)"
  by (simp add: usable_process_def sample_process_def safe_pos_def safe_int_def max_safe_def)

lemma read_sample [simp]:
  "t < 10 \<Longrightarrow> is_hex c \<Longrightarrow> readLockOwner (Some (LockDirectory (Some (i, owner_record (sample_owner t c n))) m)) =
     Inr (Some (sample_owner t c n))"
  using made_by_fresh [OF usable_sample_process token_sample, of t c n]
  by (intro readLockOwner_written) (simp_all add: sample_owner_def)

lemma sample_owner_fold:
  "\<lparr> lo_pid = snd (sample_process t), lo_hostname = fst (sample_process t), lo_token = sample_token c,
     lo_acquired_at = to_iso n \<rparr> = sample_owner t c n"
  by (simp add: sample_owner_def)

lemma runs_unfold:
  "runs (Suc 0) t = [Running t (sample_token 0x66)]"
  "runs 2 t = [Running t (sample_token 0x66), Running t (sample_token 0x66)]"
  "runs 3 t = [Running t (sample_token 0x66), Running t (sample_token 0x66), Running t (sample_token 0x66)]"
  "runs 4 t = [Running t (sample_token 0x66), Running t (sample_token 0x66), Running t (sample_token 0x66),
     Running t (sample_token 0x66)]"
  by (simp_all add: runs_def numeral_eq_Suc)

lemmas script_simps = runs_unfold signs_def enter_def pc_def goto_def relock_def task_step_def
  new_world_def token_sample is_hex_def is_digit_def toISOString_def valid_time_def sample_owner_fold
  holds_def isStale_def

text \<open>C12: Two tasks can hold the lock at the same time although nobody died and every process has
  been running all along, with the default options: a task that looked at the age of a lock which
  was then released takes the directory that another task has just made for that old one, and
  removes it.\<close>

theorem live_lock_lost:
  "\<exists>w. lock_run default_lock_options sample_process all_alive new_world w \<and> holds 1 w \<and> holds 2 w"
proof -
  have "\<exists>w. play default_lock_options sample_process fatal_script new_world = Some w \<and> holds 1 w \<and> holds 2 w"
    by (simp add: fatal_script_def script_simps default_lock_options_def DEFAULT_STALE_AFTER_MS_def
      del: readLockOwner.simps(4))
  moreover have "lock_run default_lock_options sample_process all_alive new_world new_world"
    by (rule lock_run.Stay) (simp add: all_alive_def new_world_def)
  ultimately show ?thesis using play_run by blast
qed

text \<open>C11: In a run in which whoever has the lock is alive, and whoever looks at its age finds it younger
  than the limit, at most one task holds the lock, and the directory has the record of its owner.\<close>

theorem lock_excludes:
  assumes "lock_run opts who (quiet opts who) w v" "untouched w" "\<And>t. usable_process (who t)" "holds t v"
  shows "(holds u v \<longrightarrow> u = t) \<and> (\<exists>ow. pc t v = Holding ow \<and> readLockOwner (lw_lock v) = Inr (Some ow))"
proof -
  have held: "held_once who v" using quiet_run_held [OF assms(1-3)] .
  from assms(4) obtain ow where ow: "pc t v = Holding ow" by (rule holdsE)
  from held holds_busy [OF assms(4)] obtain f m
    where l: "lw_lock v = Some (LockDirectory f m)" "has_lock (who t) (pc t v) f" by (rule held_onceD)
  then have "readLockOwner (lw_lock v) = Inr (Some ow)" using ow by (auto simp: readLockOwner_written simp del: readLockOwner.simps)
  moreover have "u = t" if "holds u v"
    using exclusive_unique [OF held [unfolded held_once_def] holds_busy [OF that] holds_busy [OF assms(4)]] .
  ultimately show ?thesis using ow by blast
qed

lemma quiet_event:
  "lock_run opts who (quiet opts who) w v \<Longrightarrow> possible e v \<Longrightarrow> all_alive v \<Longrightarrow>
     (\<And>t m. pc t (play_event opts who e v) \<noteq> Reading m) \<Longrightarrow>
     lock_run opts who (quiet opts who) w (play_event opts who e v) \<and> all_alive (play_event opts who e v)"
proof -
  assume run: "lock_run opts who (quiet opts who) w v" and e: "possible e v" "all_alive v"
    "\<And>t m. pc t (play_event opts who e v) \<noteq> Reading m"
  from play_event_step [OF e(1,2)] have step: "lock_step opts who v (play_event opts who e v)"
    "all_alive (play_event opts who e v)" by blast+
  have "quiet opts who (play_event opts who e v)"
    unfolding quiet_def using e(3) step(2) unfolding all_alive_def by blast
  with run step show ?thesis by (blast intro: lock_run.Step)
qed

theorem lock_excludes_witness:
  "\<exists>v. lock_run default_lock_options (\<lambda>t. (js ''host'', 7)) (quiet default_lock_options (\<lambda>t. (js ''host'', 7))) new_world v \<and>
     holds 0 v \<and> \<not> holds 1 v"
proof -
  let ?o = default_lock_options and ?who = "\<lambda>t :: nat. (js ''host'', 7 :: int)"
  let ?run = "lock_run ?o ?who (quiet ?o ?who) new_world" and ?play = "play_event ?o ?who"
  let ?step = "Running 0 (sample_token 0x66)"
  define w1 where "w1 = ?play (Entering 0) new_world"
  define w2 where "w2 = ?play ?step w1"
  define w3 where "w3 = ?play (Running 0 (sample_token 0x65)) w2"
  define w4 where "w4 = ?play ?step w3"
  define w5 where "w5 = ?play ?step w4"
  note worlds = w1_def w2_def w3_def w4_def w5_def
  have r0: "?run new_world" "all_alive new_world"
    by (auto simp: quiet_def all_alive_def new_world_def pc_def intro: lock_run.Stay)
  have r1: "?run w1 \<and> all_alive w1" unfolding w1_def
    by (rule quiet_event) (use r0 in \<open>simp_all add: script_simps\<close>)
  have r2: "?run w2 \<and> all_alive w2" unfolding w2_def
    by (rule quiet_event [OF conjunct1 [OF r1] _ conjunct2 [OF r1]]) (simp_all add: worlds script_simps)
  have r3: "?run w3 \<and> all_alive w3" unfolding w3_def
    by (rule quiet_event [OF conjunct1 [OF r2] _ conjunct2 [OF r2]]) (simp_all add: worlds script_simps)
  have r4: "?run w4 \<and> all_alive w4" unfolding w4_def
    by (rule quiet_event [OF conjunct1 [OF r3] _ conjunct2 [OF r3]]) (simp_all add: worlds script_simps)
  have r5: "?run w5 \<and> all_alive w5" unfolding w5_def
    by (rule quiet_event [OF conjunct1 [OF r4] _ conjunct2 [OF r4]]) (simp_all add: worlds script_simps)
  have h: "holds 0 w5" by (simp add: worlds script_simps)
  have "untouched new_world" by (simp add: untouched_def new_world_def pc_def)
  moreover have "usable_process (?who t)" for t
    by (simp add: usable_process_def safe_pos_def safe_int_def max_safe_def)
  ultimately have "holds u w5 \<longrightarrow> u = 0" for u
    using lock_excludes [where opts = ?o and who = ?who and w = new_world and v = w5 and t = 0] r5 h by blast
  with r5 h show ?thesis by (intro exI [of _ w5]) (metis zero_neq_one)
qed

section \<open>Progress\<close>

text \<open>A lock that whoever finds it may remove.\<close>

definition abandoned :: "lock_options \<Rightarrow> process_id \<Rightarrow> lock_world \<Rightarrow> bool" where
  "abandoned opts self w \<longleftrightarrow> (\<exists>f changed owner. lw_lock w = Some (LockDirectory f changed) \<and>
     readLockOwner (lw_lock w) = Inr owner \<and> isStale opts self w changed owner)"

lemma started_goto [simp]: "lt_started (lw_task (goto t p w) u) = lt_started (lw_task w u)"
  by (simp add: goto_def)

lemma started_relock [simp]: "lt_started (lw_task (relock l w) u) = lt_started (lw_task w u)"
  by (simp add: relock_def)

lemma isStale_cong:
  "lw_now v = lw_now w \<Longrightarrow> lw_alive v = lw_alive w \<Longrightarrow> isStale opts p v = isStale opts p w"
  by (simp add: fun_eq_iff isStale_def split: option.split)

lemma steps_twice: "(f ^^ m) ((f ^^ n) w) = (f ^^ (m + n)) w"
  by (simp add: funpow_add)

lemma free_acquired:
  fixes opts :: lock_options
  assumes "pc t w = Acquiring" "lw_lock w = None" "usable_process (who t)" "token_pattern token" "valid_time (lw_now w)"
  defines "v \<equiv> (task_step opts who token t ^^ 4) w"
  shows "\<exists>ow. pc t v = Holding ow \<and> lo_token ow = token \<and> readLockOwner (lw_lock v) = Inr (Some ow)"
proof -
  let ?ow = "\<lparr> lo_pid = snd (who t), lo_hostname = fst (who t), lo_token = token, lo_acquired_at = to_iso (lw_now w) \<rparr>"
  have "pc t v = Holding ?ow \<and> (\<exists>i m. lw_lock v = Some (LockDirectory (Some (i, owner_record ?ow)) m))"
    using assms(1,2,5) by (simp add: v_def numeral_eq_Suc task_step_def toISOString_def)
  moreover have "readLockOwner (Some (LockDirectory (Some (i, owner_record ?ow)) m)) = Inr (Some ?ow)" for i m
    by (rule readLockOwner_written [OF made_by_fresh [OF assms(3,4)]]) simp
  ultimately show ?thesis by force
qed

lemma recovered:
  fixes opts :: lock_options
  assumes "pc t w = Acquiring" "abandoned opts (who t) w"
  shows "\<exists>n v. n \<le> 7 \<and> v = (task_step opts who token t ^^ n) w \<and> pc t v = Acquiring \<and> lw_lock v = None \<and>
    lw_now v = lw_now w"
proof -
  let ?s = "task_step opts who token t"
  from assms(2) obtain f m owner where l: "lw_lock w = Some (LockDirectory f m)"
    "readLockOwner (Some (LockDirectory f m)) = Inr owner" "isStale opts (who t) w m owner"
    by (auto simp: abandoned_def)
  have stale: "isStale opts (who t) v m owner" if "lw_now v = lw_now w" "lw_alive v = lw_alive w" for v
    using l(3) isStale_cong [OF that] by simp
  define a where "a = (?s ^^ 4) w"
  have a: "lw_lock a = lw_lock w" "lw_now a = lw_now w" "lw_alive a = lw_alive w"
    "pc t a = (case owner of None \<Rightarrow> Removing_owner | Some ow \<Rightarrow> Rereading (lo_token ow))"
    using assms(1) l stale
    by (simp_all add: a_def numeral_eq_Suc task_step_def split: option.split)
  define b where "b = (if owner = None then a else ?s a)"
  have b: "lw_lock b = lw_lock w" "lw_now b = lw_now w" "pc t b = Removing_owner"
    using a l by (auto simp: b_def task_step_def split: option.splits)
  have "pc t (?s (?s b)) = Acquiring" "lw_lock (?s (?s b)) = None" "lw_now (?s (?s b)) = lw_now w"
    using b l by (auto simp: task_step_def split: option.split)
  moreover have "?s (?s b) = (?s ^^ (if owner = None then 6 else 7)) w"
    by (simp add: b_def a_def numeral_eq_Suc)
  ultimately show ?thesis by (intro exI [of _ "if owner = None then 6 else 7"] exI [of _ "?s (?s b)"]) simp
qed

text \<open>C40: A task that runs undisturbed, with no step of another task in between and the clock standing
  still, and finds no lock, or one it may take for stale, holds the lock after at most eleven steps of
  the model, with its own token in the owner record.  A step may stand for several calls to the
  operating system, such as the verification of a path or the writing, syncing and closing of the
  owner record.  Nothing is said of a task that others compete with.
\<close>

theorem lock_acquired:
  assumes "pc t w = Acquiring" "lw_lock w = None \<or> abandoned opts (who t) w" "usable_process (who t)"
    "token_pattern token" "valid_time (lw_now w)"
  shows "\<exists>n\<le>11. \<exists>ow. pc t ((task_step opts who token t ^^ n) w) = Holding ow \<and> lo_token ow = token \<and>
    readLockOwner (lw_lock ((task_step opts who token t ^^ n) w)) = Inr (Some ow)"
proof -
  let ?s = "task_step opts who token t"
  obtain n v where v: "n \<le> 7" "v = (?s ^^ n) w" "pc t v = Acquiring" "lw_lock v = None" "lw_now v = lw_now w"
  proof (cases "lw_lock w = None")
    case True
    show thesis by (rule that [of 0 w]) (use True assms(1) in simp_all)
  next
    case False
    with assms(2) have "abandoned opts (who t) w" by simp
    with recovered [of t w opts who token, OF assms(1)] show thesis using that by blast
  qed
  have "(?s ^^ 4) v = (?s ^^ (4 + n)) w" unfolding v(2) by (rule steps_twice)
  with free_acquired [where who = who and t = t and w = v and opts = opts and token = token] v assms(3-5)
  show ?thesis by (intro exI [of _ "4 + n"]) simp
qed

text \<open>A task that finds a lock it may not take for stale leaves it alone: it goes to sleep for the
  poll interval, or fails with the timeout error once it has waited long enough.\<close>

theorem lock_awaited:
  assumes "pc t w = Acquiring" "lw_lock w = Some (LockDirectory f changed)" "readLockOwner (lw_lock w) = Inr owner"
    "\<not> isStale opts (who t) w changed owner"
  shows "lw_lock ((task_step opts who token t ^^ 5) w) = lw_lock w \<and>
    pc t ((task_step opts who token t ^^ 5) w) =
      (if wait_timeout opts \<le> lw_now w - lt_started (lw_task w t) then Settled (Inl DirectoryLockTimeoutError)
       else Sleeping (lw_now w + poll_interval opts))"
proof -
  let ?s = "task_step opts who token t"
  have stale: "\<not> isStale opts (who t) v changed owner" if "lw_now v = lw_now w" "lw_alive v = lw_alive w" for v
    using assms(4) isStale_cong [OF that] by simp
  define a where "a = (?s ^^ 4) w"
  have a: "lw_lock a = lw_lock w" "lw_now a = lw_now w" "pc t a = Waiting" "lt_started (lw_task a t) = lt_started (lw_task w t)"
    using assms stale by (simp_all add: a_def numeral_eq_Suc task_step_def)
  have "(?s ^^ 5) w = ?s a" by (simp add: a_def numeral_eq_Suc)
  with a show ?thesis by (simp add: task_step_def fail_def normalizeLockPathError_def)
qed

definition waiting_world :: "lock_world" where
  "waiting_world = enter 1 (new_world\<lparr> lw_lock := Some (LockDirectory None 0), lw_now := 60000 \<rparr>)"

lemma lock_acquired_witness:
  "\<exists>n\<le>11. holds 1 ((task_step default_lock_options sample_process (sample_token 0x61) 1 ^^ n) waiting_world)"
proof -
  have w: "pc 1 waiting_world = Acquiring" "abandoned default_lock_options (sample_process 1) waiting_world"
    "valid_time (lw_now waiting_world)"
    by (simp_all add: waiting_world_def pc_def enter_def abandoned_def isStale_def default_lock_options_def
        DEFAULT_STALE_AFTER_MS_def valid_time_def)
  from lock_acquired [OF w(1) _ _ _ w(3), where who = sample_process and opts = default_lock_options and token = "sample_token 0x61"]
  show ?thesis using w(2) usable_sample_process [of 1] by (force simp: token_sample is_hex_def is_digit_def holds_def)
qed

lemma lock_awaited_witness:
  "pc 1 ((task_step default_lock_options sample_process (sample_token 0x61) 1 ^^ 5)
     (waiting_world\<lparr> lw_now := 30000 \<rparr>)) = Sleeping 30020"
proof -
  let ?w = "waiting_world\<lparr> lw_now := 30000 \<rparr>"
  have w: "pc 1 ?w = Acquiring" "lw_lock ?w = Some (LockDirectory None 0)" "lt_started (lw_task ?w 1) = 60000"
    by (simp_all add: waiting_world_def pc_def enter_def)
  have "readLockOwner (lw_lock ?w) = Inr None" "\<not> isStale default_lock_options (sample_process 1) ?w 0 None"
    using w(2) by (simp_all add: isStale_def default_lock_options_def DEFAULT_STALE_AFTER_MS_def)
  from lock_awaited [where who = sample_process and t = 1 and opts = default_lock_options and
      token = "sample_token 0x61", OF w(1,2) this] w(3) show ?thesis
    by (simp add: default_lock_options_def DEFAULT_WAIT_TIMEOUT_MS_def DEFAULT_POLL_INTERVAL_MS_def)
qed

end
