(* ===== verification/Utf8_Decode.thy ===== *)
theory Utf8_Decode
  imports Js_Text
begin

text \<open>
  Decoding UTF-8 as \<open>TextDecoder\<close> and \<open>Buffer.toString("utf8")\<close> do (the decoder of the WHATWG
  encoding standard): an ill-formed sequence is an error at its maximal valid prefix.  The fatal
  decoder throws at the first error and skips a leading byte order mark; the lenient one writes
  U+FFFD for each error.
\<close>

section \<open>The decoder\<close>

text \<open>A lead byte: the continuation bytes needed, the bounds of the first one, the initial bits.\<close>

definition lead_byte :: "nat \<Rightarrow> (nat \<times> nat \<times> nat \<times> nat) option" where
  "lead_byte b =
     (if 0xC2 \<le> b \<and> b \<le> 0xDF then Some (1, 0x80, 0xBF, b - 0xC0)
      else if 0xE0 \<le> b \<and> b \<le> 0xEF then
        Some (2, if b = 0xE0 then 0xA0 else 0x80, if b = 0xED then 0x9F else 0xBF, b - 0xE0)
      else if 0xF0 \<le> b \<and> b \<le> 0xF4 then
        Some (3, if b = 0xF0 then 0x90 else 0x80, if b = 0xF4 then 0x8F else 0xBF, b - 0xF0)
      else None)"

fun continuation :: "nat \<Rightarrow> nat \<Rightarrow> nat \<Rightarrow> nat \<Rightarrow> byte list \<Rightarrow> nat option \<times> byte list" where
  "continuation 0 lower upper cp r = (Some cp, r)"
| "continuation (Suc n) lower upper cp [] = (None, [])"
| "continuation (Suc n) lower upper cp (b # r) =
     (if lower \<le> unat b \<and> unat b \<le> upper
      then continuation n 0x80 0xBF (cp * 64 + unat b mod 64) r
      else (None, b # r))"

lemma continuation_length: "continuation n lower upper cp r = (c, r') \<Longrightarrow> length r' \<le> length r"
  by (induction n lower upper cp r rule: continuation.induct) (auto split: if_splits)

text \<open>The code points of a byte sequence; \<open>None\<close> is an error.\<close>

function decode_points :: "byte list \<Rightarrow> nat option list" where
  "decode_points [] = []"
| "decode_points (b # r) =
     (if unat b < 0x80 then Some (unat b) # decode_points r
      else case lead_byte (unat b) of
          None \<Rightarrow> None # decode_points r
        | Some (n, lower, upper, cp) \<Rightarrow>
            (case continuation n lower upper cp r of (c, r') \<Rightarrow> c # decode_points r'))"
  by pat_completeness auto
termination
proof (relation "measure length", goal_cases)
  case (4 b r x a y ba z c d e)
  then show ?case using continuation_length by (metis in_measure le_imp_less_Suc length_Cons)
qed auto

definition units_of_cp :: "nat \<Rightarrow> jstr" where
  "units_of_cp c =
     (if c < 0x10000 then [unit_of c]
      else [unit_of (0xD800 + (c - 0x10000) div 1024), unit_of (0xDC00 + (c - 0x10000) mod 1024)])"

text \<open>\<open>new TextDecoder("utf-8", { fatal: true }).decode(bytes)\<close>\<close>

definition fatalDecode :: "byte list \<Rightarrow> jstr result" where
  "fatalDecode bs =
     (let ps = decode_points (if take 3 bs = [0xEF, 0xBB, 0xBF] then drop 3 bs else bs) in
      if None \<in> set ps then Inl TypeError else Inr (concat (map (units_of_cp \<circ> the) ps)))"

text \<open>\<open>bytes.toString("utf8")\<close>\<close>

definition lenientDecode :: "byte list \<Rightarrow> jstr" where
  "lenientDecode bs =
     concat (map (\<lambda>p. case p of None \<Rightarrow> [0xFFFD] | Some c \<Rightarrow> units_of_cp c) (decode_points bs))"

section \<open>Decoding what was encoded\<close>

lemma units_of_code_point: "well_formed_char c \<Longrightarrow> units_of_cp (code_point c) = c"
proof -
  assume wf: "well_formed_char c"
  from well_formed_char_shape [OF wf] show ?thesis
  proof (elim disjE exE conjE)
    fix u assume "c = [u]"
    then show ?thesis using unat_unit [of u] by (simp add: units_of_cp_def)
  next
    fix u v
    assume c: "c = [u, v]" and u: "high_surrogate u" and v: "low_surrogate v"
    have uv: "0xD800 \<le> unat u" "unat u < 0xDC00" "0xDC00 \<le> unat v" "unat v < 0xE000"
      using u v by (simp_all add: high_surrogate_def low_surrogate_def)
    define a b where "a = unat u - 0xD800" and "b = unat v - 0xDC00"
    have ab: "a < 1024" "b < 1024" using uv by (simp_all add: a_def b_def)
    have "code_point c = 0x10000 + a * 1024 + b" by (simp add: c a_def b_def)
    moreover have "(a * 1024 + b) div 1024 = a" "(a * 1024 + b) mod 1024 = b" using ab by simp_all
    moreover have "0xD800 + a = unat u" "0xDC00 + b = unat v" using uv by (simp_all add: a_def b_def)
    ultimately show ?thesis using c by (simp add: units_of_cp_def)
  qed
qed

lemma continuation_byte: "unat (byte_of (0x80 + m mod 64)) = 0x80 + m mod 64"
  by (rule unat_byte_of) (use mod_less_divisor [of 64 m] in simp)

lemma continuation_two:
  "lower \<le> unat a \<Longrightarrow> unat a \<le> upper \<Longrightarrow> 0x80 \<le> unat b \<Longrightarrow> unat b \<le> 0xBF \<Longrightarrow>
   continuation 2 lower upper cp (a # b # r) =
     (Some ((cp * 64 + unat a mod 64) * 64 + unat b mod 64), r)"
  by (simp add: numeral_2_eq_2)

lemma continuation_three:
  "lower \<le> unat a \<Longrightarrow> unat a \<le> upper \<Longrightarrow> 0x80 \<le> unat b \<Longrightarrow> unat b \<le> 0xBF \<Longrightarrow>
   0x80 \<le> unat c \<Longrightarrow> unat c \<le> 0xBF \<Longrightarrow>
   continuation 3 lower upper cp (a # b # c # r) =
     (Some (((cp * 64 + unat a mod 64) * 64 + unat b mod 64) * 64 + unat c mod 64), r)"
  by (simp add: numeral_3_eq_3)

lemma decode_points_encode:
  assumes "n < 0x110000" "n < 0xD800 \<or> 0xE000 \<le> n"
  shows "decode_points (encode_cp n @ r) = Some n # decode_points r"
proof -
  have low: "(128 + m mod 64) mod 64 = m mod 64" for m :: nat by (simp add: mod_add_eq [of 128 64, symmetric])
  have upper: "128 + m mod 64 \<le> 191" for m :: nat using mod_less_divisor [of 64 m] by simp
  note simps = continuation_byte low upper lead_byte_def continuation_two continuation_three
  consider "n < 0x80" | "0x80 \<le> n" "n < 0x800" | "0x800 \<le> n" "n < 0x10000" | "0x10000 \<le> n"
    by linarith
  then show ?thesis
  proof cases
    case 1
    then show ?thesis by (simp add: encode_cp_def unat_byte_of)
  next
    case 2
    have "2 \<le> n div 64" "n div 64 < 32" using 2 by simp_all
    moreover from this have "unat (byte_of (0xC0 + n div 64)) = 0xC0 + n div 64"
      by (intro unat_byte_of) simp
    ultimately show ?thesis using 2 by (simp add: encode_cp_def simps)
  next
    case 3
    define x y where "x = n div 4096" and "y = n div 64 mod 64"
    have x: "x < 16" and xy: "x * 64 + y = n div 64"
      using 3 three_digits [of n] by (simp_all add: x_def y_def)
    have y: "y < 64" by (simp add: y_def)
    have b: "unat (byte_of (0xE0 + x)) = 0xE0 + x" using x by (intro unat_byte_of) simp
    have "x = 0 \<longrightarrow> 32 \<le> y" using xy 3 by auto
    moreover have "x = 13 \<longrightarrow> y < 32"
    proof
      assume "x = 13"
      then have "n div 64 = 832 + y" using xy by simp
      then have "n < 57344" using y by simp
      then have "n < 0xD800" using assms(2) by simp
      then show "y < 32" using \<open>n div 64 = 832 + y\<close> by simp
    qed
    ultimately show ?thesis
      using 3 x y xy b continuation_byte [of "n div 64"] low [of "n div 64"]
      by (auto simp: encode_cp_def simps x_def [symmetric] y_def [symmetric])
  next
    case 4
    define x y where "x = n div 262144" and "y = n div 4096 mod 64"
    have x: "x < 5" and xy: "x * 64 + y = n div 4096"
      using assms(1) four_digits [of n] by (simp_all add: x_def y_def)
    have y: "y < 64" by (simp add: y_def)
    have b: "unat (byte_of (0xF0 + x)) = 0xF0 + x" using x by (intro unat_byte_of) simp
    have z: "(x * 64 + y) * 64 + n div 64 mod 64 = n div 64"
      using three_digits [of n] xy by (simp add: xy)
    have "x = 0 \<longrightarrow> 16 \<le> y" using xy 4 by auto
    moreover have "x = 4 \<longrightarrow> y < 16" using xy assms(1) by auto
    ultimately show ?thesis
      using 4 x y z b continuation_byte [of "n div 4096"] low [of "n div 4096"]
      by (auto simp: encode_cp_def simps x_def [symmetric] y_def [symmetric])
  qed
qed

lemma code_point_scalar: "well_formed_char c \<Longrightarrow> code_point c < 0xD800 \<or> 0xE000 \<le> code_point c"
  using well_formed_char_shape [of c] by (auto simp: high_surrogate_def low_surrogate_def)

lemma decode_points_chars:
  "list_all well_formed_char cs \<Longrightarrow>
   decode_points (concat (map utf8_char cs) @ r) = map (Some \<circ> code_point) cs @ decode_points r"
proof (induction cs)
  case (Cons c cs)
  then have c: "well_formed_char c" by simp
  from decode_points_encode [OF well_formed_char_cp(2) [OF c] code_point_scalar [OF c]] Cons
  show ?case by (simp add: well_formed_char_cp(1) [OF c])
qed simp

lemma concat_units:
  "list_all well_formed_char cs \<Longrightarrow> concat (map (units_of_cp \<circ> code_point) cs) = concat cs"
  by (induction cs) (simp_all add: units_of_code_point)

lemma decode_points_utf8: "well_formed s \<Longrightarrow> decode_points (utf8 s) = map (Some \<circ> code_point) (characters s)"
  using decode_points_chars [of "characters s" "[]"] by (simp add: well_formed_def utf8_def)

lemma lenientDecode_utf8: "well_formed s \<Longrightarrow> lenientDecode (utf8 s) = s"
  using concat_units [of "characters s"]
  by (simp add: lenientDecode_def decode_points_utf8 well_formed_def comp_def)

lemma fatalDecode_utf8:
  assumes "well_formed s" "take 3 (utf8 s) \<noteq> [0xEF, 0xBB, 0xBF]"
  shows "fatalDecode (utf8 s) = Inr s"
proof -
  have "None \<notin> set (map (Some \<circ> code_point) (characters s))" by auto
  moreover have "concat (map (units_of_cp \<circ> the) (map (Some \<circ> code_point) (characters s))) = s"
    using assms(1) concat_units [of "characters s"] by (simp add: well_formed_def comp_def)
  ultimately show ?thesis
    unfolding fatalDecode_def Let_def if_not_P [OF assms(2)] decode_points_utf8 [OF assms(1)]
    by (simp only: if_False)
qed

end
