(* ===== verification/Jsonl_Store.thy ===== *)
theory Jsonl_Store
  imports Utf8_Decode Json_Object Replay
begin

text \<open>
  \<open>output/jsonl-store.ts\<close>: the append-only feeds.  A feed is the list of its bytes; an append, which
  runs under the directory lock of the file, gives the contents the file passes through and its
  result.  \<open>parse\<close> is \<open>JSON.parse\<close> (\<open>None\<close> when it throws), \<open>idOf\<close> the caller's identifier of a record,
  and \<open>accepts k\<close> how many bytes the operating system takes at the k-th call of \<open>write\<close>.
\<close>

section \<open>Opening\<close>

datatype output_file = MissingFile | RegularFile "byte list" nat | OtherFile | LinkedFile

text \<open>\<open>verified\<close> is what \<open>verifyDirectory\<close> says of the parent.\<close>

definition openDerivedOutput :: "bool result \<Rightarrow> output_file \<Rightarrow> byte list result" where
  "openDerivedOutput verified target =
     (case verified of
        Inl e \<Rightarrow> Inl (if e = UnsafeStorePathError then UnsafeDerivedOutputPathError else e)
      | Inr False \<Rightarrow> Inl UnsafeDerivedOutputPathError
      | Inr True \<Rightarrow>
          (case target of
             MissingFile \<Rightarrow> Inr []
           | LinkedFile \<Rightarrow> Inl UnsafeDerivedOutputPathError
           | OtherFile \<Rightarrow> Inl UnsafeDerivedOutputPathError
           | RegularFile bytes links \<Rightarrow>
               if links \<noteq> 1 then Inl UnsafeDerivedOutputPathError else Inr bytes))"

section \<open>Healing\<close>

text \<open>\<open>chunk.lastIndexOf(0x0a)\<close>\<close>

fun last_newline :: "byte list \<Rightarrow> nat option" where
  "last_newline [] = None"
| "last_newline (b # bs) =
     (case last_newline bs of Some i \<Rightarrow> Some (Suc i) | None \<Rightarrow> if b = 0x0A then Some 0 else None)"

definition HEAL_CHUNK :: nat where
  "HEAL_CHUNK = 64 * 1024"

text \<open>The backward search for the last newline before a position: where to truncate.\<close>

function heal_loop :: "byte list \<Rightarrow> nat \<Rightarrow> nat" where
  "heal_loop bytes position =
     (if position = 0 then 0
      else
        let len = min HEAL_CHUNK position; start = position - len in
        case last_newline (take len (drop start bytes)) of
          Some i \<Rightarrow> start + i + 1
        | None \<Rightarrow> heal_loop bytes start)"
  by pat_completeness auto
termination
  by (relation "measure snd") (auto simp: HEAL_CHUNK_def)

declare heal_loop.simps [simp del]

definition healPartialDerivedTail :: "byte list \<Rightarrow> byte list" where
  "healPartialDerivedTail bytes =
     (if bytes = [] \<or> last bytes = 0x0A then bytes
      else take (heal_loop bytes (length bytes)) bytes)"

section \<open>What is already there\<close>

fun split_newlines :: "jstr \<Rightarrow> jstr list" where
  "split_newlines [] = [[]]"
| "split_newlines (u # us) =
     (case split_newlines us of
        [] \<Rightarrow> [[u]]
      | l # ls \<Rightarrow> if u = 0x0A then [] # l # ls else (u # l) # ls)"

definition CONFLICT_ID_REPORT_LIMIT :: nat where
  "CONFLICT_ID_REPORT_LIMIT = 8"

definition report_id :: "jstr \<Rightarrow> jstr list \<Rightarrow> jstr list" where
  "report_id i ids = (if length ids < CONFLICT_ID_REPORT_LIMIT then ids @ [i] else ids)"

record existing_records =
  ex_records :: "(jstr \<times> jstr) list"
  ex_conflicts :: nat
  ex_conflictIds :: "jstr list"

text \<open>One line of the file: lines that do not identify a record are skipped.\<close>

definition existing_line ::
  "(jstr \<Rightarrow> jsval option) \<Rightarrow> (jsval \<Rightarrow> jstr result) \<Rightarrow> jstr \<Rightarrow> existing_records \<Rightarrow> existing_records result" where
  "existing_line parse idOf line ex =
     (if line = [] then Inr ex
      else case parse line of
        Some (JObj ps) \<Rightarrow>
          (case idOf (JObj ps) of
             Inr (c # cs) \<Rightarrow>
               (case stableStringify (JObj ps) of
                  Inl e \<Rightarrow> Inl e
                | Inr canonical \<Rightarrow>
                    (case map_of (ex_records ex) (c # cs) of
                       Some previous \<Rightarrow>
                         if previous \<noteq> canonical
                         then Inr (ex\<lparr> ex_conflicts := ex_conflicts ex + 1,
                                      ex_conflictIds := report_id (c # cs) (ex_conflictIds ex) \<rparr>)
                         else Inr ex
                     | None \<Rightarrow> Inr (ex\<lparr> ex_records := ex_records ex @ [(c # cs, canonical)] \<rparr>)))
           | _ \<Rightarrow> Inr ex)
      | _ \<Rightarrow> Inr ex)"

definition no_records :: existing_records where
  "no_records = \<lparr> ex_records = [], ex_conflicts = 0, ex_conflictIds = [] \<rparr>"

definition readExistingRecords ::
  "(jstr \<Rightarrow> jsval option) \<Rightarrow> (jsval \<Rightarrow> jstr result) \<Rightarrow> byte list \<Rightarrow> existing_records result" where
  "readExistingRecords parse idOf bytes =
     run_steps (existing_line parse idOf) (split_newlines (lenientDecode bytes)) no_records"

section \<open>The batch\<close>

record batch_state =
  bt_seen :: "(jstr \<times> jstr) list"
  bt_lines :: "jstr list"
  bt_skipped :: nat
  bt_conflicted :: nat
  bt_conflictIds :: "jstr list"

record append_result =
  ar_appended :: nat
  ar_skipped :: nat
  ar_conflicted :: nat
  ar_conflictedIds :: "jstr list"

text \<open>A record whose identifier is known already is skipped, and counted when it differs.\<close>

definition skip_known :: "jstr \<Rightarrow> jstr \<Rightarrow> jstr \<Rightarrow> batch_state \<Rightarrow> batch_state" where
  "skip_known i canonical present b =
     (if present \<noteq> canonical
      then b\<lparr> bt_conflicted := bt_conflicted b + 1, bt_conflictIds := report_id i (bt_conflictIds b),
              bt_skipped := bt_skipped b + 1 \<rparr>
      else b\<lparr> bt_skipped := bt_skipped b + 1 \<rparr>)"

definition batch_record ::
  "(jsval \<Rightarrow> jstr result) \<Rightarrow> (jstr \<times> jstr) list \<Rightarrow> jsval \<Rightarrow> batch_state \<Rightarrow> batch_state result" where
  "batch_record idOf known r b =
     (case idOf r of
        Inl e \<Rightarrow> Inl e
      | Inr i \<Rightarrow>
          if i = [] then Inl TypeError
          else case stableStringify r of
            Inl e \<Rightarrow> Inl e
          | Inr canonical \<Rightarrow>
              (case map_of known i of
                 Some persisted \<Rightarrow> Inr (skip_known i canonical persisted b)
               | None \<Rightarrow>
                   (case map_of (bt_seen b) i of
                      Some batched \<Rightarrow> Inr (skip_known i canonical batched b)
                    | None \<Rightarrow>
                        Inr (b\<lparr> bt_seen := bt_seen b @ [(i, canonical)],
                                bt_lines := bt_lines b @ [canonical @ [0x0A]] \<rparr>))))"

definition start_batch :: "existing_records \<Rightarrow> batch_state" where
  "start_batch ex = \<lparr> bt_seen = [], bt_lines = [], bt_skipped = 0, bt_conflicted = ex_conflicts ex,
     bt_conflictIds = ex_conflictIds ex \<rparr>"

section \<open>Appending\<close>

function append_loop :: "(nat \<Rightarrow> nat) \<Rightarrow> nat \<Rightarrow> byte list \<Rightarrow> byte list \<Rightarrow> byte list list \<times> unit result" where
  "append_loop accepts k rest feed =
     (if rest = [] then ([], Inr ())
      else
        let n = min (accepts k) (length rest) in
        if n = 0 then ([], Inl PlainError)
        else
          let feed' = feed @ take n rest in
          case append_loop accepts (Suc k) (drop n rest) feed' of (tr, r) \<Rightarrow> (feed' # tr, r))"
  by pat_completeness auto
termination
  by (relation "measure (\<lambda>(_, _, rest, _). length rest)") auto

declare append_loop.simps [simp del]

definition appendToHandle :: "(nat \<Rightarrow> nat) \<Rightarrow> byte list \<Rightarrow> byte list \<Rightarrow> byte list list \<times> unit result" where
  "appendToHandle accepts bytes feed = append_loop accepts 0 bytes feed"

text \<open>The transaction on the opened file.\<close>

definition append_records ::
  "(jstr \<Rightarrow> jsval option) \<Rightarrow> (jsval \<Rightarrow> jstr result) \<Rightarrow> (nat \<Rightarrow> nat) \<Rightarrow> jsval list \<Rightarrow> byte list \<Rightarrow>
   byte list list \<times> append_result result" where
  "append_records parse idOf accepts records bytes =
     (let feed = healPartialDerivedTail bytes in
      case readExistingRecords parse idOf feed of
        Inl e \<Rightarrow> ([feed], Inl e)
      | Inr ex \<Rightarrow>
          (case run_steps (batch_record idOf (ex_records ex)) records (start_batch ex) of
             Inl e \<Rightarrow> ([feed], Inl e)
           | Inr b \<Rightarrow>
               (case (if bt_lines b = [] then ([], Inr ())
                      else appendToHandle accepts (utf8 (concat (bt_lines b))) feed) of
                  (tr, Inl e) \<Rightarrow> (feed # tr, Inl e)
                | (tr, Inr _) \<Rightarrow>
                    (feed # tr,
                     Inr \<lparr> ar_appended = length (bt_lines b), ar_skipped = bt_skipped b,
                           ar_conflicted = bt_conflicted b, ar_conflictedIds = bt_conflictIds b \<rparr>))))"

definition appendUniqueJsonl ::
  "(jstr \<Rightarrow> jsval option) \<Rightarrow> (jsval \<Rightarrow> jstr result) \<Rightarrow> (nat \<Rightarrow> nat) \<Rightarrow> bool result \<Rightarrow> jsval list \<Rightarrow>
   output_file \<Rightarrow> byte list list \<times> append_result result" where
  "appendUniqueJsonl parse idOf accepts verified records target =
     (if records = []
      then ([], Inr \<lparr> ar_appended = 0, ar_skipped = 0, ar_conflicted = 0, ar_conflictedIds = [] \<rparr>)
      else case openDerivedOutput verified target of
        Inl e \<Rightarrow> ([], Inl e)
      | Inr bytes \<Rightarrow> append_records parse idOf accepts records bytes)"

end
