(* ===== verification/Jsonl_Feed.thy ===== *)
theory Jsonl_Feed
  imports Jsonl_Store
begin

text \<open>
  Feeds as text: what healing leaves, that a line feed cuts a feed into independent parts however
  broken they are, and that the line written for a record is read back as that record.
\<close>

section \<open>Healing\<close>

lemma last_newline_None: "last_newline bs = None \<longleftrightarrow> 0x0A \<notin> set bs"
  by (induction bs) (auto split: option.split)

lemma last_newline_Some:
  "last_newline bs = Some i \<Longrightarrow> i < length bs \<and> bs ! i = 0x0A \<and> 0x0A \<notin> set (drop (Suc i) bs)"
proof (induction bs arbitrary: i)
  case (Cons b bs)
  show ?case
  proof (cases "last_newline bs")
    case None
    with Cons.prems show ?thesis by (auto simp: last_newline_None split: if_splits)
  next
    case (Some j)
    with Cons show ?thesis by auto
  qed
qed simp

text \<open>The reference: everything up to the last line feed.\<close>

definition complete_part :: "byte list \<Rightarrow> byte list" where
  "complete_part bs = rev (dropWhile (\<lambda>b. b \<noteq> 0x0A) (rev bs))"

lemma complete_part_tail: "0x0A \<notin> set t \<Longrightarrow> complete_part (bs @ t) = complete_part bs"
proof -
  assume "0x0A \<notin> set t"
  then have "dropWhile (\<lambda>b. b \<noteq> 0x0A) (rev t @ rev bs) = dropWhile (\<lambda>b. b \<noteq> 0x0A) (rev bs)"
    by (intro dropWhile_append2) auto
  then show ?thesis by (simp add: complete_part_def)
qed

lemma complete_part_LF: "complete_part (bs @ [0x0A]) = bs @ [0x0A]"
  by (simp add: complete_part_def)

lemma complete_part_Nil [simp]: "complete_part [] = []"
  by (simp add: complete_part_def)

lemma take_split: "i < n \<Longrightarrow> n \<le> length bs \<Longrightarrow> take n bs = take i bs @ bs ! i # drop (Suc i) (take n bs)"
  using id_take_nth_drop [of i "take n bs"] by (simp add: min_def)

lemma heal_loop_complete:
  "position \<le> length bytes \<Longrightarrow> take (heal_loop bytes position) bytes = complete_part (take position bytes)"
proof (induction bytes position rule: heal_loop.induct)
  case (1 bytes position)
  show ?case
  proof (cases "position = 0")
    case False
    define len where "len = min HEAL_CHUNK position"
    define start where "start = position - len"
    have le: "len \<le> position" "0 < len" using False by (auto simp: len_def HEAL_CHUNK_def)
    have pos: "position = start + len" using le by (simp add: start_def)
    have cut: "take position bytes = take start bytes @ take len (drop start bytes)"
      by (simp add: pos take_add)
    show ?thesis
    proof (cases "last_newline (take len (drop start bytes))")
      case None
      have "heal_loop bytes position = heal_loop bytes start"
        using None False by (subst heal_loop.simps) (simp add: len_def [symmetric] start_def [symmetric])
      moreover have "take (heal_loop bytes start) bytes = complete_part (take start bytes)"
        by (rule 1(1) [OF False len_def start_def None]) (use 1(2) in \<open>simp add: start_def\<close>)
      ultimately show ?thesis using None by (simp add: cut complete_part_tail last_newline_None)
    next
      case (Some i)
      then have i: "i < len" "take len (drop start bytes) ! i = 0x0A"
        "0x0A \<notin> set (drop (Suc i) (take len (drop start bytes)))"
        using last_newline_Some [OF Some] by auto
      have loop: "heal_loop bytes position = start + i + 1"
        using Some False by (subst heal_loop.simps) (simp add: len_def [symmetric] start_def [symmetric])
      have "take (start + i + 1) bytes = take (start + i) bytes @ [0x0A]"
      proof -
        have "start + i < length bytes" using i(1) 1(2) pos by simp
        moreover have "bytes ! (start + i) = 0x0A" using i(1,2) 1(2) pos by simp
        ultimately show ?thesis by (simp add: take_Suc_conv_app_nth)
      qed
      with loop have h: "take (heal_loop bytes position) bytes = take (start + i) bytes @ [0x0A]" by simp
      have parts: "take position bytes = (take (start + i) bytes @ [0x0A]) @ drop (Suc i) (take len (drop start bytes))"
      proof -
        have "take len (drop start bytes) = take i (drop start bytes) @ 0x0A # drop (Suc i) (take len (drop start bytes))"
          using take_split [of i len "drop start bytes"] i(1,2) 1(2) pos by simp
        then show ?thesis by (simp add: cut take_add)
      qed
      have "complete_part (take position bytes) = take (start + i) bytes @ [0x0A]"
        by (simp only: parts complete_part_tail [OF i(3)] complete_part_LF)
      with h show ?thesis by simp
    qed
  qed (simp add: heal_loop.simps)
qed

lemma heal_complete: "healPartialDerivedTail bs = complete_part bs"
proof (cases bs rule: rev_cases)
  case (snoc ys b)
  then show ?thesis
    using heal_loop_complete [of "length bs" bs] complete_part_LF [of ys]
    by (auto simp: healPartialDerivedTail_def)
qed (simp add: healPartialDerivedTail_def)

text \<open>A feed of complete lines.\<close>

definition whole :: "byte list \<Rightarrow> bool" where
  "whole bs \<longleftrightarrow> bs = [] \<or> last bs = 0x0A"

lemma heal_whole: "whole (healPartialDerivedTail bs)"
proof -
  have "dropWhile (\<lambda>b. b \<noteq> 0x0A) (rev bs) \<noteq> [] \<Longrightarrow> hd (dropWhile (\<lambda>b. b \<noteq> 0x0A) (rev bs)) = (0x0A :: byte)"
    by (metis (mono_tags, lifting) hd_dropWhile)
  then show ?thesis by (auto simp: whole_def heal_complete complete_part_def last_rev)
qed

lemma heal_id: "whole bs \<Longrightarrow> healPartialDerivedTail bs = bs"
  by (auto simp: whole_def healPartialDerivedTail_def)

lemma heal_prefix: "\<exists>t. bs = healPartialDerivedTail bs @ t"
proof -
  have "bs = complete_part bs @ rev (takeWhile (\<lambda>b. b \<noteq> 0x0A) (rev bs))"
    unfolding complete_part_def rev_append [symmetric] by simp
  then show ?thesis unfolding heal_complete by blast
qed

lemma heal_append: "whole bs \<Longrightarrow> healPartialDerivedTail (bs @ t) = bs @ complete_part t"
proof -
  assume "whole bs"
  show ?thesis
  proof (cases "0x0A \<in> set t")
    case True
    then have "\<exists>x\<in>set (rev t). \<not> x \<noteq> (0x0A :: byte)" by auto
    then show ?thesis by (auto simp: heal_complete complete_part_def dropWhile_append1)
  next
    case False
    then have "complete_part t = []" using complete_part_tail [of t "[]"] by simp
    with False \<open>whole bs\<close> show ?thesis
      by (metis heal_complete heal_id complete_part_tail append_Nil2)
  qed
qed

section \<open>Decoding\<close>

lemma continuation_LF:
  assumes "continuation n lower upper cp r = (c, r')" "0x80 \<le> lower"
  shows "continuation n lower upper cp (r @ 0x0A # b) = (c, r' @ 0x0A # b)"
  using assms by (induction n lower upper cp r rule: continuation.induct) (auto split: if_splits)

lemma lead_byte_lower: "lead_byte n = Some (k, lower, upper, cp) \<Longrightarrow> 0x80 \<le> lower"
  by (auto simp: lead_byte_def split: if_splits)

lemma decode_points_LF: "decode_points (a @ 0x0A # b) = decode_points a @ Some 0x0A # decode_points b"
proof (induction a rule: decode_points.induct)
  case (2 c r)
  show ?case
  proof (cases "unat c < 0x80")
    case False
    show ?thesis
    proof (cases "lead_byte (unat c)")
      case None
      with 2 False show ?thesis by simp
    next
      case (Some q)
      obtain k lower upper cp where q: "q = (k, lower, upper, cp)" by (metis prod_cases4)
      obtain d r' where d: "continuation k lower upper cp r = (d, r')" by (metis surj_pair)
      from continuation_LF [OF d lead_byte_lower] Some q
      have "continuation k lower upper cp (r @ 0x0A # b) = (d, r' @ 0x0A # b)" by blast
      with 2(3) [OF False Some] 2 False Some q d show ?thesis by simp
    qed
  qed (use 2 in simp)
qed simp

lemma lenientDecode_LF: "lenientDecode (a @ 0x0A # b) = lenientDecode a @ 0x0A # lenientDecode b"
  by (simp add: lenientDecode_def decode_points_LF units_of_cp_def unit_of_def)

lemma split_newlines_nonempty: "split_newlines s \<noteq> []"
  by (cases s) (auto split: list.split)

lemma split_newlines_LF: "split_newlines (a @ 0x0A # b) = split_newlines a @ split_newlines b"
proof (induction a)
  case Nil
  then show ?case using split_newlines_nonempty [of b] by (auto split: list.split)
next
  case (Cons u a)
  then show ?case using split_newlines_nonempty [of a] by (auto split: list.split)
qed

lemma split_newlines_line: "0x0A \<notin> set s \<Longrightarrow> split_newlines s = [s]"
  by (induction s) auto

section \<open>The text of a record\<close>

text \<open>A text that takes one line and is the same after UTF-8: no line feed and no lone surrogate.\<close>

definition line_text :: "jstr \<Rightarrow> bool" where
  "line_text s \<longleftrightarrow> well_formed s \<and> 0x0A \<notin> set s"

lemma characters_well_formed: "well_formed a \<Longrightarrow> characters (a @ b) = characters a @ characters b"
proof (induction a rule: characters.induct)
  case (3 u v us)
  then show ?case
    by (cases "high_surrogate u \<and> low_surrogate v") (auto simp: well_formed_def)
next
  case (2 u)
  then show ?case by (cases b) (auto simp: well_formed_def well_formed_char_def)
qed simp

lemma well_formed_append: "well_formed a \<Longrightarrow> well_formed b \<Longrightarrow> well_formed (a @ b)"
  by (simp add: well_formed_def characters_well_formed)

lemma utf8_well_formed: "well_formed a \<Longrightarrow> utf8 (a @ b) = utf8 a @ utf8 b"
  by (simp add: utf8_def characters_well_formed)

lemma line_text_append [intro]: "line_text a \<Longrightarrow> line_text b \<Longrightarrow> line_text (a @ b)"
  by (auto simp: line_text_def well_formed_append)

lemma line_text_Nil [simp]: "line_text []"
  by (simp add: line_text_def well_formed_def)

text \<open>Plain units need no care.\<close>

definition plain_unit :: "16 word \<Rightarrow> bool" where
  "plain_unit u \<longleftrightarrow> \<not> high_surrogate u \<and> \<not> low_surrogate u \<and> u \<noteq> 0x0A"

lemma characters_plain: "list_all plain_unit s \<Longrightarrow> characters s = map (\<lambda>u. [u]) s"
proof (induction s rule: characters.induct)
  case (3 u v us)
  then show ?case by (auto simp: plain_unit_def)
qed auto

lemma line_text_plain: "list_all plain_unit s \<Longrightarrow> line_text s"
  by (auto simp: line_text_def well_formed_def characters_plain list_all_iff well_formed_char_def is_character_def plain_unit_def)

lemma line_text_concat: "(\<And>x. x \<in> set xs \<Longrightarrow> line_text x) \<Longrightarrow> line_text (concat xs)"
  by (induction xs) auto

lemma line_text_join: "line_text sep \<Longrightarrow> (\<And>x. x \<in> set xs \<Longrightarrow> line_text x) \<Longrightarrow> line_text (join sep xs)"
  by (cases xs) (auto simp: join_def intro!: line_text_concat line_text_append)

lemma plain_hex: "d < 16 \<Longrightarrow> plain_unit (hex_unit d)"
  by (auto simp: plain_unit_def hex_unit_def high_surrogate_def low_surrogate_def unat_unit_of
      dest!: arg_cong [of _ "0x0A :: 16 word" unat])

lemma line_text_quote_char: "is_character c \<Longrightarrow> line_text (quote_char c)"
proof (cases c rule: quote_char.cases)
  case (1 u)
  have hex: "list_all plain_unit (hex4 (unat u))"
    using unat_unit [of u] by (auto simp: hex4_def intro!: plain_hex)
  have lits: "plain_unit 0x5C" "plain_unit 0x22" "plain_unit 0x62" "plain_unit 0x66" "plain_unit 0x6E"
    "plain_unit 0x72" "plain_unit 0x74" "plain_unit 0x75"
    by (simp_all add: plain_unit_def high_surrogate_def low_surrogate_def)
  show ?thesis
    using hex lits unfolding 1 by (auto intro!: line_text_plain) (simp add: plain_unit_def)
qed (auto simp: is_character_def line_text_def well_formed_def well_formed_char_def high_surrogate_def low_surrogate_def)

lemma line_text_quote: "line_text (quote s)"
proof -
  have "line_text [0x22]" by (rule line_text_plain) (simp add: plain_unit_def high_surrogate_def low_surrogate_def)
  moreover have "line_text (concat (map quote_char (characters s)))"
    by (rule line_text_concat) (auto dest: characters_are intro: line_text_quote_char)
  ultimately have "line_text ([0x22] @ concat (map quote_char (characters s)) @ [0x22])" by blast
  then show ?thesis by (simp add: quote_def)
qed

lemma plain_digit: "is_digit u \<Longrightarrow> plain_unit u"
  by (auto simp: plain_unit_def is_digit_def high_surrogate_def low_surrogate_def word_le_nat_alt)

lemma plain_decimal_nat: "list_all plain_unit (decimal_nat n)"
  using decimal_nat_digits [of n] plain_digit by (auto simp: list_all_iff)

lemma line_text_decimal: "line_text (decimal n)"
  by (rule line_text_plain)
    (simp add: decimal_def plain_decimal_nat, simp add: plain_unit_def high_surrogate_def low_surrogate_def)

lemma plain_number_unit: "number_unit u \<Longrightarrow> plain_unit u"
  by (auto simp: number_unit_def plain_digit) (simp_all add: plain_unit_def high_surrogate_def low_surrogate_def)

lemma line_text_literals: "line_text (js ''null'')" "line_text (js ''true'')" "line_text (js ''false'')"
  "line_text [0x2C]" "line_text [0x5B]" "line_text [0x5D]" "line_text [0x7B]" "line_text [0x7D]" "line_text [0x3A]"
  by (auto intro!: line_text_plain simp: literal_simps plain_unit_def high_surrogate_def low_surrogate_def)

lemma line_text_json: "clean v \<Longrightarrow> line_text (json_text v)"
proof (induction v rule: json_text.induct)
  case (1 xs)
  then have "line_text ([0x5B] @ join [0x2C] (map json_text xs) @ [0x5D])"
    by (intro line_text_append line_text_join line_text_literals) (auto simp: list_all_iff)
  then show ?case by simp
next
  case (2 ps)
  have "line_text (quote k @ [0x3A] @ json_text v)" if "(k, v) \<in> set ps" for k v
    using 2 that by (intro line_text_append line_text_quote line_text_literals) (auto simp: list_all_iff)
  then have "line_text ([0x7B] @ join [0x2C] (map (\<lambda>(k, v). quote k @ 0x3A # json_text v) ps) @ [0x7D])"
    by (intro line_text_append line_text_join line_text_literals) auto
  then show ?case by simp
next
  case (5 n)
  then show ?case
    using plain_number_unit
    by (cases n) (auto simp: line_text_decimal list_all_iff intro!: line_text_plain)
qed (simp_all add: line_text_literals line_text_quote)

lemma stable_line_text:
  assumes "serializable v" "numbers_ok v" "stableStringify v = Inr t"
  shows "line_text t"
proof -
  have "t = json_text (canon v)" "canon v \<noteq> JUndef"
    using assms(1,3) canon_JUndef by (auto simp: stableStringify_canon split: if_splits)
  then show ?thesis using clean_canon [OF assms(1,2)] line_text_json by simp
qed

text \<open>The bytes of a line.\<close>

definition line_bytes :: "jstr \<Rightarrow> byte list" where
  "line_bytes t = utf8 (t @ [0x0A])"

lemma line_bytes_eq: "line_text t \<Longrightarrow> line_bytes t = utf8 t @ [0x0A]"
  by (simp add: line_bytes_def line_text_def utf8_well_formed) (simp add: utf8_def byte_of_def)

lemma whole_line: "line_text t \<Longrightarrow> whole (line_bytes t)"
  by (simp add: line_bytes_eq whole_def)

lemma utf8_no_LF: "line_text t \<Longrightarrow> 0x0A \<notin> set (utf8 t)"
proof
  assume t: "line_text t" and "0x0A \<in> set (utf8 t)"
  then obtain a b where "utf8 t = a @ 0x0A # b" by (meson split_list)
  then have "lenientDecode (utf8 t) = lenientDecode a @ 0x0A # lenientDecode b" by (simp only: lenientDecode_LF)
  with t have "t = lenientDecode a @ 0x0A # lenientDecode b" by (simp add: line_text_def lenientDecode_utf8)
  then have "0x0A \<in> set t" by (metis in_set_conv_decomp)
  with t show False by (simp add: line_text_def)
qed

lemma line_text_LF: "line_text t \<Longrightarrow> well_formed (t @ [0x0A])"
  by (rule well_formed_append) (simp_all add: line_text_def well_formed_def well_formed_char_def
      is_character_def high_surrogate_def low_surrogate_def)

lemma utf8_lines: "list_all line_text ts \<Longrightarrow> utf8 (concat (map (\<lambda>t. t @ [0x0A]) ts)) = concat (map line_bytes ts)"
proof (induction ts)
  case (Cons t ts)
  then show ?case
    using utf8_well_formed [OF line_text_LF [of t], of "concat (map (\<lambda>t. t @ [0x0A]) ts)"]
    by (simp add: line_bytes_def)
qed simp

text \<open>The lines of a feed, and those of what is appended to it.\<close>

definition feed_lines :: "byte list \<Rightarrow> jstr list" where
  "feed_lines bs = split_newlines (lenientDecode bs)"

lemma feed_lines_append:
  assumes "whole a"
  shows "feed_lines (a @ b) = butlast (feed_lines a) @ feed_lines b"
proof (cases a rule: rev_cases)
  case Nil
  then show ?thesis by (simp add: feed_lines_def lenientDecode_def)
next
  case (snoc ys x)
  with assms have "a = ys @ 0x0A # []" by (simp add: whole_def)
  then show ?thesis by (simp add: feed_lines_def lenientDecode_LF split_newlines_LF)
    (simp add: lenientDecode_def)
qed

lemma feed_lines_line: "line_text t \<Longrightarrow> feed_lines (line_bytes t @ b) = t # feed_lines b"
proof -
  assume t: "line_text t"
  have "feed_lines (line_bytes t @ b) = split_newlines (lenientDecode (utf8 t)) @ feed_lines b"
    by (simp add: line_bytes_eq [OF t] feed_lines_def lenientDecode_LF split_newlines_LF)
  with t show ?thesis by (simp add: line_text_def lenientDecode_utf8 split_newlines_line)
qed

lemma feed_lines_lines: "list_all line_text ts \<Longrightarrow> feed_lines (concat (map line_bytes ts) @ b) = ts @ feed_lines b"
  by (induction ts) (simp_all add: feed_lines_line)

lemma feed_lines_Nil [simp]: "feed_lines [] = [[]]"
  by (simp add: feed_lines_def lenientDecode_def)

end
