(* ===== verification/Jsonl_Appends.thy ===== *)
theory Jsonl_Appends
  imports Jsonl_Feed
begin

text \<open>
  What an append does, over the map a feed stands for: from identifiers to the text published under
  them.  An append adds what is missing and changes nothing else, an append repeated adds nothing,
  and an append cut off anywhere is completed by the next one.
\<close>

section \<open>The abstract feed\<close>

type_synonym entry_text = "jstr \<times> jstr"

definition publish :: "entry_text \<Rightarrow> (jstr \<rightharpoonup> jstr) \<Rightarrow> (jstr \<rightharpoonup> jstr) result" where
  "publish e M = Inr (if fst e \<in> dom M then M else M(fst e \<mapsto> snd e))"

definition publish_all :: "entry_text list \<Rightarrow> (jstr \<rightharpoonup> jstr) \<Rightarrow> (jstr \<rightharpoonup> jstr)" where
  "publish_all es M = fold (\<lambda>(i, t) N. if i \<in> dom N then N else N(i \<mapsto> t)) es M"

lemma publish_all_simps [simp]:
  "publish_all [] M = M"
  "publish_all ((i, t) # es) M = publish_all es (if i \<in> dom M then M else M(i \<mapsto> t))"
  by (simp_all add: publish_all_def)

lemma run_publish: "run_steps publish es M = Inr (publish_all es M)"
  by (induction es arbitrary: M) (auto simp: publish_def)

interpretation feed: absorbing publish "\<lambda>M. True" "\<lambda>M e. fst e \<in> dom M" "\<lambda>e f. True"
  by unfold_locales (auto simp: publish_def)

lemma publish_all_known: "e \<in> set es \<Longrightarrow> fst e \<in> dom (publish_all es M)"
  using feed.run_holds [where s = M and es = es and s' = "publish_all es M"] by (simp add: run_publish)

lemma publish_all_again: "publish_all es (publish_all es M) = publish_all es M"
  using feed.run_replay [where s = M and es = es and s' = "publish_all es M"] by (simp add: run_publish)

lemma publish_all_extends: "M \<subseteq>\<^sub>m publish_all es M"
proof (induction es arbitrary: M)
  case (Cons e es)
  obtain i t where e: "e = (i, t)" by (cases e)
  have "M \<subseteq>\<^sub>m (if i \<in> dom M then M else M(i \<mapsto> t))" by (auto simp: map_le_def)
  from map_le_trans [OF this Cons] show ?case by (simp add: e)
qed simp

text \<open>Whatever part of it has been published before, publishing all gives the same.\<close>

lemma publish_all_resumed:
  "M \<subseteq>\<^sub>m N \<Longrightarrow> N \<subseteq>\<^sub>m publish_all es M \<Longrightarrow> publish_all es N = publish_all es M"
proof (induction es arbitrary: M N)
  case Nil
  then show ?case by (simp add: map_le_antisym)
next
  case (Cons e es)
  obtain i t where e: "e = (i, t)" by (cases e)
  show ?case
  proof (cases "i \<in> dom M")
    case True
    then have "i \<in> dom N" using Cons.prems(1) by (force simp: map_le_def dom_def)
    with True Cons show ?thesis by (simp add: e)
  next
    case False
    have P: "publish_all (e # es) M = publish_all es (M(i \<mapsto> t))" using False by (simp add: e)
    have i: "publish_all es (M(i \<mapsto> t)) i = Some t"
      using publish_all_extends [of "M(i \<mapsto> t)" es] by (force simp: map_le_def)
    let ?N = "if i \<in> dom N then N else N(i \<mapsto> t)"
    have "M(i \<mapsto> t) \<subseteq>\<^sub>m ?N" "?N \<subseteq>\<^sub>m publish_all es (M(i \<mapsto> t))"
      using Cons.prems i unfolding P map_le_def by (auto split: if_splits)
    from Cons.IH [OF this] show ?thesis unfolding P by (simp only: e publish_all_simps)
  qed
qed

text \<open>The entries that are new: of those with the same identifier the first, unless it is published.\<close>

fun missing :: "(jstr \<rightharpoonup> jstr) \<Rightarrow> entry_text list \<Rightarrow> entry_text list" where
  "missing M [] = []"
| "missing M ((i, t) # es) = (if i \<in> dom M then missing M es else (i, t) # missing (M(i \<mapsto> t)) es)"

text \<open>The entries whose text is not the one that is published under their identifier in the end.\<close>

definition clashing :: "entry_text list \<Rightarrow> (jstr \<rightharpoonup> jstr) \<Rightarrow> entry_text list" where
  "clashing es M = filter (\<lambda>(i, t). publish_all es M i \<noteq> Some t) es"

lemma clashing_Cons:
  "clashing ((i, t) # es) M = (if i \<in> dom M \<and> M i \<noteq> Some t then [(i, t)] else []) @
     clashing es (if i \<in> dom M then M else M(i \<mapsto> t))"
proof -
  have final: "publish_all es N i = N i" if "i \<in> dom N" for N
    using publish_all_extends [of N es] that by (simp add: map_le_def)
  show ?thesis
  proof (cases "i \<in> dom M")
    case True
    then show ?thesis using final [OF True] by (simp add: clashing_def)
  next
    case False
    have "publish_all es (M(i \<mapsto> t)) i = Some t" by (subst final) simp_all
    then show ?thesis using False by (simp add: clashing_def)
  qed
qed

section \<open>Records and their lines\<close>

definition entry_of :: "(jsval \<Rightarrow> jstr result) \<Rightarrow> jsval \<Rightarrow> entry_text" where
  "entry_of idOf r = ((case idOf r of Inl _ \<Rightarrow> [] | Inr i \<Rightarrow> i), (case stableStringify r of Inl _ \<Rightarrow> [] | Inr t \<Rightarrow> t))"

text \<open>What the writer may rely on: records are objects, \<open>JSON.parse\<close> reads their text, and their
  identifier does not depend on the order of their properties.\<close>

definition readable :: "(jstr \<Rightarrow> jsval option) \<Rightarrow> (jsval \<Rightarrow> jstr result) \<Rightarrow> jsval \<Rightarrow> bool" where
  "readable parse idOf r \<longleftrightarrow> (\<exists>ps. r = JObj ps) \<and> numbers_ok r \<and> idOf (canon r) = idOf r \<and>
     (\<forall>t. stableStringify r = Inr t \<longrightarrow> parse t = Some (canon r))"

lemma stableStringify_Inr: "stableStringify v = Inr t \<Longrightarrow> serializable v \<and> stableStringify (canon v) = Inr t"
proof -
  assume t: "stableStringify v = Inr t"
  then have s: "serializable v" using stableStringify_fails_iff [of v] by (metis Inl_Inr_False sum.exhaust)
  with t show ?thesis
    by (auto simp: stableStringify_canon serializable_canon canon_idem canon_JUndef split: if_splits)
qed

definition published_as :: "(jstr \<Rightarrow> jsval option) \<Rightarrow> (jsval \<Rightarrow> jstr result) \<Rightarrow> entry_text \<Rightarrow> bool" where
  "published_as parse idOf e \<longleftrightarrow> fst e \<noteq> [] \<and> line_text (snd e) \<and> snd e \<noteq> [] \<and>
     (\<exists>ps. parse (snd e) = Some (JObj ps) \<and> idOf (JObj ps) = Inr (fst e) \<and> stableStringify (JObj ps) = Inr (snd e))"

lemma readable_published_as:
  assumes "readable parse idOf r" "idOf r = Inr i" "i \<noteq> []" "stableStringify r = Inr t"
  shows "published_as parse idOf (i, t)"
proof -
  from assms(1) obtain ps where r: "r = JObj ps" by (auto simp: readable_def)
  have s: "serializable r" "stableStringify (canon r) = Inr t" using stableStringify_Inr [OF assms(4)] by auto
  have t: "line_text t" using stable_line_text [OF s(1) _ assms(4)] assms(1) by (simp add: readable_def)
  have "t = json_text (canon r)" using assms(4) s(1) r by (simp add: stableStringify_canon)
  then have "t \<noteq> []" by (simp add: r)
  moreover have "parse t = Some (canon r)" "idOf (canon r) = Inr i" using assms by (simp_all add: readable_def)
  ultimately show ?thesis using t s(2) assms(3) by (auto simp: published_as_def r)
qed

text \<open>Reading a line that was written: the record is known, or becomes known.\<close>

lemma existing_line_published:
  assumes "published_as parse idOf (i, t)"
  shows "existing_line parse idOf t ex =
    (case map_of (ex_records ex) i of
       Some previous \<Rightarrow>
         Inr (if previous \<noteq> t then ex\<lparr> ex_conflicts := ex_conflicts ex + 1,
                ex_conflictIds := report_id i (ex_conflictIds ex) \<rparr> else ex)
     | None \<Rightarrow> Inr (ex\<lparr> ex_records := ex_records ex @ [(i, t)] \<rparr>))"
  using assms by (cases i) (auto simp: existing_line_def published_as_def split: option.split)

lemma existing_lines_new:
  assumes "\<forall>e\<in>set es. published_as parse idOf e" "distinct (map fst es)"
    "\<forall>e\<in>set es. map_of (ex_records ex) (fst e) = None"
  shows "run_steps (existing_line parse idOf) (map snd es) ex = Inr (ex\<lparr> ex_records := ex_records ex @ es \<rparr>)"
  using assms
proof (induction es arbitrary: ex)
  case (Cons e es)
  obtain i t where e: "e = (i, t)" by (cases e)
  let ?ex = "ex\<lparr> ex_records := ex_records ex @ [(i, t)] \<rparr>"
  have "existing_line parse idOf t ex = Inr ?ex"
    using Cons.prems(1,3) by (subst existing_line_published) (auto simp: e)
  moreover have "run_steps (existing_line parse idOf) (map snd es) ?ex = Inr (?ex\<lparr> ex_records := ex_records ?ex @ es \<rparr>)"
    by (rule Cons.IH) (use Cons.prems in \<open>auto simp: e map_add_Some_iff split: if_splits intro: rev_image_eqI\<close>)
  ultimately show ?case by (simp add: e)
qed simp

lemma existing_line_empty: "existing_line parse idOf [] ex = Inr ex"
  by (simp add: existing_line_def)

lemma whole_lines: "whole a \<Longrightarrow> feed_lines a = butlast (feed_lines a) @ [[]]"
  using feed_lines_append [of a "[]"] by simp

text \<open>A feed with lines of new records appended.\<close>

lemma readExisting_appended:
  assumes "whole feed" "readExistingRecords parse idOf feed = Inr ex" "\<forall>e\<in>set es. published_as parse idOf e"
    "distinct (map fst es)" "\<forall>e\<in>set es. map_of (ex_records ex) (fst e) = None"
  shows "readExistingRecords parse idOf (feed @ concat (map (line_bytes \<circ> snd) es)) =
    Inr (ex\<lparr> ex_records := ex_records ex @ es \<rparr>)"
proof -
  let ?run = "run_steps (existing_line parse idOf)"
  have ex: "?run (butlast (feed_lines feed)) no_records = Inr ex"
  proof -
    have "?run (butlast (feed_lines feed) @ [[]]) no_records = Inr ex"
      using assms(2) whole_lines [OF assms(1)] by (simp add: readExistingRecords_def feed_lines_def [symmetric])
    then show ?thesis by (simp add: run_steps_append existing_line_empty split: sum.splits)
  qed
  have "list_all line_text (map snd es)" using assms(3) by (auto simp: list_all_iff published_as_def)
  from feed_lines_lines [OF this, of "[]"]
  have "feed_lines (feed @ concat (map (line_bytes \<circ> snd) es)) = butlast (feed_lines feed) @ map snd es @ [[]]"
    by (simp add: feed_lines_append [OF assms(1)])
  then show ?thesis
    using ex existing_lines_new [OF assms(3-5)]
    by (simp add: readExistingRecords_def feed_lines_def [symmetric] run_steps_append existing_line_empty)
qed

section \<open>The batch\<close>

text \<open>What the loop over the batch has done: the new entries, each once, for the records so far.\<close>

definition batch_done ::
  "(jsval \<Rightarrow> jstr result) \<Rightarrow> entry_text list \<Rightarrow> jsval list \<Rightarrow> batch_state \<Rightarrow> bool" where
  "batch_done idOf known rs b \<longleftrightarrow>
     bt_lines b = map (\<lambda>e. snd e @ [0x0A]) (bt_seen b) \<and> distinct (map fst (bt_seen b)) \<and>
     (\<forall>e\<in>set (bt_seen b). map_of known (fst e) = None) \<and>
     (\<forall>(i, t)\<in>set (bt_seen b). \<exists>r\<in>set rs. idOf r = Inr i \<and> i \<noteq> [] \<and> stableStringify r = Inr t) \<and>
     length (bt_lines b) + bt_skipped b = length rs \<and>
     publish_all (map (entry_of idOf) rs) (map_of known) = map_of known ++ map_of (bt_seen b)"

lemma map_add_new: "M i = None \<Longrightarrow> map_of xs i = None \<Longrightarrow> (M ++ map_of xs)(i \<mapsto> t) = M ++ map_of (xs @ [(i, t)])"
  by (auto simp: fun_eq_iff map_add_def split: option.splits)

lemma publish_all_snoc:
  "publish_all (es @ [(i, t)]) M = (let N = publish_all es M in if i \<in> dom N then N else N(i \<mapsto> t))"
  by (simp add: publish_all_def)

lemma batch_record_done:
  assumes "batch_record idOf known r b = Inr b'" "batch_done idOf known rs b"
  shows "batch_done idOf known (rs @ [r]) b'"
proof -
  obtain i t where i: "idOf r = Inr i" "i \<noteq> []" "stableStringify r = Inr t"
    using assms(1) by (auto simp: batch_record_def split: sum.splits if_splits)
  then have e: "entry_of idOf r = (i, t)" by (simp add: entry_of_def)
  let ?N = "map_of known ++ map_of (bt_seen b)"
  have pub: "publish_all (map (entry_of idOf) (rs @ [r])) (map_of known) = (if i \<in> dom ?N then ?N else ?N(i \<mapsto> t))"
    using assms(2) by (simp add: publish_all_snoc e batch_done_def Let_def)
  show ?thesis
  proof (cases "i \<in> dom ?N")
    case True
    then obtain present where "b' = skip_known i t present b"
      using assms(1) i by (auto simp: batch_record_def map_add_def dom_def split: option.splits)
    then have "bt_seen b' = bt_seen b" "bt_lines b' = bt_lines b" "bt_skipped b' = bt_skipped b + 1"
      by (auto simp: skip_known_def)
    with assms(2) pub True show ?thesis by (fastforce simp: batch_done_def)
  next
    case False
    then have new: "map_of known i = None" "map_of (bt_seen b) i = None" by (auto simp: map_add_def split: option.splits)
    then have b': "bt_seen b' = bt_seen b @ [(i, t)]" "bt_lines b' = bt_lines b @ [t @ [0x0A]]" "bt_skipped b' = bt_skipped b"
      using assms(1) i by (auto simp: batch_record_def)
    have "i \<notin> fst ` set (bt_seen b)" using new(2) by (simp add: map_of_eq_None_iff)
    with assms(2) pub False i show ?thesis
      unfolding batch_done_def b' by (auto simp: map_add_new [where M = "map_of known" and xs = "bt_seen b", OF new] new)
  qed
qed

lemma batch_all_done:
  "run_steps (batch_record idOf known) rs b = Inr b' \<Longrightarrow> batch_done idOf known qs b \<Longrightarrow>
     batch_done idOf known (qs @ rs) b'"
proof (induction rs arbitrary: b qs)
  case (Cons r rs)
  then obtain m where "batch_record idOf known r b = Inr m" "run_steps (batch_record idOf known) rs m = Inr b'"
    by (auto split: sum.splits)
  with Cons.IH [of m "qs @ [r]"] batch_record_done [of idOf known r b m qs] Cons.prems(2) show ?case by simp
qed simp

lemma batch_start_done: "batch_done idOf known [] (start_batch ex)"
  by (simp add: batch_done_def start_batch_def)

text \<open>The new entries, and the conflicts, are those of the abstract feed.\<close>

lemma batch_run:
  assumes "run_steps (batch_record idOf known) rs b = Inr b'" "M = map_of known ++ map_of (bt_seen b)"
    "\<forall>e\<in>set (bt_seen b). map_of known (fst e) = None"
  shows "bt_seen b' = bt_seen b @ missing M (map (entry_of idOf) rs) \<and>
    bt_conflicted b' = bt_conflicted b + length (clashing (map (entry_of idOf) rs) M)"
  using assms
proof (induction rs arbitrary: b M)
  case Nil
  then show ?case by (simp add: clashing_def)
next
  case (Cons r rs)
  then obtain m where m: "batch_record idOf known r b = Inr m" "run_steps (batch_record idOf known) rs m = Inr b'"
    by (auto split: sum.splits)
  then obtain i t where i: "idOf r = Inr i" "i \<noteq> []" "stableStringify r = Inr t"
    by (auto simp: batch_record_def split: sum.splits if_splits)
  then have e: "entry_of idOf r = (i, t)" by (simp add: entry_of_def)
  show ?case
  proof (cases "i \<in> dom M")
    case True
    have "map_of (bt_seen b) i = None" if "map_of known i \<noteq> None"
    proof (rule ccontr)
      assume "map_of (bt_seen b) i \<noteq> None"
      then obtain u where "(i, u) \<in> set (bt_seen b)" by (auto dest: map_of_SomeD)
      with Cons.prems(3) that show False by force
    qed
    with True m(1) i obtain present where p: "M i = Some present" "m = skip_known i t present b"
      by (auto simp: Cons.prems(2) batch_record_def map_add_def dom_def split: option.splits)
    from p(2) have "bt_seen m = bt_seen b" "bt_conflicted m = bt_conflicted b + (if present \<noteq> t then 1 else 0)"
      by (simp_all add: skip_known_def)
    with Cons.IH [OF m(2), of M] Cons.prems(2,3) p(1) True show ?thesis by (simp add: e clashing_Cons)
  next
    case False
    then have new: "map_of known i = None" "map_of (bt_seen b) i = None"
      by (auto simp: Cons.prems(2) map_add_def split: option.splits)
    with m(1) i have b: "bt_seen m = bt_seen b @ [(i, t)]" "bt_conflicted m = bt_conflicted b"
      by (auto simp: batch_record_def)
    have "M(i \<mapsto> t) = map_of known ++ map_of (bt_seen m)"
      unfolding Cons.prems(2) b(1) by (rule map_add_new) (use new in simp_all)
    moreover have "\<forall>e\<in>set (bt_seen m). map_of known (fst e) = None" using Cons.prems(3) new(1) b(1) by auto
    ultimately have "bt_seen b' = bt_seen m @ missing (M(i \<mapsto> t)) (map (entry_of idOf) rs)"
      "bt_conflicted b' = bt_conflicted m + length (clashing (map (entry_of idOf) rs) (M(i \<mapsto> t)))"
      using Cons.IH [OF m(2)] by blast+
    with b False show ?thesis by (simp add: e clashing_Cons del: fun_upd_apply)
  qed
qed

lemma run_steps_reaches:
  "run_steps step es s = Inr s' \<Longrightarrow> e \<in> set es \<Longrightarrow> \<exists>a b. step e a = Inr b"
  by (induction es arbitrary: s) (auto split: sum.splits)

text \<open>A batch whose records are all known changes nothing.\<close>

lemma batch_known:
  assumes "\<forall>r\<in>set rs. \<exists>i t. idOf r = Inr i \<and> i \<noteq> [] \<and> stableStringify r = Inr t \<and> i \<in> dom (map_of known)"
  shows "\<exists>b'. run_steps (batch_record idOf known) rs b = Inr b' \<and> bt_lines b' = bt_lines b \<and>
    bt_skipped b' = bt_skipped b + length rs"
  using assms
proof (induction rs arbitrary: b)
  case (Cons r rs)
  then obtain i t p where "idOf r = Inr i" "i \<noteq> []" "stableStringify r = Inr t" "map_of known i = Some p" by auto
  then have "batch_record idOf known r b = Inr (skip_known i t p b)" by (simp add: batch_record_def)
  with Cons.IH [of "skip_known i t p b"] Cons.prems show ?case by (auto simp: skip_known_def)
qed simp

section \<open>Writing\<close>

lemma append_loop_prefix:
  "append_loop accepts k rest feed = (tr, r) \<Longrightarrow>
     (\<forall>s\<in>set tr. \<exists>n. s = feed @ take n rest) \<and> (r = Inr () \<longrightarrow> last (feed # tr) = feed @ rest)"
proof (induction accepts k rest feed arbitrary: tr rule: append_loop.induct)
  case (1 accepts k rest feed)
  show ?case
  proof (cases "rest = []")
    case True
    with 1(2) show ?thesis by (simp add: append_loop.simps)
  next
    case False
    define n where "n = min (accepts k) (length rest)"
    show ?thesis
    proof (cases "n = 0")
      case True
      with False 1(2) show ?thesis by (subst (asm) append_loop.simps) (auto simp: n_def Let_def)
    next
      case n: False
      obtain tr' r' where rec: "append_loop accepts (Suc k) (drop n rest) (feed @ take n rest) = (tr', r')"
        by (cases "append_loop accepts (Suc k) (drop n rest) (feed @ take n rest)")
      with 1(2) False n have tr: "tr = (feed @ take n rest) # tr'" "r = r'"
        by (subst (asm) append_loop.simps, simp add: n_def [symmetric] Let_def)+
      have ih: "(\<forall>s\<in>set tr'. \<exists>m. s = (feed @ take n rest) @ take m (drop n rest)) \<and>
          (r' = Inr () \<longrightarrow> last ((feed @ take n rest) # tr') = (feed @ take n rest) @ drop n rest)"
        using 1(1) [OF False n_def n refl] rec tr by simp
      have "\<exists>m. s = feed @ take m rest" if "s \<in> set tr" for s
        using that ih unfolding tr by (auto simp: take_add [symmetric])
      with ih tr show ?thesis by auto
    qed
  qed
qed

end
