(* ===== verification/Jsonl_Publishing.thy ===== *)
theory Jsonl_Publishing
  imports Jsonl_Appends
begin

text \<open>
  The contract of \<open>appendUniqueJsonl\<close>: what a feed publishes, and that appends refine the
  publication of their records, are idempotent and survive being cut off.
\<close>

section \<open>What a feed publishes\<close>

definition published :: "(jstr \<Rightarrow> jsval option) \<Rightarrow> (jsval \<Rightarrow> jstr result) \<Rightarrow> byte list \<Rightarrow> (jstr \<rightharpoonup> jstr)" where
  "published parse idOf bytes =
     (case readExistingRecords parse idOf (healPartialDerivedTail bytes) of
        Inl _ \<Rightarrow> Map.empty | Inr ex \<Rightarrow> map_of (ex_records ex))"

text \<open>The conflicts among the lines that are in a feed already.\<close>

definition feed_conflicts :: "(jstr \<Rightarrow> jsval option) \<Rightarrow> (jsval \<Rightarrow> jstr result) \<Rightarrow> byte list \<Rightarrow> nat" where
  "feed_conflicts parse idOf bytes =
     (case readExistingRecords parse idOf (healPartialDerivedTail bytes) of
        Inl _ \<Rightarrow> 0 | Inr ex \<Rightarrow> ex_conflicts ex)"

text \<open>The course of an append that gets past the batch.\<close>

definition appending ::
  "(jstr \<Rightarrow> jsval option) \<Rightarrow> (jsval \<Rightarrow> jstr result) \<Rightarrow> jsval list \<Rightarrow> byte list \<Rightarrow> existing_records \<Rightarrow> batch_state \<Rightarrow> bool" where
  "appending parse idOf rs bytes ex b \<longleftrightarrow>
     readExistingRecords parse idOf (healPartialDerivedTail bytes) = Inr ex \<and>
     run_steps (batch_record idOf (ex_records ex)) rs (start_batch ex) = Inr b"

definition new_bytes :: "batch_state \<Rightarrow> byte list" where
  "new_bytes b = concat (map (line_bytes \<circ> snd) (bt_seen b))"

lemma appending_done: "appending parse idOf rs bytes ex b \<Longrightarrow> batch_done idOf (ex_records ex) rs b"
  using batch_all_done [OF _ batch_start_done, where rs = rs] by (fastforce simp: appending_def)

lemma appending_published_as:
  "appending parse idOf rs bytes ex b \<Longrightarrow> \<forall>r\<in>set rs. readable parse idOf r \<Longrightarrow>
     \<forall>e\<in>set (bt_seen b). published_as parse idOf e"
  using appending_done [of parse idOf rs bytes ex b] by (fastforce simp: batch_done_def intro: readable_published_as)

lemma appending_lines:
  assumes "appending parse idOf rs bytes ex b" "\<forall>r\<in>set rs. readable parse idOf r"
  shows "utf8 (concat (bt_lines b)) = new_bytes b"
proof -
  have "list_all line_text (map snd (bt_seen b))"
    using appending_published_as [OF assms] by (auto simp: list_all_iff published_as_def)
  from utf8_lines [OF this] appending_done [OF assms(1)] show ?thesis
    by (simp add: batch_done_def new_bytes_def comp_def)
qed

lemma append_records_course:
  assumes "append_records parse idOf accepts rs bytes = (tr, r)" "\<forall>r\<in>set rs. readable parse idOf r"
  obtains (stopped) e where "tr = [healPartialDerivedTail bytes]" "r = Inl e"
    | (went) ex b where "appending parse idOf rs bytes ex b"
        "\<forall>s\<in>set tr. \<exists>n. s = healPartialDerivedTail bytes @ take n (new_bytes b)"
        "(\<exists>e. r = Inl e) \<or> last tr = healPartialDerivedTail bytes @ new_bytes b \<and>
           r = Inr \<lparr> ar_appended = length (bt_lines b), ar_skipped = bt_skipped b,
                 ar_conflicted = bt_conflicted b, ar_conflictedIds = bt_conflictIds b \<rparr>"
proof -
  let ?feed = "healPartialDerivedTail bytes"
  show thesis
  proof (cases "\<exists>ex b. appending parse idOf rs bytes ex b")
    case False
    with assms(1) have "tr = [?feed] \<and> (\<exists>e. r = Inl e)"
      by (auto simp: append_records_def appending_def Let_def split: sum.splits)
    then show thesis using stopped by blast
  next
    case True
    then obtain ex b where a: "appending parse idOf rs bytes ex b" by blast
    note lines = appending_lines [OF a assms(2)]
    have empty: "bt_lines b = [] \<longleftrightarrow> bt_seen b = []" using appending_done [OF a] by (simp add: batch_done_def)
    obtain tw w where w: "append_loop accepts 0 (new_bytes b) ?feed = (tw, w)" by (metis surj_pair)
    have wrote: "(if bt_lines b = [] then ([], Inr ()) else appendToHandle accepts (utf8 (concat (bt_lines b))) ?feed) = (tw, w)"
    proof (cases "bt_seen b = []")
      case True
      with w empty show ?thesis by (simp add: new_bytes_def append_loop.simps)
    qed (use w lines empty in \<open>simp add: appendToHandle_def\<close>)
    from a wrote assms(1) have tr: "tr = ?feed # tw"
      "r = (case w of Inl e \<Rightarrow> Inl e | Inr _ \<Rightarrow> Inr \<lparr> ar_appended = length (bt_lines b), ar_skipped = bt_skipped b,
          ar_conflicted = bt_conflicted b, ar_conflictedIds = bt_conflictIds b \<rparr>)"
      by (auto simp: append_records_def appending_def Let_def split: sum.splits)
    have "\<exists>n. s = ?feed @ take n (new_bytes b)" if "s \<in> set tr" for s
      using that append_loop_prefix [OF w] unfolding tr(1) by (auto intro: exI [of _ 0])
    moreover have "last tr = ?feed @ new_bytes b" if "w = Inr ()" using append_loop_prefix [OF w] that tr(1) by simp
    ultimately show thesis by (intro went [OF a]) (use tr(2) in \<open>auto split: sum.splits\<close>)
  qed
qed

text \<open>Part of what is appended: a cut leaves whole lines and a torn rest that is healed away.\<close>

lemma complete_part_lines:
  "list_all line_text ts \<Longrightarrow> \<exists>j. complete_part (take n (concat (map line_bytes ts))) = concat (map line_bytes (take j ts))"
proof (induction ts arbitrary: n)
  case (Cons t ts)
  then have t: "line_text t" by simp
  show ?case
  proof (cases "length (line_bytes t) \<le> n")
    case True
    obtain j where j: "complete_part (take (n - length (line_bytes t)) (concat (map line_bytes ts))) =
        concat (map line_bytes (take j ts))" using Cons by auto
    have "complete_part (take n (concat (map line_bytes (t # ts)))) =
        line_bytes t @ complete_part (take (n - length (line_bytes t)) (concat (map line_bytes ts)))"
      using True heal_append [OF whole_line [OF t]] by (simp add: heal_complete)
    then show ?thesis using j by (intro exI [of _ "Suc j"]) simp
  next
    case False
    then have "take n (concat (map line_bytes (t # ts))) = take n (utf8 t)" by (simp add: line_bytes_eq [OF t])
    moreover have "0x0A \<notin> set (take n (utf8 t))" using utf8_no_LF [OF t] by (meson in_set_takeD)
    ultimately have "complete_part (take n (concat (map line_bytes (t # ts)))) = []"
      using complete_part_tail [of "take n (utf8 t)" "[]"] by simp
    then show ?thesis by (intro exI [of _ 0]) simp
  qed
qed simp

lemma map_of_take_le: "distinct (map fst xs) \<Longrightarrow> map_of (take j xs) \<subseteq>\<^sub>m map_of xs"
proof -
  assume "distinct (map fst xs)"
  then have "map_of (take j xs) \<subseteq>\<^sub>m map_of (take j xs @ drop j xs)"
    by (metis append_take_drop_id distinct_append map_append map_le_map_add map_of_append map_add_comm
        dom_map_of_conv_image_fst list.set_map)
  then show ?thesis by simp
qed

text \<open>What the file publishes when an append has come some way.\<close>

lemma published_cut:
  assumes "appending parse idOf rs bytes ex b" "\<forall>r\<in>set rs. readable parse idOf r"
    "s = healPartialDerivedTail bytes @ take n (new_bytes b)"
  shows "\<exists>j. published parse idOf s = map_of (ex_records ex) ++ map_of (take j (bt_seen b)) \<and>
    (length (new_bytes b) \<le> n \<longrightarrow> length (bt_seen b) \<le> j) \<and>
    (\<exists>u. healPartialDerivedTail s = healPartialDerivedTail bytes @ u)"
proof -
  let ?feed = "healPartialDerivedTail bytes" and ?seen = "bt_seen b"
  note as = appending_published_as [OF assms(1,2)]
  have b: "distinct (map fst ?seen)" "\<forall>e\<in>set ?seen. map_of (ex_records ex) (fst e) = None"
    using appending_done [OF assms(1)] by (simp_all add: batch_done_def)
  have texts: "list_all line_text (map snd ?seen)" using as by (auto simp: list_all_iff published_as_def)
  have new: "new_bytes b = concat (map line_bytes (map snd ?seen))" by (simp add: new_bytes_def)
  obtain j where j: "complete_part (take n (new_bytes b)) = concat (map line_bytes (take j (map snd ?seen)))"
    "length (new_bytes b) \<le> n \<longrightarrow> length ?seen \<le> j"
  proof (cases "length (new_bytes b) \<le> n")
    case True
    have "whole (new_bytes b)"
      using texts whole_line by (cases ?seen rule: rev_cases) (auto simp: new whole_def line_bytes_eq)
    then have "complete_part (take n (new_bytes b)) = new_bytes b" using True heal_id heal_complete by (metis take_all)
    then show thesis by (intro that [of "length ?seen"]) (simp_all add: new)
  next
    case False
    with complete_part_lines [OF texts, of n] show thesis using that unfolding new by auto
  qed
  have heal: "healPartialDerivedTail s = ?feed @ concat (map (line_bytes \<circ> snd) (take j ?seen))"
    using j(1) heal_append [OF heal_whole] by (simp add: assms(3) take_map comp_def)
  have "readExistingRecords parse idOf (?feed @ concat (map (line_bytes \<circ> snd) (take j ?seen))) =
      Inr (ex\<lparr> ex_records := ex_records ex @ take j ?seen \<rparr>)"
    by (rule readExisting_appended) (use assms(1) as b heal_whole in \<open>auto simp: appending_def distinct_take
        take_map [symmetric] dest: in_set_takeD\<close>)
  then have "published parse idOf s = map_of (ex_records ex @ take j ?seen)"
    by (simp add: published_def heal)
  moreover have "map_of (ex_records ex @ take j ?seen) = map_of (ex_records ex) ++ map_of (take j ?seen)"
    using b(2) by (subst map_of_append, subst map_add_comm)
      (auto simp: dom_map_of_conv_image_fst map_of_eq_None_iff dest: in_set_takeD)
  ultimately show ?thesis using j(2) heal by auto
qed

section \<open>Properties\<close>

text \<open>The file behind an append: what \<open>openDerivedOutput\<close> opens.\<close>

lemma appendUnique_records:
  "rs \<noteq> [] \<Longrightarrow> openDerivedOutput verified target = Inr bytes \<Longrightarrow>
     appendUniqueJsonl parse idOf accepts verified rs target = append_records parse idOf accepts rs bytes"
  by (simp add: appendUniqueJsonl_def)

lemma appending_publish:
  assumes "appending parse idOf rs bytes ex b"
  shows "publish_all (map (entry_of idOf) rs) (published parse idOf bytes) = map_of (ex_records ex) ++ map_of (bt_seen b)"
    "published parse idOf bytes = map_of (ex_records ex)"
  using appending_done [OF assms] assms by (simp_all add: batch_done_def published_def appending_def)

lemma appending_missing:
  assumes "appending parse idOf rs bytes ex b"
  shows "bt_seen b = missing (published parse idOf bytes) (map (entry_of idOf) rs)"
    "bt_conflicted b = feed_conflicts parse idOf bytes +
      length (clashing (map (entry_of idOf) rs) (published parse idOf bytes))"
proof -
  have "run_steps (batch_record idOf (ex_records ex)) rs (start_batch ex) = Inr b"
    "feed_conflicts parse idOf bytes = ex_conflicts ex"
    using assms by (simp_all add: appending_def feed_conflicts_def)
  with batch_run [of idOf "ex_records ex" rs "start_batch ex" b "published parse idOf bytes"] appending_publish(2) [OF assms]
  show "bt_seen b = missing (published parse idOf bytes) (map (entry_of idOf) rs)"
    "bt_conflicted b = feed_conflicts parse idOf bytes +
      length (clashing (map (entry_of idOf) rs) (published parse idOf bytes))"
    by (simp_all add: start_batch_def)
qed

lemma append_published:
  assumes "append_records parse idOf accepts rs bytes = (tr, Inr res)" "\<forall>r\<in>set rs. readable parse idOf r"
    "new = missing (published parse idOf bytes) (map (entry_of idOf) rs)"
  shows "published parse idOf (last tr) = publish_all (map (entry_of idOf) rs) (published parse idOf bytes)"
    "last tr = healPartialDerivedTail bytes @ concat (map (line_bytes \<circ> snd) new)" "whole (last tr)"
    "ar_appended res = length new" "ar_skipped res = length rs - length new" "length new \<le> length rs"
    "ar_conflicted res = feed_conflicts parse idOf bytes +
      length (clashing (map (entry_of idOf) rs) (published parse idOf bytes))"
proof -
  from assms(1,2) obtain ex b where went: "appending parse idOf rs bytes ex b"
    and l: "last tr = healPartialDerivedTail bytes @ new_bytes b"
    and r: "ar_appended res = length (bt_lines b)" "ar_skipped res = bt_skipped b" "ar_conflicted res = bt_conflicted b"
    by (cases rule: append_records_course) auto
  note b = appending_done [OF went] and missing = appending_missing [OF went]
  show "last tr = healPartialDerivedTail bytes @ concat (map (line_bytes \<circ> snd) new)"
    using l missing(1) assms(3) by (simp add: new_bytes_def)
  show "ar_appended res = length new" "ar_skipped res = length rs - length new" "length new \<le> length rs"
    using r b missing(1) assms(3) by (auto simp: batch_done_def)
  show "ar_conflicted res = feed_conflicts parse idOf bytes +
      length (clashing (map (entry_of idOf) rs) (published parse idOf bytes))"
    using r(3) missing(2) by simp
  have l': "last tr = healPartialDerivedTail bytes @ take (length (new_bytes b)) (new_bytes b)" using l by simp
  from published_cut [OF went assms(2) l']
  have "published parse idOf (last tr) = map_of (ex_records ex) ++ map_of (bt_seen b)" by force
  then show "published parse idOf (last tr) = publish_all (map (entry_of idOf) rs) (published parse idOf bytes)"
    using appending_publish [OF went] by simp
  have "whole (new_bytes b)"
    using appending_published_as [OF went assms(2)]
    by (cases "bt_seen b" rule: rev_cases) (auto simp: new_bytes_def whole_def published_as_def line_bytes_eq)
  then show "whole (last tr)" using l heal_whole [of bytes] by (auto simp: whole_def last_append)
qed

text \<open>C14: A successful append refines adding the missing records to the map from identifiers to texts.
  The file is then its complete lines and, behind them, exactly one line for every record whose
  identifier was not published, in their order and with the text of the first record that has it; a
  record that is published already, or comes twice in the batch, adds nothing.  What the feed
  publishes is what adding the missing records to the map gives.  The counts are those of the lines
  added, of the other records, and of the conflicts: those the feed had, and one for each record whose
  text is not the one published under its identifier.
\<close>

theorem append_refines_publish:
  assumes "appendUniqueJsonl parse idOf accepts verified rs target = (tr, Inr res)" "rs \<noteq> []"
    "openDerivedOutput verified target = Inr bytes" "\<forall>r\<in>set rs. readable parse idOf r"
    "new = missing (published parse idOf bytes) (map (entry_of idOf) rs)"
  shows "published parse idOf (last tr) = publish_all (map (entry_of idOf) rs) (published parse idOf bytes) \<and>
    last tr = healPartialDerivedTail bytes @ concat (map (line_bytes \<circ> snd) new) \<and>
    ar_appended res = length new \<and> ar_appended res + ar_skipped res = length rs \<and>
    ar_conflicted res = feed_conflicts parse idOf bytes +
      length (clashing (map (entry_of idOf) rs) (published parse idOf bytes))"
  using append_published [of parse idOf accepts rs bytes tr res new] assms by (auto simp: appendUnique_records)

text \<open>In between, a feed publishes something between what it did and what it will.\<close>

lemma published_between:
  assumes "append_records parse idOf accepts rs bytes = (tr, r)" "\<forall>r\<in>set rs. readable parse idOf r" "s \<in> set tr"
  shows "published parse idOf bytes \<subseteq>\<^sub>m published parse idOf s \<and>
      published parse idOf s \<subseteq>\<^sub>m publish_all (map (entry_of idOf) rs) (published parse idOf bytes)"
  using assms(1,2)
proof (cases rule: append_records_course)
  case (stopped e)
  with assms(3) have "published parse idOf s = published parse idOf bytes"
    by (simp add: published_def heal_id [OF heal_whole])
  then show ?thesis by (simp add: publish_all_extends)
next
  case (went ex b)
  then obtain n where n: "s = healPartialDerivedTail bytes @ take n (new_bytes b)" using assms(3) by blast
  from published_cut [OF went(1) assms(2) n] obtain j
    where j: "published parse idOf s = map_of (ex_records ex) ++ map_of (take j (bt_seen b))" by blast
  have seen: "distinct (map fst (bt_seen b))" "\<forall>e\<in>set (bt_seen b). map_of (ex_records ex) (fst e) = None"
    using appending_done [OF went(1)] by (simp_all add: batch_done_def)
  have "map_of (ex_records ex) i = None" if "map_of (take j (bt_seen b)) i = Some t" for i t
    using that seen(2) by (force dest!: map_of_SomeD in_set_takeD)
  then have "map_of (ex_records ex) \<subseteq>\<^sub>m published parse idOf s"
    unfolding j map_le_def by (force simp: map_add_def split: option.split)
  moreover have "published parse idOf s \<subseteq>\<^sub>m map_of (ex_records ex) ++ map_of (bt_seen b)"
    unfolding j
  proof (unfold map_le_def, rule ballI)
    fix i assume i: "i \<in> dom (map_of (ex_records ex) ++ map_of (take j (bt_seen b)))"
    show "(map_of (ex_records ex) ++ map_of (take j (bt_seen b))) i = (map_of (ex_records ex) ++ map_of (bt_seen b)) i"
    proof (cases "map_of (take j (bt_seen b)) i")
      case None
      with i obtain p where "map_of (ex_records ex) i = Some p" by (auto simp: map_add_def split: option.splits)
      moreover have "map_of (bt_seen b) i = None"
      proof (rule ccontr)
        assume "map_of (bt_seen b) i \<noteq> None"
        then obtain t where "(i, t) \<in> set (bt_seen b)" by (auto dest: map_of_SomeD)
        with seen(2) \<open>map_of (ex_records ex) i = Some p\<close> show False by force
      qed
      ultimately show ?thesis using None by (simp add: map_add_def)
    next
      case (Some t)
      then have "map_of (bt_seen b) i = Some t"
        using map_of_take_le [OF seen(1), of j] by (force simp: map_le_def dom_def)
      with Some show ?thesis by (simp add: map_add_def)
    qed
  qed
  ultimately show ?thesis by (simp only: appending_publish(1) [OF went(1)]) (simp only: appending_publish(2) [OF went(1)])
qed

text \<open>C15: Wherever an append stops, in every content the file passes through nothing that was
  published is lost and nothing but its records is added, and appending the same records again,
  when it succeeds, publishes what the undisturbed append would have.\<close>

theorem append_crash_safe:
  assumes "appendUniqueJsonl parse idOf accepts verified rs target = (tr, r)" "rs \<noteq> []"
    "openDerivedOutput verified target = Inr bytes" "\<forall>r\<in>set rs. readable parse idOf r" "s \<in> set tr"
    "appendUniqueJsonl parse idOf accepts' (Inr True) rs (RegularFile s 1) = (tr', Inr res')"
  shows "published parse idOf bytes \<subseteq>\<^sub>m published parse idOf s \<and>
    published parse idOf s \<subseteq>\<^sub>m publish_all (map (entry_of idOf) rs) (published parse idOf bytes) \<and>
    published parse idOf (last tr') = publish_all (map (entry_of idOf) rs) (published parse idOf bytes)"
proof -
  let ?all = "publish_all (map (entry_of idOf) rs)"
  have run: "append_records parse idOf accepts rs bytes = (tr, r)" using assms(1-3) by (simp add: appendUnique_records)
  from published_between [OF run assms(4,5)]
  have between: "published parse idOf bytes \<subseteq>\<^sub>m published parse idOf s"
    "published parse idOf s \<subseteq>\<^sub>m ?all (published parse idOf bytes)" by blast+
  have "published parse idOf (last tr') = ?all (published parse idOf s)"
    using append_published(1) [of parse idOf accepts' rs s tr' res'] assms(2,4,6)
    by (simp add: appendUniqueJsonl_def openDerivedOutput_def)
  with between show ?thesis by (metis publish_all_resumed)
qed

text \<open>Appending the same records once more appends nothing and leaves the file as it is.\<close>

theorem append_idempotent:
  assumes "appendUniqueJsonl parse idOf accepts verified rs target = (tr, Inr res)" "rs \<noteq> []"
    "openDerivedOutput verified target = Inr bytes" "\<forall>r\<in>set rs. readable parse idOf r"
  shows "\<exists>res'. appendUniqueJsonl parse idOf accepts' (Inr True) rs (RegularFile (last tr) 1) = ([last tr], Inr res') \<and>
    ar_appended res' = 0 \<and> ar_skipped res' = length rs"
proof -
  have run: "append_records parse idOf accepts rs bytes = (tr, Inr res)" using assms(1-3) by (simp add: appendUnique_records)
  note after = append_published(1,3) [OF run assms(4) refl]
  have healed: "healPartialDerivedTail (last tr) = last tr" using after heal_id by blast
  show ?thesis
    using run assms(4)
  proof (cases rule: append_records_course)
    case (went ex b)
    have l: "last tr = healPartialDerivedTail bytes @ take (length (new_bytes b)) (new_bytes b)" using went by auto
    have b: "batch_done idOf (ex_records ex) rs b" using appending_done [OF went(1)] .
    have "readExistingRecords parse idOf (healPartialDerivedTail bytes @ new_bytes b) =
        Inr (ex\<lparr> ex_records := ex_records ex @ bt_seen b \<rparr>)"
      unfolding new_bytes_def
      by (rule readExisting_appended) (use went(1) appending_published_as [OF went(1) assms(4)] b heal_whole in
        \<open>auto simp: appending_def batch_done_def\<close>)
    then have ex: "readExistingRecords parse idOf (last tr) = Inr (ex\<lparr> ex_records := ex_records ex @ bt_seen b \<rparr>)"
      using l by simp
    define known where "known = ex_records ex @ bt_seen b"
    have pub: "map_of known = publish_all (map (entry_of idOf) rs) (published parse idOf bytes)"
      using after ex by (simp add: published_def healed known_def)
    have "\<exists>i t. idOf r = Inr i \<and> i \<noteq> [] \<and> stableStringify r = Inr t \<and> i \<in> dom (map_of known)" if "r \<in> set rs" for r
    proof -
      have "run_steps (batch_record idOf (ex_records ex)) rs (start_batch ex) = Inr b"
        using went(1) by (simp add: appending_def)
      from run_steps_reaches [OF this that] obtain b1 b2 where "batch_record idOf (ex_records ex) r b1 = Inr b2" by blast
      then obtain i t where i: "idOf r = Inr i" "i \<noteq> []" "stableStringify r = Inr t"
        by (auto simp: batch_record_def split: sum.splits if_splits)
      have "entry_of idOf r \<in> set (map (entry_of idOf) rs)" using that by simp
      from publish_all_known [OF this, of "published parse idOf bytes"] i show ?thesis
        by (simp add: pub entry_of_def)
    qed
    then have "\<forall>r\<in>set rs. \<exists>i t. idOf r = Inr i \<and> i \<noteq> [] \<and> stableStringify r = Inr t \<and> i \<in> dom (map_of known)" by blast
    from batch_known [OF this, where b = "start_batch (ex\<lparr> ex_records := known \<rparr>)"]
    show ?thesis
      using assms(2) ex healed
      by (auto simp: appendUniqueJsonl_def openDerivedOutput_def append_records_def Let_def known_def start_batch_def)
  qed simp
qed

section \<open>A feed of one record\<close>

definition feed_record :: jsval where
  "feed_record = JObj [(js ''id'', JStr (js ''a''))]"

definition feed_line :: jstr where
  "feed_line = json_text (canon feed_record)"

definition feed_parse :: "jstr \<Rightarrow> jsval option" where
  "feed_parse t = (if t = feed_line then Some (canon feed_record) else None)"

definition feed_id :: "jsval \<Rightarrow> jstr result" where
  "feed_id v = (case v of JObj ps \<Rightarrow> (case jget ps ''id'' of JStr i \<Rightarrow> Inr i | _ \<Rightarrow> Inl TypeError) | _ \<Rightarrow> Inl TypeError)"

lemma feed_canon: "canon feed_record = feed_record"
  by (simp add: feed_record_def canon_props_def)

lemma feed_text: "stableStringify feed_record = Inr feed_line"
  by (simp add: stableStringify_canon feed_line_def feed_record_def)

lemma feed_readable: "readable feed_parse feed_id feed_record"
  using feed_text
  by (simp add: readable_def feed_canon feed_parse_def) (simp add: feed_record_def)

lemma feed_identifier: "feed_id feed_record = Inr (js ''a'')"
  by (simp add: feed_id_def feed_record_def jget_def)

lemma feed_published_as: "published_as feed_parse feed_id (js ''a'', feed_line)"
  using readable_published_as [OF feed_readable feed_identifier _ feed_text] by simp

lemma feed_line_text: "line_text feed_line"
  using feed_published_as by (simp add: published_as_def)

definition feed_file :: "byte list" where
  "feed_file = line_bytes feed_line"

lemma feed_append:
  obtains tr res where
    "appendUniqueJsonl feed_parse feed_id (\<lambda>k. length feed_file) (Inr True) [feed_record] MissingFile = (tr, Inr res)"
    "feed_file \<in> set tr"
proof -
  have ex: "readExistingRecords feed_parse feed_id [] = Inr no_records"
    by (simp add: readExistingRecords_def lenientDecode_def existing_line_def)
  have heal: "healPartialDerivedTail [] = []" by (simp add: healPartialDerivedTail_def)
  have "feed_file \<noteq> []" by (simp add: feed_file_def line_bytes_eq [OF feed_line_text])
  then have loop: "append_loop (\<lambda>k. length feed_file) 0 feed_file [] = ([feed_file], Inr ())"
    by (subst append_loop.simps, simp add: Let_def, subst append_loop.simps, simp)
  have "snd (appendUniqueJsonl feed_parse feed_id (\<lambda>k. length feed_file) (Inr True) [feed_record] MissingFile) =
      Inr \<lparr> ar_appended = 1, ar_skipped = 0, ar_conflicted = 0, ar_conflictedIds = [] \<rparr>"
    "feed_file \<in> set (fst (appendUniqueJsonl feed_parse feed_id (\<lambda>k. length feed_file) (Inr True) [feed_record] MissingFile))"
    using loop ex heal
    by (simp_all add: feed_identifier appendUniqueJsonl_def openDerivedOutput_def append_records_def feed_text
        batch_record_def start_batch_def no_records_def appendToHandle_def feed_file_def line_bytes_def)
  then show thesis by (metis that prod.collapse)
qed

lemma published_nothing: "published feed_parse feed_id [] = Map.empty"
  by (simp add: published_def healPartialDerivedTail_def readExistingRecords_def lenientDecode_def existing_line_def
      no_records_def)

text \<open>A record that comes twice in the batch is written once.\<close>

lemma feed_append_twice:
  obtains tr res where
    "appendUniqueJsonl feed_parse feed_id (\<lambda>k. length feed_file) (Inr True) [feed_record, feed_record] MissingFile = (tr, Inr res)"
proof -
  have ex: "readExistingRecords feed_parse feed_id [] = Inr no_records"
    by (simp add: readExistingRecords_def lenientDecode_def existing_line_def)
  have heal: "healPartialDerivedTail [] = []" by (simp add: healPartialDerivedTail_def)
  have "feed_file \<noteq> []" by (simp add: feed_file_def line_bytes_eq [OF feed_line_text])
  then have loop: "append_loop (\<lambda>k. length feed_file) 0 feed_file [] = ([feed_file], Inr ())"
    by (subst append_loop.simps, simp add: Let_def, subst append_loop.simps, simp)
  have "snd (appendUniqueJsonl feed_parse feed_id (\<lambda>k. length feed_file) (Inr True) [feed_record, feed_record] MissingFile) =
      Inr \<lparr> ar_appended = 1, ar_skipped = 1, ar_conflicted = 0, ar_conflictedIds = [] \<rparr>"
    using loop ex heal
    by (simp add: feed_identifier appendUniqueJsonl_def openDerivedOutput_def append_records_def feed_text
        batch_record_def start_batch_def no_records_def appendToHandle_def feed_file_def line_bytes_def skip_known_def)
  then show thesis by (metis that prod.collapse)
qed

theorem append_refines_publish_witness:
  "\<exists>tr res. appendUniqueJsonl feed_parse feed_id (\<lambda>k. length feed_file) (Inr True) [feed_record, feed_record] MissingFile =
       (tr, Inr res) \<and>
     published feed_parse feed_id (last tr) = publish_all [(js ''a'', feed_line), (js ''a'', feed_line)] Map.empty \<and>
     last tr = feed_file \<and> ar_appended res = 1 \<and> ar_skipped res = 1"
proof -
  obtain tr res where a: "appendUniqueJsonl feed_parse feed_id (\<lambda>k. length feed_file) (Inr True) [feed_record, feed_record]
      MissingFile = (tr, Inr res)" by (rule feed_append_twice)
  have "entry_of feed_id feed_record = (js ''a'', feed_line)"
    by (simp add: entry_of_def feed_text feed_identifier)
  with append_refines_publish [OF a _ _ _ refl, of "[]"] feed_readable a show ?thesis
    by (auto simp: openDerivedOutput_def published_nothing feed_file_def healPartialDerivedTail_def)
qed

theorem append_idempotent_witness:
  "\<exists>feed res. appendUniqueJsonl feed_parse feed_id (\<lambda>k. 1) (Inr True) [feed_record] (RegularFile feed 1) = ([feed], Inr res) \<and>
     ar_appended res = 0"
proof -
  obtain tr res where a: "appendUniqueJsonl feed_parse feed_id (\<lambda>k. length feed_file) (Inr True) [feed_record] MissingFile = (tr, Inr res)"
    by (rule feed_append)
  from append_idempotent [OF a, of "[]" "\<lambda>k. 1"] feed_readable show ?thesis
    by (auto simp: openDerivedOutput_def)
qed

theorem append_crash_safe_witness:
  "\<exists>tr' res'. appendUniqueJsonl feed_parse feed_id (\<lambda>k. 7) (Inr True) [feed_record]
     (RegularFile feed_file 1) = (tr', Inr res') \<and>
   published feed_parse feed_id (last tr') =
     publish_all [entry_of feed_id feed_record] (published feed_parse feed_id [])"
proof -
  obtain tr res where a: "appendUniqueJsonl feed_parse feed_id (\<lambda>k. length feed_file) (Inr True) [feed_record] MissingFile = (tr, Inr res)"
    and s: "feed_file \<in> set tr" by (rule feed_append)
  have healed: "healPartialDerivedTail feed_file = feed_file"
    using heal_id [OF whole_line [OF feed_line_text]] by (simp add: feed_file_def)
  have lines: "split_newlines (lenientDecode feed_file) = [feed_line, []]"
    using feed_lines_line [OF feed_line_text, of "[]"] by (simp add: feed_file_def feed_lines_def lenientDecode_def)
  have "\<exists>res'. appendUniqueJsonl feed_parse feed_id (\<lambda>k. 7) (Inr True) [feed_record]
      (RegularFile feed_file 1) = ([feed_file], Inr res')"
    using existing_line_published [OF feed_published_as, of no_records] feed_identifier
    by (simp add: appendUniqueJsonl_def openDerivedOutput_def append_records_def healed readExistingRecords_def lines
        existing_line_empty no_records_def start_batch_def batch_record_def feed_text skip_known_def js_def)
  then obtain tr' res' where r: "appendUniqueJsonl feed_parse feed_id (\<lambda>k. 7) (Inr True) [feed_record]
      (RegularFile feed_file 1) = (tr', Inr res')" by blast
  from append_crash_safe [OF a _ _ _ s r, of "[]"] feed_readable r show ?thesis
    by (auto simp: openDerivedOutput_def)
qed

end
