(* ===== verification/Reader_Records.thy ===== *)
theory Reader_Records
  imports Active_Validation
begin

text \<open>
  The guards of \<open>reader/store.ts\<close>: which parsed lines of a feed are turns and evidence records of
  version 1.  A guard is a chain of \<open>&&\<close> that may throw: \<open>String(value)\<close> throws for an object with a
  property \<open>toString\<close>, which is never a function in parsed JSON.
\<close>

section \<open>Guards that may throw\<close>

fun all_of :: "bool result list \<Rightarrow> bool result" where
  "all_of [] = Inr True"
| "all_of (c # cs) = (case c of Inl e \<Rightarrow> Inl e | Inr b \<Rightarrow> if b then all_of cs else Inr False)"

definition every :: "('a \<Rightarrow> bool result) \<Rightarrow> 'a list \<Rightarrow> bool result" where
  "every f xs = all_of (map f xs)"

text \<open>\<open>Array.isArray(value) && value.every(f)\<close>\<close>

definition every_of :: "(jsval \<Rightarrow> bool result) \<Rightarrow> jsval \<Rightarrow> bool result" where
  "every_of f v = (case as_array v of None \<Rightarrow> Inr False | Some xs \<Rightarrow> every f xs)"

text \<open>\<open>value === undefined || f(value)\<close>\<close>

definition unless_undefined :: "(jsval \<Rightarrow> bool result) \<Rightarrow> jsval \<Rightarrow> bool result" where
  "unless_undefined f v = (if v = JUndef then Inr True else f v)"

text \<open>\<open>String(value)\<close>\<close>

function string_of :: "jsval \<Rightarrow> jstr result" where
  "string_of (JStr s) = Inr s"
| "string_of JNull = Inr (js ''null'')"
| "string_of JUndef = Inr (js ''undefined'')"
| "string_of (JBool b) = Inr (if b then js ''true'' else js ''false'')"
| "string_of (JNum n) = Inr (case n of NInt i \<Rightarrow> decimal i | NOther s \<Rightarrow> s | NonFinite \<Rightarrow> js ''NaN'')"
| "string_of (JBigInt i) = Inr (decimal i)"
| "string_of JNonPlain = Inr (js ''[object Object]'')"
| "string_of (JArr xs) =
     (case traverse (\<lambda>x. if x = JNull \<or> x = JUndef then Inr [] else string_of x) xs of
        Inl e \<Rightarrow> Inl e | Inr ts \<Rightarrow> Inr (join (js '','') ts))"
| "string_of (JObj ps) =
     (if map_of ps (js ''toString'') \<noteq> None then Inl TypeError else Inr (js ''[object Object]''))"
  by pat_completeness auto
termination
  by (relation "measure size") (auto dest: jsval_size_JArr simp del: jsval.size)

text \<open>\<open>names.includes(String(value))\<close>\<close>

definition named_one_of :: "string list \<Rightarrow> jsval \<Rightarrow> bool result" where
  "named_one_of names v = (case string_of v of Inl e \<Rightarrow> Inl e | Inr t \<Rightarrow> Inr (t \<in> set (map js names)))"

section \<open>Values\<close>

definition isPattern :: "(jstr \<Rightarrow> bool) \<Rightarrow> jsval \<Rightarrow> bool" where
  "isPattern P v \<longleftrightarrow> as_pattern P v \<noteq> None"

definition isNonEmptyString :: "jsval \<Rightarrow> bool" where
  "isNonEmptyString v \<longleftrightarrow> as_pattern (\<lambda>s. s \<noteq> []) v \<noteq> None"

definition isDateTime :: "jsval \<Rightarrow> bool" where
  "isDateTime v \<longleftrightarrow> (case as_string v of None \<Rightarrow> False | Some s \<Rightarrow> date_parse s \<noteq> None)"

definition isSafeNonNegativeInteger :: "jsval \<Rightarrow> bool" where
  "isSafeNonNegativeInteger v \<longleftrightarrow> as_integer v \<noteq> None"

definition isSafePositiveInteger :: "jsval \<Rightarrow> bool" where
  "isSafePositiveInteger v \<longleftrightarrow> as_positive v \<noteq> None"

definition isRepoPath :: "jsval \<Rightarrow> bool" where
  "isRepoPath v \<longleftrightarrow>
     (case as_string v of
        None \<Rightarrow> False
      | Some s \<Rightarrow>
          s \<noteq> [] \<and> \<not> isAbsolute s \<and> 0x5C \<notin> set s \<and>
          list_all (\<lambda>c. c \<noteq> [] \<and> c \<noteq> js ''.'' \<and> c \<noteq> js ''..'') (path_parts s))"

definition isPatternArray :: "(jstr \<Rightarrow> bool) \<Rightarrow> jsval \<Rightarrow> bool" where
  "isPatternArray P v \<longleftrightarrow> (case as_array v of None \<Rightarrow> False | Some xs \<Rightarrow> list_all (isPattern P) xs)"

section \<open>Parts of records\<close>

definition isSourceRef :: "jsval \<Rightarrow> bool" where
  "isSourceRef v \<longleftrightarrow> (case as_object v of None \<Rightarrow> False | Some ps \<Rightarrow> isNonEmptyString (jget ps ''trace_id''))"

definition isRedaction :: "jsval \<Rightarrow> bool" where
  "isRedaction v \<longleftrightarrow>
     (case as_object v of None \<Rightarrow> False
      | Some ps \<Rightarrow> isNonEmptyString (jget ps ''kind'') \<and> isSafePositiveInteger (jget ps ''count''))"

definition isContent :: "jsval \<Rightarrow> bool result" where
  "isContent v =
     (case as_object v of None \<Rightarrow> Inr False
      | Some ps \<Rightarrow> all_of
         [Inr (as_string (jget ps ''text'') \<noteq> None),
          named_one_of [''verbatim'', ''normalized'', ''excerpt'', ''redacted''] (jget ps ''fidelity''),
          Inr (as_bool (jget ps ''truncated'') \<noteq> None),
          unless_undefined (\<lambda>x. Inr (isSafeNonNegativeInteger x)) (jget ps ''original_utf8_bytes''),
          Inr (jget ps ''truncated'' = JBool True \<longrightarrow> isSafeNonNegativeInteger (jget ps ''original_utf8_bytes'')),
          every_of (\<lambda>r. Inr (isRedaction r)) (jget ps ''redactions'')])"

definition isTurnOutcome :: "jsval \<Rightarrow> bool result" where
  "isTurnOutcome = named_one_of [''success'', ''partial'', ''blocked'', ''failed'', ''cancelled'', ''abandoned'', ''unknown'']"

definition action_shape :: "(jstr \<times> jsval) list \<Rightarrow> bool result" where
  "action_shape ps =
     (let k = jget ps ''kind'' in
      if k = JStr (js ''file_change'') then all_of
        [named_one_of [''create'', ''modify'', ''delete'', ''move'', ''unknown''] (jget ps ''operation''),
         Inr (isRepoPath (jget ps ''path'')),
         unless_undefined (\<lambda>x. Inr (isRepoPath x)) (jget ps ''previous_path'')]
      else if k = JStr (js ''command'') \<or> k = JStr (js ''test'') then all_of
        [isContent (jget ps ''command''), unless_undefined isContent (jget ps ''failure_excerpt'')]
      else if k = JStr (js ''tool'') then all_of
        [Inr (isNonEmptyString (jget ps ''tool_name'')), unless_undefined isContent (jget ps ''summary'')]
      else if k = JStr (js ''other'') then isContent (jget ps ''summary'')
      else Inr False)"

definition isAction :: "jsval \<Rightarrow> bool result" where
  "isAction v =
     (case as_object v of None \<Rightarrow> Inr False
      | Some ps \<Rightarrow> all_of
         [Inr (isPattern (id_pattern ''act_'' 32) (jget ps ''action_id'')),
          named_one_of [''success'', ''failed'', ''denied'', ''interrupted'', ''unknown''] (jget ps ''outcome''),
          every_of (\<lambda>x. Inr (isSourceRef x)) (jget ps ''source_refs''),
          action_shape ps])"

definition evidence_id_pattern :: "jstr \<Rightarrow> bool" where
  "evidence_id_pattern = id_pattern ''ev_'' 32"

definition isSubagentRollup :: "jsval \<Rightarrow> bool" where
  "isSubagentRollup v \<longleftrightarrow>
     (case as_object v of None \<Rightarrow> False
      | Some ps \<Rightarrow>
          isSafeNonNegativeInteger (jget ps ''total'') \<and>
          (case as_array (jget ps ''by_role'') of None \<Rightarrow> False
           | Some xs \<Rightarrow> list_all (\<lambda>x. case as_object x of None \<Rightarrow> False
               | Some qs \<Rightarrow> isNonEmptyString (jget qs ''role'') \<and> isSafePositiveInteger (jget qs ''count'')) xs) \<and>
          as_object (jget ps ''outcomes'') \<noteq> None \<and>
          (case as_array (jget ps ''changed_paths'') of None \<Rightarrow> False | Some xs \<Rightarrow> list_all isRepoPath xs) \<and>
          isPatternArray evidence_id_pattern (jget ps ''evidence_refs''))"

definition isParentLink :: "jsval \<Rightarrow> bool result" where
  "isParentLink v =
     (case as_object v of None \<Rightarrow> Inr False
      | Some ps \<Rightarrow> all_of
         [named_one_of [''native'', ''joined'', ''unresolved''] (jget ps ''method''),
          unless_undefined (\<lambda>x. Inr (as_string x \<noteq> None)) (jget ps ''native_key'')])"

section \<open>Turns and evidence\<close>

definition isTurnV1 :: "jsval \<Rightarrow> bool result" where
  "isTurnV1 v =
     (case as_object v of None \<Rightarrow> Inr False
      | Some ps \<Rightarrow> all_of
         [Inr (jget ps ''schema'' = JStr (js ''barbaro.turn.v1'')),
          Inr (isPattern turn_id_pattern (jget ps ''turn_id'')),
          Inr (isPattern provider_pattern (jget ps ''provider'')),
          Inr (isPattern session_id_pattern (jget ps ''session_id'')),
          unless_undefined (\<lambda>x. Inr (isPattern workstream_id_pattern x)) (jget ps ''workstream_id''),
          Inr (isSafePositiveInteger (jget ps ''sequence'')),
          Inr (isNonEmptyString (jget ps ''agent_id'')),
          unless_undefined (\<lambda>x. Inr (isPattern turn_id_pattern x)) (jget ps ''parent_turn_id''),
          Inr (isDateTime (jget ps ''started_at'')),
          Inr (isDateTime (jget ps ''ended_at'')),
          isTurnOutcome (jget ps ''outcome''),
          isContent (jget ps ''request''),
          unless_undefined isContent (jget ps ''response''),
          every_of isAction (jget ps ''actions''),
          Inr (isSubagentRollup (jget ps ''subagents'')),
          Inr (isPatternArray evidence_id_pattern (jget ps ''evidence_refs'')),
          every_of (\<lambda>x. Inr (isSourceRef x)) (jget ps ''source_refs'')])"

definition subagent_content :: "(jstr \<times> jsval) list \<Rightarrow> (jstr \<times> jsval) list \<Rightarrow> bool result" where
  "subagent_content ps cs = all_of
     [isParentLink (jget ps ''parent_link''),
      Inr (isNonEmptyString (jget cs ''role'')),
      Inr (isSafePositiveInteger (jget cs ''sequence'')),
      isTurnOutcome (jget cs ''outcome''),
      Inr (isDateTime (jget cs ''started_at'')),
      Inr (isDateTime (jget cs ''ended_at'')),
      isContent (jget cs ''request''),
      unless_undefined isContent (jget cs ''response''),
      every_of isAction (jget cs ''actions'')]"

definition isEvidenceV1 :: "jsval \<Rightarrow> bool result" where
  "isEvidenceV1 v =
     (case as_object v of None \<Rightarrow> Inr False
      | Some ps \<Rightarrow> all_of
         [Inr (jget ps ''schema'' = JStr (js ''barbaro.evidence.v1'')),
          Inr (isPattern evidence_id_pattern (jget ps ''evidence_id'')),
          named_one_of [''prompt'', ''response'', ''command'', ''tool_call'', ''tool_result'', ''failure_excerpt'',
            ''usage'', ''attachment_metadata'', ''subagent_turn'', ''provider_event''] (jget ps ''kind''),
          Inr (isPattern turn_id_pattern (jget ps ''turn_id'')),
          Inr (isPattern provider_pattern (jget ps ''provider'')),
          Inr (isPattern session_id_pattern (jget ps ''session_id'')),
          unless_undefined (\<lambda>x. Inr (isPattern workstream_id_pattern x)) (jget ps ''workstream_id''),
          Inr (isNonEmptyString (jget ps ''agent_id'')),
          unless_undefined (\<lambda>x. Inr (isPattern turn_id_pattern x)) (jget ps ''parent_turn_id''),
          Inr (isDateTime (jget ps ''occurred_at'')),
          every_of (\<lambda>x. Inr (isSourceRef x)) (jget ps ''source_refs''),
          Inr (as_object (jget ps ''content'') \<noteq> None),
          (if jget ps ''kind'' \<noteq> JStr (js ''subagent_turn'') then Inr True
           else case as_object (jget ps ''content'') of None \<Rightarrow> Inr False | Some cs \<Rightarrow> subagent_content ps cs)])"

end
