(* ===== verification/Checkpoint.thy ===== *)
theory Checkpoint
  imports Typed_Id
begin

text \<open>
  \<open>core/checkpoint.ts\<close>: positions in a growing JSONL file that survive restarts.  A file is the
  value of its \<open>stat\<close> and its bytes; \<open>sha\<close> stands for the SHA-256 digest of Node.
\<close>

section \<open>Files\<close>

record disk_file =
  f_regular :: bool
  f_symlink :: bool
  f_dev :: nat
  f_ino :: nat
  f_birthtime :: nat
  f_mtime :: nat
  f_nlink :: nat
  f_bytes :: "byte list"

record file_identity =
  id_device :: jstr
  id_inode :: jstr
  id_birthtime_ns :: jstr

record file_snapshot =
  sn_identity :: file_identity
  sn_size :: int
  sn_mtime_ns :: jstr

record checkpoint_anchor =
  an_byte_length :: int
  an_sha256 :: jstr

record jsonl_checkpoint =
  ck_schema :: jstr
  ck_file_identity :: file_identity
  ck_byte_offset :: int
  ck_next_line_number :: int
  ck_observed_size :: int
  ck_anchor :: checkpoint_anchor

record checkpoint_position =
  cp_fileIdentity :: file_identity
  cp_checkpointOffset :: int
  cp_nextLineNumber :: int
  cp_observedSize :: int
  cp_checkpointAnchor :: checkpoint_anchor

datatype resolution_status = Start | Resume | Rotated | Truncated | Rewritten | Missing

record checkpoint_resolution =
  rs_status :: resolution_status
  rs_startOffset :: int
  rs_nextLineNumber :: int
  rs_snapshot :: "file_snapshot option"

record checkpoint_read_options =
  cr_noFollow :: bool
  cr_requireSingleLink :: bool
  cr_maxFileBytes :: "int option"

definition JSONL_CHECKPOINT_SCHEMA :: jstr where
  "JSONL_CHECKPOINT_SCHEMA = js ''barbaro.jsonl-checkpoint.v1''"

definition CHECKPOINT_ANCHOR_BYTES :: int where
  "CHECKPOINT_ANCHOR_BYTES = 64"

section \<open>Guards\<close>

definition assertSafeNonNegativeInteger :: "int \<Rightarrow> unit result" where
  "assertSafeNonNegativeInteger n = (if safe_nonneg n then Inr () else Inl RangeError)"

definition assertSafePositiveInteger :: "int \<Rightarrow> unit result" where
  "assertSafePositiveInteger n = (if safe_pos n then Inr () else Inl RangeError)"

text \<open>The first failing check decides the error.\<close>

fun checks :: "unit result list \<Rightarrow> unit result" where
  "checks [] = Inr ()"
| "checks (c # cs) = (case c of Inl e \<Rightarrow> Inl e | Inr _ \<Rightarrow> checks cs)"

definition require :: "bool \<Rightarrow> js_error \<Rightarrow> unit result" where
  "require b e = (if b then Inr () else Inl e)"

definition validateFileIdentity :: "file_identity \<Rightarrow> unit result" where
  "validateFileIdentity i =
     require (decimal_pattern (id_device i) \<and> decimal_pattern (id_inode i) \<and>
              decimal_pattern (id_birthtime_ns i)) TypeError"

definition validateAnchor :: "checkpoint_anchor \<Rightarrow> int \<Rightarrow> unit result" where
  "validateAnchor a byteOffset = checks
     [assertSafeNonNegativeInteger (an_byte_length a),
      require (an_byte_length a = min CHECKPOINT_ANCHOR_BYTES byteOffset) RangeError,
      require (sha256_pattern (an_sha256 a)) TypeError]"

definition validateJsonlCheckpoint :: "jsonl_checkpoint \<Rightarrow> unit result" where
  "validateJsonlCheckpoint c = checks
     [require (ck_schema c = JSONL_CHECKPOINT_SCHEMA) TypeError,
      validateFileIdentity (ck_file_identity c),
      assertSafeNonNegativeInteger (ck_byte_offset c),
      assertSafePositiveInteger (ck_next_line_number c),
      assertSafeNonNegativeInteger (ck_observed_size c),
      require (ck_byte_offset c \<le> ck_observed_size c) RangeError,
      validateAnchor (ck_anchor c) (ck_byte_offset c)]"

section \<open>Operations\<close>

definition createJsonlCheckpoint :: "checkpoint_position \<Rightarrow> jsonl_checkpoint result" where
  "createJsonlCheckpoint p =
     (case checks
        [assertSafeNonNegativeInteger (cp_checkpointOffset p),
         assertSafePositiveInteger (cp_nextLineNumber p),
         assertSafeNonNegativeInteger (cp_observedSize p),
         require (cp_checkpointOffset p \<le> cp_observedSize p) RangeError,
         validateFileIdentity (cp_fileIdentity p),
         validateAnchor (cp_checkpointAnchor p) (cp_checkpointOffset p)] of
        Inl e \<Rightarrow> Inl e
      | Inr _ \<Rightarrow> Inr \<lparr> ck_schema = JSONL_CHECKPOINT_SCHEMA,
          ck_file_identity = cp_fileIdentity p, ck_byte_offset = cp_checkpointOffset p,
          ck_next_line_number = cp_nextLineNumber p, ck_observed_size = cp_observedSize p,
          ck_anchor = cp_checkpointAnchor p \<rparr>)"

definition fileIdentityEquals :: "file_identity \<Rightarrow> file_identity \<Rightarrow> bool" where
  "fileIdentityEquals l r \<longleftrightarrow> id_device l = id_device r \<and> id_inode l = id_inode r \<and>
     id_birthtime_ns l = id_birthtime_ns r"

definition identity_of :: "disk_file \<Rightarrow> file_identity" where
  "identity_of f = \<lparr> id_device = decimal (int (f_dev f)), id_inode = decimal (int (f_ino f)),
     id_birthtime_ns = decimal (int (f_birthtime f)) \<rparr>"

definition snapshotFromStats :: "disk_file \<Rightarrow> file_snapshot result" where
  "snapshotFromStats f =
     (if \<not> f_regular f then Inl TypeError
      else if int (length (f_bytes f)) > max_safe then Inl RangeError
      else Inr \<lparr> sn_identity = identity_of f, sn_size = int (length (f_bytes f)),
        sn_mtime_ns = decimal (int (f_mtime f)) \<rparr>)"

text \<open>The bytes hashed: at most 64 before the offset.\<close>

definition anchor_bytes :: "disk_file \<Rightarrow> int \<Rightarrow> byte list" where
  "anchor_bytes f offset =
     (let n = min CHECKPOINT_ANCHOR_BYTES offset in
      take (nat n) (drop (nat (offset - n)) (f_bytes f)))"

definition readCheckpointAnchor ::
  "(byte list \<Rightarrow> byte list) \<Rightarrow> disk_file \<Rightarrow> int \<Rightarrow> checkpoint_anchor result" where
  "readCheckpointAnchor sha f offset =
     (case assertSafeNonNegativeInteger offset of Inl e \<Rightarrow> Inl e
      | Inr _ \<Rightarrow>
          (let n = min CHECKPOINT_ANCHOR_BYTES offset; bytes = anchor_bytes f offset in
           if int (length bytes) \<noteq> n then Inl RangeError
           else Inr \<lparr> an_byte_length = n, an_sha256 = hex_bytes (sha bytes) \<rparr>))"

definition resetResolution :: "resolution_status \<Rightarrow> file_snapshot \<Rightarrow> checkpoint_resolution" where
  "resetResolution s snapshot =
     \<lparr> rs_status = s, rs_startOffset = 0, rs_nextLineNumber = 1, rs_snapshot = Some snapshot \<rparr>"

text \<open>\<open>None\<close> for the file is ENOENT; a refused symbolic link is an open error of the system.\<close>

definition resolveJsonlCheckpoint ::
  "(byte list \<Rightarrow> byte list) \<Rightarrow> disk_file option \<Rightarrow> jsonl_checkpoint option \<Rightarrow>
   checkpoint_read_options \<Rightarrow> checkpoint_resolution result" where
  "resolveJsonlCheckpoint sha path checkpoint options =
     (case checks
        [(case checkpoint of None \<Rightarrow> Inr () | Some c \<Rightarrow> validateJsonlCheckpoint c),
         (case cr_maxFileBytes options of None \<Rightarrow> Inr () | Some m \<Rightarrow> require (safe_nonneg m) TypeError)] of
        Inl e \<Rightarrow> Inl e
      | Inr _ \<Rightarrow>
     (case path of
        None \<Rightarrow> Inr \<lparr> rs_status = Missing, rs_startOffset = 0, rs_nextLineNumber = 1, rs_snapshot = None \<rparr>
      | Some f \<Rightarrow>
          if cr_noFollow options \<and> f_symlink f then Inl PlainError
          else if cr_requireSingleLink options \<and> f_nlink f \<noteq> 1 then Inl TypeError
          else (case snapshotFromStats f of Inl e \<Rightarrow> Inl e
            | Inr snapshot \<Rightarrow>
                if (case cr_maxFileBytes options of Some m \<Rightarrow> sn_size snapshot > m | None \<Rightarrow> False)
                then Inl InputLimitError
                else (case checkpoint of
                    None \<Rightarrow> Inr (resetResolution Start snapshot)
                  | Some c \<Rightarrow>
                      if \<not> fileIdentityEquals (sn_identity snapshot) (ck_file_identity c)
                      then Inr (resetResolution Rotated snapshot)
                      else if sn_size snapshot < ck_byte_offset c \<or>
                              sn_size snapshot < ck_observed_size c
                      then Inr (resetResolution Truncated snapshot)
                      else (case readCheckpointAnchor sha f (ck_byte_offset c) of Inl e \<Rightarrow> Inl e
                        | Inr current \<Rightarrow>
                            if an_byte_length current \<noteq> an_byte_length (ck_anchor c) \<or>
                               an_sha256 current \<noteq> an_sha256 (ck_anchor c)
                            then Inr (resetResolution Rewritten snapshot)
                            else Inr \<lparr> rs_status = Resume, rs_startOffset = ck_byte_offset c,
                              rs_nextLineNumber = ck_next_line_number c,
                              rs_snapshot = Some snapshot \<rparr>)))))"

section \<open>Lemmas\<close>

lemma checks_Inr [simp]: "checks cs = Inr u \<longleftrightarrow> list_all (\<lambda>c. c = Inr ()) cs"
  by (induction cs) (auto split: sum.splits)

declare checks.simps(2) [simp del]

lemma require_Inr [simp]: "require b e = Inr u \<longleftrightarrow> b"
  by (simp add: require_def)

lemma assert_Inr [simp]:
  "assertSafeNonNegativeInteger n = Inr u \<longleftrightarrow> safe_nonneg n"
  "assertSafePositiveInteger n = Inr u \<longleftrightarrow> safe_pos n"
  by (simp_all add: assertSafeNonNegativeInteger_def assertSafePositiveInteger_def)

lemma checks_ok: "list_all (\<lambda>c. c = Inr ()) cs \<Longrightarrow> checks cs = Inr ()"
  by simp

definition plain_options :: checkpoint_read_options where
  "plain_options = \<lparr> cr_noFollow = False, cr_requireSingleLink = False, cr_maxFileBytes = None \<rparr>"

text \<open>A regular file whose size is a safe integer.\<close>

definition readable :: "disk_file \<Rightarrow> bool" where
  "readable f \<longleftrightarrow> f_regular f \<and> int (length (f_bytes f)) \<le> max_safe"

definition snapshot_of :: "disk_file \<Rightarrow> file_snapshot" where
  "snapshot_of f = \<lparr> sn_identity = identity_of f, sn_size = int (length (f_bytes f)),
     sn_mtime_ns = decimal (int (f_mtime f)) \<rparr>"

lemma snapshotFromStats_readable: "readable f \<Longrightarrow> snapshotFromStats f = Inr (snapshot_of f)"
  by (simp add: readable_def snapshotFromStats_def snapshot_of_def)

lemma fileIdentityEquals_eq: "fileIdentityEquals l r \<longleftrightarrow> l = r"
  by (auto simp: fileIdentityEquals_def intro: file_identity.equality)

lemma identity_of_eq:
  "identity_of f = identity_of g \<longleftrightarrow>
   f_dev f = f_dev g \<and> f_ino f = f_ino g \<and> f_birthtime f = f_birthtime g"
  by (simp add: identity_of_def decimal_inj)

lemma anchor_bytes_length:
  "0 \<le> offset \<Longrightarrow> offset \<le> int (length (f_bytes f)) \<Longrightarrow>
   int (length (anchor_bytes f offset)) = min CHECKPOINT_ANCHOR_BYTES offset"
  by (auto simp: anchor_bytes_def Let_def min_def CHECKPOINT_ANCHOR_BYTES_def)

lemma anchor_bytes_append:
  assumes "0 \<le> offset" "offset \<le> int (length (f_bytes f))" "f_bytes g = f_bytes f @ extra"
  shows "anchor_bytes g offset = anchor_bytes f offset"
proof -
  have "nat (offset - min CHECKPOINT_ANCHOR_BYTES offset) + nat (min CHECKPOINT_ANCHOR_BYTES offset)
      \<le> length (f_bytes f)"
    using assms(1,2) by (auto simp: min_def CHECKPOINT_ANCHOR_BYTES_def)
  then show ?thesis by (auto simp: anchor_bytes_def Let_def assms(3))
qed

definition anchor_of :: "(byte list \<Rightarrow> byte list) \<Rightarrow> disk_file \<Rightarrow> int \<Rightarrow> checkpoint_anchor" where
  "anchor_of sha f offset = \<lparr> an_byte_length = min CHECKPOINT_ANCHOR_BYTES offset,
     an_sha256 = hex_bytes (sha (anchor_bytes f offset)) \<rparr>"

lemma readCheckpointAnchor_ok:
  "safe_nonneg offset \<Longrightarrow> offset \<le> int (length (f_bytes f)) \<Longrightarrow>
   readCheckpointAnchor sha f offset = Inr (anchor_of sha f offset)"
  using anchor_bytes_length [of offset f]
  by (simp add: readCheckpointAnchor_def Let_def anchor_of_def safe_nonneg_def
      assertSafeNonNegativeInteger_def)

lemma readCheckpointAnchor_Inr:
  assumes "readCheckpointAnchor sha f offset = Inr a"
  shows "safe_nonneg offset \<and> offset \<le> int (length (f_bytes f)) \<and> a = anchor_of sha f offset"
  using assms
  by (auto simp: readCheckpointAnchor_def Let_def anchor_of_def assertSafeNonNegativeInteger_def
      anchor_bytes_def safe_nonneg_def min_def CHECKPOINT_ANCHOR_BYTES_def split: if_splits)

lemma validate_checkpoint:
  "validateJsonlCheckpoint c = Inr () \<Longrightarrow>
   safe_nonneg (ck_byte_offset c) \<and> safe_pos (ck_next_line_number c) \<and>
   safe_nonneg (ck_observed_size c) \<and> ck_byte_offset c \<le> ck_observed_size c \<and>
   an_byte_length (ck_anchor c) = min CHECKPOINT_ANCHOR_BYTES (ck_byte_offset c)"
  by (simp add: validateJsonlCheckpoint_def validateAnchor_def)

lemma create_validates:
  "createJsonlCheckpoint p = Inr c \<Longrightarrow> validateJsonlCheckpoint c = Inr ()"
  by (auto simp: createJsonlCheckpoint_def validateJsonlCheckpoint_def split: sum.splits)

text \<open>What a valid checkpoint resolves to.\<close>

lemma resolve_valid:
  assumes valid: "validateJsonlCheckpoint c = Inr ()" and f: "readable f"
  shows "resolveJsonlCheckpoint sha (Some f) (Some c) plain_options = Inr
    (if identity_of f \<noteq> ck_file_identity c then resetResolution Rotated (snapshot_of f)
     else if int (length (f_bytes f)) < ck_observed_size c then resetResolution Truncated (snapshot_of f)
     else if anchor_of sha f (ck_byte_offset c) \<noteq> ck_anchor c then resetResolution Rewritten (snapshot_of f)
     else \<lparr> rs_status = Resume, rs_startOffset = ck_byte_offset c,
            rs_nextLineNumber = ck_next_line_number c, rs_snapshot = Some (snapshot_of f) \<rparr>)"
proof -
  note v = validate_checkpoint [OF valid]
  have small: "ck_byte_offset c \<le> ck_observed_size c" using v by blast
  have anchor: "readCheckpointAnchor sha f (ck_byte_offset c) = Inr (anchor_of sha f (ck_byte_offset c))"
    if "\<not> int (length (f_bytes f)) < ck_observed_size c"
    using v that by (intro readCheckpointAnchor_ok) auto
  have differs: "anchor_of sha f (ck_byte_offset c) \<noteq> ck_anchor c \<longleftrightarrow>
      an_byte_length (anchor_of sha f (ck_byte_offset c)) \<noteq> an_byte_length (ck_anchor c) \<or>
      an_sha256 (anchor_of sha f (ck_byte_offset c)) \<noteq> an_sha256 (ck_anchor c)"
    by (auto intro: checkpoint_anchor.equality)
  have size: "sn_size (snapshot_of f) = int (length (f_bytes f))"
    and id: "sn_identity (snapshot_of f) = identity_of f" by (simp_all add: snapshot_of_def)
  show ?thesis
    using small anchor valid
    by (auto simp: resolveJsonlCheckpoint_def plain_options_def snapshotFromStats_readable [OF f]
        size id fileIdentityEquals_eq differs checks_ok)
qed

section \<open>Properties\<close>

text \<open>C29: a checkpoint created from a position in a file resumes at exactly that position after
  the file has only grown, whatever was appended.\<close>

theorem resolve_after_append:
  assumes created: "createJsonlCheckpoint p = Inr c"
    and anchor: "readCheckpointAnchor sha f (cp_checkpointOffset p) = Inr (cp_checkpointAnchor p)"
    and observed: "cp_fileIdentity p = identity_of f" "cp_observedSize p = int (length (f_bytes f))"
    and grown: "readable g" "identity_of g = identity_of f" "f_bytes g = f_bytes f @ extra"
  shows "resolveJsonlCheckpoint sha (Some g) (Some c) plain_options =
    Inr \<lparr> rs_status = Resume, rs_startOffset = cp_checkpointOffset p,
      rs_nextLineNumber = cp_nextLineNumber p, rs_snapshot = Some (snapshot_of g) \<rparr>"
proof -
  have c: "ck_file_identity c = identity_of f" "ck_byte_offset c = cp_checkpointOffset p"
    "ck_next_line_number c = cp_nextLineNumber p" "ck_observed_size c = int (length (f_bytes f))"
    "ck_anchor c = cp_checkpointAnchor p"
    using created observed by (auto simp: createJsonlCheckpoint_def split: sum.splits)
  from readCheckpointAnchor_Inr [OF anchor] have a: "0 \<le> cp_checkpointOffset p"
    "cp_checkpointOffset p \<le> int (length (f_bytes f))"
    "cp_checkpointAnchor p = anchor_of sha f (cp_checkpointOffset p)" by (auto simp: safe_nonneg_def)
  have "anchor_of sha g (cp_checkpointOffset p) = anchor_of sha f (cp_checkpointOffset p)"
    by (simp add: anchor_of_def anchor_bytes_append [OF a(1,2) grown(3)])
  then show ?thesis
    using resolve_valid [OF create_validates [OF created] grown(1), of sha] grown(2,3) a(3)
    by (simp add: c)
qed

text \<open>C28: a valid checkpoint never makes a readable file fail to resolve; the answer restarts at
  the beginning, with the reason, unless the file is the same one, has not shrunk, and still holds
  before the offset bytes with the recorded hash.\<close>

theorem resolveJsonlCheckpoint_classifies:
  assumes "validateJsonlCheckpoint c = Inr ()" "readable f"
  shows "\<exists>r. resolveJsonlCheckpoint sha (Some f) (Some c) plain_options = Inr r \<and>
    rs_snapshot r = Some (snapshot_of f) \<and>
    (rs_status r = Resume \<longleftrightarrow> identity_of f = ck_file_identity c \<and>
       ck_observed_size c \<le> int (length (f_bytes f)) \<and>
       hex_bytes (sha (anchor_bytes f (ck_byte_offset c))) = an_sha256 (ck_anchor c)) \<and>
    (if rs_status r = Resume
     then rs_startOffset r = ck_byte_offset c \<and> rs_nextLineNumber r = ck_next_line_number c
     else rs_status r \<in> {Rotated, Truncated, Rewritten} \<and> rs_startOffset r = 0 \<and> rs_nextLineNumber r = 1)"
proof -
  have "anchor_of sha f (ck_byte_offset c) = ck_anchor c \<longleftrightarrow>
      hex_bytes (sha (anchor_bytes f (ck_byte_offset c))) = an_sha256 (ck_anchor c)"
    using validate_checkpoint [OF assms(1)]
    by (cases "ck_anchor c") (auto simp: anchor_of_def)
  then show ?thesis
    unfolding resolve_valid [OF assms] by (auto simp: resetResolution_def)
qed

section \<open>Witnesses\<close>

text \<open>A stand-in digest of the right length.\<close>

definition sample_sha :: "byte list \<Rightarrow> byte list" where
  "sample_sha bs = take 32 (bs @ replicate 32 0)"

definition sample_file :: "byte list \<Rightarrow> disk_file" where
  "sample_file bs = \<lparr> f_regular = True, f_symlink = False, f_dev = 1, f_ino = 20, f_birthtime = 300,
     f_mtime = 4, f_nlink = 1, f_bytes = bs \<rparr>"

definition sample_position :: checkpoint_position where
  "sample_position = \<lparr> cp_fileIdentity = identity_of (sample_file [1, 2, 10, 3]), cp_checkpointOffset = 3,
     cp_nextLineNumber = 2, cp_observedSize = 4,
     cp_checkpointAnchor = anchor_of sample_sha (sample_file [1, 2, 10, 3]) 3 \<rparr>"

definition sample_checkpoint :: jsonl_checkpoint where
  "sample_checkpoint = \<lparr> ck_schema = JSONL_CHECKPOINT_SCHEMA,
     ck_file_identity = identity_of (sample_file [1, 2, 10, 3]), ck_byte_offset = 3,
     ck_next_line_number = 2, ck_observed_size = 4,
     ck_anchor = anchor_of sample_sha (sample_file [1, 2, 10, 3]) 3 \<rparr>"

lemma sample_created: "createJsonlCheckpoint sample_position = Inr sample_checkpoint"
  by code_simp

lemma sample_readable: "readable (sample_file [1, 2, 10, 3, 10])"
  by (simp add: readable_def sample_file_def max_safe_def)

theorem resolve_after_append_witness:
  "\<exists>r. resolveJsonlCheckpoint sample_sha (Some (sample_file [1, 2, 10, 3, 10])) (Some sample_checkpoint)
    plain_options = Inr r \<and> rs_status r = Resume \<and> rs_startOffset r = 3"
  using resolve_after_append [OF sample_created, of sample_sha "sample_file [1, 2, 10, 3]"
      "sample_file [1, 2, 10, 3, 10]" "[10]"] sample_readable
  by (simp add: sample_position_def sample_file_def identity_of_def readCheckpointAnchor_ok
      safe_nonneg_def safe_int_def max_safe_def)

theorem resolveJsonlCheckpoint_classifies_witness:
  "\<exists>r. resolveJsonlCheckpoint sample_sha (Some (sample_file [1, 2, 10, 3, 10])) (Some sample_checkpoint)
    plain_options = Inr r \<and> rs_snapshot r = Some (snapshot_of (sample_file [1, 2, 10, 3, 10]))"
  using resolveJsonlCheckpoint_classifies [OF create_validates [OF sample_created] sample_readable]
  by blast

end
