(* ===== verification/Jsonl_Reader.thy ===== *)
theory Jsonl_Reader
  imports Checkpoint Utf8_Decode Js_Value
begin

text \<open>
  \<open>core/jsonl-reader.ts\<close>: the forward reader of JSONL files.  The bytes arrive in chunks of the
  read stream; the state of the generator is a record, the lines it yields accumulate in
  \<open>rd_events\<close>, so that the lines delivered before an error are part of the result.  \<open>parser\<close> is the
  caller's parser (\<open>JSON.parse\<close> by default), \<open>None\<close> when it throws; \<open>chunks\<close> are the buffers of
  the stream, \<open>initial\<close> and \<open>final\<close> the file as \<open>stat\<close> finds it before and after the read.
\<close>

section \<open>Data\<close>

record jsonl_options =
  jo_startOffset :: "int option"
  jo_nextLineNumber :: "int option"
  jo_endOffset :: "int option"
  jo_pinEnd :: bool
  jo_highWaterMark :: "int option"
  jo_noFollow :: bool
  jo_requireSingleLink :: bool
  jo_maxFileBytes :: "int option"
  jo_maxLineBytes :: "int option"

datatype line_kind = Record jsval | Malformed

record jsonl_line =
  ln_kind :: line_kind
  ln_raw :: jstr
  ln_lineNumber :: int
  ln_byteStart :: int
  ln_byteEndExclusive :: int

record reader_state =
  rd_fragments :: "byte list list"
  rd_fragmentBytes :: int
  rd_bytesRead :: int
  rd_checkpointOffset :: int
  rd_nextLineNumber :: int
  rd_completeLines :: int
  rd_parsedLines :: int
  rd_malformedLines :: int
  rd_reachedEnd :: bool
  rd_events :: "jsonl_line list"

record partial_line =
  pl_byteStart :: int
  pl_byteLength :: int
  pl_lineNumber :: int

record jsonl_summary =
  sm_fileIdentity :: file_identity
  sm_observedSize :: int
  sm_startOffset :: int
  sm_checkpointOffset :: int
  sm_nextLineNumber :: int
  sm_checkpointAnchor :: checkpoint_anchor
  sm_bytesRead :: int
  sm_completeLines :: int
  sm_parsedLines :: int
  sm_malformedLines :: int
  sm_partialFinalLine :: "partial_line option"

type_synonym jsonl_parser = "jstr \<Rightarrow> jsval option"

section \<open>Lines\<close>

text \<open>\<open>assertLineWithinLimit\<close>\<close>

definition within_limit :: "int option \<Rightarrow> int \<Rightarrow> bool" where
  "within_limit maximum n \<longleftrightarrow> (case maximum of None \<Rightarrow> True | Some m \<Rightarrow> n \<le> m)"

text \<open>The line without an optional carriage return.\<close>

definition content_bytes :: "byte list \<Rightarrow> byte list" where
  "content_bytes l = (if at_last l = Some 0x0D then butlast l else l)"

definition make_line :: "jsonl_parser \<Rightarrow> byte list \<Rightarrow> int \<Rightarrow> int \<Rightarrow> jsonl_line" where
  "make_line parser l start number =
     (let content = content_bytes l;
          (kind, raw) =
            (case fatalDecode content of
               Inl _ \<Rightarrow> (Malformed, lenientDecode content)
             | Inr raw \<Rightarrow>
                 (case parser raw of None \<Rightarrow> (Malformed, lenientDecode content)
                  | Some v \<Rightarrow> (Record v, raw)))
      in \<lparr> ln_kind = kind, ln_raw = raw, ln_lineNumber = number, ln_byteStart = start,
           ln_byteEndExclusive = start + int (length l) + 1 \<rparr>)"

text \<open>A complete line: the counters advance, the fragments are dropped, the event is yielded.\<close>

definition emit_line :: "jsonl_parser \<Rightarrow> byte list \<Rightarrow> reader_state \<Rightarrow> reader_state" where
  "emit_line parser l st =
     (let line = make_line parser l (rd_checkpointOffset st) (rd_nextLineNumber st) in
      st \<lparr> rd_fragments := [], rd_fragmentBytes := 0,
           rd_checkpointOffset := ln_byteEndExclusive line,
           rd_nextLineNumber := rd_nextLineNumber st + 1,
           rd_completeLines := rd_completeLines st + 1,
           rd_parsedLines := rd_parsedLines st + (case ln_kind line of Record _ \<Rightarrow> 1 | Malformed \<Rightarrow> 0),
           rd_malformedLines :=
             rd_malformedLines st + (case ln_kind line of Record _ \<Rightarrow> 0 | Malformed \<Rightarrow> 1),
           rd_events := rd_events st @ [line] \<rparr>)"

definition push_fragment :: "byte list \<Rightarrow> reader_state \<Rightarrow> reader_state" where
  "push_fragment seg st =
     st \<lparr> rd_fragments := rd_fragments st @ [seg],
          rd_fragmentBytes := rd_fragmentBytes st + int (length seg) \<rparr>"

text \<open>The inner loop over one chunk from \<open>segmentStart\<close>, and what remains after its last LF.\<close>

function scan_chunk ::
  "jsonl_parser \<Rightarrow> int option \<Rightarrow> int option \<Rightarrow> byte list \<Rightarrow> reader_state \<Rightarrow>
   reader_state \<times> js_error option" where
  "scan_chunk parser endOffset maxLine bytes st =
     (let segment = takeWhile (\<lambda>b. b \<noteq> 0x0A) bytes in
      case dropWhile (\<lambda>b. b \<noteq> 0x0A) bytes of
        [] \<Rightarrow>
          if bytes = [] then (st, None)
          else if \<not> within_limit maxLine (rd_fragmentBytes st + int (length bytes))
          then (st, Some InputLimitError)
          else (push_fragment bytes st, None)
      | _ # rest \<Rightarrow>
          if \<not> within_limit maxLine (rd_fragmentBytes st + int (length segment))
          then (st, Some InputLimitError)
          else if (case endOffset of None \<Rightarrow> False
                   | Some e \<Rightarrow> rd_checkpointOffset st + rd_fragmentBytes st + int (length segment) + 1 > e)
          then ((push_fragment segment st) \<lparr> rd_reachedEnd := True \<rparr>, None)
          else
            scan_chunk parser endOffset maxLine rest
              (emit_line parser
                (if rd_fragments st = [] then segment else concat (rd_fragments st @ [segment])) st))"
  by pat_completeness auto
termination
proof (relation "measure (\<lambda>(_, _, _, bytes, _). length bytes)", simp, goal_cases)
  case (1 parser endOffset maxLine bytes st seg b rest)
  then have "length (dropWhile (\<lambda>b. b \<noteq> 0x0A) bytes) = Suc (length rest)" by simp
  then show ?case using length_dropWhile_le [of "\<lambda>b. b \<noteq> 0x0A" bytes] by simp
qed

declare scan_chunk.simps [simp del]

fun read_chunks ::
  "jsonl_parser \<Rightarrow> int option \<Rightarrow> int option \<Rightarrow> byte list list \<Rightarrow> reader_state \<Rightarrow>
   reader_state \<times> js_error option" where
  "read_chunks parser endOffset maxLine [] st = (st, None)"
| "read_chunks parser endOffset maxLine (chunk # chunks) st =
     (if rd_reachedEnd st then read_chunks parser endOffset maxLine chunks st
      else
        (case scan_chunk parser endOffset maxLine chunk
                (st \<lparr> rd_bytesRead := rd_bytesRead st + int (length chunk) \<rparr>) of
           (st', Some e) \<Rightarrow> (st', Some e)
         | (st', None) \<Rightarrow>
             read_chunks parser endOffset maxLine chunks
               (if (case endOffset of None \<Rightarrow> False | Some e \<Rightarrow> rd_checkpointOffset st' \<ge> e)
                then st' \<lparr> rd_reachedEnd := True \<rparr> else st')))"

section \<open>The generator\<close>

definition start_state :: "int \<Rightarrow> int \<Rightarrow> reader_state" where
  "start_state startOffset firstLineNumber =
     \<lparr> rd_fragments = [], rd_fragmentBytes = 0, rd_bytesRead = 0, rd_checkpointOffset = startOffset,
       rd_nextLineNumber = firstLineNumber, rd_completeLines = 0, rd_parsedLines = 0,
       rd_malformedLines = 0, rd_reachedEnd = False, rd_events = [] \<rparr>"

definition or_default :: "'a \<Rightarrow> 'a option \<Rightarrow> 'a" where
  "or_default d x = (case x of None \<Rightarrow> d | Some v \<Rightarrow> v)"

definition optional_nonneg :: "int option \<Rightarrow> js_error \<Rightarrow> unit result" where
  "optional_nonneg x e = (case x of None \<Rightarrow> Inr () | Some n \<Rightarrow> require (safe_nonneg n) e)"

definition start_of :: "jsonl_options \<Rightarrow> int" where
  "start_of opts = or_default 0 (jo_startOffset opts)"

definition first_line :: "jsonl_options \<Rightarrow> int" where
  "first_line opts = or_default 1 (jo_nextLineNumber opts)"

definition option_checks :: "jsonl_options \<Rightarrow> unit result" where
  "option_checks opts = checks
     [require (safe_nonneg (start_of opts)) RangeError,
      require (safe_pos (first_line opts)) RangeError,
      optional_nonneg (jo_endOffset opts) RangeError,
      require (case jo_endOffset opts of None \<Rightarrow> True
               | Some e \<Rightarrow> start_of opts \<le> e) RangeError,
      require (case jo_highWaterMark opts of None \<Rightarrow> True | Some n \<Rightarrow> safe_pos n) RangeError,
      optional_nonneg (jo_maxFileBytes opts) TypeError,
      optional_nonneg (jo_maxLineBytes opts) TypeError]"

text \<open>The checks on an opened handle, before and after the read.\<close>

definition handle_checks :: "jsonl_options \<Rightarrow> disk_file \<Rightarrow> file_snapshot result" where
  "handle_checks opts f =
     (if jo_requireSingleLink opts \<and> f_nlink f \<noteq> 1 then Inl TypeError
      else (case snapshotFromStats f of Inl e \<Rightarrow> Inl e
        | Inr s \<Rightarrow>
            if (case jo_maxFileBytes opts of None \<Rightarrow> False | Some m \<Rightarrow> sn_size s > m)
            then Inl InputLimitError else Inr s))"

definition read_summary ::
  "(byte list \<Rightarrow> byte list) \<Rightarrow> jsonl_options \<Rightarrow> disk_file \<Rightarrow> int \<Rightarrow> reader_state \<Rightarrow> jsonl_summary result" where
  "read_summary sha opts final startOffset st =
     (case handle_checks opts final of Inl e \<Rightarrow> Inl e
      | Inr s \<Rightarrow>
          if sn_size s < rd_checkpointOffset st then Inl RangeError
          else (case readCheckpointAnchor sha final (rd_checkpointOffset st) of Inl e \<Rightarrow> Inl e
            | Inr anchor \<Rightarrow> Inr
               \<lparr> sm_fileIdentity = sn_identity s, sm_observedSize = sn_size s,
                 sm_startOffset = startOffset, sm_checkpointOffset = rd_checkpointOffset st,
                 sm_nextLineNumber = rd_nextLineNumber st, sm_checkpointAnchor = anchor,
                 sm_bytesRead = rd_bytesRead st, sm_completeLines = rd_completeLines st,
                 sm_parsedLines = rd_parsedLines st, sm_malformedLines = rd_malformedLines st,
                 sm_partialFinalLine =
                   (if rd_fragmentBytes st = 0 then None
                    else Some \<lparr> pl_byteStart = rd_checkpointOffset st,
                      pl_byteLength = rd_fragmentBytes st, pl_lineNumber = rd_nextLineNumber st \<rparr>) \<rparr>))"

text \<open>\<open>endOffset\<close> once it is pinned to the size observed on the handle.\<close>

definition effective_end :: "jsonl_options \<Rightarrow> int \<Rightarrow> int option" where
  "effective_end opts observed =
     (if jo_pinEnd opts \<and> jo_endOffset opts = None then Some observed else jo_endOffset opts)"

definition iterateJsonlForward ::
  "(byte list \<Rightarrow> byte list) \<Rightarrow> jsonl_parser \<Rightarrow> jsonl_options \<Rightarrow> disk_file \<Rightarrow> byte list list \<Rightarrow>
   disk_file \<Rightarrow> jsonl_line list \<times> jsonl_summary result" where
  "iterateJsonlForward sha parser opts initial chunks final =
     (case option_checks opts of Inl e \<Rightarrow> ([], Inl e)
      | Inr _ \<Rightarrow>
          if jo_noFollow opts \<and> f_symlink initial then ([], Inl PlainError)
          else (case handle_checks opts initial of Inl e \<Rightarrow> ([], Inl e)
            | Inr s \<Rightarrow>
                if start_of opts > sn_size s then ([], Inl RangeError)
                else
                  (case read_chunks parser (effective_end opts (sn_size s)) (jo_maxLineBytes opts)
                          (if effective_end opts (sn_size s) = Some (start_of opts) then [] else chunks)
                          (start_state (start_of opts) (first_line opts)) of
                     (st, Some e) \<Rightarrow> (rd_events st, Inl e)
                   | (st, None) \<Rightarrow> (rd_events st, read_summary sha opts final (start_of opts) st))))"

end
