(* ===== verification/Reader_Feeds.thy ===== *)
theory Reader_Feeds
  imports Reader_Records Jsonl_Reader Jsonl_Feed "HOL-Library.Product_Lexorder"
begin

text \<open>
  \<open>reader/store.ts\<close> and \<open>core/feed-availability.ts\<close>: the newest turns of the feeds, read from the end
  of each file, and one evidence record by its identifier.  \<open>verify\<close> is what \<open>verifyDirectory\<close> says of
  a directory below \<open>.barbaro\<close>, \<open>readdir\<close> its entries, \<open>disk\<close> the files; \<open>parse\<close> is \<open>JSON.parse\<close>.
\<close>

section \<open>Options\<close>

record reader_limits =
  rl_maxFileBytes :: int
  rl_maxRecordBytes :: int
  rl_maxScanBytes :: int

record reader_bounds =
  rb_maxFileBytes :: "int option"
  rb_maxRecordBytes :: "int option"
  rb_maxScanBytesPerFile :: "int option"

definition assertReaderPositiveInteger :: "int \<Rightarrow> int result" where
  "assertReaderPositiveInteger v = (if safe_pos v then Inr v else Inl RangeError)"

definition fileLimits :: "reader_bounds \<Rightarrow> reader_limits result" where
  "fileLimits opts =
     (case assertReaderPositiveInteger (or_default (64 * 1024 * 1024) (rb_maxFileBytes opts)) of Inl e \<Rightarrow> Inl e
      | Inr f \<Rightarrow>
     (case assertReaderPositiveInteger (or_default (8 * 1024 * 1024) (rb_maxRecordBytes opts)) of Inl e \<Rightarrow> Inl e
      | Inr r \<Rightarrow>
     (case assertReaderPositiveInteger (or_default (16 * 1024 * 1024) (rb_maxScanBytesPerFile opts)) of Inl e \<Rightarrow> Inl e
      | Inr s \<Rightarrow> Inr \<lparr> rl_maxFileBytes = f, rl_maxRecordBytes = r, rl_maxScanBytes = s \<rparr>)))"

section \<open>Files\<close>

datatype dirent = DirectoryEntry | FileEntry | LinkEntry | OtherDirent

type_synonym listing = "jstr list \<Rightarrow> (jstr \<times> dirent) list"

record jsonl_file =
  ff_provider :: jstr
  ff_sessionId :: jstr
  ff_components :: "jstr list"

text \<open>\<open>SESSION_FILENAME_PATTERN.exec(name)\<close>: the session in the name.\<close>

definition session_of_filename :: "jstr \<Rightarrow> jstr option" where
  "session_of_filename name =
     (let s = take (length name - 6) name in
      if name = s @ js ''.jsonl'' \<and> session_id_pattern s then Some s else None)"

text \<open>The files of one provider.  A name that is not a real file is refused.\<close>

fun provider_files :: "jstr list \<Rightarrow> jstr \<Rightarrow> (jstr \<times> dirent) list \<Rightarrow> jsonl_file list result" where
  "provider_files directory provider [] = Inr []"
| "provider_files directory provider ((name, dk) # rest) =
     (case session_of_filename name of
        None \<Rightarrow> provider_files directory provider rest
      | Some session \<Rightarrow>
          if dk \<noteq> FileEntry then Inl UnsafeStorePathError
          else (case provider_files directory provider rest of
             Inl e \<Rightarrow> Inl e
           | Inr fs \<Rightarrow>
               Inr (\<lparr> ff_provider = provider, ff_sessionId = session, ff_components = directory @ [name] \<rparr> # fs)))"

fun feed_providers ::
  "(jstr list \<Rightarrow> bool result) \<Rightarrow> listing \<Rightarrow> jstr list \<Rightarrow> (jstr \<times> dirent) list \<Rightarrow> jsonl_file list result" where
  "feed_providers verify readdir root [] = Inr []"
| "feed_providers verify readdir root ((name, dk) # rest) =
     (if \<not> provider_pattern name then feed_providers verify readdir root rest
      else if dk \<noteq> DirectoryEntry then Inl UnsafeStorePathError
      else case verify (root @ [name]) of
        Inl e \<Rightarrow> Inl e
      | Inr False \<Rightarrow> feed_providers verify readdir root rest
      | Inr True \<Rightarrow>
          (case provider_files (root @ [name]) name (sort_key fst (readdir (root @ [name]))) of
             Inl e \<Rightarrow> Inl e
           | Inr fs \<Rightarrow>
               (case feed_providers verify readdir root rest of Inl e \<Rightarrow> Inl e | Inr gs \<Rightarrow> Inr (fs @ gs))))"

definition listCanonicalJsonlFiles ::
  "(jstr list \<Rightarrow> bool result) \<Rightarrow> listing \<Rightarrow> jstr \<Rightarrow> jsonl_file list result" where
  "listCanonicalJsonlFiles verify readdir area =
     (case verify [area] of
        Inl e \<Rightarrow> Inl e
      | Inr False \<Rightarrow> Inr []
      | Inr True \<Rightarrow> feed_providers verify readdir [area] (sort_key fst (readdir [area])))"

text \<open>A safely opened file; \<open>None\<close> when it is missing.\<close>

definition openSafeRegularFile :: "bool result \<Rightarrow> disk_file option \<Rightarrow> int \<Rightarrow> disk_file option result" where
  "openSafeRegularFile parent f maximumBytes =
     (case parent of
        Inl e \<Rightarrow> Inl e
      | Inr False \<Rightarrow> Inr None
      | Inr True \<Rightarrow>
          (case f of
             None \<Rightarrow> Inr None
           | Some d \<Rightarrow>
               if f_symlink d then Inl UnsafeStorePathError
               else if \<not> f_regular d then Inl UnsafeStorePathError
               else if f_nlink d \<noteq> 1 then Inl UnsafeStorePathError
               else if int (length (f_bytes d)) > maximumBytes then Inl StoreFileTooLargeError
               else Inr (Some d)))"

section \<open>Lines\<close>

text \<open>The complete lines of some bytes, without carriage returns and without the empty ones.\<close>

function splitCompleteLines :: "byte list \<Rightarrow> byte list list" where
  "splitCompleteLines bytes =
     (case dropWhile (\<lambda>b. b \<noteq> 0x0A) bytes of
        [] \<Rightarrow> []
      | _ # rest \<Rightarrow>
          let l = content_bytes (takeWhile (\<lambda>b. b \<noteq> 0x0A) bytes) in
          (if l = [] then [] else [l]) @ splitCompleteLines rest)"
  by pat_completeness auto
termination
proof (relation "measure length", simp, goal_cases)
  case (1 bytes b rest)
  then have "length (dropWhile (\<lambda>b. b \<noteq> 0x0A) bytes) = Suc (length rest)" by simp
  then show ?case using length_dropWhile_le [of "\<lambda>b. b \<noteq> 0x0A" bytes] by simp
qed

declare splitCompleteLines.simps [simp del]

text \<open>\<open>indexOf(0x0a)\<close>\<close>

fun first_LF :: "byte list \<Rightarrow> nat option" where
  "first_LF [] = None"
| "first_LF (b # bs) = (if b = 0x0A then Some 0 else map_option Suc (first_LF bs))"

definition completeJsonlLines :: "byte list \<Rightarrow> byte list list" where
  "completeJsonlLines bytes =
     (case last_newline bytes of None \<Rightarrow> [] | Some i \<Rightarrow> splitCompleteLines (take (i + 1) bytes))"

definition completeSuffixJsonlLines :: "byte list \<Rightarrow> bool \<Rightarrow> bool \<Rightarrow> byte list list" where
  "completeSuffixJsonlLines suffix startsMidFile hasPartialTail =
     (case (if startsMidFile then map_option Suc (first_LF suffix) else Some 0) of
        None \<Rightarrow> []
      | Some start \<Rightarrow>
          if \<not> hasPartialTail then splitCompleteLines (drop start suffix)
          else (case last_newline suffix of
             None \<Rightarrow> []
           | Some final \<Rightarrow>
               if final < start then []
               else splitCompleteLines (drop start (take (final + 1) suffix))))"

section \<open>The newest turns of a feed\<close>

record feed_read =
  fr_turns :: "jsval list"
  fr_malformed :: nat
  fr_invalid :: nat
  fr_partial :: bool
  fr_scanLimited :: bool
  fr_windowLimited :: bool

definition parse_line :: "jsonl_parser \<Rightarrow> byte list \<Rightarrow> jsval option" where
  "parse_line parse l = (case fatalDecode l of Inl _ \<Rightarrow> None | Inr t \<Rightarrow> parse t)"

definition text_at :: "jsval \<Rightarrow> string \<Rightarrow> jstr option" where
  "text_at v key = (case as_object v of None \<Rightarrow> None | Some ps \<Rightarrow> as_string (jget ps key))"

definition of_file :: "jstr \<Rightarrow> jstr \<Rightarrow> jsval \<Rightarrow> bool" where
  "of_file provider session v \<longleftrightarrow> text_at v ''provider'' = Some provider \<and> text_at v ''session_id'' = Some session"

text \<open>The loop over the lines, the newest first.\<close>

fun newest_loop ::
  "jsonl_parser \<Rightarrow> jsonl_file \<Rightarrow> int \<Rightarrow> reader_limits \<Rightarrow> jstr option \<Rightarrow> byte list list \<Rightarrow> feed_read \<Rightarrow> feed_read result" where
  "newest_loop parse f maximumRecords limits scope [] r = Inr r"
| "newest_loop parse f maximumRecords limits scope (l # ls) r =
     (if int (length l) > rl_maxRecordBytes limits then Inl ReaderRecordTooLargeError
      else case parse_line parse l of
        None \<Rightarrow> newest_loop parse f maximumRecords limits scope ls (r\<lparr> fr_malformed := fr_malformed r + 1 \<rparr>)
      | Some v \<Rightarrow>
          (case isTurnV1 v of
             Inl e \<Rightarrow> Inl e
           | Inr valid \<Rightarrow>
               if \<not> valid \<or> \<not> of_file (ff_provider f) (ff_sessionId f) v
               then newest_loop parse f maximumRecords limits scope ls (r\<lparr> fr_invalid := fr_invalid r + 1 \<rparr>)
               else if scope \<noteq> None \<and> text_at v ''workstream_id'' \<noteq> scope
               then newest_loop parse f maximumRecords limits scope ls r
               else if int (length (fr_turns r)) = maximumRecords then Inr (r\<lparr> fr_windowLimited := True \<rparr>)
               else newest_loop parse f maximumRecords limits scope ls (r\<lparr> fr_turns := fr_turns r @ [v] \<rparr>)))"

definition ends_partial :: "byte list \<Rightarrow> bool" where
  "ends_partial suffix \<longleftrightarrow> suffix \<noteq> [] \<and> last suffix \<noteq> 0x0A"

definition readNewestFeedTurns ::
  "jsonl_parser \<Rightarrow> bool result \<Rightarrow> disk_file option \<Rightarrow> jsonl_file \<Rightarrow> int \<Rightarrow> reader_limits \<Rightarrow> jstr option \<Rightarrow>
   feed_read result" where
  "readNewestFeedTurns parse parent disk f maximumRecords limits scope =
     (case openSafeRegularFile parent disk (rl_maxFileBytes limits) of
        Inl e \<Rightarrow> Inl e
      | Inr None \<Rightarrow> Inl FeedMissingError
      | Inr (Some d) \<Rightarrow>
          let bytes = f_bytes d;
              start = length bytes - nat (min (int (length bytes)) (rl_maxScanBytes limits));
              suffix = drop start bytes;
              partial = ends_partial suffix
          in
          if start > 0 \<and> (case first_LF suffix of None \<Rightarrow> False | Some i \<Rightarrow> int i > rl_maxRecordBytes limits)
          then Inl ReaderRecordTooLargeError
          else if partial \<and>
            (case last_newline suffix of
               None \<Rightarrow> int (length suffix) > rl_maxRecordBytes limits
             | Some i \<Rightarrow> int (length suffix) - int i - 1 > rl_maxRecordBytes limits)
          then Inl ReaderRecordTooLargeError
          else
            newest_loop parse f maximumRecords limits scope
              (rev (completeSuffixJsonlLines suffix (start > 0) partial))
              \<lparr> fr_turns = [], fr_malformed = 0, fr_invalid = 0, fr_partial = partial,
                fr_scanLimited = (start > 0), fr_windowLimited = False \<rparr>)"

section \<open>Evidence\<close>

text \<open>The loop over the lines of an evidence file: the record found, with its canonical text.\<close>

fun evidence_loop ::
  "jsonl_parser \<Rightarrow> jstr \<Rightarrow> jstr \<Rightarrow> jstr \<Rightarrow> reader_limits \<Rightarrow> byte list list \<Rightarrow> (jsval \<times> jstr) option \<Rightarrow>
   (jsval \<times> jstr) option result" where
  "evidence_loop parse provider session evidenceId limits [] found = Inr found"
| "evidence_loop parse provider session evidenceId limits (l # ls) found =
     (if int (length l) > rl_maxRecordBytes limits then Inl ReaderRecordTooLargeError
      else case parse_line parse l of
        None \<Rightarrow> evidence_loop parse provider session evidenceId limits ls found
      | Some v \<Rightarrow>
          (case isEvidenceV1 v of
             Inl e \<Rightarrow> Inl e
           | Inr valid \<Rightarrow>
               if \<not> valid \<or> text_at v ''evidence_id'' \<noteq> Some evidenceId
               then evidence_loop parse provider session evidenceId limits ls found
               else if \<not> of_file provider session v then Inl PlainError
               else (case stableStringify v of
                  Inl e \<Rightarrow> Inl e
                | Inr canonical \<Rightarrow>
                    if (case found of None \<Rightarrow> False | Some (_, c) \<Rightarrow> c \<noteq> canonical) then Inl PlainError
                    else evidence_loop parse provider session evidenceId limits ls (Some (v, canonical)))))"

record evidence_request =
  er_provider :: jstr
  er_sessionId :: jstr
  er_evidenceId :: jstr
  er_workstreamId :: "jstr option"
  er_bounds :: reader_bounds

text \<open>The record that is projected for the caller.\<close>

definition readProjectEvidence ::
  "jsonl_parser \<Rightarrow> bool result \<Rightarrow> disk_file option \<Rightarrow> evidence_request \<Rightarrow> jsval result" where
  "readProjectEvidence parse parent disk req =
     (if \<not> provider_pattern (er_provider req) then Inl TypeError
      else if \<not> session_id_pattern (er_sessionId req) then Inl TypeError
      else if \<not> evidence_id_pattern (er_evidenceId req) then Inl TypeError
      else if (case er_workstreamId req of None \<Rightarrow> False | Some w \<Rightarrow> \<not> workstream_id_pattern w) then Inl TypeError
      else case fileLimits (er_bounds req) of Inl e \<Rightarrow> Inl e
      | Inr limits \<Rightarrow>
          (case openSafeRegularFile parent disk (rl_maxFileBytes limits) of
             Inl e \<Rightarrow> Inl e
           | Inr None \<Rightarrow> Inl ReaderEvidenceNotFoundError
           | Inr (Some d) \<Rightarrow>
               (case evidence_loop parse (er_provider req) (er_sessionId req) (er_evidenceId req) limits
                       (completeJsonlLines (f_bytes d)) None of
                  Inl e \<Rightarrow> Inl e
                | Inr None \<Rightarrow> Inl ReaderEvidenceNotFoundError
                | Inr (Some (v, _)) \<Rightarrow>
                    if er_workstreamId req \<noteq> None \<and> text_at v ''workstream_id'' \<noteq> er_workstreamId req
                    then Inl ReaderEvidenceNotFoundError else Inr v)))"

section \<open>Availability\<close>

datatype availability_reason = FileTooLarge | RecordTooLarge | MissingFeed

record availability_failure =
  af_provider :: jstr
  af_session_id :: jstr
  af_reason :: availability_reason

record coverage_tracker =
  ct_scanned :: nat
  ct_unavailable :: nat
  ct_items :: "availability_failure list"

definition MAX_FEED_AVAILABILITY_DETAILS :: nat where
  "MAX_FEED_AVAILABILITY_DETAILS = 8"

text \<open>Of the failures with a code of the operating system, the model has the missing file.\<close>

definition feedAvailabilityFailure :: "jsonl_file \<Rightarrow> js_error \<Rightarrow> availability_failure option" where
  "feedAvailabilityFailure f e =
     map_option (\<lambda>r. \<lparr> af_provider = ff_provider f, af_session_id = ff_sessionId f, af_reason = r \<rparr>)
       (if e = StoreFileTooLargeError then Some FileTooLarge
        else if e = ReaderRecordTooLargeError then Some RecordTooLarge
        else if e = FeedMissingError then Some MissingFeed else None)"

definition tracker_scanned :: "coverage_tracker \<Rightarrow> coverage_tracker" where
  "tracker_scanned t = t\<lparr> ct_scanned := ct_scanned t + 1 \<rparr>"

definition tracker_unavailable :: "availability_failure \<Rightarrow> coverage_tracker \<Rightarrow> coverage_tracker" where
  "tracker_unavailable failure t =
     t\<lparr> ct_unavailable := ct_unavailable t + 1,
        ct_items := (if length (ct_items t) < MAX_FEED_AVAILABILITY_DETAILS then ct_items t @ [failure] else ct_items t) \<rparr>"

section \<open>The turns of a project\<close>

record context_read =
  cx_turns :: "jsval list"
  cx_malformed :: nat
  cx_invalid :: nat
  cx_partialFiles :: nat
  cx_scanLimitedFiles :: nat
  cx_windowLimitedFiles :: nat
  cx_availability :: coverage_tracker

definition empty_context :: context_read where
  "empty_context = \<lparr> cx_turns = [], cx_malformed = 0, cx_invalid = 0, cx_partialFiles = 0, cx_scanLimitedFiles = 0,
     cx_windowLimitedFiles = 0, cx_availability = \<lparr> ct_scanned = 0, ct_unavailable = 0, ct_items = [] \<rparr> \<rparr>"

definition add_feed :: "feed_read \<Rightarrow> context_read \<Rightarrow> context_read" where
  "add_feed r c =
     \<lparr> cx_turns = cx_turns c @ fr_turns r, cx_malformed = cx_malformed c + fr_malformed r,
       cx_invalid = cx_invalid c + fr_invalid r,
       cx_partialFiles = cx_partialFiles c + of_bool (fr_partial r),
       cx_scanLimitedFiles = cx_scanLimitedFiles c + of_bool (fr_scanLimited r),
       cx_windowLimitedFiles = cx_windowLimitedFiles c + of_bool (fr_windowLimited r),
       cx_availability = tracker_scanned (cx_availability c) \<rparr>"

text \<open>\<open>result f\<close> is what the read of the feed gives.\<close>

fun collect_feeds :: "(jsonl_file \<Rightarrow> feed_read result) \<Rightarrow> jsonl_file list \<Rightarrow> context_read \<Rightarrow> context_read result" where
  "collect_feeds result [] c = Inr c"
| "collect_feeds result (f # fs) c =
     (case result f of
        Inl e \<Rightarrow>
          (case feedAvailabilityFailure f e of
             None \<Rightarrow> Inl e
           | Some failure \<Rightarrow>
               collect_feeds result fs (c\<lparr> cx_availability := tracker_unavailable failure (cx_availability c) \<rparr>))
      | Inr r \<Rightarrow> collect_feeds result fs (add_feed r c))"

text \<open>\<open>compareTurnsNewestFirst\<close> as a key: later ends first, then provider, session, later sequence, turn.\<close>

definition turn_millis :: "jsval \<Rightarrow> int" where
  "turn_millis v = (case text_at v ''ended_at'' of None \<Rightarrow> 0
     | Some s \<Rightarrow> (case date_parse s of None \<Rightarrow> 0 | Some t \<Rightarrow> t))"

definition turn_sequence :: "jsval \<Rightarrow> int" where
  "turn_sequence v = (case as_object v of None \<Rightarrow> 0
     | Some ps \<Rightarrow> (case as_safe_int (jget ps ''sequence'') of None \<Rightarrow> 0 | Some n \<Rightarrow> n))"

definition turn_text :: "jsval \<Rightarrow> string \<Rightarrow> jstr" where
  "turn_text v key = (case text_at v key of None \<Rightarrow> [] | Some s \<Rightarrow> s)"

definition turn_order :: "jsval \<Rightarrow> int \<times> jstr \<times> jstr \<times> int \<times> jstr" where
  "turn_order v = (- turn_millis v, turn_text v ''provider'', turn_text v ''session_id'', - turn_sequence v,
     turn_text v ''turn_id'')"

datatype history_reason = HistoryWindow | ScanLimit | PartialFeed | InvalidRecords | UnavailableFeed

definition history_reasons :: "context_read \<Rightarrow> history_reason list" where
  "history_reasons c =
     (if cx_windowLimitedFiles c > 0 then [HistoryWindow] else []) @
     (if cx_scanLimitedFiles c > 0 then [ScanLimit] else []) @
     (if cx_partialFiles c > 0 then [PartialFeed] else []) @
     (if cx_malformed c + cx_invalid c > 0 then [InvalidRecords] else []) @
     (if ct_unavailable (cx_availability c) > 0 then [UnavailableFeed] else [])"

record context_options =
  co_turnsPerSession :: "int option"
  co_workstreamId :: "jstr option"
  co_bounds :: reader_bounds

text \<open>The part of \<open>readProjectContextSnapshot\<close> that reads the feeds.\<close>

definition readFeedTurns ::
  "jsonl_parser \<Rightarrow> (jstr list \<Rightarrow> bool result) \<Rightarrow> listing \<Rightarrow> (jstr list \<Rightarrow> disk_file option) \<Rightarrow> context_options \<Rightarrow>
   (context_read \<times> history_reason list) result" where
  "readFeedTurns parse verify readdir disk opts =
     (case assertReaderPositiveInteger (or_default 5 (co_turnsPerSession opts)) of Inl e \<Rightarrow> Inl e
      | Inr n \<Rightarrow>
     (case fileLimits (co_bounds opts) of Inl e \<Rightarrow> Inl e
      | Inr limits \<Rightarrow>
          if (case co_workstreamId opts of None \<Rightarrow> False | Some w \<Rightarrow> \<not> workstream_id_pattern w) then Inl TypeError
          else case listCanonicalJsonlFiles verify readdir (js ''feed'') of Inl e \<Rightarrow> Inl e
          | Inr files \<Rightarrow>
              (case collect_feeds (\<lambda>f. readNewestFeedTurns parse (verify (butlast (ff_components f)))
                      (disk (ff_components f)) f n limits (co_workstreamId opts)) files empty_context of
                 Inl e \<Rightarrow> Inl e
               | Inr c \<Rightarrow> Inr (c\<lparr> cx_turns := sort_key turn_order (cx_turns c) \<rparr>, history_reasons c))))"

end
