(* ===== verification/Reader_Laws.thy ===== *)
theory Reader_Laws
  imports Reader_Feeds
begin

text \<open>
  What the reader of the feeds finds: the complete lines of the part it looks at are complete lines
  of the file, and the turns it gives are the newest of them, whatever else is in the file.
\<close>

section \<open>Lines\<close>

lemma split_no_LF: "0x0A \<notin> set bs \<Longrightarrow> splitCompleteLines bs = []"
proof -
  assume "0x0A \<notin> set bs"
  then have "dropWhile (\<lambda>b. b \<noteq> 0x0A) bs = []" by (auto simp: dropWhile_eq_Nil_conv)
  then show ?thesis by (simp only: splitCompleteLines.simps [of bs] list.case)
qed

definition line_of :: "byte list \<Rightarrow> byte list list" where
  "line_of s = (if content_bytes s = [] then [] else [content_bytes s])"

lemma split_step:
  assumes "0x0A \<notin> set s"
  shows "splitCompleteLines (s @ 0x0A # r) = line_of s @ splitCompleteLines r"
proof -
  have "dropWhile (\<lambda>b. b \<noteq> 0x0A) (s @ 0x0A # r) = 0x0A # r"
    using assms by (subst dropWhile_append2) auto
  moreover have "takeWhile (\<lambda>b. b \<noteq> 0x0A) (s @ 0x0A # r) = s"
    using assms by (subst takeWhile_append2) auto
  ultimately show ?thesis by (subst splitCompleteLines.simps) (simp add: Let_def line_of_def)
qed

lemma split_LF: "splitCompleteLines (a @ 0x0A # b) = splitCompleteLines (a @ [0x0A]) @ splitCompleteLines b"
proof (induction "length a" arbitrary: a rule: less_induct)
  case less
  show ?case
  proof (cases "0x0A \<in> set a")
    case True
    then obtain s r where a: "a = s @ 0x0A # r" "0x0A \<notin> set s" by (meson split_list_first)
    with less [of r] split_step [OF a(2)] show ?thesis by simp
  next
    case False
    then show ?thesis using split_step [OF False] split_no_LF [of "[]"] by simp
  qed
qed

lemma split_tail: "0x0A \<notin> set t \<Longrightarrow> splitCompleteLines (a @ t) = splitCompleteLines a"
proof (induction "length a" arbitrary: a rule: less_induct)
  case less
  show ?case
  proof (cases "0x0A \<in> set a")
    case True
    then obtain s r where a: "a = s @ 0x0A # r" "0x0A \<notin> set s" by (meson split_list_first)
    with less split_step [OF a(2)] show ?thesis by simp
  qed (use less.prems in \<open>simp add: split_no_LF\<close>)
qed

lemma first_LF_None: "first_LF bs = None \<longleftrightarrow> 0x0A \<notin> set bs"
  by (induction bs) auto

lemma first_LF_Some: "first_LF bs = Some i \<Longrightarrow> i < length bs \<and> bs ! i = 0x0A"
  by (induction bs arbitrary: i) (auto split: if_splits)

lemma cut_after_last:
  assumes "last_newline bs = Some i" "start \<le> i + 1"
  shows "splitCompleteLines (drop start (take (i + 1) bs)) = splitCompleteLines (drop start bs)"
proof -
  have "drop start bs = drop start (take (i + 1) bs) @ drop (i + 1) bs"
    using assms last_newline_Some [OF assms(1)] by (metis append_take_drop_id drop_append length_take min.absorb2
        diff_is_0_eq drop0 Suc_leI Suc_eq_plus1)
  with split_tail [of "drop (i + 1) bs" "drop start (take (i + 1) bs)"] last_newline_Some [OF assms(1)]
  show ?thesis by simp
qed

lemma completeJsonlLines_all: "completeJsonlLines bytes = splitCompleteLines bytes"
  using cut_after_last [of bytes _ 0]
  by (auto simp: completeJsonlLines_def split_no_LF last_newline_None split: option.split)

lemma suffix_lines_start:
  "completeSuffixJsonlLines s mid partial =
     (case (if mid then map_option Suc (first_LF s) else Some 0) of
        None \<Rightarrow> [] | Some start \<Rightarrow> splitCompleteLines (drop start s))"
proof (cases "if mid then map_option Suc (first_LF s) else Some 0")
  case (Some start)
  have "splitCompleteLines (drop start s) = []" if "last_newline s = None"
    using that by (intro split_no_LF) (auto simp: last_newline_None dest: in_set_dropD)
  moreover have "splitCompleteLines (drop start s) = []" if "last_newline s = Some i" "i < start" for i
  proof (rule split_no_LF)
    have "set (drop start s) \<subseteq> set (drop (Suc i) s)" using that(2) by (intro set_drop_subset_set_drop) simp
    then show "0x0A \<notin> set (drop start s)" using last_newline_Some [OF that(1)] by blast
  qed
  ultimately show ?thesis
    using Some cut_after_last [of s _ start]
    by (auto simp: completeSuffixJsonlLines_def split: option.split)
qed (simp add: completeSuffixJsonlLines_def)

lemma suffix_lines:
  "\<exists>older. splitCompleteLines bytes = older @ completeSuffixJsonlLines (drop k bytes) (k > 0) partial \<and>
     (k = 0 \<longrightarrow> older = [])"
proof (cases "k = 0")
  case True
  then show ?thesis by (simp add: suffix_lines_start)
next
  case False
  show ?thesis
  proof (cases "first_LF (drop k bytes)")
    case None
    then show ?thesis using False by (simp add: suffix_lines_start)
  next
    case (Some i)
    then have i: "i < length (drop k bytes)" "drop k bytes ! i = 0x0A" using first_LF_Some by blast+
    have "bytes = take k bytes @ take i (drop k bytes) @ 0x0A # drop (Suc i) (drop k bytes)"
      using id_take_nth_drop [OF i(1)] i(2) by (metis append_take_drop_id)
    then have "splitCompleteLines bytes =
        splitCompleteLines ((take k bytes @ take i (drop k bytes)) @ [0x0A]) @ splitCompleteLines (drop (Suc i) (drop k bytes))"
      using split_LF by (metis append_assoc)
    then show ?thesis using False Some by (simp add: suffix_lines_start)
  qed
qed

section \<open>The newest turns\<close>

definition in_scope :: "jstr option \<Rightarrow> jsval \<Rightarrow> bool" where
  "in_scope scope v \<longleftrightarrow> scope = None \<or> text_at v ''workstream_id'' = scope"

text \<open>The turn a line holds, for a file and a scope.\<close>

definition turn_on :: "jsonl_parser \<Rightarrow> jsonl_file \<Rightarrow> jstr option \<Rightarrow> byte list \<Rightarrow> jsval option" where
  "turn_on parse f scope l =
     (case parse_line parse l of None \<Rightarrow> None
      | Some v \<Rightarrow> if isTurnV1 v = Inr True \<and> of_file (ff_provider f) (ff_sessionId f) v \<and> in_scope scope v
          then Some v else None)"

definition turns_on :: "jsonl_parser \<Rightarrow> jsonl_file \<Rightarrow> jstr option \<Rightarrow> byte list list \<Rightarrow> jsval list" where
  "turns_on parse f scope ls = List.map_filter (turn_on parse f scope) ls"

lemma turns_on_simps [simp]:
  "turns_on parse f scope [] = []"
  "turns_on parse f scope (l # ls) =
     (case turn_on parse f scope l of None \<Rightarrow> turns_on parse f scope ls | Some v \<Rightarrow> v # turns_on parse f scope ls)"
  by (simp_all add: turns_on_def List.map_filter_simps split: option.split)

lemma newest_loop_turns:
  assumes "newest_loop parse f (int n) limits scope ls r = Inr r'" "length (fr_turns r) \<le> n"
  shows "fr_turns r' = take n (fr_turns r @ turns_on parse f scope ls) \<and>
    (fr_windowLimited r' \<longleftrightarrow> fr_windowLimited r \<or> n < length (fr_turns r @ turns_on parse f scope ls)) \<and>
    fr_scanLimited r' = fr_scanLimited r \<and> fr_partial r' = fr_partial r"
  using assms
proof (induction ls arbitrary: r)
  case Nil
  then show ?case by auto
next
  case (Cons l ls)
  show ?case
  proof (cases "parse_line parse l")
    case None
    with Cons.prems Cons.IH [of "r\<lparr> fr_malformed := fr_malformed r + 1 \<rparr>"] show ?thesis
      by (simp add: turn_on_def split: if_splits)
  next
    case (Some v)
    with Cons.prems(1) obtain valid where valid: "isTurnV1 v = Inr valid" by (auto split: if_splits sum.splits)
    show ?thesis
    proof (cases "valid \<and> of_file (ff_provider f) (ff_sessionId f) v")
      case False
      with Cons.prems Cons.IH [of "r\<lparr> fr_invalid := fr_invalid r + 1 \<rparr>"] Some valid show ?thesis
        by (auto simp: turn_on_def split: if_splits)
    next
      case True
      show ?thesis
      proof (cases "in_scope scope v")
        case False
        with True Cons.prems Cons.IH [of r] Some valid show ?thesis
          by (auto simp: turn_on_def in_scope_def split: if_splits)
      next
        case scope: True
        with True Some valid have t: "turn_on parse f scope l = Some v" by (simp add: turn_on_def)
        show ?thesis
        proof (cases "length (fr_turns r) = n")
          case full: True
          with Cons.prems(1) True scope Some valid have "r' = r\<lparr> fr_windowLimited := True \<rparr>"
            by (auto simp: in_scope_def split: if_splits)
          with full t show ?thesis by simp
        next
          case False
          with Cons.prems True scope Some valid
          have "newest_loop parse f (int n) limits scope ls (r\<lparr> fr_turns := fr_turns r @ [v] \<rparr>) = Inr r'"
            by (auto simp: in_scope_def split: if_splits)
          from Cons.IH [OF this] False Cons.prems(2) t show ?thesis by simp
        qed
      qed
    qed
  qed
qed

lemma scan_start: "0 < n - nat (min (int n) m) \<longleftrightarrow> m < int n \<and> n \<noteq> 0"
  by (cases "m < int n") auto

lemma opened_file: "openSafeRegularFile parent disk m = Inr (Some d) \<Longrightarrow> disk = Some d"
  by (cases disk) (auto simp: openSafeRegularFile_def split: sum.splits if_splits bool.splits)

lemma newest_opens:
  assumes "readNewestFeedTurns parse parent disk f n limits scope = Inr r"
  shows "\<exists>d. openSafeRegularFile parent disk (rl_maxFileBytes limits) = Inr (Some d)"
proof (cases "openSafeRegularFile parent disk (rl_maxFileBytes limits)")
  case (Inr o')
  with assms show ?thesis by (cases o') (simp_all add: readNewestFeedTurns_def)
qed (use assms in \<open>simp add: readNewestFeedTurns_def\<close>)

lemma past_guards: "(if P then Inl e else if Q then Inl e' else x) = Inr r \<Longrightarrow> x = Inr r"
  by (auto split: if_splits)

lemma newest_scans:
  assumes "readNewestFeedTurns parse parent disk f n limits scope = Inr r"
    and d: "openSafeRegularFile parent disk (rl_maxFileBytes limits) = Inr (Some d)"
    and start: "start = length (f_bytes d) - nat (min (int (length (f_bytes d))) (rl_maxScanBytes limits))"
  shows "newest_loop parse f n limits scope
      (rev (completeSuffixJsonlLines (drop start (f_bytes d)) (start > 0) (ends_partial (drop start (f_bytes d)))))
      \<lparr> fr_turns = [], fr_malformed = 0, fr_invalid = 0, fr_partial = ends_partial (drop start (f_bytes d)),
        fr_scanLimited = (start > 0), fr_windowLimited = False \<rparr> = Inr r"
  using assms(1) unfolding readNewestFeedTurns_def d Let_def start [symmetric] sum.case option.case
  by (rule past_guards)

lemma newest_turns:
  assumes "readNewestFeedTurns parse parent disk f (int n) limits scope = Inr r"
  shows "\<exists>d lines older. disk = Some d \<and> splitCompleteLines (f_bytes d) = older @ lines \<and>
    (\<not> fr_scanLimited r \<longrightarrow> older = []) \<and>
    (fr_scanLimited r \<longleftrightarrow> rl_maxScanBytes limits < int (length (f_bytes d)) \<and> f_bytes d \<noteq> []) \<and>
    fr_turns r = take n (turns_on parse f scope (rev lines)) \<and>
    (fr_windowLimited r \<longleftrightarrow> n < length (turns_on parse f scope (rev lines)))"
proof -
  obtain d where d: "openSafeRegularFile parent disk (rl_maxFileBytes limits) = Inr (Some d)"
    using newest_opens [OF assms] by blast
  define start where "start = length (f_bytes d) - nat (min (int (length (f_bytes d))) (rl_maxScanBytes limits))"
  define partial where "partial = ends_partial (drop start (f_bytes d))"
  define lines where "lines = completeSuffixJsonlLines (drop start (f_bytes d)) (start > 0) partial"
  have "newest_loop parse f (int n) limits scope (rev lines)
      \<lparr> fr_turns = [], fr_malformed = 0, fr_invalid = 0, fr_partial = partial,
        fr_scanLimited = (start > 0), fr_windowLimited = False \<rparr> = Inr r"
    unfolding lines_def partial_def by (rule newest_scans [OF assms d start_def])
  from newest_loop_turns [OF this] have loop:
    "fr_turns r = take n (turns_on parse f scope (rev lines))"
    "fr_windowLimited r \<longleftrightarrow> n < length (turns_on parse f scope (rev lines))"
    "fr_scanLimited r \<longleftrightarrow> start > 0" by simp_all
  from suffix_lines [of "f_bytes d" start partial] obtain older
    where o: "splitCompleteLines (f_bytes d) = older @ lines" "start = 0 \<longrightarrow> older = []"
    unfolding lines_def by blast
  have "start > 0 \<longleftrightarrow> rl_maxScanBytes limits < int (length (f_bytes d)) \<and> f_bytes d \<noteq> []"
    unfolding start_def scan_start by simp
  with loop(3) have "fr_scanLimited r \<longleftrightarrow> rl_maxScanBytes limits < int (length (f_bytes d)) \<and> f_bytes d \<noteq> []"
    by blast
  moreover have "\<not> fr_scanLimited r \<longrightarrow> older = []" using loop(3) o(2) by blast
  ultimately show ?thesis using loop(1,2) o(1) opened_file [OF d] by blast
qed

text \<open>C20: A read of a feed that returns gives the newest turns of the file in the scope, at most as
  many as asked for and the newest first: those on the complete lines of the part it looks at, which
  is the end of the file, and all of it unless it says that the scan was limited; and it says
  exactly when there were more.\<close>

theorem newest_turns_exact:
  assumes "readNewestFeedTurns parse parent disk f (int n) limits scope = Inr r"
  shows "\<exists>d lines older. disk = Some d \<and> splitCompleteLines (f_bytes d) = older @ lines \<and>
    (\<not> fr_scanLimited r \<longrightarrow> older = []) \<and>
    (fr_scanLimited r \<longleftrightarrow> rl_maxScanBytes limits < int (length (f_bytes d)) \<and> f_bytes d \<noteq> []) \<and>
    fr_turns r = take n (turns_on parse f scope (rev lines)) \<and>
    (fr_windowLimited r \<longleftrightarrow> n < length (turns_on parse f scope (rev lines)))"
  using assms by (rule newest_turns)

section \<open>Evidence\<close>

text \<open>The valid evidence records with an identifier, in the order of the lines.\<close>

definition evidence_on :: "jsonl_parser \<Rightarrow> jstr \<Rightarrow> byte list list \<Rightarrow> jsval list" where
  "evidence_on parse evidenceId ls =
     filter (\<lambda>v. isEvidenceV1 v = Inr True \<and> text_at v ''evidence_id'' = Some evidenceId)
       (List.map_filter (parse_line parse) ls)"

lemma evidence_on_simps [simp]:
  "evidence_on parse i [] = []"
  "evidence_on parse i (l # ls) =
     (case parse_line parse l of None \<Rightarrow> evidence_on parse i ls
      | Some v \<Rightarrow> if isEvidenceV1 v = Inr True \<and> text_at v ''evidence_id'' = Some i
          then v # evidence_on parse i ls else evidence_on parse i ls)"
  by (simp_all add: evidence_on_def List.map_filter_simps split: option.split)

text \<open>What was found before the lines \<open>ls\<close>, with its text, is consistent with what is found there.\<close>

lemma evidence_loop_finds:
  assumes "evidence_loop parse provider session i limits ls found = Inr res"
  shows "(\<forall>v\<in>set (evidence_on parse i ls). of_file provider session v \<and>
      (\<exists>c. map_option snd res = Some c \<and> stableStringify v = Inr c)) \<and>
    map_option fst res = (if evidence_on parse i ls = [] then map_option fst found else Some (last (evidence_on parse i ls))) \<and>
    (found \<noteq> None \<longrightarrow> map_option snd res = map_option snd found)"
  using assms
proof (induction ls arbitrary: found)
  case Nil
  then show ?case by simp
next
  case (Cons l ls)
  show ?case
  proof (cases "parse_line parse l")
    case None
    with Cons.prems have "evidence_loop parse provider session i limits ls found = Inr res" by (simp split: if_splits)
    from Cons.IH [OF this] None show ?thesis by simp
  next
    case (Some v)
    with Cons.prems obtain valid where valid: "isEvidenceV1 v = Inr valid" by (auto split: if_splits sum.splits)
    show ?thesis
    proof (cases "valid \<and> text_at v ''evidence_id'' = Some i")
      case False
      with Cons.prems Some valid have "evidence_loop parse provider session i limits ls found = Inr res"
        by (auto split: if_splits)
      from Cons.IH [OF this] False Some valid show ?thesis by auto
    next
      case True
      with Cons.prems Some valid obtain c where c: "stableStringify v = Inr c" "of_file provider session v"
          "found \<noteq> None \<longrightarrow> map_option snd found = Some c"
          "evidence_loop parse provider session i limits ls (Some (v, c)) = Inr res"
        by (auto split: if_splits sum.splits option.splits)
      have step: "evidence_on parse i (l # ls) = v # evidence_on parse i ls" using Some True valid by simp
      from Cons.IH [OF c(4)] c step show ?thesis
        by (cases "evidence_on parse i ls = []") auto
    qed
  qed
qed

lemma evidence_opened:
  assumes "readProjectEvidence parse parent disk req = Inr v"
  shows "\<exists>d limits c. disk = Some d \<and>
    evidence_loop parse (er_provider req) (er_sessionId req) (er_evidenceId req) limits
      (completeJsonlLines (f_bytes d)) None = Inr (Some (v, c)) \<and>
    (er_workstreamId req \<noteq> None \<longrightarrow> text_at v ''workstream_id'' = er_workstreamId req)"
  using assms opened_file
  by (fastforce simp: readProjectEvidence_def split: if_splits sum.splits option.splits)

text \<open>C21: Evidence that is returned is on a complete line of its file: it is the last valid record with
  the identifier, it is in the workstream asked for, and every record with the identifier belongs to
  the provider and session asked for and has the same canonical text.\<close>

theorem evidence_exact:
  assumes "readProjectEvidence parse parent disk req = Inr v"
  shows "\<exists>d vs. disk = Some d \<and> vs = evidence_on parse (er_evidenceId req) (splitCompleteLines (f_bytes d)) \<and>
    vs \<noteq> [] \<and> v = last vs \<and>
    (er_workstreamId req \<noteq> None \<longrightarrow> text_at v ''workstream_id'' = er_workstreamId req) \<and>
    (\<forall>w\<in>set vs. of_file (er_provider req) (er_sessionId req) w \<and>
      (\<exists>c. stableStringify w = Inr c \<and> stableStringify v = Inr c))"
proof -
  from evidence_opened [OF assms] obtain d limits c where d: "disk = Some d"
    "evidence_loop parse (er_provider req) (er_sessionId req) (er_evidenceId req) limits
      (splitCompleteLines (f_bytes d)) None = Inr (Some (v, c))"
    "er_workstreamId req \<noteq> None \<longrightarrow> text_at v ''workstream_id'' = er_workstreamId req"
    by (auto simp: completeJsonlLines_all)
  let ?vs = "evidence_on parse (er_evidenceId req) (splitCompleteLines (f_bytes d))"
  from evidence_loop_finds [OF d(2)]
  have "?vs \<noteq> []" "v = last ?vs" "\<forall>w\<in>set ?vs. of_file (er_provider req) (er_sessionId req) w \<and> stableStringify w = Inr c"
    by (auto split: if_splits)
  then show ?thesis using d(1,3) last_in_set by (intro exI [of _ d] exI [of _ ?vs]) auto
qed

end
