(* ===== verification/Reader_Context.thy ===== *)
theory Reader_Context
  imports Reader_Laws "HOL-Library.Multiset"
begin

text \<open>
  The history of a project: when the reader gives no reason for a limited history, the turns are all
  those on the complete lines of the feeds; and one line whose guard throws makes every read fail.
\<close>

section \<open>What is collected\<close>

text \<open>The turns of a feed that could be read.\<close>

definition turns_read :: "feed_read result \<Rightarrow> jsval list" where
  "turns_read res = (case res of Inl _ \<Rightarrow> [] | Inr r \<Rightarrow> fr_turns r)"

definition problems :: "context_read \<Rightarrow> nat" where
  "problems c = cx_malformed c + cx_invalid c + cx_partialFiles c + cx_scanLimitedFiles c + cx_windowLimitedFiles c +
     ct_unavailable (cx_availability c)"

lemma collect_feeds_counts:
  assumes "collect_feeds result fs c = Inr c'"
  shows "cx_turns c' = cx_turns c @ concat (map (\<lambda>f. turns_read (result f)) fs) \<and>
    ct_scanned (cx_availability c') + ct_unavailable (cx_availability c') =
      ct_scanned (cx_availability c) + ct_unavailable (cx_availability c) + length fs \<and>
    problems c \<le> problems c'"
  using assms
proof (induction fs arbitrary: c)
  case (Cons f fs)
  show ?case
  proof (cases "result f")
    case (Inl e)
    with Cons.prems obtain failure where
      "collect_feeds result fs (c\<lparr> cx_availability := tracker_unavailable failure (cx_availability c) \<rparr>) = Inr c'"
      by (auto split: option.splits)
    from Cons.IH [OF this] Inl show ?thesis by (simp add: turns_read_def tracker_unavailable_def problems_def)
  next
    case (Inr r)
    with Cons.prems have "collect_feeds result fs (add_feed r c) = Inr c'" by simp
    from Cons.IH [OF this] Inr show ?thesis by (simp add: turns_read_def add_feed_def tracker_scanned_def problems_def)
  qed
qed simp

lemma collect_feeds_clean:
  assumes "collect_feeds result fs c = Inr c'" "problems c' = 0" "f \<in> set fs"
  shows "\<exists>r. result f = Inr r \<and> \<not> fr_partial r \<and> \<not> fr_scanLimited r \<and> \<not> fr_windowLimited r"
  using assms
proof (induction fs arbitrary: c)
  case (Cons g gs)
  show ?case
  proof (cases "result g")
    case (Inl e)
    with Cons.prems obtain failure where
      "collect_feeds result gs (c\<lparr> cx_availability := tracker_unavailable failure (cx_availability c) \<rparr>) = Inr c'"
      by (auto split: option.splits)
    with collect_feeds_counts [OF this] Cons.prems(2) show ?thesis by (simp add: tracker_unavailable_def problems_def)
  next
    case (Inr r)
    with Cons.prems have rest: "collect_feeds result gs (add_feed r c) = Inr c'" by simp
    with collect_feeds_counts [OF rest] Cons.prems(2) have "problems (add_feed r c) = 0" by simp
    then have "\<not> fr_partial r \<and> \<not> fr_scanLimited r \<and> \<not> fr_windowLimited r" by (auto simp: add_feed_def problems_def)
    with Inr Cons.IH [OF rest] Cons.prems(2,3) show ?thesis by auto
  qed
qed simp

lemma history_reasons_Nil: "history_reasons c = [] \<longleftrightarrow> problems c = 0"
  by (auto simp: history_reasons_def problems_def)

section \<open>The complete history\<close>

text \<open>The turns in the scope on the complete lines of a feed.\<close>

definition feed_turns :: "jsonl_parser \<Rightarrow> jstr option \<Rightarrow> (jstr list \<Rightarrow> disk_file option) \<Rightarrow> jsonl_file \<Rightarrow> jsval list" where
  "feed_turns parse scope disk f =
     (case disk (ff_components f) of None \<Rightarrow> [] | Some d \<Rightarrow> turns_on parse f scope (splitCompleteLines (f_bytes d)))"

lemma turns_on_rev: "turns_on parse f scope (rev ls) = rev (turns_on parse f scope ls)"
  by (simp add: turns_on_def List.map_filter_def rev_map [symmetric] rev_filter [symmetric])

lemma read_all:
  assumes "readNewestFeedTurns parse parent (disk (ff_components f)) f (int n) limits scope = Inr r"
    "\<not> fr_scanLimited r" "\<not> fr_windowLimited r"
  shows "fr_turns r = rev (feed_turns parse scope disk f)"
  using newest_turns [OF assms(1)] assms(2,3) by (auto simp: feed_turns_def turns_on_rev)

lemma readFeedTurns_collects:
  assumes "readFeedTurns parse verify readdir disk opts = Inr (c, reasons)"
  shows "\<exists>files n limits c'. listCanonicalJsonlFiles verify readdir (js ''feed'') = Inr files \<and>
    collect_feeds (\<lambda>f. readNewestFeedTurns parse (verify (butlast (ff_components f))) (disk (ff_components f)) f
      (int n) limits (co_workstreamId opts)) files empty_context = Inr c' \<and>
    c = c'\<lparr> cx_turns := sort_key turn_order (cx_turns c') \<rparr> \<and> history_reasons c' = reasons"
proof -
  obtain m where m: "assertReaderPositiveInteger (or_default 5 (co_turnsPerSession opts)) = Inr m"
    using assms by (cases "assertReaderPositiveInteger (or_default 5 (co_turnsPerSession opts))")
      (simp_all add: readFeedTurns_def)
  obtain limits where l: "fileLimits (co_bounds opts) = Inr limits"
    using assms m by (cases "fileLimits (co_bounds opts)") (simp_all add: readFeedTurns_def)
  obtain files where fs: "listCanonicalJsonlFiles verify readdir (js ''feed'') = Inr files"
    using assms m l by (cases "listCanonicalJsonlFiles verify readdir (js ''feed'')")
      (simp_all add: readFeedTurns_def split: if_splits)
  let ?collect = "collect_feeds (\<lambda>f. readNewestFeedTurns parse (verify (butlast (ff_components f)))
    (disk (ff_components f)) f m limits (co_workstreamId opts)) files empty_context"
  obtain c' where c': "?collect = Inr c'"
    using assms m l fs by (cases ?collect) (simp_all add: readFeedTurns_def split: if_splits)
  have "m = int (nat m)" using m by (simp add: assertReaderPositiveInteger_def safe_pos_def split: if_splits)
  with c' have "collect_feeds (\<lambda>f. readNewestFeedTurns parse (verify (butlast (ff_components f)))
    (disk (ff_components f)) f (int (nat m)) limits (co_workstreamId opts)) files empty_context = Inr c'" by simp
  moreover have "c = c'\<lparr> cx_turns := sort_key turn_order (cx_turns c') \<rparr>" "history_reasons c' = reasons"
    using assms m l fs c' by (simp_all add: readFeedTurns_def split: if_splits)
  ultimately show ?thesis using fs by blast
qed

text \<open>C19: A history that is given without a reason for being limited is complete: every feed that is
  listed exists and was read, and the turns are all those in the scope on the complete lines of the
  feeds, each as often as it is there, the newest first.\<close>

theorem complete_history:
  assumes "readFeedTurns parse verify readdir disk opts = Inr (c, [])"
  shows "\<exists>files. listCanonicalJsonlFiles verify readdir (js ''feed'') = Inr files \<and>
    (\<forall>f\<in>set files. disk (ff_components f) \<noteq> None) \<and>
    ct_scanned (cx_availability c) = length files \<and>
    mset (cx_turns c) = (\<Sum>f\<leftarrow>files. mset (feed_turns parse (co_workstreamId opts) disk f)) \<and>
    sorted (map turn_order (cx_turns c))"
proof -
  from readFeedTurns_collects [OF assms] obtain files n limits c' where
    files: "listCanonicalJsonlFiles verify readdir (js ''feed'') = Inr files" and
    run: "collect_feeds (\<lambda>f. readNewestFeedTurns parse (verify (butlast (ff_components f))) (disk (ff_components f)) f
      (int n) limits (co_workstreamId opts)) files empty_context = Inr c'" and
    c: "c = c'\<lparr> cx_turns := sort_key turn_order (cx_turns c') \<rparr>" and "history_reasons c' = []"
    by blast
  then have clean: "problems c' = 0" by (simp add: history_reasons_Nil)
  let ?read = "\<lambda>f. readNewestFeedTurns parse (verify (butlast (ff_components f))) (disk (ff_components f)) f
      (int n) limits (co_workstreamId opts)"
  have each: "disk (ff_components f) \<noteq> None \<and>
      turns_read (?read f) = rev (feed_turns parse (co_workstreamId opts) disk f)" if f: "f \<in> set files" for f
  proof -
    from collect_feeds_clean [OF run clean f] obtain r where
      r: "?read f = Inr r" "\<not> fr_scanLimited r" "\<not> fr_windowLimited r" by blast
    with newest_turns [OF r(1)] read_all [where disk = disk, OF r] show ?thesis by (auto simp: turns_read_def)
  qed
  have "cx_turns c' = concat (map (\<lambda>f. rev (feed_turns parse (co_workstreamId opts) disk f)) files)"
    using collect_feeds_counts [OF run] each by (simp add: empty_context_def cong: map_cong)
  then have "mset (cx_turns c') = (\<Sum>f\<leftarrow>files. mset (feed_turns parse (co_workstreamId opts) disk f))"
    by (simp add: mset_concat comp_def)
  moreover have "ct_scanned (cx_availability c') = length files"
    using collect_feeds_counts [OF run] clean by (simp add: empty_context_def problems_def)
  ultimately show ?thesis using files each c by auto
qed

section \<open>A line that throws\<close>

lemma all_of_True: "all_of cs = Inr True \<longleftrightarrow> (\<forall>c\<in>set cs. c = Inr True)"
  by (induction cs) (auto split: sum.splits)

text \<open>A turn whose outcome is an object with a property \<open>toString\<close>.\<close>

definition spoilt :: "(jstr \<times> jsval) list \<Rightarrow> (jstr \<times> jsval) list" where
  "spoilt ps = map (\<lambda>(k, w). (k, if k = js ''outcome'' then JObj [(js ''toString'', JNull)] else w)) ps"

lemma map_of_spoilt:
  "map_of (spoilt ps) k = map_option (\<lambda>w. if k = js ''outcome'' then JObj [(js ''toString'', JNull)] else w) (map_of ps k)"
  unfolding spoilt_def by (induction ps) auto

lemma isTurnV1_spoilt:
  assumes "isTurnV1 (JObj ps) = Inr True"
  shows "isTurnV1 (JObj (spoilt ps)) = Inl TypeError"
proof -
  have other: "jget (spoilt ps) k = jget ps k" if "js k \<noteq> js ''outcome''" for k
    using that by (cases "map_of ps (js k)") (simp_all add: jget_def map_of_spoilt)
  from assms have outcome: "isTurnOutcome (jget ps ''outcome'') = Inr True"
    by (simp add: isTurnV1_def all_of_True del: all_of.simps)
  then have "jget ps ''outcome'' \<noteq> JUndef" by (auto simp: isTurnOutcome_def named_one_of_def js_def)
  then have "jget (spoilt ps) ''outcome'' = JObj [(js ''toString'', JNull)]"
    by (cases "map_of ps (js ''outcome'')") (simp_all add: jget_def map_of_spoilt)
  then have "isTurnOutcome (jget (spoilt ps) ''outcome'') = Inl TypeError"
    by (simp add: isTurnOutcome_def named_one_of_def)
  moreover have "js ''schema'' \<noteq> js ''outcome''" "js ''turn_id'' \<noteq> js ''outcome''" "js ''provider'' \<noteq> js ''outcome''"
    "js ''session_id'' \<noteq> js ''outcome''" "js ''workstream_id'' \<noteq> js ''outcome''" "js ''sequence'' \<noteq> js ''outcome''"
    "js ''agent_id'' \<noteq> js ''outcome''" "js ''parent_turn_id'' \<noteq> js ''outcome''" "js ''started_at'' \<noteq> js ''outcome''"
    "js ''ended_at'' \<noteq> js ''outcome''" by (simp_all add: js_def)
  ultimately show ?thesis using assms [unfolded isTurnV1_def as_object.simps option.case all_of_True] by (simp add: isTurnV1_def other)
qed

lemma collect_feeds_throws:
  assumes "f \<in> set fs" "result f = Inl e" "feedAvailabilityFailure f e = None"
  shows "\<exists>e'. collect_feeds result fs c = Inl e'"
  using assms
proof (induction fs arbitrary: c)
  case (Cons g gs)
  then show ?case by (cases "g = f") (auto split: sum.split option.split)
qed simp

lemma newest_throws:
  assumes "f_regular d" "\<not> f_symlink d" "f_nlink d = 1"
    and size: "int (length (f_bytes d)) \<le> rl_maxFileBytes limits" "int (length (f_bytes d)) \<le> rl_maxScanBytes limits"
    and lines: "splitCompleteLines (f_bytes d) = ls @ [l]" "int (length l) \<le> rl_maxRecordBytes limits" "last (f_bytes d) = 0x0A"
    and turn: "parse_line parse l = Some v" "isTurnV1 v = Inl e"
  shows "readNewestFeedTurns parse (Inr True) (Some d) f n limits scope = Inl e"
proof -
  have "openSafeRegularFile (Inr True) (Some d) (rl_maxFileBytes limits) = Inr (Some d)"
    using assms(1-4) by (simp add: openSafeRegularFile_def)
  moreover have "length (f_bytes d) - nat (min (int (length (f_bytes d))) (rl_maxScanBytes limits)) = 0"
    using size(2) by (simp add: min_def)
  moreover have "\<not> ends_partial (f_bytes d)" using lines(3) by (simp add: ends_partial_def)
  moreover have "completeSuffixJsonlLines (f_bytes d) False False = ls @ [l]"
    using lines(1) by (simp add: suffix_lines_start)
  moreover have "newest_loop parse f n limits scope (l # rev ls) r = Inl e" for r
    using lines(2) turn by simp
  ultimately show ?thesis by (simp add: readNewestFeedTurns_def)
qed

text \<open>C22: One line can make reads of the history fail.  Whatever is in the other feeds, and whatever the
  limits of the reader are, the read throws when some feed ends with a line that is a valid turn but for
  an outcome that is an object with a property \<open>toString\<close>, provided the feed is listed, is a regular
  file of its own in a verified directory, and fits into the limits on files and on what is scanned of
  one, and the line into that on records.  (The lines of a feed are read from its end, so that the line
  is the first one looked at.)  It is not counted as an invalid record.
\<close>

theorem spoilt_feed:
  assumes "isTurnV1 (JObj ps) = Inr True" "parse_line parse l = Some (JObj (spoilt ps))"
    and "listCanonicalJsonlFiles verify readdir (js ''feed'') = Inr files" "f \<in> set files"
    and "verify (butlast (ff_components f)) = Inr True" "disk (ff_components f) = Some d"
    and "f_regular d \<and> \<not> f_symlink d \<and> f_nlink d = 1"
    and "fileLimits (co_bounds opts) = Inr limits"
    and "int (length (f_bytes d)) \<le> rl_maxFileBytes limits \<and> int (length (f_bytes d)) \<le> rl_maxScanBytes limits"
    and "splitCompleteLines (f_bytes d) = ls @ [l] \<and> int (length l) \<le> rl_maxRecordBytes limits \<and> last (f_bytes d) = 0x0A"
  shows "\<exists>e. readFeedTurns parse verify readdir disk opts = Inl e"
proof (cases "readFeedTurns parse verify readdir disk opts")
  case (Inr res)
  have fails: "readNewestFeedTurns parse (verify (butlast (ff_components f))) (disk (ff_components f)) f n limits scope
      = Inl TypeError" for n scope
    using assms isTurnV1_spoilt [OF assms(1)] by (simp add: newest_throws)
  have unavailable: "feedAvailabilityFailure f TypeError = None" by (simp add: feedAvailabilityFailure_def)
  have "collect_feeds (\<lambda>f. readNewestFeedTurns parse (verify (butlast (ff_components f)))
      (disk (ff_components f)) f n limits (co_workstreamId opts)) files empty_context \<noteq> Inr y" for n y
    using collect_feeds_throws [where c = empty_context and
        result = "\<lambda>f. readNewestFeedTurns parse (verify (butlast (ff_components f)))
          (disk (ff_components f)) f n limits (co_workstreamId opts)", OF assms(4) fails unavailable]
    by auto
  then have "\<exists>e. readFeedTurns parse verify readdir disk opts = Inl e"
    using assms(3,8) by (auto simp: readFeedTurns_def split: sum.split)
  with Inr show ?thesis by simp
qed simp

end
