(* ===== verification/Reader_Examples.thy ===== *)
theory Reader_Examples
  imports Reader_Context
begin

text \<open>A store with one feed of one turn, on which the theorems about the reader are applied.\<close>

definition example_turn :: "(jstr \<times> jsval) list" where
  "example_turn =
     [(js ''schema'', JStr (js ''barbaro.turn.v1'')),
      (js ''turn_id'', JStr (js ''turn_'' @ replicate 32 0x30)),
      (js ''provider'', JStr (js ''codex'')),
      (js ''session_id'', JStr (js ''ses_'' @ replicate 32 0x30)),
      (js ''sequence'', JNum (NInt 1)),
      (js ''agent_id'', JStr (js ''main'')),
      (js ''started_at'', JStr (to_iso 0)),
      (js ''ended_at'', JStr (to_iso 60000)),
      (js ''outcome'', JStr (js ''success'')),
      (js ''request'', JObj [(js ''text'', JStr (js ''hi'')), (js ''fidelity'', JStr (js ''verbatim'')),
        (js ''truncated'', JBool False), (js ''redactions'', JArr [])]),
      (js ''actions'', JArr []),
      (js ''subagents'', JObj [(js ''total'', JNum (NInt 0)), (js ''by_role'', JArr []), (js ''outcomes'', JObj []),
        (js ''changed_paths'', JArr []), (js ''evidence_refs'', JArr [])]),
      (js ''evidence_refs'', JArr []),
      (js ''source_refs'', JArr [])]"

definition example_disk :: disk_file where
  "example_disk = \<lparr> f_regular = True, f_symlink = False, f_dev = 1, f_ino = 1, f_birthtime = 0, f_mtime = 0,
     f_nlink = 1, f_bytes = [0x7B, 0x0A] \<rparr>"

definition example_listing :: listing where
  "example_listing d =
     (if d = [js ''feed''] then [(js ''codex'', DirectoryEntry)]
      else [(js ''ses_'' @ replicate 32 0x30 @ js ''.jsonl'', FileEntry)])"

definition example_feed :: jsonl_file where
  "example_feed = \<lparr> ff_provider = js ''codex'', ff_sessionId = js ''ses_'' @ replicate 32 0x30,
     ff_components = [js ''feed'', js ''codex'', js ''ses_'' @ replicate 32 0x30 @ js ''.jsonl''] \<rparr>"

definition default_bounds :: reader_bounds where
  "default_bounds = \<lparr> rb_maxFileBytes = None, rb_maxRecordBytes = None, rb_maxScanBytesPerFile = None \<rparr>"

lemma example_id: "id_pattern p n (js p @ replicate n 0x30)"
  by (simp add: id_pattern_def list_all_length is_hex_def is_digit_def)

lemma example_get:
  "jget example_turn ''schema'' = JStr (js ''barbaro.turn.v1'')"
  "jget example_turn ''turn_id'' = JStr (js ''turn_'' @ replicate 32 0x30)"
  "jget example_turn ''provider'' = JStr (js ''codex'')"
  "jget example_turn ''session_id'' = JStr (js ''ses_'' @ replicate 32 0x30)"
  "jget example_turn ''workstream_id'' = JUndef"
  "jget example_turn ''sequence'' = JNum (NInt 1)"
  "jget example_turn ''agent_id'' = JStr (js ''main'')"
  "jget example_turn ''parent_turn_id'' = JUndef"
  "jget example_turn ''started_at'' = JStr (to_iso 0)"
  "jget example_turn ''ended_at'' = JStr (to_iso 60000)"
  "jget example_turn ''outcome'' = JStr (js ''success'')"
  "jget example_turn ''response'' = JUndef"
  "jget example_turn ''actions'' = JArr []"
  "jget example_turn ''evidence_refs'' = JArr []"
  "jget example_turn ''source_refs'' = JArr []"
  by (simp_all add: example_turn_def jget_def)

lemma example_content: "isContent (jget example_turn ''request'') = Inr True"
  by (simp add: example_turn_def jget_def isContent_def named_one_of_def every_of_def every_def unless_undefined_def)

lemma example_subagents: "isSubagentRollup (jget example_turn ''subagents'')"
  by (simp add: example_turn_def jget_def isSubagentRollup_def isSafeNonNegativeInteger_def as_integer_def isPatternArray_def
      safe_int_def safe_nonneg_def max_safe_def)

lemma example_dates: "isDateTime (JStr (to_iso 0))" "isDateTime (JStr (to_iso 60000))"
  by (simp_all add: isDateTime_def date_parse_to_iso valid_time_def)

lemma example_turn_valid: "isTurnV1 (JObj example_turn) = Inr True"
  unfolding isTurnV1_def as_object.simps option.case all_of_True
  by (simp add: example_get example_content example_subagents example_dates isPattern_def as_pattern_def
      turn_id_pattern_def session_id_pattern_def example_id provider_pattern_def is_lower_def isSafePositiveInteger_def
      as_positive_def isNonEmptyString_def isTurnOutcome_def named_one_of_def every_of_def every_def isPatternArray_def
      unless_undefined_def safe_int_def safe_pos_def max_safe_def js_def [of "''codex''"])

lemma example_lines: "splitCompleteLines (f_bytes example_disk) = [[0x7B]]"
  using split_step [of "[0x7B]" "[]"]
  by (simp add: example_disk_def line_of_def content_bytes_def at_last_def split_no_LF)

lemma example_parses: "parse_line (\<lambda>_. Some v) [0x7B] = Some v"
proof -
  have "\<exists>t. fatalDecode [0x7B] = Inr t" by (simp add: fatalDecode_def)
  then show ?thesis by (auto simp: parse_line_def)
qed

lemma example_filename: "session_of_filename (js ''ses_'' @ replicate 32 0x30 @ js ''.jsonl'') = Some (js ''ses_'' @ replicate 32 0x30)"
  using example_id [of "''ses_''" 32] by (simp add: session_of_filename_def session_id_pattern_def)

lemma example_files:
  "listCanonicalJsonlFiles (\<lambda>_. Inr True) example_listing (js ''feed'') = Inr [example_feed]"
  by (simp add: listCanonicalJsonlFiles_def example_listing_def example_filename example_feed_def provider_pattern_def
      is_lower_def js_def [of "''codex''"])

definition example_limits :: reader_limits where
  "example_limits = \<lparr> rl_maxFileBytes = 64 * 1024 * 1024, rl_maxRecordBytes = 8 * 1024 * 1024,
     rl_maxScanBytes = 16 * 1024 * 1024 \<rparr>"

lemma example_newest:
  "readNewestFeedTurns (\<lambda>_. Some (JObj example_turn)) (Inr True) (Some example_disk) example_feed (int 5)
     example_limits None =
   Inr \<lparr> fr_turns = [JObj example_turn], fr_malformed = 0, fr_invalid = 0, fr_partial = False, fr_scanLimited = False,
     fr_windowLimited = False \<rparr>"
  using example_lines
  by (simp add: readNewestFeedTurns_def openSafeRegularFile_def example_disk_def ends_partial_def suffix_lines_start
      example_parses example_turn_valid of_file_def text_at_def example_get example_feed_def example_limits_def)

definition example_options :: context_options where
  "example_options = \<lparr> co_turnsPerSession = None, co_workstreamId = None, co_bounds = default_bounds \<rparr>"

lemma example_limits: "fileLimits default_bounds = Inr example_limits"
  by (simp add: fileLimits_def default_bounds_def example_limits_def assertReaderPositiveInteger_def safe_pos_def
      or_default_def safe_int_def max_safe_def)

lemma example_history:
  "\<exists>c. readFeedTurns (\<lambda>_. Some (JObj example_turn)) (\<lambda>_. Inr True) example_listing (\<lambda>_. Some example_disk) example_options
     = Inr (c, []) \<and> cx_turns c = [JObj example_turn]"
proof -
  show ?thesis
    using example_newest example_limits
    by (simp add: readFeedTurns_def example_options_def example_files assertReaderPositiveInteger_def safe_pos_def or_default_def
        safe_int_def max_safe_def empty_context_def add_feed_def tracker_scanned_def history_reasons_def)
qed

text \<open>An evidence record, and the request for it.\<close>

definition example_evidence :: "(jstr \<times> jsval) list" where
  "example_evidence =
     [(js ''schema'', JStr (js ''barbaro.evidence.v1'')),
      (js ''evidence_id'', JStr (js ''ev_'' @ replicate 32 0x30)),
      (js ''kind'', JStr (js ''prompt'')),
      (js ''turn_id'', JStr (js ''turn_'' @ replicate 32 0x30)),
      (js ''provider'', JStr (js ''codex'')),
      (js ''session_id'', JStr (js ''ses_'' @ replicate 32 0x30)),
      (js ''agent_id'', JStr (js ''main'')),
      (js ''occurred_at'', JStr (to_iso 0)),
      (js ''source_refs'', JArr []),
      (js ''content'', JObj [])]"

definition example_request :: evidence_request where
  "example_request = \<lparr> er_provider = js ''codex'', er_sessionId = js ''ses_'' @ replicate 32 0x30,
     er_evidenceId = js ''ev_'' @ replicate 32 0x30, er_workstreamId = None, er_bounds = default_bounds \<rparr>"

lemma example_evidence_valid: "isEvidenceV1 (JObj example_evidence) = Inr True"
  unfolding isEvidenceV1_def as_object.simps option.case all_of_True
  by (simp add: example_evidence_def jget_def example_dates isPattern_def as_pattern_def
      turn_id_pattern_def session_id_pattern_def evidence_id_pattern_def example_id provider_pattern_def is_lower_def
      isNonEmptyString_def named_one_of_def every_of_def every_def unless_undefined_def js_def [of "''codex''"])

lemma example_evidence_read:
  "readProjectEvidence (\<lambda>_. Some (JObj example_evidence)) (Inr True) (Some example_disk) example_request
     = Inr (JObj example_evidence)"
proof -
  have "serializable (JObj example_evidence)" by (simp add: example_evidence_def)
  then obtain c where "stableStringify (JObj example_evidence) = Inr c" by (simp add: stableStringify_canon)
  moreover have "text_at (JObj example_evidence) ''evidence_id'' = Some (js ''ev_'' @ replicate 32 0x30)"
    "of_file (js ''codex'') (js ''ses_'' @ replicate 32 0x30) (JObj example_evidence)"
    by (simp_all add: text_at_def of_file_def example_evidence_def jget_def)
  moreover have "provider_pattern (js ''codex'')" by (simp add: provider_pattern_def is_lower_def js_def)
  ultimately show ?thesis
    using example_lines example_evidence_valid
    by (simp add: readProjectEvidence_def example_request_def example_limits example_limits_def completeJsonlLines_all
        openSafeRegularFile_def example_disk_def example_parses session_id_pattern_def evidence_id_pattern_def example_id)
qed

section \<open>The theorems on this store\<close>

theorem newest_turns_exact_witness:
  "\<exists>r. readNewestFeedTurns (\<lambda>_. Some (JObj example_turn)) (Inr True) (Some example_disk) example_feed (int 5)
     example_limits None = Inr r \<and> \<not> fr_scanLimited r \<and> fr_turns r = [JObj example_turn] \<and>
    take 5 (turns_on (\<lambda>_. Some (JObj example_turn)) example_feed None [[0x7B]]) = [JObj example_turn]"
proof -
  from newest_turns_exact [OF example_newest] example_newest example_lines show ?thesis by auto
qed

theorem complete_history_witness:
  "\<exists>c. readFeedTurns (\<lambda>_. Some (JObj example_turn)) (\<lambda>_. Inr True) example_listing (\<lambda>_. Some example_disk) example_options
     = Inr (c, []) \<and> cx_turns c = [JObj example_turn] \<and> sorted (map turn_order (cx_turns c))"
  using example_history complete_history by metis

theorem evidence_exact_witness:
  "readProjectEvidence (\<lambda>_. Some (JObj example_evidence)) (Inr True) (Some example_disk) example_request
     = Inr (JObj example_evidence) \<and>
   JObj example_evidence \<in> set (evidence_on (\<lambda>_. Some (JObj example_evidence)) (er_evidenceId example_request) [[0x7B]])"
proof -
  have "\<exists>d vs. Some example_disk = Some d \<and>
      vs = evidence_on (\<lambda>_. Some (JObj example_evidence)) (er_evidenceId example_request) (splitCompleteLines (f_bytes d)) \<and>
      vs \<noteq> [] \<and> JObj example_evidence = last vs"
    using evidence_exact [OF example_evidence_read] by blast
  then show ?thesis using example_lines example_evidence_read last_in_set by force
qed

theorem spoilt_feed_witness:
  "\<exists>e. readFeedTurns (\<lambda>_. Some (JObj (spoilt example_turn))) (\<lambda>_. Inr True) example_listing (\<lambda>_. Some example_disk)
     example_options = Inl e"
proof (rule spoilt_feed [OF example_turn_valid example_parses example_files])
  show "fileLimits (co_bounds example_options) = Inr example_limits"
    by (simp add: example_options_def example_limits)
  show "splitCompleteLines (f_bytes example_disk) = [] @ [[0x7B]] \<and>
      int (length [0x7B :: byte]) \<le> rl_maxRecordBytes example_limits \<and> last (f_bytes example_disk) = 0x0A"
    using example_lines by (simp add: example_disk_def example_limits_def)
qed (simp_all add: example_disk_def example_limits_def)

end
