(* ===== verification/Reader_Budget.thy ===== *)
theory Reader_Budget
  imports Typed_Id
begin

text \<open>
  \<open>reader/budget.ts\<close>: the byte budget of reader projections.  The envelope reports its own
  serialized size; \<open>wrap_loop\<close> is the fixed-point loop with the source's 16 attempts, shown to
  converge within them for every serializable value.  \<open>maximize_loop\<close> is the binary search.
\<close>

section \<open>Envelopes\<close>

record projection =
  byte_budget :: int
  utf8_bytes :: int
  p_value :: jsval

definition projection_json :: "projection \<Rightarrow> jsval" where
  "projection_json p = JObj [(js ''byte_budget'', JNum (NInt (byte_budget p))),
     (js ''utf8_bytes'', JNum (NInt (utf8_bytes p))), (js ''value'', p_value p)]"

definition assertReaderByteBudget :: "int \<Rightarrow> unit result" where
  "assertReaderByteBudget n = (if safe_pos n then Inr () else Inl RangeError)"

definition assertReaderNonNegativeInteger :: "int \<Rightarrow> unit result" where
  "assertReaderNonNegativeInteger n = (if safe_nonneg n then Inr () else Inl RangeError)"

definition stableJsonUtf8Bytes :: "jsval \<Rightarrow> int result" where
  "stableJsonUtf8Bytes v =
     (case stableStringify v of Inl e \<Rightarrow> Inl e | Inr t \<Rightarrow> Inr (int (byte_length t)))"

text \<open>The loop; the first argument counts the attempts left.\<close>

fun wrap_loop :: "nat \<Rightarrow> jsval \<Rightarrow> int \<Rightarrow> int \<Rightarrow> projection result" where
  "wrap_loop 0 v budget reported = Inl PlainError"
| "wrap_loop (Suc attempts) v budget reported =
     (let p = \<lparr> byte_budget = budget, utf8_bytes = reported, p_value = v \<rparr> in
      case stableJsonUtf8Bytes (projection_json p) of
        Inl e \<Rightarrow> Inl e
      | Inr actual \<Rightarrow>
          if actual = reported then
            (if actual > budget then Inl ReaderByteBudgetTooSmallError else Inr p)
          else wrap_loop attempts v budget actual)"

definition wrapReaderProjection :: "jsval \<Rightarrow> int \<Rightarrow> projection result" where
  "wrapReaderProjection v budget =
     (case assertReaderByteBudget budget of Inl e \<Rightarrow> Inl e
      | Inr _ \<Rightarrow> wrap_loop 16 v budget 0)"

definition readerProjectionFits :: "jsval \<Rightarrow> int \<Rightarrow> bool result" where
  "readerProjectionFits v budget =
     (case wrapReaderProjection v budget of
        Inr _ \<Rightarrow> Inr True
      | Inl e \<Rightarrow> if e = ReaderByteBudgetTooSmallError then Inr False else Inl e)"

section \<open>Binary search\<close>

function maximize_loop :: "(int \<Rightarrow> bool) \<Rightarrow> int \<Rightarrow> int \<Rightarrow> int \<Rightarrow> int" where
  "maximize_loop accepts low high best =
     (if low \<le> high then
        let middle = low + (high - low) div 2 in
        if accepts middle then maximize_loop accepts (middle + 1) high middle
        else maximize_loop accepts low (middle - 1) best
      else best)"
  by pat_completeness auto
termination
  by (relation "measure (\<lambda>(_, low, high, _). nat (high - low + 1))") auto

declare maximize_loop.simps [simp del]

definition maximizeReaderBudget :: "int \<Rightarrow> (int \<Rightarrow> bool) \<Rightarrow> int result" where
  "maximizeReaderBudget maximum accepts =
     (case assertReaderNonNegativeInteger maximum of Inl e \<Rightarrow> Inl e
      | Inr _ \<Rightarrow> Inr (maximize_loop accepts 0 maximum (if accepts 0 then 0 else - 1)))"

text \<open>The candidates of a search that accepts downwards.\<close>

definition downward :: "int \<Rightarrow> (int \<Rightarrow> bool) \<Rightarrow> bool" where
  "downward maximum accepts \<longleftrightarrow>
     (\<forall>i j. 0 \<le> i \<and> i \<le> j \<and> j \<le> maximum \<and> accepts j \<longrightarrow> accepts i)"


text \<open>The state of the search: what lies above \<open>high\<close> is refused, \<open>best\<close> is the last accepted.\<close>

definition search_state :: "int \<Rightarrow> (int \<Rightarrow> bool) \<Rightarrow> int \<Rightarrow> int \<Rightarrow> int \<Rightarrow> bool" where
  "search_state M accepts low high best \<longleftrightarrow>
     0 \<le> low \<and> low \<le> high + 1 \<and> high \<le> M \<and> -1 \<le> high \<and>
     (\<forall>i. high < i \<and> i \<le> M \<longrightarrow> \<not> accepts i) \<and>
     (best = -1 \<or> 0 \<le> best \<and> accepts best) \<and> best \<le> M \<and>
     (best = low - 1 \<or> low = 0 \<and> best = 0)"

text \<open>The answer: the greatest accepted candidate, or -1 when there is none.\<close>

definition greatest_accepted :: "int \<Rightarrow> (int \<Rightarrow> bool) \<Rightarrow> int \<Rightarrow> bool" where
  "greatest_accepted M accepts r \<longleftrightarrow>
     (r = -1 \<or> 0 \<le> r \<and> r \<le> M \<and> accepts r) \<and> (\<forall>i. r < i \<and> 0 \<le> i \<and> i \<le> M \<longrightarrow> \<not> accepts i)"

lemma maximize_loop_greatest:
  "downward M accepts \<Longrightarrow> search_state M accepts low high best \<Longrightarrow>
   greatest_accepted M accepts (maximize_loop accepts low high best)"
proof (induction accepts low high best rule: maximize_loop.induct)
  case (1 accepts low high best)
  show ?case
  proof (cases "low \<le> high")
    case True
    define middle where "middle = low + (high - low) div 2"
    have m: "low \<le> middle" "middle \<le> high" using True by (simp_all add: middle_def)
    show ?thesis
    proof (cases "accepts middle")
      case True
      have "search_state M accepts (middle + 1) high middle"
        using "1.prems" m True by (auto simp: search_state_def)
      with 1 True \<open>low \<le> high\<close> show ?thesis
        by (subst maximize_loop.simps) (simp add: Let_def middle_def)
    next
      case False
      have "\<not> accepts i" if "middle - 1 < i" "i \<le> M" for i
        using "1.prems" m False that unfolding downward_def search_state_def
        by (metis le_less_linear order_trans zle_diff1_eq not_le)
      then have "search_state M accepts low (middle - 1) best"
        using "1.prems" m by (auto simp: search_state_def)
      with 1 False \<open>low \<le> high\<close> show ?thesis
        by (subst maximize_loop.simps) (simp add: Let_def middle_def)
    qed
  next
    case False
    with "1.prems" show ?thesis
      by (subst maximize_loop.simps) (auto simp: search_state_def greatest_accepted_def)
  qed
qed

section \<open>Convergence of the envelope\<close>

definition digits_of :: "int \<Rightarrow> nat" where
  "digits_of n = length (decimal n)"

lemma decimal_nat_length_mono: "m \<le> n \<Longrightarrow> length (decimal_nat m) \<le> length (decimal_nat n)"
  using decimal_nat_length_le [of m "length (decimal_nat n)"] length_decimal_nat [of n]
    decimal_nat_digits [of n] by force

text \<open>Multiplying a positive number by at most ten adds at most one digit.\<close>

lemma decimal_nat_length_near:
  assumes "0 < m" "n \<le> 10 * m"
  shows "length (decimal_nat n) \<le> Suc (length (decimal_nat m))"
proof -
  let ?l = "length (decimal_nat m)"
  have "m < 10 ^ ?l" using length_decimal_nat by blast
  with assms have "n < 10 ^ Suc ?l" by simp
  then show ?thesis by (intro decimal_nat_length_le) simp_all
qed

lemma decimal_nat_length_small: "0 < n \<Longrightarrow> length (decimal_nat n) \<le> n"
proof -
  have "n < 2 ^ n" by (rule less_exp)
  also have "(2 :: nat) ^ n \<le> 10 ^ n" by (rule power_mono) simp_all
  finally show "0 < n \<Longrightarrow> length (decimal_nat n) \<le> n" by (intro decimal_nat_length_le)
qed

text \<open>The serialized envelope is \<open>K\<close> bytes and the digits of the reported size.\<close>

lemma byte_length_around:
  "byte_length (a @ decimal_nat n @ [u] @ c) =
     byte_length a + length (decimal_nat n) + byte_length ([u] @ c)" if "ascii_unit u"
proof -
  have digits: "\<not> low_surrogate v" if "v \<in> set (decimal_nat n)" for v
    using digits_ascii [of n] that ascii_not_surrogate by (auto simp: list_all_iff)
  have "decimal_nat n \<noteq> []" using decimal_nat_digits by blast
  then have "utf8 (a @ decimal_nat n @ [u] @ c) = utf8 a @ utf8 (decimal_nat n @ [u] @ c)"
    using digits by (intro utf8_append) (cases "decimal_nat n"; auto)
  moreover have "utf8 (decimal_nat n @ [u] @ c) = utf8 (decimal_nat n) @ utf8 ([u] @ c)"
    using ascii_not_surrogate [OF that] by (intro utf8_append) auto
  ultimately show ?thesis by (simp add: byte_length_def utf8_ascii digits_ascii)
qed

lemma projection_size:
  assumes "serializable v"
  obtains K :: nat where "0 < K"
    and "\<And>r. stableJsonUtf8Bytes (projection_json \<lparr> byte_budget = b, utf8_bytes = int r, p_value = v \<rparr>)
      = Inr (int (K + length (decimal_nat r)))"
proof -
  define pre where "pre = js ''{'' @ quote (js ''byte_budget'') @ js '':'' @ decimal b @ js '',''
    @ quote (js ''utf8_bytes'') @ js '':''"
  define post where "post = (case encodeJson v False of Inr (Some t) \<Rightarrow>
      js '','' @ quote (js ''value'') @ js '':'' @ t | _ \<Rightarrow> []) @ js ''}''"
  obtain u c where post: "post = [u] @ c" "ascii_unit u"
    by (cases "encodeJson v False"; cases "case encodeJson v False of Inr t \<Rightarrow> t | Inl e \<Rightarrow> None")
       (auto simp: post_def literal_simps ascii_unit_def split: option.splits)
  have enc: "encodeJson v False = Inr (text_option (canon v))"
    using assms by (simp add: encode_canon)
  have str: "stableStringify (projection_json \<lparr> byte_budget = b, utf8_bytes = int r, p_value = v \<rparr>)
      = Inr (pre @ decimal_nat r @ post)" for r
    using enc by (cases "text_option (canon v)")
      (simp_all add: projection_json_def stableStringify_def pre_def post_def join_def decimal_def [of "int r"]
        literal_simps)
  show ?thesis
  proof (rule that [of "byte_length pre + byte_length ([u] @ c)"])
    have "0 < byte_length ([u] @ c)"
      using post(2) by (simp add: byte_length_def utf8_ascii_Cons)
    then show "0 < byte_length pre + byte_length ([u] @ c)" by simp
    show "stableJsonUtf8Bytes (projection_json \<lparr> byte_budget = b, utf8_bytes = int r, p_value = v \<rparr>)
      = Inr (int (byte_length pre + byte_length ([u] @ c) + length (decimal_nat r)))" for r
      unfolding stableJsonUtf8Bytes_def str post(1)
      by (simp add: byte_length_around [OF post(2), simplified])
  qed
qed

lemma wrap_loop_converges:
  assumes K: "0 < K" and size: "\<And>r. stableJsonUtf8Bytes
      (projection_json \<lparr> byte_budget = b, utf8_bytes = int r, p_value = v \<rparr>) = Inr (int (K + length (decimal_nat r)))"
  shows "wrap_loop (Suc (Suc (Suc (Suc n)))) v b 0 \<noteq> Inl PlainError"
proof -
  let ?D = "\<lambda>r. length (decimal_nat r)"
  define a where "a = K + ?D 0"
  have a: "0 < a" "a = K + 1" by (simp_all add: a_def decimal_nat.simps)
  have near: "?D r = ?D a \<or> ?D r = Suc (?D a)" if "a \<le> r" "r \<le> 10 * a" for r
    using decimal_nat_length_mono [OF that(1)] decimal_nat_length_near [OF a(1) that(2)] by linarith
  have Da: "?D a \<le> a" "1 \<le> ?D a"
    using decimal_nat_length_small [OF a(1)] decimal_nat_digits [of a] by (auto simp: Suc_leI)
  define W where "W = (\<lambda>n r. wrap_loop n v b (int r))"
  have stop: "W (Suc k) r \<noteq> Inl PlainError" if "K + ?D r = r" for k r
    using that by (simp add: W_def size)
  have step: "W (Suc k) r = W k (K + ?D r)" if "K + ?D r \<noteq> r" for k r
    using that by (simp add: W_def size)
  have go: "W (Suc k) r \<noteq> Inl PlainError" if "W k (K + ?D r) \<noteq> Inl PlainError" for k r
    using that stop step by (cases "K + ?D r = r") auto
  have "?D (K + ?D a) = ?D a \<or> ?D (K + ?D a) = Suc (?D a)"
    using a Da by (intro near) simp_all
  moreover have "?D (K + Suc (?D a)) = ?D a \<or> ?D (K + Suc (?D a)) = Suc (?D a)"
    using a Da by (intro near) simp_all
  moreover have "?D (K + ?D a) \<le> ?D (K + Suc (?D a))"
    by (intro decimal_nat_length_mono) simp
  ultimately have "W (Suc (Suc n)) (K + ?D a) \<noteq> Inl PlainError"
    using go stop by (metis order_antisym_conv lessI less_imp_le)
  then have "W (Suc (Suc (Suc (Suc n)))) 0 \<noteq> Inl PlainError"
    using go a_def by blast
  then show ?thesis unfolding W_def by simp
qed

section \<open>Properties\<close>

text \<open>An envelope is sufficient when it reports at least its size, exact when it reports just that.\<close>

definition sufficient :: "jsval \<Rightarrow> int \<Rightarrow> projection \<Rightarrow> bool" where
  "sufficient v b p \<longleftrightarrow> byte_budget p = b \<and> p_value p = v \<and>
     (\<exists>n. stableJsonUtf8Bytes (projection_json p) = Inr n \<and> n \<le> utf8_bytes p)"

text \<open>An attempt that ends the loop ends it with the least size that suffices.\<close>

lemma wrap_loop_least:
  assumes size: "\<And>r. stableJsonUtf8Bytes
      (projection_json \<lparr> byte_budget = b, utf8_bytes = int r, p_value = v \<rparr>) = Inr (int (K + length (decimal_nat r)))"
  shows "(\<And>m. K + length (decimal_nat m) \<le> m \<Longrightarrow> r \<le> m) \<Longrightarrow> wrap_loop n v b (int r) = Inl PlainError \<or>
    (\<exists>l. K + length (decimal_nat l) = l \<and> (\<forall>m. K + length (decimal_nat m) \<le> m \<longrightarrow> l \<le> m) \<and>
       wrap_loop n v b (int r) = (if int l \<le> b then Inr \<lparr> byte_budget = b, utf8_bytes = int l, p_value = v \<rparr>
         else Inl ReaderByteBudgetTooSmallError))"
proof (induction n arbitrary: r)
  case (Suc n)
  show ?case
  proof (cases "K + length (decimal_nat r) = r")
    case True
    with Suc.prems size [of r] show ?thesis by (intro disjI2 exI [of _ r]) (auto simp: Let_def)
  next
    case False
    have "K + length (decimal_nat r) \<le> m" if "K + length (decimal_nat m) \<le> m" for m
      using decimal_nat_length_mono [OF Suc.prems [OF that]] that by linarith
    from Suc.IH [OF this] False size [of r] show ?thesis by (simp add: Let_def)
  qed
qed simp

lemma wrap_exact:
  assumes "serializable v" "safe_pos b"
  shows "\<exists>p. byte_budget p = b \<and> p_value p = v \<and> stableJsonUtf8Bytes (projection_json p) = Inr (utf8_bytes p) \<and>
    (\<forall>q. sufficient v b q \<longrightarrow> utf8_bytes p \<le> utf8_bytes q) \<and>
    wrapReaderProjection v b = (if utf8_bytes p \<le> b then Inr p else Inl ReaderByteBudgetTooSmallError)"
proof -
  obtain K where K: "0 < K" and size: "\<And>r. stableJsonUtf8Bytes
      (projection_json \<lparr> byte_budget = b, utf8_bytes = int r, p_value = v \<rparr>) = Inr (int (K + length (decimal_nat r)))"
    using projection_size [OF assms(1)] by blast
  have "Suc (Suc (Suc (Suc 12))) = (16 :: nat)" by simp
  with wrap_loop_converges [OF K size, of 12] have "wrap_loop 16 v b 0 \<noteq> Inl PlainError" by (simp only:) simp
  with wrap_loop_least [OF size, of 0 16] obtain l where
    l: "K + length (decimal_nat l) = l" "\<forall>m. K + length (decimal_nat m) \<le> m \<longrightarrow> l \<le> m"
      "wrap_loop 16 v b 0 = (if int l \<le> b then Inr \<lparr> byte_budget = b, utf8_bytes = int l, p_value = v \<rparr>
         else Inl ReaderByteBudgetTooSmallError)" by auto
  let ?p = "\<lparr> byte_budget = b, utf8_bytes = int l, p_value = v \<rparr>"
  have "int l \<le> utf8_bytes q" if q: "sufficient v b q" for q
  proof -
    from q obtain n where n: "stableJsonUtf8Bytes (projection_json q) = Inr n" "n \<le> utf8_bytes q"
      "byte_budget q = b" "p_value q = v" by (auto simp: sufficient_def)
    have "0 \<le> n" using n(1) by (auto simp: stableJsonUtf8Bytes_def split: sum.splits)
    then have "q = \<lparr> byte_budget = b, utf8_bytes = int (nat (utf8_bytes q)), p_value = v \<rparr>"
      using n by (cases q) simp
    with size [of "nat (utf8_bytes q)"] n have "K + length (decimal_nat (nat (utf8_bytes q))) \<le> nat (utf8_bytes q)"
      by simp
    with l(2) \<open>0 \<le> n\<close> n(2) show ?thesis by fastforce
  qed
  then have least: "\<forall>q. sufficient v b q \<longrightarrow> utf8_bytes ?p \<le> utf8_bytes q" by simp
  have "wrapReaderProjection v b = (if utf8_bytes ?p \<le> b then Inr ?p else Inl ReaderByteBudgetTooSmallError)"
    using assms(2) l(3) by (simp add: wrapReaderProjection_def assertReaderByteBudget_def)
  with least size [of l] l(1) show ?thesis by (intro exI [of _ ?p]) (simp only: simp_thms projection.simps)
qed

text \<open>C33: for a serializable value and a valid budget the envelope loop converges within its 16
  attempts: there is an envelope that reports exactly its own serialized size, the least size that
  suffices, and it is returned if it is within the budget, which is reported as too small otherwise.\<close>

theorem wrapReaderProjection_exact:
  assumes "serializable v" "safe_pos b"
  shows "\<exists>p. byte_budget p = b \<and> p_value p = v \<and> stableJsonUtf8Bytes (projection_json p) = Inr (utf8_bytes p) \<and>
    (\<forall>q. sufficient v b q \<longrightarrow> utf8_bytes p \<le> utf8_bytes q) \<and>
    wrapReaderProjection v b = (if utf8_bytes p \<le> b then Inr p else Inl ReaderByteBudgetTooSmallError)"
  using assms by (rule wrap_exact)

text \<open>On a test that accepts downwards, the binary search returns the greatest accepted
  candidate of the range, or -1 when none is accepted.\<close>

theorem maximizeReaderBudget_greatest:
  assumes "downward maximum accepts" "safe_nonneg maximum"
  shows "\<exists>r. maximizeReaderBudget maximum accepts = Inr r \<and> greatest_accepted maximum accepts r"
proof -
  have "search_state maximum accepts 0 maximum (if accepts 0 then 0 else -1)"
    using assms(2) by (auto simp: search_state_def safe_nonneg_def)
  from maximize_loop_greatest [OF assms(1) this] assms(2) show ?thesis
    by (simp add: maximizeReaderBudget_def assertReaderNonNegativeInteger_def)
qed

theorem maximizeReaderBudget_greatest_witness:
  "\<exists>r. maximizeReaderBudget 10 (\<lambda>i. i \<le> 7) = Inr r \<and> greatest_accepted 10 (\<lambda>i. i \<le> 7) r"
proof (rule maximizeReaderBudget_greatest)
  show "downward 10 (\<lambda>i. i \<le> 7)"
    by (auto simp: downward_def)
  show "safe_nonneg 10" by (simp add: safe_nonneg_def safe_int_def max_safe_def)
qed

end
