(* ===== verification/Projection_Stages.thy ===== *)
theory Projection_Stages
  imports Reader_Budget Reader_Records Text_Bounds Replay "HOL-Library.Product_Lexorder" "HOL-Library.List_Lexorder"
begin

text \<open>
  What the projections of \<open>reader/projection.ts\<close> share.  A projection builds a summary (\<open>build\<close>, a
  closure of the code) from the sizes it captures, starts with the minimum, and enlarges one size
  after the other as long as the envelope fits: a text bound by binary search, a list item by item.
  The locale \<open>summary_view\<close> is the contract: a summary that can be serialized stays within the budget
  through every stage.
\<close>

section \<open>Limits\<close>

record projection_options =
  po_byteBudget :: int
  po_requestExcerptBytes :: "int option"
  po_responseExcerptBytes :: "int option"
  po_actionExcerptBytes :: "int option"

record projection_limits =
  pl_byteBudget :: int
  pl_requestExcerptBytes :: int
  pl_responseExcerptBytes :: int
  pl_actionExcerptBytes :: int

definition given :: "int \<Rightarrow> int option \<Rightarrow> int" where
  "given d x = (case x of None \<Rightarrow> d | Some n \<Rightarrow> n)"

definition projectionLimits :: "projection_options \<Rightarrow> projection_limits result" where
  "projectionLimits opts =
     (case assertReaderByteBudget (po_byteBudget opts) of Inl e \<Rightarrow> Inl e | Inr _ \<Rightarrow>
      case assertReaderNonNegativeInteger (given 1024 (po_requestExcerptBytes opts)) of Inl e \<Rightarrow> Inl e | Inr _ \<Rightarrow>
      case assertReaderNonNegativeInteger (given 2048 (po_responseExcerptBytes opts)) of Inl e \<Rightarrow> Inl e | Inr _ \<Rightarrow>
      case assertReaderNonNegativeInteger (given 256 (po_actionExcerptBytes opts)) of Inl e \<Rightarrow> Inl e | Inr _ \<Rightarrow>
        Inr \<lparr> pl_byteBudget = po_byteBudget opts, pl_requestExcerptBytes = given 1024 (po_requestExcerptBytes opts),
          pl_responseExcerptBytes = given 2048 (po_responseExcerptBytes opts),
          pl_actionExcerptBytes = given 256 (po_actionExcerptBytes opts) \<rparr>)"

section \<open>Searches that may throw\<close>

text \<open>\<open>maximizeReaderBudget\<close> for a test that may throw.\<close>

function maximize_try :: "(int \<Rightarrow> bool result) \<Rightarrow> int \<Rightarrow> int \<Rightarrow> int \<Rightarrow> int result" where
  "maximize_try accepts low high best =
     (if low \<le> high then
        let middle = low + (high - low) div 2 in
        (case accepts middle of Inl e \<Rightarrow> Inl e
         | Inr b \<Rightarrow> if b then maximize_try accepts (middle + 1) high middle
             else maximize_try accepts low (middle - 1) best)
      else Inr best)"
  by pat_completeness auto
termination
  by (relation "measure (\<lambda>(_, low, high, _). nat (high - low + 1))") auto

declare maximize_try.simps [simp del]

definition maximize_budget :: "int \<Rightarrow> (int \<Rightarrow> bool result) \<Rightarrow> int result" where
  "maximize_budget maximum accepts =
     (case assertReaderNonNegativeInteger maximum of Inl e \<Rightarrow> Inl e
      | Inr _ \<Rightarrow> (case accepts 0 of Inl e \<Rightarrow> Inl e
         | Inr b \<Rightarrow> maximize_try accepts 0 maximum (if b then 0 else - 1)))"

text \<open>\<open>appendWhileFits\<close>; the first argument is what is left of \<open>total - shown\<close>.\<close>

fun append_while :: "nat \<Rightarrow> nat \<Rightarrow> (nat \<Rightarrow> bool result) \<Rightarrow> nat result" where
  "append_while 0 shown tryCount = Inr shown"
| "append_while (Suc left) shown tryCount =
     (case tryCount (shown + 1) of Inl e \<Rightarrow> Inl e
      | Inr b \<Rightarrow> if b then append_while left (shown + 1) tryCount else Inr shown)"

definition appendWhileFits :: "nat \<Rightarrow> nat \<Rightarrow> (nat \<Rightarrow> bool result) \<Rightarrow> nat result" where
  "appendWhileFits available initial tryCount = append_while (available - initial) initial tryCount"

section \<open>The stages\<close>

text \<open>A text bound that is enlarged; \<open>put\<close> assigns the captured variable.\<close>

definition size_stage :: "('v \<Rightarrow> jsval) \<Rightarrow> int \<Rightarrow> int \<Rightarrow> (int \<Rightarrow> 'v \<Rightarrow> 'v) \<Rightarrow> 'v \<Rightarrow> 'v result" where
  "size_stage build budget maximum put v =
     (case maximize_budget maximum (\<lambda>c. readerProjectionFits (build (put c v)) budget) of
        Inl e \<Rightarrow> Inl e | Inr n \<Rightarrow> Inr (put (if n < 0 then 0 else n) v))"

text \<open>Actions that are added one by one with the largest text bound; the first argument counts those
  that are left, \<open>add c\<close> shows one more.\<close>

fun item_stage :: "nat \<Rightarrow> ('v \<Rightarrow> jsval) \<Rightarrow> int \<Rightarrow> int \<Rightarrow> (int \<Rightarrow> 'v \<Rightarrow> 'v) \<Rightarrow> 'v \<Rightarrow> 'v result" where
  "item_stage 0 build budget maximum add v = Inr v"
| "item_stage (Suc left) build budget maximum add v =
     (case maximize_budget maximum (\<lambda>c. readerProjectionFits (build (add c v)) budget) of
        Inl e \<Rightarrow> Inl e
      | Inr n \<Rightarrow> if n < 0 then Inr v else item_stage left build budget maximum add (add n v))"

definition count_stage ::
  "nat \<Rightarrow> ('v \<Rightarrow> nat) \<Rightarrow> (nat \<Rightarrow> 'v \<Rightarrow> 'v) \<Rightarrow> ('v \<Rightarrow> jsval) \<Rightarrow> int \<Rightarrow> 'v \<Rightarrow> 'v result" where
  "count_stage available current put build budget v =
     (case appendWhileFits available (current v) (\<lambda>c. readerProjectionFits (build (put c v)) budget) of
        Inl e \<Rightarrow> Inl e | Inr n \<Rightarrow> Inr (put n v))"

section \<open>The searches\<close>

lemma maximize_try_result:
  assumes "\<And>c. low \<le> c \<Longrightarrow> c \<le> high \<Longrightarrow> accepts c = Inr (test c)"
  shows "\<exists>n. maximize_try accepts low high best = Inr n \<and> (n = best \<or> (low \<le> n \<and> n \<le> high \<and> test n))"
  using assms
proof (induction accepts low high best rule: maximize_try.induct)
  case (1 accepts low high best)
  show ?case
  proof (cases "low \<le> high")
    case True
    define middle where "middle = low + (high - low) div 2"
    have m: "low \<le> middle" "middle \<le> high" using True by (simp_all add: middle_def)
    then have a: "accepts middle = Inr (test middle)" using "1.prems" by blast
    show ?thesis
    proof (cases "test middle")
      case yes: True
      have "\<exists>n. maximize_try accepts (middle + 1) high middle = Inr n \<and>
          (n = middle \<or> (middle + 1 \<le> n \<and> n \<le> high \<and> test n))"
        using m yes a by (intro "1.IH"(1) [OF True middle_def]) (auto intro!: "1.prems")
      with True a yes m show ?thesis
        by (subst maximize_try.simps) (auto simp: Let_def middle_def [symmetric])
    next
      case no: False
      have "\<exists>n. maximize_try accepts low (middle - 1) best = Inr n \<and>
          (n = best \<or> (low \<le> n \<and> n \<le> middle - 1 \<and> test n))"
        using m no a by (intro "1.IH"(2) [OF True middle_def]) (auto intro!: "1.prems")
      with True a no m show ?thesis
        by (subst maximize_try.simps) (auto simp: Let_def middle_def [symmetric])
    qed
  next
    case False
    then show ?thesis by (subst maximize_try.simps) simp
  qed
qed

lemma maximize_budget_result:
  assumes "safe_nonneg M" "\<And>c. accepts c = Inr (test c)"
  shows "\<exists>n. maximize_budget M accepts = Inr n \<and> (n = -1 \<and> \<not> test 0 \<or> 0 \<le> n \<and> n \<le> M \<and> test n)"
proof -
  have M: "0 \<le> M" using assms(1) by (simp add: safe_nonneg_def)
  from maximize_try_result [of 0 M accepts test "if test 0 then 0 else - 1"] assms(2)
  obtain n where n: "maximize_try accepts 0 M (if test 0 then 0 else - 1) = Inr n"
    "n = (if test 0 then 0 else - 1) \<or> (0 \<le> n \<and> n \<le> M \<and> test n)" by blast
  with assms M show ?thesis
    by (cases "test 0") (auto simp: maximize_budget_def assertReaderNonNegativeInteger_def)
qed

lemma append_while_result:
  assumes "\<And>c. tryCount c = Inr (test c)"
  shows "\<exists>n. append_while left shown tryCount = Inr n \<and> shown \<le> n \<and> n \<le> shown + left \<and> (n = shown \<or> test n) \<and>
    (n < shown + left \<longrightarrow> \<not> test (n + 1))"
proof (induction left arbitrary: shown)
  case (Suc left)
  show ?case
  proof (cases "test (shown + 1)")
    case True
    with Suc [of "shown + 1"] show ?thesis by (auto simp: assms)
  qed (simp add: assms)
qed simp

lemma appendWhileFits_result:
  assumes "\<And>c. tryCount c = Inr (test c)" "initial \<le> available"
  shows "\<exists>n. appendWhileFits available initial tryCount = Inr n \<and> initial \<le> n \<and> n \<le> available \<and> (n = initial \<or> test n) \<and>
    (n < available \<longrightarrow> \<not> test (n + 1))"
  using append_while_result [of tryCount test "available - initial" initial] assms by (auto simp: appendWhileFits_def)

section \<open>The contract of a summary\<close>

definition good_limits :: "projection_limits \<Rightarrow> bool" where
  "good_limits limits \<longleftrightarrow> safe_pos (pl_byteBudget limits) \<and> safe_nonneg (pl_requestExcerptBytes limits) \<and>
     safe_nonneg (pl_responseExcerptBytes limits) \<and> safe_nonneg (pl_actionExcerptBytes limits)"

lemma projectionLimits_good: "projectionLimits opts = Inr limits \<Longrightarrow> good_limits limits"
  by (auto simp: projectionLimits_def good_limits_def assertReaderByteBudget_def assertReaderNonNegativeInteger_def
      split: if_splits)

definition fits :: "jsval \<Rightarrow> int \<Rightarrow> bool" where
  "fits v budget \<longleftrightarrow> readerProjectionFits v budget = Inr True"

lemma fits_total: "serializable v \<Longrightarrow> safe_pos budget \<Longrightarrow> readerProjectionFits v budget = Inr (fits v budget)"
  using wrap_exact [of v budget] by (auto simp: fits_def readerProjectionFits_def)

lemma fits_wraps:
  assumes "fits v budget" "serializable v" "safe_pos budget"
  shows "\<exists>p. wrapReaderProjection v budget = Inr p \<and> p_value p = v \<and> byte_budget p = budget \<and> utf8_bytes p \<le> budget \<and>
    stableJsonUtf8Bytes (projection_json p) = Inr (utf8_bytes p)"
  using wrap_exact [OF assms(2,3)] assms(1) by (auto simp: fits_def readerProjectionFits_def split: if_splits)

lemma not_fits_wraps:
  assumes "\<not> fits v budget" "serializable v" "safe_pos budget"
  shows "wrapReaderProjection v budget = Inl ReaderByteBudgetTooSmallError"
  using wrap_exact [OF assms(2,3)] assms(1) by (auto simp: fits_def readerProjectionFits_def split: if_splits)

text \<open>What is surely short enough fits.\<close>

lemma small_fits:
  assumes "serializable v" "safe_pos b"
    and "3 * text_bound (projection_json \<lparr> byte_budget = b, utf8_bytes = b, p_value = v \<rparr>) \<le> nat b"
  shows "fits v b"
proof -
  let ?q = "\<lparr> byte_budget = b, utf8_bytes = b, p_value = v \<rparr>"
  have "serializable (projection_json ?q)" using assms(1) by (simp add: projection_json_def)
  then have str: "stableStringify (projection_json ?q) = Inr (json_text (canon (projection_json ?q)))"
    by (simp add: stableStringify_canon projection_json_def del: canon_JObj)
  have "byte_length (json_text (canon (projection_json ?q))) \<le> nat b"
    using byte_length_le [of "json_text (canon (projection_json ?q))"] json_text_length [of "canon (projection_json ?q)"]
      text_bound_canon [of "projection_json ?q"] assms(3) by linarith
  then have "int (byte_length (json_text (canon (projection_json ?q)))) \<le> b"
    using assms(2) unfolding safe_pos_def by linarith
  then have "sufficient v b ?q" using str by (simp add: sufficient_def stableJsonUtf8Bytes_def del: canon_JObj)
  with wrap_exact [OF assms(1,2)] show ?thesis by (fastforce simp: fits_def readerProjectionFits_def)
qed

text \<open>An envelope that is returned, and reports its size.\<close>

theorem wrapReaderProjection_exact_witness:
  "\<exists>p. wrapReaderProjection JNull 1000 = Inr p \<and> p_value p = JNull \<and>
    stableJsonUtf8Bytes (projection_json p) = Inr (utf8_bytes p)"
proof -
  have ok: "serializable JNull" "safe_pos 1000" by (simp_all add: safe_pos_def safe_int_def max_safe_def)
  then have "fits JNull 1000"
    by (rule small_fits) (simp add: projection_json_def js_def decimal_def decimal_nat.simps)
  then have "wrapReaderProjection JNull 1000 \<noteq> Inl ReaderByteBudgetTooSmallError"
    by (auto simp: fits_def readerProjectionFits_def)
  with wrapReaderProjection_exact [OF ok] show ?thesis by (metis (full_types))
qed

locale summary_view =
  fixes build :: "'a \<Rightarrow> 'v \<Rightarrow> jsval" and plain :: "'a \<Rightarrow> bool"
  assumes serializable: "plain a \<Longrightarrow> serializable (build a v)"
begin

lemma view_fits: "plain a \<Longrightarrow> safe_pos b \<Longrightarrow> readerProjectionFits (build a v) b = Inr (fits (build a v) b)"
  by (rule fits_total) (rule serializable)

lemma search:
  assumes "plain a" "safe_pos b" "safe_nonneg M"
  shows "\<exists>n. maximize_budget M (\<lambda>c. readerProjectionFits (build a (put c)) b) = Inr n \<and>
    (n = -1 \<and> \<not> fits (build a (put 0)) b \<or> 0 \<le> n \<and> n \<le> M \<and> fits (build a (put n)) b)"
  by (rule maximize_budget_result) (use assms view_fits in auto)

lemma size_stage_fits:
  assumes "plain a" "safe_pos b" "safe_nonneg M" "fits (build a v) b" "put 0 v = v"
  shows "\<exists>n. size_stage (build a) b M put v = Inr (put n v) \<and> 0 \<le> n \<and> n \<le> M \<and> fits (build a (put n v)) b"
  using search [OF assms(1-3), of "\<lambda>c. put c v"] assms(4,5) by (auto simp: size_stage_def)

lemma item_stage_fits:
  assumes "plain a" "safe_pos b" "safe_nonneg M"
  shows "fits (build a v) b \<Longrightarrow> \<exists>cs. item_stage left (build a) b M add v = Inr (foldl (\<lambda>v c. add c v) v cs) \<and>
    length cs \<le> left \<and> (\<forall>c\<in>set cs. 0 \<le> c \<and> c \<le> M) \<and> fits (build a (foldl (\<lambda>v c. add c v) v cs)) b"
proof (induction left arbitrary: v)
  case (Suc left)
  from search [OF assms, of "\<lambda>c. add c v"] obtain n where
    n: "maximize_budget M (\<lambda>c. readerProjectionFits (build a (add c v)) b) = Inr n"
      "n = -1 \<or> 0 \<le> n \<and> n \<le> M \<and> fits (build a (add n v)) b" by blast
  show ?case
  proof (cases "n < 0")
    case True
    with n(1) Suc.prems show ?thesis by (intro exI [of _ "[]"]) simp
  next
    case False
    with n Suc.IH [of "add n v"] obtain cs where
      cs: "item_stage left (build a) b M add (add n v) = Inr (foldl (\<lambda>v c. add c v) (add n v) cs)"
        "length cs \<le> left" "\<forall>c\<in>set cs. 0 \<le> c \<and> c \<le> M" "fits (build a (foldl (\<lambda>v c. add c v) (add n v) cs)) b" by auto
    with n False show ?thesis by (intro exI [of _ "n # cs"]) simp
  qed
qed (auto intro: exI [of _ "[]"])

lemma count_stage_fits:
  assumes "plain a" "safe_pos b" "fits (build a v) b" "current v \<le> available" "put (current v) v = v"
  shows "\<exists>n. count_stage available current put (build a) b v = Inr (put n v) \<and> current v \<le> n \<and> n \<le> available \<and>
    fits (build a (put n v)) b \<and> (n < available \<longrightarrow> \<not> fits (build a (put (n + 1) v)) b)"
proof -
  have "readerProjectionFits (build a (put c v)) b = Inr (fits (build a (put c v)) b)" for c
    by (rule view_fits [OF assms(1,2)])
  from appendWhileFits_result [of "\<lambda>c. readerProjectionFits (build a (put c v)) b", OF this assms(4)]
  obtain n where n: "appendWhileFits available (current v) (\<lambda>c. readerProjectionFits (build a (put c v)) b) = Inr n"
    "current v \<le> n" "n \<le> available" "n = current v \<or> fits (build a (put n v)) b"
    "n < available \<longrightarrow> \<not> fits (build a (put (n + 1) v)) b" by blast
  with assms(3,5) show ?thesis by (intro exI [of _ n]) (auto simp: count_stage_def)
qed

lemma wraps:
  "plain a \<Longrightarrow> safe_pos b \<Longrightarrow> fits (build a v) b \<Longrightarrow> \<exists>p. wrapReaderProjection (build a v) b = Inr p \<and>
     p_value p = build a v \<and> byte_budget p = b \<and> utf8_bytes p \<le> b \<and>
     stableJsonUtf8Bytes (projection_json p) = Inr (utf8_bytes p)"
  by (rule fits_wraps) (simp_all add: serializable)

lemma refused:
  "plain a \<Longrightarrow> safe_pos b \<Longrightarrow> \<not> fits (build a v) b \<Longrightarrow> wrapReaderProjection (build a v) b = Inl ReaderByteBudgetTooSmallError"
  by (rule not_fits_wraps) (simp_all add: serializable)

end

section \<open>Parts of a summary\<close>

type_synonym properties = "(jstr \<times> jsval) list"

abbreviation count_json :: "nat \<Rightarrow> jsval" where
  "count_json n \<equiv> JNum (NInt (int n))"

text \<open>\<open>...(value === undefined ? {} : { key: value })\<close>\<close>

definition optional_prop :: "string \<Rightarrow> jsval \<Rightarrow> properties" where
  "optional_prop key v = (if v = JUndef then [] else [(js key, v)])"

definition props_of :: "jsval \<Rightarrow> properties" where
  "props_of v = (case as_object v of None \<Rightarrow> [] | Some ps \<Rightarrow> ps)"

definition items_of :: "jsval \<Rightarrow> jsval list" where
  "items_of v = (case as_array v of None \<Rightarrow> [] | Some xs \<Rightarrow> xs)"

definition text_in :: "properties \<Rightarrow> string \<Rightarrow> jstr" where
  "text_in ps key = (case as_string (jget ps key) of None \<Rightarrow> [] | Some s \<Rightarrow> s)"

definition number_in :: "properties \<Rightarrow> string \<Rightarrow> int" where
  "number_in ps key = (case as_safe_int (jget ps key) of None \<Rightarrow> 0 | Some n \<Rightarrow> n)"

text \<open>The result of \<open>projectReaderContent\<close> for a bound it accepts.\<close>

definition content_summary :: "properties \<Rightarrow> int \<Rightarrow> jsval" where
  "content_summary content maximum =
     (let value = text_in content ''text'';
          shown = (if int (byte_length value) \<le> maximum then value else truncate_loop maximum 0 [] (characters value))
      in JObj
        [(js ''text'', JStr shown),
         (js ''fidelity'', jget content ''fidelity''),
         (js ''truncated'', JObj [(js ''canonical'', jget content ''truncated''),
            (js ''projection'', JBool (byte_length shown < byte_length value))]),
         (js ''utf8_bytes'', JObj [(js ''shown'', count_json (byte_length shown)),
            (js ''canonical'', count_json (byte_length value)),
            (js ''original'', if jget content ''original_utf8_bytes'' \<in> {JUndef, JNull} then count_json (byte_length value)
               else jget content ''original_utf8_bytes'')]),
         (js ''redactions'', JArr (sort_key (\<lambda>r. (text_in (props_of r) ''kind'', number_in (props_of r) ''count''))
            (items_of (jget content ''redactions''))))])"

definition projectReaderContent :: "properties \<Rightarrow> int \<Rightarrow> jsval result" where
  "projectReaderContent content maximum =
     (if safe_nonneg maximum then Inr (content_summary content maximum) else Inl RangeError)"

definition content_prop :: "string \<Rightarrow> properties \<Rightarrow> int \<Rightarrow> properties" where
  "content_prop key ps maximum =
     (if jget ps key = JUndef then [] else [(js key, content_summary (props_of (jget ps key)) maximum)])"

definition projectReaderAction :: "properties \<Rightarrow> int \<Rightarrow> jsval" where
  "projectReaderAction action maximum =
     (let common = [(js ''action_id'', jget action ''action_id''), (js ''kind'', jget action ''kind''),
            (js ''outcome'', jget action ''outcome''),
            (js ''source_refs'', count_json (length (items_of (jget action ''source_refs''))))];
          k = jget action ''kind''
      in
      if k = JStr (js ''file_change'') then JObj (common @
        [(js ''operation'', jget action ''operation''), (js ''path'', jget action ''path'')] @
        optional_prop ''previous_path'' (jget action ''previous_path'') @
        optional_prop ''added_lines'' (jget action ''added_lines'') @
        optional_prop ''removed_lines'' (jget action ''removed_lines''))
      else if k = JStr (js ''command'') then JObj (common @
        [(js ''command'', content_summary (props_of (jget action ''command'')) maximum)] @
        optional_prop ''exit_code'' (jget action ''exit_code'') @ content_prop ''failure_excerpt'' action maximum)
      else if k = JStr (js ''test'') then JObj (common @
        [(js ''command'', content_summary (props_of (jget action ''command'')) maximum)] @
        optional_prop ''exit_code'' (jget action ''exit_code'') @ optional_prop ''passed'' (jget action ''passed'') @
        optional_prop ''failed'' (jget action ''failed'') @ content_prop ''failure_excerpt'' action maximum)
      else if k = JStr (js ''tool'') then JObj (common @
        [(js ''tool_name'', jget action ''tool_name'')] @ content_prop ''summary'' action maximum)
      else if k = JStr (js ''other'') then JObj (common @
        [(js ''summary'', content_summary (props_of (jget action ''summary'')) maximum)])
      else JUndef)"

definition boundedItems :: "jsval list \<Rightarrow> nat \<Rightarrow> jsval" where
  "boundedItems all shown =
     JObj [(js ''shown'', count_json shown), (js ''total'', count_json (length all)), (js ''items'', JArr (take shown all))]"

section \<open>Summaries can be serialized\<close>

definition plain_properties :: "properties \<Rightarrow> bool" where
  "plain_properties ps \<longleftrightarrow> serializable (JObj ps)"

lemma plain_get [simp]: "plain_properties ps \<Longrightarrow> serializable (jget ps key)"
  by (auto simp: plain_properties_def jget_def list_all_iff split: option.split dest: map_of_SomeD)

lemma plain_props [simp]: "serializable v \<Longrightarrow> plain_properties (props_of v)"
  by (cases v) (simp_all add: props_of_def plain_properties_def)

lemma plain_items: "serializable v \<Longrightarrow> x \<in> set (items_of v) \<Longrightarrow> serializable x"
  by (cases v) (auto simp: items_of_def list_all_iff)

lemma plain_optional [simp]: "serializable v \<Longrightarrow> list_all (\<lambda>(k, v). serializable v) (optional_prop key v)"
  by (simp add: optional_prop_def)

lemma plain_bounded [simp]: "serializable v \<Longrightarrow> serializable (boundedItems (items_of v) n)"
  by (auto simp: boundedItems_def list_all_iff dest: plain_items in_set_takeD)

lemma plain_content [simp]: "plain_properties c \<Longrightarrow> serializable (content_summary c m)"
  by (auto simp: content_summary_def Let_def list_all_iff dest: plain_items [rotated])

lemma plain_content_prop [simp]: "plain_properties ps \<Longrightarrow> list_all (\<lambda>(k, v). serializable v) (content_prop key ps m)"
  by (simp add: content_prop_def)

lemma plain_action [simp]: "plain_properties a \<Longrightarrow> serializable (projectReaderAction a m)"
  by (simp add: projectReaderAction_def Let_def)

end
