(* ===== verification/Turn_Projection.thy ===== *)
theory Turn_Projection
  imports Projection_Stages
begin

text \<open>
  \<open>projectTurn\<close> and \<open>projectActiveLease\<close> of \<open>reader/projection.ts\<close>: the bounded views of a turn and of a
  lease.  \<open>turn_summary\<close> and \<open>lease_summary\<close> are the closures \<open>build\<close> of the code, on records of the
  variables they capture.
\<close>

section \<open>The summary of a turn\<close>

record view_size =
  vs_requestBytes :: int
  vs_responseBytes :: int
  vs_actionCount :: nat
  vs_actionTextBytes :: "int list"
  vs_evidenceCount :: nat
  vs_changedPathCount :: nat
  vs_subagentEvidenceCount :: nat

definition minimum_view :: view_size where
  "minimum_view = \<lparr> vs_requestBytes = 0, vs_responseBytes = 0, vs_actionCount = 0, vs_actionTextBytes = [],
     vs_evidenceCount = 0, vs_changedPathCount = 0, vs_subagentEvidenceCount = 0 \<rparr>"

text \<open>\<open>items.slice(0, count).map((item, index) => project(item, sizes[index] ?? 0))\<close>\<close>

fun with_sizes :: "jsval list \<Rightarrow> int list \<Rightarrow> (properties \<times> int) list" where
  "with_sizes [] sizes = []"
| "with_sizes (x # xs) [] = (props_of x, 0) # with_sizes xs []"
| "with_sizes (x # xs) (n # ns) = (props_of x, n) # with_sizes xs ns"

definition subagent_summary :: "properties \<Rightarrow> nat \<Rightarrow> nat \<Rightarrow> jsval" where
  "subagent_summary subagents changed evidence =
     JObj [(js ''total'', jget subagents ''total''),
       (js ''by_role'', JArr (sort_key (\<lambda>r. (text_in (props_of r) ''role'', number_in (props_of r) ''count''))
          (items_of (jget subagents ''by_role'')))),
       (js ''outcomes'', jget subagents ''outcomes''),
       (js ''changed_paths'', boundedItems (items_of (jget subagents ''changed_paths'')) changed),
       (js ''evidence_refs'', boundedItems (items_of (jget subagents ''evidence_refs'')) evidence)]"

definition turn_summary :: "properties \<Rightarrow> view_size \<Rightarrow> jsval" where
  "turn_summary turn v = JObj
     ([(js ''turn_id'', jget turn ''turn_id''), (js ''provider'', jget turn ''provider''),
       (js ''session_id'', jget turn ''session_id''), (js ''sequence'', jget turn ''sequence'')] @
      optional_prop ''workstream_id'' (jget turn ''workstream_id'') @
      [(js ''agent_id'', jget turn ''agent_id'')] @
      optional_prop ''parent_turn_id'' (jget turn ''parent_turn_id'') @
      [(js ''started_at'', jget turn ''started_at''), (js ''ended_at'', jget turn ''ended_at''),
       (js ''outcome'', jget turn ''outcome''),
       (js ''request'', content_summary (props_of (jget turn ''request'')) (vs_requestBytes v))] @
      content_prop ''response'' turn (vs_responseBytes v) @
      [(js ''actions'', JObj [(js ''shown'', count_json (vs_actionCount v)),
          (js ''total'', count_json (length (items_of (jget turn ''actions'')))),
          (js ''items'', JArr (map (\<lambda>(a, n). projectReaderAction a n)
             (with_sizes (take (vs_actionCount v) (items_of (jget turn ''actions''))) (vs_actionTextBytes v))))]),
       (js ''evidence_refs'', boundedItems (items_of (jget turn ''evidence_refs'')) (vs_evidenceCount v)),
       (js ''subagents'', subagent_summary (props_of (jget turn ''subagents'')) (vs_changedPathCount v)
          (vs_subagentEvidenceCount v)),
       (js ''source_refs'', count_json (length (items_of (jget turn ''source_refs''))))])"

section \<open>The stages of a turn\<close>

definition response_stage :: "properties \<Rightarrow> projection_limits \<Rightarrow> view_size \<Rightarrow> view_size result" where
  "response_stage turn limits v =
     (if jget turn ''response'' = JUndef then Inr v
      else size_stage (turn_summary turn) (pl_byteBudget limits) (pl_responseExcerptBytes limits)
        (\<lambda>n v. v\<lparr> vs_responseBytes := n \<rparr>) v)"

definition show_action :: "int \<Rightarrow> view_size \<Rightarrow> view_size" where
  "show_action n v = v\<lparr> vs_actionCount := vs_actionCount v + 1, vs_actionTextBytes := vs_actionTextBytes v @ [n] \<rparr>"

definition turn_text_stages :: "properties \<Rightarrow> projection_limits \<Rightarrow> (view_size \<Rightarrow> view_size result) list" where
  "turn_text_stages turn limits =
     [size_stage (turn_summary turn) (pl_byteBudget limits) (pl_requestExcerptBytes limits)
        (\<lambda>n v. v\<lparr> vs_requestBytes := n \<rparr>),
      response_stage turn limits,
      item_stage (length (items_of (jget turn ''actions''))) (turn_summary turn) (pl_byteBudget limits)
        (pl_actionExcerptBytes limits) show_action]"

definition turn_count_stages :: "properties \<Rightarrow> projection_limits \<Rightarrow> (view_size \<Rightarrow> view_size result) list" where
  "turn_count_stages turn limits =
     [count_stage (length (items_of (jget turn ''evidence_refs''))) vs_evidenceCount
        (\<lambda>n v. v\<lparr> vs_evidenceCount := n \<rparr>) (turn_summary turn) (pl_byteBudget limits),
      count_stage (length (items_of (jget (props_of (jget turn ''subagents'')) ''changed_paths''))) vs_changedPathCount
        (\<lambda>n v. v\<lparr> vs_changedPathCount := n \<rparr>) (turn_summary turn) (pl_byteBudget limits),
      count_stage (length (items_of (jget (props_of (jget turn ''subagents'')) ''evidence_refs''))) vs_subagentEvidenceCount
        (\<lambda>n v. v\<lparr> vs_subagentEvidenceCount := n \<rparr>) (turn_summary turn) (pl_byteBudget limits)]"

text \<open>The stages run one after the other, on the variables the closures capture.\<close>

definition project_stages ::
  "('v \<Rightarrow> jsval) \<Rightarrow> ('v \<Rightarrow> 'v result) list \<Rightarrow> 'v \<Rightarrow> int \<Rightarrow> projection result" where
  "project_stages build stages start budget =
     (case wrapReaderProjection (build start) budget of Inl e \<Rightarrow> Inl e
      | Inr _ \<Rightarrow>
          (case run_steps (\<lambda>stage. stage) stages start of Inl e \<Rightarrow> Inl e
           | Inr v \<Rightarrow> wrapReaderProjection (build v) budget))"

definition projectTurn :: "properties \<Rightarrow> projection_options \<Rightarrow> projection result" where
  "projectTurn turn opts =
     (case projectionLimits opts of Inl e \<Rightarrow> Inl e
      | Inr limits \<Rightarrow>
          project_stages (turn_summary turn) (turn_text_stages turn limits @ turn_count_stages turn limits)
            minimum_view (pl_byteBudget limits))"

section \<open>Leases\<close>

record lease_view =
  lv_intentBytes :: int
  lv_commandBytes :: int
  lv_claimCount :: nat

definition minimum_lease_view :: lease_view where
  "minimum_lease_view = \<lparr> lv_intentBytes = 0, lv_commandBytes = 0, lv_claimCount = 0 \<rparr>"

definition current_action_summary :: "properties \<Rightarrow> int \<Rightarrow> jsval" where
  "current_action_summary a n =
     JObj ([(js ''kind'', jget a ''kind'')] @ optional_prop ''tool_name'' (jget a ''tool_name'') @
       optional_prop ''path'' (jget a ''path'') @ content_prop ''command'' a n @
       optional_prop ''started_at'' (jget a ''started_at''))"

definition lease_summary :: "properties \<Rightarrow> lease_view \<Rightarrow> jsval" where
  "lease_summary lease v = JObj
     ([(js ''lease_id'', jget lease ''lease_id''), (js ''provider'', jget lease ''provider''),
       (js ''session_id'', jget lease ''session_id'')] @
      optional_prop ''workstream_id'' (jget lease ''workstream_id'') @
      optional_prop ''turn_id'' (jget lease ''turn_id'') @
      [(js ''agent_id'', jget lease ''agent_id''), (js ''state'', jget lease ''state'')] @
      content_prop ''intent'' lease (lv_intentBytes v) @
      (if jget lease ''current_action'' = JUndef then []
       else [(js ''current_action'', current_action_summary (props_of (jget lease ''current_action'')) (lv_commandBytes v))]) @
      [(js ''claims'', boundedItems (items_of (jget lease ''claims'')) (lv_claimCount v)),
       (js ''unknown_write_scope'', jget lease ''unknown_write_scope''), (js ''revision'', jget lease ''revision''),
       (js ''updated_at'', jget lease ''updated_at''), (js ''expires_at'', jget lease ''expires_at''),
       (js ''source_refs'', count_json (length (items_of (jget lease ''source_refs''))))])"

definition intent_stage :: "properties \<Rightarrow> projection_limits \<Rightarrow> lease_view \<Rightarrow> lease_view result" where
  "intent_stage lease limits v =
     (if jget lease ''intent'' = JUndef then Inr v
      else size_stage (lease_summary lease) (pl_byteBudget limits) (pl_requestExcerptBytes limits)
        (\<lambda>n v. v\<lparr> lv_intentBytes := n \<rparr>) v)"

definition command_stage :: "properties \<Rightarrow> projection_limits \<Rightarrow> lease_view \<Rightarrow> lease_view result" where
  "command_stage lease limits v =
     (if jget (props_of (jget lease ''current_action'')) ''command'' = JUndef then Inr v
      else size_stage (lease_summary lease) (pl_byteBudget limits) (pl_actionExcerptBytes limits)
        (\<lambda>n v. v\<lparr> lv_commandBytes := n \<rparr>) v)"

definition projectActiveLease :: "properties \<Rightarrow> projection_options \<Rightarrow> projection result" where
  "projectActiveLease lease opts =
     (if jget lease ''state'' = JStr (js ''idle'') then Inl TypeError
      else case projectionLimits opts of Inl e \<Rightarrow> Inl e
      | Inr limits \<Rightarrow>
          project_stages (lease_summary lease)
            [intent_stage lease limits, command_stage lease limits,
             count_stage (length (items_of (jget lease ''claims''))) lv_claimCount
               (\<lambda>n v. v\<lparr> lv_claimCount := n \<rparr>) (lease_summary lease) (pl_byteBudget limits)]
            minimum_lease_view (pl_byteBudget limits))"

section \<open>Both are summaries\<close>

lemma with_sizes_plain:
  "(p, n) \<in> set (with_sizes xs ns) \<Longrightarrow> \<forall>x\<in>set xs. serializable x \<Longrightarrow> plain_properties p"
  by (induction xs ns rule: with_sizes.induct) auto

lemma plain_subagents [simp]: "plain_properties s \<Longrightarrow> serializable (subagent_summary s m n)"
  by (auto simp: subagent_summary_def list_all_iff dest: plain_items [rotated])

lemma plain_turn:
  assumes "plain_properties turn"
  shows "serializable (turn_summary turn v)"
proof -
  have "\<forall>x\<in>set (take n (items_of (jget turn ''actions''))). serializable x" for n
    using assms by (metis in_set_takeD plain_get plain_items)
  then have "list_all serializable (map (\<lambda>(a, n). projectReaderAction a n)
      (with_sizes (take (vs_actionCount v) (items_of (jget turn ''actions''))) (vs_actionTextBytes v)))"
    using with_sizes_plain by (fastforce simp: list_all_iff)
  then show ?thesis using assms by (simp add: turn_summary_def)
qed

lemma plain_lease:
  assumes "plain_properties lease"
  shows "serializable (lease_summary lease v)"
  using assms by (simp add: lease_summary_def current_action_summary_def)

interpretation turn_view: summary_view turn_summary plain_properties
  by unfold_locales (rule plain_turn)

interpretation lease_view: summary_view lease_summary plain_properties
  by unfold_locales (rule plain_lease)

section \<open>Turns within the budget\<close>

text \<open>Sizes within the limits and the turn.\<close>

definition within :: "properties \<Rightarrow> projection_limits \<Rightarrow> view_size \<Rightarrow> bool" where
  "within turn limits v \<longleftrightarrow>
     0 \<le> vs_requestBytes v \<and> vs_requestBytes v \<le> pl_requestExcerptBytes limits \<and>
     0 \<le> vs_responseBytes v \<and> vs_responseBytes v \<le> pl_responseExcerptBytes limits \<and>
     vs_actionCount v \<le> length (items_of (jget turn ''actions'')) \<and>
     length (vs_actionTextBytes v) = vs_actionCount v \<and>
     (\<forall>n\<in>set (vs_actionTextBytes v). 0 \<le> n \<and> n \<le> pl_actionExcerptBytes limits) \<and>
     vs_evidenceCount v \<le> length (items_of (jget turn ''evidence_refs'')) \<and>
     vs_changedPathCount v \<le> length (items_of (jget (props_of (jget turn ''subagents'')) ''changed_paths'')) \<and>
     vs_subagentEvidenceCount v \<le> length (items_of (jget (props_of (jget turn ''subagents'')) ''evidence_refs''))"

lemma show_actions:
  "foldl (\<lambda>v c. show_action c v) v cs =
     v\<lparr> vs_actionCount := vs_actionCount v + length cs, vs_actionTextBytes := vs_actionTextBytes v @ cs \<rparr>"
  by (induction cs arbitrary: v) (simp_all add: show_action_def)

text \<open>The sizes the stages find, one after the other.\<close>

lemma response_fits:
  assumes "plain_properties turn" "good_limits limits" "fits (turn_summary turn v) (pl_byteBudget limits)"
    and "vs_responseBytes v = 0"
  shows "\<exists>n. response_stage turn limits v = Inr (v\<lparr> vs_responseBytes := n \<rparr>) \<and> 0 \<le> n \<and>
    n \<le> pl_responseExcerptBytes limits \<and> fits (turn_summary turn (v\<lparr> vs_responseBytes := n \<rparr>)) (pl_byteBudget limits)"
proof (cases "jget turn ''response'' = JUndef")
  case True
  have "v\<lparr> vs_responseBytes := 0 \<rparr> = v" using assms(4) by simp
  with True assms(2,3) show ?thesis
    by (intro exI [of _ 0]) (simp add: response_stage_def good_limits_def safe_nonneg_def)
next
  case False
  with turn_view.size_stage_fits [OF assms(1) _ _ assms(3), of _ "\<lambda>n v. v\<lparr> vs_responseBytes := n \<rparr>"] assms(2,4)
  show ?thesis by (simp add: response_stage_def good_limits_def)
qed

lemma text_stages_fit:
  assumes "plain_properties turn" "good_limits limits" "fits (turn_summary turn minimum_view) (pl_byteBudget limits)"
  shows "\<exists>r s cs v. run_steps (\<lambda>stage. stage) (turn_text_stages turn limits) minimum_view = Inr v \<and>
    v = \<lparr> vs_requestBytes = r, vs_responseBytes = s, vs_actionCount = length cs, vs_actionTextBytes = cs,
      vs_evidenceCount = 0, vs_changedPathCount = 0, vs_subagentEvidenceCount = 0 \<rparr> \<and>
    within turn limits v \<and> fits (turn_summary turn v) (pl_byteBudget limits)"
proof -
  have b: "safe_pos (pl_byteBudget limits)" and sizes: "safe_nonneg (pl_requestExcerptBytes limits)"
    "safe_nonneg (pl_actionExcerptBytes limits)" using assms(2) by (simp_all add: good_limits_def)
  let ?fits = "\<lambda>v. fits (turn_summary turn v) (pl_byteBudget limits)"
  obtain r where r: "size_stage (turn_summary turn) (pl_byteBudget limits) (pl_requestExcerptBytes limits)
      (\<lambda>n v. v\<lparr> vs_requestBytes := n \<rparr>) minimum_view = Inr (minimum_view\<lparr> vs_requestBytes := r \<rparr>)"
    "0 \<le> r" "r \<le> pl_requestExcerptBytes limits" "?fits (minimum_view\<lparr> vs_requestBytes := r \<rparr>)"
    using turn_view.size_stage_fits [OF assms(1) b sizes(1) assms(3), of "\<lambda>n v. v\<lparr> vs_requestBytes := n \<rparr>"]
    by (auto simp: minimum_view_def)
  from response_fits [OF assms(1,2) r(4)] obtain s where
    s: "response_stage turn limits (minimum_view\<lparr> vs_requestBytes := r \<rparr>) = Inr (minimum_view\<lparr> vs_requestBytes := r, vs_responseBytes := s \<rparr>)"
      "0 \<le> s" "s \<le> pl_responseExcerptBytes limits" "?fits (minimum_view\<lparr> vs_requestBytes := r, vs_responseBytes := s \<rparr>)"
    by (auto simp: minimum_view_def)
  from turn_view.item_stage_fits [OF assms(1) b sizes(2) s(4), of "length (items_of (jget turn ''actions''))" show_action]
  obtain cs where cs: "item_stage (length (items_of (jget turn ''actions''))) (turn_summary turn) (pl_byteBudget limits)
        (pl_actionExcerptBytes limits) show_action (minimum_view\<lparr> vs_requestBytes := r, vs_responseBytes := s \<rparr>)
        = Inr (foldl (\<lambda>v c. show_action c v) (minimum_view\<lparr> vs_requestBytes := r, vs_responseBytes := s \<rparr>) cs)"
      "length cs \<le> length (items_of (jget turn ''actions''))" "\<forall>c\<in>set cs. 0 \<le> c \<and> c \<le> pl_actionExcerptBytes limits"
      "?fits (foldl (\<lambda>v c. show_action c v) (minimum_view\<lparr> vs_requestBytes := r, vs_responseBytes := s \<rparr>) cs)" by blast
  let ?v = "\<lparr> vs_requestBytes = r, vs_responseBytes = s, vs_actionCount = length cs, vs_actionTextBytes = cs,
      vs_evidenceCount = 0, vs_changedPathCount = 0, vs_subagentEvidenceCount = 0 \<rparr>"
  have v: "foldl (\<lambda>v c. show_action c v) (minimum_view\<lparr> vs_requestBytes := r, vs_responseBytes := s \<rparr>) cs = ?v"
    by (simp add: show_actions minimum_view_def)
  have "run_steps (\<lambda>stage. stage) (turn_text_stages turn limits) minimum_view = Inr ?v"
    using r(1) s(1) cs(1) by (simp add: turn_text_stages_def v)
  moreover have "within turn limits ?v" using r s cs by (simp add: within_def)
  ultimately show ?thesis using cs(4) unfolding v by blast
qed

text \<open>A stage that counts keeps what fits within the limits.\<close>

lemma count_fits:
  assumes "plain_properties turn" "good_limits limits" "within turn limits v" "fits (turn_summary turn v) (pl_byteBudget limits)"
    and "current v \<le> available" "put (current v) v = v" "\<And>n. n \<le> available \<Longrightarrow> within turn limits (put n v)"
  shows "\<exists>v'. count_stage available current put (turn_summary turn) (pl_byteBudget limits) v = Inr v' \<and>
    within turn limits v' \<and> fits (turn_summary turn v') (pl_byteBudget limits)"
proof -
  have "safe_pos (pl_byteBudget limits)" using assms(2) by (simp add: good_limits_def)
  from turn_view.count_stage_fits [where current = current and put = put, OF assms(1) this assms(4,5,6)]
  show ?thesis using assms(7) by blast
qed

lemma count_stages_fit:
  assumes "plain_properties turn" "good_limits limits" "within turn limits v" "fits (turn_summary turn v) (pl_byteBudget limits)"
  shows "\<exists>v'. run_steps (\<lambda>stage. stage) (turn_count_stages turn limits) v = Inr v' \<and> within turn limits v' \<and>
    fits (turn_summary turn v') (pl_byteBudget limits)"
proof -
  note fit = count_fits [OF assms(1,2)]
  from fit [of v vs_evidenceCount "length (items_of (jget turn ''evidence_refs''))" "\<lambda>n v. v\<lparr> vs_evidenceCount := n \<rparr>"] assms(3,4)
  obtain v1 where v1: "count_stage (length (items_of (jget turn ''evidence_refs''))) vs_evidenceCount
      (\<lambda>n v. v\<lparr> vs_evidenceCount := n \<rparr>) (turn_summary turn) (pl_byteBudget limits) v = Inr v1"
    "within turn limits v1" "fits (turn_summary turn v1) (pl_byteBudget limits)" by (auto simp: within_def)
  from fit [of v1 vs_changedPathCount "length (items_of (jget (props_of (jget turn ''subagents'')) ''changed_paths''))"
      "\<lambda>n v. v\<lparr> vs_changedPathCount := n \<rparr>"] v1(2,3)
  obtain v2 where v2: "count_stage (length (items_of (jget (props_of (jget turn ''subagents'')) ''changed_paths''))) vs_changedPathCount
      (\<lambda>n v. v\<lparr> vs_changedPathCount := n \<rparr>) (turn_summary turn) (pl_byteBudget limits) v1 = Inr v2"
    "within turn limits v2" "fits (turn_summary turn v2) (pl_byteBudget limits)" by (auto simp: within_def)
  from fit [of v2 vs_subagentEvidenceCount "length (items_of (jget (props_of (jget turn ''subagents'')) ''evidence_refs''))"
      "\<lambda>n v. v\<lparr> vs_subagentEvidenceCount := n \<rparr>"] v2(2,3)
  obtain v3 where v3: "count_stage (length (items_of (jget (props_of (jget turn ''subagents'')) ''evidence_refs''))) vs_subagentEvidenceCount
      (\<lambda>n v. v\<lparr> vs_subagentEvidenceCount := n \<rparr>) (turn_summary turn) (pl_byteBudget limits) v2 = Inr v3"
    "within turn limits v3" "fits (turn_summary turn v3) (pl_byteBudget limits)" by (auto simp: within_def)
  show ?thesis using v1(1) v2(1) v3 by (simp add: turn_count_stages_def)
qed

section \<open>Properties\<close>

text \<open>C23: The projection of a turn that can be serialized fails exactly when its minimum does not fit
  the budget; otherwise it returns the summary for sizes within the limits and the turn, with the
  exact size of the envelope, which is within the budget.\<close>

theorem projectTurn_exact:
  assumes "serializable (JObj turn)" "projectionLimits opts = Inr limits"
  shows "projectTurn turn opts = Inl ReaderByteBudgetTooSmallError \<and>
      readerProjectionFits (turn_summary turn minimum_view) (po_byteBudget opts) = Inr False \<or>
    (\<exists>p v. projectTurn turn opts = Inr p \<and>
      readerProjectionFits (turn_summary turn minimum_view) (po_byteBudget opts) = Inr True \<and>
      p_value p = turn_summary turn v \<and> within turn limits v \<and>
      byte_budget p = po_byteBudget opts \<and> utf8_bytes p \<le> po_byteBudget opts \<and>
      stableJsonUtf8Bytes (projection_json p) = Inr (utf8_bytes p))"
proof -
  have plain: "plain_properties turn" and good: "good_limits limits"
    using assms projectionLimits_good by (simp_all add: plain_properties_def)
  have budget: "pl_byteBudget limits = po_byteBudget opts"
    using assms(2) by (auto simp: projectionLimits_def split: sum.splits)
  have b: "safe_pos (po_byteBudget opts)" using good budget by (simp add: good_limits_def)
  note total = turn_view.view_fits [OF plain b, of minimum_view]
  show ?thesis
  proof (cases "fits (turn_summary turn minimum_view) (po_byteBudget opts)")
    case True
    from text_stages_fit [OF plain good, unfolded budget, OF True] obtain v where
      v: "run_steps (\<lambda>stage. stage) (turn_text_stages turn limits) minimum_view = Inr v" "within turn limits v"
        "fits (turn_summary turn v) (po_byteBudget opts)" by blast
    from count_stages_fit [OF plain good v(2), unfolded budget, OF v(3)] obtain v' where
      v': "run_steps (\<lambda>stage. stage) (turn_count_stages turn limits) v = Inr v'" "within turn limits v'"
        "fits (turn_summary turn v') (po_byteBudget opts)" by blast
    from turn_view.wraps [OF plain b v'(3)] turn_view.wraps [OF plain b True] v(1) v' total True assms(2)
    show ?thesis by (auto simp: projectTurn_def project_stages_def run_steps_append budget)
  next
    case False
    with turn_view.refused [OF plain b False] total assms(2) show ?thesis
      by (simp add: projectTurn_def project_stages_def budget)
  qed
qed

text \<open>A turn whose minimum fits, so that there is a projection.\<close>

definition small_turn :: properties where
  "small_turn = [(js ''turn_id'', JStr (js ''t'')), (js ''request'', JObj [(js ''text'', JStr (js ''hi''))])]"

definition turn_options :: projection_options where
  "turn_options = \<lparr> po_byteBudget = 65536, po_requestExcerptBytes = None, po_responseExcerptBytes = None,
     po_actionExcerptBytes = None \<rparr>"

lemma turn_options_limits: "\<exists>limits. projectionLimits turn_options = Inr limits \<and> pl_byteBudget limits = 65536"
  by (simp add: projectionLimits_def turn_options_def given_def assertReaderByteBudget_def
      assertReaderNonNegativeInteger_def safe_pos_def safe_nonneg_def safe_int_def max_safe_def)

lemmas summary_evaluation = content_summary_def optional_prop_def content_prop_def boundedItems_def
  projection_json_def props_of_def items_of_def text_in_def jget_def js_def decimal_def decimal_nat.simps
  Let_def byte_length_def utf8_ascii_Cons ascii_unit_def

lemma small_turn_fits: "readerProjectionFits (turn_summary small_turn minimum_view) 65536 = Inr True"
proof -
  have budget: "safe_pos 65536" by (simp add: safe_pos_def safe_int_def max_safe_def)
  have plain: "serializable (turn_summary small_turn minimum_view)"
    by (rule plain_turn) (simp add: small_turn_def plain_properties_def)
  have "fits (turn_summary small_turn minimum_view) 65536"
    by (rule small_fits [OF plain budget])
      (simp add: turn_summary_def subagent_summary_def minimum_view_def small_turn_def summary_evaluation)
  with fits_total [OF plain budget] show ?thesis by simp
qed

theorem projectTurn_exact_witness:
  "\<exists>p v. projectTurn small_turn turn_options = Inr p \<and> p_value p = turn_summary small_turn v \<and> utf8_bytes p \<le> 65536"
proof -
  obtain limits where l: "projectionLimits turn_options = Inr limits" using turn_options_limits by blast
  have "serializable (JObj small_turn)" by (simp add: small_turn_def)
  from projectTurn_exact [OF this l] small_turn_fits show ?thesis by (auto simp: turn_options_def)
qed

end
