(* ===== verification/Evidence_Projection.thy ===== *)
theory Evidence_Projection
  imports Turn_Projection
begin

text \<open>
  \<open>projectEvidence\<close> of \<open>reader/projection.ts\<close>: the bounded view of an evidence record.  The actions of a
  subagent turn are given in pages; the cursor of a page names the first action of the next.
\<close>

section \<open>Envelope and excerpts\<close>

definition evidence_envelope :: "properties \<Rightarrow> properties" where
  "evidence_envelope ev =
     [(js ''schema'', JStr (js ''barbaro.reader.evidence.v1'')), (js ''evidence_id'', jget ev ''evidence_id''),
      (js ''kind'', jget ev ''kind''), (js ''turn_id'', jget ev ''turn_id''), (js ''provider'', jget ev ''provider''),
      (js ''session_id'', jget ev ''session_id'')] @
     optional_prop ''workstream_id'' (jget ev ''workstream_id'') @
     [(js ''agent_id'', jget ev ''agent_id'')] @
     optional_prop ''parent_turn_id'' (jget ev ''parent_turn_id'') @
     (if jget ev ''parent_link'' = JUndef then [] else [(js ''parent_link'', JObj (props_of (jget ev ''parent_link'')))]) @
     [(js ''occurred_at'', jget ev ''occurred_at''),
      (js ''source_refs'', count_json (length (items_of (jget ev ''source_refs''))))]"

definition jsonExcerpt :: "jstr \<Rightarrow> int \<Rightarrow> jsval" where
  "jsonExcerpt canonical maximum =
     (let text = (if int (byte_length canonical) \<le> maximum then canonical
                  else truncate_loop maximum 0 [] (characters canonical))
      in JObj [(js ''text'', JStr text), (js ''truncated'', JBool (length text \<noteq> length canonical)),
           (js ''utf8_bytes'', JObj [(js ''shown'', count_json (byte_length text)),
              (js ''original'', count_json (byte_length canonical))])])"

section \<open>Evidence that is no subagent turn\<close>

definition general_summary :: "properties \<times> jstr \<Rightarrow> int \<Rightarrow> jsval" where
  "general_summary e n = JObj (evidence_envelope (fst e) @ [(js ''content'', jsonExcerpt (snd e) n)])"

definition projectGeneralEvidence :: "properties \<Rightarrow> projection_limits \<Rightarrow> projection result" where
  "projectGeneralEvidence ev limits =
     (case stableStringify (jget ev ''content'') of Inl e \<Rightarrow> Inl e
      | Inr canonical \<Rightarrow>
          project_stages (general_summary (ev, canonical))
            [size_stage (general_summary (ev, canonical)) (pl_byteBudget limits) (pl_responseExcerptBytes limits) (\<lambda>n _. n)]
            0 (pl_byteBudget limits))"

section \<open>Subagent turns\<close>

record evidence_view =
  ev_requestBytes :: int
  ev_responseBytes :: int
  ev_actionsShown :: nat
  ev_actionTextBytes :: "int list"

definition minimum_evidence_view :: evidence_view where
  "minimum_evidence_view =
     \<lparr> ev_requestBytes = 0, ev_responseBytes = 0, ev_actionsShown = 0, ev_actionTextBytes = [] \<rparr>"

abbreviation content_of :: "properties \<Rightarrow> properties" where
  "content_of ev \<equiv> props_of (jget ev ''content'')"

abbreviation actions_of :: "properties \<Rightarrow> jsval list" where
  "actions_of ev \<equiv> items_of (jget (content_of ev) ''actions'')"

definition action_cursor :: "nat \<Rightarrow> jstr" where
  "action_cursor n = js ''a:'' @ decimal (int n)"

text \<open>The page of the actions from an offset.\<close>

definition action_page :: "jsval list \<Rightarrow> nat \<Rightarrow> nat \<Rightarrow> int list \<Rightarrow> jsval" where
  "action_page actions offset shown sizes =
     JObj ([(js ''shown'', count_json shown), (js ''total'', count_json (length actions)),
        (js ''items'', JArr (map (\<lambda>(a, n). projectReaderAction a n) (with_sizes (take shown (drop offset actions)) sizes)))] @
       (if offset + shown \<ge> length actions then [] else [(js ''next_cursor'', JStr (action_cursor (offset + shown)))]))"

definition subagent_evidence :: "properties \<times> nat \<Rightarrow> evidence_view \<Rightarrow> jsval" where
  "subagent_evidence e v =
     (let c = content_of (fst e) in
      JObj (evidence_envelope (fst e) @
        [(js ''content'', JObj
          ([(js ''role'', jget c ''role''), (js ''sequence'', jget c ''sequence''), (js ''outcome'', jget c ''outcome''),
            (js ''started_at'', jget c ''started_at''), (js ''ended_at'', jget c ''ended_at''),
            (js ''request'', content_summary (props_of (jget c ''request'')) (ev_requestBytes v))] @
           content_prop ''response'' c (ev_responseBytes v) @
           [(js ''actions'', action_page (actions_of (fst e)) (snd e) (ev_actionsShown v) (ev_actionTextBytes v))]))]))"

definition parseActionCursor :: "jstr option \<Rightarrow> nat \<Rightarrow> nat result" where
  "parseActionCursor cursor available =
     (case cursor of None \<Rightarrow> Inr 0
      | Some c \<Rightarrow>
          if \<not> (take 2 c = js ''a:'' \<and> decimal_pattern (drop 2 c)) then Inl TypeError
          else if int (value_of_digits (drop 2 c)) > max_safe \<or> value_of_digits (drop 2 c) > available then Inl RangeError
          else Inr (value_of_digits (drop 2 c)))"

definition append_action :: "int \<Rightarrow> evidence_view \<Rightarrow> evidence_view" where
  "append_action n v = v\<lparr> ev_actionsShown := ev_actionsShown v + 1, ev_actionTextBytes := ev_actionTextBytes v @ [n] \<rparr>"

definition evidence_response_stage ::
  "properties \<Rightarrow> nat \<Rightarrow> projection_limits \<Rightarrow> evidence_view \<Rightarrow> evidence_view result" where
  "evidence_response_stage ev offset limits v =
     (if jget (content_of ev) ''response'' = JUndef then Inr v
      else size_stage (subagent_evidence (ev, offset)) (pl_byteBudget limits) (pl_responseExcerptBytes limits)
        (\<lambda>n v. v\<lparr> ev_responseBytes := n \<rparr>) v)"

text \<open>The actions of a page: as many as fit of those that are left.\<close>

definition page_stage :: "nat \<Rightarrow> properties \<Rightarrow> nat \<Rightarrow> projection_limits \<Rightarrow> evidence_view \<Rightarrow> evidence_view result" where
  "page_stage left ev offset limits =
     item_stage left (subagent_evidence (ev, offset)) (pl_byteBudget limits) (pl_actionExcerptBytes limits) append_action"

definition rest_stage :: "properties \<Rightarrow> nat \<Rightarrow> projection_limits \<Rightarrow> evidence_view \<Rightarrow> evidence_view result" where
  "rest_stage ev offset limits v =
     page_stage (length (actions_of ev) - (offset + ev_actionsShown v)) ev offset limits v"

definition projectSubagentEvidence :: "properties \<Rightarrow> jstr option \<Rightarrow> projection_limits \<Rightarrow> projection result" where
  "projectSubagentEvidence ev cursor limits =
     (case parseActionCursor cursor (length (actions_of ev)) of Inl e \<Rightarrow> Inl e
      | Inr offset \<Rightarrow>
          let build = subagent_evidence (ev, offset); budget = pl_byteBudget limits in
          (case wrapReaderProjection (build minimum_evidence_view) budget of Inl e \<Rightarrow> Inl e
           | Inr _ \<Rightarrow>
               (case (if offset < length (actions_of ev) then page_stage 1 ev offset limits minimum_evidence_view
                      else Inr minimum_evidence_view) of Inl e \<Rightarrow> Inl e
                | Inr v \<Rightarrow>
                    if offset < length (actions_of ev) \<and> ev_actionsShown v = 0
                    then wrapReaderProjection (build (append_action 0 v)) budget
                    else (case run_steps (\<lambda>stage. stage)
                        [size_stage build budget (pl_requestExcerptBytes limits) (\<lambda>n v. v\<lparr> ev_requestBytes := n \<rparr>),
                         evidence_response_stage ev offset limits, rest_stage ev offset limits] v of Inl e \<Rightarrow> Inl e
                      | Inr v' \<Rightarrow> wrapReaderProjection (build v') budget))))"

definition projectEvidence :: "properties \<Rightarrow> projection_options \<Rightarrow> jstr option \<Rightarrow> projection result" where
  "projectEvidence ev opts cursor =
     (case projectionLimits opts of Inl e \<Rightarrow> Inl e
      | Inr limits \<Rightarrow>
          if jget ev ''kind'' \<noteq> JStr (js ''subagent_turn'') then
            (if cursor \<noteq> None then Inl TypeError else projectGeneralEvidence ev limits)
          else projectSubagentEvidence ev cursor limits)"

section \<open>Both are summaries\<close>

lemma plain_envelope [simp]: "plain_properties ev \<Longrightarrow> list_all (\<lambda>(k, v). serializable v) (evidence_envelope ev)"
  using plain_props [OF plain_get, of ev "''parent_link''"] by (simp add: evidence_envelope_def plain_properties_def)

lemma plain_page:
  assumes "\<forall>x\<in>set actions. serializable x"
  shows "serializable (action_page actions offset shown sizes)"
proof -
  have "\<forall>x\<in>set (take shown (drop offset actions)). serializable x" using assms by (meson in_set_dropD in_set_takeD)
  then have "list_all serializable (map (\<lambda>(a, n). projectReaderAction a n) (with_sizes (take shown (drop offset actions)) sizes))"
    using with_sizes_plain by (fastforce simp: list_all_iff)
  then show ?thesis by (simp add: action_page_def)
qed

lemma plain_general: "plain_properties (fst e) \<Longrightarrow> serializable (general_summary e n)"
  by (simp add: general_summary_def jsonExcerpt_def Let_def)

lemma plain_subagent:
  assumes "plain_properties (fst e)"
  shows "serializable (subagent_evidence e v)"
proof -
  have c: "plain_properties (content_of (fst e))" using assms by simp
  then have "\<forall>x\<in>set (actions_of (fst e)). serializable x" by (metis plain_get plain_items)
  then show ?thesis using assms c plain_page by (simp add: subagent_evidence_def Let_def)
qed

interpretation general_view: summary_view general_summary "\<lambda>e. plain_properties (fst e)"
  by unfold_locales (rule plain_general)

interpretation subagent_view: summary_view subagent_evidence "\<lambda>e. plain_properties (fst e)"
  by unfold_locales (rule plain_subagent)

section \<open>Cursors\<close>

lemma decimal_nat_leads:
  "0 < n \<Longrightarrow> \<exists>u us. decimal_nat n = u # us \<and> 0x31 \<le> u \<and> u \<le> 0x39 \<and> list_all is_digit us"
proof (induction n rule: decimal_nat.induct)
  case (1 n)
  show ?case
  proof (cases "n < 10")
    case True
    with 1(2) show ?thesis
      by (subst decimal_nat.simps) (simp add: word_le_nat_alt unat_digit_unit)
  next
    case False
    then have "0 < n div 10" by (simp add: div_greater_zero_iff)
    with False 1(1) obtain u us where "decimal_nat (n div 10) = u # us" "0x31 \<le> u" "u \<le> 0x39" "list_all is_digit us" by auto
    with False show ?thesis by (subst decimal_nat.simps) (simp add: digit_unit_is_digit)
  qed
qed

lemma decimal_decimal_pattern: "decimal_pattern (decimal (int n))"
proof (cases "n = 0")
  case True
  have "decimal_nat 0 = [0x30]" by (subst decimal_nat.simps) (simp add: digit_unit_def unit_of_def)
  with True show ?thesis by (simp add: decimal_pattern_def decimal_def)
next
  case False
  with decimal_nat_leads [of n] show ?thesis by (auto simp: decimal_pattern_def decimal_def)
qed

lemma parse_action_cursor:
  "n \<le> available \<Longrightarrow> int n \<le> max_safe \<Longrightarrow> parseActionCursor (Some (action_cursor n)) available = Inr n"
  using decimal_decimal_pattern [of n]
  by (simp add: parseActionCursor_def action_cursor_def js_def [of "''a:''"] decimal_def value_of_decimal_nat)

lemma parse_cursor_bound: "parseActionCursor cursor available = Inr offset \<Longrightarrow> offset \<le> available"
  by (auto simp: parseActionCursor_def split: option.splits if_splits)

section \<open>Pages\<close>

lemma append_actions:
  "foldl (\<lambda>v c. append_action c v) v cs =
     v\<lparr> ev_actionsShown := ev_actionsShown v + length cs, ev_actionTextBytes := ev_actionTextBytes v @ cs \<rparr>"
  by (induction cs arbitrary: v) (simp_all add: append_action_def)

text \<open>A view of some actions, with a text bound for each.\<close>

definition page_view :: "projection_limits \<Rightarrow> nat \<Rightarrow> evidence_view \<Rightarrow> bool" where
  "page_view limits left v \<longleftrightarrow> ev_actionsShown v \<le> left \<and> length (ev_actionTextBytes v) = ev_actionsShown v \<and>
     (\<forall>n\<in>set (ev_actionTextBytes v). 0 \<le> n \<and> n \<le> pl_actionExcerptBytes limits)"

lemma page_stage_fits:
  assumes "plain_properties ev" "good_limits limits" "fits (subagent_evidence (ev, offset) v) (pl_byteBudget limits)"
    and "page_view limits (ev_actionsShown v) v"
  shows "\<exists>v'. page_stage left ev offset limits v = Inr v' \<and> page_view limits (ev_actionsShown v + left) v' \<and>
    ev_actionsShown v \<le> ev_actionsShown v' \<and> fits (subagent_evidence (ev, offset) v') (pl_byteBudget limits) \<and>
    ev_responseBytes v' = ev_responseBytes v \<and> ev_requestBytes v' = ev_requestBytes v"
proof -
  have "safe_pos (pl_byteBudget limits)" "safe_nonneg (pl_actionExcerptBytes limits)"
    using assms(2) by (simp_all add: good_limits_def)
  from subagent_view.item_stage_fits [of "(ev, offset)", OF _ this assms(3), of left append_action] assms(1) obtain cs where
    "page_stage left ev offset limits v = Inr (foldl (\<lambda>v c. append_action c v) v cs)" "length cs \<le> left"
    "\<forall>c\<in>set cs. 0 \<le> c \<and> c \<le> pl_actionExcerptBytes limits"
    "fits (subagent_evidence (ev, offset) (foldl (\<lambda>v c. append_action c v) v cs)) (pl_byteBudget limits)"
    by (auto simp: page_stage_def)
  then show ?thesis using assms(4)
    by (intro exI [of _ "foldl (\<lambda>v c. append_action c v) v cs"]) (auto simp: append_actions page_view_def)
qed

lemma request_stage_fits:
  assumes "plain_properties ev" "good_limits limits" "fits (subagent_evidence (ev, offset) v) (pl_byteBudget limits)"
    and "ev_requestBytes v = 0" "ev_responseBytes v = 0"
  shows "\<exists>r s. size_stage (subagent_evidence (ev, offset)) (pl_byteBudget limits) (pl_requestExcerptBytes limits)
      (\<lambda>n v. v\<lparr> ev_requestBytes := n \<rparr>) v = Inr (v\<lparr> ev_requestBytes := r \<rparr>) \<and>
    evidence_response_stage ev offset limits (v\<lparr> ev_requestBytes := r \<rparr>) = Inr (v\<lparr> ev_requestBytes := r, ev_responseBytes := s \<rparr>) \<and>
    fits (subagent_evidence (ev, offset) (v\<lparr> ev_requestBytes := r, ev_responseBytes := s \<rparr>)) (pl_byteBudget limits)"
proof -
  have b: "safe_pos (pl_byteBudget limits)" "safe_nonneg (pl_requestExcerptBytes limits)"
    "safe_nonneg (pl_responseExcerptBytes limits)" and plain: "plain_properties (fst (ev, offset))"
    using assms(1,2) by (simp_all add: good_limits_def)
  have zero: "v\<lparr> ev_requestBytes := 0 \<rparr> = v" using assms(4) by simp
  from subagent_view.size_stage_fits [OF plain b(1,2) assms(3), of "\<lambda>n v. v\<lparr> ev_requestBytes := n \<rparr>", OF zero] obtain r where
    r: "size_stage (subagent_evidence (ev, offset)) (pl_byteBudget limits) (pl_requestExcerptBytes limits)
      (\<lambda>n v. v\<lparr> ev_requestBytes := n \<rparr>) v = Inr (v\<lparr> ev_requestBytes := r \<rparr>)"
      "fits (subagent_evidence (ev, offset) (v\<lparr> ev_requestBytes := r \<rparr>)) (pl_byteBudget limits)" by blast
  have zero': "v\<lparr> ev_requestBytes := r, ev_responseBytes := 0 \<rparr> = v\<lparr> ev_requestBytes := r \<rparr>" using assms(5) by simp
  show ?thesis
  proof (cases "jget (content_of ev) ''response'' = JUndef")
    case True
    with r zero' show ?thesis by (intro exI [of _ r] exI [of _ 0]) (simp add: evidence_response_stage_def)
  next
    case False
    with subagent_view.size_stage_fits [OF plain b(1,3) r(2), of "\<lambda>n v. v\<lparr> ev_responseBytes := n \<rparr>", OF zero'] r(1)
    show ?thesis by (auto simp: evidence_response_stage_def)
  qed
qed

lemma page_view_mono: "page_view limits m v \<Longrightarrow> m \<le> n \<Longrightarrow> page_view limits n v"
  by (simp add: page_view_def)

text \<open>The stages after the first action.\<close>

lemma later_stages_fit:
  assumes "plain_properties ev" "good_limits limits" "fits (subagent_evidence (ev, offset) v) (pl_byteBudget limits)"
    and "ev_requestBytes v = 0" "ev_responseBytes v = 0" "page_view limits (ev_actionsShown v) v"
    and "offset + ev_actionsShown v \<le> length (actions_of ev)"
  shows "\<exists>v'. run_steps (\<lambda>stage. stage)
      [size_stage (subagent_evidence (ev, offset)) (pl_byteBudget limits) (pl_requestExcerptBytes limits)
         (\<lambda>n v. v\<lparr> ev_requestBytes := n \<rparr>),
       evidence_response_stage ev offset limits, rest_stage ev offset limits] v = Inr v' \<and>
    page_view limits (length (actions_of ev) - offset) v' \<and> ev_actionsShown v \<le> ev_actionsShown v' \<and>
    fits (subagent_evidence (ev, offset) v') (pl_byteBudget limits)"
proof -
  from request_stage_fits [OF assms(1-5)] obtain r s where
    q: "size_stage (subagent_evidence (ev, offset)) (pl_byteBudget limits) (pl_requestExcerptBytes limits)
      (\<lambda>n v. v\<lparr> ev_requestBytes := n \<rparr>) v = Inr (v\<lparr> ev_requestBytes := r \<rparr>)"
    "evidence_response_stage ev offset limits (v\<lparr> ev_requestBytes := r \<rparr>) = Inr (v\<lparr> ev_requestBytes := r, ev_responseBytes := s \<rparr>)"
    "fits (subagent_evidence (ev, offset) (v\<lparr> ev_requestBytes := r, ev_responseBytes := s \<rparr>)) (pl_byteBudget limits)" by blast
  let ?w = "v\<lparr> ev_requestBytes := r, ev_responseBytes := s \<rparr>"
  have "page_view limits (ev_actionsShown ?w) ?w" using assms(6) by (simp add: page_view_def)
  from page_stage_fits [OF assms(1,2) q(3) this, of "length (actions_of ev) - (offset + ev_actionsShown ?w)"]
  obtain v' where v': "rest_stage ev offset limits ?w = Inr v'"
    "page_view limits (ev_actionsShown v + (length (actions_of ev) - (offset + ev_actionsShown v))) v'"
    "ev_actionsShown v \<le> ev_actionsShown v'" "fits (subagent_evidence (ev, offset) v') (pl_byteBudget limits)"
    by (auto simp: rest_stage_def)
  have "page_view limits (length (actions_of ev) - offset) v'"
    by (rule page_view_mono [OF v'(2)]) (use assms(7) in simp)
  with q v' show ?thesis by simp
qed

text \<open>A page: it shows at least one action if any is left, and is refused when that does not fit.\<close>

definition is_page :: "properties \<Rightarrow> projection_limits \<Rightarrow> nat \<Rightarrow> projection \<Rightarrow> bool" where
  "is_page ev limits offset p \<longleftrightarrow>
     (\<exists>v. p_value p = subagent_evidence (ev, offset) v \<and> page_view limits (length (actions_of ev) - offset) v \<and>
       (offset < length (actions_of ev) \<longrightarrow> 0 < ev_actionsShown v) \<and> utf8_bytes p \<le> pl_byteBudget limits)"

text \<open>The least a page has to show, its first action without text, fits the budget.\<close>

definition page_fits :: "properties \<Rightarrow> projection_limits \<Rightarrow> nat \<Rightarrow> bool" where
  "page_fits ev limits offset \<longleftrightarrow>
     fits (subagent_evidence (ev, offset) minimum_evidence_view) (pl_byteBudget limits) \<and>
     (offset < length (actions_of ev) \<longrightarrow>
        fits (subagent_evidence (ev, offset) (append_action 0 minimum_evidence_view)) (pl_byteBudget limits))"

lemma wraps_page:
  assumes "plain_properties ev" "good_limits limits" "page_view limits (length (actions_of ev) - offset) v"
    and "offset < length (actions_of ev) \<longrightarrow> 0 < ev_actionsShown v"
    and "fits (subagent_evidence (ev, offset) v) (pl_byteBudget limits)"
  shows "\<exists>p. wrapReaderProjection (subagent_evidence (ev, offset) v) (pl_byteBudget limits) = Inr p \<and> is_page ev limits offset p"
  using subagent_view.wraps [of "(ev, offset)" "pl_byteBudget limits" v] assms
  by (auto simp: good_limits_def is_page_def)

lemma refuses_page:
  assumes "plain_properties ev" "good_limits limits" "\<not> fits (subagent_evidence (ev, offset) v) (pl_byteBudget limits)"
  shows "wrapReaderProjection (subagent_evidence (ev, offset) v) (pl_byteBudget limits) = Inl ReaderByteBudgetTooSmallError"
  using subagent_view.refused [of "(ev, offset)" "pl_byteBudget limits" v] assms by (simp add: good_limits_def)

text \<open>A page that shows nothing is the minimum.\<close>

lemma empty_page:
  assumes "page_view limits left v" "ev_actionsShown v = 0" "ev_responseBytes v = 0" "ev_requestBytes v = 0"
  shows "v = minimum_evidence_view"
  using assms by (cases v) (simp add: page_view_def minimum_evidence_view_def)

lemma evidence_page:
  assumes "plain_properties ev" "projectionLimits opts = Inr limits" "jget ev ''kind'' = JStr (js ''subagent_turn'')"
    and "parseActionCursor cursor (length (actions_of ev)) = Inr offset"
  shows "projectEvidence ev opts cursor = Inl ReaderByteBudgetTooSmallError \<and> \<not> page_fits ev limits offset \<or>
    (\<exists>p. projectEvidence ev opts cursor = Inr p \<and> is_page ev limits offset p)"
proof (cases "fits (subagent_evidence (ev, offset) minimum_evidence_view) (pl_byteBudget limits)")
  case False
  with refuses_page [OF assms(1) projectionLimits_good [OF assms(2)] False] assms
  show ?thesis by (simp add: projectEvidence_def projectSubagentEvidence_def Let_def page_fits_def)
next
  case fits: True
  have good: "good_limits limits" by (rule projectionLimits_good [OF assms(2)])
  note bound = parse_cursor_bound [OF assms(4)]
  obtain p0 where p0: "wrapReaderProjection (subagent_evidence (ev, offset) minimum_evidence_view) (pl_byteBudget limits) = Inr p0"
    using subagent_view.wraps [of "(ev, offset)" "pl_byteBudget limits"] fits assms(1) good by (auto simp: good_limits_def)
  have start: "page_view limits (ev_actionsShown minimum_evidence_view) minimum_evidence_view"
    by (simp add: page_view_def minimum_evidence_view_def)
  define left where "left = (if offset < length (actions_of ev) then 1 else 0 :: nat)"
  from page_stage_fits [OF assms(1) good fits start, of left] obtain v where
    v: "page_stage left ev offset limits minimum_evidence_view = Inr v" "page_view limits left v"
      "fits (subagent_evidence (ev, offset) v) (pl_byteBudget limits)" "ev_responseBytes v = 0" "ev_requestBytes v = 0"
    by (auto simp: minimum_evidence_view_def)
  have first: "(if offset < length (actions_of ev) then page_stage 1 ev offset limits minimum_evidence_view
      else Inr minimum_evidence_view) = Inr v"
    using v(1) by (auto simp: left_def page_stage_def)
  have run: "projectEvidence ev opts cursor =
      (if offset < length (actions_of ev) \<and> ev_actionsShown v = 0
       then wrapReaderProjection (subagent_evidence (ev, offset) (append_action 0 v)) (pl_byteBudget limits)
       else case run_steps (\<lambda>stage. stage)
         [size_stage (subagent_evidence (ev, offset)) (pl_byteBudget limits) (pl_requestExcerptBytes limits)
           (\<lambda>n v. v\<lparr> ev_requestBytes := n \<rparr>),
          evidence_response_stage ev offset limits, rest_stage ev offset limits] v of Inl e \<Rightarrow> Inl e
         | Inr v' \<Rightarrow> wrapReaderProjection (subagent_evidence (ev, offset) v') (pl_byteBudget limits))"
    using assms(2-4) p0 first by (simp add: projectEvidence_def projectSubagentEvidence_def Let_def)
  show ?thesis
  proof (cases "offset < length (actions_of ev) \<and> ev_actionsShown v = 0")
    case True
    have "page_view limits (length (actions_of ev) - offset) (append_action 0 v)"
      using True v(2) good by (auto simp: page_view_def append_action_def good_limits_def safe_nonneg_def)
    note page = wraps_page [OF assms(1) good this]
    show ?thesis
    proof (cases "fits (subagent_evidence (ev, offset) (append_action 0 v)) (pl_byteBudget limits)")
      case yes: True
      from page [OF _ yes] True run show ?thesis by (simp add: append_action_def)
    next
      case no: False
      with empty_page [OF v(2) _ v(4,5)] True have "\<not> page_fits ev limits offset" by (simp add: page_fits_def)
      with refuses_page [OF assms(1) good no] True run show ?thesis by simp
    qed
  next
    case False
    have "page_view limits (ev_actionsShown v) v" using v(2) by (simp add: page_view_def)
    moreover have "offset + ev_actionsShown v \<le> length (actions_of ev)"
      using v(2) bound by (auto simp: page_view_def left_def split: if_splits)
    ultimately obtain v' where v': "run_steps (\<lambda>stage. stage)
         [size_stage (subagent_evidence (ev, offset)) (pl_byteBudget limits) (pl_requestExcerptBytes limits)
           (\<lambda>n v. v\<lparr> ev_requestBytes := n \<rparr>),
          evidence_response_stage ev offset limits, rest_stage ev offset limits] v = Inr v'"
        "page_view limits (length (actions_of ev) - offset) v'" "ev_actionsShown v \<le> ev_actionsShown v'"
        "fits (subagent_evidence (ev, offset) v') (pl_byteBudget limits)"
      using later_stages_fit [OF assms(1) good v(3,5,4)] by blast
    from wraps_page [OF assms(1) good v'(2)] v'(3) v'(4) False run [unfolded v'(1)] show ?thesis by auto
  qed
qed

end
