(* ===== verification/Evidence_Pages.thy ===== *)
theory Evidence_Pages
  imports Evidence_Projection
begin

text \<open>
  Reading the actions of a subagent turn page by page: whoever follows the cursors gets every action
  once and in order, and the pages come to an end.
\<close>

section \<open>What a page says\<close>

definition page_of :: "projection \<Rightarrow> properties" where
  "page_of p = props_of (jget (props_of (jget (props_of (p_value p)) ''content'')) ''actions'')"

definition page_items :: "projection \<Rightarrow> jsval list" where
  "page_items p = items_of (jget (page_of p) ''items'')"

definition page_cursor :: "projection \<Rightarrow> jstr option" where
  "page_cursor p = as_string (jget (page_of p) ''next_cursor'')"

text \<open>Following the cursors, at most so many pages.\<close>

fun follow_pages :: "nat \<Rightarrow> properties \<Rightarrow> projection_options \<Rightarrow> jstr option \<Rightarrow> jsval list result" where
  "follow_pages 0 ev opts cursor = Inl PlainError"
| "follow_pages (Suc n) ev opts cursor =
     (case projectEvidence ev opts cursor of Inl e \<Rightarrow> Inl e
      | Inr p \<Rightarrow>
          (case page_cursor p of None \<Rightarrow> Inr (page_items p)
           | Some c \<Rightarrow> (case follow_pages n ev opts (Some c) of Inl e \<Rightarrow> Inl e | Inr xs \<Rightarrow> Inr (page_items p @ xs))))"

lemma jget_of_append: "jget (ps @ qs) key = (if js key \<in> fst ` set ps then jget ps key else jget qs key)"
  by (auto simp: jget_def map_add_def dom_map_of_conv_image_fst [symmetric] split: option.split)

lemma envelope_keys: "js ''content'' \<notin> fst ` set (evidence_envelope ev)"
  by (simp add: evidence_envelope_def optional_prop_def)

lemma content_prop_keys: "key \<noteq> k \<Longrightarrow> js key \<notin> fst ` set (content_prop k ps n)"
  by (simp add: content_prop_def)

lemma jget_last: "js key \<notin> fst ` set ps \<Longrightarrow> jget (ps @ [(js key, x)]) key = x"
  by (simp add: jget_of_append)

definition content_fields :: "properties \<Rightarrow> evidence_view \<Rightarrow> properties" where
  "content_fields c v =
     [(js ''role'', jget c ''role''), (js ''sequence'', jget c ''sequence''), (js ''outcome'', jget c ''outcome''),
      (js ''started_at'', jget c ''started_at''), (js ''ended_at'', jget c ''ended_at''),
      (js ''request'', content_summary (props_of (jget c ''request'')) (ev_requestBytes v))] @
     content_prop ''response'' c (ev_responseBytes v)"

lemma page_of_summary:
  assumes "p_value p = subagent_evidence (ev, offset) v"
  shows "JObj (page_of p) = action_page (actions_of ev) offset (ev_actionsShown v) (ev_actionTextBytes v)"
proof -
  let ?page = "action_page (actions_of ev) offset (ev_actionsShown v) (ev_actionTextBytes v)"
  have "p_value p = JObj (evidence_envelope ev @
      [(js ''content'', JObj (content_fields (content_of ev) v @ [(js ''actions'', ?page)]))])"
    unfolding assms by (simp add: subagent_evidence_def content_fields_def Let_def)
  then have "jget (props_of (p_value p)) ''content'' = JObj (content_fields (content_of ev) v @ [(js ''actions'', ?page)])"
    using jget_last [OF envelope_keys] by (simp add: props_of_def)
  moreover have "js ''actions'' \<notin> fst ` set (content_fields (content_of ev) v)"
    by (simp add: content_fields_def content_prop_keys)
  ultimately have "page_of p = props_of ?page"
    unfolding page_of_def using jget_last by (simp add: props_of_def)
  then show ?thesis by (simp add: action_page_def props_of_def)
qed

lemma with_sizes_zip: "length ns = length xs \<Longrightarrow> with_sizes xs ns = map (\<lambda>(x, n). (props_of x, n)) (zip xs ns)"
  by (induction xs ns rule: list_induct2') auto

text \<open>The actions of a page, each with its text bound.\<close>

definition shown_actions :: "jsval list \<Rightarrow> int list \<Rightarrow> jsval list" where
  "shown_actions actions ns = map (\<lambda>(a, n). projectReaderAction (props_of a) n) (zip actions ns)"

lemma page_contents:
  assumes "is_page ev limits offset p" "offset \<le> length (actions_of ev)"
  shows "\<exists>ns. page_items p = shown_actions (take (length ns) (drop offset (actions_of ev))) ns \<and>
    offset + length ns \<le> length (actions_of ev) \<and> (offset < length (actions_of ev) \<longrightarrow> ns \<noteq> []) \<and>
    page_cursor p = (if offset + length ns = length (actions_of ev) then None else Some (action_cursor (offset + length ns)))"
proof -
  from assms(1) obtain v where v: "p_value p = subagent_evidence (ev, offset) v"
    "page_view limits (length (actions_of ev) - offset) v" "offset < length (actions_of ev) \<longrightarrow> 0 < ev_actionsShown v"
    by (auto simp: is_page_def)
  let ?ns = "ev_actionTextBytes v"
  have n: "length ?ns = ev_actionsShown v" "offset + length ?ns \<le> length (actions_of ev)"
    using v(2) assms(2) by (auto simp: page_view_def)
  note page = page_of_summary [OF v(1), folded n(1)]
  have "page_items p = map (\<lambda>(a, n). projectReaderAction a n) (with_sizes (take (length ?ns) (drop offset (actions_of ev))) ?ns)"
    using page by (simp add: page_items_def action_page_def jget_of_append items_of_def jget_def)
  also have "\<dots> = shown_actions (take (length ?ns) (drop offset (actions_of ev))) ?ns"
    using n(2) by (subst with_sizes_zip) (auto simp: shown_actions_def)
  finally have items: "page_items p = shown_actions (take (length ?ns) (drop offset (actions_of ev))) ?ns" .
  have "page_cursor p = (if offset + length ?ns = length (actions_of ev) then None else Some (action_cursor (offset + length ?ns)))"
    using page n(2) by (auto simp: page_cursor_def action_page_def jget_of_append jget_def)
  with items n v(3) show ?thesis by (intro exI [of _ ?ns]) auto
qed

lemma shown_actions_append:
  "length ns = length xs \<Longrightarrow> shown_actions (xs @ ys) (ns @ ms) = shown_actions xs ns @ shown_actions ys ms"
  by (simp add: shown_actions_def)

lemma shown_actions_split:
  assumes "offset + length ns \<le> length actions"
  shows "shown_actions (take (length ns) (drop offset actions)) ns @ shown_actions (drop (offset + length ns) actions) ms =
    shown_actions (drop offset actions) (ns @ ms)"
proof -
  have split: "drop offset actions = take (length ns) (drop offset actions) @ drop (offset + length ns) actions"
    using append_take_drop_id [of "length ns" "drop offset actions"]
    by (simp only: drop_drop add.commute [of "length ns"])
  have len: "length ns = length (take (length ns) (drop offset actions))" using assms by simp
  show ?thesis unfolding shown_actions_append [OF len, symmetric] split [symmetric] ..
qed

section \<open>All the pages\<close>

lemma follow_from:
  assumes "plain_properties ev" "projectionLimits opts = Inr limits" "jget ev ''kind'' = JStr (js ''subagent_turn'')"
    and "int (length (actions_of ev)) \<le> max_safe"
  shows "parseActionCursor cursor (length (actions_of ev)) = Inr offset \<Longrightarrow> length (actions_of ev) - offset < n \<Longrightarrow>
    follow_pages n ev opts cursor = Inl ReaderByteBudgetTooSmallError \<and>
      (\<exists>k\<le>length (actions_of ev). \<not> page_fits ev limits k) \<or>
    (\<exists>ns. length ns = length (actions_of ev) - offset \<and>
       follow_pages n ev opts cursor = Inr (shown_actions (drop offset (actions_of ev)) ns))"
proof (induction n arbitrary: cursor offset)
  case (Suc n)
  note bound = parse_cursor_bound [OF Suc.prems(1)]
  show ?case
  proof (cases "projectEvidence ev opts cursor")
    case (Inl e)
    with evidence_page [OF assms(1-3) Suc.prems(1)] bound show ?thesis by auto
  next
    case (Inr p)
    with evidence_page [OF assms(1-3) Suc.prems(1)] have "is_page ev limits offset p" by auto
    from page_contents [OF this bound] obtain ns where
      ns: "page_items p = shown_actions (take (length ns) (drop offset (actions_of ev))) ns"
        "offset + length ns \<le> length (actions_of ev)" "offset < length (actions_of ev) \<longrightarrow> ns \<noteq> []"
        "page_cursor p = (if offset + length ns = length (actions_of ev) then None else Some (action_cursor (offset + length ns)))"
      by blast
    show ?thesis
    proof (cases "offset + length ns = length (actions_of ev)")
      case True
      with ns Inr show ?thesis by (intro disjI2 exI [of _ ns]) simp
    next
      case False
      have "parseActionCursor (Some (action_cursor (offset + length ns))) (length (actions_of ev)) = Inr (offset + length ns)"
        using ns(2) assms(4) by (intro parse_action_cursor) simp_all
      moreover have "length (actions_of ev) - (offset + length ns) < n" using False ns(2,3) Suc.prems(2) by (cases ns) auto
      ultimately consider
        "follow_pages n ev opts (Some (action_cursor (offset + length ns))) = Inl ReaderByteBudgetTooSmallError"
          "\<exists>k\<le>length (actions_of ev). \<not> page_fits ev limits k"
        | ms where "length ms = length (actions_of ev) - (offset + length ns)"
          "follow_pages n ev opts (Some (action_cursor (offset + length ns))) =
             Inr (shown_actions (drop (offset + length ns) (actions_of ev)) ms)"
        using Suc.IH by blast
      then show ?thesis
      proof cases
        case 1
        with Inr ns(4) False show ?thesis by simp
      next
        case 2
        have "page_items p @ shown_actions (drop (offset + length ns) (actions_of ev)) ms =
            shown_actions (drop offset (actions_of ev)) (ns @ ms)"
          unfolding ns(1) by (rule shown_actions_split [OF ns(2)])
        with 2 Inr ns(2,4) False show ?thesis by (intro disjI2 exI [of _ "ns @ ms"]) simp
      qed
    qed
  qed
qed simp

text \<open>C24: Whoever follows the cursors of a subagent turn's evidence from the first page gets all its
  actions, each once and in order, with at most as many pages as there are actions and one more.
  The only other outcome is that the budget is too small, which does not happen when the first action
  of every page, without its texts, fits.\<close>

theorem evidence_pages:
  assumes "serializable (JObj ev)" "projectionLimits opts = Inr limits" "jget ev ''kind'' = JStr (js ''subagent_turn'')"
    and "int (length (actions_of ev)) \<le> max_safe"
  shows "follow_pages (length (actions_of ev) + 1) ev opts None = Inl ReaderByteBudgetTooSmallError \<and>
      (\<exists>k\<le>length (actions_of ev). \<not> page_fits ev limits k) \<or>
    (\<exists>ns. length ns = length (actions_of ev) \<and>
       follow_pages (length (actions_of ev) + 1) ev opts None =
         Inr (map (\<lambda>(a, n). projectReaderAction (props_of a) n) (zip (actions_of ev) ns)))"
proof -
  have "plain_properties ev" using assms(1) by (simp add: plain_properties_def)
  from follow_from [OF this assms(2-4), of None 0 "length (actions_of ev) + 1"] show ?thesis
    by (simp add: parseActionCursor_def shown_actions_def)
qed

text \<open>A turn of two actions.\<close>

definition example_action :: jsval where
  "example_action = JObj [(js ''action_id'', JStr (js ''act'')), (js ''kind'', JStr (js ''tool'')),
     (js ''outcome'', JStr (js ''success'')), (js ''tool_name'', JStr (js ''edit'')), (js ''source_refs'', JArr [])]"

definition example_subagent :: properties where
  "example_subagent = [(js ''kind'', JStr (js ''subagent_turn'')), (js ''content'', JObj
     [(js ''request'', JObj [(js ''text'', JStr (js ''hi''))]), (js ''actions'', JArr [example_action, example_action])])]"

lemma example_plain: "serializable (JObj example_subagent)"
  by (simp add: example_subagent_def example_action_def)

lemma example_actions: "actions_of example_subagent = [example_action, example_action]"
  by (simp add: example_subagent_def props_of_def items_of_def jget_def)

text \<open>Every page of the example fits, and so both actions are read.\<close>

lemma example_view_fits:
  assumes "k \<le> 2" "v = minimum_evidence_view \<or> v = append_action 0 minimum_evidence_view"
  shows "fits (subagent_evidence (example_subagent, k) v) 65536"
proof -
  have "plain_properties example_subagent" using example_plain by (simp add: plain_properties_def)
  then have plain: "serializable (subagent_evidence (example_subagent, k) v)" by (intro plain_subagent) simp
  have "k = 0 \<or> k = 1 \<or> k = 2" using assms(1) by linarith
  then have "3 * text_bound (projection_json \<lparr> byte_budget = 65536, utf8_bytes = 65536,
      p_value = subagent_evidence (example_subagent, k) v \<rparr>) \<le> nat 65536"
    using assms(2) by (elim disjE)
      (simp_all add: subagent_evidence_def evidence_envelope_def action_page_def action_cursor_def projectReaderAction_def
        append_action_def minimum_evidence_view_def example_subagent_def example_action_def summary_evaluation)
  with plain show ?thesis by (intro small_fits) (simp_all add: safe_pos_def safe_int_def max_safe_def)
qed

lemma example_pages_fit: "k \<le> 2 \<Longrightarrow> pl_byteBudget limits = 65536 \<Longrightarrow> page_fits example_subagent limits k"
  by (simp add: page_fits_def example_view_fits)

theorem evidence_pages_witness:
  "\<exists>ns. length ns = 2 \<and> follow_pages 3 example_subagent turn_options None =
     Inr (map (\<lambda>(a, n). projectReaderAction (props_of a) n) (zip [example_action, example_action] ns))"
proof -
  obtain limits where l: "projectionLimits turn_options = Inr limits" "pl_byteBudget limits = 65536"
    using turn_options_limits by blast
  have "jget example_subagent ''kind'' = JStr (js ''subagent_turn'')" by (simp add: example_subagent_def jget_def)
  from evidence_pages [OF example_plain l(1) this] example_pages_fit l(2) show ?thesis
    by (auto simp: example_actions max_safe_def eval_nat_numeral simp del: follow_pages.simps)
qed

end
