(* ===== verification/Watch_Engine.thy ===== *)
theory Watch_Engine
  imports Reader_Feeds Turn_Projection Lease_Claims Participation
begin

text \<open>
  \<open>watch/engine.ts\<close>: the incremental scanner behind \<open>barbaro watch\<close>.  The state of a \<open>WatchEngine\<close> is the
  record \<open>watch_state\<close>; a scan takes it and what the stores hold at that moment, a \<open>watch_view\<close>, and gives
  the next state and the events.  A scan that throws leaves the state it has reached, and the events
  it had collected are gone with the exception.  The clock stands still during a tick.
\<close>

section \<open>Options and state\<close>

record watch_options =
  wt_projectRoot :: jstr
  wt_selfSessionId :: "jstr option"
  wt_workstreamId :: "jstr option"
  wt_turnByteBudget :: "int option"
  wt_cwd :: "jstr list"

definition newWatchEngine :: "watch_options \<Rightarrow> unit result" where
  "newWatchEngine opts =
     (if wt_projectRoot opts = [] then Inl TypeError
      else if (case wt_selfSessionId opts of None \<Rightarrow> False | Some s \<Rightarrow> \<not> session_id_pattern s) then Inl TypeError
      else if (case wt_workstreamId opts of None \<Rightarrow> False | Some w \<Rightarrow> \<not> workstream_id_pattern w) then Inl TypeError
      else Inr ())"

record watch_state =
  ws_feedCursors :: "jstr list \<Rightarrow> int option"
  ws_seenIncidents :: "jstr set"
  ws_knownSessions :: "jstr set"
  ws_sessionWorkstream :: "(jstr \<times> jstr option) list"
  ws_leases :: "jstr \<Rightarrow> (jstr \<times> bool) option"
  ws_primed :: bool
  ws_conflicts :: "jstr set"

definition new_watch_state :: watch_state where
  "new_watch_state = \<lparr> ws_feedCursors = Map.empty, ws_seenIncidents = {}, ws_knownSessions = {}, ws_sessionWorkstream = [],
     ws_leases = Map.empty, ws_primed = False, ws_conflicts = {} \<rparr>"

section \<open>Events\<close>

record stale_event =
  se_provider :: jstr
  se_session_id :: jstr
  se_workstream_id :: "jstr option"
  se_agent_id :: jstr
  se_last_state :: jsval
  se_updated_at :: jstr
  se_expires_at :: jstr
  se_lapsed_ms :: int
  se_claims :: nat
  se_unknown_write_scope :: jsval
  se_current_action :: "(jsval \<times> jsval) option"

record join_event =
  je_provider :: jstr
  je_session_id :: jstr
  je_workstream_id :: "jstr option"
  je_joined_at :: jsval
  je_initiated_by :: jsval

record incident_event =
  ie_provider :: jstr
  ie_incident_id :: jstr
  ie_kind :: jsval
  ie_event :: jsval
  ie_workstream_id :: "jstr option"
  ie_occurred_at :: jsval

record turn_event =
  te_provider :: jstr
  te_session_id :: jstr
  te_workstream_id :: "jstr option"
  te_turn :: projection

text \<open>The number is \<open>observed_at\<close>.\<close>

datatype watch_event =
    TurnEvent int turn_event
  | JoinEvent int join_event
  | IncidentEvent int incident_event
  | ConflictEvent int claim_overlap
  | StaleEvent int stale_event

section \<open>What the stores hold\<close>

text \<open>A feed at the moment of a tick: the size \<open>stat\<close> finds, and the file as it is opened with the
  chunks of the stream from an offset and as it is found after the read; \<open>None\<close> is \<open>ENOENT\<close>.\<close>

record feed_view =
  fv_size :: "nat option"
  fv_open :: "(disk_file \<times> (int \<Rightarrow> byte list list) \<times> disk_file) option"

record incident_record =
  ir_incident_id :: jstr
  ir_incident :: "(jstr \<times> jsval) list"

record watch_view =
  wv_now :: int
  wv_participations :: "participation list result"
  wv_files :: "jsonl_file list result"
  wv_feed :: "jstr list \<Rightarrow> feed_view"
  wv_incidents :: "incident_record list result"
  wv_snapshots :: "lease list result"
  wv_active :: "lease list result"

section \<open>Turns\<close>

text \<open>\<open>haystack.includes(needle)\<close>\<close>

fun text_includes :: "jstr \<Rightarrow> jstr \<Rightarrow> bool" where
  "text_includes [] needle \<longleftrightarrow> needle = []"
| "text_includes (c # cs) needle \<longleftrightarrow> take (length needle) (c # cs) = needle \<or> text_includes cs needle"

definition WATCH_WAKE_MARKER :: jstr where
  "WATCH_WAKE_MARKER = js ''barbaro peers: turns, joins, incidents, stale leases''"

definition isWatchWakeRequest :: "jstr \<Rightarrow> bool" where
  "isWatchWakeRequest requestText \<longleftrightarrow>
     text_includes requestText (js ''<task-notification>'') \<and> text_includes requestText WATCH_WAKE_MARKER"

text \<open>\<open>props_of\<close> stands for a property access that yields \<open>undefined\<close> on everything but an object.\<close>

definition turnStartMethod :: "(jstr \<times> jsval) list \<Rightarrow> jstr option" where
  "turnStartMethod turn =
     (case jget (props_of (jget (props_of (jget turn ''extensions'')) ''claude'')) ''turn_start'' of
        JObj start \<Rightarrow> as_string (jget start ''method'')
      | _ \<Rightarrow> None)"

definition isEchoTurn :: "(jstr \<times> jsval) list \<Rightarrow> bool" where
  "isEchoTurn turn =
     (case turnStartMethod turn of
        Some method \<Rightarrow> method = js ''task-notification''
      | None \<Rightarrow> isWatchWakeRequest (text_in (props_of (jget turn ''request'')) ''text''))"

definition inScope :: "watch_options \<Rightarrow> jstr option \<Rightarrow> bool" where
  "inScope opts workstreamId \<longleftrightarrow> wt_workstreamId opts = None \<or> workstreamId = wt_workstreamId opts"

definition opt_text :: "(jstr \<times> jsval) list \<Rightarrow> string \<Rightarrow> jstr option" where
  "opt_text ps key = as_string (jget ps key)"

definition budget_options :: "int \<Rightarrow> projection_options" where
  "budget_options n = \<lparr> po_byteBudget = n, po_requestExcerptBytes = None, po_responseExcerptBytes = None,
     po_actionExcerptBytes = None \<rparr>"

definition FALLBACK_TURN_BYTE_BUDGET :: int where
  "FALLBACK_TURN_BYTE_BUDGET = 64 * 1024"

definition DEFAULT_WATCH_TURN_BYTE_BUDGET :: int where
  "DEFAULT_WATCH_TURN_BYTE_BUDGET = 4096"

text \<open>\<open>ReaderByteBudgetTooSmallError\<close> extends \<open>RangeError\<close>.\<close>

definition turn_projection :: "watch_options \<Rightarrow> (jstr \<times> jsval) list \<Rightarrow> projection result" where
  "turn_projection opts turn =
     (case projectTurn turn (budget_options (or_default DEFAULT_WATCH_TURN_BYTE_BUDGET (wt_turnByteBudget opts))) of
        Inr p \<Rightarrow> Inr p
      | Inl e \<Rightarrow> if e = RangeError \<or> e = ReaderByteBudgetTooSmallError
          then projectTurn turn (budget_options FALLBACK_TURN_BYTE_BUDGET) else Inl e)"

definition turnEvent :: "watch_options \<Rightarrow> (jstr \<times> jsval) list \<Rightarrow> turn_event result" where
  "turnEvent opts turn =
     (case turn_projection opts turn of Inl e \<Rightarrow> Inl e
      | Inr p \<Rightarrow> Inr \<lparr> te_provider = text_in turn ''provider'', te_session_id = text_in turn ''session_id'',
          te_workstream_id = opt_text turn ''workstream_id'', te_turn = p \<rparr>)"

text \<open>The lines of a feed that was read; without a sink nothing is projected.\<close>

fun consume_lines ::
  "watch_options \<Rightarrow> bool \<Rightarrow> jsonl_file \<Rightarrow> jsonl_line list \<Rightarrow> turn_event list \<Rightarrow> turn_event list result" where
  "consume_lines opts sink f [] pending = Inr pending"
| "consume_lines opts sink f (l # ls) pending =
     (case ln_kind l of
        Malformed \<Rightarrow> consume_lines opts sink f ls pending
      | Record v \<Rightarrow>
          (case isTurnV1 v of Inl e \<Rightarrow> Inl e
           | Inr valid \<Rightarrow>
               if \<not> valid \<or> \<not> of_file (ff_provider f) (ff_sessionId f) v \<or> \<not> sink \<or> isEchoTurn (props_of v) \<or>
                 \<not> inScope opts (opt_text (props_of v) ''workstream_id'')
               then consume_lines opts sink f ls pending
               else (case turnEvent opts (props_of v) of Inl e \<Rightarrow> Inl e
                  | Inr ev \<Rightarrow> consume_lines opts sink f ls (pending @ [ev]))))"

definition read_from :: "int \<Rightarrow> jsonl_options" where
  "read_from start = \<lparr> jo_startOffset = Some start, jo_nextLineNumber = None, jo_endOffset = None, jo_pinEnd = False,
     jo_highWaterMark = None, jo_noFollow = False, jo_requireSingleLink = False, jo_maxFileBytes = None,
     jo_maxLineBytes = None \<rparr>"

text \<open>\<open>None\<close> is the \<open>ENOENT\<close> that the caller skips.\<close>

definition consumeFeed ::
  "(byte list \<Rightarrow> byte list) \<Rightarrow> jsonl_parser \<Rightarrow> watch_options \<Rightarrow> bool \<Rightarrow> jsonl_file \<Rightarrow> feed_view \<Rightarrow> int \<Rightarrow>
   (turn_event list \<times> int) option result" where
  "consumeFeed sha parse opts sink f fv start =
     (case fv_open fv of
        None \<Rightarrow> Inr None
      | Some (opened, chunks, closed) \<Rightarrow>
          (case iterateJsonlForward sha parse (read_from start) opened (chunks start) closed of
             (read, summary) \<Rightarrow>
               (case consume_lines opts sink f read [] of Inl e \<Rightarrow> Inl e
                | Inr pending \<Rightarrow>
                    (case summary of Inl e \<Rightarrow> Inl e | Inr sm \<Rightarrow> Inr (Some (pending, sm_checkpointOffset sm))))))"

definition watched_files :: "watch_options \<Rightarrow> jsonl_file list \<Rightarrow> jsonl_file list" where
  "watched_files opts files = filter (\<lambda>f. Some (ff_sessionId f) \<noteq> wt_selfSessionId opts) files"

text \<open>One file of the listing; a file that has shrunk beneath the cursor is read again without a sink.\<close>

definition scan_file ::
  "(byte list \<Rightarrow> byte list) \<Rightarrow> jsonl_parser \<Rightarrow> watch_options \<Rightarrow> bool \<Rightarrow> (jstr list \<Rightarrow> feed_view) \<Rightarrow> jsonl_file \<Rightarrow>
   (jstr list \<Rightarrow> int option) \<Rightarrow> (turn_event list \<times> int) option result" where
  "scan_file sha parse opts sink feed f cursors =
     (let fv = feed (ff_components f); cursor = or_default 0 (cursors (ff_components f)) in
      case fv_size fv of
        None \<Rightarrow> Inr None
      | Some found \<Rightarrow>
          if int found < cursor then consumeFeed sha parse opts False f fv 0
          else consumeFeed sha parse opts sink f fv cursor)"

fun scan_files ::
  "(byte list \<Rightarrow> byte list) \<Rightarrow> jsonl_parser \<Rightarrow> watch_options \<Rightarrow> bool \<Rightarrow> (jstr list \<Rightarrow> feed_view) \<Rightarrow> jsonl_file list \<Rightarrow>
   (jstr list \<Rightarrow> int option) \<Rightarrow> (jstr list \<Rightarrow> int option) \<times> turn_event list result" where
  "scan_files sha parse opts sink feed [] cursors = (cursors, Inr [])"
| "scan_files sha parse opts sink feed (f # fs) cursors =
     (case scan_file sha parse opts sink feed f cursors of
        Inl e \<Rightarrow> (cursors, Inl e)
      | Inr None \<Rightarrow> scan_files sha parse opts sink feed fs cursors
      | Inr (Some (events, position)) \<Rightarrow>
          (case scan_files sha parse opts sink feed fs (cursors(ff_components f \<mapsto> position)) of
             (cursors', Inl e) \<Rightarrow> (cursors', Inl e)
           | (cursors', Inr later) \<Rightarrow> (cursors', Inr (events @ later))))"

definition scanFeeds ::
  "(byte list \<Rightarrow> byte list) \<Rightarrow> jsonl_parser \<Rightarrow> watch_options \<Rightarrow> bool \<Rightarrow> watch_view \<Rightarrow> watch_state \<Rightarrow>
   watch_state \<times> watch_event list result" where
  "scanFeeds sha parse opts sink view st =
     (case wv_files view of Inl e \<Rightarrow> (st, Inl e)
      | Inr files \<Rightarrow>
          (case scan_files sha parse opts sink (wv_feed view) (watched_files opts files) (ws_feedCursors st) of
             (cursors, Inl e) \<Rightarrow> (st\<lparr> ws_feedCursors := cursors \<rparr>, Inl e)
           | (cursors, Inr events) \<Rightarrow>
               (st\<lparr> ws_feedCursors := cursors |` set (map ff_components (watched_files opts files)) \<rparr>,
                Inr (map (TurnEvent (wv_now view)) events))))"

section \<open>Joins\<close>

definition sessionKey :: "participation \<Rightarrow> jstr" where
  "sessionKey p = text_in p ''provider'' @ js ''/'' @ text_in p ''session_id''"

definition participation_key :: "participation \<Rightarrow> jstr" where
  "participation_key p = sessionKey p @ js ''/'' @ or_default (js ''unscoped'') (opt_text p ''workstream_id'')"

definition joined_at :: "participation \<Rightarrow> jsval" where
  "joined_at p =
     (case at_last (participationMemberships p) of
        None \<Rightarrow> jget p ''joined_at''
      | Some m \<Rightarrow> (let from = jget (props_of m) ''from'' in if from \<in> {JUndef, JNull} then jget p ''joined_at'' else from))"

fun scanJoins :: "watch_options \<Rightarrow> bool \<Rightarrow> int \<Rightarrow> participation list \<Rightarrow> watch_state \<Rightarrow> watch_state \<times> watch_event list" where
  "scanJoins opts sink now [] st = (st, [])"
| "scanJoins opts sink now (p # ps) st =
     (let key = participation_key p;
          st1 = st\<lparr> ws_sessionWorkstream := AList.update (sessionKey p) (opt_text p ''workstream_id'') (ws_sessionWorkstream st) \<rparr>
      in if key \<in> ws_knownSessions st then scanJoins opts sink now ps st1
      else (case scanJoins opts sink now ps (st1\<lparr> ws_knownSessions := insert key (ws_knownSessions st) \<rparr>) of
        (st2, events) \<Rightarrow>
          (st2, (if \<not> sink \<or> Some (text_in p ''session_id'') = wt_selfSessionId opts \<or>
                    \<not> inScope opts (opt_text p ''workstream_id'') then []
                 else [JoinEvent now \<lparr> je_provider = text_in p ''provider'', je_session_id = text_in p ''session_id'',
                   je_workstream_id = opt_text p ''workstream_id'', je_joined_at = joined_at p,
                   je_initiated_by = jget p ''initiated_by'' \<rparr>]) @ events)))"

section \<open>Incidents\<close>

definition incident_key :: "incident_record \<Rightarrow> jstr" where
  "incident_key r = text_in (ir_incident r) ''provider'' @ js ''/'' @ ir_incident_id r"

fun scanIncidents ::
  "watch_options \<Rightarrow> bool \<Rightarrow> int \<Rightarrow> incident_record list \<Rightarrow> watch_state \<Rightarrow> watch_state \<times> watch_event list" where
  "scanIncidents opts sink now [] st = (st, [])"
| "scanIncidents opts sink now (r # rs) st =
     (let key = incident_key r; w = opt_text (ir_incident r) ''workstream_id'' in
      if key \<in> ws_seenIncidents st then scanIncidents opts sink now rs st
      else (case scanIncidents opts sink now rs (st\<lparr> ws_seenIncidents := insert key (ws_seenIncidents st) \<rparr>) of
        (st2, events) \<Rightarrow>
          (st2, (if \<not> sink \<or> w \<noteq> None \<and> \<not> inScope opts w then []
                 else [IncidentEvent now \<lparr> ie_provider = text_in (ir_incident r) ''provider'',
                   ie_incident_id = ir_incident_id r, ie_kind = jget (ir_incident r) ''kind'',
                   ie_event = jget (ir_incident r) ''event'', ie_workstream_id = w,
                   ie_occurred_at = jget (ir_incident r) ''occurred_at'' \<rparr>]) @ events)))"

section \<open>Leases\<close>

text \<open>The sessions whose main agent holds an unexpired lease.\<close>

definition present_sessions :: "int \<Rightarrow> lease list \<Rightarrow> jstr set" where
  "present_sessions now snapshots =
     (\<lambda>l. lease_text l ''session_id'') ` set (filter (\<lambda>l. lease_text l ''agent_id'' = js ''main'' \<and>
        (case lease_time l ''expires_at'' of None \<Rightarrow> False | Some e \<Rightarrow> now < e)) snapshots)"

definition staleEvent :: "lease \<Rightarrow> int \<Rightarrow> stale_event" where
  "staleEvent l lapsed =
     \<lparr> se_provider = lease_text l ''provider'', se_session_id = lease_text l ''session_id'',
       se_workstream_id = opt_text l ''workstream_id'', se_agent_id = lease_text l ''agent_id'',
       se_last_state = jget l ''state'', se_updated_at = lease_text l ''updated_at'',
       se_expires_at = lease_text l ''expires_at'', se_lapsed_ms = lapsed, se_claims = length (lease_claims l),
       se_unknown_write_scope = jget l ''unknown_write_scope'',
       se_current_action = (if jget l ''current_action'' = JUndef then None
         else Some (jget (props_of (jget l ''current_action'')) ''kind'',
           jget (props_of (jget l ''current_action'')) ''tool_name'')) \<rparr>"

definition worth_telling :: "jstr set \<Rightarrow> lease \<Rightarrow> bool" where
  "worth_telling present l \<longleftrightarrow> jget l ''state'' \<noteq> JStr (state_name Idle) \<and>
     (lease_text l ''agent_id'' = js ''main'' \<or> lease_text l ''session_id'' \<notin> present)"

text \<open>One lease: what is remembered of it, and whether it is reported.\<close>

definition watch_lease ::
  "watch_options \<Rightarrow> bool \<Rightarrow> int \<Rightarrow> jstr set \<Rightarrow> lease \<Rightarrow> (jstr \<times> bool) option \<Rightarrow> int \<Rightarrow> (jstr \<times> bool) \<times> stale_event list" where
  "watch_lease opts sink now present l prior expires =
     (let renewed = (case prior of None \<Rightarrow> False | Some (updated, _) \<Rightarrow> updated \<noteq> lease_text l ''updated_at'');
          reported = (if renewed then False else (case prior of None \<Rightarrow> False | Some (_, r) \<Rightarrow> r))
      in if \<not> reported \<and> expires < now
         then ((lease_text l ''updated_at'', True),
           if sink \<and> prior \<noteq> None \<and> worth_telling present l \<and> inScope opts (opt_text l ''workstream_id'')
           then [staleEvent l (now - expires)] else [])
         else ((lease_text l ''updated_at'', reported), []))"

fun watch_leases ::
  "watch_options \<Rightarrow> bool \<Rightarrow> int \<Rightarrow> jstr set \<Rightarrow> lease list \<Rightarrow> (jstr \<Rightarrow> (jstr \<times> bool) option) \<Rightarrow>
   (jstr \<Rightarrow> (jstr \<times> bool) option) \<times> stale_event list" where
  "watch_leases opts sink now present [] leases = (leases, [])"
| "watch_leases opts sink now present (l # ls) leases =
     (case lease_time l ''expires_at'' of
        None \<Rightarrow> watch_leases opts sink now present ls leases
      | Some expires \<Rightarrow>
          (case watch_lease opts sink now present l (leases (lease_text l ''lease_id'')) expires of
             (entry, events) \<Rightarrow>
               (case watch_leases opts sink now present ls (leases(lease_text l ''lease_id'' \<mapsto> entry)) of
                  (leases', later) \<Rightarrow> (leases', events @ later))))"

definition other_leases :: "watch_options \<Rightarrow> lease list \<Rightarrow> lease list" where
  "other_leases opts snapshots = filter (\<lambda>l. Some (lease_text l ''session_id'') \<noteq> wt_selfSessionId opts) snapshots"

definition scanLeases :: "watch_options \<Rightarrow> bool \<Rightarrow> int \<Rightarrow> lease list \<Rightarrow> watch_state \<Rightarrow> watch_state \<times> watch_event list" where
  "scanLeases opts sink now snapshots st =
     (let overlaps = projectClaimOverlaps (projectWriteClaims (wt_cwd opts) (wt_projectRoot opts) snapshots now)
            (wt_workstreamId opts);
          news = filter (\<lambda>ov. claimOverlapIdentity ov \<notin> ws_conflicts st) overlaps;
          others = other_leases opts snapshots
      in (case watch_leases opts sink now (present_sessions now snapshots) others (ws_leases st) of
        (leases, stale) \<Rightarrow>
          (st\<lparr> ws_conflicts := claimOverlapIdentity ` set overlaps,
              ws_leases := leases |` set (map (\<lambda>l. lease_text l ''lease_id'') others) \<rparr>,
           (if sink then map (ConflictEvent now) news else []) @ map (StaleEvent now) stale)))"

section \<open>Ticks\<close>

text \<open>The four scans, in the order of the code; with the first failure the events are lost.\<close>

definition scan_all ::
  "(byte list \<Rightarrow> byte list) \<Rightarrow> jsonl_parser \<Rightarrow> watch_options \<Rightarrow> bool \<Rightarrow> watch_view \<Rightarrow> watch_state \<Rightarrow>
   watch_state \<times> watch_event list result" where
  "scan_all sha parse opts sink view st =
     (case wv_participations view of Inl e \<Rightarrow> (st, Inl e)
      | Inr ps \<Rightarrow>
     (case scanJoins opts sink (wv_now view) ps st of (st1, joins) \<Rightarrow>
     (case scanFeeds sha parse opts sink view st1 of
        (st2, Inl e) \<Rightarrow> (st2, Inl e)
      | (st2, Inr turns) \<Rightarrow>
     (case wv_incidents view of Inl e \<Rightarrow> (st2, Inl e)
      | Inr rs \<Rightarrow>
     (case scanIncidents opts sink (wv_now view) rs st2 of (st3, incidents) \<Rightarrow>
     (case wv_snapshots view of Inl e \<Rightarrow> (st3, Inl e)
      | Inr ls \<Rightarrow>
     (case scanLeases opts sink (wv_now view) ls st3 of (st4, stale) \<Rightarrow>
        (st4, Inr (joins @ turns @ incidents @ stale)))))))))"

record armed_event =
  ae_observed_at :: int
  ae_live_sessions :: nat
  ae_enrolled_sessions :: nat
  ae_self_session_id :: "jstr option"
  ae_workstream_id :: "jstr option"

definition own_key :: "watch_options \<Rightarrow> jstr \<Rightarrow> bool" where
  "own_key opts key =
     (let ending = js ''/'' @ or_default (js ''undefined'') (wt_selfSessionId opts) in
      length ending \<le> length key \<and> drop (length key - length ending) key = ending)"

definition prime ::
  "(byte list \<Rightarrow> byte list) \<Rightarrow> jsonl_parser \<Rightarrow> watch_options \<Rightarrow> watch_view \<Rightarrow> watch_state \<Rightarrow>
   watch_state \<times> armed_event result" where
  "prime sha parse opts view st =
     (case scan_all sha parse opts False view st of
        (st1, Inl e) \<Rightarrow> (st1, Inl e)
      | (st1, Inr _) \<Rightarrow>
          (let st2 = st1\<lparr> ws_primed := True \<rparr> in
           case wv_active view of Inl e \<Rightarrow> (st2, Inl e)
           | Inr ls \<Rightarrow>
               (st2, Inr \<lparr> ae_observed_at = wv_now view,
                  ae_live_sessions = length (remdups (map (\<lambda>l. lease_text l ''session_id'')
                    (filter (\<lambda>l. inScope opts (opt_text l ''workstream_id'')) (other_leases opts ls)))),
                  ae_enrolled_sessions = length (filter (\<lambda>(key, w). \<not> own_key opts key \<and> inScope opts w)
                    (ws_sessionWorkstream st2)),
                  ae_self_session_id = wt_selfSessionId opts, ae_workstream_id = wt_workstreamId opts \<rparr>)))"

definition poll ::
  "(byte list \<Rightarrow> byte list) \<Rightarrow> jsonl_parser \<Rightarrow> watch_options \<Rightarrow> watch_view \<Rightarrow> watch_state \<Rightarrow>
   watch_state \<times> watch_event list result" where
  "poll sha parse opts view st =
     (if \<not> ws_primed st then (st, Inl PlainError) else scan_all sha parse opts True view st)"

text \<open>The loop of the command: polls one after the other, until one fails.\<close>

fun poll_all ::
  "(byte list \<Rightarrow> byte list) \<Rightarrow> jsonl_parser \<Rightarrow> watch_options \<Rightarrow> watch_view list \<Rightarrow> watch_state \<Rightarrow>
   watch_state \<times> watch_event list result" where
  "poll_all sha parse opts [] st = (st, Inr [])"
| "poll_all sha parse opts (v # vs) st =
     (case poll sha parse opts v st of
        (st1, Inl e) \<Rightarrow> (st1, Inl e)
      | (st1, Inr events) \<Rightarrow>
          (case poll_all sha parse opts vs st1 of
             (st2, Inl e) \<Rightarrow> (st2, Inl e)
           | (st2, Inr later) \<Rightarrow> (st2, Inr (events @ later))))"

end
