(* ===== verification/Jsonl_Lines.thy ===== *)
theory Jsonl_Lines
  imports Jsonl_Reader
begin

text \<open>
  What the forward reader computes: the physical lines of the bytes of the stream, however they
  are cut into chunks.  \<open>split_lines\<close> is the reference; the theorems say that the chunk loop
  agrees with it, and that reading a growing file in several steps yields the lines of one read.
\<close>

section \<open>Physical lines\<close>

fun split_lines :: "byte list \<Rightarrow> byte list list \<times> byte list" where
  "split_lines [] = ([], [])"
| "split_lines (b # bs) =
     (let (ls, t) = split_lines bs in
      if b = 0x0A then ([] # ls, t)
      else (case ls of [] \<Rightarrow> ([], b # t) | l # ls' \<Rightarrow> ((b # l) # ls', t)))"

definition span_of :: "byte list list \<Rightarrow> int" where
  "span_of ls = (\<Sum>l\<leftarrow>ls. int (length l) + 1)"

fun line_events :: "jsonl_parser \<Rightarrow> int \<Rightarrow> int \<Rightarrow> byte list list \<Rightarrow> jsonl_line list" where
  "line_events parser start number [] = []"
| "line_events parser start number (l # ls) =
     make_line parser l start number # line_events parser (start + int (length l) + 1) (number + 1) ls"

lemma span_of_simps [simp]:
  "span_of [] = 0" "span_of (l # ls) = int (length l) + 1 + span_of ls"
  "span_of (ls @ ms) = span_of ls + span_of ms"
  by (simp_all add: span_of_def)

lemma span_of_nonneg: "0 \<le> span_of ls"
  by (induction ls) simp_all

lemma line_events_append:
  "line_events parser start number (ls @ ms) =
   line_events parser start number ls @
   line_events parser (start + span_of ls) (number + int (length ls)) ms"
  by (induction ls arbitrary: start number) (simp_all add: algebra_simps)

lemma split_lines_join:
  "split_lines bs = (ls, t) \<Longrightarrow>
   bs = concat (map (\<lambda>l. l @ [0x0A]) ls) @ t \<and> (\<forall>l\<in>set ls. 0x0A \<notin> set l) \<and> 0x0A \<notin> set t"
proof (induction bs arbitrary: ls t)
  case (Cons b bs)
  obtain ms u where m: "split_lines bs = (ms, u)" by (cases "split_lines bs")
  from Cons.IH [OF m] Cons.prems m show ?case by (auto split: list.splits if_splits)
qed simp

lemma split_lines_partial: "0x0A \<notin> set bs \<Longrightarrow> split_lines bs = ([], bs)"
  by (induction bs) auto

lemma split_lines_line:
  "0x0A \<notin> set l \<Longrightarrow> split_lines (l @ 0x0A # bs) = (case split_lines bs of (ls, t) \<Rightarrow> (l # ls, t))"
  by (induction l) (auto split: prod.splits)

lemma split_lines_append:
  assumes "split_lines xs = (ls, t)" "split_lines (t @ ys) = (ms, u)"
  shows "split_lines (xs @ ys) = (ls @ ms, u)"
  using assms
proof (induction xs arbitrary: ls t)
  case (Cons b xs)
  obtain ks v where k: "split_lines xs = (ks, v)" by (cases "split_lines xs")
  show ?case
  proof (cases ks)
    case Nil
    then have v: "v = xs" "0x0A \<notin> set xs" using split_lines_join [OF k] by auto
    with Cons k Nil show ?thesis by (auto split: if_splits prod.splits)
  next
    case (Cons k ks')
    with Cons.prems Cons.IH [of ks v] \<open>split_lines xs = (ks, v)\<close> show ?thesis
      by (auto split: if_splits)
  qed
qed simp

lemma split_lines_length:
  "split_lines bs = (ls, t) \<Longrightarrow> int (length bs) = span_of ls + int (length t)"
proof (induction bs arbitrary: ls t)
  case (Cons b bs)
  obtain ms u where m: "split_lines bs = (ms, u)" by (cases "split_lines bs")
  from Cons.IH [OF m] Cons.prems m show ?case by (auto split: list.splits if_splits)
qed simp

section \<open>The chunk loop\<close>

text \<open>The fragments held back are one unterminated piece within the line limit.\<close>

definition reader_inv :: "int option \<Rightarrow> reader_state \<Rightarrow> bool" where
  "reader_inv maxLine st \<longleftrightarrow>
     rd_fragmentBytes st = int (length (concat (rd_fragments st))) \<and>
     0x0A \<notin> set (concat (rd_fragments st)) \<and> within_limit maxLine (rd_fragmentBytes st)"

definition is_record :: "jsonl_line \<Rightarrow> bool" where
  "is_record line \<longleftrightarrow> (case ln_kind line of Record _ \<Rightarrow> True | Malformed \<Rightarrow> False)"

definition records_in :: "jsonl_line list \<Rightarrow> int" where
  "records_in lines = int (length (filter is_record lines))"

lemma records_in_simps [simp]:
  "records_in [] = 0" "records_in (x # xs) = (if is_record x then 1 else 0) + records_in xs"
  "records_in (xs @ ys) = records_in xs + records_in ys"
  by (simp_all add: records_in_def)

lemma length_line_events [simp]: "length (line_events parser start number ls) = length ls"
  by (induction ls arbitrary: start number) simp_all

text \<open>\<open>st'\<close> is \<open>st\<close> after the complete lines \<open>ls\<close>, with \<open>t\<close> held back.\<close>

definition advanced ::
  "jsonl_parser \<Rightarrow> reader_state \<Rightarrow> byte list list \<Rightarrow> byte list \<Rightarrow> reader_state \<Rightarrow> bool" where
  "advanced parser st ls t st' \<longleftrightarrow>
     rd_events st' = rd_events st @ line_events parser (rd_checkpointOffset st) (rd_nextLineNumber st) ls \<and>
     rd_checkpointOffset st' = rd_checkpointOffset st + span_of ls \<and>
     rd_nextLineNumber st' = rd_nextLineNumber st + int (length ls) \<and>
     rd_completeLines st' = rd_completeLines st + int (length ls) \<and>
     rd_parsedLines st' = rd_parsedLines st +
       records_in (line_events parser (rd_checkpointOffset st) (rd_nextLineNumber st) ls) \<and>
     rd_parsedLines st' + rd_malformedLines st' =
       rd_parsedLines st + rd_malformedLines st + int (length ls) \<and>
     concat (rd_fragments st') = t"

lemma make_line_end: "ln_byteEndExclusive (make_line parser l start number) = start + int (length l) + 1"
  by (simp add: make_line_def Let_def split: prod.split)

lemma advanced_emit:
  "advanced parser (emit_line parser l st) ls t st' \<Longrightarrow> advanced parser st (l # ls) t st'"
  by (auto simp: advanced_def emit_line_def Let_def make_line_end is_record_def algebra_simps
      split: line_kind.splits)

lemma advanced_trans:
  "advanced parser st ls t st1 \<Longrightarrow> advanced parser st1 ms u st2 \<Longrightarrow> advanced parser st (ls @ ms) u st2"
  by (auto simp: advanced_def line_events_append algebra_simps)

definition line_fits :: "int option \<Rightarrow> byte list \<Rightarrow> bool" where
  "line_fits maxLine l \<longleftrightarrow> within_limit maxLine (int (length l))"

text \<open>The outcome of reading bytes whose lines are \<open>ls\<close> and whose unterminated rest is \<open>t\<close>.\<close>

definition reads ::
  "jsonl_parser \<Rightarrow> int option \<Rightarrow> reader_state \<Rightarrow> byte list list \<Rightarrow> byte list \<Rightarrow>
   reader_state \<times> js_error option \<Rightarrow> bool" where
  "reads parser maxLine st ls t r \<longleftrightarrow>
     (if list_all (line_fits maxLine) ls \<and> line_fits maxLine t
      then snd r = None \<and> reader_inv maxLine (fst r) \<and> advanced parser st ls t (fst r)
      else snd r = Some InputLimitError \<and>
        rd_events (fst r) = rd_events st @
          line_events parser (rd_checkpointOffset st) (rd_nextLineNumber st)
            (takeWhile (line_fits maxLine) ls))"

definition end_within :: "int option \<Rightarrow> reader_state \<Rightarrow> nat \<Rightarrow> bool" where
  "end_within endOffset st n \<longleftrightarrow>
     (case endOffset of None \<Rightarrow> True
      | Some e \<Rightarrow> rd_checkpointOffset st + rd_fragmentBytes st + int n \<le> e)"

lemma reads_emit:
  "line_fits maxLine l \<Longrightarrow> reads parser maxLine (emit_line parser l st) ls t r \<Longrightarrow>
   reads parser maxLine st (l # ls) t r"
  using advanced_emit [of parser l st ls t "fst r"]
  by (auto simp: reads_def emit_line_def Let_def make_line_end)

lemma scan_chunk_reads:
  "reader_inv maxLine st \<Longrightarrow> end_within endOffset st (length bytes) \<Longrightarrow>
   split_lines (concat (rd_fragments st) @ bytes) = (ls, t) \<Longrightarrow>
   reads parser maxLine st ls t (scan_chunk parser endOffset maxLine bytes st) \<and>
   rd_reachedEnd (fst (scan_chunk parser endOffset maxLine bytes st)) = rd_reachedEnd st \<and>
   rd_bytesRead (fst (scan_chunk parser endOffset maxLine bytes st)) = rd_bytesRead st"
proof (induction parser endOffset maxLine bytes st arbitrary: ls rule: scan_chunk.induct)
  case (1 parser endOffset maxLine bytes st)
  let ?seg = "takeWhile (\<lambda>b. b \<noteq> 0x0A) bytes" and ?held = "concat (rd_fragments st)"
  have held: "0x0A \<notin> set ?held" "rd_fragmentBytes st = int (length ?held)"
    using "1.prems"(1) by (simp_all add: reader_inv_def)
  have noLF: "0x0A \<notin> set ?seg" by (auto dest: set_takeWhileD)
  show ?case
  proof (cases "dropWhile (\<lambda>b. b \<noteq> 0x0A) bytes")
    case Nil
    then have "0x0A \<notin> set bytes" by (auto simp: dropWhile_eq_Nil_conv)
    with held have "split_lines (?held @ bytes) = ([], ?held @ bytes)" by (intro split_lines_partial) auto
    with "1.prems"(3) have lt: "ls = []" "t = ?held @ bytes" by simp_all
    have scan: "scan_chunk parser endOffset maxLine bytes st =
        (if bytes = [] then (st, None)
         else if \<not> within_limit maxLine (rd_fragmentBytes st + int (length bytes))
         then (st, Some InputLimitError) else (push_fragment bytes st, None))"
      by (subst scan_chunk.simps) (simp only: Nil Let_def list.case)
    have len: "int (length t) = rd_fragmentBytes st + int (length bytes)" using lt held by simp
    consider "bytes = []" | "bytes \<noteq> []" "line_fits maxLine t" | "bytes \<noteq> []" "\<not> line_fits maxLine t" by blast
    then show ?thesis
    proof cases
      case 1
      have "line_fits maxLine t"
        using "1.prems"(1) 1 len unfolding reader_inv_def line_fits_def by (elim conjE) simp
      then show ?thesis using "1.prems"(1) 1 unfolding scan lt(1) by (simp add: reads_def advanced_def lt)
    next
      case 2
      then have "reader_inv maxLine (push_fragment bytes st)"
        using held len \<open>0x0A \<notin> set bytes\<close> by (auto simp: reader_inv_def push_fragment_def line_fits_def)
      then show ?thesis using 2 len unfolding scan lt(1)
        by (simp add: reads_def advanced_def lt(2) push_fragment_def line_fits_def)
    next
      case 3
      then show ?thesis using len unfolding scan lt(1) by (simp add: reads_def line_fits_def)
    qed
  next
    case (Cons c rest)
    have c: "c = 0x0A" using hd_dropWhile [of "\<lambda>b. b \<noteq> 0x0A" bytes] unfolding Cons by simp
    have bytes: "?seg @ 0x0A # rest = bytes"
      using takeWhile_dropWhile_id [of "\<lambda>b. b \<noteq> 0x0A" bytes] unfolding Cons c .
    let ?line = "?held @ ?seg"
    have "split_lines (?line @ 0x0A # rest) = (ls, t)" using "1.prems"(3) by (simp add: bytes)
    then obtain ms where ms: "split_lines rest = (ms, t)" "ls = ?line # ms"
      using split_lines_line [of ?line rest] held(1) noLF that
      by (cases "split_lines rest") auto
    have len: "length bytes = length ?seg + 1 + length rest"
      using arg_cong [OF bytes, of length, symmetric] unfolding length_append length_Cons by linarith
    have noend: "\<not> (case endOffset of None \<Rightarrow> False
         | Some e \<Rightarrow> rd_checkpointOffset st + rd_fragmentBytes st + int (length ?seg) + 1 > e)"
      using "1.prems"(2) len by (auto simp: end_within_def split: option.splits)
    have line: "(if rd_fragments st = [] then ?seg else concat (rd_fragments st @ [?seg])) = ?line" by simp
    show ?thesis
    proof (cases "within_limit maxLine (rd_fragmentBytes st + int (length ?seg))")
      case False
      then have "\<not> line_fits maxLine ?line" using held(2) by (simp add: line_fits_def)
      with False Cons ms(2) show ?thesis
        unfolding scan_chunk.simps [of parser endOffset maxLine bytes st] Cons Let_def list.case
        by (simp add: reads_def)
    next
      case True
      then have fits: "line_fits maxLine ?line" using held(2) by (simp add: line_fits_def)
      let ?st = "emit_line parser ?line st"
      have "0 \<le> rd_fragmentBytes st + int (length ?seg)" unfolding held(2) by simp
      with True have "reader_inv maxLine ?st"
        by (auto simp: reader_inv_def emit_line_def Let_def within_limit_def split: option.splits)
      moreover have "end_within endOffset ?st (length rest)"
        using "1.prems"(2) len held(2)
        by (auto simp: end_within_def emit_line_def Let_def make_line_end split: option.splits)
      moreover have "split_lines (concat (rd_fragments ?st) @ rest) = (ms, t)"
        using ms(1) by (simp add: emit_line_def Let_def)
      moreover have "rd_reachedEnd ?st = rd_reachedEnd st" "rd_bytesRead ?st = rd_bytesRead st"
        by (simp_all add: emit_line_def Let_def)
      moreover have "scan_chunk parser endOffset maxLine bytes st =
          scan_chunk parser endOffset maxLine rest ?st"
        using True noend line by (subst scan_chunk.simps) (simp only: Cons Let_def list.case simp_thms if_False)
      ultimately show ?thesis
        using "1.IH" [OF refl Cons _ noend, of ms] True line ms(2) reads_emit [OF fits] by simp
    qed
  qed
qed

text \<open>An overlong fragment stays overlong when more bytes arrive.\<close>

lemma within_limit_mono: "within_limit m k \<Longrightarrow> j \<le> k \<Longrightarrow> within_limit m j"
  by (auto simp: within_limit_def split: option.splits)

lemma split_lines_longer:
  assumes "0x0A \<notin> set t" "split_lines (t @ ys) = (ms, u)"
  shows "case ms of [] \<Rightarrow> length t \<le> length u | m # _ \<Rightarrow> length t \<le> length m"
  using assms
proof (induction t arbitrary: ms u)
  case (Cons b t)
  obtain ks v where k: "split_lines (t @ ys) = (ks, v)" by (cases "split_lines (t @ ys)")
  from Cons.IH [OF _ k] Cons.prems k show ?case by (auto split: list.splits)
qed (simp split: list.split)

lemma reads_error_extends:
  assumes "reads parser maxLine st ls t (st', Some e)" "0x0A \<notin> set t" "split_lines (t @ ys) = (ms, u)"
  shows "reads parser maxLine st (ls @ ms) u (st', Some e)"
proof -
  have bad: "\<not> (list_all (line_fits maxLine) ls \<and> line_fits maxLine t)"
    and ev: "e = InputLimitError" "rd_events st' = rd_events st @
      line_events parser (rd_checkpointOffset st) (rd_nextLineNumber st) (takeWhile (line_fits maxLine) ls)"
    using assms(1) by (auto simp: reads_def split: if_splits)
  show ?thesis
  proof (cases "list_all (line_fits maxLine) ls")
    case False
    then have "takeWhile (line_fits maxLine) (ls @ ms) = takeWhile (line_fits maxLine) ls"
      by (auto simp: list_all_iff takeWhile_append1)
    with False ev show ?thesis by (simp add: reads_def)
  next
    case True
    with bad have t: "\<not> line_fits maxLine t" by simp
    have longer: "\<not> line_fits maxLine x" if "length t \<le> length x" for x
      using t that within_limit_mono by (fastforce simp: line_fits_def)
    show ?thesis
    proof (cases ms)
      case Nil
      with split_lines_longer [OF assms(2,3)] longer have "\<not> line_fits maxLine u" by simp
      with Nil ev True show ?thesis by (simp add: reads_def)
    next
      case (Cons m ms')
      with split_lines_longer [OF assms(2,3)] longer have m: "\<not> line_fits maxLine m" by simp
      have "takeWhile (line_fits maxLine) (ls @ ms) = takeWhile (line_fits maxLine) ls"
        using True m by (simp add: Cons takeWhile_append list_all_iff takeWhile_eq_all_conv [THEN iffD2])
      with Cons m ev show ?thesis by (simp add: reads_def)
    qed
  qed
qed

lemma reads_trans:
  assumes "reads parser maxLine st ls t (st1, None)" "reads parser maxLine st1 ms u r"
  shows "reads parser maxLine st (ls @ ms) u r"
proof -
  have a: "list_all (line_fits maxLine) ls" "advanced parser st ls t st1"
    using assms(1) by (auto simp: reads_def split: if_splits)
  then have tw: "takeWhile (line_fits maxLine) (ls @ ms) = ls @ takeWhile (line_fits maxLine) ms"
    by (simp add: takeWhile_append list_all_iff)
  have adv: "advanced parser st1 ms u st2 \<Longrightarrow> advanced parser st (ls @ ms) u st2" for st2
    using advanced_trans [OF a(2)] .
  show ?thesis
  proof (cases "list_all (line_fits maxLine) ms \<and> line_fits maxLine u")
    case True
    with assms(2) a(1) adv [of "fst r"] show ?thesis by (simp add: reads_def)
  next
    case False
    with assms(2) a show ?thesis
      by (auto simp: reads_def tw line_events_append advanced_def)
  qed
qed

lemma reads_ignores:
  "reads parser maxLine (st \<lparr> rd_bytesRead := n, rd_reachedEnd := b \<rparr>) ls t r \<longleftrightarrow> reads parser maxLine st ls t r"
  "reads parser maxLine (st \<lparr> rd_bytesRead := n \<rparr>) ls t r \<longleftrightarrow> reads parser maxLine st ls t r"
  "reads parser maxLine (st \<lparr> rd_reachedEnd := b \<rparr>) ls t r \<longleftrightarrow> reads parser maxLine st ls t r"
  by (simp_all add: reads_def advanced_def)

lemma state_ignores:
  "reader_inv maxLine (st \<lparr> rd_reachedEnd := b \<rparr>) = reader_inv maxLine st"
  "end_within endOffset (st \<lparr> rd_reachedEnd := b \<rparr>) n = end_within endOffset st n"
  by (simp_all add: reader_inv_def end_within_def split: option.split)

lemma end_reached:
  "end_within endOffset st n \<Longrightarrow>
   (case endOffset of None \<Rightarrow> False | Some e \<Rightarrow> rd_checkpointOffset st \<ge> e) \<Longrightarrow>
   0 \<le> rd_fragmentBytes st \<Longrightarrow> n = 0"
  by (auto simp: end_within_def split: option.splits)

lemma read_chunks_reads:
  "reader_inv maxLine st \<Longrightarrow> end_within endOffset st (length (concat chunks)) \<Longrightarrow>
   (rd_reachedEnd st \<Longrightarrow> concat chunks = []) \<Longrightarrow>
   split_lines (concat (rd_fragments st) @ concat chunks) = (ls, t) \<Longrightarrow>
   reads parser maxLine st ls t (read_chunks parser endOffset maxLine chunks st) \<and>
   (snd (read_chunks parser endOffset maxLine chunks st) = None \<longrightarrow>
    rd_bytesRead (fst (read_chunks parser endOffset maxLine chunks st)) =
      rd_bytesRead st + int (length (concat chunks)))"
proof (induction parser endOffset maxLine chunks st arbitrary: ls t rule: read_chunks.induct)
  case (1 parser endOffset maxLine st)
  let ?held = "concat (rd_fragments st)"
  have "0x0A \<notin> set ?held" "line_fits maxLine ?held"
    using "1.prems"(1) unfolding reader_inv_def line_fits_def by (elim conjE, simp)+
  with "1.prems"(4) split_lines_partial [of ?held] have "ls = []" "t = ?held" by simp_all
  with "1.prems"(1) \<open>line_fits maxLine ?held\<close> show ?case by (simp add: reads_def advanced_def)
next
  case (2 parser endOffset maxLine chunk chunks st)
  show ?case
  proof (cases "rd_reachedEnd st")
    case True
    with "2.prems"(3) have "chunk = []" "concat chunks = []" by simp_all
    with "2.IH"(1) [OF True "2.prems"(1), of ls t] "2.prems"(2,4) True show ?thesis by simp
  next
    case False
    let ?st0 = "st \<lparr> rd_bytesRead := rd_bytesRead st + int (length chunk) \<rparr>"
    let ?held = "concat (rd_fragments st)" and ?scan = "scan_chunk parser endOffset maxLine chunk ?st0"
    obtain ks v where k: "split_lines (?held @ chunk) = (ks, v)" by (cases "split_lines (?held @ chunk)")
    obtain ms u where m: "split_lines (v @ concat chunks) = (ms, u)" by (cases "split_lines (v @ concat chunks)")
    have lt: "ls = ks @ ms" "t = u" using split_lines_append [OF k m] "2.prems"(4) by simp_all
    have inv0: "reader_inv maxLine ?st0" "end_within endOffset ?st0 (length chunk)"
      using "2.prems"(1,2) by (auto simp: reader_inv_def end_within_def split: option.splits)
    have k0: "split_lines (concat (rd_fragments ?st0) @ chunk) = (ks, v)" using k by simp
    from scan_chunk_reads [OF inv0 k0]
    have scan: "reads parser maxLine st ks v ?scan" "rd_reachedEnd (fst ?scan) = rd_reachedEnd st"
      "rd_bytesRead (fst ?scan) = rd_bytesRead st + int (length chunk)"
      by (simp_all add: reads_ignores)
    obtain st1 err where s1: "?scan = (st1, err)" by (cases ?scan)
    show ?thesis
    proof (cases err)
      case (Some e)
      have "0x0A \<notin> set v" using split_lines_join [OF k] by blast
      from reads_error_extends [OF _ this m] scan(1) s1 Some False show ?thesis
        unfolding lt by simp
    next
      case None
      let ?st2 = "if (case endOffset of None \<Rightarrow> False | Some e \<Rightarrow> rd_checkpointOffset st1 \<ge> e)
        then st1 \<lparr> rd_reachedEnd := True \<rparr> else st1"
      have adv: "advanced parser st ks v st1" and inv1: "reader_inv maxLine st1"
        using scan(1) s1 None by (auto simp: reads_def split: if_splits)
      have frag: "rd_fragmentBytes st1 = int (length v)"
        using inv1 adv by (simp add: reader_inv_def advanced_def)
      have size: "span_of ks + int (length v) = rd_fragmentBytes st + int (length chunk)"
        using split_lines_length [OF k] "2.prems"(1) by (simp add: reader_inv_def)
      have ends: "end_within endOffset st1 (length (concat chunks))"
        using "2.prems"(2) adv frag size by (auto simp: end_within_def advanced_def split: option.splits)
      have drained: "concat chunks = []" if "rd_reachedEnd ?st2"
      proof -
        have "case endOffset of None \<Rightarrow> False | Some e \<Rightarrow> rd_checkpointOffset st1 \<ge> e"
          using that scan(2) s1 False by (cases endOffset) (simp_all split: if_splits)
        from end_reached [OF ends this] frag have "length (concat chunks) = 0" by simp
        then show ?thesis by (simp only: length_0_conv)
      qed
      have inv2: "reader_inv maxLine ?st2" "end_within endOffset ?st2 (length (concat chunks))"
        "split_lines (concat (rd_fragments ?st2) @ concat chunks) = (ms, u)"
        using inv1 ends m adv by (simp_all add: state_ignores advanced_def)
      have run: "read_chunks parser endOffset maxLine (chunk # chunks) st =
          read_chunks parser endOffset maxLine chunks ?st2"
        using False s1 None by simp
      note IH = "2.IH"(2) [OF False s1 [symmetric, unfolded None] refl inv2(1,2) drained inv2(3)]
      have "reads parser maxLine st1 ms u (read_chunks parser endOffset maxLine chunks ?st2)"
        using IH by (auto simp: reads_ignores split: if_splits)
      moreover have "reads parser maxLine st ks v (st1, None)" using scan(1) s1 None by simp
      ultimately have "reads parser maxLine st ls t (read_chunks parser endOffset maxLine chunks ?st2)"
        unfolding lt by (intro reads_trans)
      moreover have "rd_bytesRead ?st2 = rd_bytesRead st + int (length chunk)" using scan(3) s1 by simp
      ultimately show ?thesis unfolding run using IH by simp
    qed
  qed
qed

section \<open>The generator\<close>

text \<open>The read stream stops at the end it was given (\<open>end\<close> of \<open>createReadStream\<close>).\<close>

definition bounded_stream :: "jsonl_options \<Rightarrow> disk_file \<Rightarrow> byte list list \<Rightarrow> bool" where
  "bounded_stream opts f chunks \<longleftrightarrow>
     (case effective_end opts (int (length (f_bytes f))) of None \<Rightarrow> True
      | Some e \<Rightarrow> start_of opts + int (length (concat chunks)) \<le> e)"

definition partial_of :: "int \<Rightarrow> int \<Rightarrow> byte list \<Rightarrow> partial_line option" where
  "partial_of offset number t =
     (if t = [] then None
      else Some \<lparr> pl_byteStart = offset, pl_byteLength = int (length t), pl_lineNumber = number \<rparr>)"

lemma handle_checks_size: "handle_checks opts f = Inr s \<Longrightarrow> sn_size s = int (length (f_bytes f))"
  by (auto simp: handle_checks_def snapshotFromStats_def split: if_splits sum.splits option.splits)

text \<open>The state in which the loop over the stream ends.\<close>

lemma generator_reads:
  fixes parser :: jsonl_parser
  assumes bound: "bounded_stream opts initial chunks" and handle: "handle_checks opts initial = Inr s"
    and opts: "option_checks opts = Inr ()"
    and lines: "split_lines (concat chunks) = (ls, t)"
  defines "stream \<equiv> (if effective_end opts (sn_size s) = Some (start_of opts) then [] else chunks)"
  defines "r \<equiv> read_chunks parser (effective_end opts (sn_size s)) (jo_maxLineBytes opts) stream
      (start_state (start_of opts) (first_line opts))"
  shows "reads parser (jo_maxLineBytes opts) (start_state (start_of opts) (first_line opts)) ls t r"
    "snd r = None \<Longrightarrow> rd_bytesRead (fst r) = int (length (concat chunks))"
proof -
  let ?st = "start_state (start_of opts) (first_line opts)"
  note size = handle_checks_size [OF handle]
  have concat: "concat stream = concat chunks"
  proof (cases "effective_end opts (sn_size s) = Some (start_of opts)")
    case True
    then have "length (concat chunks) = 0" using bound size by (simp add: bounded_stream_def)
    then have "concat chunks = []" by (simp only: length_0_conv)
    with True show ?thesis unfolding stream_def by (simp only: if_True concat.simps simp_thms)
  qed (simp add: stream_def)
  have "0 \<le> m" if "jo_maxLineBytes opts = Some m" for m
    using opts that by (simp add: option_checks_def optional_nonneg_def safe_nonneg_def)
  then have "reader_inv (jo_maxLineBytes opts) ?st"
    by (auto simp: reader_inv_def start_state_def within_limit_def split: option.split)
  moreover have "end_within (effective_end opts (sn_size s)) ?st (length (concat stream))"
    using bound size by (auto simp: concat bounded_stream_def end_within_def start_state_def split: option.splits)
  moreover have "\<not> rd_reachedEnd ?st" "split_lines (concat (rd_fragments ?st) @ concat stream) = (ls, t)"
    using lines by (simp_all add: start_state_def concat)
  ultimately have "reads parser (jo_maxLineBytes opts) ?st ls t r \<and>
      (snd r = None \<longrightarrow> rd_bytesRead (fst r) = rd_bytesRead ?st + int (length (concat stream)))"
    unfolding r_def by (intro read_chunks_reads) simp_all
  then show "reads parser (jo_maxLineBytes opts) ?st ls t r"
    "snd r = None \<Longrightarrow> rd_bytesRead (fst r) = int (length (concat chunks))"
    by (simp_all add: concat start_state_def)
qed

lemma reads_start:
  assumes "reads parser maxLine (start_state off num) ls t (st, None)"
  shows "rd_events st = line_events parser off num ls" "rd_checkpointOffset st = off + span_of ls"
    "rd_nextLineNumber st = num + int (length ls)" "rd_completeLines st = int (length ls)"
    "rd_parsedLines st = records_in (line_events parser off num ls)"
    "rd_parsedLines st + rd_malformedLines st = int (length ls)" "rd_fragmentBytes st = int (length t)"
    "list_all (line_fits maxLine) ls \<and> line_fits maxLine t"
proof -
  have "advanced parser (start_state off num) ls t st" "reader_inv maxLine st"
    and fits: "list_all (line_fits maxLine) ls \<and> line_fits maxLine t"
    using assms by (auto simp: reads_def split: if_splits)
  then show "rd_events st = line_events parser off num ls" "rd_checkpointOffset st = off + span_of ls"
    "rd_nextLineNumber st = num + int (length ls)" "rd_completeLines st = int (length ls)"
    "rd_parsedLines st = records_in (line_events parser off num ls)"
    "rd_parsedLines st + rd_malformedLines st = int (length ls)" "rd_fragmentBytes st = int (length t)"
    by (simp_all add: advanced_def start_state_def reader_inv_def)
  show "list_all (line_fits maxLine) ls \<and> line_fits maxLine t" by (rule fits)
qed

text \<open>How the generator ends on a file it opens.\<close>

lemma iterate_ends:
  fixes sha parser opts initial chunks final
  defines "it \<equiv> iterateJsonlForward sha parser opts initial chunks final"
  assumes bound: "bounded_stream opts initial chunks" and lines: "split_lines (concat chunks) = (ls, t)"
    and opts: "option_checks opts = Inr ()" "\<not> (jo_noFollow opts \<and> f_symlink initial)"
    and handle: "handle_checks opts initial = Inr s" "start_of opts \<le> sn_size s"
  obtains st where "list_all (line_fits (jo_maxLineBytes opts)) ls \<and> line_fits (jo_maxLineBytes opts) t"
      "it = (line_events parser (start_of opts) (first_line opts) ls,
             read_summary sha opts final (start_of opts) st)"
      "reads parser (jo_maxLineBytes opts) (start_state (start_of opts) (first_line opts)) ls t (st, None)"
      "rd_bytesRead st = int (length (concat chunks))"
  | "\<not> (list_all (line_fits (jo_maxLineBytes opts)) ls \<and> line_fits (jo_maxLineBytes opts) t)"
      "it = (line_events parser (start_of opts) (first_line opts)
               (takeWhile (line_fits (jo_maxLineBytes opts)) ls), Inl InputLimitError)"
proof -
  let ?r = "read_chunks parser (effective_end opts (sn_size s)) (jo_maxLineBytes opts)
      (if effective_end opts (sn_size s) = Some (start_of opts) then [] else chunks)
      (start_state (start_of opts) (first_line opts))"
  note gen = generator_reads [OF bound handle(1) opts(1) lines, of parser]
  have it: "it = (case ?r of (st, Some e) \<Rightarrow> (rd_events st, Inl e)
      | (st, None) \<Rightarrow> (rd_events st, read_summary sha opts final (start_of opts) st))"
    by (simp only: it_def iterateJsonlForward_def opts(1) handle(1) sum.case if_not_P [OF opts(2)]
        if_not_P [OF handle(2) [unfolded not_less [symmetric]]])
  obtain st err where r: "?r = (st, err)" by (cases ?r)
  show ?thesis
  proof (cases err)
    case None
    then have "reads parser (jo_maxLineBytes opts) (start_state (start_of opts) (first_line opts)) ls t (st, None)"
      using gen(1) r by simp
    from that(1) [OF reads_start(8) [OF this] _ this] reads_start(1) [OF this] gen(2) it r None
    show ?thesis by simp
  next
    case (Some e)
    then have "reads parser (jo_maxLineBytes opts) (start_state (start_of opts) (first_line opts)) ls t (st, Some e)"
      using gen(1) r by simp
    then have "\<not> (list_all (line_fits (jo_maxLineBytes opts)) ls \<and> line_fits (jo_maxLineBytes opts) t)"
      "e = InputLimitError" "rd_events st = line_events parser (start_of opts) (first_line opts)
         (takeWhile (line_fits (jo_maxLineBytes opts)) ls)"
      by (auto simp: reads_def start_state_def split: if_splits)
    with that(2) it r Some show ?thesis by simp
  qed
qed

lemma iterate_Inr_checks:
  assumes "iterateJsonlForward sha parser opts initial chunks final = (events, Inr sm)"
  obtains s where "option_checks opts = Inr ()" "\<not> (jo_noFollow opts \<and> f_symlink initial)"
    "handle_checks opts initial = Inr s" "start_of opts \<le> sn_size s"
  using assms by (auto simp: iterateJsonlForward_def split: sum.splits if_splits)

lemma read_summary_Inr:
  assumes "read_summary sha opts final startOffset st = Inr sm"
  shows "sm = \<lparr> sm_fileIdentity = identity_of final, sm_observedSize = int (length (f_bytes final)),
      sm_startOffset = startOffset, sm_checkpointOffset = rd_checkpointOffset st,
      sm_nextLineNumber = rd_nextLineNumber st,
      sm_checkpointAnchor = anchor_of sha final (rd_checkpointOffset st),
      sm_bytesRead = rd_bytesRead st, sm_completeLines = rd_completeLines st,
      sm_parsedLines = rd_parsedLines st, sm_malformedLines = rd_malformedLines st,
      sm_partialFinalLine =
        (if rd_fragmentBytes st = 0 then None
         else Some \<lparr> pl_byteStart = rd_checkpointOffset st, pl_byteLength = rd_fragmentBytes st,
                pl_lineNumber = rd_nextLineNumber st \<rparr>) \<rparr>"
    "safe_nonneg (rd_checkpointOffset st)" "rd_checkpointOffset st \<le> int (length (f_bytes final))"
  using assms
  by (auto simp: read_summary_def handle_checks_def snapshotFromStats_def
      split: sum.splits if_splits option.splits dest!: readCheckpointAnchor_Inr)

section \<open>Properties\<close>

lemma read_yields_lines:
  assumes it: "iterateJsonlForward sha parser opts initial chunks final = (events, Inr sm)"
    and bound: "bounded_stream opts initial chunks"
    and lines: "split_lines (concat chunks) = (ls, t)"
  shows "events = line_events parser (start_of opts) (first_line opts) ls \<and>
    sm_checkpointOffset sm = start_of opts + span_of ls \<and>
    sm_nextLineNumber sm = first_line opts + int (length ls) \<and>
    sm_completeLines sm = int (length ls) \<and>
    sm_parsedLines sm = records_in events \<and>
    sm_parsedLines sm + sm_malformedLines sm = sm_completeLines sm \<and>
    sm_bytesRead sm = int (length (concat chunks)) \<and>
    sm_partialFinalLine sm = partial_of (sm_checkpointOffset sm) (sm_nextLineNumber sm) t"
proof -
  obtain s where c: "option_checks opts = Inr ()" "\<not> (jo_noFollow opts \<and> f_symlink initial)"
    "handle_checks opts initial = Inr s" "start_of opts \<le> sn_size s"
    by (rule iterate_Inr_checks [OF it])
  show ?thesis
  proof (cases rule: iterate_ends [OF bound lines c, of sha parser final])
    case (1 st)
    have e: "events = line_events parser (start_of opts) (first_line opts) ls"
      "read_summary sha opts final (start_of opts) st = Inr sm"
      using 1(2) unfolding it by simp_all
    from read_summary_Inr(1) [OF e(2)] reads_start [OF 1(3)] e(1) 1(4) show ?thesis
      by (simp add: partial_of_def)
  next
    case 2
    from 2(2) show ?thesis unfolding it by simp
  qed
qed

text \<open>C26: a read that returns has yielded exactly the physical lines of the bytes of the stream,
  in order, with their line numbers and offsets; its checkpoint is after the last complete line, and
  an unterminated rest is reported and left outside the checkpoint.\<close>

theorem iterateJsonlForward_lines:
  assumes it: "iterateJsonlForward sha parser opts initial chunks final = (events, Inr sm)"
    and bound: "bounded_stream opts initial chunks"
    and lines: "split_lines (concat chunks) = (ls, t)"
  shows "events = line_events parser (start_of opts) (first_line opts) ls \<and>
    sm_checkpointOffset sm = start_of opts + span_of ls \<and>
    sm_nextLineNumber sm = first_line opts + int (length ls) \<and>
    sm_completeLines sm = int (length ls) \<and>
    sm_parsedLines sm = records_in events \<and>
    sm_parsedLines sm + sm_malformedLines sm = sm_completeLines sm \<and>
    sm_bytesRead sm = int (length (concat chunks)) \<and>
    sm_partialFinalLine sm = partial_of (sm_checkpointOffset sm) (sm_nextLineNumber sm) t"
  using assms by (rule read_yields_lines)

text \<open>A line longer than the limit stops the read with the size error after exactly the lines
  before it; it is neither delivered nor skipped.\<close>

theorem iterateJsonlForward_overlong:
  assumes "option_checks opts = Inr ()" "\<not> (jo_noFollow opts \<and> f_symlink initial)"
    and "handle_checks opts initial = Inr s" "start_of opts \<le> sn_size s"
    and bound: "bounded_stream opts initial chunks" and lines: "split_lines (concat chunks) = (ls, t)"
    and long: "\<not> list_all (line_fits (jo_maxLineBytes opts)) (ls @ [t])"
  shows "iterateJsonlForward sha parser opts initial chunks final =
    (line_events parser (start_of opts) (first_line opts) (takeWhile (line_fits (jo_maxLineBytes opts)) ls),
     Inl InputLimitError)"
  by (cases rule: iterate_ends [OF bound lines assms(1-4), of sha parser final]) (use long in simp_all)

text \<open>What a read yields and returns does not depend on where the stream cut its chunks.\<close>

theorem iterateJsonlForward_chunks:
  assumes bound: "bounded_stream opts initial chunks" and same: "concat chunks' = concat chunks"
  shows "iterateJsonlForward sha parser opts initial chunks' final =
    iterateJsonlForward sha parser opts initial chunks final"
proof -
  obtain ls t where lines: "split_lines (concat chunks) = (ls, t)" by (cases "split_lines (concat chunks)")
  have bound': "bounded_stream opts initial chunks'" and lines': "split_lines (concat chunks') = (ls, t)"
    using bound lines unfolding bounded_stream_def same .
  show ?thesis
  proof (cases "\<exists>s. option_checks opts = Inr () \<and> \<not> (jo_noFollow opts \<and> f_symlink initial) \<and>
      handle_checks opts initial = Inr s \<and> start_of opts \<le> sn_size s")
    case True
    then obtain s where c: "option_checks opts = Inr ()" "\<not> (jo_noFollow opts \<and> f_symlink initial)"
      "handle_checks opts initial = Inr s" "start_of opts \<le> sn_size s" by blast
    have "read_summary sha opts final (start_of opts) st' = read_summary sha opts final (start_of opts) st"
      if "reads parser (jo_maxLineBytes opts) (start_state (start_of opts) (first_line opts)) ls t (st, None)"
        "reads parser (jo_maxLineBytes opts) (start_state (start_of opts) (first_line opts)) ls t (st', None)"
        "rd_bytesRead st' = rd_bytesRead st" for st st'
    proof -
      have eq: "rd_checkpointOffset st' = rd_checkpointOffset st" "rd_nextLineNumber st' = rd_nextLineNumber st"
        "rd_completeLines st' = rd_completeLines st" "rd_parsedLines st' = rd_parsedLines st"
        "rd_malformedLines st' = rd_malformedLines st" "rd_fragmentBytes st' = rd_fragmentBytes st"
        using reads_start [OF that(1)] reads_start [OF that(2)] by simp_all
      show ?thesis unfolding read_summary_def eq that(3) ..
    qed
    note summary = this
    show ?thesis
    proof (cases rule: iterate_ends [OF bound lines c, of sha parser final])
      case (1 st)
      show ?thesis
      proof (cases rule: iterate_ends [OF bound' lines' c, of sha parser final])
        case first: (1 st')
        have "rd_bytesRead st' = rd_bytesRead st" using first(4) 1(4) same by simp
        from summary [OF 1(3) first(3) this] show ?thesis using 1(2) first(2) by simp
      qed (use 1(1) in simp)
    next
      case 2
      note left = this
      show ?thesis
        by (cases rule: iterate_ends [OF bound' lines' c, of sha parser final]) (use left in simp_all)
    qed
  next
    case False
    then show ?thesis
      by (auto simp: iterateJsonlForward_def not_le split: sum.split)
  qed
qed

text \<open>C27: reading a file up to its last complete line and, after it has grown, from there on
  yields the lines of one read of the grown file: none is lost, repeated or renumbered.\<close>

theorem iterateJsonlForward_incremental:
  assumes first: "iterateJsonlForward sha parser opts f chunks f = (events, Inr sm)"
    and second: "iterateJsonlForward sha parser
      (opts \<lparr> jo_startOffset := Some (sm_checkpointOffset sm), jo_nextLineNumber := Some (sm_nextLineNumber sm) \<rparr>)
      g chunks2 g = (events2, Inr sm2)"
    and whole: "iterateJsonlForward sha parser opts g chunks3 g = (events3, Inr sm3)"
    and opts: "start_of opts = 0" "jo_endOffset opts = None" "\<not> jo_pinEnd opts"
    and streams: "concat chunks = f_bytes f" "concat chunks3 = f_bytes g"
      "concat chunks2 = drop (nat (sm_checkpointOffset sm)) (f_bytes g)"
    and grown: "f_bytes g = f_bytes f @ extra"
  shows "events3 = events @ events2 \<and> sm_checkpointOffset sm3 = sm_checkpointOffset sm2 \<and>
    sm_nextLineNumber sm3 = sm_nextLineNumber sm2 \<and> sm_partialFinalLine sm3 = sm_partialFinalLine sm2"
proof -
  let ?opts2 = "opts \<lparr> jo_startOffset := Some (sm_checkpointOffset sm), jo_nextLineNumber := Some (sm_nextLineNumber sm) \<rparr>"
  have bound: "bounded_stream opts f chunks" "bounded_stream ?opts2 g chunks2" "bounded_stream opts g chunks3"
    using opts by (simp_all add: bounded_stream_def effective_end_def)
  obtain ls t where l: "split_lines (f_bytes f) = (ls, t)" by (cases "split_lines (f_bytes f)")
  obtain ms u where m: "split_lines (t @ extra) = (ms, u)" by (cases "split_lines (t @ extra)")
  have g: "split_lines (f_bytes g) = (ls @ ms, u)" using split_lines_append [OF l m] grown by simp
  note r1 = read_yields_lines [OF first bound(1), unfolded streams, OF l]
  note r3 = read_yields_lines [OF whole bound(3), unfolded streams, OF g]
  let ?joined = "concat (map (\<lambda>l. l @ [0x0A]) ls)"
  have joined: "f_bytes f = ?joined @ t" using split_lines_join [OF l] by blast
  have len: "int (length ?joined) = span_of ls" by (induction ls) simp_all
  have "sm_checkpointOffset sm = span_of ls" using r1 opts(1) by simp
  then have "nat (sm_checkpointOffset sm) = length ?joined" using len by simp
  then have tail: "drop (nat (sm_checkpointOffset sm)) (f_bytes g) = t @ extra"
    by (simp only: grown joined append_assoc append_eq_conv_conj [THEN iffD1, THEN conjunct2, OF refl])
      (simp add: append_assoc)
  note r2 = read_yields_lines [OF second bound(2), unfolded streams tail, OF m]
  have start2: "start_of ?opts2 = sm_checkpointOffset sm" "first_line ?opts2 = sm_nextLineNumber sm"
    by (simp_all add: start_of_def first_line_def or_default_def)
  note r2' = r2 [unfolded start2]
  show ?thesis using r1 r2' r3 opts(1) by (simp add: line_events_append add.assoc)
qed

section \<open>Witnesses\<close>

definition plain_read :: jsonl_options where
  "plain_read = \<lparr> jo_startOffset = None, jo_nextLineNumber = None, jo_endOffset = None, jo_pinEnd = False,
     jo_highWaterMark = None, jo_noFollow = False, jo_requireSingleLink = False, jo_maxFileBytes = None,
     jo_maxLineBytes = Some 3 \<rparr>"

definition sample_parser :: jsonl_parser where
  "sample_parser s = (if s = [0x31] then Some (JNum (NInt 1)) else None)"

lemmas read_evaluation = iterateJsonlForward_def option_checks_def start_of_def first_line_def
  or_default_def optional_nonneg_def handle_checks_def snapshotFromStats_def sample_file_def
  effective_end_def start_state_def read_summary_def readCheckpointAnchor_def anchor_bytes_def
  scan_chunk.simps within_limit_def push_fragment_def emit_line_def make_line_def content_bytes_def
  at_last_def fatalDecode_def lead_byte_def units_of_cp_def unit_of_def sample_parser_def
  assertSafeNonNegativeInteger_def CHECKPOINT_ANCHOR_BYTES_def checks_ok safe_nonneg_def safe_pos_def
  safe_int_def max_safe_def

lemma sample_read:
  "\<exists>ev sm. iterateJsonlForward sample_sha sample_parser plain_read (sample_file [0x31, 0x0A, 0x32])
     [[0x31], [0x0A, 0x32]] (sample_file [0x31, 0x0A, 0x32]) = (ev, Inr sm)"
  by (simp add: plain_read_def read_evaluation)


theorem iterateJsonlForward_lines_witness:
  "\<exists>ev sm. iterateJsonlForward sample_sha sample_parser plain_read (sample_file [0x31, 0x0A, 0x32])
     [[0x31], [0x0A, 0x32]] (sample_file [0x31, 0x0A, 0x32]) = (ev, Inr sm) \<and>
     sm_checkpointOffset sm = 2 \<and> sm_completeLines sm = 1 \<and> sm_partialFinalLine sm \<noteq> None"
proof -
  from sample_read obtain ev sm where r:
    "iterateJsonlForward sample_sha sample_parser plain_read (sample_file [0x31, 0x0A, 0x32])
     [[0x31], [0x0A, 0x32]] (sample_file [0x31, 0x0A, 0x32]) = (ev, Inr sm)" by blast
  have "bounded_stream plain_read (sample_file [0x31, 0x0A, 0x32]) [[0x31], [0x0A, 0x32]]"
    by (simp add: bounded_stream_def effective_end_def plain_read_def)
  from iterateJsonlForward_lines [OF r this, of "[[0x31]]" "[0x32]"] r show ?thesis
    by (simp add: start_of_def plain_read_def or_default_def partial_of_def)
qed

theorem iterateJsonlForward_overlong_witness:
  "iterateJsonlForward sample_sha sample_parser plain_read (sample_file [0x31, 0x0A, 1, 2, 3, 4, 0x0A])
     [[0x31, 0x0A, 1, 2], [3, 4, 0x0A]] (sample_file []) =
   (line_events sample_parser 0 1 [[0x31]], Inl InputLimitError)"
proof -
  let ?f = "sample_file [0x31, 0x0A, 1, 2, 3, 4, 0x0A]"
  have "handle_checks plain_read ?f = Inr (snapshot_of ?f)" "start_of plain_read \<le> sn_size (snapshot_of ?f)"
    "option_checks plain_read = Inr ()" "\<not> (jo_noFollow plain_read \<and> f_symlink ?f)"
    "bounded_stream plain_read ?f [[0x31, 0x0A, 1, 2], [3, 4, 0x0A]]"
    by (simp_all add: plain_read_def read_evaluation snapshot_of_def identity_of_def bounded_stream_def)
  from iterateJsonlForward_overlong [OF this(3,4,1,2,5), of "[[0x31], [1, 2, 3, 4]]" "[]"] show ?thesis
    by (simp add: plain_read_def line_fits_def within_limit_def start_of_def first_line_def or_default_def)
qed

theorem iterateJsonlForward_chunks_witness:
  "iterateJsonlForward sample_sha sample_parser plain_read (sample_file [0x31, 0x0A, 0x32])
     [[], [0x31, 0x0A], [0x32]] (sample_file [0x31, 0x0A, 0x32]) =
   iterateJsonlForward sample_sha sample_parser plain_read (sample_file [0x31, 0x0A, 0x32])
     [[0x31], [0x0A, 0x32]] (sample_file [0x31, 0x0A, 0x32])"
  by (rule iterateJsonlForward_chunks) (simp_all add: bounded_stream_def effective_end_def plain_read_def)

theorem iterateJsonlForward_incremental_witness:
  "\<exists>ev1 sm1 ev2 sm2 ev3 sm3.
     iterateJsonlForward sample_sha sample_parser plain_read (sample_file [0x31, 0x0A, 0x32])
       [[0x31, 0x0A, 0x32]] (sample_file [0x31, 0x0A, 0x32]) = (ev1, Inr sm1) \<and>
     iterateJsonlForward sample_sha sample_parser
       (plain_read \<lparr> jo_startOffset := Some (sm_checkpointOffset sm1),
                    jo_nextLineNumber := Some (sm_nextLineNumber sm1) \<rparr>)
       (sample_file [0x31, 0x0A, 0x32, 0x0A]) [[0x32, 0x0A]] (sample_file [0x31, 0x0A, 0x32, 0x0A]) =
       (ev2, Inr sm2) \<and>
     iterateJsonlForward sample_sha sample_parser plain_read (sample_file [0x31, 0x0A, 0x32, 0x0A])
       [[0x31, 0x0A, 0x32, 0x0A]] (sample_file [0x31, 0x0A, 0x32, 0x0A]) = (ev3, Inr sm3) \<and>
     ev3 = ev1 @ ev2"
proof -
  let ?f = "sample_file [0x31, 0x0A, 0x32]" and ?g = "sample_file [0x31, 0x0A, 0x32, 0x0A]"
  obtain ev1 sm1 where 1: "iterateJsonlForward sample_sha sample_parser plain_read ?f
      [[0x31, 0x0A, 0x32]] ?f = (ev1, Inr sm1)" and at: "sm_checkpointOffset sm1 = 2" "sm_nextLineNumber sm1 = 2"
    by (simp add: plain_read_def read_evaluation)
  obtain ev2 sm2 where 2: "iterateJsonlForward sample_sha sample_parser
       (plain_read \<lparr> jo_startOffset := Some (sm_checkpointOffset sm1),
                    jo_nextLineNumber := Some (sm_nextLineNumber sm1) \<rparr>)
       ?g [[0x32, 0x0A]] ?g = (ev2, Inr sm2)"
    by (simp add: at plain_read_def read_evaluation)
  obtain ev3 sm3 where 3: "iterateJsonlForward sample_sha sample_parser plain_read ?g
       [[0x31, 0x0A, 0x32, 0x0A]] ?g = (ev3, Inr sm3)"
    by (simp add: plain_read_def read_evaluation)
  have "ev3 = ev1 @ ev2"
    using iterateJsonlForward_incremental [OF 1 2 3, of "[0x0A]"] at
    by (simp add: plain_read_def start_of_def or_default_def sample_file_def)
  with 1 2 3 show ?thesis by blast
qed

end
