(* ===== verification/Watch_Laws.thy ===== *)
theory Watch_Laws
  imports Watch_Engine Jsonl_Lines
begin

text \<open>
  What one tick of a watcher makes of a feed: the turns on the lines completed since the cursor, each
  once and in order, and a cursor behind the last complete line.
\<close>

section \<open>The turns on lines\<close>

text \<open>The turn on a physical line that is news, if there is one.\<close>

definition news_on :: "jsonl_parser \<Rightarrow> watch_options \<Rightarrow> jsonl_file \<Rightarrow> byte list \<Rightarrow> (jstr \<times> jsval) list option" where
  "news_on parse opts f l =
     (case ln_kind (make_line parse l 0 0) of
        Malformed \<Rightarrow> None
      | Record v \<Rightarrow>
          if isTurnV1 v = Inr True \<and> of_file (ff_provider f) (ff_sessionId f) v \<and> \<not> isEchoTurn (props_of v) \<and>
            inScope opts (opt_text (props_of v) ''workstream_id'')
          then Some (props_of v) else None)"

lemma make_line_kind: "ln_kind (make_line parse l start number) = ln_kind (make_line parse l 0 0)"
  by (simp add: make_line_def Let_def split: sum.split option.split)

lemma consume_silent: "consume_lines opts False f ls pending = Inr evs \<Longrightarrow> evs = pending"
  by (induction ls) (auto split: line_kind.splits sum.splits)

lemma consume_news:
  "consume_lines opts True f (line_events parse start number ls) pending = Inr evs \<Longrightarrow>
   \<exists>new. evs = pending @ new \<and> map Inr new = map (turnEvent opts) (List.map_filter (news_on parse opts f) ls)"
proof (induction ls arbitrary: start number pending)
  case (Cons l ls)
  let ?rest = "\<lambda>p. consume_lines opts True f (line_events parse (start + int (length l) + 1) (number + 1) ls) p"
  show ?case
  proof (cases "news_on parse opts f l")
    case None
    with Cons.prems have "?rest pending = Inr evs"
      by (auto simp: news_on_def make_line_kind [of parse l start number] split: line_kind.splits sum.splits if_splits)
    from Cons.IH [OF this] None show ?thesis by (simp add: List.map_filter_simps)
  next
    case (Some turn)
    then obtain v where v: "ln_kind (make_line parse l 0 0) = Record v" "isTurnV1 v = Inr True" "turn = props_of v"
      "of_file (ff_provider f) (ff_sessionId f) v" "\<not> isEchoTurn (props_of v)"
      "inScope opts (opt_text (props_of v) ''workstream_id'')"
      by (auto simp: news_on_def split: line_kind.splits if_splits)
    with Cons.prems obtain ev where ev: "turnEvent opts turn = Inr ev" "?rest (pending @ [ev]) = Inr evs"
      by (auto simp: make_line_kind [of parse l start number] split: sum.splits)
    from Cons.IH [OF ev(2)] obtain new where "evs = (pending @ [ev]) @ new"
      "map Inr new = map (turnEvent opts) (List.map_filter (news_on parse opts f) ls)" by blast
    with Some ev(1) show ?thesis by (intro exI [of _ "ev # new"]) (simp add: List.map_filter_simps)
  qed
qed (simp add: List.map_filter_simps)

lemma consumeFeed_news:
  assumes "consumeFeed sha parse opts sink f fv start = Inr (Some (evs, position))"
    and "fv_open fv = Some (opened, chunks, closed)" "split_lines (concat (chunks start)) = (ls, t)"
  shows "position = start + span_of ls \<and>
    (sink \<longrightarrow> map Inr evs = map (turnEvent opts) (List.map_filter (news_on parse opts f) ls))"
proof -
  obtain read summary where it: "iterateJsonlForward sha parse (read_from start) opened (chunks start) closed = (read, summary)"
    by (cases "iterateJsonlForward sha parse (read_from start) opened (chunks start) closed")
  with assms(1,2) obtain sm where sm: "summary = Inr sm" "position = sm_checkpointOffset sm"
    and lines: "consume_lines opts sink f read [] = Inr evs"
    by (auto simp: consumeFeed_def split: sum.splits)
  have "bounded_stream (read_from start) opened (chunks start)"
    by (simp add: bounded_stream_def effective_end_def read_from_def)
  note all = read_yields_lines [OF it [unfolded sm(1)] this assms(3)]
  have start: "start_of (read_from start) = start" by (simp add: start_of_def read_from_def or_default_def)
  with all lines consume_news [of opts f parse start 1 ls "[]" evs] sm(2)
  show ?thesis by (cases sink) (auto simp: first_line_def read_from_def or_default_def)
qed

lemma consumeFeed_opened:
  "fv_open fv = Some x \<Longrightarrow> consumeFeed sha parse opts sink f fv start \<noteq> Inr None"
  by (auto simp: consumeFeed_def split: prod.split sum.split)

section \<open>One feed among the others\<close>

definition from_feed :: "jsonl_file \<Rightarrow> turn_event \<Rightarrow> bool" where
  "from_feed f ev \<longleftrightarrow> te_provider ev = ff_provider f \<and> te_session_id ev = ff_sessionId f"

lemma of_file_text:
  "of_file provider session v \<Longrightarrow> text_in (props_of v) ''provider'' = provider \<and> text_in (props_of v) ''session_id'' = session"
  by (cases v) (auto simp: of_file_def text_at_def text_in_def props_of_def)

lemma consume_from:
  "consume_lines opts sink f ls pending = Inr evs \<Longrightarrow> \<forall>ev\<in>set pending. from_feed f ev \<Longrightarrow> \<forall>ev\<in>set evs. from_feed f ev"
proof (induction ls arbitrary: pending)
  case (Cons l ls)
  show ?case
  proof (cases "consume_lines opts sink f ls pending = Inr evs")
    case True
    with Cons show ?thesis by blast
  next
    case False
    with Cons.prems(1) obtain v ev where v: "ln_kind l = Record v" "of_file (ff_provider f) (ff_sessionId f) v"
      "turnEvent opts (props_of v) = Inr ev" "consume_lines opts sink f ls (pending @ [ev]) = Inr evs"
      by (auto split: line_kind.splits sum.splits if_splits)
    then have "from_feed f ev" using of_file_text [OF v(2)]
      by (auto simp: turnEvent_def from_feed_def split: sum.splits)
    with Cons.IH [OF v(4)] Cons.prems(2) show ?thesis by auto
  qed
qed simp

lemma consumeFeed_from: "consumeFeed sha parse opts sink f fv start = Inr (Some (evs, position)) \<Longrightarrow> \<forall>ev\<in>set evs. from_feed f ev"
  by (auto simp: consumeFeed_def split: option.splits prod.splits sum.splits dest!: consume_from)

text \<open>The files of a listing: one for each session, at its own path.\<close>

definition proper_files :: "jsonl_file list \<Rightarrow> bool" where
  "proper_files files \<longleftrightarrow> distinct (map ff_components files) \<and> distinct (map (\<lambda>f. (ff_provider f, ff_sessionId f)) files)"

lemma proper_differ:
  assumes "proper_files (g # fs)" "f \<in> set fs"
  shows "ff_components f \<noteq> ff_components g \<and> (ff_provider g, ff_sessionId g) \<noteq> (ff_provider f, ff_sessionId f)"
proof -
  have g: "ff_components g \<notin> ff_components ` set fs"
    "(ff_provider g, ff_sessionId g) \<notin> (\<lambda>f. (ff_provider f, ff_sessionId f)) ` set fs"
    using assms(1) by (simp_all add: proper_files_def)
  have f: "ff_components f \<in> ff_components ` set fs"
    "(ff_provider f, ff_sessionId f) \<in> (\<lambda>f. (ff_provider f, ff_sessionId f)) ` set fs"
    using assms(2) by (rule imageI)+
  have "ff_components f \<noteq> ff_components g"
  proof
    assume "ff_components f = ff_components g"
    from f(1) [unfolded this] g(1) show False by contradiction
  qed
  moreover have "(ff_provider g, ff_sessionId g) \<noteq> (ff_provider f, ff_sessionId f)"
  proof
    assume "(ff_provider g, ff_sessionId g) = (ff_provider f, ff_sessionId f)"
    from g(2) [unfolded this] f(2) show False by contradiction
  qed
  ultimately show ?thesis ..
qed

lemma scan_file_from:
  "scan_file sha parse opts sink feed f cursors = Inr (Some (evs, position)) \<Longrightarrow> \<forall>ev\<in>set evs. from_feed f ev"
  by (auto simp: scan_file_def Let_def split: option.splits if_splits dest: consumeFeed_from)

lemma scan_cases:
  assumes "scan_files sha parse opts sink feed (f # fs) cursors = (cursors', outc)"
  obtains (failed) e where "scan_file sha parse opts sink feed f cursors = Inl e" "cursors' = cursors" "outc = Inl e"
  | (missing) "scan_file sha parse opts sink feed f cursors = Inr None"
      "scan_files sha parse opts sink feed fs cursors = (cursors', outc)"
  | (scanned) evs position later where "scan_file sha parse opts sink feed f cursors = Inr (Some (evs, position))"
      "scan_files sha parse opts sink feed fs (cursors(ff_components f \<mapsto> position)) = (cursors', later)"
      "outc = map_sum id (\<lambda>more. evs @ more) later"
proof (cases "scan_file sha parse opts sink feed f cursors")
  case (Inl e)
  show ?thesis by (rule failed [OF Inl]) (use assms Inl in simp_all)
next
  case (Inr r)
  show ?thesis
  proof (cases r)
    case None
    show ?thesis by (rule missing) (use Inr assms None in simp_all)
  next
    case (Some x)
    obtain evs position where x: "x = (evs, position)" by (cases x)
    obtain c later where rest: "scan_files sha parse opts sink feed fs (cursors(ff_components f \<mapsto> position)) = (c, later)"
      by (cases "scan_files sha parse opts sink feed fs (cursors(ff_components f \<mapsto> position))")
    have now: "scan_file sha parse opts sink feed f cursors = Inr (Some (evs, position))" using Inr Some x by simp
    have "(cursors', outc) = (case later of Inl e \<Rightarrow> (c, Inl e) | Inr es \<Rightarrow> (c, Inr (evs @ es)))"
      unfolding assms [symmetric] by (simp add: now rest)
    then have same: "cursors' = c" and outc: "outc = map_sum id (\<lambda>more. evs @ more) later"
      by (simp_all split: sum.splits)
    show ?thesis by (rule scanned [OF now rest [folded same] outc])
  qed
qed

lemma scan_other:
  "scan_files sha parse opts sink feed fs cursors = (cursors', outc) \<Longrightarrow> path \<notin> ff_components ` set fs \<Longrightarrow>
   cursors' path = cursors path"
proof (induction fs arbitrary: cursors cursors' outc)
  case (Cons f fs)
  from Cons.prems(1) show ?case
  proof (cases rule: scan_cases)
    case (scanned evs position later)
    from Cons.IH [OF scanned(2)] Cons.prems(2) show ?thesis by simp
  qed (use Cons.prems(2) Cons.IH in auto)
qed simp

lemma scan_from:
  "scan_files sha parse opts sink feed fs cursors = (cursors', Inr evs) \<Longrightarrow> ev \<in> set evs \<Longrightarrow> \<exists>f\<in>set fs. from_feed f ev"
proof (induction fs arbitrary: cursors cursors' evs)
  case (Cons f fs)
  from Cons.prems(1) show ?case
  proof (cases rule: scan_cases)
    case (scanned mine position later)
    then obtain more where "later = Inr more" "evs = mine @ more" by (cases later) auto
    with scanned(1,2) Cons.prems(2) Cons.IH show ?thesis using scan_file_from by fastforce
  qed (use Cons in auto)
qed simp

text \<open>What a scan does with a file of the listing that can be opened.\<close>

lemma scan_finds:
  "scan_files sha parse opts sink feed fs cursors = (cursors', Inr evs) \<Longrightarrow> proper_files fs \<Longrightarrow> f \<in> set fs \<Longrightarrow>
   fv_size (feed (ff_components f)) = Some found \<Longrightarrow> fv_open (feed (ff_components f)) = Some x \<Longrightarrow>
   or_default 0 (cursors (ff_components f)) \<le> int found \<Longrightarrow>
   \<exists>mine position. consumeFeed sha parse opts sink f (feed (ff_components f)) (or_default 0 (cursors (ff_components f)))
       = Inr (Some (mine, position)) \<and> cursors' (ff_components f) = Some position \<and> filter (from_feed f) evs = mine"
proof (induction fs arbitrary: cursors cursors' evs)
  case (Cons g fs)
  have step: "scan_file sha parse opts sink feed f cursors =
      consumeFeed sha parse opts sink f (feed (ff_components f)) (or_default 0 (cursors (ff_components f)))"
    using Cons.prems(4,6) by (simp add: scan_file_def Let_def)
  have proper: "proper_files fs" using Cons.prems(2) by (simp add: proper_files_def)
  show ?case
  proof (cases "g = f")
    case True
    have other: "ff_components f \<notin> ff_components ` set fs" "(ff_provider f, ff_sessionId f) \<notin> (\<lambda>f. (ff_provider f, ff_sessionId f)) ` set fs"
      using Cons.prems(2) True by (simp_all add: proper_files_def)
    from Cons.prems(1) show ?thesis
    proof (cases rule: scan_cases)
      case missing
      with True step consumeFeed_opened [OF Cons.prems(5)] show ?thesis by simp
    next
      case (scanned mine position later)
      then obtain more where more: "later = Inr more" "evs = mine @ more" by (cases later) auto
      have "\<not> from_feed f ev" if "ev \<in> set more" for ev
        using scan_from [OF scanned(2) [unfolded more(1)] that] other(2) by (auto simp: from_feed_def)
      then have "filter (from_feed f) evs = mine"
        using more(2) scan_file_from [OF scanned(1)] True by (auto simp: filter_empty_conv)
      with scanned(1,2) scan_other [OF scanned(2) other(1) [folded True]] True step show ?thesis by auto
    qed simp
  next
    case False
    with Cons.prems(3) have f: "f \<in> set fs" by simp
    have other: "ff_components f \<noteq> ff_components g" "(ff_provider g, ff_sessionId g) \<noteq> (ff_provider f, ff_sessionId f)"
      using proper_differ [OF Cons.prems(2) f] by simp_all
    from Cons.prems(1) show ?thesis
    proof (cases rule: scan_cases)
      case missing
      with Cons.IH [OF missing(2) proper f Cons.prems(4-6)] show ?thesis by simp
    next
      case (scanned mine position later)
      then obtain more where more: "later = Inr more" "evs = mine @ more" by (cases later) auto
      have "filter (from_feed f) mine = []"
        using scan_file_from [OF scanned(1)] other(2) by (auto simp: filter_empty_conv from_feed_def)
      with Cons.IH [OF scanned(2) [unfolded more(1)] proper f Cons.prems(4,5)] Cons.prems(6) other(1) more(2)
      show ?thesis by simp
    qed simp
  qed
qed simp

end
