(* ===== verification/Watch_Turns.thy ===== *)
theory Watch_Turns
  imports Watch_Laws
begin

text \<open>
  The life of a watcher: primed once, then polled; the turn events of a growing feed.
\<close>

section \<open>The scans besides the feeds\<close>

definition turn_of :: "watch_event \<Rightarrow> turn_event option" where
  "turn_of ev = (case ev of TurnEvent _ t \<Rightarrow> Some t | _ \<Rightarrow> None)"

text \<open>The turn events of a feed among the events of a tick.\<close>

definition turns_of :: "jsonl_file \<Rightarrow> watch_event list \<Rightarrow> turn_event list" where
  "turns_of f evs = filter (from_feed f) (List.map_filter turn_of evs)"

lemma turns_of_append [simp]: "turns_of f (xs @ ys) = turns_of f xs @ turns_of f ys"
  by (simp add: turns_of_def List.map_filter_def)

lemma turns_of_none: "\<forall>ev\<in>set evs. turn_of ev = None \<Longrightarrow> turns_of f evs = []"
  by (simp add: turns_of_def List.map_filter_def filter_empty_conv)

lemma turns_of_turns: "turns_of f (map (TurnEvent now) evs) = filter (from_feed f) evs"
proof -
  have "List.map_filter turn_of (map (TurnEvent now) evs) = evs"
    by (induction evs) (simp_all add: turn_of_def List.map_filter_simps)
  then show ?thesis by (simp add: turns_of_def)
qed

lemma scanJoins_keeps:
  "scanJoins opts sink now ps st = (st', evs) \<Longrightarrow> ws_feedCursors st' = ws_feedCursors st \<and> ws_primed st' = ws_primed st \<and>
     (\<forall>ev\<in>set evs. turn_of ev = None)"
  by (induction ps arbitrary: st st' evs) (fastforce simp: Let_def turn_of_def split: if_splits prod.splits)+

lemma scanIncidents_keeps:
  "scanIncidents opts sink now rs st = (st', evs) \<Longrightarrow> ws_feedCursors st' = ws_feedCursors st \<and> ws_primed st' = ws_primed st \<and>
     (\<forall>ev\<in>set evs. turn_of ev = None)"
  by (induction rs arbitrary: st st' evs) (fastforce simp: Let_def turn_of_def split: if_splits prod.splits)+

lemma scanLeases_keeps:
  "scanLeases opts sink now ls st = (st', evs) \<Longrightarrow> ws_feedCursors st' = ws_feedCursors st \<and> ws_primed st' = ws_primed st \<and>
     (\<forall>ev\<in>set evs. turn_of ev = None)"
  by (auto simp: scanLeases_def Let_def turn_of_def split: prod.splits if_splits)

lemma scan_all_feeds:
  assumes "scan_all sha parse opts sink v st = (st', Inr evs)"
  obtains st1 st2 turns where "ws_feedCursors st1 = ws_feedCursors st" "ws_primed st1 = ws_primed st"
    "scanFeeds sha parse opts sink v st1 = (st2, Inr turns)"
    "ws_feedCursors st' = ws_feedCursors st2" "ws_primed st' = ws_primed st2" "turns_of f evs = turns_of f turns"
proof -
  from assms obtain ps where ps: "wv_participations v = Inr ps" by (auto simp: scan_all_def split: sum.splits)
  obtain st1 joins where j: "scanJoins opts sink (wv_now v) ps st = (st1, joins)" by fastforce
  obtain st2 o2 where o2: "scanFeeds sha parse opts sink v st1 = (st2, o2)" by fastforce
  with assms ps j obtain turns where turns: "scanFeeds sha parse opts sink v st1 = (st2, Inr turns)"
    by (cases o2) (simp_all add: scan_all_def)
  with assms ps j obtain rs where rs: "wv_incidents v = Inr rs" by (auto simp: scan_all_def split: sum.splits)
  obtain st3 incidents where i: "scanIncidents opts sink (wv_now v) rs st2 = (st3, incidents)" by fastforce
  with assms ps j turns rs obtain ls where ls: "wv_snapshots v = Inr ls" by (auto simp: scan_all_def split: sum.splits)
  obtain st4 stale where s: "scanLeases opts sink (wv_now v) ls st3 = (st4, stale)" by fastforce
  have "st' = st4" "evs = joins @ turns @ incidents @ stale"
    using assms by (simp_all add: scan_all_def ps j turns rs i ls s)
  with scanJoins_keeps [OF j] scanIncidents_keeps [OF i] scanLeases_keeps [OF s] turns
  show ?thesis by (intro that [of st1 st2 turns]) (simp_all add: turns_of_none)
qed

lemma scanFeeds_primed: "scanFeeds sha parse opts sink v st = (st', outc) \<Longrightarrow> ws_primed st' = ws_primed st"
  by (auto simp: scanFeeds_def split: sum.splits prod.splits)

section \<open>A feed that grows\<close>

text \<open>At a tick the feed is listed among the others and holds the bytes \<open>b\<close>.\<close>

definition shows_feed :: "watch_options \<Rightarrow> jsonl_file \<Rightarrow> byte list \<Rightarrow> watch_view \<Rightarrow> bool" where
  "shows_feed opts f b v \<longleftrightarrow>
     (\<exists>files opened chunks closed. wv_files v = Inr files \<and> proper_files (watched_files opts files) \<and>
        f \<in> set (watched_files opts files) \<and>
        wv_feed v (ff_components f) = \<lparr> fv_size = Some (length b), fv_open = Some (opened, chunks, closed) \<rparr> \<and>
        (\<forall>start. concat (chunks start) = drop (nat start) b))"

text \<open>The cursor is behind the last complete line.\<close>

definition complete_lines :: "byte list \<Rightarrow> byte list list" where
  "complete_lines b = fst (split_lines b)"

definition tracks :: "jsonl_file \<Rightarrow> byte list \<Rightarrow> watch_state \<Rightarrow> bool" where
  "tracks f b st \<longleftrightarrow> ws_feedCursors st (ff_components f) = Some (span_of (complete_lines b))"

lemma span_joined: "nat (span_of ls) = length (concat (map (\<lambda>l. l @ [0x0A]) ls))"
proof -
  have "span_of ls = int (length (concat (map (\<lambda>l. l @ [0x0A]) ls)))" by (induction ls) simp_all
  then show ?thesis by simp
qed

lemma split_grown:
  assumes "split_lines b = (ls, t)"
  shows "drop (nat (span_of ls)) (b @ extra) = t @ extra" "span_of ls \<le> int (length b)"
proof -
  have b: "b = concat (map (\<lambda>l. l @ [0x0A]) ls) @ t" using split_lines_join [OF assms] by blast
  show "drop (nat (span_of ls)) (b @ extra) = t @ extra" unfolding span_joined by (subst b) simp
  have "nat (span_of ls) \<le> length b" unfolding span_joined by (subst b) simp
  then show "span_of ls \<le> int (length b)" using span_of_nonneg [of ls] by linarith
qed

lemma scan_reads:
  assumes scan: "scan_all sha parse opts sink v st = (st', Inr evs)" and view: "shows_feed opts f (b @ extra) v"
    and cursor: "or_default 0 (ws_feedCursors st (ff_components f)) = span_of (complete_lines b)"
  shows "tracks f (b @ extra) st' \<and> ws_primed st' = ws_primed st \<and>
    (sink \<longrightarrow> map Inr (turns_of f evs) = map (turnEvent opts)
       (List.map_filter (news_on parse opts f) (drop (length (complete_lines b)) (complete_lines (b @ extra)))))"
proof -
  obtain ls t where l: "split_lines b = (ls, t)" by (cases "split_lines b")
  obtain ms u where m: "split_lines (t @ extra) = (ms, u)" by (cases "split_lines (t @ extra)")
  have whole: "split_lines (b @ extra) = (ls @ ms, u)" by (rule split_lines_append [OF l m])
  from view obtain files opened chunks closed where files: "wv_files v = Inr files"
    "proper_files (watched_files opts files)" "f \<in> set (watched_files opts files)"
    and feed: "wv_feed v (ff_components f) = \<lparr> fv_size = Some (length (b @ extra)), fv_open = Some (opened, chunks, closed) \<rparr>"
    and chunks: "\<forall>start. concat (chunks start) = drop (nat start) (b @ extra)"
    unfolding shows_feed_def by blast
  from scan_all_feeds [OF scan, of f] obtain st1 st2 turns where
    st1: "ws_feedCursors st1 = ws_feedCursors st" "ws_primed st1 = ws_primed st" and
    turns: "scanFeeds sha parse opts sink v st1 = (st2, Inr turns)" and
    st': "ws_feedCursors st' = ws_feedCursors st2" "ws_primed st' = ws_primed st2" "turns_of f evs = turns_of f turns" by metis
  from turns files(1) obtain cursors tevs where
    scan: "scan_files sha parse opts sink (wv_feed v) (watched_files opts files) (ws_feedCursors st) = (cursors, Inr tevs)"
    "ws_feedCursors st2 = cursors |` set (map ff_components (watched_files opts files))" "turns = map (TurnEvent (wv_now v)) tevs"
    by (auto simp: scanFeeds_def st1(1) split: prod.splits sum.splits)
  have start: "or_default 0 (ws_feedCursors st (ff_components f)) = span_of ls" using cursor by (simp add: complete_lines_def l)
  have "span_of ls \<le> int (length (b @ extra))" using split_grown(2) [OF l] by simp
  with scan_finds [OF scan(1) files(2,3), of "length (b @ extra)" "(opened, chunks, closed)"] feed start
  obtain mine position where
    mine: "consumeFeed sha parse opts sink f (wv_feed v (ff_components f)) (span_of ls) = Inr (Some (mine, position))"
      "cursors (ff_components f) = Some position" "filter (from_feed f) tevs = mine" by auto
  have "split_lines (concat (chunks (span_of ls))) = (ms, u)" using chunks split_grown(1) [OF l] m by simp
  from consumeFeed_news [where chunks = chunks, OF mine(1) _ this] feed have
    "position = span_of ls + span_of ms" "sink \<longrightarrow> map Inr mine = map (turnEvent opts) (List.map_filter (news_on parse opts f) ms)"
    by simp_all
  with mine scan(2,3) files(3) st' st1(2) scanFeeds_primed [OF turns]
  show ?thesis by (simp add: tracks_def complete_lines_def whole l turns_of_turns)
qed

text \<open>A run of views in which the feed only grows.\<close>

inductive feed_run :: "watch_options \<Rightarrow> jsonl_file \<Rightarrow> byte list \<Rightarrow> watch_view list \<Rightarrow> byte list \<Rightarrow> bool" where
  stop: "feed_run opts f b [] b"
| grow: "shows_feed opts f (b @ extra) v \<Longrightarrow> feed_run opts f (b @ extra) vs b' \<Longrightarrow> feed_run opts f b (v # vs) b'"

inductive_cases feed_runE [elim]: "feed_run opts f b vs b'"

lemma feed_run_extends: "feed_run opts f b vs b' \<Longrightarrow> \<exists>extra. b' = b @ extra"
  by (induction rule: feed_run.induct) auto

lemma complete_lines_append: "complete_lines b = take (length (complete_lines b)) (complete_lines (b @ extra))"
proof -
  obtain ls t where l: "split_lines b = (ls, t)" by (cases "split_lines b")
  obtain ms u where m: "split_lines (t @ extra) = (ms, u)" by (cases "split_lines (t @ extra)")
  show ?thesis using split_lines_append [OF l m] by (simp add: complete_lines_def l)
qed

lemma complete_lines_between:
  assumes "b2 = b1 @ e1" "b3 = b2 @ e2"
  shows "drop (length (complete_lines b1)) (complete_lines b3) =
    drop (length (complete_lines b1)) (complete_lines b2) @ drop (length (complete_lines b2)) (complete_lines b3)"
proof -
  have "complete_lines b2 = take (length (complete_lines b2)) (complete_lines b3)"
    using complete_lines_append [of b2 e2] assms(2) by simp
  then have "complete_lines b3 = complete_lines b2 @ drop (length (complete_lines b2)) (complete_lines b3)"
    by (metis append_take_drop_id)
  moreover have "length (complete_lines b1) \<le> length (complete_lines b2)"
    using complete_lines_append [of b1 e1] assms(1) by (metis length_take min.cobounded1 min.commute)
  ultimately show ?thesis by (metis diff_is_0_eq drop0 drop_append)
qed

lemma poll_all_turns:
  assumes "feed_run opts f b vs b'"
  shows "tracks f b st \<Longrightarrow> poll_all sha parse opts vs st = (st', Inr evs) \<Longrightarrow>
    map Inr (turns_of f evs) = map (turnEvent opts)
      (List.map_filter (news_on parse opts f) (drop (length (complete_lines b)) (complete_lines b')))"
  using assms
proof (induction arbitrary: st evs rule: feed_run.induct)
  case (stop opts f b)
  then show ?case by (simp add: turns_of_def List.map_filter_def)
next
  case (grow opts f b extra v vs b')
  from grow.prems(2) obtain st1 evs1 evs2 where
    p: "poll sha parse opts v st = (st1, Inr evs1)" "poll_all sha parse opts vs st1 = (st', Inr evs2)" "evs = evs1 @ evs2"
    by (auto split: prod.splits sum.splits)
  from p(1) have scan: "scan_all sha parse opts True v st = (st1, Inr evs1)" by (auto simp: poll_def split: if_splits)
  from scan_reads [OF scan grow.hyps(1)] grow.prems(1) have
    first: "tracks f (b @ extra) st1" "map Inr (turns_of f evs1) = map (turnEvent opts)
       (List.map_filter (news_on parse opts f) (drop (length (complete_lines b)) (complete_lines (b @ extra))))"
    by (simp_all add: tracks_def or_default_def)
  from feed_run_extends [OF grow.hyps(2)] obtain e2 where "b' = (b @ extra) @ e2" by blast
  from complete_lines_between [OF refl this] grow.IH [OF first(1) p(2)] first(2) p(3)
  show ?case by (simp add: List.map_filter_def)
qed

text \<open>C16: A watcher that is primed and then polled, without a failure, reports of a feed that only grows
  exactly the turns that are news, each once and in the order of the feed: those on the lines
  completed since it was primed, however the growth falls on the ticks.\<close>

theorem watch_turns_exact:
  assumes "prime sha parse opts v new_watch_state = (st, Inr armed)" "shows_feed opts f b v"
    and "feed_run opts f b vs b'" "poll_all sha parse opts vs st = (st', Inr evs)"
  shows "map Inr (turns_of f evs) = map (turnEvent opts)
    (List.map_filter (news_on parse opts f) (drop (length (complete_lines b)) (complete_lines b')))"
proof -
  from assms(1) obtain st1 evs1 where scan: "scan_all sha parse opts False v new_watch_state = (st1, Inr evs1)"
    and st: "ws_feedCursors st = ws_feedCursors st1"
    by (auto simp: prime_def Let_def split: prod.splits sum.splits)
  have "or_default 0 (ws_feedCursors new_watch_state (ff_components f)) = span_of (complete_lines [])"
    by (simp add: new_watch_state_def or_default_def complete_lines_def)
  from scan_reads [OF scan _ this, of b] assms(2) have "tracks f b st" by (simp add: tracks_def st)
  from poll_all_turns [OF assms(3) this assms(4)] show ?thesis .
qed

end
