(* ===== verification/Watch_Announcements.thy ===== *)
theory Watch_Announcements
  imports Watch_Turns
begin

text \<open>
  What a watcher announces once: sessions and incidents.  The locale \<open>announced_once\<close> is the contract of
  a kind of event with a set of keys that were seen; its interpretations are the joins and the
  incidents of the engine.  A failed poll has remembered what it never announced.
\<close>

section \<open>Keys of events\<close>

definition join_key :: "watch_event \<Rightarrow> jstr option" where
  "join_key ev = (case ev of JoinEvent _ j \<Rightarrow>
      Some (je_provider j @ js ''/'' @ je_session_id j @ js ''/'' @ or_default (js ''unscoped'') (je_workstream_id j))
    | _ \<Rightarrow> None)"

definition incident_event_key :: "watch_event \<Rightarrow> jstr option" where
  "incident_event_key ev = (case ev of IncidentEvent _ i \<Rightarrow> Some (ie_provider i @ js ''/'' @ ie_incident_id i) | _ \<Rightarrow> None)"

lemma filter_keys_append [simp]: "List.map_filter k (xs @ ys) = List.map_filter k xs @ List.map_filter k ys"
  by (simp add: List.map_filter_def)

lemma filter_keys_none: "\<forall>ev\<in>set evs. k ev = None \<Longrightarrow> List.map_filter k evs = []"
  by (simp add: List.map_filter_def filter_empty_conv)

section \<open>The scans\<close>

lemma scanJoins_once:
  "scanJoins opts sink now ps st = (st', evs) \<Longrightarrow>
   ws_knownSessions st' = ws_knownSessions st \<union> participation_key ` set ps \<and> ws_seenIncidents st' = ws_seenIncidents st \<and>
   distinct (List.map_filter join_key evs) \<and> set (List.map_filter join_key evs) \<subseteq> participation_key ` set ps - ws_knownSessions st \<and>
   (\<forall>ev\<in>set evs. incident_event_key ev = None)"
proof (induction ps arbitrary: st st' evs)
  case (Cons p ps)
  define st1 where "st1 = st\<lparr> ws_sessionWorkstream := AList.update (sessionKey p) (opt_text p ''workstream_id'') (ws_sessionWorkstream st) \<rparr>"
  have st1: "ws_knownSessions st1 = ws_knownSessions st" "ws_seenIncidents st1 = ws_seenIncidents st" by (simp_all add: st1_def)
  show ?case
  proof (cases "participation_key p \<in> ws_knownSessions st")
    case True
    with Cons.prems have "scanJoins opts sink now ps st1 = (st', evs)" by (simp add: Let_def st1_def)
    from Cons.IH [OF this] True st1 show ?thesis by auto
  next
    case False
    define st2 where "st2 = st1\<lparr> ws_knownSessions := insert (participation_key p) (ws_knownSessions st) \<rparr>"
    obtain st3 events where rest: "scanJoins opts sink now ps st2 = (st3, events)" by fastforce
    have st2: "ws_knownSessions st2 = insert (participation_key p) (ws_knownSessions st)" "ws_seenIncidents st2 = ws_seenIncidents st"
      by (simp_all add: st2_def st1)
    have evs: "st' = st3" "evs = events \<or> (\<exists>j. evs = JoinEvent now j # events \<and> join_key (JoinEvent now j) = Some (participation_key p))"
      using Cons.prems rest False
      by (auto simp: Let_def st1_def st2_def join_key_def participation_key_def sessionKey_def split: if_splits)
    from Cons.IH [OF rest] evs st2 False show ?thesis
      by (auto simp: List.map_filter_simps incident_event_key_def)
  qed
qed (simp add: List.map_filter_simps)

lemma scanIncidents_once:
  "scanIncidents opts sink now rs st = (st', evs) \<Longrightarrow>
   ws_seenIncidents st' = ws_seenIncidents st \<union> incident_key ` set rs \<and> ws_knownSessions st' = ws_knownSessions st \<and>
   distinct (List.map_filter incident_event_key evs) \<and>
   set (List.map_filter incident_event_key evs) \<subseteq> incident_key ` set rs - ws_seenIncidents st \<and>
   (\<forall>ev\<in>set evs. join_key ev = None)"
proof (induction rs arbitrary: st st' evs)
  case (Cons r rs)
  show ?case
  proof (cases "incident_key r \<in> ws_seenIncidents st")
    case True
    with Cons.prems have "scanIncidents opts sink now rs st = (st', evs)" by (simp add: Let_def)
    from Cons.IH [OF this] True show ?thesis by auto
  next
    case False
    define st2 where "st2 = st\<lparr> ws_seenIncidents := insert (incident_key r) (ws_seenIncidents st) \<rparr>"
    obtain st3 events where rest: "scanIncidents opts sink now rs st2 = (st3, events)" by fastforce
    have st2: "ws_seenIncidents st2 = insert (incident_key r) (ws_seenIncidents st)" "ws_knownSessions st2 = ws_knownSessions st"
      by (simp_all add: st2_def)
    have evs: "st' = st3" "evs = events \<or> (\<exists>i. evs = IncidentEvent now i # events \<and>
        incident_event_key (IncidentEvent now i) = Some (incident_key r))"
      using Cons.prems rest False by (auto simp: Let_def st2_def incident_event_key_def incident_key_def split: if_splits)
    from Cons.IH [OF rest] evs st2 False show ?thesis by (auto simp: List.map_filter_simps join_key_def)
  qed
qed (simp add: List.map_filter_simps)

lemma scanFeeds_once:
  "scanFeeds sha parse opts sink v st = (st', outc) \<Longrightarrow> ws_knownSessions st' = ws_knownSessions st \<and>
   ws_seenIncidents st' = ws_seenIncidents st \<and>
   (\<forall>evs ev. outc = Inr evs \<and> ev \<in> set evs \<longrightarrow> join_key ev = None \<and> incident_event_key ev = None)"
  by (auto simp: scanFeeds_def join_key_def incident_event_key_def split: sum.splits prod.splits)

lemma scanLeases_once:
  "scanLeases opts sink now ls st = (st', evs) \<Longrightarrow> ws_knownSessions st' = ws_knownSessions st \<and>
   ws_seenIncidents st' = ws_seenIncidents st \<and> (\<forall>ev\<in>set evs. join_key ev = None \<and> incident_event_key ev = None)"
  by (auto simp: scanLeases_def Let_def join_key_def incident_event_key_def split: prod.splits if_splits)

text \<open>A tick that succeeds, scan by scan.\<close>

lemma scan_all_Inr:
  assumes "scan_all sha parse opts sink v st = (st', Inr evs)"
  obtains ps joins st1 turns st2 rs incidents st3 ls stale where "wv_participations v = Inr ps"
    "scanJoins opts sink (wv_now v) ps st = (st1, joins)" "scanFeeds sha parse opts sink v st1 = (st2, Inr turns)"
    "scanIncidents opts sink (wv_now v) rs st2 = (st3, incidents)" "scanLeases opts sink (wv_now v) ls st3 = (st', stale)"
    "evs = joins @ turns @ incidents @ stale"
  using assms by (auto simp: scan_all_def split: sum.splits prod.splits)

lemma scan_all_grows:
  assumes "scan_all sha parse opts sink v st = (st', outc)"
  shows "ws_knownSessions st \<subseteq> ws_knownSessions st' \<and> ws_seenIncidents st \<subseteq> ws_seenIncidents st' \<and>
    (\<forall>ps. wv_participations v = Inr ps \<longrightarrow> participation_key ` set ps \<subseteq> ws_knownSessions st')"
  using assms
  by (auto simp: scan_all_def split: sum.splits prod.splits
      dest!: scanJoins_once scanFeeds_once scanIncidents_once scanLeases_once)

section \<open>The contract\<close>

locale announced_once =
  fixes known :: "watch_state \<Rightarrow> jstr set" and said :: "watch_event \<Rightarrow> jstr option"
  assumes grows: "scan_all sha parse opts sink v st = (st', outc) \<Longrightarrow> known st \<subseteq> known st'"
    and says: "scan_all sha parse opts sink v st = (st', Inr evs) \<Longrightarrow> distinct (List.map_filter said evs) \<and>
      set (List.map_filter said evs) \<subseteq> known st' - known st"
begin

lemma poll_grows: "poll sha parse opts v st = (st', outc) \<Longrightarrow> known st \<subseteq> known st'"
  by (auto simp: poll_def split: if_splits dest: grows)

lemma run_once:
  "poll_all sha parse opts vs st = (st', Inr evs) \<Longrightarrow> distinct (List.map_filter said evs) \<and>
   set (List.map_filter said evs) \<inter> known st = {}"
proof (induction vs arbitrary: st evs)
  case (Cons v vs)
  then obtain st1 evs1 evs2 where
    p: "poll sha parse opts v st = (st1, Inr evs1)" "poll_all sha parse opts vs st1 = (st', Inr evs2)" "evs = evs1 @ evs2"
    by (auto split: prod.splits sum.splits)
  from p(1) have "scan_all sha parse opts True v st = (st1, Inr evs1)" by (auto simp: poll_def split: if_splits)
  from says [OF this] grows [OF this] Cons.IH [OF p(2)] p(3) show ?case by auto
qed (simp add: List.map_filter_simps)

end

interpretation joins: announced_once ws_knownSessions join_key
proof
  show "ws_knownSessions st \<subseteq> ws_knownSessions st'" if "scan_all sha parse opts sink v st = (st', outc)"
    for sha parse opts sink v st st' outc using scan_all_grows [OF that] by blast
  show "distinct (List.map_filter join_key evs) \<and> set (List.map_filter join_key evs) \<subseteq> ws_knownSessions st' - ws_knownSessions st"
    if scan: "scan_all sha parse opts sink v st = (st', Inr evs)" for sha parse opts sink v st st' evs
    by (rule scan_all_Inr [OF scan])
      (auto simp: filter_keys_none dest!: scanJoins_once scanFeeds_once scanIncidents_once scanLeases_once)
qed

interpretation incidents: announced_once ws_seenIncidents incident_event_key
proof
  show "ws_seenIncidents st \<subseteq> ws_seenIncidents st'" if "scan_all sha parse opts sink v st = (st', outc)"
    for sha parse opts sink v st st' outc using scan_all_grows [OF that] by blast
  show "distinct (List.map_filter incident_event_key evs) \<and>
      set (List.map_filter incident_event_key evs) \<subseteq> ws_seenIncidents st' - ws_seenIncidents st"
    if scan: "scan_all sha parse opts sink v st = (st', Inr evs)" for sha parse opts sink v st st' evs
    by (rule scan_all_Inr [OF scan])
      (auto simp: filter_keys_none dest!: scanJoins_once scanFeeds_once scanIncidents_once scanLeases_once)
qed

section \<open>Properties\<close>

text \<open>C17: In polls that succeed one after the other, no session is announced twice for a workstream and
  no incident twice, and nothing is announced that was known before, as after the priming.\<close>

theorem watch_announces_once:
  assumes "poll_all sha parse opts vs st = (st', Inr evs)"
  shows "distinct (List.map_filter join_key evs) \<and> distinct (List.map_filter incident_event_key evs) \<and>
    set (List.map_filter join_key evs) \<inter> ws_knownSessions st = {} \<and>
    set (List.map_filter incident_event_key evs) \<inter> ws_seenIncidents st = {}"
  using joins.run_once [OF assms] incidents.run_once [OF assms] by simp

text \<open>The session is among those that the view shows, and its join is news.\<close>

definition fresh_join :: "watch_options \<Rightarrow> watch_state \<Rightarrow> watch_view \<Rightarrow> participation \<Rightarrow> bool" where
  "fresh_join opts st v p \<longleftrightarrow>
     (\<exists>ps. wv_participations v = Inr ps \<and> p \<in> set ps \<and> (\<forall>q\<in>set ps. participation_key q = participation_key p \<longrightarrow> q = p)) \<and>
     participation_key p \<notin> ws_knownSessions st \<and> Some (text_in p ''session_id'') \<noteq> wt_selfSessionId opts \<and>
     inScope opts (opt_text p ''workstream_id'')"

lemma scanJoins_announces:
  "scanJoins opts True now ps st = (st', evs) \<Longrightarrow> p \<in> set ps \<Longrightarrow>
   \<forall>q\<in>set ps. participation_key q = participation_key p \<longrightarrow> q = p \<Longrightarrow>
   participation_key p \<notin> ws_knownSessions st \<Longrightarrow> Some (text_in p ''session_id'') \<noteq> wt_selfSessionId opts \<Longrightarrow>
   inScope opts (opt_text p ''workstream_id'') \<Longrightarrow> participation_key p \<in> set (List.map_filter join_key evs)"
proof (induction ps arbitrary: st st' evs)
  case (Cons q ps)
  show ?case
  proof (cases "q = p")
    case True
    with Cons.prems show ?thesis
      by (auto simp: Let_def List.map_filter_simps join_key_def participation_key_def sessionKey_def split: prod.splits)
  next
    case False
    with Cons.prems(2,3) have p: "p \<in> set ps" "participation_key q \<noteq> participation_key p" by auto
    define st0 where "st0 = st\<lparr> ws_sessionWorkstream := AList.update (sessionKey q) (opt_text q ''workstream_id'') (ws_sessionWorkstream st) \<rparr>"
    define st1 where "st1 = (if participation_key q \<in> ws_knownSessions st then st0
        else st0\<lparr> ws_knownSessions := insert (participation_key q) (ws_knownSessions st) \<rparr>)"
    obtain st2 events where next_joins: "scanJoins opts True now ps st1 = (st2, events)" by fastforce
    have rest: "scanJoins opts True now ps st1 = (st2, events)" "participation_key p \<notin> ws_knownSessions st1" "set events \<subseteq> set evs"
      using Cons.prems(1,4) p(2) next_joins by (auto simp: Let_def st1_def st0_def split: if_splits)
    from Cons.IH [OF rest(1) p(1) _ rest(2) Cons.prems(5,6)] Cons.prems(3) rest(3)
    show ?thesis by (auto simp: List.map_filter_def)
  qed
qed simp

text \<open>C18: A poll that fails loses what it has found: a session that has joined is announced if the
  listing of the feeds succeeds, but if it fails the session is already known, the poll gives no
  events, and no later poll announces it.\<close>

theorem failed_poll_loses_joins:
  assumes "ws_primed st" "fresh_join opts st v p" "wv_files v = Inl e"
    and "poll sha parse opts v st = (st1, outc)" "poll_all sha parse opts vs st1 = (st2, Inr evs)"
  shows "outc = Inl e \<and> participation_key p \<notin> set (List.map_filter join_key evs) \<and>
    (\<forall>files st' evs'. poll sha parse opts (v\<lparr> wv_files := files \<rparr>) st = (st', Inr evs') \<longrightarrow>
       participation_key p \<in> set (List.map_filter join_key evs'))"
proof -
  from assms(2) obtain ps where ps: "wv_participations v = Inr ps" "p \<in> set ps"
    "\<forall>q\<in>set ps. participation_key q = participation_key p \<longrightarrow> q = p" by (auto simp: fresh_join_def)
  have scan: "scan_all sha parse opts True v st = (st1, outc)" using assms(1,4) by (simp add: poll_def)
  from scan ps(1) assms(3) have "outc = Inl e" by (auto simp: scan_all_def scanFeeds_def split: prod.splits)
  moreover have "participation_key p \<in> ws_knownSessions st1" using scan_all_grows [OF scan] ps by blast
  then have "participation_key p \<notin> set (List.map_filter join_key evs)" using joins.run_once [OF assms(5)] by blast
  moreover have "participation_key p \<in> set (List.map_filter join_key evs')"
    if "poll sha parse opts (v\<lparr> wv_files := files \<rparr>) st = (st', Inr evs')" for files st' evs'
  proof -
    have "scan_all sha parse opts True (v\<lparr> wv_files := files \<rparr>) st = (st', Inr evs')" using that assms(1) by (simp add: poll_def)
    then show ?thesis
      by (rule scan_all_Inr) (use ps assms(2) scanJoins_announces in \<open>fastforce simp: fresh_join_def\<close>)
  qed
  ultimately show ?thesis by blast
qed

section \<open>On a concrete watcher\<close>

definition sample_watch :: watch_options where
  "sample_watch = \<lparr> wt_projectRoot = js ''/p'', wt_selfSessionId = None, wt_workstreamId = None, wt_turnByteBudget = None,
     wt_cwd = [] \<rparr>"

definition sample_feed :: jsonl_file where
  "sample_feed = \<lparr> ff_provider = js ''codex'', ff_sessionId = js ''s'', ff_components = [js ''feed'', js ''codex'', js ''s.jsonl''] \<rparr>"

text \<open>A store with one feed, which has the given bytes, and one session that has joined.\<close>

definition sample_member :: participation where
  "sample_member = [(js ''schema'', JStr SESSION_PARTICIPATION_SCHEMA), (js ''provider'', JStr (js ''codex'')),
     (js ''session_id'', JStr (js ''s'')), (js ''joined_at'', JStr (to_iso 0)), (js ''initiated_by'', JStr (js ''user_prompt''))]"

definition sample_view :: "participation list \<Rightarrow> byte list \<Rightarrow> watch_view" where
  "sample_view ps b = \<lparr> wv_now = 0, wv_participations = Inr ps, wv_files = Inr [sample_feed],
     wv_feed = (\<lambda>_. \<lparr> fv_size = Some (length b),
       fv_open = Some (sample_file b, \<lambda>start. [drop (nat start) b], sample_file b) \<rparr>),
     wv_incidents = Inr [], wv_snapshots = Inr [], wv_active = Inr [] \<rparr>"

lemma sample_shows: "shows_feed sample_watch sample_feed b (sample_view ps b)"
  by (simp add: shows_feed_def sample_view_def watched_files_def sample_watch_def proper_files_def)

lemmas watch_evaluation = prime_def poll_def scan_all_def scanFeeds_def scan_file_def consumeFeed_def scanLeases_def
  sample_view_def sample_watch_def watched_files_def other_leases_def projectWriteClaims_def new_watch_state_def Let_def

lemma sample_prime:
  "\<exists>st armed. prime sample_sha sample_parser sample_watch (sample_view [] []) new_watch_state = (st, Inr armed) \<and>
     ws_primed st \<and> ws_knownSessions st = {} \<and> ws_feedCursors st (ff_components sample_feed) = Some 0 \<and>
     ws_seenIncidents st = {} \<and> ws_conflicts st = {}"
  by (simp add: watch_evaluation read_from_def read_evaluation)

lemma sample_poll:
  assumes "ws_primed st" "ws_feedCursors st (ff_components sample_feed) = Some 0"
  shows "\<exists>st' evs. poll sample_sha sample_parser sample_watch (sample_view ps [0x31, 0x0A]) st = (st', Inr evs)"
proof -
  obtain st1 joins where j: "scanJoins sample_watch True 0 ps st = (st1, joins)" by fastforce
  have c: "ws_feedCursors st1 [js ''feed'', js ''codex'', js ''s.jsonl''] = Some 0"
    using scanJoins_keeps [OF j] assms(2) by (simp add: sample_feed_def)
  have "isTurnV1 (JNum (NInt 1)) = Inr False" by (simp add: isTurnV1_def)
  with assms(1) j c show ?thesis
    by (simp add: watch_evaluation [unfolded sample_watch_def] read_from_def read_evaluation sample_feed_def)
qed

text \<open>A line that is no turn is no news.\<close>

theorem watch_turns_exact_witness:
  "\<exists>st st' armed evs. prime sample_sha sample_parser sample_watch (sample_view [] []) new_watch_state = (st, Inr armed) \<and>
     poll_all sample_sha sample_parser sample_watch [sample_view [] [0x31, 0x0A]] st = (st', Inr evs) \<and>
     turns_of sample_feed evs = []"
proof -
  obtain st armed where p: "prime sample_sha sample_parser sample_watch (sample_view [] []) new_watch_state = (st, Inr armed)"
    "ws_primed st" "ws_feedCursors st (ff_components sample_feed) = Some 0" using sample_prime by blast
  obtain st' evs where q: "poll sample_sha sample_parser sample_watch (sample_view [] [0x31, 0x0A]) st = (st', Inr evs)"
    using sample_poll [OF p(2,3)] by blast
  then have all: "poll_all sample_sha sample_parser sample_watch [sample_view [] [0x31, 0x0A]] st = (st', Inr evs)" by simp
  have "feed_run sample_watch sample_feed [] [sample_view [] [0x31, 0x0A]] [0x31, 0x0A]"
    by (rule grow [of _ _ "[]" "[0x31, 0x0A]", simplified, OF sample_shows stop])
  from watch_turns_exact [OF p(1) sample_shows this all] have "map Inr (turns_of sample_feed evs) = map (turnEvent sample_watch)
      (List.map_filter (news_on sample_parser sample_watch sample_feed) [[0x31]])"
    by (simp add: complete_lines_def)
  moreover have "news_on sample_parser sample_watch sample_feed [0x31] = None"
    by (simp add: news_on_def make_line_def content_bytes_def at_last_def fatalDecode_def sample_parser_def
        units_of_cp_def unit_of_def isTurnV1_def)
  ultimately have "turns_of sample_feed evs = []" by (simp add: List.map_filter_simps)
  with p(1) all show ?thesis by blast
qed

theorem watch_announces_once_witness:
  "\<exists>st st' evs. poll_all sample_sha sample_parser sample_watch [sample_view [sample_member] [0x31, 0x0A]] st = (st', Inr evs) \<and>
     distinct (List.map_filter join_key evs)"
proof -
  obtain st armed where "prime sample_sha sample_parser sample_watch (sample_view [] []) new_watch_state = (st, Inr armed)"
    and p: "ws_primed st" "ws_feedCursors st (ff_components sample_feed) = Some 0" using sample_prime by blast
  obtain st' evs where "poll sample_sha sample_parser sample_watch (sample_view [sample_member] [0x31, 0x0A]) st = (st', Inr evs)"
    using sample_poll [OF p] by blast
  then have "poll_all sample_sha sample_parser sample_watch [sample_view [sample_member] [0x31, 0x0A]] st = (st', Inr evs)" by simp
  with watch_announces_once [OF this] show ?thesis by blast
qed

theorem failed_poll_loses_joins_witness:
  "\<exists>st st1 st2 evs.
     poll sample_sha sample_parser sample_watch (sample_view [sample_member] [] \<lparr> wv_files := Inl UnsafeStorePathError \<rparr>) st
       = (st1, Inl UnsafeStorePathError) \<and>
     poll_all sample_sha sample_parser sample_watch [sample_view [sample_member] [0x31, 0x0A]] st1 = (st2, Inr evs) \<and>
     participation_key sample_member \<notin> set (List.map_filter join_key evs)"
proof -
  let ?v = "sample_view [sample_member] [] \<lparr> wv_files := Inl UnsafeStorePathError \<rparr>"
  obtain st armed where "prime sample_sha sample_parser sample_watch (sample_view [] []) new_watch_state = (st, Inr armed)"
    and p: "ws_primed st" "ws_knownSessions st = {}" "ws_feedCursors st (ff_components sample_feed) = Some 0"
    using sample_prime by blast
  have fresh: "fresh_join sample_watch st ?v sample_member"
    using p(2) by (simp add: fresh_join_def sample_view_def sample_watch_def inScope_def)
  obtain st1 joins where j: "scanJoins sample_watch True 0 [sample_member] st = (st1, joins)" by fastforce
  have first: "poll sample_sha sample_parser sample_watch ?v st = (st1, Inl UnsafeStorePathError)"
    using p(1) j by (simp add: poll_def scan_all_def scanFeeds_def sample_view_def)
  have "ws_primed st1" "ws_feedCursors st1 (ff_components sample_feed) = Some 0" using scanJoins_keeps [OF j] p by simp_all
  from sample_poll [OF this] obtain st2 evs where
    "poll sample_sha sample_parser sample_watch (sample_view [sample_member] [0x31, 0x0A]) st1 = (st2, Inr evs)" by blast
  then have run: "poll_all sample_sha sample_parser sample_watch [sample_view [sample_member] [0x31, 0x0A]] st1 = (st2, Inr evs)"
    by simp
  have "wv_files ?v = Inl UnsafeStorePathError" by simp
  from failed_poll_loses_joins [OF p(1) fresh this first run] first run show ?thesis by blast
qed

end
