(* ===== verification/Spec2Isabelle.thy ===== *)
theory Spec2Isabelle
  imports Read_States Participation_Size Timestamps Active_Upkeep Lease_Overlaps Lock_Runs Jsonl_Publishing
    Reader_Examples Evidence_Pages Watch_Announcements
begin

text \<open>
  \<^bold>\<open>A verification development for Barbaro.\<close>

  Barbaro lets coding agents that work in one project see each other.  Hooks of the agents' tools
  write small JSON files and append-only JSONL feeds below \<open>.barbaro\<close>; readers, nudges and watchers
  look at these files.  There is no server: everything that has to hold between processes is held by
  how files are written, locked, validated and read again.  The development models this core, the
  code under \<open>src/\<close> that decides what is in the files and what is made of them, and proves what the
  other parts rely on.

  \<^bold>\<open>The program and the theories.\<close>

  \<^item> \<open>Prelude\<close>, \<open>Js_Text\<close>, \<open>Utf8_Decode\<close>, \<open>Js_Value\<close>, \<open>Js_Time\<close>, \<open>Json_Object\<close>, \<open>Decoders\<close>, \<open>Replay\<close>:
    the part of JavaScript the code is written in.  A string is a list of UTF-16 code units
    (\<open>jstr\<close>), a file a list of bytes, a value a \<open>jsval\<close>, a number an integer wherever the code checks
    that it is a safe one, a thrown error the left side of a \<open>result\<close>.  \<open>Replay\<close> has the locale of the
    steps that absorb what they have already seen.
  \<^item> \<open>Stable_Json\<close>, \<open>Text_Bounds\<close>: \<open>core/stable-json.ts\<close>, the serializer whose text is hashed,
    compared and written.  \<open>canon\<close> is the reference: two values have the same text exactly when they
    have the same canonical form.
  \<^item> \<open>Typed_Id\<close>: \<open>core/id.ts\<close> and \<open>active/identity.ts\<close>, identifiers as hashes of an injective framing.
  \<^item> \<open>Reader_Budget\<close>: \<open>reader/budget.ts\<close>, the byte budget of what readers hand out.
  \<^item> \<open>Checkpoint\<close>, \<open>Jsonl_Reader\<close>, \<open>Jsonl_Lines\<close>: \<open>core/checkpoint.ts\<close> and \<open>core/jsonl-reader.ts\<close>,
    positions in growing feeds, and the reader that yields their lines; \<open>split_lines\<close> is the reference
    of the chunk loop.
  \<^item> \<open>Byte_Ranges\<close>, \<open>Read_Coverage\<close>, \<open>Coverage_Merge\<close>, \<open>Read_States\<close>: \<open>nudge/read-state.ts\<close>, which bytes of
    which record an agent has been shown.  The decoder of read states accepts exactly the objects that
    spell a well-formed state.
  \<^item> \<open>Safe_Store\<close>, \<open>Store_Writes\<close>, \<open>Record_Store\<close>: \<open>core/safe-store.ts\<close> and \<open>core/atomic-json.ts\<close>.  A
    store maps paths to entries; an operation gives the states the tree passes through, so that a
    crash is one of them.  The locale \<open>record_store\<close> is the contract of a directory of record files,
    interpreted for the files themselves, for workstreams, for participations and for leases.
  \<^item> \<open>Directory_Lock\<close>, \<open>Lock_Safety\<close>, \<open>Lock_Runs\<close>: \<open>output/directory-lock.ts\<close>, the lock between
    processes, as a step relation of concurrent tasks.  A step is a call to the operating system, or
    a few made one after the other on the same object (the verification of a path, the read or the
    writing of the owner record), between which other tasks are not interleaved.
  \<^item> \<open>Jsonl_Store\<close>, \<open>Jsonl_Feed\<close>, \<open>Jsonl_Appends\<close>, \<open>Jsonl_Publishing\<close>: \<open>output/jsonl-store.ts\<close>, the
    append-only feeds; the abstraction is the map from identifiers to texts a feed publishes, on which
    an append is an interpretation of the absorbing steps of \<open>Replay\<close>.  \<open>missing\<close> gives the lines an
    append adds, and \<open>clashing\<close> the conflicts it counts.
  \<^item> \<open>Reader_Records\<close>, \<open>Reader_Feeds\<close>, \<open>Reader_Laws\<close>, \<open>Reader_Context\<close>, \<open>Reader_Examples\<close>:
    \<open>reader/store.ts\<close> and \<open>core/feed-availability.ts\<close>, the guards of what a feed may hold and the reading
    of the feeds; the reference is the list of the complete lines of a file, of which the newest turns
    are taken, and all of them when nothing limits the history.
  \<^item> \<open>Workstreams\<close>, \<open>Workstream_Store\<close>, \<open>Workstream_Laws\<close>: \<open>workstreams/store.ts\<close>, named workstreams;
    the abstraction is the map \<open>names_of\<close> from names to records.
  \<^item> \<open>Participation\<close>, \<open>Participation_Laws\<close>, \<open>Participation_History\<close>, \<open>Participation_Consent\<close>,
    \<open>Participation_Size\<close>: \<open>hooks/participation.ts\<close>, the consent of a session, given by a prompt that
    leads with the Barbaro command, and the history of its memberships.  What other processes do while
    an enrolment waits for a lock is an argument of it (\<open>interference\<close>); \<open>locked_store\<close> is the store it
    finds once it holds the lock of the session.
  \<^item> \<open>Active_Validation\<close>, \<open>Active_Validation_Laws\<close>, \<open>Timestamps\<close>, \<open>Active_Store\<close>, \<open>Active_Store_Files\<close>,
    \<open>Active_Store_Laws\<close>, \<open>Active_Leases\<close>, \<open>Active_Reaping\<close>, \<open>Active_Writes\<close>, \<open>Active_Fence\<close>,
    \<open>Active_Listing\<close>, \<open>Active_Upkeep\<close>: \<open>active/validation.ts\<close> and \<open>active/store.ts\<close>, the leases that say
    what an agent is doing.  A relation between the leases before and after, which the locale
    \<open>lease_relation\<close> carries through every operation, gives the fence against delayed writers.
    \<open>Timestamps\<close> spells dates and times, and says which instant a text names.
  \<^item> \<open>Lease_Claims\<close>, \<open>Lease_Overlaps\<close>: \<open>active/conflicts.ts\<close> and the paths of \<open>core/content.ts\<close>, which
    files agents are about to write and where they collide.
  \<^item> \<open>Watch_Engine\<close>, \<open>Watch_Laws\<close>, \<open>Watch_Turns\<close>, \<open>Watch_Announcements\<close>: \<open>watch/engine.ts\<close>, the
    incremental scanner that reports what is new.  It combines the feed reader, the line reader, the
    projection of turns and the overlaps of leases; the turns it reports are compared with the lines
    of the feed, and the locale \<open>announced_once\<close> is the contract of the keys that mark what was seen,
    interpreted for joins and for incidents.

  \<^bold>\<open>How state and operations correspond.\<close>  A definition has the name of the function it models wherever
  the name is free.  A class with private fields is a record or the tree of its files.  An
  asynchronous operation on files is an \<open>action\<close>: a function from the tree to the states it passes
  through and its result; the operations that wait for a lock take the actions of the other
  processes meanwhile as a parameter (\<open>others\<close>), and the lock itself is modelled apart.  Loops are
  structural recursions over what they walk through, or terminate by a measure; the envelope of
  \<open>wrapReaderProjection\<close> has the 16 attempts of the code, and \<open>wrapReaderProjection_exact\<close> shows that
  they are enough.

  \<^bold>\<open>Parameters.\<close>  SHA-256 (\<open>sha\<close>), lower casing (\<open>lower\<close>), \<open>JSON.parse\<close> of arbitrary text (\<open>parse\<close>), the
  listings of directories (\<open>entries\<close>, \<open>readdir\<close>), random suffixes and tokens (\<open>nonce\<close>, \<open>token\<close>), clocks and
  the recognition of a Codex skill attachment (\<open>attachment\<close>) come from outside and are arguments of the
  definitions that use them.

  \<^bold>\<open>Bounds of the model.\<close>  Values are finite trees, so that the cycle check of the serializer has nothing
  to find.  \<open>Date.parse\<close> is modelled on the full date-time spelling of RFC 3339, which is what the code
  writes.  A JSON file in the guarded tree is its size and what \<open>JSON.parse\<close> makes of it; a file
  written by the code reads as the canonical form of what was written.

  \<^bold>\<open>Not modelled.\<close>  \<open>realpath\<close> containment and permissions of the guarded tree, redaction (regular
  expressions over free text), the normalizers of provider traces, the runners and hooks that feed
  them, the projections of whole stores and contexts, the setup, the terminal interface and the
  command line: these are mostly formatting and process glue around the core, or large conversions of
  foreign formats whose meaning lies outside the repository.
\<close>

end
